(* ===== verification/Prelude.thy ===== *)
theory Prelude
  imports Main "HOL-Library.Word" "HOL-Library.Sublist" "HOL-Library.Code_Target_Nat"
begin

text \<open>
  Shared vocabulary of the development: the machine types of the C code, the outcome of a
  fallible routine, byte memory with checked access, \<open>size_t\<close> subtraction with its
  wrap-around, and the generic facts about lists and bytes the components use.

  \<^item> A C object (a packet buffer) is a byte list; a pointer into it is an offset. Every
    access is checked: an access outside the object is the outcome \<open>Oob\<close>, so a routine
    is memory safe on an input exactly when its outcome there is not \<open>Oob\<close>.
  \<^item> A routine that can go wrong returns \<open>err + 'a\<close>. \<open>Fail\<close> is the error the C
    code itself reports (\<open>return -1\<close>, \<open>return NULL\<close>, \<open>goto Bail\<close>);
    \<open>Oob\<close>, \<open>Null\<close>, \<open>Uaf\<close> and \<open>Diverge\<close> are the faults C leaves
    undefined (out-of-bounds access or a read of an uninitialised variable, NULL dereference, use
    of a freed object) and the loop
    that never ends.
\<close>

unbundle bit_operations_syntax

section \<open>Machine types\<close>

type_synonym byte = "8 word"
type_synonym bytes = "byte list"
type_synonym u8 = "8 word"
type_synonym u16 = "16 word"
type_synonym u32 = "32 word"
type_synonym u64 = "64 word"

text \<open>A read cursor \<open>(uint8_t *p, size_t len)\<close>: an offset and the remaining length.\<close>

type_synonym cursor = "nat \<times> nat"

text \<open>A buffer filled backwards, \<open>(size_t *offset, uint8_t *buf)\<close>.\<close>

type_synonym outbuf = "nat \<times> bytes"

section \<open>Outcomes\<close>

datatype err = Fail | Oob | Null | Uaf | Diverge

type_synonym 'a res = "err + 'a"

definition bindE :: "'e + 'a \<Rightarrow> ('a \<Rightarrow> 'e + 'b) \<Rightarrow> 'e + 'b" where
  "bindE m f = (case m of Inl e \<Rightarrow> Inl e | Inr x \<Rightarrow> f x)"

lemma bindE_simps [simp]:
  "bindE (Inl e) f = Inl e"
  "bindE (Inr x) f = f x"
  by (simp_all add: bindE_def)

lemma bindE_cong [fundef_cong]:
  "m = m' \<Longrightarrow> (\<And>x. m' = Inr x \<Longrightarrow> f x = g x) \<Longrightarrow> bindE m f = bindE m' g"
  by (simp add: bindE_def split: sum.splits)

lemma bindE_assoc: "bindE (bindE m f) g = bindE m (\<lambda>x. bindE (f x) g)"
  by (simp add: bindE_def split: sum.splits)

lemma bindE_eq_Inr_iff: "bindE m f = Inr y \<longleftrightarrow> (\<exists>x. m = Inr x \<and> f x = Inr y)"
  by (simp add: bindE_def split: sum.splits)

lemma bindE_eq_Inl_iff: "bindE m f = Inl e \<longleftrightarrow> m = Inl e \<or> (\<exists>x. m = Inr x \<and> f x = Inl e)"
  by (simp add: bindE_def split: sum.splits)

lemma bindE_split: "P (bindE m f) \<longleftrightarrow> (\<forall>e. m = Inl e \<longrightarrow> P (Inl e)) \<and> (\<forall>x. m = Inr x \<longrightarrow> P (f x))"
  by (simp add: bindE_def split: sum.splits)

section \<open>Checked byte memory\<close>

definition rd :: "bytes \<Rightarrow> nat \<Rightarrow> byte res" where
  "rd m p = (if p < length m then Inr (m ! p) else Inl Oob)"

text \<open>The \<open>n\<close> bytes from \<open>p\<close>, as \<open>memcpy\<close> reads them.\<close>

definition slice :: "bytes \<Rightarrow> nat \<Rightarrow> nat \<Rightarrow> bytes res" where
  "slice m p n = (if p + n \<le> length m then Inr (take n (drop p m)) else Inl Oob)"

definition wr :: "bytes \<Rightarrow> nat \<Rightarrow> byte \<Rightarrow> bytes res" where
  "wr m p b = (if p < length m then Inr (m[p := b]) else Inl Oob)"

text \<open>\<open>memcpy (buf + p, xs, n)\<close>.\<close>

definition wrs :: "bytes \<Rightarrow> nat \<Rightarrow> bytes \<Rightarrow> bytes res" where
  "wrs m p xs = (if p + length xs \<le> length m
     then Inr (take p m @ xs @ drop (p + length xs) m) else Inl Oob)"

lemma rd_Inr [simp]: "p < length m \<Longrightarrow> rd m p = Inr (m ! p)"
  by (simp add: rd_def)

lemma rd_eq_Inr_iff: "rd m p = Inr b \<longleftrightarrow> p < length m \<and> b = m ! p"
  by (auto simp: rd_def)

lemma rd_Oob [simp]: "length m \<le> p \<Longrightarrow> rd m p = Inl Oob"
  by (simp add: rd_def)

lemma slice_eq_Inr_iff: "slice m p n = Inr xs \<longleftrightarrow> p + n \<le> length m \<and> xs = take n (drop p m)"
  by (auto simp: slice_def)

text \<open>The bytes \<open>xs\<close> stand at offset \<open>p\<close>.\<close>

definition at_pos :: "bytes \<Rightarrow> nat \<Rightarrow> bytes \<Rightarrow> bool" where
  "at_pos m p xs \<longleftrightarrow> p + length xs \<le> length m \<and> take (length xs) (drop p m) = xs"

lemma at_pos_slice: "at_pos m p xs \<Longrightarrow> n = length xs \<Longrightarrow> slice m p n = Inr xs"
  by (simp add: at_pos_def slice_def)

lemma at_pos_append [simp]: "at_pos m p (xs @ ys) \<longleftrightarrow> at_pos m p xs \<and> at_pos m (p + length xs) ys"
proof (cases "p + length (xs @ ys) \<le> length m")
  case True
  have "take (length (xs @ ys)) (drop p m) = take (length xs) (drop p m) @ take (length ys) (drop (p + length xs) m)"
    by (simp add: take_add add.commute)
  moreover have "length (take (length xs) (drop p m)) = length xs" using True by simp
  ultimately have "take (length (xs @ ys)) (drop p m) = xs @ ys \<longleftrightarrow>
      take (length xs) (drop p m) = xs \<and> take (length ys) (drop (p + length xs) m) = ys"
    by (metis append_eq_append_conv)
  then show ?thesis using True by (simp add: at_pos_def del: take_append)
next
  case False
  then show ?thesis by (simp add: at_pos_def)
qed

lemma at_pos_Cons: "at_pos m p (x # xs) \<longleftrightarrow> rd m p = Inr x \<and> at_pos m (p + 1) xs"
proof -
  have "at_pos m p [x] \<longleftrightarrow> rd m p = Inr x"
    by (cases "p < length m") (auto simp: at_pos_def rd_def Cons_nth_drop_Suc[symmetric])
  then show ?thesis using at_pos_append[of m p "[x]" xs] by simp
qed

lemma at_pos_self [simp]: "at_pos (pre @ xs @ post) (length pre) xs"
  by (simp add: at_pos_def)

lemma at_pos_take: "at_pos m p xs \<Longrightarrow> p + length xs \<le> q \<Longrightarrow> at_pos (take q m) p xs"
  by (auto simp: at_pos_def drop_take min_def)

lemma at_pos_bound: "at_pos m p xs \<Longrightarrow> p + length xs \<le> length m"
  by (simp add: at_pos_def)

section \<open>\<open>size_t\<close>\<close>

text \<open>\<open>size_t\<close> is 64 bits wide: a length is a natural number below \<open>2 ^ 64\<close>, and its
  subtraction wraps.\<close>

definition wsub :: "nat \<Rightarrow> nat \<Rightarrow> nat" where
  "wsub a b = (a + 2 ^ 64 - b) mod 2 ^ 64"

lemma wsub_le: "b \<le> a \<Longrightarrow> a < 2 ^ 64 \<Longrightarrow> wsub a b = a - b"
proof -
  assume "b \<le> a" "a < 2 ^ 64"
  then have "a + 2 ^ 64 - b = 2 ^ 64 + (a - b)" and "a - b < 2 ^ 64" by simp_all
  then show ?thesis by (simp only: wsub_def mod_add_self1 mod_less)
qed

lemma wsub_less: "wsub a b < 2 ^ 64"
  by (simp add: wsub_def)

lemma wsub_wrap: "a < b \<Longrightarrow> b < 2 ^ 64 \<Longrightarrow> wsub a b = 2 ^ 64 - (b - a)"
  by (simp add: wsub_def)

section \<open>Byte lists\<close>

lemma take_drop_nth: "p < length m \<Longrightarrow> take (Suc n) (drop p m) = m ! p # take n (drop (Suc p) m)"
  by (metis Cons_nth_drop_Suc take_Suc_Cons)

text \<open>Big-endian (network order) byte strings of 64-bit values.\<close>

primrec be_bytes :: "nat \<Rightarrow> u64 \<Rightarrow> bytes" where
  "be_bytes 0 v = []"
| "be_bytes (Suc n) v = be_bytes n (drop_bit 8 v) @ [ucast v]"

definition be_step :: "u64 \<Rightarrow> byte \<Rightarrow> u64" where
  "be_step v b = push_bit 8 v OR ucast b"

definition be_val :: "bytes \<Rightarrow> u64" where
  "be_val bs = foldl be_step 0 bs"

lemma length_be_bytes [simp]: "length (be_bytes n v) = n"
  by (induction n arbitrary: v) simp_all

lemma be_val_Nil [simp]: "be_val [] = 0"
  by (simp add: be_val_def)

lemma be_val_snoc [simp]: "be_val (bs @ [b]) = push_bit 8 (be_val bs) OR ucast b"
  by (simp add: be_val_def be_step_def)

lemma ucast_byte_u64: "ucast (ucast v :: byte) = (take_bit 8 v :: u64)"
  by (rule bit_word_eqI) (simp add: bit_simps)

lemma be_val_be_bytes [simp]: "be_val (be_bytes n v) = take_bit (8 * n) v"
proof (induction n arbitrary: v)
  case 0
  show ?case by simp
next
  case (Suc n)
  have "push_bit 8 (take_bit (8 * n) (drop_bit 8 v)) OR take_bit 8 v = take_bit (8 * Suc n) v"
    by (rule bit_word_eqI) (auto simp: bit_simps)
  then show ?case by (simp add: Suc.IH ucast_byte_u64)
qed

lemma take_bit_u64_id: "v < 2 ^ k \<Longrightarrow> take_bit k v = (v :: u64)"
  by (simp add: take_bit_eq_mod mod_word_less)

section \<open>Finite words\<close>

text \<open>A fact about the words below a bound is a finite check.\<close>

lemma word_below_all: "(\<forall>c :: 'a::len word. unat c < k \<longrightarrow> P c) \<longleftrightarrow> (\<forall>n\<in>set [0..<k]. n < 2 ^ LENGTH('a) \<longrightarrow> P (word_of_nat n))"
proof
  assume all: "\<forall>n\<in>set [0..<k]. n < 2 ^ LENGTH('a) \<longrightarrow> P (word_of_nat n)"
  show "\<forall>c. unat c < k \<longrightarrow> P c"
  proof (intro allI impI)
    fix c :: "'a word" assume k: "unat c < k"
    obtain n where "c = word_of_nat n" "n < 2 ^ LENGTH('a)" by (cases c rule: word_nat_cases) auto
    with all k show "P c" by (auto simp: unat_of_nat)
  qed
qed (auto simp: unat_of_nat)


lemma nibbles: "drop_bit 4 c * 16 + (c AND 0xf) = (c::byte)"
proof -
  have "c AND 0xf = take_bit 4 c" by (simp add: take_bit_eq_mask mask_eq_exp_minus_1)
  moreover have "drop_bit 4 c * 16 = push_bit 4 (drop_bit 4 c)" by (simp add: push_bit_eq_mult)
  ultimately show ?thesis using bits_ident[of 4 c] by simp
qed

lemma drop_nibble: "drop_bit 4 (c::byte) < 16"
proof -
  have "unat c div 16 < 16" using unsigned_less[of c, where ?'a = nat] by simp
  then show ?thesis by (simp add: word_less_nat_alt drop_bit_eq_div unat_div)
qed

lemma and_nibble: "(c::byte) AND 0xf < 16"
proof -
  have "c AND 0xf = take_bit 4 c" by (simp add: take_bit_eq_mask mask_eq_exp_minus_1)
  then show ?thesis by (simp add: take_bit_eq_mod word_less_nat_alt unat_mod)
qed

lemma sint_7bit: "(c::byte) < 0x80 \<Longrightarrow> sint c = uint c"
  by (simp add: word_less_def sint_uint signed_take_bit_int_eq_self_iff order_trans[of _ 0])


end
