(* ===== verification/Defs.thy ===== *)
theory Defs
  imports Prelude
begin

text \<open>
  The constants of \<open>ccnl-core/include/ccnl-defs.h\<close> for the default Unix build (all four
  packet formats compiled in), under their C names, and the small functions on suite numbers of
  \<open>ccnl-core/src/ccnl-pkt-util.c\<close> and \<open>ccnl-pkt/src/ccnl-pkt-switch.c\<close>.
\<close>

section \<open>Constants\<close>

abbreviation (input) CCNL_SUITE_CCNB :: int where "CCNL_SUITE_CCNB \<equiv> 1"
abbreviation (input) CCNL_SUITE_CCNTLV :: int where "CCNL_SUITE_CCNTLV \<equiv> 2"
abbreviation (input) CCNL_SUITE_LOCALRPC :: int where "CCNL_SUITE_LOCALRPC \<equiv> 5"
abbreviation (input) CCNL_SUITE_NDNTLV :: int where "CCNL_SUITE_NDNTLV \<equiv> 6"

abbreviation (input) CCNL_MAX_INTERFACES :: nat where "CCNL_MAX_INTERFACES \<equiv> 10"
abbreviation (input) CCNL_MAX_IF_QLEN :: nat where "CCNL_MAX_IF_QLEN \<equiv> 64"
abbreviation (input) CCNL_MAX_PACKET_SIZE :: nat where "CCNL_MAX_PACKET_SIZE \<equiv> 8096"
abbreviation (input) CCNL_MAX_NAME_COMP :: nat where "CCNL_MAX_NAME_COMP \<equiv> 64"
abbreviation (input) CCNL_MAX_PREFIX_SIZE :: nat where "CCNL_MAX_PREFIX_SIZE \<equiv> 2048"
abbreviation (input) CCNL_MAX_NONCES :: nat where "CCNL_MAX_NONCES \<equiv> 256"

abbreviation (input) CCNL_CONTENT_TIMEOUT :: u32 where "CCNL_CONTENT_TIMEOUT \<equiv> 300"
abbreviation (input) CCNL_INTEREST_TIMEOUT :: u64 where "CCNL_INTEREST_TIMEOUT \<equiv> 10"
abbreviation (input) CCNL_FACE_TIMEOUT :: u32 where "CCNL_FACE_TIMEOUT \<equiv> 30"
abbreviation (input) CCNL_MAX_INTEREST_RETRANSMIT :: nat where "CCNL_MAX_INTEREST_RETRANSMIT \<equiv> 7"

abbreviation (input) CMP_EXACT :: int where "CMP_EXACT \<equiv> 0"
abbreviation (input) CMP_MATCH :: int where "CMP_MATCH \<equiv> 1"
abbreviation (input) CMP_LONGEST :: int where "CMP_LONGEST \<equiv> 2"

abbreviation (input) CCNL_ENC_CCNB :: int where "CCNL_ENC_CCNB \<equiv> 0"
abbreviation (input) CCNL_ENC_NDN2013 :: int where "CCNL_ENC_NDN2013 \<equiv> 1"
abbreviation (input) CCNL_ENC_CCNX2014 :: int where "CCNL_ENC_CCNX2014 \<equiv> 2"
abbreviation (input) CCNL_ENC_LOCALRPC :: int where "CCNL_ENC_LOCALRPC \<equiv> 3"

abbreviation (input) CCN_UDP_PORT :: int where "CCN_UDP_PORT \<equiv> 9695"
abbreviation (input) NDN_UDP_PORT :: int where "NDN_UDP_PORT \<equiv> 6363"

section \<open>Suites\<close>

definition ccnl_str2suite :: "string option \<Rightarrow> int" where
  "ccnl_str2suite cp = (case cp of None \<Rightarrow> -1
    | Some s \<Rightarrow>
        if s = ''ccnb'' then CCNL_SUITE_CCNB
        else if s = ''ccnx2015'' then CCNL_SUITE_CCNTLV
        else if s = ''localrpc'' then CCNL_SUITE_LOCALRPC
        else if s = ''ndn2013'' then CCNL_SUITE_NDNTLV
        else -1)"

definition ccnl_suite2str :: "int \<Rightarrow> string" where
  "ccnl_suite2str suite =
    (if suite = CCNL_SUITE_CCNB then ''ccnb''
     else if suite = CCNL_SUITE_CCNTLV then ''ccnx2015''
     else if suite = CCNL_SUITE_LOCALRPC then ''localrpc''
     else if suite = CCNL_SUITE_NDNTLV then ''ndn2013''
     else ''?'')"

definition ccnl_suite2defaultPort :: "int \<Rightarrow> int" where
  "ccnl_suite2defaultPort suite =
    (if suite = CCNL_SUITE_CCNB then CCN_UDP_PORT
     else if suite = CCNL_SUITE_CCNTLV then CCN_UDP_PORT
     else if suite = CCNL_SUITE_NDNTLV then NDN_UDP_PORT
     else NDN_UDP_PORT)"

definition ccnl_isSuite :: "int \<Rightarrow> bool" where
  "ccnl_isSuite suite \<longleftrightarrow> suite = CCNL_SUITE_CCNB \<or> suite = CCNL_SUITE_CCNTLV
     \<or> suite = CCNL_SUITE_LOCALRPC \<or> suite = CCNL_SUITE_NDNTLV"

definition ccnl_enc2suite :: "int \<Rightarrow> int" where
  "ccnl_enc2suite enc =
    (if enc = CCNL_ENC_CCNB then CCNL_SUITE_CCNB
     else if enc = CCNL_ENC_NDN2013 then CCNL_SUITE_NDNTLV
     else if enc = CCNL_ENC_CCNX2014 then CCNL_SUITE_CCNTLV
     else if enc = CCNL_ENC_LOCALRPC then CCNL_SUITE_LOCALRPC
     else -1)"

lemma suite_name_inverse: "ccnl_isSuite s \<Longrightarrow> ccnl_str2suite (Some (ccnl_suite2str s)) = s"
  by (auto simp: ccnl_isSuite_def ccnl_suite2str_def ccnl_str2suite_def)

lemma str2suite_valid: "ccnl_str2suite cp = -1 \<or> ccnl_isSuite (ccnl_str2suite cp)"
  by (auto simp: ccnl_str2suite_def ccnl_isSuite_def split: option.split)

lemma enc2suite_valid: "ccnl_enc2suite e = -1 \<or> ccnl_isSuite (ccnl_enc2suite e)"
  by (auto simp: ccnl_enc2suite_def ccnl_isSuite_def)

end
