(* ===== verification/Prefix.thy ===== *)
theory Prefix
  imports Defs
begin

text \<open>
  Names: \<open>ccnl-core/src/ccnl-prefix.c\<close> (and \<open>ccnl_pkt_mkComponent\<close> of
  \<open>ccnl-pkt.c\<close>, which lays out a component). A component is the byte string
  \<open>comp[i][0 .. complen[i])\<close>; \<open>pfx_bytes\<close> is the memory block the prefix owns, present
  when the components were copied into it. A C string is the byte list in front of its
  terminating NUL. Allocation is taken to succeed.
\<close>

section \<open>Data\<close>

record prefix =
  pfx_comp :: "bytes list"
  pfx_suite :: int
  pfx_nameptr :: "nat option"
  pfx_namelen :: nat
  pfx_bytes :: "bytes option"
  pfx_chunknum :: "u32 option"

abbreviation compcnt :: "prefix \<Rightarrow> nat" where
  "compcnt p \<equiv> length (pfx_comp p)"

text \<open>Fresh component slots; the callers fill them or reset \<open>compcnt\<close>.\<close>

definition ccnl_prefix_new :: "int \<Rightarrow> nat \<Rightarrow> prefix" where
  "ccnl_prefix_new s cnt = \<lparr>pfx_comp = replicate cnt [], pfx_suite = s, pfx_nameptr = None,
     pfx_namelen = 0, pfx_bytes = None, pfx_chunknum = None\<rparr>"

text \<open>\<open>comp[i] = bytes + len; len += complen[i]\<close>: the components laid out one after the
  other in a block.\<close>

primrec carve :: "nat list \<Rightarrow> nat \<Rightarrow> bytes \<Rightarrow> bytes list" where
  "carve [] off bs = []"
| "carve (l # ls) off bs = take l (drop off bs) # carve ls (off + l) bs"

lemma carve_concat: "carve (map length cs) (length pre) (pre @ concat cs @ post) = cs"
proof (induction cs arbitrary: pre)
  case Nil
  show ?case by simp
next
  case (Cons c cs)
  from Cons.IH[of "pre @ c"] show ?case by simp
qed

lemma carve_concat_0 [simp]: "carve (map length cs) 0 (concat cs) = cs"
  using carve_concat[of cs "[]" "[]"] by simp

definition ccnl_prefix_dup :: "prefix \<Rightarrow> prefix" where
  "ccnl_prefix_dup p =
    (let q = ccnl_prefix_new (pfx_suite p) (compcnt p);
         block = concat (pfx_comp p)
     in q\<lparr>pfx_comp := carve (map length (pfx_comp p)) 0 block,
          pfx_bytes := Some block,
          pfx_chunknum := pfx_chunknum p\<rparr>)"

section \<open>Growing a name\<close>

text \<open>
  \<open>memcpy (bytes, oldbytes, prefixlen)\<close> reads the block the prefix owns: a prefix without
  one (as the packet parsers build it) is a NULL source.
\<close>

definition ccnl_prefix_appendCmp :: "prefix \<Rightarrow> bytes \<Rightarrow> prefix res" where
  "ccnl_prefix_appendCmp p cmp =
    (if compcnt p \<ge> CCNL_MAX_NAME_COMP then Inl Fail
     else
       let lens = map length (pfx_comp p); plen = sum_list lens in
       bindE (case pfx_bytes p of
                None \<Rightarrow> if plen = 0 then Inr [] else Inl Null
              | Some ob \<Rightarrow> slice ob 0 plen)
         (\<lambda>old. let block = old @ cmp in
            Inr (p\<lparr>pfx_bytes := Some block,
                   pfx_comp := carve lens 0 block @ [take (length cmp) (drop plen block)]\<rparr>)))"

definition ccnl_prefix_addChunkNum :: "prefix \<Rightarrow> u32 \<Rightarrow> prefix res" where
  "ccnl_prefix_addChunkNum p n =
    (if n \<ge> 0xff then Inl Fail
     else if pfx_suite p = CCNL_SUITE_NDNTLV then
       bindE (ccnl_prefix_appendCmp p [0x00, ucast n]) (\<lambda>q. Inr (q\<lparr>pfx_chunknum := Some n\<rparr>))
     else if pfx_suite p = CCNL_SUITE_CCNTLV then
       bindE (ccnl_prefix_appendCmp p [0, 0x10, 0, 1, ucast n])
         (\<lambda>q. Inr (q\<lparr>pfx_chunknum := Some n\<rparr>))
     else Inl Fail)"

section \<open>URIs\<close>

abbreviation SLASH :: byte where "SLASH \<equiv> 0x2f"
abbreviation PERCENT :: byte where "PERCENT \<equiv> 0x25"

definition hex2int :: "byte \<Rightarrow> byte" where
  "hex2int c =
    (if 0x30 \<le> c \<and> c \<le> 0x39 then c - 0x30
     else let d = (if 0x41 \<le> c \<and> c \<le> 0x5a then c + 0x20 else c) in
       if 0x61 \<le> d \<and> d \<le> 0x66 then d - 0x61 + 0x0a else 0)"

fun unescape_component :: "bytes \<Rightarrow> bytes" where
  "unescape_component [] = []"
| "unescape_component (c # h1 # h2 # cs) =
     (if c \<noteq> PERCENT then c # unescape_component (h1 # h2 # cs)
      else (hex2int h1 * 16 + hex2int h2) # unescape_component cs)"
| "unescape_component (c # cs) = c # unescape_component cs"

text \<open>
  One round of the loop takes the characters up to the next slash and skips that slash. The
  first argument is the number of components still allowed.
\<close>

fun uri_loop :: "nat \<Rightarrow> bytes \<Rightarrow> bytes list" where
  "uri_loop 0 u = []"
| "uri_loop (Suc n) u =
     (if u = [] then []
      else unescape_component (takeWhile (\<lambda>c. c \<noteq> SLASH) u)
             # uri_loop n (drop 1 (dropWhile (\<lambda>c. c \<noteq> SLASH) u)))"

definition ccnl_URItoComponents :: "bytes \<Rightarrow> bytes list" where
  "ccnl_URItoComponents uri =
    uri_loop (CCNL_MAX_NAME_COMP - 1)
      (case uri of [] \<Rightarrow> [] | c # cs \<Rightarrow> if c = SLASH then cs else uri)"

text \<open>\<open>ccnl_pkt_mkComponent\<close>: the bytes written and, as their number, the result. Two
  \<open>htons\<close> stores are the two big-endian byte pairs.\<close>

definition ccnl_pkt_mkComponent :: "int \<Rightarrow> bytes \<Rightarrow> bytes" where
  "ccnl_pkt_mkComponent s src =
    (if s = CCNL_SUITE_CCNTLV then
       if length src > 65535 then []
       else be_bytes 2 0x0001 @ be_bytes 2 (of_nat (length src)) @ src
     else src)"

definition ccnl_URItoPrefix :: "bytes \<Rightarrow> int \<Rightarrow> u32 option \<Rightarrow> prefix" where
  "ccnl_URItoPrefix uri s chunk =
    (let compvect = (if uri = [] then [] else ccnl_URItoComponents uri);
         parts = map (ccnl_pkt_mkComponent s) compvect;
         block = concat parts
     in (ccnl_prefix_new s (length compvect))\<lparr>
          pfx_comp := carve (map length parts) 0 block,
          pfx_bytes := Some block,
          pfx_chunknum := chunk\<rparr>)"

section \<open>Printing\<close>

text \<open>\<open>snprintf (buf + len, buflen - len, ...)\<close> with the check on its result: \<open>out\<close> is
  what the buffer holds so far, \<open>xs\<close> what is printed.\<close>

definition snprint :: "nat \<Rightarrow> bytes \<Rightarrow> bytes \<Rightarrow> bytes res" where
  "snprint buflen xs out = (if length xs < buflen - length out then Inr (out @ xs) else Inl Fail)"

definition hex_digit :: "byte \<Rightarrow> byte" where
  "hex_digit n = (if n < 10 then 0x30 + n else 0x61 + (n - 10))"

text \<open>\<open>%%%02x\<close> of a \<open>char\<close>: the character is signed, so from 0x80 on its promotion to
  \<open>int\<close> prints as eight digits.\<close>

definition fmt_char :: "bool \<Rightarrow> byte \<Rightarrow> bytes" where
  "fmt_char esc c =
    (if sint c < 0x20 \<or> c = 0x7f \<or> (esc \<and> c = SLASH)
     then PERCENT # (if sint c < 0 then replicate 6 0x66 else [])
            @ [hex_digit (drop_bit 4 c), hex_digit (c AND 0xf)]
     else [c])"

fun to_str_comp :: "bool \<Rightarrow> nat \<Rightarrow> bytes \<Rightarrow> bytes \<Rightarrow> bytes res" where
  "to_str_comp esc buflen [] out = Inr out"
| "to_str_comp esc buflen (c # cs) out =
     bindE (snprint buflen (fmt_char esc c) out)
       (\<lambda>out'. if length out' > CCNL_MAX_PREFIX_SIZE then Inr out'
               else to_str_comp esc buflen cs out')"

fun to_str_comps :: "bool \<Rightarrow> nat \<Rightarrow> nat \<Rightarrow> bytes list \<Rightarrow> bytes \<Rightarrow> bytes res" where
  "to_str_comps esc skip buflen [] out = Inr out"
| "to_str_comps esc skip buflen (c # cs) out =
     bindE (snprint buflen [SLASH] out)
       (\<lambda>out1. bindE (to_str_comp esc buflen (drop skip c) out1)
         (to_str_comps esc skip buflen cs))"

definition ccnl_prefix_to_str_detailed :: "prefix \<Rightarrow> bool \<Rightarrow> bool \<Rightarrow> nat \<Rightarrow> bytes res" where
  "ccnl_prefix_to_str_detailed p ccntlv_skip esc buflen =
    to_str_comps esc (if ccntlv_skip \<and> pfx_suite p = CCNL_SUITE_CCNTLV then 4 else 0) buflen
      (pfx_comp p) []"

definition ccnl_prefix_to_path :: "prefix \<Rightarrow> bytes res" where
  "ccnl_prefix_to_path p = ccnl_prefix_to_str_detailed p True False CCNL_MAX_PREFIX_SIZE"

section \<open>Comparison\<close>

definition ccnl_matchMode2str :: "int \<Rightarrow> string" where
  "ccnl_matchMode2str mode =
    (if mode = CMP_EXACT then ''CMP_EXACT''
     else if mode = CMP_MATCH then ''CMP_MATCH''
     else if mode = CMP_LONGEST then ''CMP_LONGEST''
     else ''?'')"

text \<open>The loop: the index where it stops, and whether a component mismatch stopped it. The
  test \<open>clen != complen[i] || memcmp (...)\<close> holds exactly when the byte strings differ.\<close>

fun cmp_walk :: "bytes list \<Rightarrow> bytes list \<Rightarrow> nat \<Rightarrow> nat \<times> bool" where
  "cmp_walk (c # cs) (d # ds) i = (if c \<noteq> d then (i, True) else cmp_walk cs ds (Suc i))"
| "cmp_walk cs ds i = (i, False)"

definition ccnl_prefix_cmp :: "prefix \<Rightarrow> bytes option \<Rightarrow> prefix \<Rightarrow> int \<Rightarrow> int" where
  "ccnl_prefix_cmp pfx md nam mode =
    (let plen = compcnt pfx + (if md = None then 0 else 1);
         comps = pfx_comp pfx @ (case md of None \<Rightarrow> [] | Some d \<Rightarrow> [take 32 d])
     in if mode = CMP_EXACT \<and> plen \<noteq> compcnt nam then -1
        else if mode = CMP_EXACT \<and> (pfx_chunknum pfx \<noteq> None \<or> pfx_chunknum nam \<noteq> None)
          \<and> (pfx_chunknum pfx = None \<or> pfx_chunknum nam = None) then -1
        else if mode = CMP_EXACT \<and> pfx_chunknum pfx \<noteq> pfx_chunknum nam then -1
        else case cmp_walk comps (pfx_comp nam) 0 of (i, mismatch) \<Rightarrow>
          if mismatch then (if mode = CMP_EXACT then -1 else int i)
          else (if mode = CMP_EXACT then 0 else int i))"

section \<open>What the operations on names do\<close>

lemma lcp_refl [simp]: "longest_common_prefix xs xs = xs"
  by (induction xs) simp_all

lemma cmp_walk_lcp:
  "cmp_walk cs ds i = (i + length (longest_common_prefix cs ds),
     longest_common_prefix cs ds \<noteq> cs \<and> longest_common_prefix cs ds \<noteq> ds)"
  by (induction cs ds i rule: cmp_walk.induct) auto

lemma lcp_same_length:
  "length cs = length ds \<Longrightarrow> (longest_common_prefix cs ds = cs \<or> longest_common_prefix cs ds = ds) \<longleftrightarrow> cs = ds"
  by (induction cs ds rule: list_induct2) auto

definition md_comp :: "bytes option \<Rightarrow> bytes list" where
  "md_comp md = (case md of None \<Rightarrow> [] | Some d \<Rightarrow> [take 32 d])"

lemma prefix_cmp_exact:
  "ccnl_prefix_cmp p md q CMP_EXACT =
    (if pfx_comp p @ md_comp md = pfx_comp q \<and> pfx_chunknum p = pfx_chunknum q then 0 else -1)"
proof -
  let ?c = "pfx_comp p @ md_comp md"
  have len: "compcnt p + (if md = None then 0 else 1) = length ?c"
    by (simp add: md_comp_def split: option.split)
  have md: "(case md of None \<Rightarrow> [] | Some d \<Rightarrow> [take 32 d]) = md_comp md"
    by (simp add: md_comp_def)
  show ?thesis
  proof (cases "length ?c = compcnt q")
    case False
    then have "?c \<noteq> pfx_comp q" by metis
    with False show ?thesis unfolding ccnl_prefix_cmp_def Let_def len md by simp
  next
    case True
    then show ?thesis
      using lcp_same_length[OF True]
      unfolding ccnl_prefix_cmp_def Let_def len md cmp_walk_lcp
      by (cases "pfx_chunknum p"; cases "pfx_chunknum q") auto
  qed
qed

lemma prefix_cmp_length:
  "mode \<noteq> CMP_EXACT \<Longrightarrow> ccnl_prefix_cmp p md q mode =
    int (length (longest_common_prefix (pfx_comp p @ md_comp md) (pfx_comp q)))"
  by (simp add: ccnl_prefix_cmp_def md_comp_def Let_def cmp_walk_lcp)

section \<open>Printing and reading a name\<close>

definition comp_text :: "bool \<Rightarrow> bytes \<Rightarrow> bytes" where
  "comp_text esc c = concat (map (fmt_char esc) c)"

definition name_text :: "bool \<Rightarrow> bytes list \<Rightarrow> bytes" where
  "name_text esc cs = concat (map (\<lambda>c. SLASH # comp_text esc c) cs)"

lemma hex2int_hex_digit: "n < 16 \<Longrightarrow> hex2int (hex_digit n) = n"
proof -
  have "\<forall>c :: byte. unat c < 16 \<longrightarrow> hex2int (hex_digit c) = c"
    unfolding word_below_all by code_simp
  moreover assume "n < 16"
  ultimately show ?thesis by (simp add: word_less_nat_alt)
qed
lemma to_str_comp_eq:
  "length out < buflen \<Longrightarrow> buflen \<le> CCNL_MAX_PREFIX_SIZE \<Longrightarrow>
    to_str_comp esc buflen c out =
      (if length out + length (comp_text esc c) < buflen then Inr (out @ comp_text esc c) else Inl Fail)"
  by (induction c arbitrary: out) (auto simp: comp_text_def snprint_def)

lemma to_str_comps_eq:
  "length out < buflen \<Longrightarrow> buflen \<le> CCNL_MAX_PREFIX_SIZE \<Longrightarrow>
    to_str_comps esc skip buflen cs out =
      (if length out + length (name_text esc (map (drop skip) cs)) < buflen
       then Inr (out @ name_text esc (map (drop skip) cs)) else Inl Fail)"
proof (induction cs arbitrary: out)
  case Nil
  then show ?case by (simp add: name_text_def)
next
  case (Cons c cs)
  then show ?case
    by (auto simp: name_text_def snprint_def to_str_comp_eq)
qed

text \<open>A byte the printed form of a name can carry: 7-bit and not the escape character.\<close>

definition uri_byte :: "byte \<Rightarrow> bool" where
  "uri_byte c \<longleftrightarrow> c < 0x80 \<and> c \<noteq> PERCENT"

lemma unescape_plain: "c \<noteq> PERCENT \<Longrightarrow> unescape_component (c # rest) = c # unescape_component rest"
  by (cases "c # rest" rule: unescape_component.cases) auto

lemma fmt_char_uri:
  assumes "uri_byte c"
  obtains "fmt_char esc c = [c]" and "esc \<Longrightarrow> c \<noteq> SLASH" and "c \<noteq> PERCENT"
  | "fmt_char esc c = [PERCENT, hex_digit (drop_bit 4 c), hex_digit (c AND 0xf)]"
  using assms sint_7bit[of c] by (cases "sint c < 0x20 \<or> c = 0x7f \<or> (esc \<and> c = SLASH)")
    (auto simp: fmt_char_def uri_byte_def)

lemma unescape_fmt_char:
  "uri_byte c \<Longrightarrow> unescape_component (fmt_char esc c @ rest) = c # unescape_component rest"
  by (erule fmt_char_uri[where esc = esc])
    (simp_all add: unescape_plain hex2int_hex_digit drop_nibble and_nibble nibbles)

lemma unescape_comp_text: "list_all uri_byte c \<Longrightarrow> unescape_component (comp_text esc c) = c"
  by (induction c) (simp_all add: comp_text_def unescape_fmt_char)

lemma hex_digit_not_slash: "n < 16 \<Longrightarrow> hex_digit n \<noteq> SLASH"
proof -
  have "\<forall>c :: byte. unat c < 16 \<longrightarrow> hex_digit c \<noteq> SLASH"
    unfolding word_below_all by code_simp
  moreover assume "n < 16"
  ultimately show ?thesis by (simp add: word_less_nat_alt)
qed

lemma comp_text_no_slash: "list_all uri_byte c \<Longrightarrow> b \<in> set (comp_text True c) \<Longrightarrow> b \<noteq> SLASH"
proof (induction c)
  case Nil
  then show ?case by (simp add: comp_text_def)
next
  case (Cons a c)
  then have "uri_byte a" by simp
  then show ?case
    using Cons by (cases rule: fmt_char_uri[where esc = True])
      (auto simp: comp_text_def hex_digit_not_slash drop_nibble and_nibble)
qed

lemma uri_loop_name_text:
  assumes "list_all (list_all uri_byte) (c # cs)" and "length (c # cs) \<le> n" and "last (c # cs) \<noteq> []"
  shows "uri_loop n (comp_text True c @ name_text True cs) = c # cs"
  using assms
proof (induction cs arbitrary: c n)
  case Nil
  then obtain k where n: "n = Suc k" by (cases n) auto
  have ne: "comp_text True c \<noteq> []"
    using Nil.prems unescape_comp_text[of c True] by auto
  have "\<forall>b\<in>set (comp_text True c). b \<noteq> SLASH"
    using Nil.prems comp_text_no_slash[of c] by auto
  moreover have "uri_loop k [] = []" by (cases k) simp_all
  ultimately show ?case
    using Nil.prems ne n
    by (simp add: name_text_def unescape_comp_text takeWhile_eq_all_conv[THEN iffD2]
        dropWhile_eq_Nil_conv[THEN iffD2])
next
  case (Cons d cs)
  then obtain k where n: "n = Suc k" by (cases n) auto
  let ?t = "comp_text True d @ name_text True cs"
  have nt: "name_text True (d # cs) = SLASH # ?t" by (simp add: name_text_def)
  have "takeWhile (\<lambda>b. b \<noteq> SLASH) (comp_text True c @ SLASH # ?t) = comp_text True c"
    and "dropWhile (\<lambda>b. b \<noteq> SLASH) (comp_text True c @ SLASH # ?t) = SLASH # ?t"
    using Cons.prems comp_text_no_slash[of c]
    by (simp_all add: takeWhile_append dropWhile_append)
  moreover have "uri_loop k ?t = d # cs"
    using Cons.prems n by (intro Cons.IH) auto
  ultimately show ?case using Cons.prems n nt by (simp add: unescape_comp_text)
qed

lemma URItoComponents_name_text:
  assumes "list_all (list_all uri_byte) cs" and "length cs < CCNL_MAX_NAME_COMP"
    and "cs = [] \<or> last cs \<noteq> []"
  shows "ccnl_URItoComponents (name_text True cs) = cs"
proof (cases cs)
  case Nil
  then show ?thesis by (simp add: ccnl_URItoComponents_def name_text_def eval_nat_numeral)
next
  case (Cons c ds)
  have "name_text True cs = SLASH # comp_text True c @ name_text True ds"
    by (simp add: Cons name_text_def)
  moreover have "uri_loop 63 (comp_text True c @ name_text True ds) = c # ds"
    using assms unfolding Cons by (intro uri_loop_name_text) auto
  ultimately show ?thesis using Cons by (simp add: ccnl_URItoComponents_def)
qed

lemma comp_URItoPrefix:
  "pfx_comp (ccnl_URItoPrefix u s k) = map (ccnl_pkt_mkComponent s) (ccnl_URItoComponents u)"
  by (simp add: ccnl_URItoPrefix_def ccnl_URItoComponents_def eval_nat_numeral)

text \<open>The header of a component is what printing skips.\<close>

lemma drop_mkComponent:
  "length c \<le> 65535 \<Longrightarrow> drop (if s = CCNL_SUITE_CCNTLV then 4 else 0) (ccnl_pkt_mkComponent s c) = c"
  by (simp add: ccnl_pkt_mkComponent_def)



section \<open>Names that own their memory\<close>

text \<open>A prefix made by \<open>ccnl_URItoPrefix\<close>, \<open>ccnl_prefix_dup\<close> or \<open>ccnl_prefix_appendCmp\<close>
  holds its components one after the other in its own block; only such a name can grow.\<close>

definition prefix_owned :: "prefix \<Rightarrow> bool" where
  "prefix_owned p \<longleftrightarrow> pfx_bytes p = Some (concat (pfx_comp p))"

lemma prefix_dup_fields [simp]:
  "pfx_comp (ccnl_prefix_dup p) = pfx_comp p"
  "pfx_suite (ccnl_prefix_dup p) = pfx_suite p"
  "pfx_chunknum (ccnl_prefix_dup p) = pfx_chunknum p"
  "prefix_owned (ccnl_prefix_dup p)"
  by (simp_all add: ccnl_prefix_dup_def ccnl_prefix_new_def prefix_owned_def)

lemma URItoPrefix_owned [simp]: "prefix_owned (ccnl_URItoPrefix u s k)"
  by (simp add: ccnl_URItoPrefix_def ccnl_prefix_new_def prefix_owned_def Let_def)

lemma sum_list_map_length: "sum_list (map length xs) = length (concat xs)"
  by (simp add: length_concat)

lemma appendCmp_owned:
  assumes "prefix_owned p" and "compcnt p < CCNL_MAX_NAME_COMP"
  shows "ccnl_prefix_appendCmp p c =
    Inr (p\<lparr>pfx_bytes := Some (concat (pfx_comp p @ [c])), pfx_comp := pfx_comp p @ [c]\<rparr>)"
  using assms carve_concat[of "pfx_comp p" "[]" c]
  by (simp add: ccnl_prefix_appendCmp_def prefix_owned_def sum_list_map_length slice_def Let_def
      flip: length_concat)

text \<open>
  A name that owns its memory and has room takes a chunk number below 255: the chunk component
  of its suite (NDN marker and one byte, or the CCNx chunk TLV) is appended behind the old
  components, the number is recorded, the result owns its memory again, and the old name is a
  longest-prefix match of all its components in it.
\<close>

theorem addChunkNum_spec:
  assumes "prefix_owned p" and "compcnt p < CCNL_MAX_NAME_COMP"
    and "pfx_suite p = CCNL_SUITE_NDNTLV \<or> pfx_suite p = CCNL_SUITE_CCNTLV" and "n < 0xff"
  shows "\<exists>q. ccnl_prefix_addChunkNum p n = Inr q \<and> prefix_owned q \<and> pfx_suite q = pfx_suite p
    \<and> pfx_chunknum q = Some n
    \<and> pfx_comp q = pfx_comp p @ [if pfx_suite p = CCNL_SUITE_NDNTLV then [0, ucast n] else [0, 0x10, 0, 1, ucast n]]
    \<and> ccnl_prefix_cmp p None q CMP_LONGEST = int (compcnt p)"
proof -
  have lcp: "longest_common_prefix xs (xs @ ys) = xs" for xs ys :: "bytes list"
    by (induction xs) simp_all
  from assms(4) have "\<not> 0xff \<le> n" by simp
  then show ?thesis
    using assms by (auto simp: ccnl_prefix_addChunkNum_def appendCmp_owned prefix_owned_def
        prefix_cmp_length md_comp_def lcp)
qed

theorem addChunkNum_spec_witness:
  "\<exists>q. ccnl_prefix_addChunkNum (ccnl_URItoPrefix [0x2f, 0x61] 6 None) 7 = Inr q \<and> prefix_owned q
    \<and> pfx_suite q = 6 \<and> pfx_chunknum q = Some 7 \<and> pfx_comp q = [[0x61], [0, 7]]
    \<and> ccnl_prefix_cmp (ccnl_URItoPrefix [0x2f, 0x61] 6 None) None q CMP_LONGEST = 1"
proof -
  let ?p = "ccnl_URItoPrefix [0x2f, 0x61] 6 None"
  have c: "pfx_comp ?p = [[0x61]]" "pfx_suite ?p = 6" by code_simp+
  from addChunkNum_spec[of ?p 7] show ?thesis by (simp add: c)
qed

text \<open>A name as the packet parsers build it has no block of its own: growing it reads through a
  NULL pointer.\<close>

lemma appendCmp_parsed:
  assumes "pfx_bytes p = None" and "concat (pfx_comp p) \<noteq> []" and "compcnt p < CCNL_MAX_NAME_COMP"
  shows "ccnl_prefix_appendCmp p c = Inl Null"
  using assms by (auto simp: ccnl_prefix_appendCmp_def Let_def)


end
