(* ===== verification/Outbuf.thy ===== *)
theory Outbuf
  imports Prelude
begin

text \<open>
  Packets are composed backwards: every \<open>prepend\<close> routine writes its bytes just before
  \<open>buf[*offset]\<close> and lowers \<open>*offset\<close>. This theory holds the two write loops the
  routines share and the contract they all promise, the locale \<open>prepender\<close>: the routine
  puts one fixed byte string before the offset when there is room, leaves every other byte of
  the buffer alone, and reports failure otherwise.
\<close>

section \<open>The write loops\<close>

text \<open>\<open>buf[--(*offset)] = b\<close>; at offset 0 the index wraps below the buffer.\<close>

definition push_byte :: "byte \<Rightarrow> outbuf \<Rightarrow> outbuf res" where
  "push_byte b ob = (case ob of (off, buf) \<Rightarrow>
     if off = 0 then Inl Oob
     else bindE (wr buf (off - 1) b) (\<lambda>buf'. Inr (off - 1, buf')))"

text \<open>\<open>for (i = 0; i < len; i++) { buf[--(*offset)] = val & 0xff; val = val >> 8; }\<close>\<close>

fun put_bytes :: "nat \<Rightarrow> u64 \<Rightarrow> outbuf \<Rightarrow> outbuf res" where
  "put_bytes 0 v ob = Inr ob"
| "put_bytes (Suc n) v ob = bindE (push_byte (ucast (v AND 0xff)) ob) (put_bytes n (drop_bit 8 v))"

text \<open>What a successful prepend of \<open>xs\<close> leaves behind.\<close>

definition splice :: "bytes \<Rightarrow> outbuf \<Rightarrow> outbuf" where
  "splice xs ob = (case ob of (off, buf) \<Rightarrow>
     (off - length xs, take (off - length xs) buf @ xs @ drop off buf))"

lemma splice_Nil [simp]: "off \<le> length buf \<Longrightarrow> splice [] (off, buf) = (off, buf)"
  by (simp add: splice_def)

lemma fst_splice [simp]: "fst (splice xs (off, buf)) = off - length xs"
  by (simp add: splice_def)

lemma length_snd_splice:
  "length xs \<le> off \<Longrightarrow> off \<le> length buf \<Longrightarrow> length (snd (splice xs (off, buf))) = length buf"
  by (simp add: splice_def)

lemma splice_splice:
  assumes "length xs + length ys \<le> off" and "off \<le> length buf"
  shows "splice ys (splice xs (off, buf)) = splice (ys @ xs) (off, buf)"
proof -
  have "take (off - length xs - length ys) (take (off - length xs) buf @ xs @ drop off buf)
      = take (off - (length ys + length xs)) buf"
    using assms by (simp add: add.commute)
  moreover have "drop (off - length xs) (take (off - length xs) buf @ xs @ drop off buf)
      = xs @ drop off buf"
    using assms by simp
  ultimately show ?thesis by (simp add: splice_def)
qed

text \<open>The bytes in front of the old offset after the prepend: the packet read back.\<close>

lemma splice_read:
  assumes "length xs \<le> off" and "off \<le> length buf"
  shows "drop (off - length xs) (snd (splice xs (off, buf))) = xs @ drop off buf"
    and "take (length xs) (drop (off - length xs) (snd (splice xs (off, buf)))) = xs"
  using assms by (simp_all add: splice_def)

lemma push_byte_fits:
  assumes "0 < off" and "off \<le> length buf"
  shows "push_byte b (off, buf) = Inr (splice [b] (off, buf))"
proof -
  have "buf[off - 1 := b] = take (off - 1) buf @ [b] @ drop off buf"
    using assms by (simp add: upd_conv_take_nth_drop)
  then show ?thesis using assms by (simp add: push_byte_def wr_def splice_def)
qed

lemma ucast_and_255: "(ucast (v AND 0xff :: u64) :: byte) = ucast v"
proof -
  have "v AND 0xff = take_bit 8 v" by (simp add: take_bit_eq_mask mask_eq_exp_minus_1)
  then show ?thesis by (simp only:) (rule bit_word_eqI, simp add: bit_simps)
qed

lemma put_bytes_fits:
  "n \<le> off \<Longrightarrow> off \<le> length buf \<Longrightarrow> put_bytes n v (off, buf) = Inr (splice (be_bytes n v) (off, buf))"
proof (induction n arbitrary: v off buf)
  case 0
  then show ?case by simp
next
  case (Suc n)
  let ?s = "splice [ucast v] (off, buf)"
  obtain off' buf' where s: "?s = (off', buf')" by (cases ?s)
  have "off' = off - 1" and "length buf' = length buf"
    using s Suc.prems fst_splice[of "[ucast v]" off buf]
      length_snd_splice[of "[ucast v]" off buf] by simp_all
  with Suc.prems have "put_bytes n (drop_bit 8 v) (off', buf')
      = Inr (splice (be_bytes n (drop_bit 8 v)) (off', buf'))"
    by (intro Suc.IH) simp_all
  moreover have "splice (be_bytes n (drop_bit 8 v)) ?s = splice (be_bytes (Suc n) v) (off, buf)"
    using Suc.prems by (simp add: splice_splice)
  ultimately show ?case
    using Suc.prems by (simp add: push_byte_fits ucast_and_255 s)
qed

section \<open>The contract of a prepend routine\<close>

locale prepender =
  fixes f :: "outbuf \<Rightarrow> outbuf res"
    and enc :: bytes
  assumes fits: "length enc \<le> off \<Longrightarrow> off \<le> length buf \<Longrightarrow> f (off, buf) = Inr (splice enc (off, buf))"
    and full: "off < length enc \<Longrightarrow> off \<le> length buf \<Longrightarrow> f (off, buf) = Inl Fail"
begin

lemma safe: "off \<le> length buf \<Longrightarrow> f (off, buf) \<noteq> Inl Oob"
  using fits[of off buf] full[of off buf] by (cases "length enc \<le> off") simp_all

lemma succeeds_iff: "off \<le> length buf \<Longrightarrow> (\<exists>ob. f (off, buf) = Inr ob) \<longleftrightarrow> length enc \<le> off"
  using fits[of off buf] full[of off buf] by (cases "length enc \<le> off") auto

lemma result:
  assumes "off \<le> length buf" and "f (off, buf) = Inr (off', buf')"
  shows "length enc \<le> off \<and> off' = off - length enc \<and> length buf' = length buf
    \<and> take off' buf' = take off' buf \<and> drop off' buf' = enc @ drop off buf"
proof -
  from assms succeeds_iff have le: "length enc \<le> off" by blast
  with assms fits have "(off', buf') = splice enc (off, buf)" by simp
  with le assms(1) show ?thesis by (auto simp: splice_def)
qed

lemma room_used: "off \<le> length buf \<Longrightarrow> f (off, buf) = Inr (off', buf') \<Longrightarrow> off - off' = length enc"
  using result by fastforce

end

text \<open>
  Prepends compose: a routine that runs \<open>f\<close> and then \<open>g\<close>, where \<open>g\<close> may look at how
  many bytes \<open>f\<close> wrote (\<open>oldoffset - *offset\<close>), prepends the concatenation.
\<close>

lemma prepender_seq:
  assumes "prepender f xs" and "prepender (g (length xs)) ys"
  shows "prepender (\<lambda>ob. bindE (f ob) (\<lambda>ob'. g (fst ob - fst ob') ob')) (ys @ xs)"
proof (rule prepender.intro)
  fix off :: nat and buf :: bytes
  assume le: "length (ys @ xs) \<le> off" and buf: "off \<le> length buf"
  let ?s = "splice xs (off, buf)"
  obtain off' buf' where s: "?s = (off', buf')" by (cases ?s)
  then have "off' = off - length xs" and "length buf' = length buf"
    using le buf fst_splice[of xs off buf] length_snd_splice[of xs off buf] by simp_all
  then have "g (length xs) (off', buf') = Inr (splice ys (off', buf'))" and "off - off' = length xs"
    using le buf prepender.fits[OF assms(2), of off' buf'] by simp_all
  then show "bindE (f (off, buf)) (\<lambda>ob'. g (fst (off, buf) - fst ob') ob') = Inr (splice (ys @ xs) (off, buf))"
    using le buf prepender.fits[OF assms(1), of off buf] splice_splice[of xs ys off buf]
    by (simp add: s)
next
  fix off :: nat and buf :: bytes
  assume lt: "off < length (ys @ xs)" and buf: "off \<le> length buf"
  show "bindE (f (off, buf)) (\<lambda>ob'. g (fst (off, buf) - fst ob') ob') = Inl Fail"
  proof (cases "length xs \<le> off")
    case False
    then show ?thesis using buf prepender.full[OF assms(1), of off buf] by simp
  next
    case True
    let ?s = "splice xs (off, buf)"
    obtain off' buf' where s: "?s = (off', buf')" by (cases ?s)
    then have "off' = off - length xs" and "length buf' = length buf"
      using True buf fst_splice[of xs off buf] length_snd_splice[of xs off buf] by simp_all
    then have "g (length xs) (off', buf') = Inl Fail" and "off - off' = length xs"
      using True lt buf prepender.full[OF assms(2), of off' buf'] by simp_all
    then show ?thesis
      using True buf prepender.fits[OF assms(1), of off buf] by (simp add: s)
  qed
qed

lemma prepender_bind:
  "prepender f xs \<Longrightarrow> prepender g ys \<Longrightarrow> prepender (\<lambda>ob. bindE (f ob) g) (ys @ xs)"
  using prepender_seq[where g = "\<lambda>_. g"] by simp

lemma prepender_skip: "prepender Inr []"
  by (rule prepender.intro) simp_all

text \<open>Equal on every buffer, equal contract.\<close>

lemma prepender_eq:
  "prepender f xs \<Longrightarrow> (\<And>off buf. off \<le> length buf \<Longrightarrow> h (off, buf) = f (off, buf)) \<Longrightarrow> prepender h xs"
  by (simp add: prepender_def)

section \<open>Shared pieces of the encoders\<close>

text \<open>\<open>if ((*offset)-- < 1) return -1; buf[*offset] = b;\<close>\<close>

definition push_chk :: "byte \<Rightarrow> outbuf \<Rightarrow> outbuf res" where
  "push_chk b ob = (if fst ob < 1 then Inl Fail else push_byte b ob)"

text \<open>\<open>if (*offset < len) return -1; memcpy (buf + *offset - len, xs, len); *offset -= len;\<close>\<close>

definition put_blob :: "bytes \<Rightarrow> outbuf \<Rightarrow> outbuf res" where
  "put_blob xs ob = (case ob of (off, buf) \<Rightarrow>
     if off < length xs then Inl Fail
     else bindE (wrs buf (off - length xs) xs) (\<lambda>buf'. Inr (off - length xs, buf')))"

interpretation push_chk: prepender "push_chk b" "[b]" for b
  by (rule prepender.intro) (simp_all add: push_chk_def push_byte_fits)

interpretation put_blob: prepender "put_blob xs" xs for xs
  by (rule prepender.intro) (simp_all add: put_blob_def wrs_def splice_def)

text \<open>Checked byte by byte, \<open>n\<close> bytes of a value from the least significant one.\<close>

fun put_chk :: "nat \<Rightarrow> u64 \<Rightarrow> outbuf \<Rightarrow> outbuf res" where
  "put_chk 0 v ob = Inr ob"
| "put_chk (Suc n) v ob = bindE (push_chk (ucast v) ob) (put_chk n (drop_bit 8 v))"

lemma put_chk_prepender: "prepender (put_chk n v) (be_bytes n v)"
proof (induction n arbitrary: v)
  case 0
  have "put_chk 0 v = Inr" by (rule ext) simp
  then show ?case using prepender_skip by simp
next
  case (Suc n)
  have "put_chk (Suc n) v = (\<lambda>ob. bindE (push_chk (ucast v) ob) (put_chk n (drop_bit 8 v)))"
    by (rule ext) simp
  then show ?case
    using prepender_bind[OF push_chk.prepender_axioms Suc.IH] by simp
qed

text \<open>The variable-length number both NDN and the switch coding use: one byte below 253, else a
  marker and 2, 4 or 8 bytes.\<close>

definition varlen_size :: "u64 \<Rightarrow> nat" where
  "varlen_size v = (if v < 253 then 0 else if v \<le> 0xffff then 2 else if v \<le> 0xffffffff then 4 else 8)"

definition varlen_mark :: "u64 \<Rightarrow> byte" where
  "varlen_mark v = (if v < 253 then ucast v else if v \<le> 0xffff then 253
     else if v \<le> 0xffffffff then 254 else 255)"

definition varlen_bytes :: "u64 \<Rightarrow> bytes" where
  "varlen_bytes v = varlen_mark v # be_bytes (varlen_size v) v"

definition put_varlen :: "u64 \<Rightarrow> outbuf \<Rightarrow> outbuf res" where
  "put_varlen v ob =
    (if fst ob < varlen_size v + 1 then Inl Fail
     else bindE (put_bytes (varlen_size v) v ob) (push_byte (varlen_mark v)))"

interpretation put_varlen: prepender "put_varlen v" "varlen_bytes v" for v
proof (rule prepender.intro)
  fix off :: nat and buf :: bytes
  assume le: "length (varlen_bytes v) \<le> off" and buf: "off \<le> length buf"
  let ?n = "varlen_size v"
  let ?s = "splice (be_bytes ?n v) (off, buf)"
  obtain off' buf' where s: "?s = (off', buf')" by (cases ?s)
  have "off' = off - ?n" "length buf' = length buf"
    using s le buf fst_splice[of "be_bytes ?n v" off buf] length_snd_splice[of "be_bytes ?n v" off buf]
    by (simp_all add: varlen_bytes_def)
  then have "push_byte (varlen_mark v) ?s = Inr (splice [varlen_mark v] ?s)"
    using le buf s by (simp add: varlen_bytes_def push_byte_fits)
  then show "put_varlen v (off, buf) = Inr (splice (varlen_bytes v) (off, buf))"
    using le buf by (simp add: put_varlen_def varlen_bytes_def put_bytes_fits splice_splice)
qed (simp add: put_varlen_def varlen_bytes_def)

lemma varlen_bytes_not_Nil [simp]: "varlen_bytes v \<noteq> []"
  by (simp add: varlen_bytes_def)

end
