(* ===== verification/Pkt.thy ===== *)
theory Pkt
  imports Prefix Outbuf
begin

text \<open>
  Packets: \<open>ccnl-core/include/ccnl-pkt.h\<close>, \<open>ccnl-core/src/ccnl-pkt.c\<close>,
  \<open>ccnl-pkt-util.c\<close> and the switch coding of \<open>ccnl-pkt/src/ccnl-pkt-switch.c\<close>.

  \<open>pkt_buf\<close> is the packet's own copy of its bytes. \<open>content\<close>, a pointer into it in C,
  is an offset. The union \<open>s\<close> is a datatype with one constructor per member (\<open>Raw_detail\<close>
  is the zeroed memory no suite has written), the union \<open>val\<close> is its 64 bits.
\<close>

section \<open>Data\<close>

abbreviation (input) CCNL_PKT_REQUEST :: u32 where "CCNL_PKT_REQUEST \<equiv> 0x01"
abbreviation (input) CCNL_PKT_REPLY :: u32 where "CCNL_PKT_REPLY \<equiv> 0x02"
abbreviation (input) CCNL_PKT_FRAGMENT :: u32 where "CCNL_PKT_FRAGMENT \<equiv> 0x03"
abbreviation (input) CCNL_PKT_FRAG_BEGIN :: u32 where "CCNL_PKT_FRAG_BEGIN \<equiv> 0x04"
abbreviation (input) CCNL_PKT_FRAG_END :: u32 where "CCNL_PKT_FRAG_END \<equiv> 0x08"

record ccnb_detail =
  cb_minsuffix :: u32
  cb_maxsuffix :: u32
  cb_aok :: u16
  cb_scope :: int
  cb_nonce :: "bytes option"
  cb_ppkd :: "bytes option"

record ndn_detail =
  nd_minsuffix :: u64
  nd_maxsuffix :: u64
  nd_scope :: u64
  nd_mbf :: bool
  nd_nonce :: "bytes option"
  nd_ppkl :: "bytes option"
  nd_interestlifetime :: u64
  nd_freshnessperiod :: u64

datatype detail =
    Raw_detail
  | Ccnb_detail ccnb_detail
  | Ccntlv_detail "bytes option"
  | Ndn_detail ndn_detail

record pkt =
  pkt_buf :: "bytes option"
  pkt_pfx :: "prefix option"
  pkt_content :: "nat option"
  pkt_contlen :: nat
  pkt_type :: u64
  pkt_val :: u64
  pkt_s :: detail
  pkt_hmacLen :: nat
  pkt_hmacSignature :: "nat option"
  pkt_flags :: u32
  pkt_suite :: int

text \<open>\<open>ccnl_calloc (1, sizeof (struct ccnl_pkt_s))\<close>.\<close>

definition pkt_zero :: pkt where
  "pkt_zero = \<lparr>pkt_buf = None, pkt_pfx = None, pkt_content = None, pkt_contlen = 0, pkt_type = 0,
     pkt_val = 0, pkt_s = Raw_detail, pkt_hmacLen = 0, pkt_hmacSignature = None, pkt_flags = 0,
     pkt_suite = 0\<rparr>"

section \<open>Operations\<close>

text \<open>
  \<open>ccnl_pkt_dup\<close> fills memory that \<open>malloc\<close> returned: the fields it does not assign
  (type, val, flags, the HMAC fields, and all of them for a packet without a name) keep what that
  memory held, the argument \<open>junk\<close>. The copy of the buffer and the rebasing of the content
  pointer go through \<open>buf\<close> and \<open>content\<close> without a NULL test.
\<close>

definition ccnl_pkt_dup :: "pkt \<Rightarrow> pkt option \<Rightarrow> pkt option res" where
  "ccnl_pkt_dup junk p = (case p of None \<Rightarrow> Inr None
    | Some p \<Rightarrow> (case pkt_pfx p of None \<Rightarrow> Inr (Some junk)
      | Some pfx \<Rightarrow> (case (pkt_buf p, pkt_content p) of
            (Some b, Some c) \<Rightarrow>
              Inr (Some (junk\<lparr>pkt_s := pkt_s p, pkt_pfx := Some (ccnl_prefix_dup pfx),
                pkt_suite := pkt_suite p, pkt_buf := Some b, pkt_content := Some c,
                pkt_contlen := pkt_contlen p\<rparr>))
          | _ \<Rightarrow> Inl Null)))"

text \<open>\<open>htons\<close> of the \<open>int\<close> length keeps its low 16 bits.\<close>

definition ccnl_pkt_prependComponent :: "int \<Rightarrow> bytes \<Rightarrow> outbuf \<Rightarrow> outbuf res" where
  "ccnl_pkt_prependComponent s src ob =
    bindE (put_blob src ob) (\<lambda>ob1.
      if s = CCNL_SUITE_CCNTLV then
        if fst ob1 < 4 then Inl Fail
        else bindE (put_blob (be_bytes 2 (of_nat (length src))) ob1) (put_blob (be_bytes 2 0x0001))
      else Inr ob1)"

definition ccnl_pkt_interest_lifetime :: "pkt \<Rightarrow> u64" where
  "ccnl_pkt_interest_lifetime p =
    (if pkt_suite p = CCNL_SUITE_CCNTLV then CCNL_INTEREST_TIMEOUT
     else if pkt_suite p = CCNL_SUITE_NDNTLV then
       (case pkt_s p of Ndn_detail d \<Rightarrow> nd_interestlifetime d div 1000 | _ \<Rightarrow> 0)
     else CCNL_INTEREST_TIMEOUT)"

section \<open>The switch coding\<close>

definition ccnl_switch_dehead :: "bytes \<Rightarrow> cursor \<Rightarrow> (int option \<times> cursor) res" where
  "ccnl_switch_dehead m cur = (case cur of (p, n) \<Rightarrow>
     if n < 2 then Inr (None, (p, n))
     else bindE (rd m p) (\<lambda>b. if b \<noteq> 0x80 then Inr (None, (p, n))
       else bindE (rd m (p + 1)) (\<lambda>c.
         if c < 253 then Inr (Some (uint c), (p + 2, n - 2)) else Inr (None, (p, n)))))"

definition ccnl_switch_prependCodeVal :: "u64 \<Rightarrow> outbuf \<Rightarrow> outbuf res" where
  "ccnl_switch_prependCodeVal val ob =
    (let (len, t) = (if val < 253 then (0, ucast val)
        else if val \<le> 0xffff then (2, 253)
        else if val \<le> 0xffffffff then (4, 254)
        else (8, 255 :: byte))
     in if fst ob < len + 1 then Inl Fail
        else bindE (put_bytes len val ob) (push_byte t))"

definition ccnl_switch_prependCoding :: "u64 \<Rightarrow> outbuf \<Rightarrow> outbuf res" where
  "ccnl_switch_prependCoding code ob =
    (if fst ob < 2 then Inl Fail
     else bindE (ccnl_switch_prependCodeVal code ob) (\<lambda>ob1.
       if fst ob1 < 1 then Inl Fail else push_byte 0x80 ob1))"

text \<open>The loop of \<open>ccnl_pkt2suite\<close>: every header read lowers the length.\<close>

function pkt2suite_loop :: "bytes \<Rightarrow> cursor \<Rightarrow> int \<Rightarrow> (int \<times> cursor) res" where
  "pkt2suite_loop m cur suite = (case ccnl_switch_dehead m cur of
      Inl e \<Rightarrow> Inl e
    | Inr (None, cur') \<Rightarrow> Inr (suite, cur')
    | Inr (Some enc, cur') \<Rightarrow> pkt2suite_loop m cur' (ccnl_enc2suite enc))"
  by pat_completeness auto

lemma switch_dehead_progress:
  "ccnl_switch_dehead m (p, n) = Inr (Some c, (p', n')) \<Longrightarrow> p' = p + 2 \<and> n' = n - 2 \<and> 2 \<le> n"
  by (auto simp: ccnl_switch_dehead_def bindE_eq_Inr_iff split: if_splits)

termination pkt2suite_loop
  by (relation "measure (\<lambda>(m, cur, s). snd cur)") (auto dest: switch_dehead_progress)

declare pkt2suite_loop.simps [simp del]

text \<open>
  The result and \<open>*skip\<close>. The first byte behind the headers is read even when none is left;
  the tests on it are in the code's order, \<open>&&\<close> and \<open>||\<close> read no further than needed.
\<close>

definition ccnl_pkt2suite :: "bytes \<Rightarrow> nat \<Rightarrow> nat \<Rightarrow> (int \<times> nat) res" where
  "ccnl_pkt2suite m p len =
    (if len = 0 then Inr (-1, 0)
     else bindE (pkt2suite_loop m (p, len) (-1)) (\<lambda>(suite, (q, n)).
       if suite \<ge> 0 then Inr (suite, q - p)
       else bindE (rd m q) (\<lambda>b0.
         if b0 = 0x04 then Inr (CCNL_SUITE_CCNB, q - p)
         else bindE (if b0 = 0x01 \<and> n > 1 then rd m (q + 1) else Inr 0) (\<lambda>b1.
           if b0 = 0x01 \<and> n > 1 \<and> b1 \<notin> {0x00, 0x01, 0x02, 0x03} then Inr (CCNL_SUITE_CCNB, q - p)
           else if b0 = 0x01 \<and> n > 1 \<and> (b1 = 0x00 \<or> b1 = 0x01 \<or> b1 = 0x03 \<or> b1 = 0x02)
             then Inr (CCNL_SUITE_CCNTLV, q - p)
           else if b0 = 0x05 \<or> b0 = 0x06 \<or> b0 = 0x64 then Inr (CCNL_SUITE_NDNTLV, q - p)
           else Inr (-1, q - p)))))"

end
