(* ===== verification/Sockunion.thy ===== *)
theory Sockunion
  imports Prelude
begin

text \<open>
  Socket addresses: the union \<open>sockunion\<close> of \<open>ccnl-core/include/ccnl-sockunion.h\<close> and
  the functions of \<open>ccnl-core/src/ccnl-sockunion.c\<close> on it. One constructor per member, with
  the fields the code looks at. IPv4 addresses and ports are the numbers the network order stands
  for. A hardware address has \<open>sll_halen\<close> valid bytes out of the 8 of \<open>sll_addr\<close>.
\<close>

datatype sockunion =
    Su_unspec
  | Su_unix (sun_path: bytes)
  | Su_ip4 (sin_addr: u32) (sin_port: u16)
  | Su_ip6 (sin6_addr: bytes) (sin6_port: u16)
  | Su_linklayer (sll_addr: bytes) (sll_halen: nat) (sll_protocol: u16)

datatype sa_family = AF_UNSPEC | AF_UNIX | AF_INET | AF_INET6 | AF_PACKET

fun su_family :: "sockunion \<Rightarrow> sa_family" where
  "su_family Su_unspec = AF_UNSPEC"
| "su_family (Su_unix _) = AF_UNIX"
| "su_family (Su_ip4 _ _) = AF_INET"
| "su_family (Su_ip6 _ _) = AF_INET6"
| "su_family (Su_linklayer _ _ _) = AF_PACKET"

definition loopback_bytes :: bytes where
  "loopback_bytes = [0, 0, 0, 0, 0, 0, 0, 0, 0, 0, 0, 0, 0, 0, 0, 1]"

definition mapped_ipv4_loopback :: bytes where
  "mapped_ipv4_loopback = [0, 0, 0, 0, 0, 0, 0, 0, 0, 0, 0xff, 0xff, 0x7f, 0, 0, 1]"

fun ccnl_is_local_addr :: "sockunion option \<Rightarrow> int" where
  "ccnl_is_local_addr None = 0"
| "ccnl_is_local_addr (Some (Su_unix _)) = -1"
| "ccnl_is_local_addr (Some (Su_ip4 a _)) = (if a = 0x7f000001 then 1 else 0)"
| "ccnl_is_local_addr (Some (Su_ip6 a _)) =
     (if a = loopback_bytes \<or> a = mapped_ipv4_loopback then 1 else 0)"
| "ccnl_is_local_addr (Some _) = 0"

text \<open>0 for equal addresses, -1 (or the sign \<open>memcmp\<close> gives) otherwise; the port or protocol
  of a hardware address and everything beyond the first one's \<open>sll_halen\<close> is ignored.\<close>

fun ccnl_addr_cmp :: "sockunion \<Rightarrow> sockunion \<Rightarrow> int" where
  "ccnl_addr_cmp (Su_linklayer a n _) (Su_linklayer b _ _) = (if take n a = take n b then 0 else -1)"
| "ccnl_addr_cmp (Su_ip4 a p) (Su_ip4 b q) = (if a = b \<and> p = q then 0 else -1)"
| "ccnl_addr_cmp (Su_ip6 a p) (Su_ip6 b q) = (if a = b \<and> p = q then 0 else -1)"
| "ccnl_addr_cmp (Su_unix a) (Su_unix b) = (if a = b then 0 else -1)"
| "ccnl_addr_cmp _ _ = -1"

lemma addr_cmp_family: "ccnl_addr_cmp a b = 0 \<Longrightarrow> su_family a = su_family b"
  by (cases "(a, b)" rule: ccnl_addr_cmp.cases) auto

lemma addr_cmp_self: "a \<noteq> Su_unspec \<Longrightarrow> ccnl_addr_cmp a a = 0"
  by (cases a) auto

end
