(* ===== verification/Relay.thy ===== *)
theory Relay
  imports Pkt Sockunion
begin

text \<open>
  The relay: its state (\<open>ccnl-relay.h\<close>, \<open>ccnl-face.h\<close>, \<open>ccnl-if.h\<close>,
  \<open>ccnl-interest.h\<close>, \<open>ccnl-content.h\<close>, \<open>ccnl-forward.h\<close>), the callbacks the
  application installs, and the operations on faces and interfaces of \<open>ccnl-relay.c\<close>.

  \<^item> Linked lists are lists, head first. A face is referred to by its \<open>faceid\<close>, an interest
    and a content by an address; none is ever used twice, so using a removed object shows as
    \<open>Uaf\<close>.
  \<^item> \<open>CCNL_NOW ()\<close> is the field \<open>rl_now\<close>. Calls out of the relay that return nothing, the
    link layer \<open>ccnl_ll_TX_ptr\<close> and the taps, are recorded in \<open>rl_tx\<close> and
    \<open>rl_taps\<close>, newest last.
  \<^item> Callbacks that return a value are the functions of the record \<open>hooks\<close>; they may change
    the relay. Schedulers, fragmentation and the logging of the default build do nothing.
\<close>

section \<open>State\<close>

abbreviation (input) CCNL_FACE_FLAGS_STATIC :: u32 where "CCNL_FACE_FLAGS_STATIC \<equiv> 1"
abbreviation (input) CCNL_FACE_FLAGS_REFLECT :: u32 where "CCNL_FACE_FLAGS_REFLECT \<equiv> 2"
abbreviation (input) CCNL_FACE_FLAGS_SERVED :: u32 where "CCNL_FACE_FLAGS_SERVED \<equiv> 4"
abbreviation (input) CCNL_FACE_FLAGS_FWDALLI :: u32 where "CCNL_FACE_FLAGS_FWDALLI \<equiv> 8"
abbreviation (input) CCNL_CONTENT_FLAGS_NOT_STALE :: u8 where "CCNL_CONTENT_FLAGS_NOT_STALE \<equiv> 0"
abbreviation (input) CCNL_CONTENT_FLAGS_STATIC :: u8 where "CCNL_CONTENT_FLAGS_STATIC \<equiv> 1"
abbreviation (input) CCNL_CONTENT_FLAGS_STALE :: u8 where "CCNL_CONTENT_FLAGS_STALE \<equiv> 2"

type_synonym faceref = nat
type_synonym ref = nat

record face =
  f_faceid :: faceref
  f_ifndx :: int
  f_peer :: sockunion
  f_flags :: u32
  f_last_used :: u32
  f_outq :: "bytes list"

record txrequest =
  tx_buf :: bytes
  tx_dst :: sockunion
  tx_face :: faceref

record iface =
  if_addr :: sockunion
  if_reflect :: bool
  if_fwdalli :: bool
  if_mtu :: u32
  if_qlen :: nat
  if_qfront :: nat
  if_queue :: "txrequest list"
  if_rx_cnt :: u32
  if_tx_cnt :: u32

record pendint =
  pi_face :: faceref
  pi_last_used :: u32

record interest =
  i_ref :: ref
  i_pkt :: pkt
  i_from :: "faceref option"
  i_pending :: "pendint list"
  i_lifetime :: u32
  i_last_used :: u32
  i_retries :: nat

record content =
  c_ref :: ref
  c_pkt :: pkt
  c_flags :: u8
  c_last_used :: u32
  c_served_cnt :: nat

record forward =
  fw_prefix :: "prefix option"
  fw_tap :: "nat option"
  fw_face :: "faceref option"
  fw_suite :: int

record relay =
  rl_faces :: "face list"
  rl_fib :: "forward list"
  rl_pit :: "interest list"
  rl_contents :: "content list"
  rl_nonces :: "bytes list"
  rl_contentcnt :: int
  rl_max_cache_entries :: int
  rl_pitcnt :: int
  rl_max_pit_entries :: int
  rl_ifs :: "iface list"
  rl_ifcount :: nat
  rl_seqno :: faceref
  rl_fresh :: ref
  rl_now :: u32
  rl_tx :: "(nat \<times> sockunion \<times> bytes) list"
  rl_taps :: "(nat \<times> faceref option \<times> prefix \<times> bytes) list"
  rl_halt :: bool

text \<open>The callbacks, and the library routines of other parts that the relay calls:
  \<open>hk_digest\<close> is \<open>compute_ccnx_digest\<close>, \<open>hk_mgmt\<close> is \<open>ccnl_mgmt\<close>. \<open>hk_behind\<close> is
  no function of the code: it stands for the bytes that happen to lie behind the first component
  of a packet's name in memory.\<close>

record hooks =
  hk_rx_on_data :: "(relay \<Rightarrow> faceref option \<Rightarrow> pkt \<Rightarrow> int \<times> relay) option"
  hk_tx_on_data :: "(relay \<Rightarrow> faceref option \<Rightarrow> pkt \<Rightarrow> int \<times> relay) option"
  hk_producer :: "(relay \<Rightarrow> faceref option \<Rightarrow> pkt \<Rightarrow> int \<times> relay) option"
  hk_cs_remove :: "(relay \<Rightarrow> content \<Rightarrow> int \<times> relay) option"
  hk_cs_decision :: "(relay \<Rightarrow> content \<Rightarrow> int \<times> relay) option"
  hk_mgmt :: "relay \<Rightarrow> bytes \<Rightarrow> prefix \<Rightarrow> faceref option \<Rightarrow> (int \<times> relay) res"
  hk_digest :: "bytes \<Rightarrow> bytes option"
  hk_behind :: "pkt \<Rightarrow> bytes"

definition ccnl_set_cb_rx_on_data ::
    "(relay \<Rightarrow> faceref option \<Rightarrow> pkt \<Rightarrow> int \<times> relay) option \<Rightarrow> hooks \<Rightarrow> hooks" where
  "ccnl_set_cb_rx_on_data func h = h\<lparr>hk_rx_on_data := func\<rparr>"

definition ccnl_set_cb_tx_on_data ::
    "(relay \<Rightarrow> faceref option \<Rightarrow> pkt \<Rightarrow> int \<times> relay) option \<Rightarrow> hooks \<Rightarrow> hooks" where
  "ccnl_set_cb_tx_on_data func h = h\<lparr>hk_tx_on_data := func\<rparr>"

definition ccnl_callback_rx_on_data :: "hooks \<Rightarrow> relay \<Rightarrow> faceref option \<Rightarrow> pkt \<Rightarrow> int \<times> relay" where
  "ccnl_callback_rx_on_data h r from1 p =
    (case hk_rx_on_data h of None \<Rightarrow> (0, r) | Some cb \<Rightarrow> cb r from1 p)"

definition ccnl_callback_tx_on_data :: "hooks \<Rightarrow> relay \<Rightarrow> faceref option \<Rightarrow> pkt \<Rightarrow> int \<times> relay" where
  "ccnl_callback_tx_on_data h r to1 p =
    (case hk_tx_on_data h of None \<Rightarrow> (0, r) | Some cb \<Rightarrow> cb r to1 p)"

definition ccnl_set_local_producer ::
    "(relay \<Rightarrow> faceref option \<Rightarrow> pkt \<Rightarrow> int \<times> relay) option \<Rightarrow> hooks \<Rightarrow> hooks" where
  "ccnl_set_local_producer func h = h\<lparr>hk_producer := func\<rparr>"

definition local_producer :: "hooks \<Rightarrow> relay \<Rightarrow> faceref option \<Rightarrow> pkt \<Rightarrow> int \<times> relay" where
  "local_producer h r from1 p = (case hk_producer h of None \<Rightarrow> (0, r) | Some cb \<Rightarrow> cb r from1 p)"

definition ccnl_set_cache_strategy_remove :: "(relay \<Rightarrow> content \<Rightarrow> int \<times> relay) option \<Rightarrow> hooks \<Rightarrow> hooks" where
  "ccnl_set_cache_strategy_remove func h = h\<lparr>hk_cs_remove := func\<rparr>"

definition ccnl_set_cache_strategy_cache :: "(relay \<Rightarrow> content \<Rightarrow> int \<times> relay) option \<Rightarrow> hooks \<Rightarrow> hooks" where
  "ccnl_set_cache_strategy_cache func h = h\<lparr>hk_cs_decision := func\<rparr>"

definition cache_strategy_remove :: "hooks \<Rightarrow> relay \<Rightarrow> content \<Rightarrow> int \<times> relay" where
  "cache_strategy_remove h r c = (case hk_cs_remove h of None \<Rightarrow> (0, r) | Some f \<Rightarrow> f r c)"

definition cache_strategy_cache :: "hooks \<Rightarrow> relay \<Rightarrow> content \<Rightarrow> int \<times> relay" where
  "cache_strategy_cache h r c = (case hk_cs_decision h of None \<Rightarrow> (1, r) | Some f \<Rightarrow> f r c)"

section \<open>Faces\<close>

text \<open>Following a pointer to a face, and writing through it.\<close>

definition face_get :: "relay \<Rightarrow> faceref \<Rightarrow> face res" where
  "face_get r i = (case find (\<lambda>f. f_faceid f = i) (rl_faces r) of None \<Rightarrow> Inl Uaf | Some f \<Rightarrow> Inr f)"

definition face_upd :: "faceref \<Rightarrow> (face \<Rightarrow> face) \<Rightarrow> relay \<Rightarrow> relay" where
  "face_upd i g r = r\<lparr>rl_faces := map (\<lambda>f. if f_faceid f = i then g f else f) (rl_faces r)\<rparr>"

text \<open>\<open>sa == NULL\<close> asks for the local client; \<open>ifndx == -1\<close> asks for the first interface
  of the address's family.\<close>

definition ccnl_get_face_or_create :: "relay \<Rightarrow> int \<Rightarrow> sockunion option \<Rightarrow> (faceref option \<times> relay) res" where
  "ccnl_get_face_or_create r ifndx sa =
    (case find (\<lambda>f. case sa of None \<Rightarrow> f_ifndx f = -1
        | Some a \<Rightarrow> ifndx \<noteq> -1 \<and> f_ifndx f = ifndx \<and> ccnl_addr_cmp (f_peer f) a = 0) (rl_faces r) of
      Some f \<Rightarrow>
        Inr (Some (f_faceid f),
          if sa = None then r else face_upd (f_faceid f) (\<lambda>f. f\<lparr>f_last_used := rl_now r\<rparr>) r)
    | None \<Rightarrow>
        (let nx = (case sa of
             Some a \<Rightarrow> if ifndx = -1
               then (case find (\<lambda>(i, ifc). su_family a = su_family (if_addr ifc))
                     (enumerate 0 (take (rl_ifcount r) (rl_ifs r))) of
                   None \<Rightarrow> None | Some (i, ifc) \<Rightarrow> Some (int i))
               else Some ifndx
           | None \<Rightarrow> Some ifndx)
         in case nx of
           None \<Rightarrow> Inr (None, r)
         | Some nx \<Rightarrow>
             bindE (if nx \<ge> 0 then
                      if nat nx < length (rl_ifs r) then
                        let ifc = rl_ifs r ! nat nx in
                        Inr ((if if_reflect ifc then CCNL_FACE_FLAGS_REFLECT else 0)
                             OR (if if_fwdalli ifc then CCNL_FACE_FLAGS_FWDALLI else 0))
                      else Inl Oob
                    else Inr 0)
             (\<lambda>flags.
               let sq = rl_seqno r + 1;
                   f = \<lparr>f_faceid = sq, f_ifndx = (if sa = None then -1 else nx),
                        f_peer = (case sa of None \<Rightarrow> Su_unspec | Some a \<Rightarrow> a),
                        f_flags = flags, f_last_used = rl_now r, f_outq = []\<rparr>
               in Inr (Some sq, r\<lparr>rl_seqno := sq, rl_faces := f # rl_faces r\<rparr>))))"

section \<open>Sending\<close>

definition if_upd :: "nat \<Rightarrow> (iface \<Rightarrow> iface) \<Rightarrow> relay \<Rightarrow> relay" where
  "if_upd n g r = r\<lparr>rl_ifs := (rl_ifs r)[n := g (rl_ifs r ! n)]\<rparr>"

text \<open>Takes the front request off the ring and hands it to the link layer.\<close>

definition ccnl_interface_CTS :: "nat \<Rightarrow> relay \<Rightarrow> relay res" where
  "ccnl_interface_CTS n r =
    (let ifc = rl_ifs r ! n in
     if if_qlen ifc = 0 then Inr r
     else if if_qfront ifc \<ge> length (if_queue ifc) then Inl Oob
     else
       let req = if_queue ifc ! if_qfront ifc;
           r1 = if_upd n (\<lambda>i. i\<lparr>if_tx_cnt := if_tx_cnt i + 1,
                  if_qfront := (if_qfront i + 1) mod CCNL_MAX_IF_QLEN, if_qlen := if_qlen i - 1\<rparr>) r
       in Inr (r1\<lparr>rl_tx := rl_tx r1 @ [(n, tx_dst req, tx_buf req)]\<rparr>))"

text \<open>The index of the interface, an arithmetic on \<open>ccnl->ifs\<close>, is only good inside the
  array.\<close>

definition ccnl_interface_enqueue :: "faceref \<Rightarrow> int \<Rightarrow> bytes \<Rightarrow> sockunion \<Rightarrow> relay \<Rightarrow> relay res" where
  "ccnl_interface_enqueue f ifndx buf dest r =
    (if ifndx < 0 \<or> nat ifndx \<ge> length (rl_ifs r) then Inl Oob
     else
       let n = nat ifndx; ifc = rl_ifs r ! n in
       if if_qlen ifc \<ge> CCNL_MAX_IF_QLEN then Inr r
       else
         let k = (if_qfront ifc + if_qlen ifc) mod CCNL_MAX_IF_QLEN in
         if k \<ge> length (if_queue ifc) then Inl Oob
         else ccnl_interface_CTS n
           (if_upd n (\<lambda>i. i\<lparr>if_queue := (if_queue i)[k := \<lparr>tx_buf = buf, tx_dst = dest, tx_face = f\<rparr>],
              if_qlen := if_qlen i + 1\<rparr>) r))"

definition ccnl_face_dequeue :: "faceref \<Rightarrow> relay \<Rightarrow> (bytes option \<times> relay) res" where
  "ccnl_face_dequeue i r = bindE (face_get r i) (\<lambda>f. case f_outq f of
      [] \<Rightarrow> Inr (None, r)
    | b # bs \<Rightarrow> Inr (Some b, face_upd i (\<lambda>f. f\<lparr>f_outq := bs\<rparr>) r))"

definition ccnl_face_CTS :: "faceref \<Rightarrow> relay \<Rightarrow> relay res" where
  "ccnl_face_CTS i r = bindE (ccnl_face_dequeue i r) (\<lambda>(buf, r1). case buf of
      None \<Rightarrow> Inr r1
    | Some b \<Rightarrow> bindE (face_get r1 i) (\<lambda>f. ccnl_interface_enqueue i (f_ifndx f) b (f_peer f) r1))"

definition ccnl_face_enqueue :: "faceref \<Rightarrow> bytes option \<Rightarrow> relay \<Rightarrow> (int \<times> relay) res" where
  "ccnl_face_enqueue i buf r = (case buf of
      None \<Rightarrow> Inr (-1, r)
    | Some b \<Rightarrow> bindE (face_get r i) (\<lambda>f.
        if b \<in> set (f_outq f) then Inr (-1, r)
        else bindE (ccnl_face_CTS i (face_upd i (\<lambda>f. f\<lparr>f_outq := f_outq f @ [b]\<rparr>) r))
          (\<lambda>r1. Inr (0, r1))))"

definition ccnl_send_pkt :: "faceref \<Rightarrow> pkt \<Rightarrow> relay \<Rightarrow> (int \<times> relay) res" where
  "ccnl_send_pkt i p r = ccnl_face_enqueue i (pkt_buf p) r"

end
