(* ===== verification/Tables.thy ===== *)
theory Tables
  imports Relay
begin

text \<open>
  The three tables of the relay: the pending interest table (\<open>ccnl-interest.c\<close> and its part
  of \<open>ccnl-relay.c\<close>), the forwarding table and the content store (\<open>ccnl-content.c\<close>,
  \<open>ccnl-relay.c\<close>), the nonce list, and the operations that work across them: removing a face,
  serving pending interests, ageing and cleaning up.

  A loop that walks a list while it removes elements from it is a recursion over the list as it
  was when the loop began: every step removes at most the element it stands on.
\<close>

section \<open>Pending interests\<close>

text \<open>\<open>buf_equal\<close> of two buffers that may be NULL.\<close>

definition buf_equal :: "bytes option \<Rightarrow> bytes option \<Rightarrow> bool" where
  "buf_equal a b \<longleftrightarrow> a \<noteq> None \<and> a = b"

text \<open>The member of the union \<open>s\<close> the code reads; memory no parser wrote is zero.\<close>

definition zero_ndn :: ndn_detail where
  "zero_ndn = \<lparr>nd_minsuffix = 0, nd_maxsuffix = 0, nd_scope = 0, nd_mbf = False, nd_nonce = None,
     nd_ppkl = None, nd_interestlifetime = 0, nd_freshnessperiod = 0\<rparr>"

definition zero_ccnb :: ccnb_detail where
  "zero_ccnb = \<lparr>cb_minsuffix = 0, cb_maxsuffix = 0, cb_aok = 0, cb_scope = 0, cb_nonce = None,
     cb_ppkd = None\<rparr>"

definition s_ndntlv :: "pkt \<Rightarrow> ndn_detail" where
  "s_ndntlv p = (case pkt_s p of Ndn_detail d \<Rightarrow> d | _ \<Rightarrow> zero_ndn)"

definition s_ccnb :: "pkt \<Rightarrow> ccnb_detail" where
  "s_ccnb p = (case pkt_s p of Ccnb_detail d \<Rightarrow> d | _ \<Rightarrow> zero_ccnb)"

definition deref :: "'a option \<Rightarrow> 'a res" where
  "deref x = (case x of None \<Rightarrow> Inl Null | Some y \<Rightarrow> Inr y)"

lemma deref_simps [simp]: "deref None = Inl Null" "deref (Some y) = Inr y"
  by (simp_all add: deref_def)

definition pit_get :: "relay \<Rightarrow> ref \<Rightarrow> interest res" where
  "pit_get r i = (case find (\<lambda>x. i_ref x = i) (rl_pit r) of None \<Rightarrow> Inl Uaf | Some x \<Rightarrow> Inr x)"

definition pit_upd :: "ref \<Rightarrow> (interest \<Rightarrow> interest) \<Rightarrow> relay \<Rightarrow> relay" where
  "pit_upd i g r = r\<lparr>rl_pit := map (\<lambda>x. if i_ref x = i then g x else x) (rl_pit r)\<rparr>"

text \<open>The new interest goes to the front of the table, or is freed again when the table is full;
  the packet is consumed in both cases. The lifetime is cut to 32 bits.\<close>

definition ccnl_interest_new :: "relay \<Rightarrow> faceref option \<Rightarrow> pkt \<Rightarrow> ref option \<times> relay" where
  "ccnl_interest_new r from1 p =
    (if rl_max_pit_entries r \<noteq> -1 \<and> rl_pitcnt r \<ge> rl_max_pit_entries r then (None, r)
     else (Some (rl_fresh r),
       r\<lparr>rl_pit := \<lparr>i_ref = rl_fresh r, i_pkt = p, i_from = from1, i_pending = [],
             i_lifetime = ucast (ccnl_pkt_interest_lifetime p), i_last_used = rl_now r,
             i_retries = 0\<rparr> # rl_pit r,
         rl_fresh := rl_fresh r + 1, rl_pitcnt := rl_pitcnt r + 1\<rparr>))"

definition ccnl_interest_isSame :: "interest option \<Rightarrow> pkt option \<Rightarrow> int res" where
  "ccnl_interest_isSame i p = (case i of None \<Rightarrow> Inr (-1)
    | Some i \<Rightarrow> (case p of None \<Rightarrow> Inr (-2)
      | Some p \<Rightarrow> bindE (deref (pkt_pfx (i_pkt i))) (\<lambda>ipfx.
          if pfx_suite ipfx \<noteq> pkt_suite p then Inr 0
          else bindE (deref (pkt_pfx p)) (\<lambda>ppfx.
            if ccnl_prefix_cmp ipfx None ppfx CMP_EXACT \<noteq> 0 then Inr 0
            else if pfx_suite ipfx = CCNL_SUITE_CCNB then
              let a = s_ccnb (i_pkt i); b = s_ccnb p in
              Inr (if cb_minsuffix a = cb_minsuffix b \<and> cb_maxsuffix a = cb_maxsuffix b
                \<and> (cb_ppkd a = None \<and> cb_ppkd b = None \<or> buf_equal (cb_ppkd a) (cb_ppkd b)) then 1 else 0)
            else if pfx_suite ipfx = CCNL_SUITE_NDNTLV then
              let a = s_ndntlv (i_pkt i); b = s_ndntlv p in
              Inr (if nd_minsuffix a = nd_minsuffix b \<and> nd_maxsuffix a = nd_maxsuffix b
                \<and> (nd_ppkl a = None \<and> nd_ppkl b = None \<or> buf_equal (nd_ppkl a) (nd_ppkl b)) then 1 else 0)
            else Inr 1))))"

text \<open>The result and the interest with its list of pending faces changed in place.\<close>

definition ccnl_interest_append_pending ::
    "u32 \<Rightarrow> interest option \<Rightarrow> faceref option \<Rightarrow> int \<times> interest option" where
  "ccnl_interest_append_pending now i from1 = (case i of None \<Rightarrow> (-1, None)
    | Some x \<Rightarrow> (case from1 of None \<Rightarrow> (-2, Some x)
      | Some f \<Rightarrow>
          if f \<in> pi_face ` set (i_pending x) then
            (0, Some (x\<lparr>i_pending := map (\<lambda>q. if pi_face q = f then q\<lparr>pi_last_used := now\<rparr> else q) (i_pending x)\<rparr>))
          else (0, Some (x\<lparr>i_pending := i_pending x @ [\<lparr>pi_face = f, pi_last_used = now\<rparr>]\<rparr>))))"

text \<open>Compares face ids through the pending entries' face pointers.\<close>

fun remove_pending_loop :: "relay \<Rightarrow> faceref \<Rightarrow> pendint list \<Rightarrow> (int \<times> pendint list) res" where
  "remove_pending_loop r fid [] = Inr (0, [])"
| "remove_pending_loop r fid (q # qs) = bindE (face_get r (pi_face q)) (\<lambda>f.
     bindE (remove_pending_loop r fid qs) (\<lambda>(n, rest).
       Inr (if fid = f_faceid f then (n + 1, rest) else (n, q # rest))))"

definition ccnl_interest_remove_pending ::
    "relay \<Rightarrow> interest option \<Rightarrow> faceref option \<Rightarrow> (int \<times> interest option) res" where
  "ccnl_interest_remove_pending r i fc = (case i of None \<Rightarrow> Inr (-1, None)
    | Some x \<Rightarrow> (case fc of None \<Rightarrow> Inr (-2, Some x)
      | Some fid \<Rightarrow> bindE (remove_pending_loop r fid (i_pending x)) (\<lambda>(n, rest).
          Inr (n, Some (x\<lparr>i_pending := rest\<rparr>)))))"

definition ccnl_interest_remove :: "ref \<Rightarrow> relay \<Rightarrow> relay res" where
  "ccnl_interest_remove i r = bindE (pit_get r i) (\<lambda>_.
     Inr (r\<lparr>rl_pit := filter (\<lambda>x. i_ref x \<noteq> i) (rl_pit r), rl_pitcnt := rl_pitcnt r - 1\<rparr>))"

section \<open>Forwarding\<close>

text \<open>One round of the loop of \<open>ccnl_interest_propagate\<close>: an entry of another suite, without
  a matching prefix, or towards the face the interest came from is skipped.\<close>

definition propagate_step :: "interest \<Rightarrow> forward \<Rightarrow> relay \<Rightarrow> relay res" where
  "propagate_step i fw r = (case fw_prefix fw of None \<Rightarrow> Inr r
    | Some p \<Rightarrow> (case pkt_pfx (i_pkt i) of None \<Rightarrow> Inr r
      | Some nm \<Rightarrow>
          if fw_suite fw \<noteq> pfx_suite nm then Inr r
          else if ccnl_prefix_cmp p None nm CMP_LONGEST < int (compcnt p) then Inr r
          else bindE (case i_from i of None \<Rightarrow> Inr True
              | Some fr \<Rightarrow> if fw_face fw \<noteq> Some fr then Inr True
                  else bindE (face_get r fr) (\<lambda>f. Inr (f_flags f AND CCNL_FACE_FLAGS_REFLECT \<noteq> 0)))
            (\<lambda>go. if \<not> go then Inr r
              else bindE (case fw_tap fw of None \<Rightarrow> Inr r
                  | Some t \<Rightarrow> bindE (deref (pkt_buf (i_pkt i))) (\<lambda>b.
                      Inr (r\<lparr>rl_taps := rl_taps r @ [(t, i_from i, nm, b)]\<rparr>)))
                (\<lambda>r1. case fw_face fw of None \<Rightarrow> Inr r1
                  | Some f \<Rightarrow> bindE (ccnl_send_pkt f (i_pkt i) r1) (\<lambda>(rc, r2). Inr r2)))))"

fun propagate_loop :: "interest \<Rightarrow> forward list \<Rightarrow> relay \<Rightarrow> relay res" where
  "propagate_loop i [] r = Inr r"
| "propagate_loop i (fw # fws) r = bindE (propagate_step i fw r) (propagate_loop i fws)"

definition ccnl_interest_propagate :: "interest option \<Rightarrow> relay \<Rightarrow> relay res" where
  "ccnl_interest_propagate i r =
    (case i of None \<Rightarrow> Inr r | Some i \<Rightarrow> propagate_loop i (rl_fib r) r)"

text \<open>Replaces the first entry of the same suite and name, else appends one. An entry without a
  prefix is dereferenced.\<close>

fun fib_search :: "prefix \<Rightarrow> forward list \<Rightarrow> nat \<Rightarrow> nat option res" where
  "fib_search p [] k = Inr None"
| "fib_search p (fw # fws) k =
     (if fw_suite fw = pfx_suite p then
        bindE (deref (fw_prefix fw)) (\<lambda>q.
          if ccnl_prefix_cmp q None p CMP_EXACT = 0 then Inr (Some k) else fib_search p fws (k + 1))
      else fib_search p fws (k + 1))"

definition ccnl_fib_add_entry :: "relay \<Rightarrow> prefix \<Rightarrow> faceref option \<Rightarrow> (int \<times> relay) res" where
  "ccnl_fib_add_entry r p fc = bindE (fib_search p (rl_fib r) 0) (\<lambda>k. case k of
      Some k \<Rightarrow> Inr (0, r\<lparr>rl_fib := (rl_fib r)[k := (rl_fib r ! k)\<lparr>fw_prefix := Some p, fw_face := fc\<rparr>]\<rparr>)
    | None \<Rightarrow> Inr (0, r\<lparr>rl_fib := rl_fib r @
        [\<lparr>fw_prefix = Some p, fw_tap = None, fw_face = fc, fw_suite = pfx_suite p\<rparr>]\<rparr>))"

definition ccnl_set_tap :: "relay \<Rightarrow> prefix \<Rightarrow> nat \<Rightarrow> (int \<times> relay) res" where
  "ccnl_set_tap r p callback = bindE (fib_search p (rl_fib r) 0) (\<lambda>k. case k of
      Some k \<Rightarrow> Inr (0, r\<lparr>rl_fib := (rl_fib r)[k := (rl_fib r ! k)\<lparr>fw_prefix := Some p, fw_tap := Some callback\<rparr>]\<rparr>)
    | None \<Rightarrow> Inr (0, r\<lparr>rl_fib := rl_fib r @
        [\<lparr>fw_prefix = Some p, fw_tap = Some callback, fw_face = None, fw_suite = pfx_suite p\<rparr>]\<rparr>))"

fun fib_rem_loop :: "prefix option \<Rightarrow> faceref option \<Rightarrow> forward list \<Rightarrow> (int \<times> forward list) res" where
  "fib_rem_loop p fc [] = Inr (-1, [])"
| "fib_rem_loop p fc (fw # fws) =
     bindE (case p of None \<Rightarrow> Inr True
         | Some p \<Rightarrow> if fw_suite fw = pfx_suite p then
             bindE (deref (fw_prefix fw)) (\<lambda>q. Inr (ccnl_prefix_cmp q None p CMP_EXACT = 0))
           else Inr False)
       (\<lambda>hit. if hit \<and> (fc = None \<or> fw_face fw = fc) then Inr (0, fws)
         else bindE (fib_rem_loop p fc fws) (\<lambda>(res1, rest). Inr (res1, fw # rest)))"

definition ccnl_fib_rem_entry :: "relay \<Rightarrow> prefix option \<Rightarrow> faceref option \<Rightarrow> (int \<times> relay) res" where
  "ccnl_fib_rem_entry r p fc =
    bindE (fib_rem_loop p fc (rl_fib r)) (\<lambda>(res1, fib). Inr (res1, r\<lparr>rl_fib := fib\<rparr>))"

section \<open>Broadcasting an Interest\<close>

text \<open>The broadcast address of an interface's family. The IPv6 port is stored without \<open>htons\<close>, so
  it reads byte-swapped.\<close>

definition broadcast_addr :: "int \<Rightarrow> sa_family \<Rightarrow> sockunion option" where
  "broadcast_addr suite fam =
    (let port = of_int (ccnl_suite2defaultPort suite) :: u16 in
     case fam of
       AF_PACKET \<Rightarrow> Some (Su_linklayer (replicate 6 0xff) 6 0x0801)
     | AF_INET \<Rightarrow> Some (Su_ip4 0xffffffff port)
     | AF_INET6 \<Rightarrow> Some (Su_ip6 (replicate 16 0) (push_bit 8 port OR drop_bit 8 port))
     | _ \<Rightarrow> None)"

text \<open>\<open>fibface\<close> keeps its value over interfaces of other families.\<close>

fun broadcast_loop :: "pkt \<Rightarrow> nat list \<Rightarrow> faceref option \<Rightarrow> relay \<Rightarrow> relay res" where
  "broadcast_loop p [] fibface r = Inr r"
| "broadcast_loop p (k # ks) fibface r =
    (if k \<ge> length (rl_ifs r) then Inl Oob
     else bindE (case broadcast_addr (pkt_suite p) (su_family (if_addr (rl_ifs r ! k))) of
             None \<Rightarrow> Inr (fibface, r)
           | Some a \<Rightarrow> ccnl_get_face_or_create r (int k) (Some a))
         (\<lambda>(f, r1). case f of
             None \<Rightarrow> broadcast_loop p ks f r1
           | Some g \<Rightarrow> bindE (ccnl_send_pkt g p r1) (\<lambda>(rc, r2). broadcast_loop p ks f r2)))"

definition ccnl_interest_broadcast :: "interest \<Rightarrow> relay \<Rightarrow> relay res" where
  "ccnl_interest_broadcast i r = broadcast_loop (i_pkt i) [0..<CCNL_MAX_INTERFACES] None r"

section \<open>The content store\<close>

definition ccnl_content_new :: "relay \<Rightarrow> pkt \<Rightarrow> content \<times> relay" where
  "ccnl_content_new r p =
    (\<lparr>c_ref = rl_fresh r, c_pkt = p, c_flags = CCNL_CONTENT_FLAGS_NOT_STALE, c_last_used = rl_now r,
       c_served_cnt = 0\<rparr>, r\<lparr>rl_fresh := rl_fresh r + 1\<rparr>)"

definition cs_get :: "relay \<Rightarrow> ref \<Rightarrow> content res" where
  "cs_get r i = (case find (\<lambda>x. c_ref x = i) (rl_contents r) of None \<Rightarrow> Inl Uaf | Some x \<Rightarrow> Inr x)"

definition cs_upd :: "ref \<Rightarrow> (content \<Rightarrow> content) \<Rightarrow> relay \<Rightarrow> relay" where
  "cs_upd i g r = r\<lparr>rl_contents := map (\<lambda>x. if c_ref x = i then g x else x) (rl_contents r)\<rparr>"

definition ccnl_content_remove :: "ref \<Rightarrow> relay \<Rightarrow> relay res" where
  "ccnl_content_remove i r = bindE (cs_get r i) (\<lambda>_.
     Inr (r\<lparr>rl_contents := filter (\<lambda>x. c_ref x \<noteq> i) (rl_contents r), rl_contentcnt := rl_contentcnt r - 1\<rparr>))"

text \<open>Whether some content of the list has exactly this name.\<close>

fun cs_has_name :: "prefix \<Rightarrow> content list \<Rightarrow> bool res" where
  "cs_has_name p [] = Inr False"
| "cs_has_name p (c # cs) = bindE (deref (pkt_pfx (c_pkt c))) (\<lambda>q.
     if ccnl_prefix_cmp p None q CMP_EXACT = 0 then Inr True else cs_has_name p cs)"

text \<open>The oldest content that is not static: an age of 0 means that none is found yet.\<close>

fun oldest_loop :: "content list \<Rightarrow> u32 \<Rightarrow> ref option \<Rightarrow> ref option" where
  "oldest_loop [] age old = old"
| "oldest_loop (c # cs) age old =
     (if c_flags c AND CCNL_CONTENT_FLAGS_STATIC = 0 \<and> (age = 0 \<or> c_last_used c < age)
      then oldest_loop cs (c_last_used c) (Some (c_ref c))
      else oldest_loop cs age old)"

text \<open>False is the NULL result (already in the cache). The room is tested after the eviction with
  \<open><=\<close>.\<close>

definition ccnl_content_add2cache :: "hooks \<Rightarrow> content \<Rightarrow> relay \<Rightarrow> (bool \<times> relay) res" where
  "ccnl_content_add2cache h c r =
    bindE (if rl_contents r = [] then Inr False
           else bindE (deref (pkt_pfx (c_pkt c))) (\<lambda>p. cs_has_name p (rl_contents r)))
    (\<lambda>dup. if dup then Inr (False, r)
      else
        bindE (if rl_max_cache_entries r > 0 \<and> rl_contentcnt r \<ge> rl_max_cache_entries r then
                 (case cache_strategy_remove h r c of (rc, r1) \<Rightarrow>
                    if rc \<noteq> 0 then Inr r1
                    else (case oldest_loop (rl_contents r1) 0 None of
                        None \<Rightarrow> Inr r1
                      | Some i \<Rightarrow> ccnl_content_remove i r1))
               else Inr r)
        (\<lambda>r2. Inr (True,
           if rl_max_cache_entries r2 \<le> 0 \<or> rl_contentcnt r2 \<le> rl_max_cache_entries r2
           then r2\<lparr>rl_contents := c # rl_contents r2, rl_contentcnt := rl_contentcnt r2 + 1\<rparr>
           else r2)))"

section \<open>Matching\<close>

text \<open>The suffix bounds are compared in 64 bits; the digest component is asked for when the
  32-bit difference of the component counts is 1.\<close>

definition ccnl_i_prefixof_c :: "hooks \<Rightarrow> prefix option \<Rightarrow> u64 \<Rightarrow> u64 \<Rightarrow> content \<Rightarrow> int res" where
  "ccnl_i_prefixof_c h pfx minsuffix maxsuffix c =
    bindE (deref pfx) (\<lambda>pfx. bindE (deref (pkt_pfx (c_pkt c))) (\<lambda>p.
      if of_nat (compcnt pfx) + minsuffix > of_nat (compcnt p + 1)
        \<or> of_nat (compcnt pfx) + maxsuffix < of_nat (compcnt p + 1) then Inr (-2)
      else bindE (if (of_nat (compcnt pfx) - of_nat (compcnt p) :: u32) = 1
                  then bindE (deref (pkt_buf (c_pkt c))) (\<lambda>b. Inr (Some (hk_digest h b)))
                  else Inr None)
        (\<lambda>md. case md of
            Some None \<Rightarrow> Inr (-3)
          | Some (Some d) \<Rightarrow> Inr (ccnl_prefix_cmp p (Some d) pfx CMP_EXACT)
          | None \<Rightarrow> Inr (ccnl_prefix_cmp p None pfx CMP_EXACT))))"

definition ccnl_ndntlv_cMatch :: "hooks \<Rightarrow> pkt \<Rightarrow> content \<Rightarrow> int res" where
  "ccnl_ndntlv_cMatch h p c =
    (let d = s_ndntlv p in
     bindE (ccnl_i_prefixof_c h (pkt_pfx p) (nd_minsuffix d) (nd_maxsuffix d) c) (\<lambda>rc.
       if rc < 0 then Inr (-1)
       else if nd_mbf d \<and> c_flags c AND CCNL_CONTENT_FLAGS_STALE \<noteq> 0 then Inr (-1)
       else Inr 0))"

section \<open>Serving pending interests\<close>

text \<open>Whether the content satisfies the interest: the switch on the suite. \<open>None\<close> is the
  \<open>continue\<close> that does not advance.\<close>

definition pending_matches :: "hooks \<Rightarrow> content \<Rightarrow> interest \<Rightarrow> bool option res" where
  "pending_matches h c i = (case pkt_pfx (i_pkt i) of None \<Rightarrow> Inr None
    | Some p \<Rightarrow>
        if pfx_suite p = CCNL_SUITE_CCNB then
          bindE (ccnl_i_prefixof_c h (Some p) (ucast (cb_minsuffix (s_ccnb (i_pkt i))))
              (ucast (cb_maxsuffix (s_ccnb (i_pkt i)))) c) (\<lambda>rc. Inr (Some (\<not> rc < 0)))
        else if pfx_suite p = CCNL_SUITE_CCNTLV then
          bindE (deref (pkt_pfx (c_pkt c))) (\<lambda>q. Inr (Some (ccnl_prefix_cmp q None p CMP_EXACT = 0)))
        else if pfx_suite p = CCNL_SUITE_NDNTLV then
          bindE (ccnl_i_prefixof_c h (Some p) (nd_minsuffix (s_ndntlv (i_pkt i)))
              (nd_maxsuffix (s_ndntlv (i_pkt i))) c) (\<lambda>rc. Inr (Some (\<not> rc < 0)))
        else Inr (Some False))"

text \<open>The faces waiting for one interest; the count goes up for every face not served before.\<close>

fun serve_faces :: "content \<Rightarrow> pendint list \<Rightarrow> nat \<Rightarrow> relay \<Rightarrow> (nat \<times> relay) res" where
  "serve_faces c [] cnt r = Inr (cnt, r)"
| "serve_faces c (q # qs) cnt r = bindE (face_get r (pi_face q)) (\<lambda>f.
     if f_flags f AND CCNL_FACE_FLAGS_SERVED \<noteq> 0 then serve_faces c qs cnt r
     else
       let r1 = face_upd (pi_face q) (\<lambda>f. f\<lparr>f_flags := f_flags f OR CCNL_FACE_FLAGS_SERVED\<rparr>) r in
       bindE (if f_ifndx f \<ge> 0 then bindE (ccnl_send_pkt (pi_face q) (c_pkt c) r1) (\<lambda>(rc, r2). Inr r2)
              else Inr r1)
         (\<lambda>r2. serve_faces c qs (cnt + 1) r2))"

fun serve_loop :: "hooks \<Rightarrow> interest list \<Rightarrow> content \<Rightarrow> nat \<Rightarrow> relay \<Rightarrow> (nat \<times> content \<times> relay) res" where
  "serve_loop h [] c cnt r = Inr (cnt, c, r)"
| "serve_loop h (i # is) c cnt r = bindE (pending_matches h c i) (\<lambda>mt. case mt of
      None \<Rightarrow> Inl Diverge
    | Some False \<Rightarrow> serve_loop h is c cnt r
    | Some True \<Rightarrow>
        if i_pending i = [] then
          bindE (ccnl_interest_remove (i_ref i) r) (\<lambda>r1.
            serve_loop h is (c\<lparr>c_flags := c_flags c OR CCNL_CONTENT_FLAGS_STATIC,
              c_served_cnt := c_served_cnt c + 1\<rparr>) (cnt + 1) r1)
        else
          bindE (serve_faces c (i_pending i) 0 r) (\<lambda>(n, r1).
            bindE (ccnl_interest_remove (i_ref i) r1) (\<lambda>r2.
              serve_loop h is (c\<lparr>c_served_cnt := c_served_cnt c + n\<rparr>) (cnt + n) r2)))"

definition ccnl_content_serve_pending :: "hooks \<Rightarrow> content \<Rightarrow> relay \<Rightarrow> (nat \<times> content \<times> relay) res" where
  "ccnl_content_serve_pending h c r =
    (let r1 = r\<lparr>rl_faces := map (\<lambda>f. f\<lparr>f_flags := f_flags f AND NOT CCNL_FACE_FLAGS_SERVED\<rparr>) (rl_faces r)\<rparr>
     in serve_loop h (rl_pit r1) c 0 r1)"

text \<open>The content served is the one just put into the cache, so its new flags and count show
  there.\<close>

definition ccnl_cs_add :: "hooks \<Rightarrow> content \<Rightarrow> relay \<Rightarrow> (int \<times> relay) res" where
  "ccnl_cs_add h c r = bindE (ccnl_content_add2cache h c r) (\<lambda>(ok, r1).
     if ok then bindE (ccnl_content_serve_pending h c r1) (\<lambda>(n, c', r2).
       Inr (0, cs_upd (c_ref c) (\<lambda>_. c') r2))
     else Inr (-1, r1))"

text \<open>\<open>memcmp (prefix, spref, strlen (spref))\<close> on the printed names: equal when the printed
  name is a prefix of the string asked for. The result is the C result code, or the content.\<close>

fun cs_path_find :: "bytes \<Rightarrow> content list \<Rightarrow> (content option) option res" where
  "cs_path_find u [] = Inr (Some None)"
| "cs_path_find u (c # cs) = bindE (deref (pkt_pfx (c_pkt c))) (\<lambda>p.
     case ccnl_prefix_to_path p of
       Inl e \<Rightarrow> Inr None
     | Inr spref \<Rightarrow> if take (length spref) u = spref then Inr (Some (Some c)) else cs_path_find u cs)"

definition ccnl_cs_remove :: "bytes option \<Rightarrow> relay \<Rightarrow> (int \<times> relay) res" where
  "ccnl_cs_remove u r = (case u of None \<Rightarrow> Inr (-1, r)
    | Some u \<Rightarrow> bindE (cs_path_find u (rl_contents r)) (\<lambda>x. case x of
        None \<Rightarrow> Inr (-2, r)
      | Some None \<Rightarrow> Inr (-3, r)
      | Some (Some c) \<Rightarrow> bindE (ccnl_content_remove (c_ref c) r) (\<lambda>r1. Inr (0, r1))))"

definition ccnl_cs_lookup :: "bytes option \<Rightarrow> relay \<Rightarrow> content option res" where
  "ccnl_cs_lookup u r = (case u of None \<Rightarrow> Inr None
    | Some u \<Rightarrow> bindE (cs_path_find u (rl_contents r)) (\<lambda>x. case x of
        None \<Rightarrow> Inr None | Some y \<Rightarrow> Inr y))"

section \<open>Nonces\<close>

text \<open>New nonces go to the front; once the list had \<open>CCNL_MAX_NONCES\<close> entries (and at least
  two) the last one is dropped.\<close>

definition ccnl_nonce_find_or_append :: "relay \<Rightarrow> bytes \<Rightarrow> int \<times> relay" where
  "ccnl_nonce_find_or_append r nonce =
    (if nonce \<in> set (rl_nonces r) then (-1, r)
     else let ns = nonce # rl_nonces r in
       (0, r\<lparr>rl_nonces := (if length (rl_nonces r) \<ge> CCNL_MAX_NONCES \<and> length (rl_nonces r) \<ge> 2
                           then butlast ns else ns)\<rparr>))"

definition ccnl_nonce_isDup :: "relay \<Rightarrow> pkt \<Rightarrow> bool \<times> relay" where
  "ccnl_nonce_isDup r p =
    (let nonce = (if pkt_suite p = CCNL_SUITE_CCNB then cb_nonce (s_ccnb p)
                  else if pkt_suite p = CCNL_SUITE_NDNTLV then nd_nonce (s_ndntlv p) else None)
     in case nonce of None \<Rightarrow> (False, r)
       | Some n \<Rightarrow> (case ccnl_nonce_find_or_append r n of (rc, r1) \<Rightarrow> (rc \<noteq> 0, r1)))"

section \<open>Removing a face\<close>

definition drop_face :: "faceref \<Rightarrow> interest \<Rightarrow> interest" where
  "drop_face f i = i\<lparr>i_from := (if i_from i = Some f then None else i_from i),
     i_pending := filter (\<lambda>q. pi_face q \<noteq> f) (i_pending i)\<rparr>"

fun face_remove_pit :: "faceref \<Rightarrow> interest list \<Rightarrow> relay \<Rightarrow> relay res" where
  "face_remove_pit f [] r = Inr r"
| "face_remove_pit f (i # is) r =
     (let r1 = pit_upd (i_ref i) (drop_face f) r in
      if i_pending (drop_face f i) \<noteq> [] then face_remove_pit f is r1
      else bindE (ccnl_interest_remove (i_ref i) r1) (face_remove_pit f is))"

text \<open>The result is the face behind the removed one.\<close>

definition ccnl_face_remove :: "faceref \<Rightarrow> relay \<Rightarrow> (faceref option \<times> relay) res" where
  "ccnl_face_remove f r = bindE (face_get r f) (\<lambda>_.
     bindE (face_remove_pit f (rl_pit r) r) (\<lambda>r1.
       let r2 = r1\<lparr>rl_fib := filter (\<lambda>fw. fw_face fw \<noteq> Some f) (rl_fib r1)\<rparr>;
           f2 = (case dropWhile (\<lambda>x. f_faceid x \<noteq> f) (rl_faces r2) of _ # y # _ \<Rightarrow> Some (f_faceid y) | _ \<Rightarrow> None)
       in Inr (f2, r2\<lparr>rl_faces := filter (\<lambda>x. f_faceid x \<noteq> f) (rl_faces r2)\<rparr>)))"

section \<open>Ageing\<close>

text \<open>\<open>last_used + CCNL_CONTENT_TIMEOUT\<close> is a 32-bit sum and wraps; the sum with the freshness
  period is taken in 64 bits.\<close>

fun age_contents :: "content list \<Rightarrow> relay \<Rightarrow> relay res" where
  "age_contents [] r = Inr r"
| "age_contents (c # cs) r =
     (if c_last_used c + CCNL_CONTENT_TIMEOUT \<le> rl_now r \<and> c_flags c AND CCNL_CONTENT_FLAGS_STATIC = 0
      then bindE (ccnl_content_remove (c_ref c) r) (age_contents cs)
      else age_contents cs
        (if pkt_suite (c_pkt c) = CCNL_SUITE_NDNTLV
            \<and> ucast (c_last_used c) + nd_freshnessperiod (s_ndntlv (c_pkt c)) div 1000 \<le> (ucast (rl_now r) :: u64)
            \<and> c_flags c AND CCNL_CONTENT_FLAGS_STATIC = 0
         then cs_upd (c_ref c) (\<lambda>c. c\<lparr>c_flags := c_flags c OR CCNL_CONTENT_FLAGS_STALE\<rparr>) r else r))"

fun age_pit :: "interest list \<Rightarrow> relay \<Rightarrow> relay res" where
  "age_pit [] r = Inr r"
| "age_pit (i # is) r =
     (if i_last_used i + i_lifetime i \<le> rl_now r \<or> i_retries i \<ge> CCNL_MAX_INTEREST_RETRANSMIT
      then bindE (ccnl_interest_remove (i_ref i) r) (age_pit is)
      else bindE (ccnl_interest_propagate (Some i) r) (\<lambda>r1.
        age_pit is (pit_upd (i_ref i) (\<lambda>i. i\<lparr>i_retries := i_retries i + 1\<rparr>) r1)))"

fun age_faces :: "face list \<Rightarrow> relay \<Rightarrow> relay res" where
  "age_faces [] r = Inr r"
| "age_faces (f # fs) r =
     (if f_flags f AND CCNL_FACE_FLAGS_STATIC = 0 \<and> f_last_used f + CCNL_FACE_TIMEOUT \<le> rl_now r
      then bindE (ccnl_face_remove (f_faceid f) r) (\<lambda>(f2, r1). age_faces fs r1)
      else age_faces fs r)"

definition ccnl_do_ageing :: "relay \<Rightarrow> relay res" where
  "ccnl_do_ageing r =
    bindE (age_contents (rl_contents r) r) (\<lambda>r1.
    bindE (age_pit (rl_pit r) r1) (\<lambda>r2.
    age_faces (rl_faces r) r2))"

section \<open>Cleaning up\<close>

fun remove_interests :: "interest list \<Rightarrow> relay \<Rightarrow> relay res" where
  "remove_interests [] r = Inr r"
| "remove_interests (i # is) r = bindE (ccnl_interest_remove (i_ref i) r) (remove_interests is)"

fun remove_faces :: "face list \<Rightarrow> relay \<Rightarrow> relay res" where
  "remove_faces [] r = Inr r"
| "remove_faces (f # fs) r = bindE (ccnl_face_remove (f_faceid f) r) (\<lambda>(f2, r1). remove_faces fs r1)"

fun remove_contents :: "content list \<Rightarrow> relay \<Rightarrow> relay res" where
  "remove_contents [] r = Inr r"
| "remove_contents (c # cs) r = bindE (ccnl_content_remove (c_ref c) r) (remove_contents cs)"

text \<open>The sockets of the interfaces are closed at the end, which leaves the model's state
  alone.\<close>

definition ccnl_core_cleanup :: "relay \<Rightarrow> relay res" where
  "ccnl_core_cleanup r =
    bindE (remove_interests (rl_pit r) r) (\<lambda>r1.
    bindE (remove_faces (rl_faces r1) r1) (\<lambda>r2.
    bindE (remove_contents (rl_contents r2) (r2\<lparr>rl_fib := []\<rparr>)) (\<lambda>r3.
    Inr (r3\<lparr>rl_nonces := []\<rparr>))))"

end
