(* ===== verification/Ndntlv_Enc.thy ===== *)
theory Ndntlv_Enc
  imports Pkt
begin

text \<open>
  NDN packet composition: the \<open>prepend\<close> routines of
  \<open>ccnl-pkt/src/ccnl-pkt-ndntlv.c\<close>, each with the byte string it promises, as an
  interpretation of the contract \<open>prepender\<close>. An \<open>Inl Fail\<close> stands for the negative
  return value (the offset is then meaningless in the code too).
\<close>

section \<open>Constants\<close>

abbreviation (input) NDN_TLV_Interest :: u64 where "NDN_TLV_Interest \<equiv> 0x05"
abbreviation (input) NDN_TLV_Data :: u64 where "NDN_TLV_Data \<equiv> 0x06"
abbreviation (input) NDN_TLV_Fragment :: u64 where "NDN_TLV_Fragment \<equiv> 0x64"
abbreviation (input) NDN_TLV_Name :: u64 where "NDN_TLV_Name \<equiv> 0x07"
abbreviation (input) NDN_TLV_NameComponent :: u64 where "NDN_TLV_NameComponent \<equiv> 0x08"
abbreviation (input) NDN_TLV_Selectors :: u64 where "NDN_TLV_Selectors \<equiv> 0x09"
abbreviation (input) NDN_TLV_Nonce :: u64 where "NDN_TLV_Nonce \<equiv> 0x0a"
abbreviation (input) NDN_TLV_Scope :: u64 where "NDN_TLV_Scope \<equiv> 0x0b"
abbreviation (input) NDN_TLV_InterestLifetime :: u64 where "NDN_TLV_InterestLifetime \<equiv> 0x0c"
abbreviation (input) NDN_TLV_MinSuffixComponents :: u64 where "NDN_TLV_MinSuffixComponents \<equiv> 0x0d"
abbreviation (input) NDN_TLV_MaxSuffixComponents :: u64 where "NDN_TLV_MaxSuffixComponents \<equiv> 0x0e"
abbreviation (input) NDN_TLV_MustBeFresh :: u64 where "NDN_TLV_MustBeFresh \<equiv> 0x12"
abbreviation (input) NDN_TLV_MetaInfo :: u64 where "NDN_TLV_MetaInfo \<equiv> 0x14"
abbreviation (input) NDN_TLV_Content :: u64 where "NDN_TLV_Content \<equiv> 0x15"
abbreviation (input) NDN_TLV_SignatureInfo :: u64 where "NDN_TLV_SignatureInfo \<equiv> 0x16"
abbreviation (input) NDN_TLV_SignatureValue :: u64 where "NDN_TLV_SignatureValue \<equiv> 0x17"
abbreviation (input) NDN_TLV_FreshnessPeriod :: u64 where "NDN_TLV_FreshnessPeriod \<equiv> 0x19"
abbreviation (input) NDN_TLV_FinalBlockId :: u64 where "NDN_TLV_FinalBlockId \<equiv> 0x1a"
abbreviation (input) NDN_TLV_SignatureType :: u64 where "NDN_TLV_SignatureType \<equiv> 0x1b"
abbreviation (input) NDN_TLV_NdnlpFragment :: u64 where "NDN_TLV_NdnlpFragment \<equiv> 0x52"
abbreviation (input) NDN_TLV_Frag_BeginEndFields :: u64 where "NDN_TLV_Frag_BeginEndFields \<equiv> 0x5c"
abbreviation (input) NDN_VAL_SIGTYPE_DIGESTSHA256 :: byte where "NDN_VAL_SIGTYPE_DIGESTSHA256 \<equiv> 0x00"
abbreviation (input) NDN_VAL_SIGTYPE_HMAC256 :: byte where "NDN_VAL_SIGTYPE_HMAC256 \<equiv> 0x04"
abbreviation (input) NDN_Marker_SegmentNumber :: byte where "NDN_Marker_SegmentNumber \<equiv> 0x00"

section \<open>Types, lengths and numbers\<close>

definition ccnl_ndntlv_prependTLval :: "u64 \<Rightarrow> outbuf \<Rightarrow> outbuf res" where
  "ccnl_ndntlv_prependTLval val ob =
    (let (len, t) = (if val < 253 then (0, ucast val)
        else if val \<le> 0xffff then (2, 253)
        else if val \<le> 0xffffffff then (4, 254)
        else (8, 255 :: byte))
     in if fst ob < len + 1 then Inl Fail
        else bindE (put_bytes len val ob) (push_byte t))"

definition ccnl_ndntlv_prependTL :: "u64 \<Rightarrow> u64 \<Rightarrow> outbuf \<Rightarrow> outbuf res" where
  "ccnl_ndntlv_prependTL type len ob =
    bindE (ccnl_ndntlv_prependTLval len ob) (ccnl_ndntlv_prependTLval type)"

text \<open>The two loops of \<open>ccnl_ndntlv_prependNonNegIntVal\<close>: the bytes of the value, then the
  padding, whose bound \<open>fill[len]\<close> is read anew in every round while \<open>len\<close> grows.\<close>

function nni_val_loop :: "u64 \<Rightarrow> nat \<Rightarrow> outbuf \<Rightarrow> (nat \<times> outbuf) res" where
  "nni_val_loop val len ob =
    (if val = 0 then Inr (len, ob)
     else bindE (push_chk (ucast (val AND 0xff)) ob) (nni_val_loop (drop_bit 8 val) (len + 1)))"
  by pat_completeness auto

lemma drop_bit_8_less: "v \<noteq> 0 \<Longrightarrow> unat (drop_bit 8 (v :: u64)) < unat v"
proof -
  assume "v \<noteq> 0"
  then have "unat v div 256 < unat v" by (simp add: unat_gt_0)
  then show ?thesis by (simp add: drop_bit_eq_div unat_div)
qed

termination nni_val_loop
  by (relation "measure (\<lambda>(v, l, ob). unat v)") (auto dest: drop_bit_8_less)

definition nni_fill :: "nat \<Rightarrow> nat res" where
  "nni_fill len = (if len < 9 then Inr ([1, 0, 0, 1, 0, 3, 2, 1, 0] ! len) else Inl Oob)"

function nni_pad_loop :: "nat \<Rightarrow> nat \<Rightarrow> outbuf \<Rightarrow> outbuf res" where
  "nni_pad_loop i len ob = (case nni_fill len of
      Inl e \<Rightarrow> Inl e
    | Inr f \<Rightarrow> if i < f then bindE (push_chk 0 ob) (nni_pad_loop (i + 1) (len + 1)) else Inr ob)"
  by pat_completeness auto

termination nni_pad_loop
  by (relation "measure (\<lambda>(i, len, ob). 9 - len)") (auto simp: nni_fill_def split: if_splits)

definition ccnl_ndntlv_prependNonNegIntVal :: "u64 \<Rightarrow> outbuf \<Rightarrow> outbuf res" where
  "ccnl_ndntlv_prependNonNegIntVal val ob =
    bindE (nni_val_loop val 0 ob) (\<lambda>(len, ob1). nni_pad_loop 0 len ob1)"

definition ccnl_ndntlv_prependNonNegInt :: "u64 \<Rightarrow> u64 \<Rightarrow> outbuf \<Rightarrow> outbuf res" where
  "ccnl_ndntlv_prependNonNegInt type val ob =
    bindE (ccnl_ndntlv_prependNonNegIntVal val ob)
      (\<lambda>ob1. ccnl_ndntlv_prependTL type (of_nat (fst ob - fst ob1)) ob1)"

definition ccnl_ndntlv_prependIncludedNonNegInt :: "u64 \<Rightarrow> u64 \<Rightarrow> byte \<Rightarrow> outbuf \<Rightarrow> outbuf res" where
  "ccnl_ndntlv_prependIncludedNonNegInt type val marker ob =
    bindE (ccnl_ndntlv_prependNonNegIntVal val ob)
      (\<lambda>ob1. bindE (push_chk marker ob1)
        (\<lambda>ob2. ccnl_ndntlv_prependTL type (of_nat (fst ob - fst ob2)) ob2))"

definition ccnl_ndntlv_prependBlob :: "u64 \<Rightarrow> bytes \<Rightarrow> outbuf \<Rightarrow> outbuf res" where
  "ccnl_ndntlv_prependBlob type blob ob =
    bindE (put_blob blob ob) (ccnl_ndntlv_prependTL type (of_nat (length blob)))"

section \<open>Names\<close>

text \<open>\<open>for (cnt = name->compcnt; cnt > 0; cnt--)\<close>: from the last component to the first.\<close>

fun prepend_comps :: "bytes list \<Rightarrow> outbuf \<Rightarrow> outbuf res" where
  "prepend_comps [] ob = Inr ob"
| "prepend_comps (c # cs) ob =
     bindE (ccnl_ndntlv_prependBlob NDN_TLV_NameComponent c ob) (prepend_comps cs)"

definition ccnl_ndntlv_prependName :: "prefix \<Rightarrow> outbuf \<Rightarrow> outbuf res" where
  "ccnl_ndntlv_prependName name ob =
    bindE (case pfx_chunknum name of None \<Rightarrow> Inr ob
           | Some n \<Rightarrow> ccnl_ndntlv_prependIncludedNonNegInt NDN_TLV_NameComponent (ucast n)
               NDN_Marker_SegmentNumber ob)
      (\<lambda>ob1. bindE (prepend_comps (rev (pfx_comp name)) ob1)
        (\<lambda>ob2. ccnl_ndntlv_prependTL NDN_TLV_Name (of_nat (fst ob - fst ob2)) ob2))"

section \<open>Interests and Data\<close>

record ndn_interest_opts =
  io_nonce :: u32
  io_mustbefresh :: u8
  io_interestlifetime :: u32

record ndn_data_opts =
  do_freshnessperiod :: u32
  do_finalblockid :: u32

text \<open>The memory of the \<open>int32_t\<close> nonce on a little-endian host.\<close>

definition nonce_bytes :: "u32 \<Rightarrow> bytes" where
  "nonce_bytes n = rev (be_bytes 4 (ucast n))"

definition prepend_selectors :: "u8 \<Rightarrow> outbuf \<Rightarrow> outbuf res" where
  "prepend_selectors mbf ob =
    (if mbf \<noteq> 0 then
       bindE (ccnl_ndntlv_prependTL NDN_TLV_MustBeFresh 0 ob)
         (\<lambda>ob1. ccnl_ndntlv_prependTL NDN_TLV_Selectors (of_nat (fst ob - fst ob1)) ob1)
     else Inr ob)"

text \<open>The result carries \<open>*reslen\<close>, the bytes written.\<close>

definition ccnl_ndntlv_prependInterest ::
    "prefix \<Rightarrow> int \<Rightarrow> ndn_interest_opts \<Rightarrow> outbuf \<Rightarrow> (outbuf \<times> nat) res" where
  "ccnl_ndntlv_prependInterest name scope opts ob =
    bindE (if scope \<ge> 0 then
             if scope > 2 then Inl Fail
             else ccnl_ndntlv_prependNonNegInt NDN_TLV_Scope (of_int scope) ob
           else Inr ob)
    (\<lambda>ob1. bindE (if io_interestlifetime opts \<noteq> 0
             then ccnl_ndntlv_prependNonNegInt NDN_TLV_InterestLifetime (ucast (io_interestlifetime opts)) ob1
             else Inr ob1)
    (\<lambda>ob2. bindE (ccnl_ndntlv_prependBlob NDN_TLV_Nonce (nonce_bytes (io_nonce opts)) ob2)
    (\<lambda>ob3. bindE (prepend_selectors (io_mustbefresh opts) ob3)
    (\<lambda>ob4. bindE (ccnl_ndntlv_prependName name ob4)
    (\<lambda>ob5. bindE (ccnl_ndntlv_prependTL NDN_TLV_Interest (of_nat (fst ob - fst ob5)) ob5)
    (\<lambda>ob6. Inr (ob6, fst ob - fst ob6)))))))"

definition prepend_metainfo :: "ndn_data_opts option \<Rightarrow> outbuf \<Rightarrow> outbuf res" where
  "prepend_metainfo opts ob =
    bindE (case opts of None \<Rightarrow> Inr ob
      | Some opts \<Rightarrow>
          bindE (if do_finalblockid opts \<noteq> 0xffffffff then
                   bindE (ccnl_ndntlv_prependIncludedNonNegInt NDN_TLV_NameComponent
                            (ucast (do_finalblockid opts)) NDN_Marker_SegmentNumber ob)
                     (\<lambda>ob1. ccnl_ndntlv_prependTL NDN_TLV_FinalBlockId (of_nat (fst ob - fst ob1)) ob1)
                 else Inr ob)
            (\<lambda>ob2. if do_freshnessperiod opts \<noteq> 0
               then ccnl_ndntlv_prependNonNegInt NDN_TLV_FreshnessPeriod (ucast (do_freshnessperiod opts)) ob2
               else Inr ob2))
      (\<lambda>ob3. ccnl_ndntlv_prependTL NDN_TLV_MetaInfo (of_nat (fst ob - fst ob3)) ob3)"

definition prepend_signature :: "outbuf \<Rightarrow> outbuf res" where
  "prepend_signature ob =
    bindE (ccnl_ndntlv_prependTL NDN_TLV_SignatureValue 0 ob)
      (\<lambda>ob1. bindE (ccnl_ndntlv_prependBlob NDN_TLV_SignatureType [NDN_VAL_SIGTYPE_DIGESTSHA256] ob1)
        (\<lambda>ob2. ccnl_ndntlv_prependTL NDN_TLV_SignatureInfo (of_nat (fst ob1 - fst ob2)) ob2))"

text \<open>
  The result carries \<open>*contentpos\<close> and \<open>*reslen\<close>. \<open>*contentpos\<close> starts as
  \<open>*offset - paylen\<close>, before the signature fields are written, and both subtractions wrap.
  A failure of the signature type is \<open>return 1\<close> in the code, which its callers test as an
  error like the others.
\<close>

definition ccnl_ndntlv_prependContent ::
    "prefix \<Rightarrow> bytes \<Rightarrow> ndn_data_opts option \<Rightarrow> outbuf \<Rightarrow> (outbuf \<times> nat \<times> nat) res" where
  "ccnl_ndntlv_prependContent name payload opts ob =
    bindE (prepend_signature ob)
    (\<lambda>ob1. bindE (ccnl_ndntlv_prependBlob NDN_TLV_Content payload ob1)
    (\<lambda>ob2. bindE (prepend_metainfo opts ob2)
    (\<lambda>ob3. bindE (ccnl_ndntlv_prependName name ob3)
    (\<lambda>ob4. bindE (ccnl_ndntlv_prependTL NDN_TLV_Data (of_nat (fst ob - fst ob4)) ob4)
    (\<lambda>ob5. Inr (ob5, wsub (wsub (fst ob) (length payload)) (fst ob5), fst ob - fst ob5))))))"

end
