(* ===== verification/Ndntlv_Dec.thy ===== *)
theory Ndntlv_Dec
  imports Ndntlv_Enc
begin

text \<open>
  NDN packet parsing: the routines of \<open>ccnl-pkt/src/ccnl-pkt-ndntlv.c\<close> up to
  \<open>ccnl_ndntlv_bytes2pkt\<close>.

  The memory \<open>m\<close> is the receive buffer from \<open>start\<close> on; it may be longer than the
  packet. A cursor \<open>(p, n)\<close> is \<open>(*data - start, *datalen)\<close>. A routine that returns -1
  has possibly moved the cursor already: it returns \<open>None\<close> with the cursor as it is then.
  \<open>Inl Fail\<close> is the \<open>Bail\<close> exit of \<open>ccnl_ndntlv_bytes2pkt\<close>, \<open>Inl Oob\<close> a
  read outside \<open>m\<close>.
\<close>

section \<open>Numbers and heads\<close>

text \<open>The code tests \<open>**buf\<close> before \<open>*len\<close>: the first byte is read in any case.\<close>

definition ccnl_ndntlv_varlenint :: "bytes \<Rightarrow> cursor \<Rightarrow> (u64 option \<times> cursor) res" where
  "ccnl_ndntlv_varlenint m cur = (case cur of (p, n) \<Rightarrow>
     bindE (rd m p) (\<lambda>b.
       if b < 253 \<and> n \<ge> 1 then Inr (Some (ucast b), (p + 1, n - 1))
       else if b = 253 \<and> n \<ge> 3 then
         bindE (slice m (p + 1) 2) (\<lambda>bs. Inr (Some (be_val bs), (p + 3, n - 3)))
       else if b = 254 \<and> n \<ge> 5 then
         bindE (slice m (p + 1) 4) (\<lambda>bs. Inr (Some (be_val bs), (p + 5, n - 5)))
       else Inr (None, (p, n))))"

fun nonNegInt_loop :: "bytes \<Rightarrow> nat \<Rightarrow> nat \<Rightarrow> u64 \<Rightarrow> u64 res" where
  "nonNegInt_loop m p 0 v = Inr v"
| "nonNegInt_loop m p (Suc n) v = bindE (rd m p) (\<lambda>b. nonNegInt_loop m (p + 1) n (be_step v b))"

definition ccnl_ndntlv_nonNegInt :: "bytes \<Rightarrow> nat \<Rightarrow> nat \<Rightarrow> u64 res" where
  "ccnl_ndntlv_nonNegInt m p len = nonNegInt_loop m p len 0"

text \<open>\<open>*vallen\<close> is compared with the length as it was before the head was read. A value never
  exceeds \<open>SIZE_MAX\<close> on a 64-bit host.\<close>

definition ccnl_ndntlv_dehead :: "bytes \<Rightarrow> cursor \<Rightarrow> ((u64 \<times> nat) option \<times> cursor) res" where
  "ccnl_ndntlv_dehead m cur =
    (let maxlen = snd cur in
     bindE (ccnl_ndntlv_varlenint m cur) (\<lambda>(typ, cur1). case typ of
         None \<Rightarrow> Inr (None, cur1)
       | Some typ \<Rightarrow> bindE (ccnl_ndntlv_varlenint m cur1) (\<lambda>(vallen, cur2). case vallen of
             None \<Rightarrow> Inr (None, cur2)
           | Some vallen \<Rightarrow>
               if unat vallen > maxlen then Inr (None, cur2)
               else Inr (Some (typ, unat vallen), cur2))))"

lemma varlenint_progress:
  "ccnl_ndntlv_varlenint m (p, n) = Inr (Some v, (p', n')) \<Longrightarrow>
    p < length m \<and> p < p' \<and> p' \<le> length m \<and> p' + n' = p + n"
  by (auto simp: ccnl_ndntlv_varlenint_def bindE_eq_Inr_iff rd_eq_Inr_iff slice_eq_Inr_iff split: if_splits)

lemma dehead_progress:
  "ccnl_ndntlv_dehead m (p, n) = Inr (Some (t, l), (p', n')) \<Longrightarrow>
    p < length m \<and> p < p' \<and> p' \<le> length m \<and> p' + n' = p + n \<and> l \<le> n"
  by (auto simp: ccnl_ndntlv_dehead_def Let_def bindE_eq_Inr_iff dest!: varlenint_progress
      split: option.splits if_splits)

section \<open>The nested loops of the parser\<close>

text \<open>
  The name under construction: components as (offset, length) pairs into \<open>m\<close>, in order, and
  the chunk number. \<open>len2 -= i\<close> wraps. A component that starts with the segment marker sets
  the chunk number from its other \<open>i - 1\<close> bytes (again a \<open>size_t\<close> subtraction); its first
  byte is read whatever \<open>i\<close> is.
\<close>

definition name_comp_step ::
    "bytes \<Rightarrow> nat \<Rightarrow> nat \<Rightarrow> (nat \<times> nat) list \<times> u32 option \<Rightarrow> ((nat \<times> nat) list \<times> u32 option) res" where
  "name_comp_step m cp i st = (case st of (comps, chunk) \<Rightarrow>
     bindE (rd m cp) (\<lambda>b.
       if b = NDN_Marker_SegmentNumber then
         bindE (ccnl_ndntlv_nonNegInt m (cp + 1) (wsub i 1)) (\<lambda>chunknum.
           if chunknum > 0xffffffff then Inl Fail
           else Inr (comps @ [(cp, i)], Some (ucast chunknum)))
       else Inr (comps @ [(cp, i)], chunk)))"

function name_loop ::
    "bytes \<Rightarrow> cursor \<Rightarrow> (nat \<times> nat) list \<times> u32 option \<Rightarrow> ((nat \<times> nat) list \<times> u32 option) res" where
  "name_loop m cur st =
    (if snd cur = 0 then Inr st
     else case ccnl_ndntlv_dehead m cur of
         Inl e \<Rightarrow> Inl e
       | Inr (None, cur1) \<Rightarrow> Inl Fail
       | Inr (Some (typ, i), (cp, len2)) \<Rightarrow>
           bindE (if typ = NDN_TLV_NameComponent \<and> length (fst st) < CCNL_MAX_NAME_COMP
                  then name_comp_step m cp i st else Inr st)
             (name_loop m (cp + i, wsub len2 i)))"
  by pat_completeness auto

termination name_loop
  by (relation "measure (\<lambda>(m, cur, st). length m - fst cur)") (auto dest!: dehead_progress)

function selectors_loop :: "bytes \<Rightarrow> cursor \<Rightarrow> ndn_detail \<Rightarrow> ndn_detail res" where
  "selectors_loop m cur d =
    (if snd cur = 0 then Inr d
     else case ccnl_ndntlv_dehead m cur of
         Inl e \<Rightarrow> Inl e
       | Inr (None, cur1) \<Rightarrow> Inl Fail
       | Inr (Some (typ, i), (cp, len2)) \<Rightarrow>
           bindE (if typ = NDN_TLV_MinSuffixComponents then
                    bindE (ccnl_ndntlv_nonNegInt m cp i) (\<lambda>v. Inr (d\<lparr>nd_minsuffix := v\<rparr>))
                  else if typ = NDN_TLV_MaxSuffixComponents then
                    bindE (ccnl_ndntlv_nonNegInt m cp i) (\<lambda>v. Inr (d\<lparr>nd_maxsuffix := v\<rparr>))
                  else if typ = NDN_TLV_MustBeFresh then Inr (d\<lparr>nd_mbf := True\<rparr>)
                  else Inr d)
             (selectors_loop m (cp + i, wsub len2 i)))"
  by pat_completeness auto

termination selectors_loop
  by (relation "measure (\<lambda>(m, cur, d). length m - fst cur)") (auto dest!: dehead_progress)

text \<open>
  In \<open>MetaInfo\<close> a \<open>FinalBlockId\<close> is opened in place: the head of the component inside is
  read from the outer cursor and overwrites \<open>typ\<close> and \<open>i\<close>. The state is the freshness
  period and \<open>val.final_block_id\<close>, an \<open>int64_t\<close>.
\<close>

function metainfo_loop :: "bytes \<Rightarrow> cursor \<Rightarrow> u64 \<times> u64 \<Rightarrow> (u64 \<times> u64) res" where
  "metainfo_loop m cur st =
    (if snd cur = 0 then Inr st
     else case ccnl_ndntlv_dehead m cur of
         Inl e \<Rightarrow> Inl e
       | Inr (None, cur1) \<Rightarrow> Inl Fail
       | Inr (Some (typ, i), (cp, len2)) \<Rightarrow>
           bindE (if typ = NDN_TLV_FreshnessPeriod
                  then bindE (ccnl_ndntlv_nonNegInt m cp i) (\<lambda>v. Inr (v, snd st)) else Inr st)
             (\<lambda>st1.
                if typ = NDN_TLV_FinalBlockId then
                  (case ccnl_ndntlv_dehead m (cp, len2) of
                      Inl e \<Rightarrow> Inl e
                    | Inr (None, cur1) \<Rightarrow> Inl Fail
                    | Inr (Some (typ1, i1), (cp1, len21)) \<Rightarrow>
                        bindE (if typ1 = NDN_TLV_NameComponent then
                                 bindE (ccnl_ndntlv_nonNegInt m (cp1 + 1) (wsub i1 1)) (\<lambda>v.
                                   if sint v < 0 then Inl Fail else Inr (fst st1, v))
                               else Inr st1)
                          (metainfo_loop m (cp1 + i1, wsub len21 i1)))
                else metainfo_loop m (cp + i, wsub len2 i) st1))"
  by pat_completeness auto

termination metainfo_loop
  by (relation "measure (\<lambda>(m, cur, st). length m - fst cur)") (auto dest!: dehead_progress)

text \<open>Whether an HMAC signature type is found; the first one ends the loop.\<close>

function siginfo_loop :: "bytes \<Rightarrow> cursor \<Rightarrow> bool \<Rightarrow> bool res" where
  "siginfo_loop m cur hmac =
    (if snd cur = 0 then Inr hmac
     else case ccnl_ndntlv_dehead m cur of
         Inl e \<Rightarrow> Inl e
       | Inr (None, cur1) \<Rightarrow> Inl Fail
       | Inr (Some (typ, i), (cp, len2)) \<Rightarrow>
           bindE (if typ = NDN_TLV_SignatureType \<and> i = 1
                  then bindE (rd m cp) (\<lambda>b. Inr (b = NDN_VAL_SIGTYPE_HMAC256)) else Inr False)
             (\<lambda>stop. if stop then Inr True else siginfo_loop m (cp + i, wsub len2 i) hmac))"
  by pat_completeness auto

termination siginfo_loop
  by (relation "measure (\<lambda>(m, cur, st). length m - fst cur)") (auto dest!: dehead_progress)

declare name_loop.simps [simp del] selectors_loop.simps [simp del]
  metainfo_loop.simps [simp del] siginfo_loop.simps [simp del]

section \<open>The packet loop\<close>

text \<open>The local variables of \<open>ccnl_ndntlv_bytes2pkt\<close> and the packet's fields while it runs.\<close>

record ndn_parse =
  np_name :: "((nat \<times> nat) list \<times> u32 option) option"
  np_nameptr :: nat
  np_namelen :: nat
  np_detail :: ndn_detail
  np_val :: u64
  np_content :: "nat option"
  np_contlen :: nat
  np_hmac :: bool
  np_hmacLen :: nat
  np_hmacSignature :: "nat option"
  np_flags :: u32

text \<open>One round of the loop behind a head \<open>(typ, len)\<close> whose value starts at \<open>p\<close>;
  \<open>oldpos\<close> is where the head started.\<close>

definition ndn_tlv_step :: "bytes \<Rightarrow> nat \<Rightarrow> u64 \<Rightarrow> nat \<Rightarrow> nat \<Rightarrow> ndn_parse \<Rightarrow> ndn_parse res" where
  "ndn_tlv_step m oldpos typ len p s =
    (let d = np_detail s in
     if typ = NDN_TLV_Name then
       (if np_name s \<noteq> None then Inl Fail
        else bindE (name_loop m (p, len) ([], None)) (\<lambda>nm.
          Inr (s\<lparr>np_name := Some nm, np_val := -1, np_nameptr := oldpos, np_namelen := p - oldpos\<rparr>)))
     else if typ = NDN_TLV_Selectors then
       bindE (selectors_loop m (p, len) d) (\<lambda>d'. Inr (s\<lparr>np_detail := d'\<rparr>))
     else if typ = NDN_TLV_Nonce then
       bindE (slice m p len) (\<lambda>bs. Inr (s\<lparr>np_detail := d\<lparr>nd_nonce := Some bs\<rparr>\<rparr>))
     else if typ = NDN_TLV_Scope then
       bindE (ccnl_ndntlv_nonNegInt m p len) (\<lambda>v. Inr (s\<lparr>np_detail := d\<lparr>nd_scope := v\<rparr>\<rparr>))
     else if typ = NDN_TLV_Content \<or> typ = NDN_TLV_NdnlpFragment then
       Inr (s\<lparr>np_content := Some p, np_contlen := len\<rparr>)
     else if typ = NDN_TLV_MetaInfo then
       bindE (metainfo_loop m (p, len) (nd_freshnessperiod d, np_val s)) (\<lambda>(f, v).
         Inr (s\<lparr>np_detail := d\<lparr>nd_freshnessperiod := f\<rparr>, np_val := v\<rparr>))
     else if typ = NDN_TLV_InterestLifetime then
       bindE (ccnl_ndntlv_nonNegInt m p len) (\<lambda>v. Inr (s\<lparr>np_detail := d\<lparr>nd_interestlifetime := v\<rparr>\<rparr>))
     else if typ = NDN_TLV_Frag_BeginEndFields then
       bindE (ccnl_ndntlv_nonNegInt m p len) (\<lambda>v.
         let f1 = (if v AND 0x4000 \<noteq> 0 then np_flags s OR CCNL_PKT_FRAG_BEGIN else np_flags s);
             f2 = (if v AND 0x8000 \<noteq> 0 then f1 OR CCNL_PKT_FRAG_END else f1)
         in Inr (s\<lparr>np_flags := f2, np_val := v AND 0x3fff\<rparr>))
     else if typ = NDN_TLV_SignatureInfo then
       bindE (siginfo_loop m (p, len) (np_hmac s)) (\<lambda>h. Inr (s\<lparr>np_hmac := h\<rparr>))
     else if typ = NDN_TLV_SignatureValue then
       (if np_hmac s \<and> len = 32 then Inr (s\<lparr>np_hmacLen := oldpos, np_hmacSignature := Some p\<rparr>)
        else Inr s)
     else Inr s)"

function ndn_pkt_loop :: "bytes \<Rightarrow> cursor \<Rightarrow> ndn_parse \<Rightarrow> (cursor \<times> ndn_parse) res" where
  "ndn_pkt_loop m cur s = (case ccnl_ndntlv_dehead m cur of
      Inl e \<Rightarrow> Inl e
    | Inr (None, cur1) \<Rightarrow> Inr (cur1, s)
    | Inr (Some (typ, len), (p, n)) \<Rightarrow>
        bindE (ndn_tlv_step m (fst cur) typ len p s) (ndn_pkt_loop m (p + len, wsub n len)))"
  by pat_completeness auto

termination ndn_pkt_loop
  by (relation "measure (\<lambda>(m, cur, s). length m - fst cur)") (auto dest!: dehead_progress)

declare ndn_pkt_loop.simps [simp del]

definition ndn_parse_init :: "u64 \<Rightarrow> ndn_parse" where
  "ndn_parse_init pkttype =
    \<lparr>np_name = None, np_nameptr = 0, np_namelen = 0,
     np_detail = \<lparr>nd_minsuffix = 0, nd_maxsuffix = of_nat CCNL_MAX_NAME_COMP, nd_scope = 3,
       nd_mbf = False, nd_nonce = None, nd_ppkl = None,
       nd_interestlifetime = CCNL_INTEREST_TIMEOUT * 1000, nd_freshnessperiod = 0\<rparr>,
     np_val = 0, np_content = None, np_contlen = 0, np_hmac = False, np_hmacLen = 0,
     np_hmacSignature = None,
     np_flags = (if pkttype = NDN_TLV_Interest then CCNL_PKT_REQUEST else CCNL_PKT_REPLY)\<rparr>"

text \<open>The components read through the rebased pointers.\<close>

fun slices :: "bytes \<Rightarrow> (nat \<times> nat) list \<Rightarrow> bytes list res" where
  "slices m [] = Inr []"
| "slices m ((p, n) # cs) = bindE (slice m p n) (\<lambda>b. bindE (slices m cs) (\<lambda>bs. Inr (b # bs)))"

text \<open>
  The packet and the final cursor. \<open>p\<close> is the offset of \<open>*data\<close> behind \<open>start\<close>, at
  offset 0; the packet's buffer is a copy of everything from \<open>start\<close> to where the cursor
  ends. Fragments are compiled out: their type is unknown.
\<close>

definition ccnl_ndntlv_bytes2pkt :: "u64 \<Rightarrow> bytes \<Rightarrow> cursor \<Rightarrow> (pkt \<times> cursor) res" where
  "ccnl_ndntlv_bytes2pkt pkttype m cur =
    (if pkttype \<noteq> NDN_TLV_Interest \<and> pkttype \<noteq> NDN_TLV_Data then Inl Fail
     else bindE (ndn_pkt_loop m cur (ndn_parse_init pkttype)) (\<lambda>((q, n), s).
       if n > 0 then Inl Fail
       else bindE (slice m 0 q) (\<lambda>buf.
         bindE (case np_name s of
             None \<Rightarrow> Inr None
           | Some (comps, chunk) \<Rightarrow> bindE (slices buf comps) (\<lambda>cs.
               Inr (Some \<lparr>pfx_comp = cs, pfx_suite = CCNL_SUITE_NDNTLV, pfx_nameptr = Some (np_nameptr s),
                 pfx_namelen = np_namelen s, pfx_bytes = None, pfx_chunknum = chunk\<rparr>)))
           (\<lambda>pfx. Inr (\<lparr>pkt_buf = Some buf, pkt_pfx = pfx, pkt_content = np_content s,
              pkt_contlen = np_contlen s, pkt_type = pkttype, pkt_val = np_val s,
              pkt_s = Ndn_detail (np_detail s), pkt_hmacLen = np_hmacLen s,
              pkt_hmacSignature = np_hmacSignature s, pkt_flags = np_flags s,
              pkt_suite = CCNL_SUITE_NDNTLV\<rparr>, (q, n))))))"

end
