(* ===== verification/Ccntlv_Dec.thy ===== *)
theory Ccntlv_Dec
  imports Ndntlv_Dec
begin

text \<open>
  Reading CCNx-TLV packets: the parsing half of \<open>ccnl-pkt/src/ccnl-pkt-ccntlv.c\<close> and the
  fixed header of \<open>ccnl-pkt-ccntlv.h\<close>. Name components are kept together with their head.
  The remaining length of a name is a \<open>size_t\<close> and wraps: a component may claim up to four
  bytes more than the name has.
\<close>

section \<open>Constants\<close>

abbreviation (input) CCNX_TLV_V1 :: u8 where "CCNX_TLV_V1 \<equiv> 1"
abbreviation (input) CCNX_PT_Interest :: u8 where "CCNX_PT_Interest \<equiv> 0"
abbreviation (input) CCNX_PT_Data :: u8 where "CCNX_PT_Data \<equiv> 1"
abbreviation (input) CCNX_PT_NACK :: u8 where "CCNX_PT_NACK \<equiv> 2"
abbreviation (input) CCNX_TLV_TL_Interest :: u16 where "CCNX_TLV_TL_Interest \<equiv> 0x0001"
abbreviation (input) CCNX_TLV_TL_Object :: u16 where "CCNX_TLV_TL_Object \<equiv> 0x0002"
abbreviation (input) CCNX_TLV_TL_ValidationAlgo :: u16 where "CCNX_TLV_TL_ValidationAlgo \<equiv> 0x0003"
abbreviation (input) CCNX_TLV_TL_ValidationPayload :: u16 where "CCNX_TLV_TL_ValidationPayload \<equiv> 0x0004"
abbreviation (input) CCNX_TLV_M_Name :: u16 where "CCNX_TLV_M_Name \<equiv> 0x0000"
abbreviation (input) CCNX_TLV_M_Payload :: u16 where "CCNX_TLV_M_Payload \<equiv> 0x0001"
abbreviation (input) CCNX_TLV_M_ENDChunk :: u16 where "CCNX_TLV_M_ENDChunk \<equiv> 0x0019"
abbreviation (input) CCNX_TLV_N_NameSegment :: u16 where "CCNX_TLV_N_NameSegment \<equiv> 0x0001"
abbreviation (input) CCNX_TLV_N_Chunk :: u16 where "CCNX_TLV_N_Chunk \<equiv> 0x0010"
abbreviation (input) CCNX_TLV_N_Meta :: u16 where "CCNX_TLV_N_Meta \<equiv> 0x0011"
abbreviation (input) CCNX_VALIDALGO_HMAC_SHA256 :: u16 where "CCNX_VALIDALGO_HMAC_SHA256 \<equiv> 4"

section \<open>The fixed header\<close>

text \<open>\<open>struct ccnx_tlvhdr_ccnx2015_s\<close>, 9 bytes packed, as it lies in memory: \<open>pktlen\<close> is in
  network order, \<open>hdrlen\<close> in the order of the (little-endian) host.\<close>

abbreviation (input) ccnx_hdr_size :: nat where "ccnx_hdr_size \<equiv> 9"

record ccnx_tlvhdr =
  hd_version :: u8
  hd_pkttype :: u8
  hd_pktlen :: nat
  hd_hoplimit :: u8
  hd_hdrlen :: nat

definition ccnx_tlvhdr_at :: "bytes \<Rightarrow> nat \<Rightarrow> ccnx_tlvhdr res" where
  "ccnx_tlvhdr_at m p = bindE (slice m p ccnx_hdr_size) (\<lambda>b. Inr \<lparr>hd_version = b ! 0,
     hd_pkttype = b ! 1, hd_pktlen = unat (b ! 2) * 256 + unat (b ! 3), hd_hoplimit = b ! 4,
     hd_hdrlen = unat (b ! 8) * 256 + unat (b ! 7)\<rparr>)"

text \<open>Only the field \<open>hdrlen\<close> is read, whatever \<open>datalen\<close> is.\<close>

definition ccnl_ccntlv_getHdrLen :: "bytes \<Rightarrow> nat \<Rightarrow> nat \<Rightarrow> nat res" where
  "ccnl_ccntlv_getHdrLen m p datalen =
    bindE (rd m (p + 7)) (\<lambda>lo. bindE (rd m (p + 8)) (\<lambda>hi.
      let n = unat hi * 256 + unat lo in if datalen \<ge> n then Inr n else Inl Fail))"

section \<open>Heads and numbers\<close>

fun varint_loop :: "bytes \<Rightarrow> nat \<Rightarrow> nat \<Rightarrow> u32 \<Rightarrow> u32 res" where
  "varint_loop m p 0 val = Inr val"
| "varint_loop m p (Suc n) val =
     bindE (rd m p) (\<lambda>b. varint_loop m (p + 1) n (push_bit 8 val OR ucast b))"

definition ccnl_ccnltv_extractNetworkVarInt :: "bytes \<Rightarrow> nat \<Rightarrow> nat \<Rightarrow> u32 res" where
  "ccnl_ccnltv_extractNetworkVarInt m p len = (if len > 4 then Inl Fail else varint_loop m p len 0)"

text \<open>The type and length, or a failure, and the cursor behind the head. The length is compared with
  what was left in front of it.\<close>

definition ccnl_ccntlv_dehead :: "bytes \<Rightarrow> cursor \<Rightarrow> ((u16 \<times> nat) option \<times> cursor) res" where
  "ccnl_ccntlv_dehead m cur = (case cur of (p, n) \<Rightarrow>
     if n < 4 then Inr (None, (p, n))
     else bindE (rd m p) (\<lambda>a. bindE (rd m (p + 1)) (\<lambda>b. bindE (rd m (p + 2)) (\<lambda>c. bindE (rd m (p + 3)) (\<lambda>d.
       let typ = push_bit 8 (ucast a) OR ucast b; vallen = unat (push_bit 8 (ucast c) OR ucast d :: u16)
       in Inr (if vallen > n then None else Some (typ, vallen), (p + 4, n - 4)))))))"

lemma ccntlv_dehead_progress:
  "ccnl_ccntlv_dehead m (p, n) = Inr (Some (t, l), (p', n')) \<Longrightarrow> p' = p + 4 \<and> p' \<le> length m \<and> n' = n - 4 \<and> 4 \<le> n"
  by (auto simp: ccnl_ccntlv_dehead_def bindE_eq_Inr_iff rd_eq_Inr_iff Let_def split: if_splits)

section \<open>Names\<close>

type_synonym ccntlv_name = "(nat \<times> nat) list \<times> u32 option"

text \<open>The component from \<open>cp2\<close>; beyond \<open>CCNL_MAX_NAME_COMP\<close> components it is skipped.\<close>

definition ccntlv_add_comp :: "nat \<Rightarrow> nat \<Rightarrow> ccntlv_name \<Rightarrow> ccntlv_name" where
  "ccntlv_add_comp cp2 len nm =
    (if length (fst nm) < CCNL_MAX_NAME_COMP then (fst nm @ [(cp2, len)], snd nm) else nm)"

function ccntlv_name_loop :: "bytes \<Rightarrow> cursor \<Rightarrow> ccntlv_name \<Rightarrow> ccntlv_name res" where
  "ccntlv_name_loop m cur nm =
    (if snd cur = 0 then Inr nm
     else case ccnl_ccntlv_dehead m cur of
         Inl e \<Rightarrow> Inl e
       | Inr (None, cur1) \<Rightarrow> Inl Fail
       | Inr (Some (typ, len3), (cp, len2)) \<Rightarrow>
           if typ = CCNX_TLV_N_Chunk then
             bindE (ccnl_ccnltv_extractNetworkVarInt m cp len3) (\<lambda>v.
               ccntlv_name_loop m (cp + len3, wsub len2 len3)
                 (ccntlv_add_comp (fst cur) (cp - fst cur + len3) (fst nm, Some v)))
           else if typ = CCNX_TLV_N_NameSegment then
             ccntlv_name_loop m (cp + len3, wsub len2 len3)
               (ccntlv_add_comp (fst cur) (cp - fst cur + len3) nm)
           else if typ = CCNX_TLV_N_Meta then
             (case ccnl_ccntlv_dehead m (cp, len2) of
                 Inl e \<Rightarrow> Inl e
               | Inr (None, cur1) \<Rightarrow> Inl Fail
               | Inr (Some (typ1, len31), (cp1, len21)) \<Rightarrow>
                   ccntlv_name_loop m (cp1 + len31, wsub len21 len31) nm)
           else ccntlv_name_loop m (cp + len3, wsub len2 len3) nm)"
  by pat_completeness auto

termination ccntlv_name_loop
  by (relation "measure (\<lambda>(m, cur, nm). length m - fst cur)") (auto dest!: ccntlv_dehead_progress)

declare ccntlv_name_loop.simps [simp del]

section \<open>Packets\<close>

text \<open>The local variables of \<open>ccnl_ccntlv_bytes2pkt\<close> and the packet's fields while it runs.\<close>

record ccntlv_parse =
  cp_name :: ccntlv_name
  cp_nameptr :: "nat option"
  cp_namelen :: nat
  cp_val :: u64
  cp_content :: "nat option"
  cp_contlen :: nat
  cp_hmac :: bool
  cp_hmacLen :: nat
  cp_hmacSignature :: "nat option"

text \<open>One round of the loop behind a head whose value starts at \<open>p\<close>; \<open>oldpos\<close> is where the head
  started, \<open>start1\<close> is \<open>hmacStart\<close>.\<close>

definition ccntlv_step :: "bytes \<Rightarrow> nat \<Rightarrow> nat \<Rightarrow> u16 \<Rightarrow> nat \<Rightarrow> nat \<Rightarrow> ccntlv_parse \<Rightarrow> ccntlv_parse res" where
  "ccntlv_step m start1 oldpos typ len p s =
    (if typ = CCNX_TLV_M_Name then
       bindE (ccntlv_name_loop m (p, len) (cp_name s)) (\<lambda>nm.
         Inr (s\<lparr>cp_name := nm, cp_nameptr := Some oldpos, cp_namelen := p - oldpos\<rparr>))
     else if typ = CCNX_TLV_M_ENDChunk then
       bindE (ccnl_ccnltv_extractNetworkVarInt m p len) (\<lambda>v. Inr (s\<lparr>cp_val := ucast v\<rparr>))
     else if typ = CCNX_TLV_M_Payload then Inr (s\<lparr>cp_content := Some p, cp_contlen := len\<rparr>)
     else if typ = CCNX_TLV_TL_ValidationAlgo then
       (case ccnl_ccntlv_dehead m (p, len) of
           Inl e \<Rightarrow> Inl e
         | Inr (None, cur1) \<Rightarrow> Inl Fail
         | Inr (Some (typ1, len3), cur1) \<Rightarrow>
             Inr (if typ1 = CCNX_VALIDALGO_HMAC_SHA256 then s\<lparr>cp_hmac := True\<rparr> else s))
     else if typ = CCNX_TLV_TL_ValidationPayload then
       Inr (if cp_hmac s \<and> len = 32
            then s\<lparr>cp_hmacLen := wsub (p - start1) 4, cp_hmacSignature := Some p\<rparr> else s)
     else Inr s)"

function ccntlv_pkt_loop :: "bytes \<Rightarrow> nat \<Rightarrow> cursor \<Rightarrow> ccntlv_parse \<Rightarrow> (cursor \<times> ccntlv_parse) res" where
  "ccntlv_pkt_loop m start1 cur s = (case ccnl_ccntlv_dehead m cur of
      Inl e \<Rightarrow> Inl e
    | Inr (None, cur1) \<Rightarrow> Inr (cur1, s)
    | Inr (Some (typ, len), (p, n)) \<Rightarrow>
        if len > n then Inl Fail
        else bindE (ccntlv_step m start1 (fst cur) typ len p s) (ccntlv_pkt_loop m start1 (p + len, n - len)))"
  by pat_completeness auto

termination ccntlv_pkt_loop
  by (relation "measure (\<lambda>(m, st, cur, s). length m - fst cur)") (auto dest!: ccntlv_dehead_progress)

declare ccntlv_pkt_loop.simps [simp del]

definition ccntlv_parse_init :: ccntlv_parse where
  "ccntlv_parse_init = \<lparr>cp_name = ([], None), cp_nameptr = None, cp_namelen = 0, cp_val = -1,
     cp_content = None, cp_contlen = 0, cp_hmac = False, cp_hmacLen = 0, cp_hmacSignature = None\<rparr>"

text \<open>
  The packet and the final cursor; \<open>start\<close> is offset 0, \<open>cur\<close> stands behind the fixed header.
  The components are read from the packet's own copy, so one that reaches past the end of the
  packet is out of bounds.
\<close>

definition ccnl_ccntlv_bytes2pkt :: "bytes \<Rightarrow> cursor \<Rightarrow> (pkt \<times> cursor) res" where
  "ccnl_ccntlv_bytes2pkt m cur = (case ccnl_ccntlv_dehead m cur of
      Inl e \<Rightarrow> Inl e
    | Inr (None, cur1) \<Rightarrow> Inl Fail
    | Inr (Some (typ, len), (p, n)) \<Rightarrow>
        if len > n then Inl Fail
        else bindE (ccntlv_pkt_loop m (fst cur) (p, n) ccntlv_parse_init) (\<lambda>((q, n1), s).
          if n1 > 0 then Inl Fail
          else bindE (slice m 0 q) (\<lambda>buf. bindE (slices buf (fst (cp_name s))) (\<lambda>cs.
            Inr (\<lparr>pkt_buf = Some buf,
                  pkt_pfx = Some \<lparr>pfx_comp = cs, pfx_suite = CCNL_SUITE_CCNTLV, pfx_nameptr = cp_nameptr s,
                    pfx_namelen = cp_namelen s, pfx_bytes = None, pfx_chunknum = snd (cp_name s)\<rparr>,
                  pkt_content = cp_content s, pkt_contlen = cp_contlen s, pkt_type = ucast typ,
                  pkt_val = cp_val s, pkt_s = Raw_detail, pkt_hmacLen = cp_hmacLen s,
                  pkt_hmacSignature = cp_hmacSignature s, pkt_flags = 0,
                  pkt_suite = CCNL_SUITE_CCNTLV\<rparr>, (q, n1))))))"

end
