(* ===== verification/Ccnb_Dec.thy ===== *)
theory Ccnb_Dec
  imports Tables
begin

text \<open>
  Reading packets of the XML-like CCNb format: the parsing half of
  \<open>ccnl-pkt/src/ccnl-pkt-ccnb.c\<close>. The length of a blob is not compared with what is left of
  the packet: the cursor runs past the end and the remaining length, a \<open>size_t\<close>, wraps. The
  variables a search for a blob fills stay uninitialised when there is none.
\<close>

section \<open>Constants\<close>

abbreviation (input) CCN_TT_DTAG :: u8 where "CCN_TT_DTAG \<equiv> 2"
abbreviation (input) CCN_TT_DATTR :: u8 where "CCN_TT_DATTR \<equiv> 4"
abbreviation (input) CCN_TT_BLOB :: u8 where "CCN_TT_BLOB \<equiv> 5"
abbreviation (input) CCN_TT_UDATA :: u8 where "CCN_TT_UDATA \<equiv> 6"
abbreviation (input) CCN_DTAG_NAME :: u64 where "CCN_DTAG_NAME \<equiv> 14"
abbreviation (input) CCN_DTAG_COMPONENT :: u64 where "CCN_DTAG_COMPONENT \<equiv> 15"
abbreviation (input) CCN_DTAG_CONTENT :: u64 where "CCN_DTAG_CONTENT \<equiv> 19"
abbreviation (input) CCN_DTAG_INTEREST :: u64 where "CCN_DTAG_INTEREST \<equiv> 26"
abbreviation (input) CCN_DTAG_NONCE :: u64 where "CCN_DTAG_NONCE \<equiv> 41"
abbreviation (input) CCN_DTAG_SCOPE :: u64 where "CCN_DTAG_SCOPE \<equiv> 42"
abbreviation (input) CCN_DTAG_ANSWERORIGKIND :: u64 where "CCN_DTAG_ANSWERORIGKIND \<equiv> 47"
abbreviation (input) CCN_DTAG_PUBPUBKDIGEST :: u64 where "CCN_DTAG_PUBPUBKDIGEST \<equiv> 60"
abbreviation (input) CCN_DTAG_CONTENTOBJ :: u64 where "CCN_DTAG_CONTENTOBJ \<equiv> 64"
abbreviation (input) CCN_DTAG_MINSUFFCOMP :: u64 where "CCN_DTAG_MINSUFFCOMP \<equiv> 83"
abbreviation (input) CCN_DTAG_MAXSUFFCOMP :: u64 where "CCN_DTAG_MAXSUFFCOMP \<equiv> 84"

section \<open>Heads\<close>

text \<open>At most eight bytes; the last one has its top bit set. The result is the number, the type and
  the position behind the head.\<close>

fun ccnb_head_loop :: "bytes \<Rightarrow> nat \<Rightarrow> nat \<Rightarrow> u64 \<Rightarrow> (u64 \<times> u8 \<times> nat) option res" where
  "ccnb_head_loop m p 0 val = Inr None"
| "ccnb_head_loop m p (Suc k) val = bindE (rd m p) (\<lambda>c.
     if c AND 0x80 \<noteq> 0
     then Inr (Some (push_bit 4 val OR ucast (drop_bit 3 c AND 0xf), c AND 0x7, p + 1))
     else ccnb_head_loop m (p + 1) k (push_bit 7 val OR ucast c))"

definition ccnl_ccnb_dehead :: "bytes \<Rightarrow> cursor \<Rightarrow> ((u64 \<times> u8) option \<times> cursor) res" where
  "ccnl_ccnb_dehead m cur = (case cur of (p, n) \<Rightarrow>
     bindE (if n > 0 then bindE (rd m p) (\<lambda>c. Inr (c = 0)) else Inr False) (\<lambda>fin.
       if fin then Inr (Some (0, 0), (p + 1, n - 1))
       else bindE (ccnb_head_loop m p (min 8 n) 0) (\<lambda>x. case x of
           None \<Rightarrow> Inr (None, (p, n))
         | Some (num, typ, q) \<Rightarrow> Inr (Some (num, typ), (q, n - (q - p))))))"

lemma head_loop_pos: "ccnb_head_loop m p k v = Inr (Some (num, typ, q)) \<Longrightarrow> p < q \<and> q \<le> p + k \<and> q \<le> length m"
proof (induction k arbitrary: p v)
  case (Suc k)
  show ?case
  proof (cases "p < length m \<and> m ! p AND 0x80 = 0")
    case True
    then have "ccnb_head_loop m (p + 1) k (push_bit 7 v OR ucast (m ! p)) = Inr (Some (num, typ, q))" using Suc.prems by simp
    from Suc.IH[OF this] have "p + 1 < q \<and> q \<le> p + 1 + k \<and> q \<le> length m" .
    then show ?thesis by simp
  next
    case False
    then show ?thesis using Suc.prems by (auto simp: bindE_eq_Inr_iff rd_eq_Inr_iff split: if_splits)
  qed
qed simp

lemma ccnb_dehead_progress:
  "ccnl_ccnb_dehead m (p, n) = Inr (Some (num, typ), (q, k)) \<Longrightarrow> p < q \<and> q \<le> length m \<and> k = n - (q - p) \<and> q - p \<le> n"
  by (auto simp: ccnl_ccnb_dehead_def bindE_eq_Inr_iff rd_eq_Inr_iff dest!: head_loop_pos split: if_splits option.splits)

section \<open>Skipping and searching\<close>

text \<open>Where the last blob started and how long it is.\<close>

type_synonym blobref = "(nat \<times> nat) option"

text \<open>\<open>ccnl_ccnb_hunt_for_end\<close> and \<open>ccnl_ccnb_consume\<close> call each other; here the second one's
  cases stand in the loop of the first (the equation \<open>hunt_for_end_consume\<close> is the C text).\<close>

function ccnl_ccnb_hunt_for_end :: "bytes \<Rightarrow> cursor \<Rightarrow> blobref \<Rightarrow> (cursor \<times> blobref) res" where
  "ccnl_ccnb_hunt_for_end m cur v = (case ccnl_ccnb_dehead m cur of
      Inl e \<Rightarrow> Inl e
    | Inr (None, cur1) \<Rightarrow> Inl Fail
    | Inr (Some (num, typ), (p, n)) \<Rightarrow>
        if num = 0 \<and> typ = 0 then Inr ((p, n), v)
        else if typ = CCN_TT_BLOB \<or> typ = CCN_TT_UDATA then
          ccnl_ccnb_hunt_for_end m (p + unat num, wsub n (unat num)) (Some (p, unat num))
        else if typ = CCN_TT_DTAG \<or> typ = CCN_TT_DATTR then
          (case ccnl_ccnb_hunt_for_end m (p, n) v of
              Inl e \<Rightarrow> Inl e
            | Inr (cur2, v2) \<Rightarrow> ccnl_ccnb_hunt_for_end m cur2 v2)
        else Inl Fail)"
  by pat_completeness auto

lemma hunt_forward:
  "ccnl_ccnb_hunt_for_end_dom (m, cur, v) \<Longrightarrow> ccnl_ccnb_hunt_for_end m cur v = Inr (cur', v') \<Longrightarrow> fst cur < fst cur'"
proof (induction arbitrary: cur' v' rule: ccnl_ccnb_hunt_for_end.pinduct)
  case (1 m cur v)
  obtain p0 n0 where c: "cur = (p0, n0)" by (cases cur)
  note eq = ccnl_ccnb_hunt_for_end.psimps[OF 1(1)]
  have run: "ccnl_ccnb_hunt_for_end m cur v = Inr (cur', v')" by (rule 1(5))
  show ?case
  proof (cases "ccnl_ccnb_dehead m cur")
    case (Inl e)
    then show ?thesis using run eq by simp
  next
    case (Inr x)
    obtain h p n where x: "x = (h, (p, n))" by (cases x) auto
    show ?thesis
    proof (cases h)
      case None
      then show ?thesis using run eq Inr x by simp
    next
      case (Some y)
      obtain num tt where y: "y = (num, tt)" by (cases y)
      have pos: "p0 < p" using ccnb_dehead_progress[of m p0 n0 num tt p n] Inr x Some y c by simp
      note d = Inr x Some y
      consider (fin) "num = 0 \<and> tt = 0" | (blob) "\<not> (num = 0 \<and> tt = 0)" "tt = CCN_TT_BLOB \<or> tt = CCN_TT_UDATA"
        | (nest) "\<not> (num = 0 \<and> tt = 0)" "\<not> (tt = CCN_TT_BLOB \<or> tt = CCN_TT_UDATA)" "tt = CCN_TT_DTAG \<or> tt = CCN_TT_DATTR"
        | (bad) "\<not> (num = 0 \<and> tt = 0)" "\<not> (tt = CCN_TT_BLOB \<or> tt = CCN_TT_UDATA)" "\<not> (tt = CCN_TT_DTAG \<or> tt = CCN_TT_DATTR)"
        by blast
      then show ?thesis
      proof cases
        case fin
        then show ?thesis using run eq d pos c by auto
      next
        case blob
        then have "ccnl_ccnb_hunt_for_end m (p + unat num, wsub n (unat num)) (Some (p, unat num)) = Inr (cur', v')"
          using run eq d by auto
        then have "p + unat num < fst cur'" using 1(2)[OF Inr, of h "(p, n)" y num tt p n] blob d by fastforce
        then show ?thesis using pos c by simp
      next
        case nest
        obtain cur2 v2 where i: "ccnl_ccnb_hunt_for_end m (p, n) v = Inr (cur2, v2)"
          using run eq d nest by (auto split: sum.splits prod.splits)
        have o: "ccnl_ccnb_hunt_for_end m cur2 v2 = Inr (cur', v')" using run eq d nest i by auto
        have "p < fst cur2" using 1(3)[OF Inr, of h "(p, n)" y num tt p n] nest d i by fastforce
        moreover have "fst cur2 < fst cur'" using 1(4)[OF Inr, of h "(p, n)" y num tt p n "(cur2, v2)" cur2 v2] nest d i o by fastforce
        ultimately show ?thesis using pos c by simp
      next
        case bad
        then show ?thesis using run eq d by auto
      qed
    qed
  qed
qed

lemma hunt_total: "All ccnl_ccnb_hunt_for_end_dom"
proof (relation "measure (\<lambda>(m, cur, v). length m - fst cur)", goal_cases)
  case 1
  show ?case by simp
next
  case (2 m cur x xa xb xc xd p n)
  then show ?case by (cases cur) (auto dest!: ccnb_dehead_progress)
next
  case (3 m cur v xa xb xc xd p n)
  then show ?case by (cases cur) (auto dest!: ccnb_dehead_progress)
next
  case (4 m cur v x h y p n num tt q cur2 v2)
  then show ?case
    by (cases cur) (auto dest!: ccnb_dehead_progress hunt_forward)
qed

termination ccnl_ccnb_hunt_for_end
  by (rule hunt_total)

declare ccnl_ccnb_hunt_for_end.simps [simp del]

lemma hunt_progress: "ccnl_ccnb_hunt_for_end m cur v = Inr (cur', v') \<Longrightarrow> fst cur < fst cur'"
  by (rule hunt_forward[OF spec[OF hunt_total]])

definition ccnl_ccnb_consume :: "bytes \<Rightarrow> u8 \<Rightarrow> u64 \<Rightarrow> cursor \<Rightarrow> blobref \<Rightarrow> (cursor \<times> blobref) res" where
  "ccnl_ccnb_consume m typ num cur v = (case cur of (p, n) \<Rightarrow>
     if typ = CCN_TT_BLOB \<or> typ = CCN_TT_UDATA then Inr ((p + unat num, wsub n (unat num)), Some (p, unat num))
     else if typ = CCN_TT_DTAG \<or> typ = CCN_TT_DATTR then ccnl_ccnb_hunt_for_end m (p, n) v
     else Inl Fail)"

lemma hunt_for_end_consume:
  "ccnl_ccnb_hunt_for_end m cur v = (case ccnl_ccnb_dehead m cur of
      Inl e \<Rightarrow> Inl e
    | Inr (None, cur1) \<Rightarrow> Inl Fail
    | Inr (Some (num, typ), cur1) \<Rightarrow>
        if num = 0 \<and> typ = 0 then Inr (cur1, v)
        else bindE (ccnl_ccnb_consume m typ num cur1 v) (\<lambda>(cur2, v2). ccnl_ccnb_hunt_for_end m cur2 v2))"
  by (subst ccnl_ccnb_hunt_for_end.simps)
    (auto simp: ccnl_ccnb_consume_def bindE_def split: sum.split option.split prod.split)

lemma consume_progress: "ccnl_ccnb_consume m typ num cur v = Inr (cur', v') \<Longrightarrow> fst cur \<le> fst cur'"
  by (cases cur) (auto simp: ccnl_ccnb_consume_def dest!: hunt_progress split: if_splits)

section \<open>Numbers\<close>

fun data2uint_loop :: "bytes \<Rightarrow> nat \<Rightarrow> nat \<Rightarrow> u64 \<Rightarrow> u64 res" where
  "data2uint_loop m p 0 val = Inr val"
| "data2uint_loop m p (Suc k) val = bindE (rd m p) (\<lambda>c.
     if 0x30 \<le> c \<and> c \<le> 0x39 then data2uint_loop m (p + 1) k (10 * val + ucast c - 0x30) else Inl Fail)"

definition ccnl_ccnb_data2uint :: "bytes \<Rightarrow> nat \<Rightarrow> nat \<Rightarrow> u64 res" where
  "ccnl_ccnb_data2uint m cp len = data2uint_loop m cp len 0"

fun unmk_loop :: "bytes \<Rightarrow> cursor \<Rightarrow> nat \<Rightarrow> u32 \<Rightarrow> (u32 \<times> cursor) res" where
  "unmk_loop m cur 0 val = Inr (val, cur)"
| "unmk_loop m (p, n) (Suc k) val =
     (if n > 0 then bindE (rd m p) (\<lambda>c. unmk_loop m (p + 1, n - 1) k (push_bit 8 val OR ucast c))
      else Inr (val, (p, n)))"

text \<open>The value, \<open>*width\<close> and the cursor.\<close>

definition ccnl_ccnb_unmkBinaryInt :: "bytes \<Rightarrow> cursor \<Rightarrow> u8 option \<Rightarrow> (u32 \<times> u8 option \<times> cursor) res" where
  "ccnl_ccnb_unmkBinaryInt m cur width = (case ccnl_ccnb_dehead m cur of
      Inl e \<Rightarrow> Inl e
    | Inr (None, cur1) \<Rightarrow> Inl Fail
    | Inr (Some (num, typ), cur1) \<Rightarrow>
        if typ \<noteq> CCN_TT_BLOB then Inl Fail
        else bindE (case width of
              None \<Rightarrow> Inr (num, None)
            | Some w \<Rightarrow> if ucast w < num then Inr (ucast w, Some w)
                else if num > 0xff then Inl Fail
                else Inr (num, Some (ucast num)))
          (\<lambda>(num1, width1). bindE (unmk_loop m cur1 (unat num1) 0) (\<lambda>(val, (p, n)).
            if n < 1 then Inl Fail
            else bindE (rd m p) (\<lambda>c. if c \<noteq> 0 then Inl Fail else Inr (val, width1, (p + 1, n - 1))))))"

section \<open>Packets\<close>

text \<open>The components are searched in slots that hold nothing at first; components beyond
  \<open>CCNL_MAX_NAME_COMP\<close> are skipped.\<close>

function ccnb_name_loop :: "bytes \<Rightarrow> cursor \<Rightarrow> blobref list \<Rightarrow> (cursor \<times> blobref list) res" where
  "ccnb_name_loop m cur comps = (case ccnl_ccnb_dehead m cur of
      Inl e \<Rightarrow> Inl e
    | Inr (None, cur1) \<Rightarrow> Inl Fail
    | Inr (Some (num, typ), cur1) \<Rightarrow>
        if num = 0 \<and> typ = 0 then Inr (cur1, comps)
        else if typ = CCN_TT_DTAG \<and> num = CCN_DTAG_COMPONENT \<and> length comps < CCNL_MAX_NAME_COMP then
          bindE (ccnl_ccnb_hunt_for_end m cur1 None) (\<lambda>(cur2, v). ccnb_name_loop m cur2 (comps @ [v]))
        else bindE (ccnl_ccnb_consume m typ num cur1 None) (\<lambda>(cur2, v). ccnb_name_loop m cur2 comps))"
  by pat_completeness auto

lemma ccnb_after_head:
  assumes "ccnl_ccnb_dehead m cur = Inr (Some (num, typ), cur1)" and "fst cur1 \<le> fst cur2"
  shows "length m - fst cur2 < length m - fst cur" and "fst cur < fst cur2"
  using assms by (cases cur; cases cur1; force dest!: ccnb_dehead_progress)+

termination ccnb_name_loop
  by (relation "measure (\<lambda>(m, cur, comps). length m - fst cur)")
    (auto intro: ccnb_after_head dest!: hunt_progress consume_progress)

declare ccnb_name_loop.simps [simp del]

text \<open>The fields of the packet while it is parsed; \<open>bp_val\<close> is the pair of local variables
  \<open>cp\<close> and \<open>len\<close>, which one field leaves behind for the next.\<close>

record ccnb_parse =
  bp_comps :: "blobref list"
  bp_nameptr :: "nat option"
  bp_namelen :: nat
  bp_content :: blobref
  bp_detail :: ccnb_detail
  bp_val :: blobref

definition blob_val :: "blobref \<Rightarrow> (nat \<times> nat) res" where
  "blob_val v = (case v of None \<Rightarrow> Inl Oob | Some x \<Rightarrow> Inr x)"

definition ccnb_number :: "bytes \<Rightarrow> blobref \<Rightarrow> u64 \<Rightarrow> u64 res" where
  "ccnb_number m v maxval = bindE (blob_val v) (\<lambda>(cp, len). bindE (ccnl_ccnb_data2uint m cp len) (\<lambda>x.
     if x > maxval then Inl Fail else Inr x))"

definition ccnb_field :: "bytes \<Rightarrow> u64 \<Rightarrow> blobref \<Rightarrow> ccnb_detail \<Rightarrow> ccnb_detail res" where
  "ccnb_field m num v d =
    (if num = CCN_DTAG_SCOPE then bindE (blob_val v) (\<lambda>(cp, len).
       if len = 1 then bindE (rd m cp) (\<lambda>c. Inr (d\<lparr>cb_scope := (if 0x30 \<le> c \<and> c < 0x33 then uint c - 0x30 else -1)\<rparr>))
       else Inr d)
     else if num = CCN_DTAG_ANSWERORIGKIND then
       bindE (ccnb_number m v 0xffff) (\<lambda>x. Inr (d\<lparr>cb_aok := ucast x\<rparr>))
     else if num = CCN_DTAG_MINSUFFCOMP then
       bindE (ccnb_number m v 0xffffffff) (\<lambda>x. Inr (d\<lparr>cb_minsuffix := ucast x\<rparr>))
     else if num = CCN_DTAG_MAXSUFFCOMP then
       bindE (ccnb_number m v 0xffffffff) (\<lambda>x. Inr (d\<lparr>cb_maxsuffix := ucast x\<rparr>))
     else if num = CCN_DTAG_NONCE then
       if cb_nonce d = None
       then bindE (blob_val v) (\<lambda>(cp, len). bindE (slice m cp len) (\<lambda>b. Inr (d\<lparr>cb_nonce := Some b\<rparr>))) else Inr d
     else if num = CCN_DTAG_PUBPUBKDIGEST then
       if cb_ppkd d = None
       then bindE (blob_val v) (\<lambda>(cp, len). bindE (slice m cp len) (\<lambda>b. Inr (d\<lparr>cb_ppkd := Some b\<rparr>))) else Inr d
     else Inr d)"

text \<open>One round of the loop behind a head that started at \<open>oldpos\<close>. An unknown tag also searches
  into \<open>cp\<close> and \<open>len\<close>.\<close>

definition ccnb_step :: "bytes \<Rightarrow> nat \<Rightarrow> u64 \<Rightarrow> u8 \<Rightarrow> cursor \<Rightarrow> ccnb_parse \<Rightarrow> (cursor \<times> ccnb_parse) res" where
  "ccnb_step m oldpos num typ cur s =
    (if typ = CCN_TT_DTAG then
       if num = CCN_DTAG_NAME then bindE (ccnb_name_loop m cur (bp_comps s)) (\<lambda>(cur2, comps).
         Inr (cur2, s\<lparr>bp_comps := comps, bp_nameptr := Some oldpos, bp_namelen := fst cur2 - oldpos\<rparr>))
       else if num = CCN_DTAG_CONTENT then bindE (ccnl_ccnb_consume m typ num cur (bp_content s)) (\<lambda>(cur2, v).
         Inr (cur2, s\<lparr>bp_content := v\<rparr>))
       else bindE (ccnl_ccnb_hunt_for_end m cur (bp_val s)) (\<lambda>(cur2, v).
         bindE (ccnb_field m num v (bp_detail s)) (\<lambda>d. Inr (cur2, s\<lparr>bp_val := v, bp_detail := d\<rparr>)))
     else bindE (ccnl_ccnb_consume m typ num cur None) (\<lambda>(cur2, v). Inr (cur2, s)))"

lemma ccnb_name_progress: "ccnb_name_loop m cur comps = Inr (cur', comps') \<Longrightarrow> fst cur < fst cur'"
proof (induction m cur comps rule: ccnb_name_loop.induct)
  case (1 m cur comps)
  have run: "ccnb_name_loop m cur comps = Inr (cur', comps')" by (rule 1(3))
  then obtain num tt cur1 where d: "ccnl_ccnb_dehead m cur = Inr (Some (num, tt), cur1)"
    by (subst (asm) ccnb_name_loop.simps) (auto split: sum.splits option.splits)
  have run1: "(if num = 0 \<and> tt = 0 then Inr (cur1, comps)
      else if tt = CCN_TT_DTAG \<and> num = CCN_DTAG_COMPONENT \<and> length comps < CCNL_MAX_NAME_COMP then
        bindE (ccnl_ccnb_hunt_for_end m cur1 None) (\<lambda>(cur2, v). ccnb_name_loop m cur2 (comps @ [v]))
      else bindE (ccnl_ccnb_consume m tt num cur1 None) (\<lambda>(cur2, v). ccnb_name_loop m cur2 comps)) = Inr (cur', comps')"
    using run d by (subst (asm) ccnb_name_loop.simps) simp
  note pos = ccnb_after_head(2)[OF d]
  show ?case
  proof (cases "num = 0 \<and> tt = 0")
    case True
    then show ?thesis using run1 pos[of cur1] by simp
  next
    case n0: False
    show ?thesis
    proof (cases "tt = CCN_TT_DTAG \<and> num = CCN_DTAG_COMPONENT \<and> length comps < CCNL_MAX_NAME_COMP")
      case True
      then obtain cur2 v where v: "ccnl_ccnb_hunt_for_end m cur1 None = Inr (cur2, v)"
        "ccnb_name_loop m cur2 (comps @ [v]) = Inr (cur', comps')"
        using run1 n0 by (auto simp: bindE_eq_Inr_iff)
      have "fst cur2 < fst cur'" using 1(1)[OF d _ _ _ n0 True v(1)] v(2) by simp
      then show ?thesis using pos[of cur2] hunt_progress[OF v(1)] by simp
    next
      case False
      then obtain cur2 v where v: "ccnl_ccnb_consume m tt num cur1 None = Inr (cur2, v)"
        "ccnb_name_loop m cur2 comps = Inr (cur', comps')"
        using run1 n0 by (auto simp: bindE_eq_Inr_iff split: if_splits)
      have "fst cur2 < fst cur'" using 1(2)[OF d _ _ _ n0 False v(1)] v(2) by simp
      then show ?thesis using pos[of cur2] consume_progress[OF v(1)] by simp
    qed
  qed
qed

lemma ccnb_step_progress: "ccnb_step m oldpos num typ cur s = Inr (cur', s') \<Longrightarrow> fst cur \<le> fst cur'"
  by (auto simp: ccnb_step_def bindE_eq_Inr_iff dest!: hunt_progress consume_progress ccnb_name_progress split: if_splits)

text \<open>The loop ends at the end tag, but also, without an error, where no head can be read.\<close>

function ccnb_pkt_loop :: "bytes \<Rightarrow> cursor \<Rightarrow> ccnb_parse \<Rightarrow> (cursor \<times> ccnb_parse) res" where
  "ccnb_pkt_loop m cur s = (case ccnl_ccnb_dehead m cur of
      Inl e \<Rightarrow> Inl e
    | Inr (None, cur1) \<Rightarrow> Inr (cur1, s)
    | Inr (Some (num, typ), cur1) \<Rightarrow>
        if num = 0 \<and> typ = 0 then Inr (cur1, s)
        else bindE (ccnb_step m (fst cur) num typ cur1 s) (\<lambda>(cur2, s2). ccnb_pkt_loop m cur2 s2))"
  by pat_completeness auto

termination ccnb_pkt_loop
  by (relation "measure (\<lambda>(m, cur, s). length m - fst cur)") (auto intro: ccnb_after_head dest!: ccnb_step_progress)

declare ccnb_pkt_loop.simps [simp del]

definition ccnb_parse_init :: ccnb_parse where
  "ccnb_parse_init = \<lparr>bp_comps = [], bp_nameptr = None, bp_namelen = 0, bp_content = None,
     bp_detail = \<lparr>cb_minsuffix = 0, cb_maxsuffix = of_nat CCNL_MAX_NAME_COMP, cb_aok = 3, cb_scope = 3,
       cb_nonce = None, cb_ppkd = None\<rparr>, bp_val = None\<rparr>"

fun ccnb_comps :: "bytes \<Rightarrow> blobref list \<Rightarrow> bytes list res" where
  "ccnb_comps buf [] = Inr []"
| "ccnb_comps buf (v # vs) = bindE (blob_val v) (\<lambda>(cp, len). bindE (slice buf cp len) (\<lambda>c.
     bindE (ccnb_comps buf vs) (\<lambda>cs. Inr (c # cs))))"

text \<open>\<open>start\<close> is offset 0.\<close>

definition ccnl_ccnb_bytes2pkt :: "bytes \<Rightarrow> cursor \<Rightarrow> (pkt \<times> cursor) res" where
  "ccnl_ccnb_bytes2pkt m cur = bindE (ccnb_pkt_loop m cur ccnb_parse_init) (\<lambda>((q, n), s).
     bindE (slice m 0 q) (\<lambda>buf. bindE (ccnb_comps buf (bp_comps s)) (\<lambda>cs.
       Inr (\<lparr>pkt_buf = Some buf,
             pkt_pfx = Some \<lparr>pfx_comp = cs, pfx_suite = CCNL_SUITE_CCNB, pfx_nameptr = bp_nameptr s,
               pfx_namelen = bp_namelen s, pfx_bytes = None, pfx_chunknum = None\<rparr>,
             pkt_content = map_option fst (bp_content s),
             pkt_contlen = (case bp_content s of None \<Rightarrow> 0 | Some (cp, len) \<Rightarrow> len), pkt_type = 0,
             pkt_val = -1, pkt_s = Ccnb_detail (bp_detail s), pkt_hmacLen = 0, pkt_hmacSignature = None,
             pkt_flags = 0, pkt_suite = CCNL_SUITE_CCNB\<rparr>, (q, n)))))"

lemma ccnb_pkt_progress: "ccnb_pkt_loop m cur s = Inr (cur', s') \<Longrightarrow> fst cur \<le> fst cur'"
proof (induction m cur s rule: ccnb_pkt_loop.induct)
  case (1 m cur s)
  have run: "ccnb_pkt_loop m cur s = Inr (cur', s')" by (rule 1(2))
  obtain x where x: "ccnl_ccnb_dehead m cur = Inr x"
    using run by (subst (asm) ccnb_pkt_loop.simps) (auto split: sum.splits)
  obtain h cur1 where hx: "x = (h, cur1)" by (cases x)
  show ?case
  proof (cases h)
    case None
    have "cur1 = cur" using x hx None
      by (auto simp: ccnl_ccnb_dehead_def bindE_eq_Inr_iff split: prod.splits if_splits option.splits)
    then show ?thesis using run x hx None by (subst (asm) ccnb_pkt_loop.simps) simp
  next
    case (Some y)
    obtain num tt where y: "y = (num, tt)" by (cases y)
    have d: "ccnl_ccnb_dehead m cur = Inr (Some (num, tt), cur1)" using x hx Some y by simp
    note pos = ccnb_after_head(2)[OF d]
    show ?thesis
    proof (cases "num = 0 \<and> tt = 0")
      case True
      then show ?thesis using run d pos[of cur1] by (subst (asm) ccnb_pkt_loop.simps) simp
    next
      case False
      then obtain cur2 s2 where v: "ccnb_step m (fst cur) num tt cur1 s = Inr (cur2, s2)"
        "ccnb_pkt_loop m cur2 s2 = Inr (cur', s')"
        using run d by (subst (asm) ccnb_pkt_loop.simps) (auto simp: bindE_eq_Inr_iff)
      have "fst cur2 \<le> fst cur'" using 1(1)[OF d _ _ _ False v(1)] v(2) by simp
      then show ?thesis using pos[of cur2] ccnb_step_progress[OF v(1)] by simp
    qed
  qed
qed

lemma ccnb_bytes2pkt_progress: "ccnl_ccnb_bytes2pkt m cur = Inr (pk, cur') \<Longrightarrow> fst cur \<le> fst cur'"
  by (auto simp: ccnl_ccnb_bytes2pkt_def bindE_eq_Inr_iff dest!: ccnb_pkt_progress)

definition ccnl_ccnb_cMatch :: "hooks \<Rightarrow> pkt \<Rightarrow> content \<Rightarrow> int res" where
  "ccnl_ccnb_cMatch h p c = (let d = s_ccnb p in
     bindE (ccnl_i_prefixof_c h (pkt_pfx p) (ucast (cb_minsuffix d)) (ucast (cb_maxsuffix d)) c) (\<lambda>rc.
       if rc < 0 then Inr (-1)
       else if cb_ppkd d \<noteq> None \<and> \<not> buf_equal (cb_ppkd d) (cb_ppkd (s_ccnb (c_pkt c))) then Inr (-1)
       else Inr 0))"

end
