(* ===== verification/Fwd.thy ===== *)
theory Fwd
  imports Tables Ccntlv_Dec Ccnb_Dec
begin

text \<open>
  The forwarder, \<open>ccnl-fwd/src/ccnl-fwd.c\<close>: what the relay does with an incoming Interest and
  an incoming Data packet, and the entry points of the NDN, the CCNx-TLV and the CCNb format.
\<close>

section \<open>Data\<close>

text \<open>Whether the cache holds content of exactly this name.\<close>

fun content_dup :: "pkt \<Rightarrow> content list \<Rightarrow> bool res" where
  "content_dup p [] = Inr False"
| "content_dup p (c # cs) = bindE (deref (pkt_pfx (c_pkt c))) (\<lambda>q. bindE (deref (pkt_pfx p)) (\<lambda>pp.
     if ccnl_prefix_cmp q None pp CMP_EXACT = 0 then Inr True else content_dup p cs))"

definition ccnl_fwd_handleContent :: "hooks \<Rightarrow> relay \<Rightarrow> faceref option \<Rightarrow> pkt \<Rightarrow> (int \<times> relay) res" where
  "ccnl_fwd_handleContent h r from1 p =
    (case ccnl_callback_rx_on_data h r from1 p of (rc, r1) \<Rightarrow>
      if rc \<noteq> 0 then Inr (0, r1)
      else bindE (content_dup p (rl_contents r1)) (\<lambda>dup.
        if dup then Inr (0, r1)
        else case ccnl_content_new r1 p of (c, r2) \<Rightarrow>
          bindE (ccnl_content_serve_pending h c r2) (\<lambda>(n, c1, r3).
            if n = 0 then Inr (0, r3)
            else if rl_max_cache_entries r3 \<noteq> 0 then
              (case cache_strategy_cache h r3 c1 of (d, r4) \<Rightarrow>
                if d \<noteq> 0 then bindE (ccnl_content_add2cache h c1 r4) (\<lambda>(ok, r5). Inr (0, r5))
                else Inr (0, r4))
            else Inr (0, r3))))"

section \<open>Interests\<close>

definition ccnl_pkt_fwdOK :: "pkt \<Rightarrow> int" where
  "ccnl_pkt_fwdOK p = (if pkt_suite p = CCNL_SUITE_NDNTLV
     then (if nd_scope (s_ndntlv p) > 2 then 1 else 0) else -1)"

text \<open>A management message: four components, the first of which compares equal to ccnx over four
  bytes, however long it is.\<close>

definition is_mgmt :: "hooks \<Rightarrow> pkt \<Rightarrow> bool res" where
  "is_mgmt h p = (if pkt_suite p = CCNL_SUITE_CCNB \<or> pkt_suite p = CCNL_SUITE_NDNTLV
     then bindE (deref (pkt_pfx p)) (\<lambda>pfx.
       Inr (compcnt pfx = 4 \<and> take 4 (pfx_comp pfx ! 0 @ hk_behind h p) = [0x63, 0x63, 0x6e, 0x78]))
     else Inr False)"

text \<open>The first content of the packet's suite that matches.\<close>

fun cs_search :: "(pkt \<Rightarrow> content \<Rightarrow> int res) \<Rightarrow> pkt \<Rightarrow> content list \<Rightarrow> content option res" where
  "cs_search cm p [] = Inr None"
| "cs_search cm p (c # cs) = bindE (deref (pkt_pfx (c_pkt c))) (\<lambda>q. bindE (deref (pkt_pfx p)) (\<lambda>pp.
     if pfx_suite q \<noteq> pfx_suite pp then cs_search cm p cs
     else bindE (cm p c) (\<lambda>rc. if rc \<noteq> 0 then cs_search cm p cs else Inr (Some c))))"

fun pit_search :: "pkt \<Rightarrow> interest list \<Rightarrow> interest option res" where
  "pit_search p [] = Inr None"
| "pit_search p (i # is) = bindE (ccnl_interest_isSame (Some i) (Some p)) (\<lambda>rc.
     if rc \<noteq> 0 then Inr (Some i) else pit_search p is)"

text \<open>Step 3: the incoming face is appended to the interest, which is forwarded when it is new.\<close>

definition pit_append :: "faceref option \<Rightarrow> bool \<Rightarrow> interest \<Rightarrow> relay \<Rightarrow> relay res" where
  "pit_append from1 prop i r = (case ccnl_interest_append_pending (rl_now r) (Some i) from1 of
      (rc, Some i1) \<Rightarrow>
        let r1 = pit_upd (i_ref i) (\<lambda>_. i1) r
        in if prop then ccnl_interest_propagate (Some i1) r1 else Inr r1
    | (rc, None) \<Rightarrow> Inr r)"

text \<open>Steps 1 to 3: the content store, the pending interests, then forwarding.\<close>

definition handleInterest_steps ::
    "relay \<Rightarrow> faceref option \<Rightarrow> pkt \<Rightarrow> (pkt \<Rightarrow> content \<Rightarrow> int res) \<Rightarrow> (int \<times> relay) res" where
  "handleInterest_steps r from1 p cMatch =
    bindE (cs_search cMatch p (rl_contents r)) (\<lambda>hit. case hit of
        Some c \<Rightarrow> (case from1 of
            None \<Rightarrow> Inr (0, r)
          | Some f \<Rightarrow> bindE (face_get r f) (\<lambda>x.
              if f_ifndx x \<ge> 0 then bindE (ccnl_send_pkt f (c_pkt c) r) (\<lambda>(rc, r1). Inr (0, r1))
              else Inr (0, r)))
      | None \<Rightarrow> bindE (pit_search p (rl_pit r)) (\<lambda>known.
          if ccnl_pkt_fwdOK p = 0 then Inr (-1, r)
          else case known of
              Some i \<Rightarrow> bindE (pit_append from1 False i r) (\<lambda>r1. Inr (0, r1))
            | None \<Rightarrow> (case ccnl_interest_new r from1 p of
                  (None, r1) \<Rightarrow> Inr (0, r1)
                | (Some k, r1) \<Rightarrow> bindE (pit_get r1 k) (\<lambda>i.
                    bindE (pit_append from1 True i r1) (\<lambda>r2. Inr (0, r2))))))"

definition ccnl_fwd_handleInterest ::
    "hooks \<Rightarrow> relay \<Rightarrow> faceref option \<Rightarrow> pkt \<Rightarrow> (pkt \<Rightarrow> content \<Rightarrow> int res) \<Rightarrow> (int \<times> relay) res" where
  "ccnl_fwd_handleInterest h r from1 p cMatch =
    (case ccnl_nonce_isDup r p of (dup, r1) \<Rightarrow>
     if dup then Inr (0, r1)
     else case local_producer h r1 from1 p of (rc, r2) \<Rightarrow>
     if rc \<noteq> 0 then Inr (0, r2)
     else bindE (is_mgmt h p) (\<lambda>mgmt.
       if mgmt then bindE (deref (pkt_buf p)) (\<lambda>b. bindE (deref (pkt_pfx p)) (\<lambda>pfx.
         bindE (hk_mgmt h r2 b pfx from1) (\<lambda>(rc, r3). Inr (0, r3))))
       else handleInterest_steps r2 from1 p cMatch))"

section \<open>The formats\<close>

text \<open>
  A dispatch function works on the frame \<open>m\<close> at the cursor \<open>(p, n)\<close>. Its result is the relay and,
  when its return code is not negative, the frame (whose header it may have changed) with the new
  cursor. After a negative return no caller looks at the frame again.
\<close>

type_synonym dispatched = "relay \<times> (bytes \<times> cursor) option"
type_synonym dispatchFct = "hooks \<Rightarrow> relay \<Rightarrow> faceref option \<Rightarrow> bytes \<Rightarrow> cursor \<Rightarrow> dispatched res"

definition ccnl_ndntlv_forwarder :: dispatchFct where
  "ccnl_ndntlv_forwarder h r from1 m cur = (case cur of (p, n) \<Rightarrow>
    (case ccnl_ndntlv_dehead (drop p m) (0, n) of
        Inl e \<Rightarrow> Inl e
      | Inr (None, cur1) \<Rightarrow> Inr (r, None)
      | Inr (Some (typ, len), (q, k)) \<Rightarrow>
          if len > k then Inr (r, None)
          else (case ccnl_ndntlv_bytes2pkt typ (drop p m) (q, k) of
              Inl Fail \<Rightarrow> Inr (r, None)
            | Inl e \<Rightarrow> Inl e
            | Inr (pk, (q1, k1)) \<Rightarrow>
                bindE (if typ = NDN_TLV_Interest then ccnl_fwd_handleInterest h r from1 pk (ccnl_ndntlv_cMatch h)
                       else if typ = NDN_TLV_Data then ccnl_fwd_handleContent h r from1 pk
                       else Inr (0, r))
                  (\<lambda>(rc, r1). Inr (r1, if rc \<noteq> 0 then None else Some (m, (p + q1, k1)))))))"

definition ccnl_ccntlv_cMatch :: "pkt \<Rightarrow> content \<Rightarrow> int res" where
  "ccnl_ccntlv_cMatch p c = bindE (deref (pkt_pfx (c_pkt c))) (\<lambda>q. bindE (deref (pkt_pfx p)) (\<lambda>pp.
     if ccnl_prefix_cmp q None pp CMP_EXACT \<noteq> 0 then Inr (-1) else Inr 0))"

text \<open>What becomes of a parsed packet: its own type has to agree with the fixed header's.\<close>

definition ccntlv_deliver :: "hooks \<Rightarrow> relay \<Rightarrow> faceref option \<Rightarrow> u8 \<Rightarrow> pkt \<Rightarrow> (int \<times> relay) res" where
  "ccntlv_deliver h r from1 pkttype pk =
    (if pkttype = CCNX_PT_Interest then
       if pkt_type pk = ucast CCNX_TLV_TL_Interest
       then ccnl_fwd_handleInterest h r from1 (pk\<lparr>pkt_flags := pkt_flags pk OR CCNL_PKT_REQUEST\<rparr>) ccnl_ccntlv_cMatch
       else Inr (0, r)
     else if pkttype = CCNX_PT_Data then
       if pkt_type pk = ucast CCNX_TLV_TL_Object
       then bindE (ccnl_fwd_handleContent h r from1 (pk\<lparr>pkt_flags := pkt_flags pk OR CCNL_PKT_REPLY\<rparr>))
         (\<lambda>(rc, r1). Inr (0, r1))
       else Inr (0, r)
     else Inr (0, r))"

text \<open>The hop limit is counted down in the frame itself, a byte that wraps.\<close>

definition ccnl_ccntlv_forwarder :: dispatchFct where
  "ccnl_ccntlv_forwarder h r from1 m cur = (case cur of (p, n) \<Rightarrow>
    if n < ccnx_hdr_size then Inr (r, None)
    else bindE (ccnx_tlvhdr_at m p) (\<lambda>hp.
      if hd_version hp \<noteq> CCNX_TLV_V1 then Inr (r, None)
      else let hdrlen = hd_hdrlen hp in
      if hdrlen > n then Inr (r, None)
      else if hd_pktlen hp < hdrlen \<or> hd_pktlen hp > n then Inr (r, None)
      else
        let payloadlen = hd_pktlen hp - hdrlen;
            hop = (hd_pkttype hp = CCNX_PT_Interest \<or> hd_pkttype hp = CCNX_PT_NACK);
            m1 = (if hop then m[p + 4 := hd_hoplimit hp - 1] else m)
        in
        if hop \<and> hd_hoplimit hp - 1 = 0
        then Inr (r, Some (m1, (p + hdrlen + payloadlen, n - hdrlen - payloadlen)))
        else (case ccnl_ccntlv_bytes2pkt (drop p m1) (hdrlen, n - hdrlen) of
            Inl Fail \<Rightarrow> Inr (r, None)
          | Inl e \<Rightarrow> Inl e
          | Inr (pk, (q1, k1)) \<Rightarrow>
              bindE (ccntlv_deliver h r from1 (hd_pkttype hp) pk)
                (\<lambda>(rc, r1). Inr (r1, if rc \<noteq> 0 then None else Some (m1, (p + q1, k1)))))))"

text \<open>A CCNb message whose top-level head, taken to be two bytes long, is already stripped.\<close>

definition ccnl_ccnb_fwd ::
    "hooks \<Rightarrow> relay \<Rightarrow> faceref option \<Rightarrow> bytes \<Rightarrow> cursor \<Rightarrow> u64 \<Rightarrow> (relay \<times> cursor option) res" where
  "ccnl_ccnb_fwd h r from1 m cur typ = (case cur of (q, k) \<Rightarrow>
    if q < 2 then Inl Oob
    else (case ccnl_ccnb_bytes2pkt (drop (q - 2) m) (2, k) of
        Inl Fail \<Rightarrow> Inr (r, None)
      | Inl e \<Rightarrow> Inl e
      | Inr (pk, (q1, k1)) \<Rightarrow>
          let pk1 = pk\<lparr>pkt_type := typ, pkt_flags := pkt_flags pk OR
                (if typ = CCN_DTAG_INTEREST then CCNL_PKT_REQUEST else CCNL_PKT_REPLY)\<rparr>
          in bindE (if pkt_flags pk1 AND CCNL_PKT_REQUEST \<noteq> 0
                    then ccnl_fwd_handleInterest h r from1 pk1 (ccnl_ccnb_cMatch h)
                    else ccnl_fwd_handleContent h r from1 pk1)
               (\<lambda>(rc, r1). Inr (r1, if rc \<noteq> 0 then None else Some (q - 2 + q1, k1)))))"

lemma ccnb_fwd_progress: "ccnl_ccnb_fwd h r f m cur typ = Inr (r', Some cur') \<Longrightarrow> fst cur \<le> fst cur'"
  by (auto simp: ccnl_ccnb_fwd_def Let_def bindE_eq_Inr_iff dest!: ccnb_bytes2pkt_progress
      split: prod.splits sum.splits err.splits if_splits)

function ccnb_forward_loop :: "hooks \<Rightarrow> relay \<Rightarrow> faceref option \<Rightarrow> bytes \<Rightarrow> cursor \<Rightarrow> dispatched res" where
  "ccnb_forward_loop h r from1 m cur =
    (if snd cur = 0 then Inr (r, Some (m, cur))
     else case ccnl_ccnb_dehead m cur of
         Inl e \<Rightarrow> Inl e
       | Inr (None, cur1) \<Rightarrow> Inr (r, None)
       | Inr (Some (num, typ), cur1) \<Rightarrow>
           if typ \<noteq> CCN_TT_DTAG then Inr (r, None)
           else if num = CCN_DTAG_INTEREST \<or> num = CCN_DTAG_CONTENTOBJ then
             bindE (ccnl_ccnb_fwd h r from1 m cur1 num) (\<lambda>(r1, go). case go of
                 None \<Rightarrow> Inr (r1, None)
               | Some cur2 \<Rightarrow> ccnb_forward_loop h r1 from1 m cur2)
           else Inr (r, None))"
  by pat_completeness auto

termination ccnb_forward_loop
  by (relation "measure (\<lambda>(h, r, f, m, cur). length m - fst cur)") (auto intro: ccnb_after_head dest!: ccnb_fwd_progress)

declare ccnb_forward_loop.simps [simp del]

definition ccnl_ccnb_forwarder :: dispatchFct where
  "ccnl_ccnb_forwarder = ccnb_forward_loop"

end
