(* ===== verification/Cstd.thy ===== *)
theory Cstd
  imports Prelude
begin

text \<open>
  What the management code uses of the C library: strings that end at the first 0 byte,
  \<open>strtol\<close> and \<open>strtoul\<close> with their end pointer and \<open>errno\<close>, \<open>inet_pton\<close>, and the
  decimal output of \<open>snprintf\<close>.
\<close>

section \<open>Strings\<close>

text \<open>The bytes of a string literal, without the terminating 0.\<close>

definition lit :: "string \<Rightarrow> bytes" where
  "lit s = map of_char s"

text \<open>The string at the start of a block of memory.\<close>

definition c_str :: "bytes \<Rightarrow> bytes" where
  "c_str bs = takeWhile (\<lambda>c. c \<noteq> 0) bs"

lemma c_str_terminated [simp]: "c_str (c_str bs @ 0 # xs) = c_str bs"
  by (simp add: c_str_def takeWhile_append)

lemma c_str_id: "0 \<notin> set bs \<Longrightarrow> c_str bs = bs"
  by (auto simp: c_str_def intro: takeWhile_eq_all_conv[THEN iffD2])

lemma length_c_str: "length (c_str bs) \<le> length bs"
  by (simp add: c_str_def length_takeWhile_le)

text \<open>\<open>strcmp (a, b)\<close> where only the memory \<open>a\<close> may lack its end: whether the strings are equal.\<close>

fun strcmp_eq :: "bytes \<Rightarrow> bytes \<Rightarrow> bool res" where
  "strcmp_eq [] b = Inl Oob"
| "strcmp_eq (x # a) b =
     (case b of [] \<Rightarrow> Inr (x = 0)
      | y # b' \<Rightarrow> if x \<noteq> y then Inr False else if x = 0 then Inr True else strcmp_eq a b')"

section \<open>Numbers\<close>

definition isspace :: "byte \<Rightarrow> bool" where
  "isspace c \<longleftrightarrow> c = 0x20 \<or> 0x09 \<le> c \<and> c \<le> 0x0d"

text \<open>The value of a digit, and 99 for any other character.\<close>

definition digit_val :: "byte \<Rightarrow> nat" where
  "digit_val c = (if 0x30 \<le> c \<and> c \<le> 0x39 then unat c - 0x30
     else if 0x61 \<le> c \<and> c \<le> 0x7a then unat c - 0x61 + 10
     else if 0x41 \<le> c \<and> c \<le> 0x5a then unat c - 0x41 + 10
     else 99)"

definition digits_val :: "nat \<Rightarrow> bytes \<Rightarrow> nat" where
  "digits_val base ds = foldl (\<lambda>n d. n * base + digit_val d) 0 ds"

text \<open>Blanks, a sign, a prefix \<open>0x\<close> that a hexadecimal digit follows, and digits: whether there is
  a minus, the magnitude, and the offset of the end pointer (0 when there are no digits).\<close>

definition has_0x :: "bytes \<Rightarrow> bool" where
  "has_0x s = (case s of z # x # d # _ \<Rightarrow> z = 0x30 \<and> (x = 0x78 \<or> x = 0x58) \<and> digit_val d < 16 | _ \<Rightarrow> False)"

definition strto_parse :: "nat \<Rightarrow> bytes \<Rightarrow> bool \<times> nat \<times> nat" where
  "strto_parse base s =
    (let ws = length (takeWhile isspace s); s1 = drop ws s;
         sg = (case s1 of c # _ \<Rightarrow> if c = 0x2d \<or> c = 0x2b then 1 else 0 | [] \<Rightarrow> 0);
         neg = (case s1 of c # _ \<Rightarrow> c = 0x2d | [] \<Rightarrow> False); s2 = drop sg s1;
         hx = (if (base = 0 \<or> base = 16) \<and> has_0x s2 then 2 else 0);
         b = (if base \<noteq> 0 then base else if hx = 2 then 16
              else (case s2 of c # _ \<Rightarrow> if c = 0x30 then 8 else 10 | [] \<Rightarrow> 10));
         ds = takeWhile (\<lambda>c. digit_val c < b) (drop hx s2)
     in (neg, digits_val b ds, if ds = [] then 0 else ws + sg + hx + length ds))"

text \<open>The value and whether \<open>errno\<close> becomes \<open>ERANGE\<close>.\<close>

definition strtol :: "nat \<Rightarrow> bytes \<Rightarrow> int \<times> bool" where
  "strtol base s = (case strto_parse base s of (neg, n, _) \<Rightarrow>
     let v = (if neg then - int n else int n) in
     if v > 2 ^ 63 - 1 then (2 ^ 63 - 1, True) else if v < - (2 ^ 63) then (- (2 ^ 63), True) else (v, False))"

definition strtoul :: "nat \<Rightarrow> bytes \<Rightarrow> nat \<times> bool" where
  "strtoul base s = (case strto_parse base s of (neg, n, _) \<Rightarrow>
     if n \<ge> 2 ^ 64 then (2 ^ 64 - 1, True) else ((if neg then (2 ^ 64 - n) mod 2 ^ 64 else n), False))"

definition strto_end :: "nat \<Rightarrow> bytes \<Rightarrow> nat" where
  "strto_end base s = snd (snd (strto_parse base s))"

text \<open>\<open>%d\<close>.\<close>

fun dec_digits :: "nat \<Rightarrow> bytes" where
  "dec_digits n = (if n < 10 then [of_nat (0x30 + n)] else dec_digits (n div 10) @ [of_nat (0x30 + n mod 10)])"

declare dec_digits.simps [simp del]

definition dec_str :: "int \<Rightarrow> bytes" where
  "dec_str i = (if i < 0 then 0x2d # dec_digits (nat (- i)) else dec_digits (nat i))"

text \<open>Reading a printed number back.\<close>

lemma dec_digits_not_Nil [simp]: "dec_digits n \<noteq> []"
  by (subst dec_digits.simps) simp

lemma digit_char: "n < 10 \<Longrightarrow> digit_val (of_nat (0x30 + n)) = n \<and> \<not> isspace (of_nat (0x30 + n)) \<and> (of_nat (0x30 + n) :: byte) \<noteq> 0x2d
    \<and> (of_nat (0x30 + n) :: byte) \<noteq> 0x2b \<and> (of_nat (0x30 + n) :: byte) \<noteq> 0"
proof -
  have "\<forall>n\<in>set [0..<10]. digit_val (of_nat (0x30 + n)) = n \<and> \<not> isspace (of_nat (0x30 + n)) \<and> (of_nat (0x30 + n) :: byte) \<noteq> 0x2d
    \<and> (of_nat (0x30 + n) :: byte) \<noteq> 0x2b \<and> (of_nat (0x30 + n) :: byte) \<noteq> 0" by code_simp
  moreover assume "n < 10"
  ultimately show ?thesis by simp
qed

lemma dec_digits_chars: "c \<in> set (dec_digits n) \<Longrightarrow> \<exists>k<10. c = of_nat (0x30 + k)"
proof (induction n rule: dec_digits.induct)
  case (1 n)
  then have "n < 10 \<and> c = of_nat (0x30 + n) \<or> \<not> n < 10 \<and> (c \<in> set (dec_digits (n div 10)) \<or> c = of_nat (0x30 + n mod 10))"
    by (subst (asm) dec_digits.simps) (auto split: if_splits)
  moreover have "n mod 10 < 10" by simp
  ultimately show ?case using 1(1) by metis
qed

lemma digits_val_dec: "digits_val 10 (dec_digits n) = n"
proof (induction n rule: dec_digits.induct)
  case (1 n)
  show ?case
  proof (cases "n < 10")
    case True
    then show ?thesis using digit_char[OF True] by (subst dec_digits.simps) (simp add: digits_val_def)
  next
    case False
    have "digit_val (of_nat (0x30 + n mod 10)) = n mod 10" using digit_char[of "n mod 10"] by simp
    then show ?thesis using False 1 by (subst dec_digits.simps) (simp add: digits_val_def)
  qed
qed

lemma dec_digits_hd: "n \<noteq> 0 \<Longrightarrow> hd (dec_digits n) \<noteq> 0x30"
proof (induction n rule: dec_digits.induct)
  case (1 n)
  show ?case
  proof (cases "n < 10")
    case True
    have "\<forall>n\<in>set [1..<10]. (of_nat (0x30 + n) :: byte) \<noteq> 0x30" by code_simp
    then show ?thesis using True 1(2) by (subst dec_digits.simps) simp
  next
    case False
    then show ?thesis using 1 by (subst dec_digits.simps) (simp add: hd_append)
  qed
qed

lemma strtol_dec: "int n < 2 ^ 63 \<Longrightarrow> strtol 0 (dec_digits n) = (int n, False)"
proof -
  assume n: "int n < 2 ^ 63"
  obtain c cs where c: "dec_digits n = c # cs" by (cases "dec_digits n") auto
  have ch: "\<forall>x\<in>set (c # cs). digit_val x < 10 \<and> \<not> isspace x \<and> x \<noteq> 0x2d \<and> x \<noteq> 0x2b"
    using dec_digits_chars[of _ n] digit_char c by metis
  have v: "digits_val 10 (c # cs) = n" using digits_val_dec[of n] c by simp
  show ?thesis
  proof (cases "n = 0")
    case True
    then have "dec_digits n = [0x30]" by (subst dec_digits.simps) simp
    then show ?thesis unfolding True by code_simp
  next
    case False
    then have "c \<noteq> 0x30" using dec_digits_hd[OF False] c by simp
    moreover have "\<not> has_0x (c # cs)" using calculation by (auto simp: has_0x_def split: list.splits)
    moreover have t: "takeWhile (\<lambda>c. digit_val c < 10) cs = cs" using ch by (intro takeWhile_eq_all_conv[THEN iffD2]) simp
    ultimately have "strto_parse 0 (dec_digits n) = (False, n, length (dec_digits n))"
      using ch v unfolding strto_parse_def c by (simp add: Let_def t)
    then show ?thesis using n by (simp add: strtol_def)
  qed
qed

section \<open>Addresses\<close>

fun split_at :: "byte \<Rightarrow> bytes \<Rightarrow> bytes list" where
  "split_at x [] = [[]]"
| "split_at x (c # cs) = (if c = x then [] # split_at x cs else (case split_at x cs of p # ps \<Rightarrow> (c # p) # ps | [] \<Rightarrow> [[c]]))"

definition octet_ok :: "bytes \<Rightarrow> bool" where
  "octet_ok p \<longleftrightarrow> p \<noteq> [] \<and> (\<forall>c\<in>set p. digit_val c < 10) \<and> (length p = 1 \<or> hd p \<noteq> 0x30) \<and> digits_val 10 p \<le> 255"

text \<open>\<open>inet_pton (AF_INET, s, dst)\<close>: the four bytes, or \<open>None\<close> when nothing is stored.\<close>

definition inet_pton4 :: "bytes \<Rightarrow> bytes option" where
  "inet_pton4 s = (let ps = split_at 0x2e s in
     if length ps = 4 \<and> list_all octet_ok ps then Some (map (\<lambda>p. of_nat (digits_val 10 p)) ps) else None)"

text \<open>The loop of \<open>inet_pton (AF_INET6, ...)\<close>: \<open>tok\<close> is where the current group starts, \<open>val\<close> its
  value, \<open>xd\<close> its digits so far, \<open>out\<close> the bytes stored and \<open>colon\<close> where the double colon stood.
  The result has the bytes and the position of the double colon.\<close>

fun pton6_loop :: "bytes \<Rightarrow> bytes \<Rightarrow> nat \<Rightarrow> nat \<Rightarrow> bytes \<Rightarrow> nat option \<Rightarrow> (bytes \<times> nat option) option" where
  "pton6_loop [] tok val xd out colon =
    (if xd = 0 then Some (out, colon)
     else if length out + 2 > 16 then None else Some (out @ be_bytes 2 (of_nat val), colon))"
| "pton6_loop (c # cs) tok val xd out colon =
    (if digit_val c < 16 then
       if xd = 4 then None else pton6_loop cs tok (val * 16 + digit_val c) (xd + 1) out colon
     else if c = 0x3a then
       if xd = 0 then (if colon \<noteq> None then None else pton6_loop cs cs val 0 out (Some (length out)))
       else if cs = [] then None
       else if length out + 2 > 16 then None
       else pton6_loop cs cs 0 0 (out @ be_bytes 2 (of_nat val)) colon
     else if c = 0x2e \<and> length out + 4 \<le> 16 then
       (case inet_pton4 tok of Some b \<Rightarrow> Some (out @ b, colon) | None \<Rightarrow> None)
     else None)"

definition inet_pton6 :: "bytes \<Rightarrow> bytes option" where
  "inet_pton6 s =
    (case (case s of c # cs \<Rightarrow> if c = 0x3a then (case cs of d # _ \<Rightarrow> if d = 0x3a then Some cs else None | [] \<Rightarrow> None)
        else Some s | [] \<Rightarrow> Some s) of
       None \<Rightarrow> None
     | Some src \<Rightarrow>
        (case pton6_loop src src 0 0 [] None of
           None \<Rightarrow> None
         | Some (out, None) \<Rightarrow> if length out = 16 then Some out else None
         | Some (out, Some k) \<Rightarrow>
             if length out = 16 then None
             else Some (take k out @ replicate (16 - length out) 0 @ drop k out)))"

text \<open>\<open>inet_ntop\<close>: the text of an IPv4 and of an IPv6 address. The first of the longest runs of at
  least two groups that are 0 becomes a double colon; an IPv4 address that is mapped or compatible
  is written with its dots.\<close>

fun hex_digits :: "nat \<Rightarrow> bytes" where
  "hex_digits n = (if n < 16 then [of_nat (if n < 10 then 0x30 + n else 0x57 + n)]
     else hex_digits (n div 16) @ [of_nat (if n mod 16 < 10 then 0x30 + n mod 16 else 0x57 + n mod 16)])"

declare hex_digits.simps [simp del]

definition inet_ntop4 :: "bytes \<Rightarrow> bytes" where
  "inet_ntop4 a = dec_digits (unat (a ! 0)) @ 0x2e # dec_digits (unat (a ! 1))
     @ 0x2e # dec_digits (unat (a ! 2)) @ 0x2e # dec_digits (unat (a ! 3))"

definition zero_run :: "nat list \<Rightarrow> nat \<Rightarrow> nat" where
  "zero_run ws i = length (takeWhile (\<lambda>w. w = 0) (drop i ws))"

definition best_run :: "nat list \<Rightarrow> nat \<times> nat" where
  "best_run ws = foldl (\<lambda>(b, l) i. if zero_run ws i > l then (i, zero_run ws i) else (b, l)) (0, 1) [0..<8]"

definition inet_ntop6 :: "bytes \<Rightarrow> bytes" where
  "inet_ntop6 a =
    (let ws = map (\<lambda>i. 256 * unat (a ! (2 * i)) + unat (a ! (2 * i + 1))) [0..<8];
         (b, l0) = best_run ws; l = (if l0 < 2 then 0 else l0);
         dots = (l > 0 \<and> b = 0 \<and> (l = 6 \<or> l = 5 \<and> ws ! 5 = 0xffff))
     in concat (map (\<lambda>i.
          if b \<le> i \<and> i < b + l then (if i = b then [0x3a] else [])
          else if dots \<and> i = 7 then []
          else (if i = 0 then [] else [0x3a])
            @ (if dots \<and> i = 6 then inet_ntop4 (drop 12 a) else hex_digits (ws ! i))) [0..<8])
        @ (if l > 0 \<and> b + l = 8 then [0x3a] else []))"

text \<open>\<open>%p\<close> and \<open>%02x\<close>.\<close>

definition ptr_str :: "u64 \<Rightarrow> bytes" where
  "ptr_str a = (if a = 0 then lit ''(nil)'' else lit ''0x'' @ hex_digits (unat a))"

definition hex2_str :: "u32 \<Rightarrow> bytes" where
  "hex2_str w = (if w < 16 then [0x30] else []) @ hex_digits (unat w)"

end
