(* ===== verification/Rpc.thy ===== *)
theory Rpc
  imports Ndntlv_Dec Cstd
begin

text \<open>
  The data representation of local RPC messages, \<open>ccnl-pkt/src/ccnl-pkt-localrpc.c\<close>: a tree of
  typed values, its decoding from and its encoding into bytes.

  A node is a \<open>struct rdr_ds_s\<close>. The chain \<open>nextinseq\<close> behind a node is the list it stands in.
  The union \<open>u\<close> is \<open>r_sub\<close> where it holds a pointer and \<open>r_num\<close> where it holds a number;
  \<open>aux\<close> is \<open>r_bytes\<close> where it points to bytes (of which memory, and at which offset) and
  \<open>r_kids\<close> where it points to the first of a chain of nodes.
\<close>

section \<open>Data\<close>

abbreviation (input) LRPC_FLATNAME :: int where "LRPC_FLATNAME \<equiv> 0"
abbreviation (input) LRPC_NONNEGINT :: int where "LRPC_NONNEGINT \<equiv> 1"
abbreviation (input) LRPC_APPLICATION :: int where "LRPC_APPLICATION \<equiv> 2"
abbreviation (input) LRPC_STR :: int where "LRPC_STR \<equiv> 3"
abbreviation (input) LRPC_SEQUENCE :: int where "LRPC_SEQUENCE \<equiv> 4"
abbreviation (input) LRPC_LAMBDA :: int where "LRPC_LAMBDA \<equiv> 5"
abbreviation (input) LRPC_BIN :: int where "LRPC_BIN \<equiv> 6"
abbreviation (input) LRPC_NONCE :: int where "LRPC_NONCE \<equiv> 7"
abbreviation (input) LRPC_PT_REQUEST :: int where "LRPC_PT_REQUEST \<equiv> 0x81"
abbreviation (input) LRPC_PT_REPLY :: int where "LRPC_PT_REPLY \<equiv> 0x82"

datatype rdr = Rdr (r_type: int) (r_flatlen: nat) (r_flat: "nat option") (r_num: u64) (r_sub: "rdr option")
  (r_bytes: "(bytes \<times> nat) option") (r_kids: "rdr list")

section \<open>Lengths\<close>

definition ccnl_lrpc_fieldlen :: "u64 \<Rightarrow> nat" where
  "ccnl_lrpc_fieldlen v = (if v < 253 then 1 else if v \<le> 0xffff then 3 else if v \<le> 0xffffffff then 5 else 9)"

definition ccnl_lrpc_TLlen :: "u64 \<Rightarrow> nat \<Rightarrow> nat" where
  "ccnl_lrpc_TLlen type len = ccnl_lrpc_fieldlen type + ccnl_lrpc_fieldlen (of_nat len)"

text \<open>The sum is a \<open>size_t\<close> and wraps.\<close>

definition ccnl_lrpc_TLVlen :: "int \<Rightarrow> nat \<Rightarrow> nat" where
  "ccnl_lrpc_TLVlen typ n = (ccnl_lrpc_TLlen (of_int typ) n + n) mod 2 ^ 64"

section \<open>Decoding\<close>

definition ccnl_lrpc_varlenint :: "bytes \<Rightarrow> cursor \<Rightarrow> (u64 option \<times> cursor) res" where
  "ccnl_lrpc_varlenint = ccnl_ndntlv_varlenint"

text \<open>Type and length; a length never exceeds \<open>SIZE_MAX\<close> on a 64-bit host.\<close>

definition ccnl_lrpc_dehead :: "bytes \<Rightarrow> cursor \<Rightarrow> ((u64 \<times> nat) option \<times> cursor) res" where
  "ccnl_lrpc_dehead m cur = bindE (ccnl_lrpc_varlenint m cur) (\<lambda>(t, cur1). case t of
      None \<Rightarrow> Inr (None, cur1)
    | Some typ \<Rightarrow> bindE (ccnl_lrpc_varlenint m cur1) (\<lambda>(l, cur2). case l of
        None \<Rightarrow> Inr (None, cur2)
      | Some len \<Rightarrow> Inr (Some (typ, unat len), cur2)))"

definition ccnl_lrpc_nonNegInt :: "bytes \<Rightarrow> nat \<Rightarrow> nat \<Rightarrow> u64 res" where
  "ccnl_lrpc_nonNegInt = ccnl_ndntlv_nonNegInt"

lemma lrpc_varlenint_progress: "ccnl_ndntlv_varlenint m (p, n) = Inr (Some v, (q, k)) \<Longrightarrow> p < q \<and> q + k = p + n"
  by (auto simp: ccnl_ndntlv_varlenint_def bindE_eq_Inr_iff split: if_splits)

lemma lrpc_dehead_progress: "ccnl_lrpc_dehead m (p, n) = Inr (Some (t, l), (q, k)) \<Longrightarrow> p + 2 \<le> q \<and> q + k = p + n"
  by (auto simp: ccnl_lrpc_dehead_def ccnl_lrpc_varlenint_def bindE_eq_Inr_iff dest!: lrpc_varlenint_progress
      split: prod.splits option.splits)

text \<open>\<open>ccnl_rdr_unserialize\<close> only notes the bytes, here the memory \<open>m\<close>, the offset \<open>p\<close> and the
  length \<open>n\<close>; \<open>ccnl_rdr_getType\<close> decodes them. Its result is \<open>Inl\<close> the negative return code, or
  \<open>Inr\<close> the node, whose type a second call returns. The children are decoded with their parent, each
  from what the ones before it left (\<open>rdr_getRest\<close> is the loop).\<close>

definition rdr_leaf :: "int \<Rightarrow> nat \<Rightarrow> nat \<Rightarrow> nat \<Rightarrow> bytes \<Rightarrow> rdr" where
  "rdr_leaf typ p q vallen m = Rdr typ (q - p + vallen) (Some p) (of_nat vallen) None (Some (m, q)) []"

function ccnl_rdr_getType :: "bytes \<Rightarrow> nat \<Rightarrow> nat \<Rightarrow> (int + rdr) res"
  and rdr_getRest :: "bytes \<Rightarrow> nat \<Rightarrow> nat \<Rightarrow> (rdr list option) res" where
  "ccnl_rdr_getType m p n =
    (if n = 0 then Inr (Inl (-2))
     else case ccnl_lrpc_dehead m (p, n) of
         Inl e \<Rightarrow> Inl e
       | Inr (None, cur) \<Rightarrow> Inr (Inl (-3))
       | Inr (Some (typ, vallen), (q, k)) \<Rightarrow>
           if typ > 0x7fffffff then Inr (Inl (-3))
           else if vallen > k then Inr (Inl (-4))
           else let t = uint typ in
             if t = LRPC_NONNEGINT then bindE (ccnl_lrpc_nonNegInt m q vallen) (\<lambda>v.
               Inr (Inr (Rdr LRPC_NONNEGINT (q - p + vallen) (Some p) v None None [])))
             else if t = LRPC_FLATNAME \<or> t = LRPC_BIN \<or> t = LRPC_STR \<or> t = LRPC_NONCE
             then Inr (Inr (rdr_leaf t p q vallen m))
             else if t = LRPC_APPLICATION \<or> t = LRPC_LAMBDA then
               (case ccnl_rdr_getType m q vallen of
                   Inl e \<Rightarrow> Inl e
                 | Inr (Inl rc) \<Rightarrow> Inr (Inl (if t = LRPC_APPLICATION then -5 else -6))
                 | Inr (Inr a) \<Rightarrow>
                     (case rdr_getRest m (q + r_flatlen a) (vallen - r_flatlen a) of
                         Inl e \<Rightarrow> Inl e
                       | Inr None \<Rightarrow> Inr (Inl (-10))
                       | Inr (Some as) \<Rightarrow> Inr (Inr (Rdr t (q - p + r_flatlen a + sum_list (map r_flatlen as)) (Some p)
                           0 (Some a) None as))))
             else if t = LRPC_PT_REQUEST \<or> t = LRPC_PT_REPLY \<or> t = LRPC_SEQUENCE then
               (case rdr_getRest m q vallen of
                   Inl e \<Rightarrow> Inl e
                 | Inr None \<Rightarrow> Inr (Inl (-10))
                 | Inr (Some as) \<Rightarrow> Inr (Inr (Rdr t (q - p + sum_list (map r_flatlen as)) (Some p) 0 None None as)))
             else Inr (Inl (-1)))"
| "rdr_getRest m p n =
    (if n = 0 then Inr (Some [])
     else case ccnl_rdr_getType m p n of
         Inl e \<Rightarrow> Inl e
       | Inr (Inl rc) \<Rightarrow> Inr None
       | Inr (Inr a) \<Rightarrow>
           (case rdr_getRest m (p + r_flatlen a) (n - r_flatlen a) of
               Inl e \<Rightarrow> Inl e
             | Inr None \<Rightarrow> Inr None
             | Inr (Some as) \<Rightarrow> Inr (Some (a # as))))"
  by pat_completeness auto

lemma getType_grows:
  assumes "ccnl_rdr_getType_rdr_getRest_dom (Inl (m, p, n))" and "ccnl_rdr_getType m p n = Inr (Inr a)"
  shows "2 \<le> r_flatlen a"
  using assms(2)
  by (subst (asm) ccnl_rdr_getType.psimps[OF assms(1)])
    (auto simp: bindE_eq_Inr_iff rdr_leaf_def Let_def dest!: lrpc_dehead_progress
       split: if_splits sum.splits prod.splits option.splits)

lemma getType_total: "All ccnl_rdr_getType_rdr_getRest_dom"
  by (relation "measure (\<lambda>x. case x of Inl (m, p, n) \<Rightarrow> 2 * n | Inr (m, p, n) \<Rightarrow> 2 * n + 1)")
    (auto dest!: lrpc_dehead_progress getType_grows)

termination ccnl_rdr_getType
  by (rule getType_total)

declare ccnl_rdr_getType.simps [simp del] rdr_getRest.simps [simp del]

section \<open>Building\<close>

text \<open>\<open>ccnl_calloc\<close>ed nodes: \<open>flat\<close> is NULL.\<close>

definition ccnl_rdr_mkApp :: "rdr option \<Rightarrow> rdr list \<Rightarrow> rdr" where
  "ccnl_rdr_mkApp expr arg = Rdr LRPC_APPLICATION 0 None 0 expr None arg"

definition ccnl_rdr_mkSeq :: rdr where
  "ccnl_rdr_mkSeq = Rdr LRPC_SEQUENCE 0 None 0 None None []"

text \<open>\<open>el\<close> brings its own chain along.\<close>

definition ccnl_rdr_seqAppend :: "rdr option \<Rightarrow> rdr list \<Rightarrow> rdr option" where
  "ccnl_rdr_seqAppend seq el = map_option (\<lambda>s. case s of Rdr t fl f v sub bs kids \<Rightarrow> Rdr t fl f v sub bs (kids @ el)) seq"

definition ccnl_rdr_mkNonNegInt :: "u64 \<Rightarrow> rdr" where
  "ccnl_rdr_mkNonNegInt v = Rdr LRPC_NONNEGINT 0 None v None None []"

definition ccnl_rdr_mkCodePoint :: "u8 \<Rightarrow> rdr" where
  "ccnl_rdr_mkCodePoint cp = Rdr (uint cp) 0 None 0 None None []"

definition ccnl_rdr_mkVar :: "bytes option \<Rightarrow> rdr" where
  "ccnl_rdr_mkVar s = Rdr LRPC_FLATNAME 0 None (case s of None \<Rightarrow> 0 | Some s \<Rightarrow> of_nat (length (c_str s))) None
     (map_option (\<lambda>s. (s, 0)) s) []"

definition ccnl_rdr_mkBin :: "(bytes \<times> nat) option \<Rightarrow> u64 \<Rightarrow> rdr" where
  "ccnl_rdr_mkBin d len = Rdr LRPC_BIN 0 None len None d []"

definition set_type :: "int \<Rightarrow> rdr \<Rightarrow> rdr" where
  "set_type t x = (case x of Rdr _ fl f v sub bs kids \<Rightarrow> Rdr t fl f v sub bs kids)"

definition ccnl_rdr_mkStr :: "bytes option \<Rightarrow> rdr" where
  "ccnl_rdr_mkStr s = set_type LRPC_STR (ccnl_rdr_mkVar s)"

definition ccnl_rdr_mkNonce :: "(bytes \<times> nat) option \<Rightarrow> u64 \<Rightarrow> rdr" where
  "ccnl_rdr_mkNonce d len = set_type LRPC_NONCE (ccnl_rdr_mkBin d len)"

section \<open>Encoding\<close>

text \<open>\<open>do { val = val >> 8; len++; } while (val);\<close>\<close>

function int_bytes :: "u64 \<Rightarrow> nat" where
  "int_bytes v = (if drop_bit 8 v = 0 then 1 else 1 + int_bytes (drop_bit 8 v))"
  by pat_completeness auto

termination int_bytes
proof (relation "measure unat")
  fix v :: u64 assume "drop_bit 8 v \<noteq> 0"
  then have "v \<noteq> 0" by auto
  then have "unat v div 2 ^ 8 < unat v" by (intro div_less_dividend) (simp_all add: unat_gt_0)
  then show "(drop_bit 8 v, v) \<in> measure unat"
    unfolding in_measure unat_drop_bit_eq by (simp add: drop_bit_eq_div)
qed simp

declare int_bytes.simps [simp del]

text \<open>
  \<open>ccnl_rdr_getFlatLen\<close> adds the length of the node to \<open>*flatlen\<close> and notes it in the node; but where
  the node was decoded from bytes, \<open>*flatlen\<close> is set to it, not increased. \<open>Inl Fail\<close> is the return
  code -1. The result is the node and the new \<open>*flatlen\<close>.
\<close>

fun ccnl_rdr_getFlatLen :: "rdr \<Rightarrow> nat \<Rightarrow> (rdr \<times> nat) res"
  and rdr_flatLens :: "rdr list \<Rightarrow> nat \<Rightarrow> (rdr list \<times> nat) res" where
  "ccnl_rdr_getFlatLen (Rdr t fl flat v sub bs kids) acc =
    (let fin = (\<lambda>len sub' kids'. Inr (Rdr t len flat v sub' bs kids', (acc + len) mod 2 ^ 64)) in
     if flat \<noteq> None then Inr (Rdr t fl flat v sub bs kids, fl)
     else if t = LRPC_FLATNAME \<or> t = LRPC_BIN \<or> t = LRPC_STR \<or> t = LRPC_NONCE
       then fin (ccnl_lrpc_TLVlen t (unat v)) sub kids
     else if t = LRPC_NONNEGINT then fin (ccnl_lrpc_TLVlen LRPC_NONNEGINT (int_bytes v)) sub kids
     else if t = LRPC_APPLICATION \<or> t = LRPC_LAMBDA then
       (case sub of
           None \<Rightarrow> Inl Fail
         | Some a \<Rightarrow> bindE (ccnl_rdr_getFlatLen a 0) (\<lambda>(a', len1).
             bindE (rdr_flatLens kids len1) (\<lambda>(kids', len2). fin (ccnl_lrpc_TLVlen t len2) (Some a') kids')))
     else if t = LRPC_PT_REQUEST \<or> t = LRPC_PT_REPLY \<or> t = LRPC_SEQUENCE then
       bindE (rdr_flatLens kids 0) (\<lambda>(kids', len2). fin (ccnl_lrpc_TLVlen t len2) sub kids')
     else Inl Fail)"
| "rdr_flatLens [] acc = Inr ([], acc)"
| "rdr_flatLens (x # xs) acc = bindE (ccnl_rdr_getFlatLen x acc) (\<lambda>(x', acc1).
     bindE (rdr_flatLens xs acc1) (\<lambda>(xs', acc2). Inr (x' # xs', acc2)))"

text \<open>The width marker and the big-endian number behind it, written at \<open>p\<close>; the result is the number of
  bytes.\<close>

definition lrpc_field :: "u64 \<Rightarrow> bytes" where
  "lrpc_field v = (if v < 253 then [ucast v] else if v \<le> 0xffff then 253 # be_bytes 2 v
     else if v \<le> 0xffffffff then 254 # be_bytes 4 v else 255 # be_bytes 8 v)"

definition ccnl_rdr_serialize_fillTorL :: "u64 \<Rightarrow> bytes \<Rightarrow> nat \<Rightarrow> (nat \<times> bytes) res" where
  "ccnl_rdr_serialize_fillTorL v m p = bindE (wrs m p (lrpc_field v)) (\<lambda>m1. Inr (length (lrpc_field v), m1))"

definition ccnl_rdr_serialize_fillTandL :: "int \<Rightarrow> nat \<Rightarrow> bytes \<Rightarrow> nat \<Rightarrow> (nat \<times> bytes) res" where
  "ccnl_rdr_serialize_fillTandL typ len m p =
    bindE (wr m p 0) (\<lambda>m0. bindE (ccnl_rdr_serialize_fillTorL (of_int typ) m0 p) (\<lambda>(i, m1).
      bindE (ccnl_rdr_serialize_fillTorL (of_nat len) m1 (p + i)) (\<lambda>(j, m2). Inr (i + j, m2))))"

text \<open>\<open>memcpy (at, ds->aux, len)\<close>\<close>

definition copy_aux :: "(bytes \<times> nat) option \<Rightarrow> nat \<Rightarrow> bytes \<Rightarrow> nat \<Rightarrow> bytes res" where
  "copy_aux aux len m p = (if len = 0 then Inr m else case aux of
      None \<Rightarrow> Inl Null
    | Some (src, o1) \<Rightarrow> bindE (slice src o1 len) (wrs m p))"

text \<open>\<open>for (len -= 2; len > 0; len--) { *at = val & 0xff; val >>= 8; at--; }\<close> from \<open>at + k - 1\<close> down.\<close>

fun fill_int :: "nat \<Rightarrow> u64 \<Rightarrow> bytes \<Rightarrow> nat \<Rightarrow> bytes res" where
  "fill_int 0 v m p = Inr m"
| "fill_int (Suc k) v m p = bindE (wr m (p + k) (ucast v)) (\<lambda>m1. fill_int k (drop_bit 8 v) m1 p)"

text \<open>
  The routine runs on a tree \<open>ccnl_rdr_getFlatLen\<close> has been called on, so that its own calls only add
  up lengths and change no node (\<open>getFlatLen_again\<close> in \<open>Rpc_Round\<close>). In the cases of an
  application and a lambda they add to \<open>len\<close> before anything was assigned to it: \<open>junk\<close> is what
  that variable holds. The return codes of the calls for the parts are ignored.
\<close>

fun ccnl_rdr_serialize_fill :: "(rdr \<Rightarrow> nat) \<Rightarrow> rdr \<Rightarrow> bytes \<Rightarrow> nat \<Rightarrow> (int \<times> bytes) res"
  and rdr_fills :: "(rdr \<Rightarrow> nat) \<Rightarrow> rdr list \<Rightarrow> bytes \<Rightarrow> nat \<Rightarrow> bytes res" where
  "ccnl_rdr_serialize_fill junk (Rdr t fl flat v sub bs kids) m p =
    (if t = LRPC_FLATNAME \<or> t = LRPC_BIN \<or> t = LRPC_STR \<or> t = LRPC_NONCE then
       bindE (ccnl_rdr_serialize_fillTandL t (unat v) m p) (\<lambda>(i, m1).
         bindE (copy_aux bs (unat v) m1 (p + i)) (\<lambda>m2. Inr (0, m2)))
     else if t = LRPC_NONNEGINT then
       bindE (ccnl_rdr_serialize_fillTandL LRPC_NONNEGINT (wsub fl 2) m p) (\<lambda>(i, m1).
         bindE (fill_int (wsub fl 2) v m1 (p + 2)) (\<lambda>m2. Inr (0, m2)))
     else if t = LRPC_APPLICATION \<or> t = LRPC_LAMBDA then
       (case sub of
           None \<Rightarrow> Inr (-1, m)
         | Some a \<Rightarrow> (case bindE (ccnl_rdr_getFlatLen a (junk (Rdr t fl flat v sub bs kids))) (\<lambda>(a', len1). rdr_flatLens kids len1) of
               Inl e \<Rightarrow> Inr (-1, m)
             | Inr (kids', len) \<Rightarrow>
                 bindE (ccnl_rdr_serialize_fillTandL t len m p) (\<lambda>(i, m1).
                 bindE (ccnl_rdr_serialize_fill junk a m1 (p + i)) (\<lambda>(rc, m2).
                 bindE (rdr_fills junk kids m2 (p + i + r_flatlen a)) (\<lambda>m3. Inr (0, m3))))))
     else if t = LRPC_PT_REQUEST \<or> t = LRPC_PT_REPLY \<or> t = LRPC_SEQUENCE then
       (case rdr_flatLens kids 0 of
           Inl e \<Rightarrow> Inr (-1, m)
         | Inr (kids', len) \<Rightarrow>
             bindE (ccnl_rdr_serialize_fillTandL t len m p) (\<lambda>(i, m1).
             bindE (rdr_fills junk kids m1 (p + i)) (\<lambda>m3. Inr (0, m3))))
     else Inr (-1, m))"
| "rdr_fills junk [] m p = Inr m"
| "rdr_fills junk (x # xs) m p = bindE (ccnl_rdr_serialize_fill junk x m p) (\<lambda>(rc, m1).
     rdr_fills junk xs m1 (p + r_flatlen x))"

text \<open>\<open>len\<close> is not initialised here either. The bytes are written at \<open>p\<close>; the result is \<open>*res\<close> and the memory.\<close>

definition ccnl_rdr_serialize :: "(rdr \<Rightarrow> nat) \<Rightarrow> rdr \<Rightarrow> bytes \<Rightarrow> nat \<Rightarrow> nat \<Rightarrow> (nat \<times> bytes) res" where
  "ccnl_rdr_serialize junk ds m p buflen =
    bindE (ccnl_rdr_getFlatLen ds (junk ds)) (\<lambda>(ds1, len).
      if len > buflen then Inl Fail
      else bindE (ccnl_rdr_serialize_fill junk ds1 m p) (\<lambda>(rc, m1). Inr (len, m1)))"

end
