(* ===== verification/Rpc_Fwd.thy ===== *)
theory Rpc_Fwd
  imports Fwd Rpc
begin

text \<open>
  Local RPC: \<open>ccnl-fwd/src/ccnl-localrpc.c\<close>. A request names a builtin function and its parameters;
  the reply, a sequence of the nonce, a return code, a string and possibly a value, goes back to the face
  the request came from.
\<close>

section \<open>The environment\<close>

text \<open>
  What the code takes from outside of the relay: \<open>rpc_junk\<close> is the contents of the variable \<open>len\<close> that
  the encoder never initialises, \<open>rpc_addr\<close> the address of a node read as a number, \<open>rpc_mem n\<close> the
  \<open>n\<close> bytes of fresh memory \<open>ccnl_malloc\<close> hands out, \<open>rpc_time\<close> the string of \<open>ctime\<close> without its
  line end.
\<close>

record rpc_env =
  rpc_junk :: "rdr \<Rightarrow> nat"
  rpc_addr :: "rdr \<Rightarrow> u64"
  rpc_mem :: "nat \<Rightarrow> bytes"
  rpc_time :: bytes

definition compile_string :: bytes where
  "compile_string = lit ''CCNxDIGEST, DEBUG, DEBUG_MALLOC, ETHERNET, HMAC256, HTTP_STATUS, LOGGING, MGMT, SUITE_CCNB, SUITE_CCNTLV, SUITE_LOCALRPC, SUITE_NDNTLV, UNIXSOCKET, ''"

section \<open>Replies\<close>

text \<open>\<open>nonce->u.binlen\<close> and \<open>nonce->aux\<close> are read whatever node the nonce is: then the union may hold an
  address, and \<open>aux\<close> may point to a node, whose bytes are not known.\<close>

definition union_word :: "rpc_env \<Rightarrow> rdr \<Rightarrow> u64" where
  "union_word env x = (case r_sub x of None \<Rightarrow> r_num x | Some a \<Rightarrow> rpc_addr env a)"

definition aux_ptr :: "rdr \<Rightarrow> (bytes \<times> nat) option" where
  "aux_ptr x = (case r_bytes x of Some b \<Rightarrow> Some b | None \<Rightarrow> if r_kids x = [] then None else Some ([], 0))"

definition rpc_reply :: "rpc_env \<Rightarrow> rdr \<Rightarrow> u64 \<Rightarrow> bytes \<Rightarrow> rdr option \<Rightarrow> rdr" where
  "rpc_reply env nonce rc reason content = Rdr LRPC_SEQUENCE 0 None 0 None None
     ([ccnl_rdr_mkNonce (aux_ptr nonce) (union_word env nonce), ccnl_rdr_mkNonNegInt rc, ccnl_rdr_mkStr (Some reason)]
       @ (case content of None \<Rightarrow> [] | Some c \<Rightarrow> [c]))"

definition ccnl_emit_RpcReturn ::
    "rpc_env \<Rightarrow> relay \<Rightarrow> faceref option \<Rightarrow> rdr \<Rightarrow> u64 \<Rightarrow> bytes \<Rightarrow> rdr option \<Rightarrow> (int \<times> relay) res" where
  "ccnl_emit_RpcReturn env r from1 nonce rc reason content =
    (let room = length reason + 50 in
     case (case content of None \<Rightarrow> Inr room | Some c \<Rightarrow> bindE (ccnl_rdr_getFlatLen c room) (\<lambda>(c', len). Inr len)) of
       Inl e \<Rightarrow> Inr (-1, r)
     | Inr len \<Rightarrow>
         (case ccnl_switch_prependCoding (of_int CCNL_ENC_LOCALRPC) (10, replicate 10 0) of
             Inl e \<Rightarrow> Inr (-1, r)
           | Inr (pos, tmp) \<Rightarrow>
               let sw = drop pos tmp in
               bindE (wrs (rpc_mem env len) 0 sw) (\<lambda>d0.
               case ccnl_rdr_serialize (rpc_junk env) (rpc_reply env nonce rc reason content) d0 (length sw) (wsub len (length sw)) of
                 Inl Fail \<Rightarrow> Inr (-1, r)
               | Inl e \<Rightarrow> Inl e
               | Inr (n, d1) \<Rightarrow> bindE (wr d1 (length sw) (of_int LRPC_PT_REPLY)) (\<lambda>d2.
                   case from1 of
                     None \<Rightarrow> Inl Null
                   | Some f \<Rightarrow> bindE (ccnl_face_enqueue f (Some (take (length sw + n) d2)) r) (\<lambda>(rc, r1). Inr (0, r1))))))"

text \<open>Every builtin function ends with such a reply and returns 0.\<close>

definition rpc_answer :: "rpc_env \<Rightarrow> relay \<Rightarrow> faceref option \<Rightarrow> rdr \<Rightarrow> u64 \<Rightarrow> bytes \<Rightarrow> rdr option \<Rightarrow> (int \<times> relay) res" where
  "rpc_answer env r from1 nonce rc reason content =
    bindE (ccnl_emit_RpcReturn env r from1 nonce rc reason content) (\<lambda>(_, r1). Inr (0, r1))"

section \<open>Builtin functions\<close>

text \<open>The parameters are decoded with the request: \<open>ccnl_rdr_getType\<close> returns their type, and -2 for
  none. \<open>memcpy (cp, param->aux, param->u.strlen)\<close> copies the bytes of a leaf.\<close>

definition param_type :: "rdr list \<Rightarrow> int" where
  "param_type ps = (case ps of [] \<Rightarrow> -2 | x # _ \<Rightarrow> r_type x)"

definition leaf_copy :: "rdr \<Rightarrow> bytes res" where
  "leaf_copy x = (if r_num x = 0 then Inr [] else case r_bytes x of
      None \<Rightarrow> Inl Null
    | Some (m, p) \<Rightarrow> slice m p (unat (r_num x)))"

definition local_from :: "relay \<Rightarrow> faceref option \<Rightarrow> bool res" where
  "local_from r from1 = (case from1 of None \<Rightarrow> Inl Null
    | Some f \<Rightarrow> bindE (face_get r f) (\<lambda>x. Inr (ccnl_is_local_addr (Some (f_peer x)) \<noteq> 0)))"

type_synonym rpcBuiltinFct = "rpc_env \<Rightarrow> hooks \<Rightarrow> relay \<Rightarrow> faceref option \<Rightarrow> rdr \<Rightarrow> rdr list \<Rightarrow> (int \<times> relay) res"

definition rpc_syslog :: rpcBuiltinFct where
  "rpc_syslog env h r from1 nonce ps =
    (if param_type ps = LRPC_STR then bindE (leaf_copy (hd ps)) (\<lambda>cp. rpc_answer env r from1 nonce 200 (lit ''ok'') None)
     else rpc_answer env r from1 nonce 415 (lit ''rpc_syslog: unknown param type'') None)"

definition rpc_cacheAdd :: rpcBuiltinFct where
  "rpc_cacheAdd env h r from1 nonce ps = bindE (local_from r from1) (\<lambda>ok.
     if \<not> ok then rpc_answer env r from1 nonce 403 (lit ''invalid access: non-local address'') None
     else if \<exists>x\<in>set ps. r_type x \<noteq> LRPC_BIN then rpc_answer env r from1 nonce 415 (lit ''invalid or no data'') None
     else rpc_answer env r from1 nonce 415 (lit ''rpc_cacheAdd: not implemented yet'') None)"

text \<open>Every content of exactly this name is removed.\<close>

fun cache_remove_name :: "prefix \<Rightarrow> content list \<Rightarrow> nat \<Rightarrow> relay \<Rightarrow> (nat \<times> relay) res" where
  "cache_remove_name p [] cnt r = Inr (cnt, r)"
| "cache_remove_name p (c # cs) cnt r = (case pkt_pfx (c_pkt c) of
      None \<Rightarrow> Inl Null
    | Some q \<Rightarrow>
        if ccnl_prefix_cmp q None p CMP_EXACT = 0
        then bindE (ccnl_content_remove (c_ref c) r) (cache_remove_name p cs (cnt + 1))
        else cache_remove_name p cs cnt r)"

text \<open>The names before an invalid one have been removed when the error is reported.\<close>

fun cache_remove_loop :: "rdr list \<Rightarrow> nat \<Rightarrow> relay \<Rightarrow> (nat option \<times> relay) res" where
  "cache_remove_loop [] cnt r = Inr (Some cnt, r)"
| "cache_remove_loop (x # xs) cnt r =
    (if r_type x \<noteq> LRPC_FLATNAME then Inr (None, r)
     else bindE (leaf_copy x) (\<lambda>b.
       bindE (cache_remove_name (ccnl_URItoPrefix (c_str b) CCNL_SUITE_NDNTLV None) (rl_contents r) cnt r) (\<lambda>(cnt1, r1).
         cache_remove_loop xs cnt1 r1)))"

definition rpc_cacheRemove :: rpcBuiltinFct where
  "rpc_cacheRemove env h r from1 nonce ps = bindE (local_from r from1) (\<lambda>ok.
     if \<not> ok then rpc_answer env r from1 nonce 403 (lit ''invalid access: non-local address'') None
     else bindE (cache_remove_loop ps 0 r) (\<lambda>(res, r1). case res of
         None \<Rightarrow> rpc_answer env r1 from1 nonce 415 (lit ''rpc_cacheRemove: invalid name'') None
       | Some cnt \<Rightarrow> rpc_answer env r1 from1 nonce 415
           (lit ''rpc_cacheRemove: removed '' @ dec_digits cnt @ lit '' entries'' @ [10]) None))"

text \<open>Every packet goes to the forwarder of the format that was named. Nothing is replied when all have
  been handed over.\<close>

fun forward_params :: "rpc_env \<Rightarrow> hooks \<Rightarrow> dispatchFct \<Rightarrow> faceref option \<Rightarrow> rdr \<Rightarrow> rdr list \<Rightarrow> relay \<Rightarrow> (int \<times> relay) res" where
  "forward_params env h rx from1 nonce [] r = Inr (0, r)"
| "forward_params env h rx from1 nonce (x # xs) r =
    (if r_type x \<noteq> LRPC_BIN then rpc_answer env r from1 nonce 415 (lit ''rpc_forward: invalid or no data'') None
     else case r_bytes x of
         None \<Rightarrow> Inl Null
       | Some (m, p) \<Rightarrow> bindE (rx h r from1 m (p, unat (r_num x))) (\<lambda>(r1, go). forward_params env h rx from1 nonce xs r1))"

definition rpc_encoding :: "bytes \<Rightarrow> dispatchFct option" where
  "rpc_encoding cp =
    (if cp = lit ''/rpc/const/encoding/ccnb'' then Some ccnl_ccnb_forwarder
     else if cp = lit ''/rpc/const/encoding/ccnx2014'' then Some ccnl_ccntlv_forwarder
     else if cp = lit ''/rpc/const/encoding/ndn2013'' then Some ccnl_ndntlv_forwarder
     else None)"

definition rpc_forward :: rpcBuiltinFct where
  "rpc_forward env h r from1 nonce ps =
    (if param_type ps \<noteq> LRPC_FLATNAME
     then rpc_answer env r from1 nonce 415 (lit ''rpc_forward: expected encoding name'') None
     else bindE (leaf_copy (hd ps)) (\<lambda>b. case rpc_encoding (c_str b) of
         None \<Rightarrow> rpc_answer env r from1 nonce 415 (lit ''rpc_forward: no such encoding'') None
       | Some rx \<Rightarrow> forward_params env h rx from1 nonce (tl ps) r))"

definition rpc_lookup :: rpcBuiltinFct where
  "rpc_lookup env h r from1 nonce ps =
    (if param_type ps = LRPC_FLATNAME then bindE (leaf_copy (hd ps)) (\<lambda>b.
       if c_str b = lit ''/rpc/config/compileString''
       then rpc_answer env r from1 nonce 200 (lit ''ok'') (Some (ccnl_rdr_mkStr (Some compile_string)))
       else if c_str b = lit ''/rpc/config/localTime''
       then rpc_answer env r from1 nonce 200 (lit ''ok'') (Some (ccnl_rdr_mkStr (Some (rpc_time env))))
       else rpc_answer env r from1 nonce 415 (lit ''rpc_lookup: no such variable'') None)
     else rpc_answer env r from1 nonce 415 (lit ''rpc_lookup: not a variable name'') None)"

definition builtin :: "(bytes \<times> rpcBuiltinFct) list" where
  "builtin = [(lit ''/rpc/builtin/cache/add'', rpc_cacheAdd), (lit ''/rpc/builtin/cache/remove'', rpc_cacheRemove),
     (lit ''/rpc/builtin/forward'', rpc_forward), (lit ''/rpc/builtin/lookup'', rpc_lookup),
     (lit ''/rpc/builtin/syslog'', rpc_syslog)]"

definition rpc_getBuiltinFct :: "rdr \<Rightarrow> rpcBuiltinFct option res" where
  "rpc_getBuiltinFct var = (if r_type var \<noteq> LRPC_FLATNAME then Inr None
     else bindE (leaf_copy var) (\<lambda>b. Inr (map_of builtin b)))"

section \<open>Requests and replies\<close>

definition ccnl_localrpc_handleReply :: "relay \<Rightarrow> faceref option \<Rightarrow> rdr \<Rightarrow> (int \<times> relay) res" where
  "ccnl_localrpc_handleReply r from1 aux = Inr (0, r)"

text \<open>The first element of a request is the nonce, the second one the application of a name.\<close>

definition ccnl_localrpc_handleRequest :: "rpc_env \<Rightarrow> hooks \<Rightarrow> relay \<Rightarrow> faceref option \<Rightarrow> rdr \<Rightarrow> (int \<times> relay) res" where
  "ccnl_localrpc_handleRequest env h r from1 req = (case r_kids req of
      [] \<Rightarrow> Inr (-1, r)
    | nonce # rest \<Rightarrow>
        let refuse = (\<lambda>rc reason. bindE (ccnl_emit_RpcReturn env r from1 nonce rc reason None) (\<lambda>(_, r1). Inr (-1, r1))) in
        if r_type nonce \<noteq> LRPC_NONCE \<or> param_type rest \<noteq> LRPC_APPLICATION then refuse 404 (lit ''malformed RPC request'')
        else let fexpr = hd rest in
          (case r_sub fexpr of
              None \<Rightarrow> refuse 404 (lit ''only constant fct names supported yet'')
            | Some var \<Rightarrow>
                if r_type var \<noteq> LRPC_FLATNAME then refuse 404 (lit ''only constant fct names supported yet'')
                else bindE (rpc_getBuiltinFct var) (\<lambda>fct. case fct of
                    None \<Rightarrow> refuse 501 (lit ''unknown function'')
                  | Some fct \<Rightarrow> fct env h r from1 nonce (r_kids fexpr))))"

text \<open>One message at the head of the bytes: \<open>None\<close> where the loop is left with -1.\<close>

definition localrpc_message :: "rpc_env \<Rightarrow> hooks \<Rightarrow> relay \<Rightarrow> faceref option \<Rightarrow> bytes \<Rightarrow> cursor \<Rightarrow> (relay \<times> rdr option) res" where
  "localrpc_message env h r from1 m cur = (case cur of (p, n) \<Rightarrow>
     bindE (rd m p) (\<lambda>b.
       if b \<noteq> 0 \<and> b \<noteq> of_int LRPC_PT_REQUEST \<and> b \<noteq> of_int LRPC_PT_REPLY then Inr (r, None)
       else bindE (ccnl_rdr_getType m p n) (\<lambda>a. case a of
           Inl rc \<Rightarrow> Inr (r, None)
         | Inr a \<Rightarrow>
             if r_type a = LRPC_PT_REQUEST then
               bindE (ccnl_localrpc_handleRequest env h r from1 a) (\<lambda>(rc, r1). Inr (r1, Some a))
             else if r_type a = LRPC_PT_REPLY then
               bindE (ccnl_localrpc_handleReply r from1 a) (\<lambda>(rc, r1). Inr (r1, Some a))
             else Inr (r, None))))"

text \<open>\<open>ccnl_rdr_free (a); *buf += a->flatlen;\<close>: behind every message that was handled, its freed node is
  read. The loop has no second round.\<close>

definition ccnl_localrpc_exec :: "rpc_env \<Rightarrow> dispatchFct" where
  "ccnl_localrpc_exec env h r from1 m cur =
    (if snd cur = 0 then Inr (r, Some (m, cur))
     else bindE (localrpc_message env h r from1 m cur) (\<lambda>(r1, a). case a of
         None \<Rightarrow> Inr (r1, None)
       | Some a \<Rightarrow> Inl Uaf))"

end
