(* ===== verification/Dispatch.thy ===== *)
theory Dispatch
  imports Rpc_Fwd
begin

text \<open>
  The dispatcher, \<open>ccnl-fwd/src/ccnl-dispatch.c\<close>: the table of packet formats and the loop that
  takes a received frame apart.
\<close>

type_synonym suite_table = "int \<Rightarrow> dispatchFct option"

text \<open>The static table (of the receiving functions; \<open>cMatch\<close> is not used) before \<open>ccnl_core_init\<close>.\<close>

definition ccnl_core_suites :: suite_table where
  "ccnl_core_suites = (\<lambda>_. None)"

definition ccnl_core_init :: "rpc_env \<Rightarrow> suite_table" where
  "ccnl_core_init env = ccnl_core_suites
     (CCNL_SUITE_CCNB := Some ccnl_ccnb_forwarder, CCNL_SUITE_CCNTLV := Some ccnl_ccntlv_forwarder,
      CCNL_SUITE_LOCALRPC := Some (ccnl_localrpc_exec env), CCNL_SUITE_NDNTLV := Some ccnl_ndntlv_forwarder)"

text \<open>\<open>while (!ccnl_switch_dehead (&data, &datalen, &enc)) suite = ccnl_enc2suite (enc);\<close> is the loop
  of \<open>ccnl_pkt2suite\<close>, here with the suite found before. The loop over the packets of the frame has
  fuel, one unit a round; the suite is kept from one round to the next.\<close>

fun rx_loop :: "nat \<Rightarrow> suite_table \<Rightarrow> hooks \<Rightarrow> relay \<Rightarrow> faceref \<Rightarrow> int \<Rightarrow> bytes \<Rightarrow> cursor \<Rightarrow> relay res" where
  "rx_loop 0 tab h r f suite m (p, n) = (if n = 0 then Inr r else Inl Diverge)"
| "rx_loop (Suc fuel) tab h r f suite m (p, n) =
    (if n = 0 then Inr r
     else bindE (pkt2suite_loop m (p, n) suite) (\<lambda>(suite1, (p1, n1)).
       bindE (if suite1 = -1 then bindE (ccnl_pkt2suite m p1 n1) (\<lambda>(s, skip). Inr s) else Inr suite1) (\<lambda>suite2.
         if \<not> ccnl_isSuite suite2 then Inr r
         else case tab suite2 of
             None \<Rightarrow> Inr r
           | Some rx \<Rightarrow> bindE (rx h r (Some f) m (p1, n1)) (\<lambda>(r1, go). case go of
               None \<Rightarrow> Inr r1
             | Some (m1, cur1) \<Rightarrow> rx_loop fuel tab h r1 f suite2 m1 cur1))))"

text \<open>Two rounds for every byte and two more are enough (\<open>Dispatch_Inv\<close>).\<close>

definition rx_fuel :: "nat \<Rightarrow> nat" where
  "rx_fuel n = 2 * n + 2"

text \<open>\<open>data\<close> is the receive buffer, of which the frame is the first \<open>datalen\<close> bytes.\<close>

definition ccnl_core_RX ::
    "suite_table \<Rightarrow> hooks \<Rightarrow> relay \<Rightarrow> int \<Rightarrow> bytes \<Rightarrow> nat \<Rightarrow> sockunion option \<Rightarrow> relay res" where
  "ccnl_core_RX tab h r ifndx data datalen sa =
    bindE (if ifndx \<ge> 0 then
             if nat ifndx < length (rl_ifs r)
             then Inr (if_upd (nat ifndx) (\<lambda>i. i\<lparr>if_rx_cnt := if_rx_cnt i + 1\<rparr>) r) else Inl Oob
           else Inr r)
      (\<lambda>r1. bindE (ccnl_get_face_or_create r1 ifndx sa) (\<lambda>(from1, r2). case from1 of
          None \<Rightarrow> Inr r2
        | Some f \<Rightarrow> rx_loop (rx_fuel datalen) tab h r2 f (-1) data (0, datalen)))"

end
