(* ===== verification/Relay_Inv.thy ===== *)
theory Relay_Inv
  imports Tables
begin

text \<open>
  What the relay keeps true between two events: its well-formedness (\<open>relay_wf\<close>), the contract
  its reference-keyed tables share (the locale \<open>ref_table\<close>, interpreted on the pending
  interests and on the content store), and what sending a packet does to a well-formed relay.
\<close>

section \<open>Well-formed relays\<close>

definition face_ids :: "relay \<Rightarrow> faceref set" where
  "face_ids r = f_faceid ` set (rl_faces r)"

text \<open>Faces packets can be sent to: the local client has no interface.\<close>

definition out_faces :: "relay \<Rightarrow> faceref set" where
  "out_faces r = f_faceid ` {f \<in> set (rl_faces r). 0 \<le> f_ifndx f}"

text \<open>Every face has an interface.\<close>

definition all_out :: "relay \<Rightarrow> bool" where
  "all_out r \<longleftrightarrow> face_ids r \<subseteq> out_faces r"

lemma all_out_updates [simp]:
  "all_out (r\<lparr>rl_fib := x1\<rparr>) = all_out r" "all_out (r\<lparr>rl_pit := x2\<rparr>) = all_out r"
  "all_out (r\<lparr>rl_contents := x3\<rparr>) = all_out r" "all_out (r\<lparr>rl_nonces := x4\<rparr>) = all_out r"
  "all_out (r\<lparr>rl_contentcnt := x5\<rparr>) = all_out r" "all_out (r\<lparr>rl_pitcnt := x6\<rparr>) = all_out r"
  "all_out (r\<lparr>rl_ifs := x7\<rparr>) = all_out r" "all_out (r\<lparr>rl_ifcount := x8\<rparr>) = all_out r"
  "all_out (r\<lparr>rl_fresh := x9\<rparr>) = all_out r" "all_out (r\<lparr>rl_now := x10\<rparr>) = all_out r"
  by (simp_all add: all_out_def face_ids_def out_faces_def)

lemma all_out_tables [simp]:
  "all_out (pit_upd i g r) = all_out r" "all_out (cs_upd j k r) = all_out r" "all_out (if_upd n m r) = all_out r"
  by (simp_all add: pit_upd_def cs_upd_def if_upd_def)

lemma all_out_cong: "face_ids r' = face_ids r \<Longrightarrow> out_faces r' = out_faces r \<Longrightarrow> all_out r' = all_out r"
  by (simp add: all_out_def)

definition faces_wf :: "relay \<Rightarrow> bool" where
  "faces_wf r \<longleftrightarrow> distinct (map f_faceid (rl_faces r))
     \<and> (\<forall>f\<in>set (rl_faces r). f_faceid f \<le> rl_seqno r \<and> f_outq f = [] \<and> f_ifndx f < int (length (rl_ifs r)))"

definition ifs_wf :: "relay \<Rightarrow> bool" where
  "ifs_wf r \<longleftrightarrow> (\<forall>i\<in>set (rl_ifs r). if_qlen i = 0 \<and> if_qfront i < CCNL_MAX_IF_QLEN
     \<and> length (if_queue i) = CCNL_MAX_IF_QLEN) \<and> rl_ifcount r \<le> length (rl_ifs r)
     \<and> CCNL_MAX_INTERFACES \<le> length (rl_ifs r)"

definition pkt_wf :: "pkt \<Rightarrow> bool" where
  "pkt_wf p \<longleftrightarrow> pkt_pfx p \<noteq> None \<and> pkt_buf p \<noteq> None"

definition interest_wf :: "faceref set \<Rightarrow> interest \<Rightarrow> bool" where
  "interest_wf ids i \<longleftrightarrow> distinct (map pi_face (i_pending i)) \<and> pi_face ` set (i_pending i) \<subseteq> ids
     \<and> set_option (i_from i) \<subseteq> ids \<and> pkt_wf (i_pkt i)"

definition pit_wf :: "relay \<Rightarrow> bool" where
  "pit_wf r \<longleftrightarrow> distinct (map i_ref (rl_pit r)) \<and> (\<forall>i\<in>set (rl_pit r). i_ref i < rl_fresh r)
     \<and> rl_pitcnt r = int (length (rl_pit r)) \<and> (\<forall>i\<in>set (rl_pit r). interest_wf (face_ids r) i)
     \<and> (rl_max_pit_entries r < 0 \<or> int (length (rl_pit r)) \<le> rl_max_pit_entries r)"

definition fib_wf :: "relay \<Rightarrow> bool" where
  "fib_wf r \<longleftrightarrow> (\<forall>fw\<in>set (rl_fib r). fw_prefix fw \<noteq> None \<and> set_option (fw_face fw) \<subseteq> out_faces r)"

definition pkt_name :: "pkt \<Rightarrow> bytes list \<times> u32 option" where
  "pkt_name p = (case pkt_pfx p of None \<Rightarrow> ([], None) | Some q \<Rightarrow> (pfx_comp q, pfx_chunknum q))"

definition cs_wf :: "relay \<Rightarrow> bool" where
  "cs_wf r \<longleftrightarrow> distinct (map c_ref (rl_contents r)) \<and> (\<forall>c\<in>set (rl_contents r). c_ref c < rl_fresh r)
     \<and> rl_contentcnt r = int (length (rl_contents r)) \<and> (\<forall>c\<in>set (rl_contents r). pkt_wf (c_pkt c))
     \<and> distinct (map (pkt_name \<circ> c_pkt) (rl_contents r))
     \<and> (rl_max_cache_entries r \<le> 0 \<or> int (length (rl_contents r)) \<le> rl_max_cache_entries r + 1)"

definition nonces_wf :: "relay \<Rightarrow> bool" where
  "nonces_wf r \<longleftrightarrow> distinct (rl_nonces r) \<and> length (rl_nonces r) \<le> CCNL_MAX_NONCES"

definition relay_wf :: "relay \<Rightarrow> bool" where
  "relay_wf r \<longleftrightarrow> faces_wf r \<and> ifs_wf r \<and> pit_wf r \<and> fib_wf r \<and> cs_wf r \<and> nonces_wf r"

lemmas relay_wf_defs = relay_wf_def faces_wf_def ifs_wf_def pit_wf_def fib_wf_def cs_wf_def nonces_wf_def

section \<open>References\<close>

text \<open>
  The tables share a contract: objects with distinct keys, read through a reference (a dangling one
  is \<open>Uaf\<close>) and removed by it.
\<close>

primrec rem_seq :: "(nat \<Rightarrow> relay \<Rightarrow> relay res) \<Rightarrow> nat list \<Rightarrow> relay \<Rightarrow> relay res" where
  "rem_seq rem1 [] r = Inr r"
| "rem_seq rem1 (k # ks) r = bindE (rem1 k r) (rem_seq rem1 ks)"

locale ref_table =
  fixes objs :: "relay \<Rightarrow> 'e list"
    and key :: "'e \<Rightarrow> nat"
    and get :: "relay \<Rightarrow> nat \<Rightarrow> 'e res"
    and rem :: "nat \<Rightarrow> relay \<Rightarrow> relay res"
    and inv1 :: "relay \<Rightarrow> bool"
  assumes get_member: "inv1 r \<Longrightarrow> e \<in> set (objs r) \<Longrightarrow> get r (key e) = Inr e"
    and get_dangling: "k \<notin> key ` set (objs r) \<Longrightarrow> get r k = Inl Uaf"
    and rem_member: "inv1 r \<Longrightarrow> e \<in> set (objs r) \<Longrightarrow>
      \<exists>r'. rem (key e) r = Inr r' \<and> inv1 r' \<and> objs r' = filter (\<lambda>x. key x \<noteq> key e) (objs r)"
    and distinct_keys: "inv1 r \<Longrightarrow> distinct (map key (objs r))"
begin

lemma get_Inr_iff:
  assumes "inv1 r"
  shows "get r k = Inr e \<longleftrightarrow> e \<in> set (objs r) \<and> key e = k"
proof
  assume g: "get r k = Inr e"
  then obtain e' where "e' \<in> set (objs r)" "key e' = k"
    using get_dangling[of k r] by fastforce
  then show "e \<in> set (objs r) \<and> key e = k" using g get_member[OF assms, of e'] by auto
qed (use get_member[OF assms] in auto)

lemma rem_gone:
  assumes "inv1 r" and "e \<in> set (objs r)" and "rem (key e) r = Inr r'"
  shows "get r' (key e) = Inl Uaf"
proof -
  have "objs r' = filter (\<lambda>x. key x \<noteq> key e) (objs r)" using rem_member[OF assms(1,2)] assms(3) by simp
  then have "key e \<notin> key ` set (objs r')" by force
  then show ?thesis by (rule get_dangling)
qed

lemma rem_seq_sub:
  "inv1 r \<Longrightarrow> set es \<subseteq> set (objs r) \<Longrightarrow> distinct (map key es) \<Longrightarrow>
    \<exists>r'. rem_seq rem (map key es) r = Inr r' \<and> inv1 r' \<and> objs r' = filter (\<lambda>x. key x \<notin> key ` set es) (objs r)"
proof (induction es arbitrary: r)
  case Nil
  then show ?case by simp
next
  case (Cons e es)
  then obtain r1 where r1: "rem (key e) r = Inr r1" "inv1 r1" "objs r1 = filter (\<lambda>x. key x \<noteq> key e) (objs r)"
    using rem_member[of r e] by auto
  have "key e \<notin> key ` set es" using Cons.prems(3) by simp
  then have "\<forall>x\<in>set es. key x \<noteq> key e" by (metis image_eqI)
  then have "set es \<subseteq> set (objs r1)" using Cons.prems r1 by auto
  then obtain r' where "rem_seq rem (map key es) r1 = Inr r'" "inv1 r'" "objs r' = filter (\<lambda>x. key x \<notin> key ` set es) (objs r1)"
    using Cons.IH[of r1] Cons.prems r1 by auto
  then show ?case using r1 by (auto intro: filter_cong)
qed

lemma rem_seq_empties: "inv1 r \<Longrightarrow> \<exists>r'. rem_seq rem (map key (objs r)) r = Inr r' \<and> inv1 r' \<and> objs r' = []"
  using rem_seq_sub[of r "objs r"] distinct_keys by auto

end

lemma int_filter_le: "int (length xs) \<le> n \<Longrightarrow> int (length (filter P xs)) \<le> n"
  using length_filter_le[of P xs] by linarith

lemma find_key: "distinct (map k xs) \<Longrightarrow> x \<in> set xs \<Longrightarrow> find (\<lambda>y. k y = k x) xs = Some x"
  by (induction xs) auto

lemma find_key_None: "a \<notin> k ` set xs \<Longrightarrow> find (\<lambda>y. k y = a) xs = None"
  by (induction xs) auto

lemma length_filter_key:
  "distinct (map k xs) \<Longrightarrow> x \<in> set xs \<Longrightarrow> length xs = Suc (length (filter (\<lambda>y. k y \<noteq> k x) xs))"
proof (induction xs)
  case (Cons a xs)
  show ?case
  proof (cases "a = x")
    case True
    then have "k x \<notin> k ` set xs" using Cons.prems by simp
    then have "\<forall>y\<in>set xs. k y \<noteq> k x" by (metis image_eqI)
    then have "filter (\<lambda>y. k y \<noteq> k x) xs = xs" by (simp add: filter_id_conv)
    then show ?thesis using True by simp
  next
    case False
    then have "k a \<noteq> k x" "x \<in> set xs" using Cons.prems by auto
    then show ?thesis using Cons by simp
  qed
qed simp

lemma key_split:
  assumes "distinct (map k (ds @ x # es))"
  shows "map (\<lambda>y. if k y = k x then g y else y) (ds @ x # es) = ds @ g x # es"
    and "filter (\<lambda>y. k y \<noteq> k x) (ds @ x # es) = ds @ es"
    and "find (\<lambda>y. k y = k x) (ds @ x # es) = Some x"
proof -
  have n: "\<forall>y\<in>set ds \<union> set es. k y \<noteq> k x" using assms by (auto simp: rev_image_eqI)
  then show "map (\<lambda>y. if k y = k x then g y else y) (ds @ x # es) = ds @ g x # es"
    by (auto intro!: map_idI)
  show "filter (\<lambda>y. k y \<noteq> k x) (ds @ x # es) = ds @ es"
    using n by (simp add: filter_id_conv)
  show "find (\<lambda>y. k y = k x) (ds @ x # es) = Some x"
    using find_key[OF assms, of x] by simp
qed

interpretation pit: ref_table rl_pit i_ref pit_get ccnl_interest_remove pit_wf
proof (rule ref_table.intro)
  fix r e assume wf: "pit_wf r" and e: "e \<in> set (rl_pit r)"
  then show g: "pit_get r (i_ref e) = Inr e" by (simp add: pit_get_def pit_wf_def find_key)
  have "int (length (rl_pit r)) - 1 = int (length (filter (\<lambda>x. i_ref x \<noteq> i_ref e) (rl_pit r)))"
    using wf e length_filter_key[of i_ref "rl_pit r" e] by (simp add: pit_wf_def)
  then show "\<exists>r'. ccnl_interest_remove (i_ref e) r = Inr r' \<and> pit_wf r' \<and>
      rl_pit r' = filter (\<lambda>x. i_ref x \<noteq> i_ref e) (rl_pit r)"
    using wf g by (auto simp: ccnl_interest_remove_def pit_wf_def face_ids_def distinct_map_filter)
qed (auto simp: pit_get_def pit_wf_def find_key_None)

interpretation cs: ref_table rl_contents c_ref cs_get ccnl_content_remove cs_wf
proof (rule ref_table.intro)
  fix r e assume wf: "cs_wf r" and e: "e \<in> set (rl_contents r)"
  then show g: "cs_get r (c_ref e) = Inr e" by (simp add: cs_get_def cs_wf_def find_key)
  have "int (length (rl_contents r)) - 1 = int (length (filter (\<lambda>x. c_ref x \<noteq> c_ref e) (rl_contents r)))"
    using wf e length_filter_key[of c_ref "rl_contents r" e] by (simp add: cs_wf_def)
  then show "\<exists>r'. ccnl_content_remove (c_ref e) r = Inr r' \<and> cs_wf r' \<and>
      rl_contents r' = filter (\<lambda>x. c_ref x \<noteq> c_ref e) (rl_contents r)"
    using wf g by (auto simp: ccnl_content_remove_def cs_wf_def distinct_map_filter)
qed (auto simp: cs_get_def cs_wf_def find_key_None)

section \<open>Sending\<close>

lemma face_get_member: "faces_wf r \<Longrightarrow> f \<in> set (rl_faces r) \<Longrightarrow> face_get r (f_faceid f) = Inr f"
  by (simp add: face_get_def faces_wf_def find_key)

lemma face_get_Uaf: "i \<notin> face_ids r \<Longrightarrow> face_get r i = Inl Uaf"
  by (simp add: face_get_def face_ids_def find_key_None)

lemma face_get_Inr:
  assumes "face_get r i = Inr f"
  shows "f \<in> set (rl_faces r) \<and> f_faceid f = i"
  using assms by (auto simp: face_get_def find_Some_iff split: option.split_asm)

lemma face_ids_get: "i \<in> face_ids r \<Longrightarrow> faces_wf r \<Longrightarrow> \<exists>f. face_get r i = Inr f"
  by (auto simp: face_ids_def face_get_member)

text \<open>A packet handed to the link layer: the ring of the interface moves on by one slot.\<close>

definition transmit :: "nat \<Rightarrow> sockunion \<Rightarrow> faceref \<Rightarrow> bytes \<Rightarrow> relay \<Rightarrow> relay" where
  "transmit n dst f b r =
    (if_upd n (\<lambda>i. i\<lparr>if_queue := (if_queue i)[if_qfront i := \<lparr>tx_buf = b, tx_dst = dst, tx_face = f\<rparr>],
        if_tx_cnt := if_tx_cnt i + 1, if_qfront := (if_qfront i + 1) mod CCNL_MAX_IF_QLEN\<rparr>) r)
      \<lparr>rl_tx := rl_tx r @ [(n, dst, b)]\<rparr>"

lemma interface_enqueue_wf:
  assumes "ifs_wf r" and "n < length (rl_ifs r)"
  shows "ccnl_interface_enqueue f (int n) b dst r = Inr (transmit n dst f b r)"
proof -
  let ?i = "rl_ifs r ! n"
  have i: "if_qlen ?i = 0" "if_qfront ?i < 64" "length (if_queue ?i) = 64"
    using assms by (auto simp: ifs_wf_def)
  have e: "?i\<lparr>if_queue := q, if_tx_cnt := c, if_qfront := k, if_qlen := 0\<rparr> = ?i\<lparr>if_queue := q, if_tx_cnt := c, if_qfront := k\<rparr>" for q c k
    using i(1) by (cases ?i) simp
  show ?thesis
    using i assms by (simp add: e ccnl_interface_enqueue_def ccnl_interface_CTS_def if_upd_def transmit_def Let_def)
qed

lemma face_upd_queue_id:
  assumes "faces_wf r"
  shows "face_upd i (\<lambda>f. f\<lparr>f_outq := []\<rparr>) (face_upd i (\<lambda>f. f\<lparr>f_outq := f_outq f @ [b]\<rparr>) r) = r"
proof -
  have "map (\<lambda>f. if f_faceid f = i then f\<lparr>f_outq := []\<rparr> else f)
      (map (\<lambda>f. if f_faceid f = i then f\<lparr>f_outq := f_outq f @ [b]\<rparr> else f) (rl_faces r)) = rl_faces r"
    using assms by (auto simp: faces_wf_def intro!: map_idI)
  then show ?thesis by (simp add: face_upd_def)
qed

lemma send_pkt_wf:
  assumes wf: "faces_wf r" "ifs_wf r" and f: "f \<in> set (rl_faces r)" "0 \<le> f_ifndx f"
    and b: "pkt_buf p = Some b"
  shows "ccnl_send_pkt (f_faceid f) p r = Inr (0, transmit (nat (f_ifndx f)) (f_peer f) (f_faceid f) b r)"
proof -
  let ?i = "f_faceid f"
  let ?r = "face_upd ?i (\<lambda>f. f\<lparr>f_outq := f_outq f @ [b]\<rparr>) r"
  have q: "f_outq f = []" "f_ifndx f < int (length (rl_ifs r))" using wf f by (auto simp: faces_wf_def)
  have g: "face_get r ?i = Inr f" using wf f by (simp add: face_get_member)
  have "find (\<lambda>x. f_faceid x = ?i) (map (\<lambda>x. if f_faceid x = ?i then x\<lparr>f_outq := f_outq x @ [b]\<rparr> else x) fs)
      = map_option (\<lambda>x. x\<lparr>f_outq := f_outq x @ [b]\<rparr>) (find (\<lambda>x. f_faceid x = ?i) fs)" for fs :: "face list"
    by (induction fs) auto
  then have "face_get ?r ?i = Inr (f\<lparr>f_outq := [b]\<rparr>)"
    using g q by (auto simp: face_get_def face_upd_def split: option.splits)
  moreover have "face_upd ?i (\<lambda>f. f\<lparr>f_outq := []\<rparr>) ?r = r" using wf(1) by (rule face_upd_queue_id)
  ultimately show ?thesis
    using q g b interface_enqueue_wf[of r "nat (f_ifndx f)" ?i b "f_peer f"] wf f
    by (simp add: ccnl_send_pkt_def ccnl_face_enqueue_def ccnl_face_CTS_def ccnl_face_dequeue_def)
qed

text \<open>What \<open>transmit\<close> leaves alone.\<close>

lemma transmit_simps [simp]:
  "rl_faces (transmit n d f b r) = rl_faces r" "rl_fib (transmit n d f b r) = rl_fib r"
  "rl_pit (transmit n d f b r) = rl_pit r" "rl_contents (transmit n d f b r) = rl_contents r"
  "rl_nonces (transmit n d f b r) = rl_nonces r" "rl_contentcnt (transmit n d f b r) = rl_contentcnt r"
  "rl_pitcnt (transmit n d f b r) = rl_pitcnt r" "rl_seqno (transmit n d f b r) = rl_seqno r"
  "rl_max_cache_entries (transmit n d f b r) = rl_max_cache_entries r"
  "rl_max_pit_entries (transmit n d f b r) = rl_max_pit_entries r"
  "rl_fresh (transmit n d f b r) = rl_fresh r" "rl_now (transmit n d f b r) = rl_now r"
  "rl_ifcount (transmit n d f b r) = rl_ifcount r" "rl_taps (transmit n d f b r) = rl_taps r"
  "length (rl_ifs (transmit n d f b r)) = length (rl_ifs r)"
  "rl_tx (transmit n d f b r) = rl_tx r @ [(n, d, b)]"
  by (simp_all add: transmit_def if_upd_def)

lemma transmit_ids [simp]:
  "face_ids (transmit n d f b r) = face_ids r" "out_faces (transmit n d f b r) = out_faces r"
  by (simp_all add: face_ids_def out_faces_def)

lemma transmit_ifs_wf: "ifs_wf r \<Longrightarrow> n < length (rl_ifs r) \<Longrightarrow> ifs_wf (transmit n d f b r)"
  by (auto simp: ifs_wf_def transmit_def if_upd_def dest!: set_update_subset_insert[THEN subsetD])

lemma transmit_wf: "relay_wf r \<Longrightarrow> n < length (rl_ifs r) \<Longrightarrow> relay_wf (transmit n d f b r)"
  using transmit_ifs_wf[of r n d f b]
  by (auto simp: relay_wf_def faces_wf_def pit_wf_def fib_wf_def cs_wf_def nonces_wf_def)

end
