(* ===== verification/Relay_Faces.thy ===== *)
theory Relay_Faces
  imports Relay_Inv
begin

text \<open>
  The face table: removing a face leaves a well-formed relay without any reference to it, and
  looking a face up by its address finds the same face again or makes exactly one.
\<close>

section \<open>Removing a face\<close>

lemma drop_face_simps [simp]:
  "i_ref (drop_face f i) = i_ref i" "i_pkt (drop_face f i) = i_pkt i"
  "i_pending (drop_face f i) = filter (\<lambda>q. pi_face q \<noteq> f) (i_pending i)"
  "i_lifetime (drop_face f i) = i_lifetime i" "i_last_used (drop_face f i) = i_last_used i"
  "i_retries (drop_face f i) = i_retries i"
  by (simp_all add: drop_face_def)

lemma drop_face_wf: "interest_wf ids i \<Longrightarrow> interest_wf (ids - {f}) (drop_face f i)"
  by (auto simp: interest_wf_def drop_face_def distinct_map_filter split: if_splits)

definition pit_without :: "faceref \<Rightarrow> interest list \<Rightarrow> interest list" where
  "pit_without f is = filter (\<lambda>i. i_pending i \<noteq> []) (map (drop_face f) is)"

lemma face_remove_pit_wf:
  "rl_pit r = ds @ es \<Longrightarrow> distinct (map i_ref (ds @ es)) \<Longrightarrow> rl_pitcnt r = int (length (ds @ es)) \<Longrightarrow>
    face_remove_pit f es r = Inr (r\<lparr>rl_pit := ds @ pit_without f es,
      rl_pitcnt := int (length (ds @ pit_without f es))\<rparr>)"
proof (induction es arbitrary: ds r)
  case Nil
  then show ?case by (simp add: pit_without_def)
next
  case (Cons i es)
  define i' where "i' = drop_face f i"
  define r1 where "r1 = pit_upd (i_ref i) (drop_face f) r"
  have ref: "i_ref i' = i_ref i" by (simp add: i'_def)
  have d: "distinct (map i_ref (ds @ i' # es))" using Cons.prems(2) ref by simp
  have r1: "rl_pit r1 = ds @ i' # es" "rl_pitcnt r1 = int (length (ds @ i' # es))"
    using Cons.prems key_split(1)[OF Cons.prems(2)] by (simp_all add: r1_def i'_def pit_upd_def)
  have un: "r1\<lparr>rl_pit := p, rl_pitcnt := c\<rparr> = r\<lparr>rl_pit := p, rl_pitcnt := c\<rparr>" for p c
    by (simp add: r1_def pit_upd_def)
  have pw: "pit_without f (i # es) = (if i_pending i' \<noteq> [] then [i'] else []) @ pit_without f es"
    by (simp add: pit_without_def i'_def)
  show ?case
  proof (cases "i_pending i' = []")
    case False
    then show ?thesis
      using Cons.IH[of r1 "ds @ [i']"] r1 d False un pw by (simp add: r1_def[symmetric] i'_def[symmetric] Let_def)
  next
    case True
    have "ccnl_interest_remove (i_ref i') r1 = Inr (r1\<lparr>rl_pit := ds @ es, rl_pitcnt := int (length (ds @ es))\<rparr>)"
      using key_split(2,3)[OF d] r1 by (simp add: ccnl_interest_remove_def pit_get_def)
    moreover have "face_remove_pit f es (r1\<lparr>rl_pit := ds @ es, rl_pitcnt := int (length (ds @ es))\<rparr>)
        = Inr (r\<lparr>rl_pit := ds @ pit_without f es, rl_pitcnt := int (length (ds @ pit_without f es))\<rparr>)"
      using Cons.IH[of "r1\<lparr>rl_pit := ds @ es, rl_pitcnt := int (length (ds @ es))\<rparr>" ds] d un by simp
    ultimately show ?thesis
      using True un pw ref by (simp add: r1_def[symmetric] i'_def[symmetric] Let_def)
  qed
qed

text \<open>A relay without the face and without anything that refers to it.\<close>

definition without_face :: "faceref \<Rightarrow> relay \<Rightarrow> relay" where
  "without_face f r = r\<lparr>rl_pit := pit_without f (rl_pit r),
     rl_pitcnt := int (length (pit_without f (rl_pit r))),
     rl_fib := filter (\<lambda>fw. fw_face fw \<noteq> Some f) (rl_fib r),
     rl_faces := filter (\<lambda>x. f_faceid x \<noteq> f) (rl_faces r)\<rparr>"

lemma face_remove_eq:
  assumes "relay_wf r" and "f \<in> face_ids r"
  shows "\<exists>f2. ccnl_face_remove f r = Inr (f2, without_face f r)"
proof -
  obtain x where "face_get r f = Inr x" using assms face_ids_get by (auto simp: relay_wf_def)
  moreover have "face_remove_pit f (rl_pit r) r = Inr (r\<lparr>rl_pit := pit_without f (rl_pit r),
      rl_pitcnt := int (length (pit_without f (rl_pit r)))\<rparr>)"
    using assms(1) face_remove_pit_wf[of r "[]" "rl_pit r" f] by (simp add: relay_wf_def pit_wf_def)
  ultimately show ?thesis by (simp add: ccnl_face_remove_def without_face_def Let_def)
qed

lemma without_face_ids:
  "face_ids (without_face f r) = face_ids r - {f}" "out_faces (without_face f r) = out_faces r - {f}"
  by (auto simp: without_face_def face_ids_def out_faces_def)

lemma distinct_filter_map: "distinct (map k xs) \<Longrightarrow> (\<And>x. k (g x) = k x) \<Longrightarrow> distinct (map k (filter P (map g xs)))"
  by (simp add: distinct_map_filter comp_def)

lemma without_face_wf:
  assumes wf: "relay_wf r"
  shows "relay_wf (without_face f r)"
proof -
  have "pit_wf (without_face f r)"
    using wf drop_face_wf[of "face_ids r" _ f]
    by (auto simp: relay_wf_def pit_wf_def without_face_ids)
       (auto simp: without_face_def pit_without_def distinct_filter_map intro: int_filter_le)
  moreover have "fib_wf (without_face f r)"
    using wf by (auto simp: relay_wf_def fib_wf_def without_face_ids) (auto simp: without_face_def)
  moreover have "faces_wf (without_face f r) \<and> ifs_wf (without_face f r) \<and> cs_wf (without_face f r) \<and> nonces_wf (without_face f r)"
    using wf by (auto simp: relay_wf_defs without_face_def distinct_map_filter)
  ultimately show ?thesis by (simp add: relay_wf_def)
qed

definition face_drop :: "faceref \<Rightarrow> relay \<Rightarrow> relay res" where
  "face_drop f r = bindE (ccnl_face_remove f r) (\<lambda>(f2, r1). Inr r1)"

interpretation faces: ref_table rl_faces f_faceid face_get face_drop relay_wf
proof (rule ref_table.intro)
  fix r e assume wf: "relay_wf r" and e: "e \<in> set (rl_faces r)"
  then show "face_get r (f_faceid e) = Inr e" by (simp add: face_get_member relay_wf_def)
  obtain f2 where "ccnl_face_remove (f_faceid e) r = Inr (f2, without_face (f_faceid e) r)"
    using face_remove_eq[OF wf, of "f_faceid e"] e by (auto simp: face_ids_def)
  then show "\<exists>r'. face_drop (f_faceid e) r = Inr r' \<and> relay_wf r' \<and>
      rl_faces r' = filter (\<lambda>x. f_faceid x \<noteq> f_faceid e) (rl_faces r)"
    using without_face_wf[OF wf] by (simp add: face_drop_def) (simp add: without_face_def)
next
  fix r :: relay and k assume "k \<notin> f_faceid ` set (rl_faces r)"
  then show "face_get r k = Inl Uaf" by (simp add: face_get_Uaf face_ids_def)
qed (simp add: relay_wf_def faces_wf_def)

section \<open>Finding or creating a face\<close>

lemma face_upd_simps [simp]:
  "rl_fib (face_upd i g r) = rl_fib r" "rl_pit (face_upd i g r) = rl_pit r"
  "rl_contents (face_upd i g r) = rl_contents r" "rl_nonces (face_upd i g r) = rl_nonces r"
  "rl_contentcnt (face_upd i g r) = rl_contentcnt r" "rl_pitcnt (face_upd i g r) = rl_pitcnt r"
  "rl_seqno (face_upd i g r) = rl_seqno r" "rl_fresh (face_upd i g r) = rl_fresh r"
  "rl_now (face_upd i g r) = rl_now r" "rl_ifs (face_upd i g r) = rl_ifs r"
  "rl_ifcount (face_upd i g r) = rl_ifcount r" "rl_tx (face_upd i g r) = rl_tx r"
  "rl_taps (face_upd i g r) = rl_taps r"
  "rl_faces (face_upd i g r) = map (\<lambda>f. if f_faceid f = i then g f else f) (rl_faces r)"
  by (simp_all add: face_upd_def)

text \<open>An update of the fields of a face the well-formedness does not look at.\<close>

definition face_mark :: "(face \<Rightarrow> face) \<Rightarrow> bool" where
  "face_mark g \<longleftrightarrow> (\<forall>f. f_faceid (g f) = f_faceid f \<and> f_ifndx (g f) = f_ifndx f \<and> f_outq (g f) = f_outq f
     \<and> f_peer (g f) = f_peer f)"

lemma face_mark_if: "face_mark g \<Longrightarrow> face_mark (\<lambda>f. if P f then g f else f)"
  by (simp add: face_mark_def)

lemma face_mark_map:
  assumes "face_mark g"
  shows "face_ids (r\<lparr>rl_faces := map g (rl_faces r)\<rparr>) = face_ids r"
    and "out_faces (r\<lparr>rl_faces := map g (rl_faces r)\<rparr>) = out_faces r"
    and "faces_wf (r\<lparr>rl_faces := map g (rl_faces r)\<rparr>) = faces_wf r"
    and "relay_wf (r\<lparr>rl_faces := map g (rl_faces r)\<rparr>) = relay_wf r"
proof -
  show ids: "face_ids (r\<lparr>rl_faces := map g (rl_faces r)\<rparr>) = face_ids r"
    using assms by (simp add: face_ids_def image_image face_mark_def)
  show out: "out_faces (r\<lparr>rl_faces := map g (rl_faces r)\<rparr>) = out_faces r"
    using assms by (force simp: out_faces_def face_mark_def image_iff)
  show fwf: "faces_wf (r\<lparr>rl_faces := map g (rl_faces r)\<rparr>) = faces_wf r"
    using assms by (simp add: faces_wf_def face_mark_def comp_def)
  show "relay_wf (r\<lparr>rl_faces := map g (rl_faces r)\<rparr>) = relay_wf r"
    using ids out fwf by (simp add: relay_wf_def ifs_wf_def pit_wf_def fib_wf_def cs_wf_def nonces_wf_def)
qed

lemma face_upd_wf: "face_mark g \<Longrightarrow> relay_wf (face_upd i g r) = relay_wf r"
  unfolding face_upd_def by (rule face_mark_map(4)) (rule face_mark_if)

lemma face_upd_ids:
  assumes "face_mark g"
  shows "face_ids (face_upd i g r) = face_ids r" and "out_faces (face_upd i g r) = out_faces r"
  unfolding face_upd_def by (rule face_mark_map; rule face_mark_if[OF assms])+

lemma find_touch:
  "find P fs = Some x \<Longrightarrow> distinct (map f_faceid fs) \<Longrightarrow> (\<And>y. P (g y) = P y) \<Longrightarrow> (\<And>y. f_faceid (g y) = f_faceid y) \<Longrightarrow>
    find P (map (\<lambda>f. if f_faceid f = f_faceid x then g f else f) fs) = Some (g x)"
  by (induction fs) (auto split: if_splits simp: find_Some_iff rev_image_eqI)

definition face_for :: "int \<Rightarrow> sockunion \<Rightarrow> face \<Rightarrow> bool" where
  "face_for ifndx a f \<longleftrightarrow> f_ifndx f = ifndx \<and> ccnl_addr_cmp (f_peer f) a = 0"

lemma new_face_wf:
  assumes wf: "relay_wf r" and f: "f_faceid f = rl_seqno r + 1" "f_ifndx f < int (length (rl_ifs r))" "f_outq f = []"
  shows "relay_wf (r\<lparr>rl_seqno := rl_seqno r + 1, rl_faces := f # rl_faces r\<rparr>)"
proof -
  let ?r = "r\<lparr>rl_seqno := rl_seqno r + 1, rl_faces := f # rl_faces r\<rparr>"
  have sub: "face_ids r \<subseteq> face_ids ?r" "out_faces r \<subseteq> out_faces ?r"
    by (auto simp: face_ids_def out_faces_def)
  have "pit_wf ?r" using wf sub by (force simp: relay_wf_def pit_wf_def interest_wf_def)
  moreover have "fib_wf ?r" using wf sub by (force simp: relay_wf_def fib_wf_def)
  moreover have "faces_wf ?r" using wf f by (force simp: relay_wf_def faces_wf_def)
  ultimately show ?thesis using wf by (simp add: relay_wf_def ifs_wf_def cs_wf_def nonces_wf_def)
qed

lemma get_face_addr:
  assumes wf: "relay_wf r" and ix: "0 \<le> ifndx" "ifndx < int (length (rl_ifs r))" and a: "a \<noteq> Su_unspec"
  shows "\<exists>f r1. ccnl_get_face_or_create r ifndx (Some a) = Inr (Some (f_faceid f), r1) \<and> relay_wf r1
    \<and> f \<in> set (rl_faces r1) \<and> face_for ifndx a f \<and> f_last_used f = rl_now r
    \<and> ((\<exists>g\<in>set (rl_faces r). face_for ifndx a g) \<longrightarrow> face_ids r1 = face_ids r)
    \<and> ((\<nexists>g. g \<in> set (rl_faces r) \<and> face_for ifndx a g) \<longrightarrow> rl_faces r1 = f # rl_faces r)
    \<and> ccnl_get_face_or_create r1 ifndx (Some a) = Inr (Some (f_faceid f), r1)"
proof (cases "find (face_for ifndx a) (rl_faces r)")
  case (Some x)
  let ?t = "\<lambda>f. f\<lparr>f_last_used := rl_now r\<rparr>"
  have d: "distinct (map f_faceid (rl_faces r))" using wf by (simp add: relay_wf_def faces_wf_def)
  have mark: "face_mark ?t" by (simp add: face_mark_def)
  have fnd: "find (face_for ifndx a) (rl_faces (face_upd (f_faceid x) ?t r)) = Some (?t x)"
    using find_touch[OF Some d, of ?t] by (simp add: face_for_def)
  have "face_upd (f_faceid x) ?t (face_upd (f_faceid x) ?t r) = face_upd (f_faceid x) ?t r"
    by (simp add: face_upd_def comp_def cong: map_cong)
  moreover have "x \<in> set (rl_faces r)" "face_for ifndx a x" using Some by (auto simp: find_Some_iff)
  ultimately show ?thesis
    using Some fnd wf ix face_upd_wf[OF mark] face_upd_ids(1)[OF mark]
    by (intro exI[of _ "?t x"] exI[of _ "face_upd (f_faceid x) ?t r"])
      (auto simp: ccnl_get_face_or_create_def face_for_def[abs_def])
next
  case None
  define ifc where "ifc = rl_ifs r ! nat ifndx"
  define f where "f = \<lparr>f_faceid = rl_seqno r + 1, f_ifndx = ifndx, f_peer = a,
      f_flags = (if if_reflect ifc then CCNL_FACE_FLAGS_REFLECT else 0)
        OR (if if_fwdalli ifc then CCNL_FACE_FLAGS_FWDALLI else 0),
      f_last_used = rl_now r, f_outq = []\<rparr>"
  let ?r = "r\<lparr>rl_seqno := rl_seqno r + 1, rl_faces := f # rl_faces r\<rparr>"
  have for_f: "face_for ifndx a f" using a by (simp add: face_for_def f_def addr_cmp_self)
  have none: "\<nexists>g. g \<in> set (rl_faces r) \<and> face_for ifndx a g" using None by (auto simp: find_None_iff)
  have mk: "ccnl_get_face_or_create r ifndx (Some a) = Inr (Some (f_faceid f), ?r)"
    using None ix by (simp add: ccnl_get_face_or_create_def face_for_def[abs_def] f_def ifc_def nat_less_iff Let_def)
  have wf': "relay_wf ?r" using new_face_wf[OF wf, of f] ix by (simp add: f_def)
  have "f_faceid f \<notin> f_faceid ` set (rl_faces r)"
    using wf by (force simp: f_def relay_wf_def faces_wf_def)
  then have "map (\<lambda>x. if f_faceid x = f_faceid f then x\<lparr>f_last_used := rl_now r\<rparr> else x) (rl_faces r) = rl_faces r"
    by (intro map_idI) (auto simp: image_iff)
  moreover have "f\<lparr>f_last_used := rl_now r\<rparr> = f" by (simp add: f_def)
  ultimately have touch: "face_upd (f_faceid f) (\<lambda>x. x\<lparr>f_last_used := rl_now r\<rparr>) ?r = ?r"
    by (simp add: face_upd_def)
  have "ccnl_get_face_or_create ?r ifndx (Some a) = Inr (Some (f_faceid f), ?r)"
    using for_f touch ix by (simp add: ccnl_get_face_or_create_def face_for_def)
  then show ?thesis
    using mk wf' for_f none by (intro exI[of _ f] exI[of _ ?r]) (auto simp: f_def)
qed

end
