(* ===== verification/Relay_Out.thy ===== *)
theory Relay_Out
  imports Relay_Faces
begin

text \<open>
  What leaves the relay: one entry of the transmit log for every packet sent to a face, and the
  entries of the log that forwarding an interest makes.
\<close>

section \<open>Output\<close>

text \<open>Only what leaves the relay has changed.\<close>

definition out_only :: "relay \<Rightarrow> relay \<Rightarrow> bool" where
  "out_only r r' \<longleftrightarrow> r' = r\<lparr>rl_ifs := rl_ifs r', rl_tx := rl_tx r', rl_taps := rl_taps r'\<rparr>
     \<and> length (rl_ifs r') = length (rl_ifs r) \<and> (ifs_wf r \<longrightarrow> ifs_wf r')"

lemma out_onlyE:
  assumes "out_only r r'"
  obtains xs tx tp where "r' = r\<lparr>rl_ifs := xs, rl_tx := tx, rl_taps := tp\<rparr>" "length xs = length (rl_ifs r)"
    "ifs_wf r \<longrightarrow> ifs_wf r'"
  using assms that[where xs = "rl_ifs r'" and tx = "rl_tx r'" and tp = "rl_taps r'"]
  unfolding out_only_def by metis

lemma out_only_intro:
  "r' = r\<lparr>rl_ifs := xs, rl_tx := tx, rl_taps := tp\<rparr> \<Longrightarrow> length xs = length (rl_ifs r) \<Longrightarrow> (ifs_wf r \<Longrightarrow> ifs_wf r') \<Longrightarrow> out_only r r'"
  by (simp add: out_only_def)

lemma out_only_refl [simp]: "out_only r r"
  by (rule out_only_intro[where xs = "rl_ifs r" and tx = "rl_tx r" and tp = "rl_taps r"]) auto

lemma out_only_trans: "out_only r1 r2 \<Longrightarrow> out_only r2 r3 \<Longrightarrow> out_only r1 r3"
  by (elim out_onlyE) (rule out_only_intro[where xs = "rl_ifs r3" and tx = "rl_tx r3" and tp = "rl_taps r3"], simp_all)

lemma out_only_fields:
  assumes "out_only r r'"
  shows "rl_faces r' = rl_faces r" "rl_fib r' = rl_fib r" "rl_pit r' = rl_pit r"
    "rl_contents r' = rl_contents r" "rl_nonces r' = rl_nonces r" "rl_contentcnt r' = rl_contentcnt r"
    "rl_pitcnt r' = rl_pitcnt r" "rl_seqno r' = rl_seqno r" "rl_fresh r' = rl_fresh r" "rl_now r' = rl_now r"
    "rl_max_cache_entries r' = rl_max_cache_entries r" "rl_max_pit_entries r' = rl_max_pit_entries r"
    "rl_ifcount r' = rl_ifcount r" "length (rl_ifs r') = length (rl_ifs r)"
    "face_ids r' = face_ids r" "out_faces r' = out_faces r" "face_get r' = face_get r"
  using assms by (auto elim!: out_onlyE simp: face_ids_def out_faces_def face_get_def[abs_def])

lemma out_only_wf: "out_only r r' \<Longrightarrow> relay_wf r \<Longrightarrow> relay_wf r'"
proof -
  assume o: "out_only r r'" and wf: "relay_wf r"
  then have "ifs_wf r'" by (auto elim!: out_onlyE simp: relay_wf_def)
  then show "relay_wf r'"
    using wf unfolding relay_wf_def faces_wf_def pit_wf_def fib_wf_def cs_wf_def nonces_wf_def
    by (simp add: out_only_fields[OF o])
qed

lemma transmit_out_only: "n < length (rl_ifs r) \<Longrightarrow> out_only r (transmit n d f b r)"
  by (rule out_only_intro[where xs = "rl_ifs (transmit n d f b r)" and tx = "rl_tx r @ [(n, d, b)]" and tp = "rl_taps r"])
    (simp add: transmit_def if_upd_def, simp, rule transmit_ifs_wf)

text \<open>The log entry of a packet sent to a face.\<close>

definition tx_to :: "relay \<Rightarrow> bytes \<Rightarrow> faceref \<Rightarrow> (nat \<times> sockunion \<times> bytes) list" where
  "tx_to r b f = (case face_get r f of Inl e \<Rightarrow> [] | Inr x \<Rightarrow> [(nat (f_ifndx x), f_peer x, b)])"

lemma send_wf:
  assumes wf: "relay_wf r" and f: "f \<in> out_faces r" and b: "pkt_buf p = Some b"
  shows "\<exists>r'. ccnl_send_pkt f p r = Inr (0, r') \<and> out_only r r' \<and> rl_tx r' = rl_tx r @ tx_to r b f \<and> rl_taps r' = rl_taps r"
proof -
  obtain x where x: "x \<in> set (rl_faces r)" "f_faceid x = f" "0 \<le> f_ifndx x" using f by (auto simp: out_faces_def)
  have wf': "faces_wf r" "ifs_wf r" using wf by (simp_all add: relay_wf_def)
  have "f_ifndx x < int (length (rl_ifs r))" using wf' x by (auto simp: faces_wf_def)
  then show ?thesis
    using send_pkt_wf[OF wf' x(1,3) b] x face_get_member[OF wf'(1) x(1)] transmit_out_only[of "nat (f_ifndx x)" r]
    by (auto simp: tx_to_def nat_less_iff)
qed

text \<open>The local client's face has no interface: the index into the array is negative.\<close>

lemma send_local:
  assumes "relay_wf r" and "f \<in> set (rl_faces r)" and "f_ifndx f < 0" and "pkt_buf p = Some b"
  shows "ccnl_send_pkt (f_faceid f) p r = Inl Oob"
proof -
  let ?i = "f_faceid f"
  let ?r = "face_upd ?i (\<lambda>f. f\<lparr>f_outq := f_outq f @ [b]\<rparr>) r"
  have q: "f_outq f = []" using assms(1,2) by (auto simp: relay_wf_def faces_wf_def)
  have g: "face_get r ?i = Inr f" using assms(1,2) by (simp add: face_get_member relay_wf_def)
  have "find (\<lambda>x. f_faceid x = ?i) (map (\<lambda>x. if f_faceid x = ?i then x\<lparr>f_outq := f_outq x @ [b]\<rparr> else x) fs)
      = map_option (\<lambda>x. x\<lparr>f_outq := f_outq x @ [b]\<rparr>) (find (\<lambda>x. f_faceid x = ?i) fs)" for fs :: "face list"
    by (induction fs) auto
  then have "face_get ?r ?i = Inr (f\<lparr>f_outq := [b]\<rparr>)"
    using g q by (auto simp: face_get_def face_upd_def split: option.splits)
  moreover have "face_upd ?i (\<lambda>f. f\<lparr>f_outq := []\<rparr>) ?r = r"
    using assms(1) by (intro face_upd_queue_id) (simp add: relay_wf_def)
  ultimately show ?thesis
    using q g assms by (simp add: ccnl_send_pkt_def ccnl_face_enqueue_def ccnl_face_CTS_def ccnl_face_dequeue_def ccnl_interface_enqueue_def)
qed

text \<open>A packet to any face of the relay is sent, or it is that fault.\<close>

lemma enqueue_any:
  assumes "relay_wf r" and "f \<in> face_ids r"
  shows "ccnl_face_enqueue f (Some b) r = Inl Oob
    \<or> (\<exists>r'. ccnl_face_enqueue f (Some b) r = Inr (0, r') \<and> out_only r r' \<and> rl_tx r' = rl_tx r @ tx_to r b f)"
proof -
  obtain x where x: "x \<in> set (rl_faces r)" "f_faceid x = f" using assms(2) by (auto simp: face_ids_def)
  have e: "ccnl_face_enqueue f (Some b) r = ccnl_send_pkt f (pkt_zero\<lparr>pkt_buf := Some b\<rparr>) r"
    by (simp add: ccnl_send_pkt_def)
  show ?thesis
  proof (cases "0 \<le> f_ifndx x")
    case True
    then have "f \<in> out_faces r" using x by (auto simp: out_faces_def)
    then show ?thesis using send_wf[OF assms(1), of f "pkt_zero\<lparr>pkt_buf := Some b\<rparr>" b] e by auto
  next
    case False
    then show ?thesis using send_local[OF assms(1) x(1), of "pkt_zero\<lparr>pkt_buf := Some b\<rparr>" b] x(2) e by simp
  qed
qed

section \<open>Forwarding interests\<close>

definition fib_hit :: "relay \<Rightarrow> interest \<Rightarrow> forward \<Rightarrow> bool" where
  "fib_hit r i fw = (case (fw_prefix fw, pkt_pfx (i_pkt i)) of
      (Some p, Some nm) \<Rightarrow> fw_suite fw = pfx_suite nm \<and> Sublist.prefix (pfx_comp p) (pfx_comp nm)
        \<and> (case i_from i of None \<Rightarrow> True
            | Some fr \<Rightarrow> fw_face fw = Some fr \<longrightarrow>
                (case face_get r fr of Inr f \<Rightarrow> f_flags f AND CCNL_FACE_FLAGS_REFLECT \<noteq> 0 | Inl _ \<Rightarrow> False))
    | _ \<Rightarrow> False)"

definition fw_tx :: "relay \<Rightarrow> bytes \<Rightarrow> forward \<Rightarrow> (nat \<times> sockunion \<times> bytes) list" where
  "fw_tx r b fw = (case fw_face fw of None \<Rightarrow> [] | Some f \<Rightarrow> tx_to r b f)"

definition fw_taps :: "interest \<Rightarrow> bytes \<Rightarrow> forward \<Rightarrow> (nat \<times> faceref option \<times> prefix \<times> bytes) list" where
  "fw_taps i b fw = (case (fw_tap fw, pkt_pfx (i_pkt i)) of (Some t, Some nm) \<Rightarrow> [(t, i_from i, nm, b)] | _ \<Rightarrow> [])"

lemma lcp_prefix_iff: "length (longest_common_prefix xs ys) < length xs \<longleftrightarrow> \<not> Sublist.prefix xs ys"
proof (induction xs ys rule: longest_common_prefix.induct)
qed auto

lemma propagate_step_wf:
  assumes wf: "relay_wf r" and i: "interest_wf (face_ids r) i" "pkt_buf (i_pkt i) = Some b"
    and fw: "set_option (fw_face fw) \<subseteq> out_faces r"
  shows "\<exists>r'. propagate_step i fw r = Inr r' \<and> out_only r r'
    \<and> rl_tx r' = rl_tx r @ (if fib_hit r i fw then fw_tx r b fw else [])
    \<and> rl_taps r' = rl_taps r @ (if fib_hit r i fw then fw_taps i b fw else [])"
proof -
  define go where "go = (case i_from i of None \<Rightarrow> True | Some fr \<Rightarrow> fw_face fw = Some fr \<longrightarrow>
      (case face_get r fr of Inr f \<Rightarrow> f_flags f AND CCNL_FACE_FLAGS_REFLECT \<noteq> 0 | Inl _ \<Rightarrow> False))"
  have go: "(case i_from i of None \<Rightarrow> Inr True
      | Some fr \<Rightarrow> if fw_face fw \<noteq> Some fr then Inr True
          else bindE (face_get r fr) (\<lambda>f. Inr (f_flags f AND CCNL_FACE_FLAGS_REFLECT \<noteq> 0))) = Inr go"
    using i(1) face_ids_get[of "the (i_from i)" r] wf by (auto simp: go_def interest_wf_def relay_wf_def split: option.split)
  show ?thesis
  proof (cases "fib_hit r i fw")
    case False
    then show ?thesis
      unfolding propagate_step_def go
      by (auto simp: fib_hit_def go_def[symmetric] prefix_cmp_length md_comp_def lcp_prefix_iff not_less split: option.splits)
  next
    case True
    then obtain p nm where pn: "fw_prefix fw = Some p" "pkt_pfx (i_pkt i) = Some nm" by (auto simp: fib_hit_def split: option.splits)
    with True have hit: "fw_suite fw = pfx_suite nm" "Sublist.prefix (pfx_comp p) (pfx_comp nm)" "go"
      by (simp_all add: fib_hit_def go_def)
    define r1 where "r1 = (case fw_tap fw of None \<Rightarrow> r | Some t \<Rightarrow> r\<lparr>rl_taps := rl_taps r @ [(t, i_from i, nm, b)]\<rparr>)"
    have "out_only r (r\<lparr>rl_taps := tp\<rparr>)" for tp
      by (rule out_only_intro[where xs = "rl_ifs r" and tx = "rl_tx r" and tp = tp]) (simp_all add: ifs_wf_def)
    then have r1: "out_only r r1" "rl_tx r1 = rl_tx r" "rl_taps r1 = rl_taps r @ fw_taps i b fw"
      by (simp_all add: r1_def fw_taps_def pn split: option.split)
    have step: "propagate_step i fw r = (case fw_face fw of None \<Rightarrow> Inr r1
        | Some f \<Rightarrow> bindE (ccnl_send_pkt f (i_pkt i) r1) (\<lambda>(rc, r2). Inr r2))"
      using pn hit i(2) lcp_prefix_iff[of "pfx_comp p" "pfx_comp nm"]
      by (simp add: propagate_step_def go prefix_cmp_length md_comp_def r1_def split: option.split)
    show ?thesis
    proof (cases "fw_face fw")
      case None
      then show ?thesis using step r1 True by (simp add: fw_tx_def)
    next
      case (Some f)
      have "relay_wf r1" "f \<in> out_faces r1" using r1 wf fw Some by (auto intro: out_only_wf simp: out_only_fields[OF r1(1)])
      then obtain r2 where "ccnl_send_pkt f (i_pkt i) r1 = Inr (0, r2)" "out_only r1 r2"
          "rl_tx r2 = rl_tx r1 @ tx_to r1 b f" "rl_taps r2 = rl_taps r1"
        using send_wf i(2) by blast
      then show ?thesis using Some step r1 True out_only_trans[of r r1 r2]
        by (simp add: fw_tx_def tx_to_def out_only_fields[OF r1(1)])
    qed
  qed
qed

lemma fib_hit_out: "out_only r r' \<Longrightarrow> fib_hit r' = fib_hit r"
  by (simp only: fib_hit_def[abs_def] out_only_fields(17))

lemma fw_tx_out: "out_only r r' \<Longrightarrow> fw_tx r' = fw_tx r"
  by (simp only: fw_tx_def[abs_def] tx_to_def[abs_def] out_only_fields(17))

lemma propagate_loop_wf:
  "relay_wf r \<Longrightarrow> interest_wf (face_ids r) i \<Longrightarrow> pkt_buf (i_pkt i) = Some b \<Longrightarrow>
    (\<forall>fw\<in>set fws. set_option (fw_face fw) \<subseteq> out_faces r) \<Longrightarrow>
    \<exists>r'. propagate_loop i fws r = Inr r' \<and> out_only r r'
      \<and> rl_tx r' = rl_tx r @ concat (map (fw_tx r b) (filter (fib_hit r i) fws))
      \<and> rl_taps r' = rl_taps r @ concat (map (fw_taps i b) (filter (fib_hit r i) fws))"
proof (induction fws arbitrary: r)
  case Nil
  then show ?case by simp
next
  case (Cons fw fws)
  then obtain r1 where r1: "propagate_step i fw r = Inr r1" "out_only r r1"
    "rl_tx r1 = rl_tx r @ (if fib_hit r i fw then fw_tx r b fw else [])"
    "rl_taps r1 = rl_taps r @ (if fib_hit r i fw then fw_taps i b fw else [])"
    using propagate_step_wf[of r i b fw] by auto
  then obtain r' where "propagate_loop i fws r1 = Inr r'" "out_only r1 r'"
    "rl_tx r' = rl_tx r1 @ concat (map (fw_tx r1 b) (filter (fib_hit r1 i) fws))"
    "rl_taps r' = rl_taps r1 @ concat (map (fw_taps i b) (filter (fib_hit r1 i) fws))"
    using Cons.IH[of r1] Cons.prems out_only_wf by (auto simp: out_only_fields[OF r1(2)])
  then show ?case
    using r1 out_only_trans[of r r1 r'] fib_hit_out[of r r1] fw_tx_out[of r r1] by simp
qed

lemma propagate_wf:
  assumes "relay_wf r" and "interest_wf (face_ids r) i" and "pkt_buf (i_pkt i) = Some b"
  shows "\<exists>r'. ccnl_interest_propagate (Some i) r = Inr r' \<and> out_only r r'
    \<and> rl_tx r' = rl_tx r @ concat (map (fw_tx r b) (filter (fib_hit r i) (rl_fib r)))
    \<and> rl_taps r' = rl_taps r @ concat (map (fw_taps i b) (filter (fib_hit r i) (rl_fib r)))"
  using propagate_loop_wf[OF assms, of "rl_fib r"] assms(1)
  by (simp add: ccnl_interest_propagate_def relay_wf_def fib_wf_def)

end
