(* ===== verification/Relay_Serve.thy ===== *)
theory Relay_Serve
  imports Relay_Out
begin

text \<open>
  Serving the pending interests a content satisfies: which faces get it, once each, which
  interests go, and what stays.
\<close>

section \<open>The mark of a served face\<close>

definition unserve :: "face \<Rightarrow> face" where
  "unserve f = f\<lparr>f_flags := f_flags f AND NOT CCNL_FACE_FLAGS_SERVED\<rparr>"

lemma unserve_simps [simp]:
  "f_faceid (unserve f) = f_faceid f" "f_ifndx (unserve f) = f_ifndx f" "f_peer (unserve f) = f_peer f"
  "f_outq (unserve f) = f_outq f" "unserve (unserve f) = unserve f" "f_flags (unserve f) AND 4 = 0"
  "f_flags (unserve f) = f_flags f AND NOT 4"
  by (simp_all add: unserve_def and.assoc bit_eq_iff bit_simps)

lemma unserve_or [simp]: "unserve (f\<lparr>f_flags := f_flags f OR 4\<rparr>) = unserve f"
proof -
  have "(f_flags f OR 4) AND NOT 4 = f_flags f AND NOT 4" by (rule bit_word_eqI) (auto simp: bit_simps)
  then show ?thesis by (simp add: unserve_def)
qed

lemma unserve_eq:
  assumes "unserve f = unserve g"
  shows "f_faceid f = f_faceid g \<and> f_ifndx f = f_ifndx g \<and> f_peer f = f_peer g \<and> f_outq f = f_outq g"
  by (metis assms unserve_simps(1-4))

definition served :: "relay \<Rightarrow> faceref \<Rightarrow> bool" where
  "served r f \<longleftrightarrow> (\<exists>x\<in>set (rl_faces r). f_faceid x = f \<and> f_flags x AND CCNL_FACE_FLAGS_SERVED \<noteq> 0)"

text \<open>The relay while it serves: faces may change their mark, and packets may leave.\<close>

definition serving :: "relay \<Rightarrow> relay \<Rightarrow> bool" where
  "serving r r' \<longleftrightarrow> map unserve (rl_faces r') = map unserve (rl_faces r) \<and> rl_fib r' = rl_fib r
     \<and> rl_contents r' = rl_contents r \<and> rl_nonces r' = rl_nonces r \<and> rl_contentcnt r' = rl_contentcnt r
     \<and> rl_max_cache_entries r' = rl_max_cache_entries r \<and> rl_max_pit_entries r' = rl_max_pit_entries r
     \<and> rl_ifcount r' = rl_ifcount r \<and> length (rl_ifs r') = length (rl_ifs r) \<and> rl_seqno r' = rl_seqno r
     \<and> rl_fresh r' = rl_fresh r \<and> rl_now r' = rl_now r \<and> rl_taps r' = rl_taps r"

lemma serving_refl [simp]: "serving r r"
  by (simp add: serving_def)

lemma serving_trans: "serving r1 r2 \<Longrightarrow> serving r2 r3 \<Longrightarrow> serving r1 r3"
  by (simp add: serving_def)

lemma serving_out: "out_only r r' \<Longrightarrow> rl_taps r' = rl_taps r \<Longrightarrow> serving r r'"
  by (simp add: serving_def out_only_fields)

lemma unserve_ids:
  assumes "map unserve (rl_faces r') = map unserve (rl_faces r)"
  shows "face_ids r' = face_ids r" "out_faces r' = out_faces r" "tx_to r' = tx_to r"
proof -
  have ids: "face_ids r = f_faceid ` set (map unserve (rl_faces r))" for r by (simp add: face_ids_def image_image)
  show "face_ids r' = face_ids r" using assms by (simp only: ids)
  have "out_faces r = f_faceid ` {f \<in> set (map unserve (rl_faces r)). 0 \<le> f_ifndx f}" for r
  proof -
    have "{f \<in> set (map unserve (rl_faces r)). 0 \<le> f_ifndx f} = unserve ` {f \<in> set (rl_faces r). 0 \<le> f_ifndx f}" by auto
    then show ?thesis by (simp only: out_faces_def image_image unserve_simps)
  qed
  note out = this
  show "out_faces r' = out_faces r" by (simp only: out[of r] out[of r'] assms)
  have "tx_to r b f = (case find (\<lambda>x. f_faceid x = f) (map unserve (rl_faces r)) of None \<Rightarrow> []
      | Some x \<Rightarrow> [(nat (f_ifndx x), f_peer x, b)])" for r b f
  proof -
    have "find (\<lambda>x. f_faceid x = f) (map unserve fs) = map_option unserve (find (\<lambda>x. f_faceid x = f) fs)" for fs
      by (induction fs) auto
    then show ?thesis by (cases "find (\<lambda>x. f_faceid x = f) (rl_faces r)") (simp_all add: tx_to_def face_get_def)
  qed
  note tx = this
  show "tx_to r' = tx_to r" by (intro ext) (simp only: tx[of r] tx[of r'] assms)
qed

lemma serving_ids:
  "serving r r' \<Longrightarrow> face_ids r' = face_ids r" "serving r r' \<Longrightarrow> out_faces r' = out_faces r"
  "serving r r' \<Longrightarrow> tx_to r' = tx_to r"
  by (rule unserve_ids, simp only: serving_def)+

lemma mark_wf: "face_mark (\<lambda>f. f\<lparr>f_flags := g f\<rparr>)"
  by (simp add: face_mark_def)

definition serve_tx :: "relay \<Rightarrow> bytes \<Rightarrow> faceref list \<Rightarrow> (nat \<times> sockunion \<times> bytes) list" where
  "serve_tx r b fs = concat (map (tx_to r b) (filter (\<lambda>f. f \<in> out_faces r) fs))"

lemma or_served: "(x OR 4) AND 4 \<noteq> (0 :: u32)"
proof -
  have "(x OR 4) AND 4 = (4 :: u32)" by (rule bit_word_eqI) (auto simp: bit_simps)
  then show ?thesis by simp
qed

lemma serve_one:
  assumes wf: "relay_wf r" and q: "f \<in> face_ids r" "\<not> served r f" and b: "pkt_buf (c_pkt c) = Some b" and p: "pi_face q = f"
  shows "\<exists>r'. serve_faces c (q # qs) cnt r = serve_faces c qs (cnt + 1) r' \<and> serving r r' \<and> relay_wf r'
    \<and> rl_pit r' = rl_pit r \<and> rl_pitcnt r' = rl_pitcnt r
    \<and> rl_tx r' = rl_tx r @ serve_tx r b [f] \<and> (\<forall>g. served r' g \<longleftrightarrow> served r g \<or> g = f)"
proof -
  let ?g = "\<lambda>f. f\<lparr>f_flags := f_flags f OR CCNL_FACE_FLAGS_SERVED\<rparr>"
  obtain x where x: "x \<in> set (rl_faces r)" "f_faceid x = f" using q by (auto simp: face_ids_def)
  have fwf: "faces_wf r" using wf by (simp add: relay_wf_def)
  have get: "face_get r f = Inr x" using face_get_member[OF fwf x(1)] x(2) by simp
  have ns: "f_flags x AND CCNL_FACE_FLAGS_SERVED = 0" using q x by (auto simp: served_def)
  define r1 where "r1 = face_upd f ?g r"
  have r1: "serving r r1" "relay_wf r1" "rl_tx r1 = rl_tx r" "rl_pit r1 = rl_pit r" "rl_pitcnt r1 = rl_pitcnt r"
    "\<forall>g. served r1 g \<longleftrightarrow> served r g \<or> g = f"
  proof -
    have "map unserve (rl_faces r1) = map unserve (rl_faces r)" by (simp add: r1_def)
    then show "serving r r1" by (simp add: serving_def r1_def) (simp add: face_upd_def)
    show "relay_wf r1" using wf face_upd_wf[OF mark_wf] by (simp add: r1_def)
    show "\<forall>g. served r1 g \<longleftrightarrow> served r g \<or> g = f"
    proof
      fix g
      have "served r1 g \<longleftrightarrow> (\<exists>y\<in>set (rl_faces r). f_faceid y = g \<and> (if f_faceid y = f then True else f_flags y AND 4 \<noteq> 0))"
        unfolding served_def r1_def face_upd_simps set_map bex_simps(7) using or_served by (intro bex_cong) auto
      then show "served r1 g \<longleftrightarrow> served r g \<or> g = f" using x unfolding served_def by metis
    qed
  qed (simp_all add: r1_def)
  have out: "f \<in> out_faces r \<longleftrightarrow> 0 \<le> f_ifndx x"
  proof
    assume "f \<in> out_faces r"
    then obtain y where "y \<in> set (rl_faces r)" "f_faceid y = f" "0 \<le> f_ifndx y" by (auto simp: out_faces_def)
    then show "0 \<le> f_ifndx x" using face_get_member[OF fwf] get by auto
  qed (use x in \<open>auto simp: out_faces_def\<close>)
  show ?thesis
  proof (cases "0 \<le> f_ifndx x")
    case False
    then show ?thesis using get ns r1 out p
      by (intro exI[of _ r1]) (simp add: serve_tx_def r1_def[symmetric] Let_def)
  next
    case True
    have f1: "f \<in> out_faces r1" using True out r1(1) by (simp add: serving_ids)
    obtain r2 where r2: "ccnl_send_pkt f (c_pkt c) r1 = Inr (0, r2)" "out_only r1 r2" "rl_tx r2 = rl_tx r1 @ tx_to r1 b f"
      "rl_taps r2 = rl_taps r1" using send_wf[OF r1(2) f1 b] by blast
    have "serving r r2" "relay_wf r2"
      using r1 r2 serving_out serving_trans out_only_wf by blast+
    moreover have "served r2 = served r1" by (intro ext) (simp add: served_def out_only_fields[OF r2(2)])
    ultimately show ?thesis using get ns r1 r2 out p True
      by (intro exI[of _ r2]) (simp add: serve_tx_def r1_def[symmetric] Let_def serving_ids out_only_fields[OF r2(2)])
  qed
qed

lemma serving_served_ids: "served r f \<Longrightarrow> f \<in> face_ids r"
  by (auto simp: served_def face_ids_def)

lemma serve_tx_Nil [simp]: "serve_tx r b [] = []"
  and serve_tx_append: "serve_tx r b (xs @ ys) = serve_tx r b xs @ serve_tx r b ys"
  by (simp_all add: serve_tx_def)

lemma serve_tx_serving: "serving r r' \<Longrightarrow> serve_tx r' = serve_tx r"
  unfolding serve_tx_def[abs_def] by (simp only: serving_ids)

lemma serve_faces_wf:
  "relay_wf r \<Longrightarrow> pi_face ` set qs \<subseteq> face_ids r \<Longrightarrow> distinct (map pi_face qs) \<Longrightarrow> pkt_buf (c_pkt c) = Some b \<Longrightarrow>
    \<exists>r' new. serve_faces c qs cnt r = Inr (cnt + length new, r') \<and> serving r r' \<and> relay_wf r'
      \<and> rl_pit r' = rl_pit r \<and> rl_pitcnt r' = rl_pitcnt r
      \<and> new = filter (\<lambda>f. \<not> served r f) (map pi_face qs) \<and> rl_tx r' = rl_tx r @ serve_tx r b new
      \<and> (\<forall>g. served r' g \<longleftrightarrow> served r g \<or> g \<in> set new)"
proof (induction qs arbitrary: r cnt)
  case Nil
  then show ?case by simp
next
  case (Cons q qs)
  let ?f = "pi_face q"
  show ?case
  proof (cases "served r ?f")
    case True
    then obtain x where x: "x \<in> set (rl_faces r)" "f_faceid x = ?f" "f_flags x AND 4 \<noteq> 0" by (auto simp: served_def)
    have "face_get r ?f = Inr x" using face_get_member[OF _ x(1)] x(2) Cons.prems(1) by (simp add: relay_wf_def)
    then have "serve_faces c (q # qs) cnt r = serve_faces c qs cnt r" using x(3) by simp
    then show ?thesis using Cons.IH[of r cnt] Cons.prems True by simp
  next
    case False
    then obtain r1 where r1: "serve_faces c (q # qs) cnt r = serve_faces c qs (cnt + 1) r1" "serving r r1" "relay_wf r1"
      "rl_pit r1 = rl_pit r" "rl_pitcnt r1 = rl_pitcnt r"
      "rl_tx r1 = rl_tx r @ serve_tx r b [?f]" "\<forall>g. served r1 g \<longleftrightarrow> served r g \<or> g = ?f"
      using serve_one[of r ?f c b q qs cnt] Cons.prems by auto
    obtain r' new where r': "serve_faces c qs (cnt + 1) r1 = Inr (cnt + 1 + length new, r')" "serving r1 r'" "relay_wf r'"
      "rl_pit r' = rl_pit r1" "rl_pitcnt r' = rl_pitcnt r1"
      "new = filter (\<lambda>f. \<not> served r1 f) (map pi_face qs)" "rl_tx r' = rl_tx r1 @ serve_tx r1 b new"
      "\<forall>g. served r' g \<longleftrightarrow> served r1 g \<or> g \<in> set new"
      using Cons.IH[of r1 "cnt + 1"] Cons.prems r1(2,3) by (auto simp: serving_ids(1)[OF r1(2)])
    have "?f \<notin> set (map pi_face qs)" using Cons.prems(3) by simp
    then have "filter (\<lambda>f. \<not> served r f) (map pi_face (q # qs)) = ?f # new"
      using r1(7) r'(6) False by (auto intro!: filter_cong)
    then show ?thesis
      using r1 r' serving_trans[OF r1(2) r'(2)] serve_tx_append[of r b "[?f]" new] serve_tx_serving[OF r1(2)]
      by (intro exI[of _ r'] exI[of _ "?f # new"]) auto
  qed
qed

section \<open>The loop over the pending interests\<close>

definition satisfies :: "hooks \<Rightarrow> content \<Rightarrow> interest \<Rightarrow> bool" where
  "satisfies h c i \<longleftrightarrow> pending_matches h c i = Inr (Some True)"

lemma pending_matches_pkt: "c_pkt c' = c_pkt c \<Longrightarrow> pending_matches h c' i = pending_matches h c i"
  by (simp only: pending_matches_def ccnl_i_prefixof_c_def)

lemma satisfies_pkt: "c_pkt c' = c_pkt c \<Longrightarrow> satisfies h c' = satisfies h c"
  by (intro ext) (simp only: satisfies_def pending_matches_pkt[of c' c])

lemma pending_matches_wf:
  assumes "pkt_wf (i_pkt i)" and "pkt_wf (c_pkt c)"
  shows "pending_matches h c i = Inr (Some (satisfies h c i))"
proof -
  have "\<exists>rc. ccnl_i_prefixof_c h (Some p) mn mx c = Inr rc" for p mn mx
    using assms(2) by (auto simp: ccnl_i_prefixof_c_def pkt_wf_def Let_def split: option.split)
  then obtain rcf where i: "ccnl_i_prefixof_c h (Some p) mn mx c = Inr (rcf p mn mx)" for p mn mx by metis
  obtain p q where pq: "pkt_pfx (i_pkt i) = Some p" "pkt_pfx (c_pkt c) = Some q" using assms by (auto simp: pkt_wf_def)
  have "\<exists>b. pending_matches h c i = Inr (Some b)"
    by (auto simp: pending_matches_def pq i)
  then show ?thesis by (auto simp: satisfies_def)
qed

lemma interest_remove_wf:
  assumes wf: "relay_wf r" and p: "rl_pit r = ds @ i # es"
  shows "\<exists>r1. ccnl_interest_remove (i_ref i) r = Inr r1 \<and> r1 = r\<lparr>rl_pit := ds @ es, rl_pitcnt := rl_pitcnt r - 1\<rparr>
    \<and> relay_wf r1 \<and> serving r r1"
proof -
  have d: "distinct (map i_ref (ds @ i # es))" using wf p by (simp add: relay_wf_def pit_wf_def)
  let ?r = "r\<lparr>rl_pit := ds @ es, rl_pitcnt := rl_pitcnt r - 1\<rparr>"
  have eq: "ccnl_interest_remove (i_ref i) r = Inr ?r"
    using p key_split(2,3)[OF d] by (simp add: ccnl_interest_remove_def pit_get_def)
  have "pit_wf r" "i \<in> set (rl_pit r)" using wf p by (simp_all add: relay_wf_def)
  from pit.rem_member[OF this] have "pit_wf ?r" unfolding eq by blast
  then have "relay_wf ?r"
    using wf by (simp add: relay_wf_def faces_wf_def ifs_wf_def fib_wf_def cs_wf_def nonces_wf_def out_faces_def)
  then show ?thesis using eq by (simp add: serving_def)
qed

lemma serve_step:
  assumes wf: "relay_wf r" and c: "pkt_wf (c_pkt c)" "pkt_buf (c_pkt c) = Some b" and p: "rl_pit r = ds @ i # es"
    and sat: "satisfies h c i"
  shows "\<exists>r2 c1. serve_loop h (i # es) c cnt r = serve_loop h es c1
        (cnt + length (filter (\<lambda>f. \<not> served r f) (map pi_face (i_pending i))) + (if i_pending i = [] then 1 else 0)) r2
      \<and> serving r r2 \<and> relay_wf r2 \<and> rl_pit r2 = ds @ es
      \<and> rl_tx r2 = rl_tx r @ serve_tx r b (filter (\<lambda>f. \<not> served r f) (map pi_face (i_pending i)))
      \<and> (\<forall>g. served r2 g \<longleftrightarrow> served r g \<or> g \<in> pi_face ` set (i_pending i))
      \<and> c_pkt c1 = c_pkt c \<and> c_ref c1 = c_ref c \<and> c_last_used c1 = c_last_used c"
proof -
  let ?new = "filter (\<lambda>f. \<not> served r f) (map pi_face (i_pending i))"
  have iwf: "interest_wf (face_ids r) i" using wf p by (simp add: relay_wf_def pit_wf_def)
  then have pm: "pending_matches h c i = Inr (Some True)"
    using sat c(1) by (simp add: pending_matches_wf interest_wf_def)
  obtain r1 new where r1: "serve_faces c (i_pending i) 0 r = Inr (0 + length new, r1)" "serving r r1" "relay_wf r1"
    "rl_pit r1 = rl_pit r" "new = ?new" "rl_tx r1 = rl_tx r @ serve_tx r b new"
    "\<forall>g. served r1 g \<longleftrightarrow> served r g \<or> g \<in> set new"
    using serve_faces_wf[OF wf, of "i_pending i" c b 0] c(2) iwf unfolding interest_wf_def by blast
  obtain r2 where r2: "ccnl_interest_remove (i_ref i) r1 = Inr r2"
    "r2 = r1\<lparr>rl_pit := ds @ es, rl_pitcnt := rl_pitcnt r1 - 1\<rparr>" "relay_wf r2" "serving r1 r2"
    using interest_remove_wf[OF r1(3), of ds i es] r1(4) p by auto
  have sv: "\<forall>g. served r2 g \<longleftrightarrow> served r g \<or> g \<in> pi_face ` set (i_pending i)"
    using r1(5,7) by (auto simp: r2(2) served_def)
  have r2f: "rl_pit r2 = ds @ es" "rl_tx r2 = rl_tx r @ serve_tx r b ?new" using r1(5,6) by (simp_all add: r2(2))
  show ?thesis
  proof (cases "i_pending i = []")
    case True
    then have "r1 = r" using r1(1) by simp
    then have "serve_loop h (i # es) c cnt r = serve_loop h es (c\<lparr>c_flags := c_flags c OR CCNL_CONTENT_FLAGS_STATIC,
        c_served_cnt := c_served_cnt c + 1\<rparr>) (cnt + 1) r2"
      using pm True r2(1) by simp
    then show ?thesis
      using serving_trans[OF r1(2) r2(4)] r2(3) sv r2f True
      by (intro exI[of _ r2] exI[of _ "c\<lparr>c_flags := c_flags c OR 1, c_served_cnt := c_served_cnt c + 1\<rparr>"]) simp
  next
    case False
    have "serve_loop h (i # es) c cnt r = serve_loop h es (c\<lparr>c_served_cnt := c_served_cnt c + length ?new\<rparr>)
        (cnt + length ?new) r2"
      using pm False r1(1,5) r2(1) by simp
    then show ?thesis
      using serving_trans[OF r1(2) r2(4)] r2(3) sv r2f False
      by (intro exI[of _ r2] exI[of _ "c\<lparr>c_served_cnt := c_served_cnt c + length ?new\<rparr>"]) simp
  qed
qed

text \<open>The count: one for every face served, and one for every satisfied interest nobody waits
  for.\<close>

definition unawaited :: "hooks \<Rightarrow> content \<Rightarrow> interest list \<Rightarrow> nat" where
  "unawaited h c es = length (filter (\<lambda>i. i_pending i = [] \<and> satisfies h c i) es)"

definition waiting :: "hooks \<Rightarrow> content \<Rightarrow> interest list \<Rightarrow> faceref set" where
  "waiting h c es = (\<Union>i\<in>{i \<in> set es. satisfies h c i}. pi_face ` set (i_pending i))"

lemma serve_loop_wf:
  "relay_wf r \<Longrightarrow> pkt_wf (c_pkt c) \<Longrightarrow> pkt_buf (c_pkt c) = Some b \<Longrightarrow> rl_pit r = ds @ es \<Longrightarrow>
    \<exists>r' c' new. serve_loop h es c cnt r = Inr (cnt + length new + unawaited h c es, c', r')
      \<and> serving r r' \<and> relay_wf r' \<and> rl_pit r' = ds @ filter (\<lambda>i. \<not> satisfies h c i) es
      \<and> c_pkt c' = c_pkt c \<and> c_ref c' = c_ref c \<and> c_last_used c' = c_last_used c
      \<and> rl_tx r' = rl_tx r @ serve_tx r b new
      \<and> distinct new \<and> set new = {f \<in> waiting h c es. \<not> served r f}"
proof (induction es arbitrary: ds r c cnt)
  case Nil
  have "rl_tx r = rl_tx r @ serve_tx r b []" by simp
  with Nil show ?case unfolding unawaited_def waiting_def
    by (intro exI[of _ r] exI[of _ c] exI[of _ "[]"]) simp
next
  case (Cons i es)
  have iwf: "interest_wf (face_ids r) i" using Cons.prems(1,4) by (simp add: relay_wf_def pit_wf_def)
  then have pm: "pending_matches h c i = Inr (Some (satisfies h c i))"
    using Cons.prems(2) by (simp add: pending_matches_wf interest_wf_def)
  show ?case
  proof (cases "satisfies h c i")
    case False
    then have "serve_loop h (i # es) c cnt r = serve_loop h es c cnt r" "unawaited h c (i # es) = unawaited h c es"
      "waiting h c (i # es) = waiting h c es" "filter (\<lambda>i. \<not> satisfies h c i) (i # es) = i # filter (\<lambda>i. \<not> satisfies h c i) es"
      using pm by (auto simp: unawaited_def waiting_def)
    then show ?thesis using Cons.IH[of r c "ds @ [i]" cnt] Cons.prems by simp
  next
    case True
    define new where "new = filter (\<lambda>f. \<not> served r f) (map pi_face (i_pending i))"
    define e where "e = (if i_pending i = [] then 1 else 0 :: nat)"
    obtain r2 c1 where s: "serve_loop h (i # es) c cnt r = serve_loop h es c1 (cnt + length new + e) r2"
      "serving r r2" "relay_wf r2" "rl_pit r2 = ds @ es" "rl_tx r2 = rl_tx r @ serve_tx r b new"
      "\<forall>g. served r2 g \<longleftrightarrow> served r g \<or> g \<in> pi_face ` set (i_pending i)"
      "c_pkt c1 = c_pkt c" "c_ref c1 = c_ref c" "c_last_used c1 = c_last_used c"
      using serve_step[OF Cons.prems True, of cnt] unfolding new_def e_def by blast
    have sat: "satisfies h c1 = satisfies h c" using s(7) by (rule satisfies_pkt)
    have c1: "unawaited h c1 = unawaited h c" "waiting h c1 = waiting h c"
      by (simp_all add: unawaited_def[abs_def] waiting_def[abs_def] sat)
    obtain r' c' more where r': "serve_loop h es c1 (cnt + length new + e) r2
        = Inr (cnt + length new + e + length more + unawaited h c es, c', r')"
      "serving r2 r'" "relay_wf r'" "rl_pit r' = ds @ filter (\<lambda>i. \<not> satisfies h c i) es"
      "c_pkt c' = c_pkt c1" "c_ref c' = c_ref c1" "c_last_used c' = c_last_used c1" "rl_tx r' = rl_tx r2 @ serve_tx r2 b more"
      "distinct more" "set more = {f \<in> waiting h c es. \<not> served r2 f}"
      using Cons.IH[OF s(3) _ _ s(4), of c1 "cnt + length new + e"] Cons.prems(2,3) s(7) unfolding c1 sat by auto
    have un: "unawaited h c (i # es) = e + unawaited h c es" using True by (simp add: unawaited_def e_def)
    have d: "distinct (new @ more)"
      using r'(9,10) iwf s(6) by (auto simp: new_def interest_wf_def)
    have w: "waiting h c (i # es) = pi_face ` set (i_pending i) \<union> waiting h c es" using True by (auto simp: waiting_def)
    have st: "set (new @ more) = {f \<in> waiting h c (i # es). \<not> served r f}"
      unfolding w using r'(10) s(6) by (auto simp: new_def)
    have tx: "rl_tx r' = rl_tx r @ serve_tx r b (new @ more)"
      using r'(8) s(5) by (simp add: serve_tx_append serve_tx_serving[OF s(2)])
    have fi: "filter (\<lambda>i. \<not> satisfies h c i) (i # es) = filter (\<lambda>i. \<not> satisfies h c i) es" using True by simp
    have l: "cnt + length (new @ more) + unawaited h c (i # es) = cnt + length new + e + length more + unawaited h c es"
      using un by simp
    have sr: "serving r r'" by (rule serving_trans[OF s(2) r'(2)])
    have res: "serve_loop h (i # es) c cnt r = Inr (cnt + length (new @ more) + unawaited h c (i # es), c', r')"
      using s(1) r'(1) l by (simp only:)
    show ?thesis
      by (rule exI[of _ r'], rule exI[of _ c'], rule exI[of _ "new @ more"])
        (use res sr r'(3-7) s(7-9) tx d st fi in simp)
  qed
qed

section \<open>The operation\<close>

lemma not_served_cleared: "\<not> served (r\<lparr>rl_faces := map unserve fs\<rparr>) f"
  by (auto simp: served_def simp del: unserve_simps(7))

lemma serve_pending_wf:
  assumes wf: "relay_wf r" and c: "pkt_wf (c_pkt c)" "pkt_buf (c_pkt c) = Some b"
  shows "\<exists>r' c' fs. ccnl_content_serve_pending h c r = Inr (length fs + unawaited h c (rl_pit r), c', r')
      \<and> serving r r' \<and> relay_wf r' \<and> rl_pit r' = filter (\<lambda>i. \<not> satisfies h c i) (rl_pit r)
      \<and> c_pkt c' = c_pkt c \<and> c_ref c' = c_ref c \<and> c_last_used c' = c_last_used c
      \<and> rl_tx r' = rl_tx r @ serve_tx r b fs \<and> distinct fs \<and> set fs = waiting h c (rl_pit r)"
proof -
  let ?r = "r\<lparr>rl_faces := map unserve (rl_faces r)\<rparr>"
  have eq: "ccnl_content_serve_pending h c r = serve_loop h (rl_pit r) c 0 ?r"
    by (simp add: ccnl_content_serve_pending_def unserve_def[abs_def])
  have wf': "relay_wf ?r"
    using wf face_mark_map(4)[OF mark_wf] by (simp add: unserve_def[abs_def])
  have sv: "serving r ?r" by (simp add: serving_def)
  obtain r' c' fs where "serve_loop h (rl_pit r) c 0 ?r = Inr (0 + length fs + unawaited h c (rl_pit r), c', r')"
    "serving ?r r'" "relay_wf r'" "rl_pit r' = [] @ filter (\<lambda>i. \<not> satisfies h c i) (rl_pit r)"
    "c_pkt c' = c_pkt c" "c_ref c' = c_ref c" "c_last_used c' = c_last_used c" "rl_tx r' = rl_tx ?r @ serve_tx ?r b fs"
    "distinct fs" "set fs = {f \<in> waiting h c (rl_pit r). \<not> served ?r f}"
    using serve_loop_wf[OF wf' c, of "[]" "rl_pit r" h 0] by auto
  then show ?thesis
    using eq serving_trans[OF sv] not_served_cleared serve_tx_serving[OF sv]
    by (intro exI[of _ r'] exI[of _ c'] exI[of _ fs]) simp
qed

end
