(* ===== verification/Relay_Tables.thy ===== *)
theory Relay_Tables
  imports Relay_Serve
begin

text \<open>
  The content store, the nonce list and the forwarding table in closed form: what an insertion
  evicts and admits, which nonces are remembered, and the table of forwarding entries as a map
  from (suite, name).
\<close>

section \<open>Names in the cache\<close>

lemma cs_has_name_wf:
  "(\<forall>c\<in>set cs. pkt_wf (c_pkt c)) \<Longrightarrow>
    cs_has_name p cs = Inr ((pfx_comp p, pfx_chunknum p) \<in> (pkt_name \<circ> c_pkt) ` set cs)"
  by (induction cs) (auto simp: pkt_wf_def pkt_name_def prefix_cmp_exact md_comp_def)

section \<open>Eviction\<close>

definition dynamic :: "content \<Rightarrow> bool" where
  "dynamic c \<longleftrightarrow> c_flags c AND CCNL_CONTENT_FLAGS_STATIC = 0"

definition oldest_of :: "content list \<Rightarrow> content \<Rightarrow> bool" where
  "oldest_of cs c \<longleftrightarrow> c \<in> set cs \<and> dynamic c \<and> (\<forall>d\<in>set cs. dynamic d \<longrightarrow> c_last_used c \<le> c_last_used d)"

lemma oldest_loop_aged:
  "age \<noteq> 0 \<Longrightarrow> \<forall>c\<in>set cs. dynamic c \<longrightarrow> c_last_used c \<noteq> 0 \<Longrightarrow>
    (oldest_loop cs age old = old \<and> (\<forall>d\<in>set cs. dynamic d \<longrightarrow> age \<le> c_last_used d))
    \<or> (\<exists>c. oldest_of cs c \<and> c_last_used c < age \<and> oldest_loop cs age old = Some (c_ref c))"
proof (induction cs arbitrary: age old)
  case (Cons c cs)
  show ?case
  proof (cases "dynamic c \<and> c_last_used c < age")
    case True
    then have eq: "oldest_loop (c # cs) age old = oldest_loop cs (c_last_used c) (Some (c_ref c))"
      by (simp add: dynamic_def)
    have "c_last_used c \<noteq> 0" using Cons.prems True by simp
    from Cons.IH[OF this, of "Some (c_ref c)"] Cons.prems(2) show ?thesis
      unfolding eq using True by (auto simp: oldest_of_def intro: order_trans less_imp_le)
  next
    case False
    then have eq: "oldest_loop (c # cs) age old = oldest_loop cs age old"
      using Cons.prems(1) by (auto simp: dynamic_def)
    from Cons.IH[OF Cons.prems(1), of old] Cons.prems(2) False show ?thesis
      unfolding eq by (auto simp: oldest_of_def)
  qed
qed simp

lemma oldest_loop_first:
  "\<forall>c\<in>set cs. dynamic c \<longrightarrow> c_last_used c \<noteq> 0 \<Longrightarrow>
    (case oldest_loop cs 0 None of None \<Rightarrow> \<forall>c\<in>set cs. \<not> dynamic c
      | Some i \<Rightarrow> \<exists>c. oldest_of cs c \<and> i = c_ref c)"
proof (induction cs)
  case (Cons c cs)
  show ?case
  proof (cases "dynamic c")
    case True
    then have eq: "oldest_loop (c # cs) 0 None = oldest_loop cs (c_last_used c) (Some (c_ref c))"
      by (simp add: dynamic_def)
    have "c_last_used c \<noteq> 0" using Cons.prems True by simp
    from oldest_loop_aged[OF this, of cs "Some (c_ref c)"] Cons.prems show ?thesis
      unfolding eq using True by (auto simp: oldest_of_def intro: less_imp_le split: option.split)
  next
    case False
    then show ?thesis using Cons by (auto simp: dynamic_def oldest_of_def split: option.splits)
  qed
qed simp

lemma oldest_loop_range:
  "oldest_loop cs age old = old \<or> (\<exists>c\<in>set cs. dynamic c \<and> oldest_loop cs age old = Some (c_ref c))"
proof (induction cs age old rule: oldest_loop.induct)
  case (2 c cs age old)
  then show ?case by (auto simp: dynamic_def)
qed simp

lemma oldest_loop_some: "\<exists>c\<in>set cs. dynamic c \<Longrightarrow> oldest_loop cs 0 None \<noteq> None"
  and oldest_loop_Some: "oldest_loop cs age (Some i) \<noteq> None"
proof -
  show s: "oldest_loop cs age (Some i) \<noteq> None" for cs age i
    using oldest_loop_range[of cs age "Some i"] by auto
  show "\<exists>c\<in>set cs. dynamic c \<Longrightarrow> oldest_loop cs 0 None \<noteq> None"
    using s by (induction cs) (auto simp: dynamic_def simp del: not_None_eq)
qed

section \<open>Adding\<close>

definition victim :: "relay \<Rightarrow> ref option" where
  "victim r = (if rl_max_cache_entries r > 0 \<and> rl_contentcnt r \<ge> rl_max_cache_entries r
     then oldest_loop (rl_contents r) 0 None else None)"

definition evict :: "relay \<Rightarrow> content list" where
  "evict r = filter (\<lambda>c. victim r \<noteq> Some (c_ref c)) (rl_contents r)"

definition room :: "relay \<Rightarrow> bool" where
  "room r \<longleftrightarrow> rl_max_cache_entries r \<le> 0 \<or> int (length (evict r)) \<le> rl_max_cache_entries r"

definition fresh_content :: "relay \<Rightarrow> content \<Rightarrow> bool" where
  "fresh_content r c \<longleftrightarrow> pkt_wf (c_pkt c) \<and> c_ref c < rl_fresh r \<and> c_ref c \<notin> c_ref ` set (rl_contents r)"

definition cached_name :: "relay \<Rightarrow> pkt \<Rightarrow> bool" where
  "cached_name r p \<longleftrightarrow> pkt_name p \<in> (pkt_name \<circ> c_pkt) ` set (rl_contents r)"

lemma victim_mem: "victim r = Some i \<Longrightarrow> \<exists>c\<in>set (rl_contents r). dynamic c \<and> i = c_ref c"
  using oldest_loop_range[of "rl_contents r" 0 None] by (auto simp: victim_def split: if_splits)

lemma cs_wf_contents:
  "cs_wf r \<Longrightarrow> cs_wf (r\<lparr>rl_contents := filter P (rl_contents r), rl_contentcnt := int (length (filter P (rl_contents r)))\<rparr>)"
  by (auto simp: cs_wf_def distinct_map_filter intro: int_filter_le)

lemma relay_wf_cs: "relay_wf r \<Longrightarrow> cs_wf (r\<lparr>rl_contents := xs, rl_contentcnt := n\<rparr>) \<Longrightarrow> relay_wf (r\<lparr>rl_contents := xs, rl_contentcnt := n\<rparr>)"
  by (simp add: relay_wf_def faces_wf_def ifs_wf_def pit_wf_def fib_wf_def nonces_wf_def face_ids_def out_faces_def)

lemma add2cache_wf:
  assumes wf: "relay_wf r" and c: "fresh_content r c" and h: "hk_cs_remove h = None"
  shows "ccnl_content_add2cache h c r =
      (if cached_name r (c_pkt c) then Inr (False, r)
       else Inr (True, if room r then r\<lparr>rl_contents := c # evict r, rl_contentcnt := int (length (evict r)) + 1\<rparr>
                       else r\<lparr>rl_contents := evict r, rl_contentcnt := int (length (evict r))\<rparr>))"
    and "\<not> cached_name r (c_pkt c) \<Longrightarrow> room r \<Longrightarrow> relay_wf (r\<lparr>rl_contents := c # evict r, rl_contentcnt := int (length (evict r)) + 1\<rparr>)"
    and "relay_wf (r\<lparr>rl_contents := evict r, rl_contentcnt := int (length (evict r))\<rparr>)"
proof -
  have cwf: "cs_wf r" using wf by (simp add: relay_wf_def)
  let ?e = "r\<lparr>rl_contents := evict r, rl_contentcnt := int (length (evict r))\<rparr>"
  obtain p where p: "pkt_pfx (c_pkt c) = Some p" using c by (auto simp: fresh_content_def pkt_wf_def)
  have dup: "(if rl_contents r = [] then Inr False
      else bindE (deref (pkt_pfx (c_pkt c))) (\<lambda>p. cs_has_name p (rl_contents r))) = Inr (cached_name r (c_pkt c))"
    using cwf p cs_has_name_wf[of "rl_contents r" p] by (simp add: cs_wf_def cached_name_def pkt_name_def)
  have ev: "(if rl_max_cache_entries r > 0 \<and> rl_contentcnt r \<ge> rl_max_cache_entries r
      then (case cache_strategy_remove h r c of (rc, r1) \<Rightarrow> if rc \<noteq> 0 then Inr r1
        else (case oldest_loop (rl_contents r1) 0 None of None \<Rightarrow> Inr r1 | Some i \<Rightarrow> ccnl_content_remove i r1)) else Inr r) = Inr ?e"
  proof (cases "victim r")
    case None
    have "evict r = rl_contents r" using None by (simp add: evict_def)
    moreover have "rl_contentcnt r = int (length (rl_contents r))" using cwf by (simp add: cs_wf_def)
    ultimately have "?e = r" by simp
    then show ?thesis using None h by (auto simp: victim_def cache_strategy_remove_def split: if_splits)
  next
    case (Some i)
    then obtain x where x: "x \<in> set (rl_contents r)" "i = c_ref x" using victim_mem by blast
    have "evict r = filter (\<lambda>y. c_ref y \<noteq> i) (rl_contents r)" unfolding evict_def Some by (intro filter_cong) auto
    moreover have "rl_contentcnt r - 1 = int (length (filter (\<lambda>y. c_ref y \<noteq> i) (rl_contents r)))"
      using cwf x length_filter_key[of c_ref "rl_contents r" x] by (simp add: cs_wf_def)
    moreover have "cs_get r i = Inr x" using cs.get_member[OF cwf x(1)] x(2) by simp
    ultimately have "ccnl_content_remove i r = Inr ?e" by (simp add: ccnl_content_remove_def)
    then show ?thesis using Some h by (simp add: victim_def cache_strategy_remove_def split: if_splits)
  qed
  show "ccnl_content_add2cache h c r =
      (if cached_name r (c_pkt c) then Inr (False, r)
       else Inr (True, if room r then r\<lparr>rl_contents := c # evict r, rl_contentcnt := int (length (evict r)) + 1\<rparr> else ?e))"
    unfolding ccnl_content_add2cache_def dup ev by (simp add: room_def)
  have ecwf: "cs_wf ?e" using cs_wf_contents[OF cwf] by (simp add: evict_def)
  then show "relay_wf ?e" using wf by (rule relay_wf_cs[rotated])
  assume n: "\<not> cached_name r (c_pkt c)" "room r"
  have "cs_wf (r\<lparr>rl_contents := c # evict r, rl_contentcnt := int (length (evict r)) + 1\<rparr>)"
    using ecwf c n by (auto simp: cs_wf_def fresh_content_def cached_name_def evict_def room_def)
  then show "relay_wf (r\<lparr>rl_contents := c # evict r, rl_contentcnt := int (length (evict r)) + 1\<rparr>)"
    using wf by (rule relay_wf_cs[rotated])
qed

lemma evict_bound:
  assumes wf: "relay_wf r" and m: "rl_max_cache_entries r > 0" and n: "rl_contentcnt r \<le> rl_max_cache_entries r + 1"
  shows "int (length (evict r)) \<le> rl_contentcnt r"
    and "\<exists>x\<in>set (rl_contents r). dynamic x \<Longrightarrow> rl_contentcnt r \<le> rl_max_cache_entries r \<Longrightarrow> int (length (evict r)) < rl_max_cache_entries r"
proof -
  have cwf: "cs_wf r" using wf by (simp add: relay_wf_def)
  show "int (length (evict r)) \<le> rl_contentcnt r" using cwf by (simp add: cs_wf_def evict_def)
  assume d: "\<exists>x\<in>set (rl_contents r). dynamic x" and le: "rl_contentcnt r \<le> rl_max_cache_entries r"
  show "int (length (evict r)) < rl_max_cache_entries r"
  proof (cases "victim r")
    case None
    then have "rl_contentcnt r < rl_max_cache_entries r" using oldest_loop_some[OF d] m by (auto simp: victim_def split: if_splits)
    then show ?thesis using cwf None by (simp add: cs_wf_def evict_def)
  next
    case (Some i)
    then obtain x where x: "x \<in> set (rl_contents r)" "i = c_ref x" using victim_mem by blast
    have "evict r = filter (\<lambda>y. c_ref y \<noteq> c_ref x) (rl_contents r)"
      unfolding evict_def Some x(2) by (intro filter_cong) auto
    then show ?thesis using cwf x(1) le length_filter_key[of c_ref "rl_contents r" x] by (simp add: cs_wf_def)
  qed
qed

section \<open>Nonces\<close>

lemma nonce_step:
  assumes "nonces_wf r"
  shows "ccnl_nonce_find_or_append r n =
    (if n \<in> set (rl_nonces r) then (-1, r) else (0, r\<lparr>rl_nonces := take CCNL_MAX_NONCES (n # rl_nonces r)\<rparr>))"
proof -
  have "(if length (rl_nonces r) \<ge> CCNL_MAX_NONCES \<and> length (rl_nonces r) \<ge> 2 then butlast (n # rl_nonces r)
      else n # rl_nonces r) = take CCNL_MAX_NONCES (n # rl_nonces r)"
    using assms by (cases "length (rl_nonces r) = CCNL_MAX_NONCES") (auto simp: nonces_wf_def butlast_conv_take)
  then show ?thesis by (simp add: ccnl_nonce_find_or_append_def Let_def)
qed

lemma nonces_wf_step: "nonces_wf r \<Longrightarrow> n \<notin> set (rl_nonces r) \<Longrightarrow> nonces_wf (r\<lparr>rl_nonces := take CCNL_MAX_NONCES (n # rl_nonces r)\<rparr>)"
  by (auto simp: nonces_wf_def dest: in_set_takeD)

lemma relay_wf_nonces: "relay_wf r \<Longrightarrow> nonces_wf (r\<lparr>rl_nonces := ns\<rparr>) \<Longrightarrow> relay_wf (r\<lparr>rl_nonces := ns\<rparr>)"
  by (simp add: relay_wf_def faces_wf_def ifs_wf_def pit_wf_def fib_wf_def cs_wf_def face_ids_def out_faces_def)

lemma nonce_isDup_wf:
  assumes "relay_wf r"
  obtains d ns where "ccnl_nonce_isDup r p = (d, r\<lparr>rl_nonces := ns\<rparr>)" "relay_wf (r\<lparr>rl_nonces := ns\<rparr>)"
proof -
  let ?nc = "if pkt_suite p = CCNL_SUITE_CCNB then cb_nonce (s_ccnb p)
                  else if pkt_suite p = CCNL_SUITE_NDNTLV then nd_nonce (s_ndntlv p) else None"
  have nw: "nonces_wf r" using assms by (simp add: relay_wf_def)
  show ?thesis
  proof (cases ?nc)
    case None
    then show ?thesis using that[of False "rl_nonces r"] assms by (simp add: ccnl_nonce_isDup_def Let_def)
  next
    case (Some n)
    show ?thesis
    proof (cases "n \<in> set (rl_nonces r)")
      case True
      then show ?thesis using that[of True "rl_nonces r"] assms Some nonce_step[OF nw, of n]
        by (simp add: ccnl_nonce_isDup_def Let_def)
    next
      case False
      then show ?thesis
        using that[of False "take CCNL_MAX_NONCES (n # rl_nonces r)"] assms Some nonce_step[OF nw, of n]
          relay_wf_nonces[OF assms nonces_wf_step[OF nw]]
        by (simp add: ccnl_nonce_isDup_def Let_def)
    qed
  qed
qed

section \<open>The forwarding table\<close>

definition fib_key :: "forward \<Rightarrow> int \<times> (bytes list \<times> u32 option) option" where
  "fib_key fw = (fw_suite fw, map_option (\<lambda>p. (pfx_comp p, pfx_chunknum p)) (fw_prefix fw))"

definition prefix_key :: "prefix \<Rightarrow> int \<times> (bytes list \<times> u32 option) option" where
  "prefix_key p = (pfx_suite p, Some (pfx_comp p, pfx_chunknum p))"

lemma fib_search_spec:
  "(\<forall>fw\<in>set fws. fw_prefix fw \<noteq> None) \<Longrightarrow>
    fib_search p fws k = Inr (if prefix_key p \<in> fib_key ` set fws
      then Some (k + length (takeWhile (\<lambda>fw. fib_key fw \<noteq> prefix_key p) fws)) else None)"
proof (induction fws arbitrary: k)
  case (Cons fw fws)
  then obtain q where "fw_prefix fw = Some q" by auto
  then show ?case using Cons by (auto simp: fib_key_def prefix_key_def prefix_cmp_exact md_comp_def)
qed simp

text \<open>The table with the entry for a name set.\<close>

definition fib_put :: "prefix \<Rightarrow> (forward \<Rightarrow> forward) \<Rightarrow> forward \<Rightarrow> forward list \<Rightarrow> forward list" where
  "fib_put p g new fws = (if prefix_key p \<in> fib_key ` set fws
     then takeWhile (\<lambda>fw. fib_key fw \<noteq> prefix_key p) fws
       @ g (hd (dropWhile (\<lambda>fw. fib_key fw \<noteq> prefix_key p) fws)) # tl (dropWhile (\<lambda>fw. fib_key fw \<noteq> prefix_key p) fws)
     else fws @ [new])"

lemma update_takeWhile:
  assumes "\<exists>x\<in>set xs. \<not> P x"
  shows "xs[length (takeWhile P xs) := g (xs ! length (takeWhile P xs))]
    = takeWhile P xs @ g (hd (dropWhile P xs)) # tl (dropWhile P xs)"
proof -
  have "dropWhile P xs \<noteq> []" using assms by simp
  then have d: "dropWhile P xs = hd (dropWhile P xs) # tl (dropWhile P xs)" by simp
  have "xs = takeWhile P xs @ dropWhile P xs" by simp
  then show ?thesis by (metis d list_update_length nth_append_length)
qed

lemma fib_add_eq:
  assumes "\<forall>fw\<in>set (rl_fib r). fw_prefix fw \<noteq> None"
  shows "ccnl_fib_add_entry r p fc = Inr (0, r\<lparr>rl_fib := fib_put p (\<lambda>fw. fw\<lparr>fw_prefix := Some p, fw_face := fc\<rparr>)
      \<lparr>fw_prefix = Some p, fw_tap = None, fw_face = fc, fw_suite = pfx_suite p\<rparr> (rl_fib r)\<rparr>)"
    and "ccnl_set_tap r p cb = Inr (0, r\<lparr>rl_fib := fib_put p (\<lambda>fw. fw\<lparr>fw_prefix := Some p, fw_tap := Some cb\<rparr>)
      \<lparr>fw_prefix = Some p, fw_tap = Some cb, fw_face = None, fw_suite = pfx_suite p\<rparr> (rl_fib r)\<rparr>)"
proof -
  have upd: "prefix_key p \<in> fib_key ` set (rl_fib r) \<Longrightarrow>
      (rl_fib r)[length (takeWhile (\<lambda>fw. fib_key fw \<noteq> prefix_key p) (rl_fib r)) :=
        g (rl_fib r ! length (takeWhile (\<lambda>fw. fib_key fw \<noteq> prefix_key p) (rl_fib r)))]
      = fib_put p g new (rl_fib r)" for g new
  proof -
    assume k: "prefix_key p \<in> fib_key ` set (rl_fib r)"
    then have "\<exists>x\<in>set (rl_fib r). \<not> fib_key x \<noteq> prefix_key p" by auto
    from update_takeWhile[OF this, of g] show ?thesis using k by (simp add: fib_put_def)
  qed
  show "ccnl_fib_add_entry r p fc = Inr (0, r\<lparr>rl_fib := fib_put p (\<lambda>fw. fw\<lparr>fw_prefix := Some p, fw_face := fc\<rparr>)
      \<lparr>fw_prefix = Some p, fw_tap = None, fw_face = fc, fw_suite = pfx_suite p\<rparr> (rl_fib r)\<rparr>)"
    using upd[of "\<lambda>fw. fw\<lparr>fw_prefix := Some p, fw_face := fc\<rparr>"]
    by (simp add: ccnl_fib_add_entry_def fib_search_spec[OF assms]) (simp add: fib_put_def)
  show "ccnl_set_tap r p cb = Inr (0, r\<lparr>rl_fib := fib_put p (\<lambda>fw. fw\<lparr>fw_prefix := Some p, fw_tap := Some cb\<rparr>)
      \<lparr>fw_prefix = Some p, fw_tap = Some cb, fw_face = None, fw_suite = pfx_suite p\<rparr> (rl_fib r)\<rparr>)"
    using upd[of "\<lambda>fw. fw\<lparr>fw_prefix := Some p, fw_tap := Some cb\<rparr>"]
    by (simp add: ccnl_set_tap_def fib_search_spec[OF assms]) (simp add: fib_put_def)
qed

text \<open>The table as a map from names to entries.\<close>

definition fib_map :: "forward list \<Rightarrow> (int \<times> (bytes list \<times> u32 option) option) \<Rightarrow> forward option" where
  "fib_map fws k = find (\<lambda>fw. fib_key fw = k) fws"

lemma find_append: "find P (xs @ ys) = (case find P xs of None \<Rightarrow> find P ys | Some x \<Rightarrow> Some x)"
  by (induction xs) auto

lemma find_takeWhile: "find P (takeWhile (\<lambda>x. \<not> P x) xs) = None"
  by (auto simp: find_None_iff dest: set_takeWhileD)

lemma find_hd_dropWhile: "\<exists>x\<in>set xs. P x \<Longrightarrow> find P xs = Some (hd (dropWhile (\<lambda>x. \<not> P x) xs))"
  by (induction xs) auto

lemma find_replace:
  assumes "\<exists>x\<in>set xs. key x = k" and "k' \<noteq> k" and "key (g (hd (dropWhile (\<lambda>x. key x \<noteq> k) xs))) = k"
  shows "find (\<lambda>x. key x = k') (takeWhile (\<lambda>x. key x \<noteq> k) xs @ g (hd (dropWhile (\<lambda>x. key x \<noteq> k) xs))
      # tl (dropWhile (\<lambda>x. key x \<noteq> k) xs)) = find (\<lambda>x. key x = k') xs"
  using assms by (induction xs) (auto split: if_splits)

lemma map_key_replace:
  assumes "\<exists>x\<in>set xs. key x = k" and "key (g (hd (dropWhile (\<lambda>x. key x \<noteq> k) xs))) = k"
  shows "map key (takeWhile (\<lambda>x. key x \<noteq> k) xs @ g (hd (dropWhile (\<lambda>x. key x \<noteq> k) xs))
      # tl (dropWhile (\<lambda>x. key x \<noteq> k) xs)) = map key xs"
  using assms by (induction xs) (auto split: if_splits)

lemma hd_dropWhile_key:
  assumes "k \<in> key ` set xs"
  shows "key (hd (dropWhile (\<lambda>x. key x \<noteq> k) xs)) = k \<and> hd (dropWhile (\<lambda>x. key x \<noteq> k) xs) \<in> set xs"
  using assms by (induction xs) auto

lemma fib_put_map:
  assumes new: "fib_key new = prefix_key p" and g: "\<And>fw. fib_key fw = prefix_key p \<Longrightarrow> fib_key (g fw) = prefix_key p"
  shows "fib_map (fib_put p g new fws) k = (if k = prefix_key p
      then Some (case fib_map fws k of None \<Rightarrow> new | Some fw \<Rightarrow> g fw) else fib_map fws k)"
    and "distinct (map fib_key fws) \<Longrightarrow> distinct (map fib_key (fib_put p g new fws))"
    and "set (fib_put p g new fws) \<subseteq> insert new (set fws \<union> g ` set fws)"
proof -
  let ?k = "prefix_key p"
  let ?d = "hd (dropWhile (\<lambda>fw. fib_key fw \<noteq> ?k) fws)"
  consider (hit) "?k \<in> fib_key ` set fws" | (miss) "?k \<notin> fib_key ` set fws" by blast
  then have "fib_map (fib_put p g new fws) k = (if k = ?k
      then Some (case fib_map fws k of None \<Rightarrow> new | Some fw \<Rightarrow> g fw) else fib_map fws k)
    \<and> (distinct (map fib_key fws) \<longrightarrow> distinct (map fib_key (fib_put p g new fws)))
    \<and> set (fib_put p g new fws) \<subseteq> insert new (set fws \<union> g ` set fws)"
  proof cases
    case hit
    have d: "fib_key ?d = ?k" "?d \<in> set fws" using hd_dropWhile_key[OF hit] by auto
    have gk: "fib_key (g ?d) = ?k" using g d by simp
    have ex: "\<exists>x\<in>set fws. fib_key x = ?k" using hit by auto
    have "find (\<lambda>fw. fib_key fw = ?k) (fib_put p g new fws) = Some (g ?d)"
      using hit gk by (simp add: fib_put_def find_append find_takeWhile)
    moreover have "find (\<lambda>fw. fib_key fw = ?k) fws = Some ?d" using find_hd_dropWhile[OF ex] by simp
    moreover have "k \<noteq> ?k \<Longrightarrow> find (\<lambda>fw. fib_key fw = k) (fib_put p g new fws) = find (\<lambda>fw. fib_key fw = k) fws"
      using find_replace[where key = fib_key and g = g, OF ex _ gk, of k] hit by (simp add: fib_put_def)
    moreover have "map fib_key (fib_put p g new fws) = map fib_key fws"
      using map_key_replace[where key = fib_key and g = g, OF ex gk] hit by (simp add: fib_put_def)
    moreover have "set (fib_put p g new fws) \<subseteq> insert new (set fws \<union> g ` set fws)"
    proof -
      have "set (tl (dropWhile (\<lambda>fw. fib_key fw \<noteq> ?k) fws)) \<subseteq> set fws"
        by (metis list.set_sel(2) set_dropWhileD subsetI tl_Nil)
      then show ?thesis using hit d by (auto simp: fib_put_def dest: set_takeWhileD)
    qed
    ultimately show ?thesis by (simp add: fib_map_def)
  next
    case miss
    then have "find (\<lambda>fw. fib_key fw = ?k) fws = None" by (force simp: find_None_iff)
    then show ?thesis using miss new
      by (auto simp: fib_put_def fib_map_def find_append split: option.split)
  qed
  then show "fib_map (fib_put p g new fws) k = (if k = ?k
      then Some (case fib_map fws k of None \<Rightarrow> new | Some fw \<Rightarrow> g fw) else fib_map fws k)"
    and "distinct (map fib_key fws) \<Longrightarrow> distinct (map fib_key (fib_put p g new fws))"
    and "set (fib_put p g new fws) \<subseteq> insert new (set fws \<union> g ` set fws)" by blast+
qed

text \<open>The first entry \<open>ccnl_fib_rem_entry\<close> takes out.\<close>

definition fib_matches :: "prefix option \<Rightarrow> faceref option \<Rightarrow> forward \<Rightarrow> bool" where
  "fib_matches p fc fw \<longleftrightarrow> (case p of None \<Rightarrow> True | Some p \<Rightarrow> fib_key fw = prefix_key p) \<and> (fc = None \<or> fw_face fw = fc)"

lemma fib_rem_loop_spec:
  "(\<forall>fw\<in>set fws. fw_prefix fw \<noteq> None) \<Longrightarrow>
    fib_rem_loop p fc fws = Inr (if \<exists>fw\<in>set fws. fib_matches p fc fw
      then (0, takeWhile (\<lambda>fw. \<not> fib_matches p fc fw) fws @ tl (dropWhile (\<lambda>fw. \<not> fib_matches p fc fw) fws))
      else (-1, fws))"
proof (induction fws)
  case (Cons fw fws)
  then obtain q where q: "fw_prefix fw = Some q" by auto
  have "(case p of None \<Rightarrow> Inr True | Some p \<Rightarrow> if fw_suite fw = pfx_suite p
      then bindE (deref (fw_prefix fw)) (\<lambda>q. Inr (ccnl_prefix_cmp q None p CMP_EXACT = 0)) else Inr False)
    = Inr (case p of None \<Rightarrow> True | Some p \<Rightarrow> fib_key fw = prefix_key p)"
    using q by (auto simp: fib_key_def prefix_key_def prefix_cmp_exact md_comp_def split: option.split)
  then have "fib_rem_loop p fc (fw # fws) = (if fib_matches p fc fw then Inr (0, fws)
      else bindE (fib_rem_loop p fc fws) (\<lambda>(res1, rest). Inr (res1, fw # rest)))"
    by (simp add: fib_matches_def)
  then show ?case using Cons by simp
qed simp

end
