(* ===== verification/Relay_Age.thy ===== *)
theory Relay_Age
  imports Relay_Tables
begin

text \<open>
  Ageing and cleaning up: what one round of \<open>ccnl_do_ageing\<close> keeps, marks, resends and drops in
  each table, and that \<open>ccnl_core_cleanup\<close> empties all of them without touching a freed object.
\<close>

section \<open>Ageing the cache\<close>

definition content_live :: "u32 \<Rightarrow> content \<Rightarrow> bool" where
  "content_live now c \<longleftrightarrow> \<not> (c_last_used c + CCNL_CONTENT_TIMEOUT \<le> now \<and> dynamic c)"

definition content_aged :: "u32 \<Rightarrow> content \<Rightarrow> content" where
  "content_aged now c = (if pkt_suite (c_pkt c) = CCNL_SUITE_NDNTLV
      \<and> ucast (c_last_used c) + nd_freshnessperiod (s_ndntlv (c_pkt c)) div 1000 \<le> (ucast now :: u64) \<and> dynamic c
    then c\<lparr>c_flags := c_flags c OR CCNL_CONTENT_FLAGS_STALE\<rparr> else c)"

definition cache_aged :: "u32 \<Rightarrow> content list \<Rightarrow> content list" where
  "cache_aged now cs = map (content_aged now) (filter (content_live now) cs)"

lemma content_aged_simps [simp]:
  "c_ref (content_aged now c) = c_ref c" "c_pkt (content_aged now c) = c_pkt c"
  by (simp_all add: content_aged_def)

lemma age_contents_eq:
  "rl_contents r = ds @ cs \<Longrightarrow> distinct (map c_ref (ds @ cs)) \<Longrightarrow> rl_contentcnt r = int (length (ds @ cs)) \<Longrightarrow>
    age_contents cs r = Inr (r\<lparr>rl_contents := ds @ cache_aged (rl_now r) cs,
      rl_contentcnt := int (length (ds @ cache_aged (rl_now r) cs))\<rparr>)"
proof (induction cs arbitrary: ds r)
  case Nil
  then show ?case by (simp add: cache_aged_def)
next
  case (Cons c cs)
  show ?case
  proof (cases "content_live (rl_now r) c")
    case False
    have rm: "ccnl_content_remove (c_ref c) r = Inr (r\<lparr>rl_contents := ds @ cs, rl_contentcnt := int (length (ds @ cs))\<rparr>)"
      using key_split(2,3)[OF Cons.prems(2)] Cons.prems by (simp add: ccnl_content_remove_def cs_get_def)
    let ?r = "r\<lparr>rl_contents := ds @ cs, rl_contentcnt := int (length (ds @ cs))\<rparr>"
    have "age_contents cs ?r = Inr (?r\<lparr>rl_contents := ds @ cache_aged (rl_now r) cs,
      rl_contentcnt := int (length (ds @ cache_aged (rl_now r) cs))\<rparr>)"
      using Cons.IH[of ?r ds] Cons.prems(2) by simp
    then show ?thesis using False rm by (simp add: content_live_def dynamic_def cache_aged_def)
  next
    case True
    define c' where "c' = content_aged (rl_now r) c"
    let ?r = "r\<lparr>rl_contents := ds @ c' # cs\<rparr>"
    have "cs_upd (c_ref c) (\<lambda>c. c\<lparr>c_flags := c_flags c OR CCNL_CONTENT_FLAGS_STALE\<rparr>) r
        = r\<lparr>rl_contents := ds @ c\<lparr>c_flags := c_flags c OR CCNL_CONTENT_FLAGS_STALE\<rparr> # cs\<rparr>"
      using key_split(1)[OF Cons.prems(2)] Cons.prems(1) by (simp add: cs_upd_def)
    moreover have "r\<lparr>rl_contents := ds @ c # cs\<rparr> = r" unfolding Cons.prems(1)[symmetric] by simp
    ultimately have step: "age_contents (c # cs) r = age_contents cs ?r"
      using True by (auto simp: content_live_def dynamic_def c'_def content_aged_def)
    have "c_ref c' = c_ref c" by (simp add: c'_def)
    then have "age_contents cs ?r = Inr (?r\<lparr>rl_contents := (ds @ [c']) @ cache_aged (rl_now r) cs,
      rl_contentcnt := int (length ((ds @ [c']) @ cache_aged (rl_now r) cs))\<rparr>)"
      using Cons.IH[of ?r "ds @ [c']"] Cons.prems by simp
    then show ?thesis using step True by (simp add: cache_aged_def c'_def)
  qed
qed

lemma age_contents_wf:
  assumes wf: "relay_wf r"
  shows "age_contents (rl_contents r) r = Inr (r\<lparr>rl_contents := cache_aged (rl_now r) (rl_contents r),
      rl_contentcnt := int (length (cache_aged (rl_now r) (rl_contents r)))\<rparr>)" (is "_ = Inr ?r")
    and "relay_wf (r\<lparr>rl_contents := cache_aged (rl_now r) (rl_contents r),
      rl_contentcnt := int (length (cache_aged (rl_now r) (rl_contents r)))\<rparr>)"
proof -
  have cwf: "cs_wf r" using wf by (simp add: relay_wf_def)
  show "age_contents (rl_contents r) r = Inr ?r"
    using age_contents_eq[of r "[]" "rl_contents r"] cwf by (simp add: cs_wf_def)
  have "cs_wf ?r" using cwf
    by (auto simp: cs_wf_def cache_aged_def distinct_filter_map comp_def distinct_map_filter intro: int_filter_le)
  then show "relay_wf ?r" by (rule relay_wf_cs[OF wf])
qed

section \<open>Ageing the pending interests\<close>

definition interest_live :: "u32 \<Rightarrow> interest \<Rightarrow> bool" where
  "interest_live now i \<longleftrightarrow> \<not> (i_last_used i + i_lifetime i \<le> now \<or> i_retries i \<ge> CCNL_MAX_INTEREST_RETRANSMIT)"

definition retried :: "interest \<Rightarrow> interest" where
  "retried i = i\<lparr>i_retries := i_retries i + 1\<rparr>"

definition interest_tx :: "relay \<Rightarrow> interest \<Rightarrow> (nat \<times> sockunion \<times> bytes) list" where
  "interest_tx r i = (case pkt_buf (i_pkt i) of None \<Rightarrow> []
    | Some b \<Rightarrow> concat (map (fw_tx r b) (filter (fib_hit r i) (rl_fib r))))"

text \<open>Only the pending interests have changed, and packets may have left.\<close>

definition retransmitting :: "relay \<Rightarrow> relay \<Rightarrow> bool" where
  "retransmitting r r' \<longleftrightarrow> rl_faces r' = rl_faces r \<and> rl_fib r' = rl_fib r
     \<and> rl_contents r' = rl_contents r \<and> rl_nonces r' = rl_nonces r \<and> rl_contentcnt r' = rl_contentcnt r
     \<and> rl_max_cache_entries r' = rl_max_cache_entries r \<and> rl_max_pit_entries r' = rl_max_pit_entries r
     \<and> rl_ifcount r' = rl_ifcount r \<and> length (rl_ifs r') = length (rl_ifs r) \<and> rl_seqno r' = rl_seqno r
     \<and> rl_fresh r' = rl_fresh r \<and> rl_now r' = rl_now r"

lemma retransmitting_refl [simp]: "retransmitting r r"
  by (simp add: retransmitting_def)

lemma retransmitting_trans: "retransmitting r1 r2 \<Longrightarrow> retransmitting r2 r3 \<Longrightarrow> retransmitting r1 r3"
  by (simp add: retransmitting_def)

lemma retransmitting_out: "out_only r r' \<Longrightarrow> retransmitting r r'"
  by (simp add: retransmitting_def out_only_fields)

lemma interest_tx_same:
  assumes "rl_faces r' = rl_faces r" and "rl_fib r' = rl_fib r"
  shows "interest_tx r' = interest_tx r"
proof -
  have "face_get r' = face_get r" by (intro ext) (simp add: assms face_get_def)
  then have "fib_hit r' = fib_hit r" "fw_tx r' = fw_tx r"
    by (simp_all only: fib_hit_def[abs_def] fw_tx_def[abs_def] tx_to_def[abs_def])
  then show ?thesis using assms by (simp only: interest_tx_def[abs_def])
qed

lemma retransmitting_tx: "retransmitting r r' \<Longrightarrow> interest_tx r' = interest_tx r"
  by (rule interest_tx_same) (simp_all add: retransmitting_def)

lemma retry_wf:
  assumes wf: "relay_wf r" and p: "rl_pit r = ds @ i # es"
  shows "relay_wf (pit_upd (i_ref i) (\<lambda>i. i\<lparr>i_retries := i_retries i + 1\<rparr>) r)"
    and "rl_pit (pit_upd (i_ref i) (\<lambda>i. i\<lparr>i_retries := i_retries i + 1\<rparr>) r) = ds @ retried i # es"
    and "retransmitting r (pit_upd (i_ref i) (\<lambda>i. i\<lparr>i_retries := i_retries i + 1\<rparr>) r)"
proof -
  have d: "distinct (map i_ref (ds @ i # es))" using wf p by (simp add: relay_wf_def pit_wf_def)
  have eq: "pit_upd (i_ref i) (\<lambda>i. i\<lparr>i_retries := i_retries i + 1\<rparr>) r = r\<lparr>rl_pit := ds @ retried i # es\<rparr>"
    using key_split(1)[OF d] p by (simp add: pit_upd_def retried_def)
  have "pit_wf (r\<lparr>rl_pit := ds @ retried i # es\<rparr>)"
    using wf p by (simp add: relay_wf_def pit_wf_def face_ids_def retried_def interest_wf_def)
  then show "relay_wf (pit_upd (i_ref i) (\<lambda>i. i\<lparr>i_retries := i_retries i + 1\<rparr>) r)"
    unfolding eq using wf
    by (simp add: relay_wf_def faces_wf_def ifs_wf_def fib_wf_def cs_wf_def nonces_wf_def out_faces_def)
  show "rl_pit (pit_upd (i_ref i) (\<lambda>i. i\<lparr>i_retries := i_retries i + 1\<rparr>) r) = ds @ retried i # es"
    and "retransmitting r (pit_upd (i_ref i) (\<lambda>i. i\<lparr>i_retries := i_retries i + 1\<rparr>) r)"
    unfolding eq by (simp_all add: retransmitting_def)
qed

lemma age_pit_wf:
  "relay_wf r \<Longrightarrow> rl_pit r = ds @ es \<Longrightarrow>
    \<exists>r'. age_pit es r = Inr r' \<and> relay_wf r' \<and> retransmitting r r'
      \<and> rl_pit r' = ds @ map retried (filter (interest_live (rl_now r)) es)
      \<and> rl_tx r' = rl_tx r @ concat (map (interest_tx r) (filter (interest_live (rl_now r)) es))"
proof (induction es arbitrary: ds r)
  case Nil
  then show ?case by simp
next
  case (Cons i es)
  show ?case
  proof (cases "interest_live (rl_now r) i")
    case False
    obtain r1 where r1: "ccnl_interest_remove (i_ref i) r = Inr r1"
      "r1 = r\<lparr>rl_pit := ds @ es, rl_pitcnt := rl_pitcnt r - 1\<rparr>" "relay_wf r1"
      using interest_remove_wf[OF Cons.prems] by blast
    have rt: "retransmitting r r1" by (simp add: r1(2) retransmitting_def)
    obtain r' where "age_pit es r1 = Inr r'" "relay_wf r'" "retransmitting r1 r'"
      "rl_pit r' = ds @ map retried (filter (interest_live (rl_now r1)) es)"
      "rl_tx r' = rl_tx r1 @ concat (map (interest_tx r1) (filter (interest_live (rl_now r1)) es))"
      using Cons.IH[OF r1(3), of ds] r1(2) by auto
    moreover have "rl_now r1 = rl_now r" "rl_tx r1 = rl_tx r" by (simp_all add: r1(2))
    moreover have "age_pit (i # es) r = age_pit es r1" using False r1(1) by (simp add: interest_live_def)
    ultimately show ?thesis
      using False retransmitting_trans[OF rt] retransmitting_tx[OF rt] by simp
  next
    case True
    have iwf: "interest_wf (face_ids r) i" using Cons.prems by (simp add: relay_wf_def pit_wf_def)
    then obtain b where b: "pkt_buf (i_pkt i) = Some b" by (auto simp: interest_wf_def pkt_wf_def)
    obtain r1 where r1: "ccnl_interest_propagate (Some i) r = Inr r1" "out_only r r1" "rl_tx r1 = rl_tx r @ interest_tx r i"
      using propagate_wf[OF Cons.prems(1) iwf b] b by (auto simp: interest_tx_def)
    have wf1: "relay_wf r1" and p1: "rl_pit r1 = ds @ i # es"
      using r1(2) Cons.prems by (auto intro: out_only_wf simp: out_only_fields[OF r1(2)])
    define r2 where "r2 = pit_upd (i_ref i) (\<lambda>i. i\<lparr>i_retries := i_retries i + 1\<rparr>) r1"
    note r2 = retry_wf[OF wf1 p1, folded r2_def]
    have rt: "retransmitting r r2" using retransmitting_trans[OF retransmitting_out[OF r1(2)] r2(3)] .
    obtain r' where "age_pit es r2 = Inr r'" "relay_wf r'" "retransmitting r2 r'"
      "rl_pit r' = (ds @ [retried i]) @ map retried (filter (interest_live (rl_now r2)) es)"
      "rl_tx r' = rl_tx r2 @ concat (map (interest_tx r2) (filter (interest_live (rl_now r2)) es))"
      using Cons.IH[OF r2(1), of "ds @ [retried i]"] r2(2) by auto
    moreover have "rl_now r2 = rl_now r" "rl_tx r2 = rl_tx r1"
      using rt by (simp_all add: retransmitting_def r2_def pit_upd_def)
    moreover have "age_pit (i # es) r = age_pit es r2" using True r1(1) by (simp add: interest_live_def r2_def)
    ultimately show ?thesis
      using True r1(3) retransmitting_trans[OF rt] retransmitting_tx[OF rt] by simp
  qed
qed

section \<open>Ageing the faces\<close>

definition face_live :: "u32 \<Rightarrow> face \<Rightarrow> bool" where
  "face_live now f \<longleftrightarrow> \<not> (f_flags f AND CCNL_FACE_FLAGS_STATIC = 0 \<and> f_last_used f + CCNL_FACE_TIMEOUT \<le> now)"

lemma without_face_ids':
  "f_faceid ` set (rl_faces (without_face f r)) = f_faceid ` set (rl_faces r) - {f}"
  using without_face_ids(1)[of f r] by (simp add: face_ids_def)

lemma age_faces_wf:
  "relay_wf r \<Longrightarrow> set fs \<subseteq> set (rl_faces r) \<Longrightarrow> distinct (map f_faceid fs) \<Longrightarrow>
    age_faces fs r = Inr (fold without_face (map f_faceid (filter (\<lambda>f. \<not> face_live (rl_now r) f) fs)) r)
    \<and> relay_wf (fold without_face (map f_faceid (filter (\<lambda>f. \<not> face_live (rl_now r) f) fs)) r)"
proof (induction fs arbitrary: r)
  case Nil
  then show ?case by simp
next
  case (Cons f fs)
  show ?case
  proof (cases "face_live (rl_now r) f")
    case True
    then have "age_faces (f # fs) r = age_faces fs r" by (auto simp: face_live_def)
    then show ?thesis using Cons.IH[of r] Cons.prems True by simp
  next
    case False
    let ?r = "without_face (f_faceid f) r"
    obtain f2 where "ccnl_face_remove (f_faceid f) r = Inr (f2, ?r)"
      using face_remove_eq[OF Cons.prems(1), of "f_faceid f"] Cons.prems(2) by (auto simp: face_ids_def)
    then have st: "age_faces (f # fs) r = age_faces fs ?r" using False by (simp add: face_live_def)
    have now: "rl_now ?r = rl_now r" by (simp add: without_face_def)
    have "set fs \<subseteq> set (rl_faces ?r)"
      using Cons.prems(2,3) by (auto simp: without_face_def rev_image_eqI)
    then show ?thesis
      using Cons.IH[of ?r] without_face_wf[OF Cons.prems(1)] Cons.prems(3) False st now by simp
  qed
qed

section \<open>One round of ageing\<close>

definition expired_faces :: "relay \<Rightarrow> faceref list" where
  "expired_faces r = map f_faceid (filter (\<lambda>f. \<not> face_live (rl_now r) f) (rl_faces r))"

lemma fold_without_face:
  "rl_faces (fold without_face fs r) = filter (\<lambda>x. f_faceid x \<notin> set fs) (rl_faces r)"
  "rl_fib (fold without_face fs r) = filter (\<lambda>fw. \<forall>f\<in>set fs. fw_face fw \<noteq> Some f) (rl_fib r)"
  "rl_pit (fold without_face fs r) = fold pit_without fs (rl_pit r)"
  "rl_contents (fold without_face fs r) = rl_contents r"
  "rl_tx (fold without_face fs r) = rl_tx r"
  by (induction fs arbitrary: r) (auto simp: without_face_def intro!: filter_cong)

lemma do_ageing_wf:
  assumes wf: "relay_wf r"
  shows "\<exists>r'. ccnl_do_ageing r = Inr r' \<and> relay_wf r'
    \<and> rl_contents r' = cache_aged (rl_now r) (rl_contents r)
    \<and> rl_faces r' = filter (face_live (rl_now r)) (rl_faces r)
    \<and> rl_fib r' = filter (\<lambda>fw. \<forall>f\<in>set (expired_faces r). fw_face fw \<noteq> Some f) (rl_fib r)
    \<and> rl_pit r' = fold pit_without (expired_faces r) (map retried (filter (interest_live (rl_now r)) (rl_pit r)))
    \<and> rl_tx r' = rl_tx r @ concat (map (interest_tx r) (filter (interest_live (rl_now r)) (rl_pit r)))"
proof -
  define r1 where "r1 = r\<lparr>rl_contents := cache_aged (rl_now r) (rl_contents r),
      rl_contentcnt := int (length (cache_aged (rl_now r) (rl_contents r)))\<rparr>"
  note c = age_contents_wf[OF wf, folded r1_def]
  have r1: "rl_pit r1 = rl_pit r" "rl_faces r1 = rl_faces r" "rl_fib r1 = rl_fib r" "rl_tx r1 = rl_tx r" "rl_now r1 = rl_now r"
    "rl_contents r1 = cache_aged (rl_now r) (rl_contents r)" "interest_tx r1 = interest_tx r"
    by (simp_all add: r1_def) (rule interest_tx_same, simp_all)
  obtain r2 where r2: "age_pit (rl_pit r) r1 = Inr r2" "relay_wf r2" "retransmitting r1 r2"
    "rl_pit r2 = map retried (filter (interest_live (rl_now r)) (rl_pit r))"
    "rl_tx r2 = rl_tx r @ concat (map (interest_tx r) (filter (interest_live (rl_now r)) (rl_pit r)))"
    using age_pit_wf[OF c(2), of "[]" "rl_pit r"] r1 by auto
  have r2f: "rl_faces r2 = rl_faces r" "rl_fib r2 = rl_fib r" "rl_contents r2 = cache_aged (rl_now r) (rl_contents r)" "rl_now r2 = rl_now r"
    using r2(3) r1 by (simp_all add: retransmitting_def)
  have d: "distinct (map f_faceid (rl_faces r))" using wf by (simp add: relay_wf_def faces_wf_def)
  let ?r = "fold without_face (expired_faces r) r2"
  have f: "age_faces (rl_faces r) r2 = Inr ?r" "relay_wf ?r"
    using age_faces_wf[OF r2(2), of "rl_faces r"] d unfolding expired_faces_def r2f by blast+
  have "f_faceid x \<notin> set (expired_faces r) \<longleftrightarrow> face_live (rl_now r) x" if "x \<in> set (rl_faces r)" for x
  proof -
    have "inj_on f_faceid (set (rl_faces r))" using d by (simp add: distinct_map)
    then have "f_faceid x \<in> f_faceid ` {f \<in> set (rl_faces r). \<not> face_live (rl_now r) f} \<longleftrightarrow> x \<in> {f \<in> set (rl_faces r). \<not> face_live (rl_now r) f}"
      using that by (intro inj_on_image_mem_iff) auto
    then show ?thesis using that by (simp add: expired_faces_def)
  qed
  then have "filter (\<lambda>x. f_faceid x \<notin> set (expired_faces r)) (rl_faces r) = filter (face_live (rl_now r)) (rl_faces r)"
    by (intro filter_cong) auto
  note fc = this
  have "ccnl_do_ageing r = Inr ?r"
    unfolding ccnl_do_ageing_def c(1) bindE_simps r2(1) f(1) ..
  then show ?thesis
    by (intro exI[of _ ?r] conjI) (simp_all only: f(2) fold_without_face r2f fc r2(4,5))
qed

section \<open>Cleaning up\<close>

lemma remove_interests_seq: "remove_interests es r = rem_seq ccnl_interest_remove (map i_ref es) r"
  by (induction es arbitrary: r) (simp_all add: bindE_def split: sum.split)

lemma remove_contents_seq: "remove_contents es r = rem_seq ccnl_content_remove (map c_ref es) r"
  by (induction es arbitrary: r) (simp_all add: bindE_def split: sum.split)

lemma remove_faces_seq: "remove_faces es r = rem_seq face_drop (map f_faceid es) r"
proof (induction es arbitrary: r)
  case (Cons f es)
  then show ?case
    by (cases "ccnl_face_remove (f_faceid f) r") (auto simp: face_drop_def split: prod.split)
qed simp

interpretation rpit: ref_table rl_pit i_ref pit_get ccnl_interest_remove relay_wf
proof (rule ref_table.intro)
  fix r e assume wf: "relay_wf r" and e: "e \<in> set (rl_pit r)"
  then show "pit_get r (i_ref e) = Inr e" by (simp add: pit.get_member relay_wf_def)
  obtain ds es where p: "rl_pit r = ds @ e # es" using e by (meson split_list)
  have "filter (\<lambda>x. i_ref x \<noteq> i_ref e) (rl_pit r) = ds @ es"
    using wf p key_split(2)[of i_ref ds e es] by (simp add: relay_wf_def pit_wf_def)
  then show "\<exists>r'. ccnl_interest_remove (i_ref e) r = Inr r' \<and> relay_wf r' \<and>
      rl_pit r' = filter (\<lambda>x. i_ref x \<noteq> i_ref e) (rl_pit r)"
    using interest_remove_wf[OF wf p] by auto
qed (simp_all add: pit.get_dangling relay_wf_def pit_wf_def)

interpretation rcs: ref_table rl_contents c_ref cs_get ccnl_content_remove relay_wf
proof (rule ref_table.intro)
  fix r e assume wf: "relay_wf r" and e: "e \<in> set (rl_contents r)"
  then show g: "cs_get r (c_ref e) = Inr e" by (simp add: cs.get_member relay_wf_def)
  have "cs_wf r" using wf by (simp add: relay_wf_def)
  from cs.rem_member[OF this e] obtain r' where "ccnl_content_remove (c_ref e) r = Inr r'" "cs_wf r'"
    "rl_contents r' = filter (\<lambda>x. c_ref x \<noteq> c_ref e) (rl_contents r)" by blast
  then show "\<exists>r'. ccnl_content_remove (c_ref e) r = Inr r' \<and> relay_wf r' \<and>
      rl_contents r' = filter (\<lambda>x. c_ref x \<noteq> c_ref e) (rl_contents r)"
    using g relay_wf_cs[OF wf] by (auto simp: ccnl_content_remove_def)
qed (simp_all add: cs.get_dangling relay_wf_def cs_wf_def)

text \<open>Removing the interests touches nothing else, and removing faces keeps the table of pending
  interests empty.\<close>

lemma rem_seq_frame:
  assumes "\<And>k r r'. rm k r = Inr r' \<Longrightarrow> P r \<Longrightarrow> P r'"
  shows "rem_seq rm ks r = Inr r' \<Longrightarrow> P r \<Longrightarrow> P r'"
  using assms by (induction ks arbitrary: r) (auto simp: bindE_eq_Inr_iff)

lemma face_drop_empty_pit: "face_drop f r = Inr r' \<Longrightarrow> rl_pit r = [] \<Longrightarrow> rl_pit r' = [] \<and> rl_contents r' = rl_contents r"
  by (auto simp: face_drop_def ccnl_face_remove_def bindE_eq_Inr_iff Let_def)

lemma core_cleanup_wf:
  assumes wf: "relay_wf r"
  shows "\<exists>r'. ccnl_core_cleanup r = Inr r' \<and> relay_wf r' \<and> rl_pit r' = [] \<and> rl_faces r' = [] \<and> rl_fib r' = []
    \<and> rl_contents r' = [] \<and> rl_nonces r' = [] \<and> rl_pitcnt r' = 0 \<and> rl_contentcnt r' = 0"
proof -
  obtain r1 where r1: "remove_interests (rl_pit r) r = Inr r1" "relay_wf r1" "rl_pit r1 = []"
    using rpit.rem_seq_empties[OF wf] by (auto simp: remove_interests_seq)
  obtain r2 where r2: "rem_seq face_drop (map f_faceid (rl_faces r1)) r1 = Inr r2" "relay_wf r2" "rl_faces r2 = []"
    using faces.rem_seq_empties[OF r1(2)] by auto
  have p2: "rl_pit r2 = []"
    using rem_seq_frame[where P = "\<lambda>r. rl_pit r = []" and rm = face_drop, OF _ r2(1) r1(3)] face_drop_empty_pit by blast
  define r2' where "r2' = r2\<lparr>rl_fib := []\<rparr>"
  have wf2: "relay_wf r2'"
    using r2(2) by (simp add: r2'_def relay_wf_def faces_wf_def ifs_wf_def pit_wf_def fib_wf_def cs_wf_def nonces_wf_def face_ids_def)
  obtain r3 where r3: "rem_seq ccnl_content_remove (map c_ref (rl_contents r2')) r2' = Inr r3" "relay_wf r3" "rl_contents r3 = []"
    using rcs.rem_seq_empties[OF wf2] by auto
  have keep: "rl_pit r3 = [] \<and> rl_faces r3 = [] \<and> rl_fib r3 = []"
    by (rule rem_seq_frame[where P = "\<lambda>r. rl_pit r = [] \<and> rl_faces r = [] \<and> rl_fib r = []" and rm = ccnl_content_remove, OF _ r3(1)])
      (use p2 r2(3) in \<open>auto simp: r2'_def ccnl_content_remove_def bindE_eq_Inr_iff\<close>)
  have "ccnl_core_cleanup r = Inr (r3\<lparr>rl_nonces := []\<rparr>)"
    using r1(1) r2(1) r3(1) by (simp add: ccnl_core_cleanup_def remove_faces_seq remove_contents_seq r2'_def)
  moreover have "relay_wf (r3\<lparr>rl_nonces := []\<rparr>)" by (rule relay_wf_nonces[OF r3(2)]) (simp add: nonces_wf_def)
  moreover have "rl_pitcnt r3 = 0 \<and> rl_contentcnt r3 = 0"
    using r3(2,3) keep by (simp add: relay_wf_def pit_wf_def cs_wf_def)
  ultimately show ?thesis using keep r3(3) by simp
qed

end
