(* ===== verification/Fwd_Inv.thy ===== *)
theory Fwd_Inv
  imports Fwd Relay_Age
begin

text \<open>
  The handlers of Interests and Data keep the relay well-formed, whatever the application's
  callbacks do within their contract (the locale \<open>application\<close>, interpreted on the callbacks as
  they are initially).
\<close>

section \<open>The application\<close>

text \<open>A step that keeps the relay well-formed and no face away.\<close>

definition keeps :: "relay \<Rightarrow> relay \<Rightarrow> bool" where
  "keeps r r' \<longleftrightarrow> relay_wf r' \<and> face_ids r \<subseteq> face_ids r' \<and> (all_out r \<longrightarrow> all_out r')"

lemma keeps_trans: "keeps r1 r2 \<Longrightarrow> keeps r2 r3 \<Longrightarrow> keeps r1 r3"
  by (auto simp: keeps_def)

lemma keeps_out: "relay_wf r \<Longrightarrow> out_only r r' \<Longrightarrow> keeps r r'"
  using out_only_wf[of r r'] out_only_fields(15,16)[of r r'] by (simp add: keeps_def all_out_def)

text \<open>
  What an incoming packet leaves intact: a well-formed relay with the face the packet came from.
  With \<open>strict\<close>, every face has an interface, as on a platform that has no local client.
\<close>

definition live :: "bool \<Rightarrow> faceref \<Rightarrow> relay \<Rightarrow> bool" where
  "live strict f r \<longleftrightarrow> relay_wf r \<and> f \<in> face_ids r \<and> (strict \<longrightarrow> all_out r)"

lemma liveD: "live strict f r \<Longrightarrow> relay_wf r" "live strict f r \<Longrightarrow> f \<in> face_ids r"
  by (simp_all add: live_def)

lemma keeps_live: "keeps r r' \<Longrightarrow> live strict f r \<Longrightarrow> live strict f r'"
  by (auto simp: keeps_def live_def)

text \<open>
  The contract of the callbacks. Management may remove faces, but not the one its request came
  from: the faults it may end with are the set \<open>M\<close>.
\<close>

locale application =
  fixes h :: hooks and strict :: bool and M :: "err set"
  assumes rx_keeps: "relay_wf r \<Longrightarrow> ccnl_callback_rx_on_data h r f p = (rc, r') \<Longrightarrow> keeps r r'"
    and producer_keeps: "relay_wf r \<Longrightarrow> local_producer h r f p = (rc, r') \<Longrightarrow> keeps r r'"
    and mgmt_live: "live strict g r \<Longrightarrow>
      (case hk_mgmt h r b pfx (Some g) of Inl e \<Rightarrow> e \<in> M | Inr (rc, r') \<Rightarrow> live strict g r')"
    and decision_pure: "cache_strategy_cache h r c = (d, r') \<Longrightarrow> r' = r"
    and no_removal: "hk_cs_remove h = None"

text \<open>The callbacks as they are before the application sets them.\<close>

definition hooks_unset ::
    "(relay \<Rightarrow> bytes \<Rightarrow> prefix \<Rightarrow> faceref option \<Rightarrow> (int \<times> relay) res) \<Rightarrow> (bytes \<Rightarrow> bytes option) \<Rightarrow> (pkt \<Rightarrow> bytes) \<Rightarrow> hooks" where
  "hooks_unset mgmt digest behind = \<lparr>hk_rx_on_data = None, hk_tx_on_data = None, hk_producer = None,
     hk_cs_remove = None, hk_cs_decision = None, hk_mgmt = mgmt, hk_digest = digest, hk_behind = behind\<rparr>"

lemma keeps_refl: "relay_wf r \<Longrightarrow> keeps r r"
  by (simp add: keeps_def)

lemma application_unset:
  "(\<And>r b pfx f. live strict f r \<Longrightarrow>
      (case mgmt r b pfx (Some f) of Inl e \<Rightarrow> e \<in> M | Inr (rc, r') \<Rightarrow> live strict f r')) \<Longrightarrow>
    application (hooks_unset mgmt digest behind) strict M"
  by unfold_locales
    (auto simp: hooks_unset_def ccnl_callback_rx_on_data_def local_producer_def cache_strategy_cache_def keeps_refl)

text \<open>Without management the callbacks are inert.\<close>

interpretation unset: application "hooks_unset (\<lambda>r b pfx f. Inr (0, r)) digest behind" strict "{}" for digest behind strict
  by (rule application_unset) simp

section \<open>Interests\<close>

lemma isSame_wf:
  assumes "pkt_wf (i_pkt i)" and "pkt_wf p"
  shows "\<exists>rc. ccnl_interest_isSame (Some i) (Some p) = Inr rc"
  using assms by (auto simp: ccnl_interest_isSame_def pkt_wf_def Let_def)

lemma pit_search_wf:
  "(\<forall>i\<in>set es. pkt_wf (i_pkt i)) \<Longrightarrow> pkt_wf p \<Longrightarrow>
    \<exists>x. pit_search p es = Inr x \<and> set_option x \<subseteq> set es"
proof (induction es)
  case (Cons i es)
  then obtain rc where "ccnl_interest_isSame (Some i) (Some p) = Inr rc" using isSame_wf[of i p] by auto
  then show ?case using Cons by auto
qed simp

definition match_ok :: "(pkt \<Rightarrow> content \<Rightarrow> int res) \<Rightarrow> bool" where
  "match_ok cm \<longleftrightarrow> (\<forall>p c. pkt_wf p \<longrightarrow> pkt_wf (c_pkt c) \<longrightarrow> cm p c \<in> range Inr)"

lemma match_okD: "match_ok cm \<Longrightarrow> pkt_wf p \<Longrightarrow> pkt_wf (c_pkt c) \<Longrightarrow> \<exists>rc. cm p c = Inr rc"
  by (force simp: match_ok_def)

lemma cs_search_wf:
  "(\<forall>c\<in>set cs. pkt_wf (c_pkt c)) \<Longrightarrow> pkt_wf p \<Longrightarrow> match_ok cm \<Longrightarrow>
    \<exists>x. cs_search cm p cs = Inr x \<and> set_option x \<subseteq> set cs"
proof (induction cs)
  case (Cons c cs)
  then obtain rc where "cm p c = Inr rc" using match_okD by fastforce
  moreover obtain q pp where "pkt_pfx (c_pkt c) = Some q" "pkt_pfx p = Some pp"
    using Cons.prems by (auto simp: pkt_wf_def)
  ultimately show ?case using Cons by auto
qed simp

lemma ndntlv_cMatch_ok: "match_ok (ccnl_ndntlv_cMatch h)"
  by (auto simp: match_ok_def ccnl_ndntlv_cMatch_def ccnl_i_prefixof_c_def pkt_wf_def Let_def image_iff split: option.split)

lemma ccntlv_cMatch_ok: "match_ok ccnl_ccntlv_cMatch"
  by (auto simp: match_ok_def ccnl_ccntlv_cMatch_def pkt_wf_def image_iff)

lemma append_pending_wf:
  assumes "interest_wf ids i" and "set_option f \<subseteq> ids"
  shows "\<exists>rc i1. ccnl_interest_append_pending now (Some i) f = (rc, Some i1) \<and> interest_wf ids i1
    \<and> i_ref i1 = i_ref i \<and> i_pkt i1 = i_pkt i \<and> i_from i1 = i_from i
    \<and> pi_face ` set (i_pending i1) = pi_face ` set (i_pending i) \<union> set_option f"
proof (cases f)
  case None
  then show ?thesis using assms by (simp add: ccnl_interest_append_pending_def)
next
  case (Some g)
  have m: "map (pi_face \<circ> (\<lambda>q. if pi_face q = g then q\<lparr>pi_last_used := now\<rparr> else q)) qs = map pi_face qs" for qs :: "pendint list"
    by simp
  have im: "pi_face ` (\<lambda>q. if pi_face q = g then q\<lparr>pi_last_used := now\<rparr> else q) ` A = pi_face ` A" for A :: "pendint set"
    unfolding image_image by (rule image_cong) auto
  show ?thesis using Some assms im[of "set (i_pending i)"]
    by (auto simp: ccnl_interest_append_pending_def interest_wf_def m)
qed

lemma pit_set_wf:
  assumes wf: "relay_wf r" and p: "rl_pit r = ds @ i # es" and i1: "interest_wf (face_ids r) i1" "i_ref i1 = i_ref i"
  shows "relay_wf (pit_upd (i_ref i) (\<lambda>_. i1) r)" and "rl_pit (pit_upd (i_ref i) (\<lambda>_. i1) r) = ds @ i1 # es"
    and "pit_upd (i_ref i) (\<lambda>_. i1) r = r\<lparr>rl_pit := ds @ i1 # es\<rparr>"
proof -
  have d: "distinct (map i_ref (ds @ i # es))" using wf p by (simp add: relay_wf_def pit_wf_def)
  show eq: "pit_upd (i_ref i) (\<lambda>_. i1) r = r\<lparr>rl_pit := ds @ i1 # es\<rparr>"
    using key_split(1)[OF d, of "\<lambda>_. i1"] p by (simp add: pit_upd_def)
  then show "rl_pit (pit_upd (i_ref i) (\<lambda>_. i1) r) = ds @ i1 # es" by simp
  have "pit_wf (r\<lparr>rl_pit := ds @ i1 # es\<rparr>)"
    using wf p i1 by (simp add: relay_wf_def pit_wf_def face_ids_def)
  then show "relay_wf (pit_upd (i_ref i) (\<lambda>_. i1) r)"
    unfolding eq using wf
    by (simp add: relay_wf_def faces_wf_def ifs_wf_def fib_wf_def cs_wf_def nonces_wf_def out_faces_def)
qed

lemma pit_append_wf:
  assumes wf: "relay_wf r" and i: "i \<in> set (rl_pit r)" and f: "set_option f \<subseteq> face_ids r"
  shows "\<exists>r'. pit_append f prop i r = Inr r' \<and> keeps r r'"
proof -
  obtain ds es where p: "rl_pit r = ds @ i # es" using i by (meson split_list)
  have iwf: "interest_wf (face_ids r) i" using wf i by (simp add: relay_wf_def pit_wf_def)
  obtain rc i1 where a: "ccnl_interest_append_pending (rl_now r) (Some i) f = (rc, Some i1)"
    "interest_wf (face_ids r) i1" "i_ref i1 = i_ref i" using append_pending_wf[OF iwf f] by blast
  let ?r = "pit_upd (i_ref i) (\<lambda>_. i1) r"
  note s = pit_set_wf[OF wf p a(2,3)]
  have ids: "face_ids ?r = face_ids r" by (simp add: s(3) face_ids_def)
  obtain b where b: "pkt_buf (i_pkt i1) = Some b" using a(2) by (auto simp: interest_wf_def pkt_wf_def)
  obtain r' where "ccnl_interest_propagate (Some i1) ?r = Inr r'" "out_only ?r r'"
    using propagate_wf[OF s(1) _ b] a(2) ids by auto
  then show ?thesis
    using a(1) s(1) ids keeps_out[OF s(1)] by (auto simp: pit_append_def keeps_def Let_def)
qed

lemma interest_new_wf:
  assumes wf: "relay_wf r" and p: "pkt_wf p" and f: "set_option f \<subseteq> face_ids r"
  shows "ccnl_interest_new r f p = (None, r) \<or>
    (\<exists>i r'. ccnl_interest_new r f p = (Some (i_ref i), r') \<and> rl_pit r' = i # rl_pit r \<and> pit_get r' (i_ref i) = Inr i
      \<and> keeps r r')"
proof (cases "rl_max_pit_entries r \<noteq> -1 \<and> rl_pitcnt r \<ge> rl_max_pit_entries r")
  case True
  then show ?thesis by (simp add: ccnl_interest_new_def)
next
  case False
  define i where "i = \<lparr>i_ref = rl_fresh r, i_pkt = p, i_from = f, i_pending = [],
             i_lifetime = ucast (ccnl_pkt_interest_lifetime p), i_last_used = rl_now r, i_retries = 0\<rparr>"
  define r' where "r' = r\<lparr>rl_pit := i # rl_pit r, rl_fresh := rl_fresh r + 1, rl_pitcnt := rl_pitcnt r + 1\<rparr>"
  have eq: "ccnl_interest_new r f p = (Some (i_ref i), r')"
    using False by (simp add: ccnl_interest_new_def i_def r'_def)
  have ids: "face_ids r' = face_ids r" "out_faces r' = out_faces r" by (simp_all add: r'_def face_ids_def out_faces_def)
  have "interest_wf (face_ids r) i" using p f by (simp add: interest_wf_def i_def)
  then have "pit_wf r'"
    unfolding pit_wf_def ids using wf False by (auto simp: relay_wf_def pit_wf_def r'_def i_def)
  moreover have "cs_wf r'" using wf by (auto simp: relay_wf_def cs_wf_def r'_def)
  ultimately have "relay_wf r'"
    using wf ids by (simp add: relay_wf_def faces_wf_def ifs_wf_def fib_wf_def nonces_wf_def)
      (simp add: r'_def)
  moreover have "pit_get r' (i_ref i) = Inr i" by (simp add: pit_get_def r'_def)
  ultimately show ?thesis using eq ids by (simp add: keeps_def r'_def)
qed

lemma fresh_wf: "relay_wf r \<Longrightarrow> relay_wf (r\<lparr>rl_fresh := rl_fresh r + 1\<rparr>)"
  by (auto simp: relay_wf_def faces_wf_def ifs_wf_def pit_wf_def fib_wf_def cs_wf_def nonces_wf_def face_ids_def out_faces_def)

section \<open>Data\<close>

lemma content_dup_wf:
  "(\<forall>c\<in>set cs. pkt_wf (c_pkt c)) \<Longrightarrow> pkt_pfx p \<noteq> None \<Longrightarrow>
    content_dup p cs = Inr (pkt_name p \<in> (pkt_name \<circ> c_pkt) ` set cs)"
  by (induction cs) (auto simp: pkt_wf_def pkt_name_def prefix_cmp_exact md_comp_def)

lemma content_dup_nameless:
  "(\<forall>c\<in>set cs. pkt_wf (c_pkt c)) \<Longrightarrow> pkt_pfx p = None \<Longrightarrow>
    content_dup p cs = (if cs = [] then Inr False else Inl Null)"
  by (cases cs) (auto simp: pkt_wf_def)

lemma pending_matches_nameless:
  assumes "pkt_wf (i_pkt i)" and "pkt_pfx (c_pkt c) = None"
  shows "pending_matches h c i = Inl Null \<or> pending_matches h c i = Inr (Some False)"
proof -
  obtain q where q: "pkt_pfx (i_pkt i) = Some q" using assms(1) by (auto simp: pkt_wf_def)
  have "ccnl_i_prefixof_c h (Some q) mn mx c = Inl Null" for mn mx
    using assms(2) by (simp add: ccnl_i_prefixof_c_def)
  then show ?thesis using assms(2) by (simp add: pending_matches_def q)
qed

lemma serve_loop_nameless:
  "(\<forall>i\<in>set es. pkt_wf (i_pkt i)) \<Longrightarrow> pkt_pfx (c_pkt c) = None \<Longrightarrow>
    serve_loop h es c cnt r = Inl Null \<or> serve_loop h es c cnt r = Inr (cnt, c, r)"
proof (induction es)
  case (Cons i es)
  then show ?case using pending_matches_nameless[of i c h] by auto
qed simp

text \<open>The faces' marks cleared.\<close>

lemma unserved_keeps:
  assumes "relay_wf r"
  shows "keeps r (r\<lparr>rl_faces := map unserve (rl_faces r)\<rparr>)"
  using assms face_mark_map[OF mark_wf, of "\<lambda>f. f_flags f AND NOT CCNL_FACE_FLAGS_SERVED" r]
  by (simp add: keeps_def all_out_def unserve_def[abs_def])

lemma serve_pending_nameless:
  assumes wf: "relay_wf r" and n: "pkt_pfx (c_pkt c) = None"
  shows "ccnl_content_serve_pending h c r = Inl Null \<or>
    (\<exists>r'. ccnl_content_serve_pending h c r = Inr (0, c, r') \<and> keeps r r')"
proof -
  let ?r = "r\<lparr>rl_faces := map unserve (rl_faces r)\<rparr>"
  have eq: "ccnl_content_serve_pending h c r = serve_loop h (rl_pit r) c 0 ?r"
    by (simp add: ccnl_content_serve_pending_def unserve_def[abs_def])
  have "\<forall>i\<in>set (rl_pit r). pkt_wf (i_pkt i)" using wf by (auto simp: relay_wf_def pit_wf_def interest_wf_def)
  then show ?thesis
    unfolding eq using serve_loop_nameless[of "rl_pit r" c h 0 ?r] n unserved_keeps[OF wf] by auto
qed

lemma serving_keeps: "serving r r' \<Longrightarrow> relay_wf r' \<Longrightarrow> keeps r r'"
  by (simp add: keeps_def all_out_def serving_ids)

lemma content_new_wf:
  assumes wf: "relay_wf r" and c: "ccnl_content_new r p = (c, r')"
  shows "keeps r r'" and "c_pkt c = p" and "c_ref c < rl_fresh r'" and "c_ref c \<notin> c_ref ` set (rl_contents r')"
    and "r' = r\<lparr>rl_fresh := rl_fresh r + 1\<rparr>"
proof -
  show "r' = r\<lparr>rl_fresh := rl_fresh r + 1\<rparr>" "c_pkt c = p" "c_ref c < rl_fresh r'" using c by (auto simp: ccnl_content_new_def)
  then show "keeps r r'" using fresh_wf[OF wf] by (simp add: keeps_def face_ids_def)
  show "c_ref c \<notin> c_ref ` set (rl_contents r')" using wf c by (auto simp: relay_wf_def cs_wf_def ccnl_content_new_def)
qed

lemma handleInterest_steps_wf:
  assumes wf: "relay_wf r" and p: "pkt_wf p" and f: "set_option f \<subseteq> face_ids r" and cm: "match_ok cm"
  shows "\<exists>rc r'. handleInterest_steps r f p cm = Inr (rc, r') \<and> keeps r r'"
proof -
  have cw: "\<forall>c\<in>set (rl_contents r). pkt_wf (c_pkt c)" using wf by (simp add: relay_wf_def cs_wf_def)
  obtain hit where cs: "cs_search cm p (rl_contents r) = Inr hit" "set_option hit \<subseteq> set (rl_contents r)"
    using cs_search_wf[OF cw p cm] by blast
  have iw: "\<forall>i\<in>set (rl_pit r). pkt_wf (i_pkt i)" using wf by (auto simp: relay_wf_def pit_wf_def interest_wf_def)
  obtain known where kn: "pit_search p (rl_pit r) = Inr known" "set_option known \<subseteq> set (rl_pit r)"
    using pit_search_wf[OF iw p] by blast
  show ?thesis
  proof (cases hit)
    case (Some c)
    show ?thesis
    proof (cases f)
      case None
      then show ?thesis using Some cs wf by (simp add: handleInterest_steps_def keeps_refl)
    next
      case g: (Some g)
      obtain x where x: "face_get r g = Inr x" using face_ids_get[of g r] f g wf by (auto simp: relay_wf_def)
      obtain bc where bc: "pkt_buf (c_pkt c) = Some bc" using cw cs(2) Some by (auto simp: pkt_wf_def)
      have o: "0 \<le> f_ifndx x \<Longrightarrow> g \<in> out_faces r" using face_get_Inr[OF x] by (auto simp: out_faces_def)
      show ?thesis
      proof (cases "0 \<le> f_ifndx x")
        case True
        obtain r3 where "ccnl_send_pkt g (c_pkt c) r = Inr (0, r3)" "out_only r r3" using send_wf[OF wf o[OF True] bc] by blast
        then show ?thesis using Some g cs(1) x True keeps_out[OF wf] by (simp add: handleInterest_steps_def)
      next
        case False
        then show ?thesis using Some g cs(1) x keeps_refl[OF wf] by (simp add: handleInterest_steps_def)
      qed
    qed
  next
    case None
    show ?thesis
    proof (cases known)
      case (Some i)
      obtain r3 where "pit_append f False i r = Inr r3" "keeps r r3"
        using pit_append_wf[OF wf _ f, of i False] kn(2) Some by auto
      then show ?thesis using None Some cs(1) kn(1) keeps_refl[OF wf] by (simp add: handleInterest_steps_def)
    next
      case nk: None
      from interest_new_wf[OF wf p f] show ?thesis
      proof (elim disjE exE conjE)
        assume "ccnl_interest_new r f p = (None, r)"
        then show ?thesis using None nk cs(1) kn(1) keeps_refl[OF wf] by (simp add: handleInterest_steps_def)
      next
        fix i r3
        assume n: "ccnl_interest_new r f p = (Some (i_ref i), r3)" "rl_pit r3 = i # rl_pit r" "pit_get r3 (i_ref i) = Inr i" "keeps r r3"
        then have "relay_wf r3" "set_option f \<subseteq> face_ids r3" using f by (auto simp: keeps_def)
        then obtain r4 where "pit_append f True i r3 = Inr r4" "keeps r3 r4"
          using pit_append_wf[of r3 i f True] n(2) by auto
        then show ?thesis using None nk cs(1) kn(1) n(1,3) keeps_refl[OF wf] keeps_trans[OF n(4)]
          by (simp add: handleInterest_steps_def)
      qed
    qed
  qed
qed

section \<open>Both handlers keep the relay well-formed\<close>

context application
begin

lemma handleContent_named:
  assumes wf: "relay_wf r" and p: "pkt_wf p"
  shows "\<exists>r'. ccnl_fwd_handleContent h r f p = Inr (0, r') \<and> keeps r r'"
proof -
  obtain rc r1 where cb: "ccnl_callback_rx_on_data h r f p = (rc, r1)" by (cases "ccnl_callback_rx_on_data h r f p")
  have k1: "keeps r r1" using rx_keeps[OF wf cb] .
  then have wf1: "relay_wf r1" by (simp add: keeps_def)
  obtain c r2 where cn: "ccnl_content_new r1 p = (c, r2)" by (cases "ccnl_content_new r1 p")
  note c = content_new_wf[OF wf1 cn]
  obtain b where b: "pkt_buf (c_pkt c) = Some b" using p c(2) by (auto simp: pkt_wf_def)
  have wf2: "relay_wf r2" using c(1) by (simp add: keeps_def)
  obtain r3 c1 and fs :: "faceref list" where s: "ccnl_content_serve_pending h c r2 = Inr (length fs + unawaited h c (rl_pit r2), c1, r3)"
    "serving r2 r3" "relay_wf r3" "c_pkt c1 = c_pkt c" "c_ref c1 = c_ref c"
    using serve_pending_wf[OF wf2 _ b, of h] p c(2) by auto
  have k3: "keeps r r3" using keeps_trans[OF keeps_trans[OF k1 c(1)] serving_keeps[OF s(2,3)]] .
  have fr: "fresh_content r3 c1"
    using s(2,4,5) c(2,3,4) p by (simp add: fresh_content_def serving_def)
  define r5 where "r5 = (if cached_name r3 (c_pkt c1) then r3
      else if room r3 then r3\<lparr>rl_contents := c1 # evict r3, rl_contentcnt := int (length (evict r3)) + 1\<rparr>
           else r3\<lparr>rl_contents := evict r3, rl_contentcnt := int (length (evict r3))\<rparr>)"
  have add: "\<exists>ok. ccnl_content_add2cache h c1 r3 = Inr (ok, r5)"
    using add2cache_wf(1)[OF s(3) fr no_removal] by (auto simp: r5_def)
  have "relay_wf r5" using add2cache_wf(2,3)[OF s(3) fr no_removal] s(3) by (simp add: r5_def)
  moreover have "face_ids r5 = face_ids r3" "all_out r5 = all_out r3" by (simp_all add: r5_def face_ids_def)
  ultimately have k5: "keeps r r5" using k3 by (simp add: keeps_def)
  obtain d r4 where cd: "cache_strategy_cache h r3 c1 = (d, r4)" by (cases "cache_strategy_cache h r3 c1")
  have dup: "content_dup p (rl_contents r1) \<in> range Inr"
    using content_dup_wf[of "rl_contents r1" p] wf1 p by (simp add: relay_wf_def cs_wf_def pkt_wf_def)
  then obtain dp where "content_dup p (rl_contents r1) = Inr dp" by auto
  then show ?thesis
    using cb k1 cn s(1) k3 add k5 cd decision_pure[OF cd] by (auto simp: ccnl_fwd_handleContent_def)
qed

lemma handleContent_nameless:
  assumes wf: "relay_wf r" and p: "pkt_pfx p = None"
  shows "ccnl_fwd_handleContent h r f p = Inl Null \<or> (\<exists>r'. ccnl_fwd_handleContent h r f p = Inr (0, r') \<and> keeps r r')"
proof -
  obtain rc r1 where cb: "ccnl_callback_rx_on_data h r f p = (rc, r1)" by (cases "ccnl_callback_rx_on_data h r f p")
  have k1: "keeps r r1" using rx_keeps[OF wf cb] .
  then have wf1: "relay_wf r1" by (simp add: keeps_def)
  obtain c r2 where cn: "ccnl_content_new r1 p = (c, r2)" by (cases "ccnl_content_new r1 p")
  note c = content_new_wf[OF wf1 cn]
  have wf2: "relay_wf r2" using c(1) by (simp add: keeps_def)
  have dup: "content_dup p (rl_contents r1) = (if rl_contents r1 = [] then Inr False else Inl Null)"
    using content_dup_nameless[OF _ p, of "rl_contents r1"] wf1 by (simp add: relay_wf_def cs_wf_def)
  show ?thesis
    using serve_pending_nameless[OF wf2, of c h] p c(2) cb k1 cn dup keeps_trans[OF keeps_trans[OF k1 c(1)]]
    by (auto simp: ccnl_fwd_handleContent_def)
qed

lemma nonce_keeps:
  assumes "relay_wf r" and "ccnl_nonce_isDup r p = (d, r')"
  shows "keeps r r'"
proof -
  obtain d1 ns where "ccnl_nonce_isDup r p = (d1, r\<lparr>rl_nonces := ns\<rparr>)" "relay_wf (r\<lparr>rl_nonces := ns\<rparr>)"
    using nonce_isDup_wf[OF assms(1)] .
  then show ?thesis using assms(2) by (auto simp: keeps_def face_ids_def)
qed

lemma handleInterest_named:
  assumes live: "live strict f r" and p: "pkt_wf p" and cm: "match_ok cm"
  shows "case ccnl_fwd_handleInterest h r (Some f) p cm of Inl e \<Rightarrow> e \<in> M | Inr (rc, r') \<Rightarrow> live strict f r'"
proof -
  note wf = liveD(1)[OF live]
  obtain d r1 where nd: "ccnl_nonce_isDup r p = (d, r1)" by (cases "ccnl_nonce_isDup r p")
  have k1: "keeps r r1" using nonce_keeps[OF wf nd] .
  obtain rc r2 where pr: "local_producer h r1 (Some f) p = (rc, r2)" by (cases "local_producer h r1 (Some f) p")
  have k2: "keeps r r2" using keeps_trans[OF k1 producer_keeps[OF _ pr]] k1 by (simp add: keeps_def)
  note l2 = keeps_live[OF k2 live]
  have f2: "set_option (Some f) \<subseteq> face_ids r2" using liveD(2)[OF l2] by simp
  obtain pfx b where pb: "pkt_pfx p = Some pfx" "pkt_buf p = Some b" using p by (auto simp: pkt_wf_def)
  have "\<exists>mg. is_mgmt h p = Inr mg"
    by (cases "pkt_suite p = CCNL_SUITE_CCNB \<or> pkt_suite p = CCNL_SUITE_NDNTLV") (auto simp add: is_mgmt_def pb)
  then obtain mg where mg: "is_mgmt h p = Inr mg" by blast
  note km = mgmt_live[OF l2, of b pfx]
  from handleInterest_steps_wf[OF liveD(1)[OF l2] p f2 cm]
  obtain rs r3 where st: "handleInterest_steps r2 (Some f) p cm = Inr (rs, r3)" "keeps r2 r3" by blast
  note l3 = keeps_live[OF st(2) l2]
  show ?thesis
    unfolding ccnl_fwd_handleInterest_def nd prod.case pr mg bindE_simps pb deref_simps
    using st(1) keeps_live[OF k1 live] l2 km l3
    by (cases d; cases "rc = 0"; cases mg; cases "hk_mgmt h r2 b pfx (Some f)") auto
qed

lemma handleInterest_nameless:
  assumes wf: "relay_wf r" and p: "pkt_pfx p = None" "pkt_suite p = CCNL_SUITE_NDNTLV"
  shows "ccnl_fwd_handleInterest h r f p cm = Inl Null \<or> (\<exists>r'. ccnl_fwd_handleInterest h r f p cm = Inr (0, r') \<and> keeps r r')"
proof -
  obtain d r1 where nd: "ccnl_nonce_isDup r p = (d, r1)" by (cases "ccnl_nonce_isDup r p")
  have k1: "keeps r r1" using nonce_keeps[OF wf nd] .
  obtain rc r2 where pr: "local_producer h r1 f p = (rc, r2)" by (cases "local_producer h r1 f p")
  have k2: "keeps r r2" using keeps_trans[OF k1 producer_keeps[OF _ pr]] k1 by (simp add: keeps_def)
  have "is_mgmt h p = Inl Null" using p by (simp add: is_mgmt_def)
  then show ?thesis using nd k1 pr k2 by (simp add: ccnl_fwd_handleInterest_def)
qed

end

end
