(* ===== verification/Dispatch_Inv.thy ===== *)
theory Dispatch_Inv
  imports Dispatch Fwd_Inv
begin

text \<open>
  Receiving a frame: no parser ends with anything but success, its own error or a read outside the
  buffer; every dispatch function of the relay keeps it well-formed and uses up the frame; so the
  receive loop ends within its fuel and never touches a freed object.
\<close>

section \<open>What a parser can end with\<close>

definition parse_err :: "'a res \<Rightarrow> bool" where
  "parse_err x \<longleftrightarrow> (case x of Inl e \<Rightarrow> e = Fail \<or> e = Oob | Inr _ \<Rightarrow> True)"

lemma parse_err_simps [simp]: "parse_err (Inr x)" "parse_err (Inl Fail)" "parse_err (Inl Oob)"
  by (simp_all add: parse_err_def)

lemma parse_err_bind: "parse_err m \<Longrightarrow> (\<And>x. m = Inr x \<Longrightarrow> parse_err (f x)) \<Longrightarrow> parse_err (bindE m f)"
  by (cases m) (auto simp: parse_err_def)

lemma parse_err_mem [simp]: "parse_err (rd m p)" "parse_err (slice m p n)"
  by (simp_all add: rd_def slice_def)

lemma parse_err_if: "(b \<Longrightarrow> parse_err x) \<Longrightarrow> (\<not> b \<Longrightarrow> parse_err y) \<Longrightarrow> parse_err (if b then x else y)"
  by simp

lemma ccntlv_dehead_err [simp]: "parse_err (ccnl_ccntlv_dehead m cur)"
  by (cases cur) (auto simp: ccnl_ccntlv_dehead_def Let_def intro!: parse_err_bind)

lemma varint_loop_err [simp]: "parse_err (varint_loop m p n v)"
  by (induction n arbitrary: p v) (auto intro!: parse_err_bind)

lemma extractVarInt_err [simp]: "parse_err (ccnl_ccnltv_extractNetworkVarInt m p n)"
  by (simp add: ccnl_ccnltv_extractNetworkVarInt_def)

lemma slices_err [simp]: "parse_err (slices m cs)"
  by (induction cs) (auto intro!: parse_err_bind)

text \<open>A case distinction on a head read.\<close>

lemma parse_err_head:
  "parse_err x \<Longrightarrow> (\<And>c. x = Inr (None, c) \<Longrightarrow> parse_err (g c)) \<Longrightarrow> (\<And>t l p n. x = Inr (Some (t, l), (p, n)) \<Longrightarrow> parse_err (k t l p n)) \<Longrightarrow>
    parse_err (case x of Inl e \<Rightarrow> Inl e | Inr (None, c) \<Rightarrow> g c | Inr (Some (t, l), (p, n)) \<Rightarrow> k t l p n)"
  by (auto simp: parse_err_def split: sum.split option.split prod.split)

lemma ccntlv_dehead_less:
  assumes "ccnl_ccntlv_dehead m cur = Inr (Some (t, l), (p, n))"
  shows "length m - (p + k) < length m - fst cur"
    and "ccnl_ccntlv_dehead m (p, n) = Inr (Some (t', l'), (p', n')) \<Longrightarrow> length m - (p' + k) < length m - fst cur"
  using assms by (cases cur; auto dest!: ccntlv_dehead_progress)+

lemma ndntlv_dehead_less:
  assumes "ccnl_ndntlv_dehead m cur = Inr (Some (t, l), (p, n))"
  shows "length m - (p + k) < length m - fst cur"
    and "ccnl_ndntlv_dehead m (p, n) = Inr (Some (t', l'), (p', n')) \<Longrightarrow> length m - (p' + k) < length m - fst cur"
  using assms by (cases cur; auto dest!: dehead_progress)+

lemma parse_err_head1:
  "parse_err x \<Longrightarrow> (\<And>c. x = Inr (None, c) \<Longrightarrow> parse_err (g c)) \<Longrightarrow> (\<And>t l c. x = Inr (Some (t, l), c) \<Longrightarrow> parse_err (k t l c)) \<Longrightarrow>
    parse_err (case x of Inl e \<Rightarrow> Inl e | Inr (None, c) \<Rightarrow> g c | Inr (Some (t, l), c) \<Rightarrow> k t l c)"
  by (auto simp: parse_err_def split: sum.split option.split prod.split)

lemmas parse_err_intros = parse_err_head parse_err_bind parse_err_if

lemma ccntlv_name_loop_err [simp]: "parse_err (ccntlv_name_loop m cur nm)"
proof (induction "length m - fst cur" arbitrary: cur nm rule: less_induct)
  case less
  show ?case
    by (subst ccntlv_name_loop.simps)
      (auto intro!: parse_err_intros less elim!: ccntlv_dehead_less)
qed

lemma ccntlv_step_err [simp]: "parse_err (ccntlv_step m st op typ len p s)"
  unfolding ccntlv_step_def by (auto intro!: parse_err_intros parse_err_head1)

lemma ccntlv_pkt_loop_err [simp]: "parse_err (ccntlv_pkt_loop m st cur s)"
proof (induction "length m - fst cur" arbitrary: cur s rule: less_induct)
  case less
  show ?case
    by (subst ccntlv_pkt_loop.simps) (auto intro!: parse_err_intros less elim!: ccntlv_dehead_less)
qed

lemma ccntlv_bytes2pkt_err [simp]: "parse_err (ccnl_ccntlv_bytes2pkt m cur)"
  unfolding ccnl_ccntlv_bytes2pkt_def by (auto intro!: parse_err_intros split: prod.split)

lemma varlenint_err [simp]: "parse_err (ccnl_ndntlv_varlenint m cur)"
  unfolding ccnl_ndntlv_varlenint_def by (auto intro!: parse_err_intros split: prod.split)

lemma ndntlv_dehead_err [simp]: "parse_err (ccnl_ndntlv_dehead m cur)"
  unfolding ccnl_ndntlv_dehead_def by (auto intro!: parse_err_intros split: prod.split option.split)

lemma nonNegInt_err [simp]: "parse_err (ccnl_ndntlv_nonNegInt m p n)"
proof -
  have "parse_err (nonNegInt_loop m p n v)" for v
    by (induction n arbitrary: p v) (auto intro!: parse_err_bind)
  then show ?thesis by (simp add: ccnl_ndntlv_nonNegInt_def)
qed

lemma name_comp_step_err [simp]: "parse_err (name_comp_step m cp i st)"
  unfolding name_comp_step_def by (auto intro!: parse_err_intros split: prod.split)

lemma name_loop_err [simp]: "parse_err (name_loop m cur st)"
proof (induction "length m - fst cur" arbitrary: cur st rule: less_induct)
  case less
  show ?case
    by (subst name_loop.simps) (auto intro!: parse_err_intros less elim!: ndntlv_dehead_less)
qed

lemma selectors_loop_err [simp]: "parse_err (selectors_loop m cur d)"
proof (induction "length m - fst cur" arbitrary: cur d rule: less_induct)
  case less
  show ?case
    by (subst selectors_loop.simps) (auto intro!: parse_err_intros less elim!: ndntlv_dehead_less)
qed

lemma metainfo_loop_err [simp]: "parse_err (metainfo_loop m cur st)"
proof (induction "length m - fst cur" arbitrary: cur st rule: less_induct)
  case less
  show ?case
    by (subst metainfo_loop.simps) (auto intro!: parse_err_intros less elim!: ndntlv_dehead_less)
qed

lemma siginfo_loop_err [simp]: "parse_err (siginfo_loop m cur hm)"
proof (induction "length m - fst cur" arbitrary: cur hm rule: less_induct)
  case less
  show ?case
    by (subst siginfo_loop.simps) (auto intro!: parse_err_intros less elim!: ndntlv_dehead_less)
qed

lemma ndn_tlv_step_err [simp]: "parse_err (ndn_tlv_step m op typ len p s)"
  unfolding ndn_tlv_step_def Let_def by (auto intro!: parse_err_intros split: prod.split)

lemma ndn_pkt_loop_err [simp]: "parse_err (ndn_pkt_loop m cur s)"
proof (induction "length m - fst cur" arbitrary: cur s rule: less_induct)
  case less
  show ?case
    by (subst ndn_pkt_loop.simps) (auto intro!: parse_err_intros less elim!: ndntlv_dehead_less)
qed

lemma ndntlv_bytes2pkt_err [simp]: "parse_err (ccnl_ndntlv_bytes2pkt t m cur)"
  unfolding ccnl_ndntlv_bytes2pkt_def by (auto intro!: parse_err_intros split: prod.split option.split)

lemma parse_errD: "parse_err x \<Longrightarrow> x = Inl e \<Longrightarrow> e = Fail \<or> e = Oob"
  by (simp add: parse_err_def)

lemmas bytes2pkt_Inl = parse_errD[OF ndntlv_bytes2pkt_err] parse_errD[OF ccntlv_bytes2pkt_err]

lemma ndntlv_dehead_Oob: "ccnl_ndntlv_dehead m cur = Inl e \<Longrightarrow> e = Oob"
  by (auto simp: ccnl_ndntlv_dehead_def ccnl_ndntlv_varlenint_def Let_def bindE_eq_Inl_iff rd_def slice_def
      split: if_splits prod.splits option.splits)

lemma switch_dehead_err: "ccnl_switch_dehead m cur = Inl e \<Longrightarrow> e = Oob"
  by (cases cur) (auto simp: ccnl_switch_dehead_def bindE_eq_Inl_iff rd_def split: if_splits)

section \<open>Parsed packets\<close>

lemma ccntlv_pkt_loop_forward: "ccntlv_pkt_loop m st cur s = Inr ((q, k), s') \<Longrightarrow> fst cur \<le> q"
proof (induction "length m - fst cur" arbitrary: cur s rule: less_induct)
  case less
  obtain p n where c: "cur = (p, n)" by (cases cur)
  show ?case
  proof (cases "ccnl_ccntlv_dehead m cur")
    case (Inr x)
    obtain tl p1 n1 where x: "x = (tl, (p1, n1))" by (cases x) auto
    show ?thesis
    proof (cases tl)
      case None
      then show ?thesis using less.prems Inr x c
        by (subst (asm) ccntlv_pkt_loop.simps) (auto simp: ccnl_ccntlv_dehead_def bindE_eq_Inr_iff Let_def split: if_splits)
    next
      case (Some y)
      obtain t l where y: "y = (t, l)" by (cases y)
      have h: "ccnl_ccntlv_dehead m cur = Inr (Some (t, l), (p1, n1))" using Inr x Some y by simp
      then have "p1 = p + 4" using c ccntlv_dehead_progress by blast
      moreover obtain s1 where "ccntlv_pkt_loop m st (p1 + l, n1 - l) s1 = Inr ((q, k), s')"
        using less.prems h by (subst (asm) ccntlv_pkt_loop.simps) (auto simp: bindE_eq_Inr_iff split: if_splits)
      then have "p1 + l \<le> q" using less.hyps[of "(p1 + l, n1 - l)" s1] ccntlv_dehead_less(1)[OF h] by simp
      ultimately show ?thesis using c by simp
    qed
  next
    case (Inl e)
    then show ?thesis using less.prems by (subst (asm) ccntlv_pkt_loop.simps) simp
  qed
qed

lemma ccntlv_bytes2pkt_pkt:
  "ccnl_ccntlv_bytes2pkt m cur = Inr (pk, (q, k)) \<Longrightarrow> pkt_wf pk \<and> pkt_suite pk = CCNL_SUITE_CCNTLV \<and> k = 0 \<and> fst cur < q"
  by (cases cur) (auto simp: ccnl_ccntlv_bytes2pkt_def bindE_eq_Inr_iff pkt_wf_def dest!: ccntlv_dehead_progress
      ccntlv_pkt_loop_forward split: if_splits prod.splits option.splits sum.splits)

lemma ndntlv_bytes2pkt_pkt:
  "ccnl_ndntlv_bytes2pkt t m cur = Inr (pk, (q, k)) \<Longrightarrow>
    (pkt_wf pk \<or> pkt_pfx pk = None) \<and> pkt_suite pk = CCNL_SUITE_NDNTLV \<and> k = 0"
  by (auto simp: ccnl_ndntlv_bytes2pkt_def bindE_eq_Inr_iff pkt_wf_def split: if_splits prod.splits option.splits)

section \<open>Dispatch functions\<close>

text \<open>Twice the bytes left, and one more while a hop limit of 1 can still be counted down in place.\<close>

definition budget :: "bytes \<Rightarrow> cursor \<Rightarrow> nat" where
  "budget m cur = 2 * snd cur + (if fst cur + 4 < length m \<and> m ! (fst cur + 4) = 1 then 1 else 0)"

definition dispatch_upto :: "err set \<Rightarrow> bool \<Rightarrow> hooks \<Rightarrow> dispatchFct \<Rightarrow> bool" where
  "dispatch_upto E strict h rx \<longleftrightarrow> (\<forall>r f m cur. live strict f r \<longrightarrow>
    (case rx h r (Some f) m cur of
        Inl e \<Rightarrow> e \<in> E
      | Inr (r1, go) \<Rightarrow> live strict f r1 \<and> (case go of None \<Rightarrow> True | Some (m1, cur1) \<Rightarrow> snd cur1 = 0 \<or> budget m1 cur1 < budget m cur)))"

lemma dispatch_upto_mono: "dispatch_upto E1 strict h rx \<Longrightarrow> E1 \<subseteq> E \<Longrightarrow> dispatch_upto E strict h rx"
  unfolding dispatch_upto_def by (fastforce split: sum.splits)

lemma budget_less: "n1 < n \<Longrightarrow> budget m1 (p1, n1) < budget m (p, n)"
  by (simp add: budget_def)

definition handled :: "err set \<Rightarrow> bool \<Rightarrow> faceref \<Rightarrow> (int \<times> relay) res \<Rightarrow> bool" where
  "handled E strict f x \<longleftrightarrow> (case x of Inl e \<Rightarrow> e \<in> E | Inr (rc, r1) \<Rightarrow> live strict f r1)"

lemma handled_simps [simp]: "handled E strict f (Inl e) = (e \<in> E)" "handled E strict f (Inr (rc, r1)) = live strict f r1"
  by (simp_all add: handled_def)

lemma handled_zero: "handled E strict f x \<Longrightarrow> handled E strict f (bindE x (\<lambda>(rc, r1). Inr (0, r1)))"
  by (cases x) auto

lemma handled_bind:
  "(\<And>e. x = Inl e \<Longrightarrow> e \<in> E) \<Longrightarrow> (\<And>y. x = Inr y \<Longrightarrow> handled E strict f (k y)) \<Longrightarrow> handled E strict f (bindE x k)"
  by (cases x) auto

lemma handled_then:
  "handled E strict f x \<Longrightarrow> (\<And>rc r1. live strict f r1 \<Longrightarrow> handled E strict f (k (rc, r1))) \<Longrightarrow> handled E strict f (bindE x k)"
  by (cases x) auto

text \<open>What is left of a dispatch function behind the parser.\<close>

lemma dispatch_tail:
  assumes "handled E strict f x" and "budget m1 cur1 < budget m cur"
  shows "case bindE x (\<lambda>(rc, r1). Inr (r1, if rc \<noteq> (0 :: int) then None else Some (m1, cur1))) of
        Inl e \<Rightarrow> e \<in> E
      | Inr (r1, go) \<Rightarrow> live strict f r1 \<and> (case go of None \<Rightarrow> True | Some (m1, cur1) \<Rightarrow> snd cur1 = 0 \<or> budget m1 cur1 < budget m cur)"
  using assms by (cases x) auto

context application
begin

text \<open>The faults an incoming packet of the three formats of names and contents may end with.\<close>

abbreviation faults :: "err set" where "faults \<equiv> {Oob, Null} \<union> M"

lemma handled_interest:
  assumes "live strict f r" and "match_ok cm"
    and "pkt_wf p \<or> pkt_pfx p = None \<and> pkt_suite p = CCNL_SUITE_NDNTLV"
  shows "handled faults strict f (ccnl_fwd_handleInterest h r (Some f) p cm)"
proof (cases "pkt_wf p")
  case True
  then show ?thesis using handleInterest_named[OF assms(1) True assms(2)] by (auto simp: handled_def split: sum.splits)
next
  case False
  then show ?thesis using handleInterest_nameless[OF liveD(1)[OF assms(1)], of p "Some f" cm] assms(3) keeps_live[OF _ assms(1)]
    by auto
qed

lemma handled_content:
  assumes "live strict f r" and "pkt_wf p \<or> pkt_pfx p = None"
  shows "handled faults strict f (ccnl_fwd_handleContent h r g p)"
proof (cases "pkt_wf p")
  case True
  then show ?thesis using handleContent_named[OF liveD(1)[OF assms(1)] True, of g] keeps_live[OF _ assms(1)] by auto
next
  case False
  then show ?thesis using handleContent_nameless[OF liveD(1)[OF assms(1)], of p g] assms(2) keeps_live[OF _ assms(1)] by auto
qed

lemma ndntlv_dispatch_ok: "dispatch_upto faults strict h ccnl_ndntlv_forwarder"
  unfolding dispatch_upto_def
proof (intro allI impI)
  fix r f m and cur :: cursor assume live: "live strict f r"
  obtain p n where c: "cur = (p, n)" by (cases cur)
  show "case ccnl_ndntlv_forwarder h r (Some f) m cur of Inl e \<Rightarrow> e \<in> faults
      | Inr (r1, go) \<Rightarrow> live strict f r1 \<and> (case go of None \<Rightarrow> True | Some (m1, cur1) \<Rightarrow> snd cur1 = 0 \<or> budget m1 cur1 < budget m cur)"
  proof (cases "\<exists>t l q k pk q1 k1. ccnl_ndntlv_dehead (drop p m) (0, n) = Inr (Some (t, l), (q, k)) \<and> l \<le> k
      \<and> ccnl_ndntlv_bytes2pkt t (drop p m) (q, k) = Inr (pk, (q1, k1))")
    case True
    then obtain t l q k pk q1 k1 where h: "ccnl_ndntlv_dehead (drop p m) (0, n) = Inr (Some (t, l), (q, k))" "\<not> k < l"
      "ccnl_ndntlv_bytes2pkt t (drop p m) (q, k) = Inr (pk, (q1, k1))" by (auto simp: not_less)
    note pk = ndntlv_bytes2pkt_pkt[OF h(3)]
    have "0 < n" using dehead_progress[OF h(1)] by (auto simp: not_less)
    then have b: "budget m (p + q1, k1) < budget m cur" using pk c by (simp add: budget_less)
    have "handled faults strict f (if t = NDN_TLV_Interest then ccnl_fwd_handleInterest h r (Some f) pk (ccnl_ndntlv_cMatch h)
                       else if t = NDN_TLV_Data then ccnl_fwd_handleContent h r (Some f) pk
                       else Inr (0, r))"
      using handled_interest[OF live ndntlv_cMatch_ok] handled_content[OF live] pk live by auto
    from dispatch_tail[OF this b] show ?thesis using h c by (simp add: ccnl_ndntlv_forwarder_def)
  next
    case False
    then show ?thesis using c live
      by (auto simp: ccnl_ndntlv_forwarder_def not_less dest: ndntlv_dehead_Oob bytes2pkt_Inl
          split: sum.splits option.splits prod.splits err.splits if_splits)
  qed
qed

lemma ccntlv_dispatch_ok: "dispatch_upto faults strict h ccnl_ccntlv_forwarder"
  unfolding dispatch_upto_def
proof (intro allI impI)
  fix r f m and cur :: cursor assume live: "live strict f r"
  obtain p n where c: "cur = (p, n)" by (cases cur)
  show "case ccnl_ccntlv_forwarder h r (Some f) m cur of Inl e \<Rightarrow> e \<in> faults
      | Inr (r1, go) \<Rightarrow> live strict f r1 \<and> (case go of None \<Rightarrow> True | Some (m1, cur1) \<Rightarrow> snd cur1 = 0 \<or> budget m1 cur1 < budget m cur)"
  proof (cases "n < ccnx_hdr_size")
    case True
    then show ?thesis using c live by (simp add: ccnl_ccntlv_forwarder_def)
  next
    case n: False
    show ?thesis
    proof (cases "ccnx_tlvhdr_at m p")
      case (Inl e)
      then have "e = Oob" by (auto simp: ccnx_tlvhdr_at_def slice_def split: if_splits)
      then show ?thesis using Inl n c by (simp add: ccnl_ccntlv_forwarder_def)
    next
      case (Inr hp)
      then have len: "p + 9 \<le> length m" and hop: "hd_hoplimit hp = m ! (p + 4)"
        by (auto simp: ccnx_tlvhdr_at_def slice_def bindE_eq_Inr_iff split: if_splits)
      define lens where "lens \<longleftrightarrow> hd_version hp = CCNX_TLV_V1 \<and> hd_hdrlen hp \<le> n \<and> hd_hdrlen hp \<le> hd_pktlen hp \<and> hd_pktlen hp \<le> n"
      define hl where "hl \<longleftrightarrow> hd_pkttype hp = CCNX_PT_Interest \<or> hd_pkttype hp = CCNX_PT_NACK"
      define m1 where "m1 = (if hl then m[p + 4 := hd_hoplimit hp - 1] else m)"
      have nl: "\<not> lens \<Longrightarrow> ccnl_ccntlv_forwarder h r (Some f) m cur = Inr (r, None)"
        unfolding lens_def using n c Inr by (auto simp: ccnl_ccntlv_forwarder_def Let_def not_le not_less)
      have dr: "lens \<Longrightarrow> hl \<and> hd_hoplimit hp - 1 = 0 \<Longrightarrow>
          ccnl_ccntlv_forwarder h r (Some f) m cur = Inr (r, Some (m1, (p + hd_pktlen hp, n - hd_pktlen hp)))"
        unfolding lens_def hl_def m1_def using n c Inr by (auto simp: ccnl_ccntlv_forwarder_def Let_def)
      have pa: "ccnl_ccntlv_forwarder h r (Some f) m cur =
          (case ccnl_ccntlv_bytes2pkt (drop p m1) (hd_hdrlen hp, n - hd_hdrlen hp) of
              Inl Fail \<Rightarrow> Inr (r, None) | Inl e \<Rightarrow> Inl e
            | Inr (pk, (q1, k1)) \<Rightarrow> bindE (ccntlv_deliver h r (Some f) (hd_pkttype hp) pk)
                (\<lambda>(rc, r1). Inr (r1, if rc \<noteq> 0 then None else Some (m1, (p + q1, k1)))))"
        if l: "lens" and hh: "\<not> (hl \<and> hd_hoplimit hp - 1 = 0)"
      proof -
        have l1: "hd_version hp = 1" "\<not> n < hd_hdrlen hp" "\<not> (hd_pktlen hp < hd_hdrlen hp \<or> n < hd_pktlen hp)"
          using l by (simp_all add: lens_def)
        show ?thesis
          unfolding ccnl_ccntlv_forwarder_def c prod.case Let_def Inr bindE_simps
          unfolding hl_def[symmetric] m1_def[symmetric] if_not_P[OF n] if_not_P[OF hh] if_not_P[OF l1(2)] if_not_P[OF l1(3)]
          using l1(1) by simp
      qed
      consider "\<not> lens" | (drop1) "lens" "hl \<and> hd_hoplimit hp - 1 = 0" | (parse) "lens" "\<not> (hl \<and> hd_hoplimit hp - 1 = 0)" by blast
      then show ?thesis
      proof cases
        case 1
        then show ?thesis using live by (simp add: nl)
      next
        case drop1
        have "budget m1 (p + hd_pktlen hp, n - hd_pktlen hp) < budget m cur"
        proof (cases "hd_pktlen hp = 0")
          case True
          have one: "m ! (p + 4) = 1" using drop1(2) unfolding hop by simp
          have "m1 = m[p + 4 := 0]" using drop1(2) by (simp add: m1_def)
          then have "m1 ! (p + 4) \<noteq> 1" using len by simp
          then show ?thesis using True len one unfolding c budget_def by simp
        next
          case False
          then have "n - hd_pktlen hp < n" using n by simp
          then show ?thesis using c by (simp add: budget_less)
        qed
        then show ?thesis using live by (simp add: dr[OF drop1])
      next
        case parse
        show ?thesis
        proof (cases "ccnl_ccntlv_bytes2pkt (drop p m1) (hd_hdrlen hp, n - hd_hdrlen hp)")
          case (Inl e)
          then show ?thesis using live bytes2pkt_Inl(2)[OF Inl] by (auto simp: pa[OF parse])
        next
          case (Inr x)
          obtain pk q1 k1 where x: "x = (pk, (q1, k1))" by (cases x) auto
          note pk = ccntlv_bytes2pkt_pkt[OF Inr[unfolded x]]
          have b: "budget m1 (p + q1, k1) < budget m cur" using pk n c by (simp add: budget_less)
          have w: "pkt_wf (pk\<lparr>pkt_flags := fl\<rparr>)" for fl using pk by (simp add: pkt_wf_def)
          have "handled faults strict f (ccntlv_deliver h r (Some f) (hd_pkttype hp) pk)"
            using handled_interest[OF live ccntlv_cMatch_ok disjI1[OF w]] handled_zero[OF handled_content[OF live disjI1[OF w]]] live
            by (simp add: ccntlv_deliver_def)
          from dispatch_tail[OF this b] show ?thesis by (simp add: pa[OF parse] Inr x)
        qed
      qed
    qed
  qed
qed

end

section \<open>The receive loop\<close>

lemma pkt2suite_loop_cursor:
  "pkt2suite_loop m cur s = Inr (s1, cur1) \<Longrightarrow> budget m cur1 \<le> budget m cur"
proof (induction m cur s rule: pkt2suite_loop.induct)
  case (1 m cur s)
  obtain p n where c: "cur = (p, n)" by (cases cur)
  show ?case
  proof (cases "ccnl_switch_dehead m cur")
    case (Inr x)
    obtain e cur2 where x: "x = (e, cur2)" by (cases x)
    show ?thesis
    proof (cases e)
      case None
      have "cur2 = cur" using Inr x None c
        by (auto simp: ccnl_switch_dehead_def bindE_eq_Inr_iff split: if_splits)
      then show ?thesis using 1 Inr x None by (subst (asm) pkt2suite_loop.simps) simp
    next
      case (Some en)
      obtain p2 n2 where c2: "cur2 = (p2, n2)" by (cases cur2)
      have "n2 < n" using switch_dehead_progress[of m p n en p2 n2] Inr x Some c c2 by simp
      then have "budget m cur2 < budget m cur" by (simp add: c c2 budget_less)
      moreover have "budget m cur1 \<le> budget m cur2"
        using 1 Inr x Some by (auto simp: pkt2suite_loop.simps[of m cur])
      ultimately show ?thesis by simp
    qed
  next
    case (Inl e)
    then show ?thesis using 1 by (subst (asm) pkt2suite_loop.simps) simp
  qed
qed

lemma pkt2suite_loop_err: "pkt2suite_loop m cur s = Inl e \<Longrightarrow> e = Oob"
proof (induction m cur s rule: pkt2suite_loop.induct)
  case (1 m cur s)
  then show ?case
    by (subst (asm) (2) pkt2suite_loop.simps) (auto dest: switch_dehead_err split: sum.splits option.splits prod.splits)
qed

lemma pkt2suite_err: "ccnl_pkt2suite m p n = Inl e \<Longrightarrow> e = Oob"
  by (auto simp: ccnl_pkt2suite_def bindE_eq_Inl_iff rd_def dest: pkt2suite_loop_err split: if_splits prod.splits)

definition rx_done :: "err set \<Rightarrow> bool \<Rightarrow> relay res \<Rightarrow> bool" where
  "rx_done E strict x \<longleftrightarrow> (case x of Inl e \<Rightarrow> e \<in> E | Inr r \<Rightarrow> relay_wf r \<and> (strict \<longrightarrow> all_out r))"

lemma rx_done_live: "live strict f r \<Longrightarrow> rx_done E strict (Inr r)"
  by (simp add: rx_done_def live_def)

lemma rx_done_bind: "Oob \<in> E \<Longrightarrow> (\<And>e. x = Inl e \<Longrightarrow> e = Oob) \<Longrightarrow> (\<And>y. x = Inr y \<Longrightarrow> rx_done E strict (k y)) \<Longrightarrow> rx_done E strict (bindE x k)"
  by (cases x) (simp_all add: rx_done_def)

lemma rx_loop_done:
  assumes tab: "\<forall>s rx. tab s = Some rx \<longrightarrow> dispatch_upto E strict h rx" and E: "Oob \<in> E"
  shows "live strict f r \<Longrightarrow> budget m cur < fuel \<Longrightarrow> rx_done E strict (rx_loop fuel tab h r f s m cur)"
proof (induction fuel arbitrary: r s m cur)
  case 0
  then show ?case by simp
next
  case (Suc fuel)
  obtain p n where c: "cur = (p, n)" by (cases cur)
  show ?case
  proof (cases "n = 0")
    case True
    then show ?thesis using rx_done_live[OF Suc.prems(1)] c by simp
  next
    case False
    have round: "rx_done E strict (bindE (rx h r (Some f) m (p1, n1)) (\<lambda>(r1, go). case go of
               None \<Rightarrow> Inr r1 | Some (m1, cur1) \<Rightarrow> rx_loop fuel tab h r1 f s2 m1 cur1))"
      if rx: "tab s2 = Some rx" and b: "budget m (p1, n1) \<le> budget m (p, n)" for rx s2 p1 n1
    proof -
      have ok: "case rx h r (Some f) m (p1, n1) of Inl e \<Rightarrow> e \<in> E
        | Inr (r1, go) \<Rightarrow> live strict f r1 \<and> (case go of None \<Rightarrow> True | Some (m1, cur1) \<Rightarrow> snd cur1 = 0 \<or> budget m1 cur1 < budget m (p1, n1))"
        using tab rx Suc.prems(1) unfolding dispatch_upto_def by blast
      show ?thesis
      proof (cases "rx h r (Some f) m (p1, n1)")
        case (Inl e)
        then show ?thesis using ok by (simp add: rx_done_def)
      next
        case (Inr x)
        obtain r1 go where x: "x = (r1, go)" by (cases x)
        have k: "live strict f r1" using ok Inr x by simp
        show ?thesis
        proof (cases go)
          case None
          then show ?thesis using Inr x rx_done_live[OF k] by simp
        next
          case (Some y)
          obtain m1 cur1 where y: "y = (m1, cur1)" by (cases y)
          have "rx_done E strict (rx_loop fuel tab h r1 f s2 m1 cur1)"
          proof (cases "snd cur1 = 0")
            case True
            then show ?thesis using rx_done_live[OF k] by (cases fuel; cases cur1) (simp_all add: rx_done_def)
          next
            case False
            then have "budget m1 cur1 < fuel" using ok Inr x Some y b Suc.prems(2) c by simp
            then show ?thesis using Suc.IH k by blast
          qed
          then show ?thesis using Inr x Some y by simp
        qed
      qed
    qed
    have r: "rx_done E strict (Inr r)" using rx_done_live[OF Suc.prems(1)] .
    show ?thesis
      unfolding c rx_loop.simps if_not_P[OF False]
    proof (rule rx_done_bind[OF E pkt2suite_loop_err], assumption)
      fix y assume y: "pkt2suite_loop m (p, n) s = Inr y"
      obtain s1 p1 n1 where y': "y = (s1, (p1, n1))" by (cases y) auto
      have b: "budget m (p1, n1) \<le> budget m (p, n)" using pkt2suite_loop_cursor y y' by simp
      have e: "(if s1 = -1 then bindE (ccnl_pkt2suite m p1 n1) (\<lambda>(s, skip). Inr s) else Inr s1) = Inl e \<Longrightarrow> e = Oob" for e
        by (auto simp: bindE_eq_Inl_iff dest: pkt2suite_err split: if_splits)
      show "rx_done E strict (case y of (suite1, p1, n1) \<Rightarrow>
        bindE (if suite1 = -1 then bindE (ccnl_pkt2suite m p1 n1) (\<lambda>(s, skip). Inr s) else Inr suite1)
         (\<lambda>suite2. if \<not> ccnl_isSuite suite2 then Inr r else case tab suite2 of None \<Rightarrow> Inr r
           | Some rx \<Rightarrow> bindE (rx h r (Some f) m (p1, n1)) (\<lambda>(r1, go). case go of
               None \<Rightarrow> Inr r1 | Some (m1, cur1) \<Rightarrow> rx_loop fuel tab h r1 f suite2 m1 cur1)))"
        unfolding y' prod.case
        by (rule rx_done_bind[OF E e], assumption) (auto simp: r round b split: option.split)
    qed
  qed
qed

end
