(* ===== verification/Ccnb_Inv.thy ===== *)
theory Ccnb_Inv
  imports Dispatch_Inv
begin

text \<open>
  The CCNb parser ends with a packet, its own error or a read of memory it must not read; its
  dispatch function keeps the relay well-formed and uses up the frame.
\<close>

section \<open>What the parser can end with\<close>

lemma ccnb_dehead_err [simp]: "parse_err (ccnl_ccnb_dehead m cur)"
proof -
  have "parse_err (ccnb_head_loop m p k v)" for p k v
    by (induction k arbitrary: p v) (auto intro!: parse_err_intros)
  then show ?thesis
    unfolding ccnl_ccnb_dehead_def by (auto intro!: parse_err_intros split: prod.split option.split)
qed

lemma ccnb_dehead_Oob: "ccnl_ccnb_dehead m cur = Inl e \<Longrightarrow> e = Oob"
proof -
  have "ccnb_head_loop m p k v = Inl e \<Longrightarrow> e = Oob" for p k v
    by (induction k arbitrary: p v) (auto simp: bindE_eq_Inl_iff rd_def split: if_splits)
  then show "ccnl_ccnb_dehead m cur = Inl e \<Longrightarrow> e = Oob"
    by (auto simp: ccnl_ccnb_dehead_def bindE_eq_Inl_iff rd_def split: if_splits prod.splits option.splits)
qed

lemma blob_val_err [simp]: "parse_err (blob_val v)"
  by (cases v) (simp_all add: blob_val_def)

lemma hunt_err [simp]: "parse_err (ccnl_ccnb_hunt_for_end m cur v)"
proof (induction "length m - fst cur" arbitrary: cur v rule: less_induct)
  case less
  have IH: "fst cur < fst cur' \<Longrightarrow> fst cur < length m \<Longrightarrow> parse_err (ccnl_ccnb_hunt_for_end m cur' v')" for cur' v'
    using less by (simp add: diff_less_mono2)
  show ?case
  proof (cases "ccnl_ccnb_dehead m cur")
    case (Inl e)
    then show ?thesis using parse_errD[OF ccnb_dehead_err Inl] by (subst ccnl_ccnb_hunt_for_end.simps) auto
  next
    case (Inr x)
    obtain h p n where x: "x = (h, (p, n))" by (cases x) auto
    show ?thesis
    proof (cases h)
      case None
      then show ?thesis using Inr x by (subst ccnl_ccnb_hunt_for_end.simps) simp
    next
      case (Some y)
      obtain num tt where y: "y = (num, tt)" by (cases y)
      have pos: "fst cur < p" "fst cur < length m"
        using ccnb_dehead_progress[of m "fst cur" "snd cur" num tt p n] Inr x Some y by simp_all
      have nest: "parse_err (case ccnl_ccnb_hunt_for_end m (p, n) v of Inl e \<Rightarrow> Inl e
          | Inr (cur2, v2) \<Rightarrow> ccnl_ccnb_hunt_for_end m cur2 v2)"
      proof (cases "ccnl_ccnb_hunt_for_end m (p, n) v")
        case (Inl e)
        then show ?thesis using IH[of "(p, n)" v] pos by simp
      next
        case i: (Inr z)
        obtain cur2 v2 where z: "z = (cur2, v2)" by (cases z)
        have "fst cur < fst cur2" using hunt_progress[of m "(p, n)" v cur2 v2] i z pos by simp
        then show ?thesis using i z IH[of cur2 v2] pos by simp
      qed
      show ?thesis
        using Inr x Some y nest IH[of "(p + unat num, wsub n (unat num))" "Some (p, unat num)"] pos
        by (subst ccnl_ccnb_hunt_for_end.simps) simp
    qed
  qed
qed

lemma consume_err [simp]: "parse_err (ccnl_ccnb_consume m typ num cur v)"
  unfolding ccnl_ccnb_consume_def by (auto split: prod.split)

lemma data2uint_err [simp]: "parse_err (ccnl_ccnb_data2uint m p n)"
proof -
  have "parse_err (data2uint_loop m p n v)" for v
    by (induction n arbitrary: p v) (auto intro!: parse_err_intros)
  then show ?thesis by (simp add: ccnl_ccnb_data2uint_def)
qed

lemma ccnb_number_err [simp]: "parse_err (ccnb_number m v x)"
  unfolding ccnb_number_def by (auto intro!: parse_err_intros split: prod.split)

lemma ccnb_field_err [simp]: "parse_err (ccnb_field m num v d)"
  unfolding ccnb_field_def by (auto intro!: parse_err_intros split: prod.split)

lemma ccnb_name_err [simp]: "parse_err (ccnb_name_loop m cur cs)"
proof (induction "length m - fst cur" arbitrary: cur cs rule: less_induct)
  case less
  show ?case
    by (subst ccnb_name_loop.simps)
      (auto intro!: parse_err_head1 parse_err_intros less ccnb_after_head(1) dest: hunt_progress consume_progress split: prod.split)
qed

lemma ccnb_step_err [simp]: "parse_err (ccnb_step m op num typ cur s)"
  unfolding ccnb_step_def by (auto intro!: parse_err_intros split: prod.split)

lemma ccnb_pkt_loop_err [simp]: "parse_err (ccnb_pkt_loop m cur s)"
proof (induction "length m - fst cur" arbitrary: cur s rule: less_induct)
  case less
  show ?case
    by (subst ccnb_pkt_loop.simps)
      (auto intro!: parse_err_head1 parse_err_intros less ccnb_after_head(1) dest: ccnb_step_progress split: prod.split)
qed

lemma ccnb_comps_err [simp]: "parse_err (ccnb_comps b vs)"
  by (induction vs) (auto intro!: parse_err_intros split: prod.split)

lemma ccnb_bytes2pkt_err [simp]: "parse_err (ccnl_ccnb_bytes2pkt m cur)"
  unfolding ccnl_ccnb_bytes2pkt_def by (auto intro!: parse_err_intros split: prod.split)

lemma ccnb_bytes2pkt_pkt: "ccnl_ccnb_bytes2pkt m cur = Inr (pk, cur') \<Longrightarrow> pkt_wf pk"
  by (auto simp: ccnl_ccnb_bytes2pkt_def bindE_eq_Inr_iff pkt_wf_def)

lemma ccnb_cMatch_ok: "match_ok (ccnl_ccnb_cMatch h)"
  by (auto simp: match_ok_def ccnl_ccnb_cMatch_def ccnl_i_prefixof_c_def pkt_wf_def Let_def image_iff split: option.split)

section \<open>The dispatch function\<close>

context application
begin

lemma ccnb_fwd_ok:
  assumes live: "live strict f r"
  shows "case ccnl_ccnb_fwd h r (Some f) m cur num of Inl e \<Rightarrow> e \<in> faults | Inr (r1, go) \<Rightarrow> live strict f r1"
proof -
  obtain q k where c: "cur = (q, k)" by (cases cur)
  show ?thesis
  proof (cases "q < 2")
    case True
    then show ?thesis using c by (simp add: ccnl_ccnb_fwd_def)
  next
    case False
    show ?thesis
    proof (cases "ccnl_ccnb_bytes2pkt (drop (q - 2) m) (2, k)")
      case (Inl e)
      then show ?thesis using parse_errD[OF ccnb_bytes2pkt_err Inl] False c live
        by (auto simp: ccnl_ccnb_fwd_def)
    next
      case (Inr x)
      obtain pk q1 k1 where x: "x = (pk, (q1, k1))" by (cases x) auto
      define fl :: u32 where "fl = pkt_flags pk OR (if num = CCN_DTAG_INTEREST then CCNL_PKT_REQUEST else CCNL_PKT_REPLY)"
      define pk1 where "pk1 = pk\<lparr>pkt_type := num, pkt_flags := fl\<rparr>"
      have w: "pkt_wf pk1" using ccnb_bytes2pkt_pkt[OF Inr[unfolded x]] by (simp add: pk1_def pkt_wf_def)
      define y where "y = (if pkt_flags pk1 AND CCNL_PKT_REQUEST \<noteq> 0
          then ccnl_fwd_handleInterest h r (Some f) pk1 (ccnl_ccnb_cMatch h) else ccnl_fwd_handleContent h r (Some f) pk1)"
      have "handled faults strict f y"
        using handled_interest[OF live ccnb_cMatch_ok disjI1[OF w]] handled_content[OF live disjI1[OF w]] by (simp add: y_def)
      moreover have "ccnl_ccnb_fwd h r (Some f) m cur num =
          bindE y (\<lambda>(rc, r1). Inr (r1, if rc \<noteq> 0 then None else Some (q - 2 + q1, k1)))"
        unfolding y_def pk1_def fl_def using False c Inr x by (simp add: ccnl_ccnb_fwd_def Let_def)
      ultimately show ?thesis by (cases y) auto
    qed
  qed
qed

lemma ccnb_forward_loop_ok:
  "live strict f r \<Longrightarrow> (case ccnb_forward_loop h r (Some f) m cur of
      Inl e \<Rightarrow> e \<in> faults
    | Inr (r1, go) \<Rightarrow> live strict f r1 \<and> (case go of None \<Rightarrow> True | Some (m1, cur1) \<Rightarrow> snd cur1 = 0))"
proof (induction "length m - fst cur" arbitrary: r cur rule: less_induct)
  case less
  note kr = less.prems(1)
  show ?case
  proof (cases "snd cur = 0")
    case True
    then show ?thesis using kr by (subst ccnb_forward_loop.simps) simp
  next
    case n0: False
    show ?thesis
    proof (cases "ccnl_ccnb_dehead m cur")
      case (Inl e)
      then show ?thesis using n0 ccnb_dehead_Oob[OF Inl] by (subst ccnb_forward_loop.simps) simp
    next
      case (Inr x)
      obtain hd cur1 where x: "x = (hd, cur1)" by (cases x)
      show ?thesis
      proof (cases hd)
        case None
        then show ?thesis using n0 Inr x kr by (subst ccnb_forward_loop.simps) simp
      next
        case (Some y)
        obtain num tt where y: "y = (num, tt)" by (cases y)
        note d = Inr x Some y
        show ?thesis
        proof (cases "tt = CCN_TT_DTAG \<and> (num = CCN_DTAG_INTEREST \<or> num = CCN_DTAG_CONTENTOBJ)")
          case False
          then show ?thesis using n0 d kr by (subst ccnb_forward_loop.simps) auto
        next
          case True
          have eq: "ccnb_forward_loop h r (Some f) m cur = bindE (ccnl_ccnb_fwd h r (Some f) m cur1 num) (\<lambda>(r1, go). case go of
                 None \<Rightarrow> Inr (r1, None) | Some cur2 \<Rightarrow> ccnb_forward_loop h r1 (Some f) m cur2)"
            using n0 d True by (subst ccnb_forward_loop.simps) simp
          note ok = ccnb_fwd_ok[OF less.prems, of m cur1 num]
          show ?thesis
          proof (cases "ccnl_ccnb_fwd h r (Some f) m cur1 num")
            case (Inl e)
            then show ?thesis using ok by (simp add: eq)
          next
            case i: (Inr z)
            obtain r1 go where z: "z = (r1, go)" by (cases z)
            have k1: "live strict f r1" using ok i z by simp
            show ?thesis
            proof (cases go)
              case None
              then show ?thesis using eq i z k1 by simp
            next
              case (Some cur2)
              have "case ccnb_forward_loop h r1 (Some f) m cur2 of Inl e \<Rightarrow> e \<in> faults
                | Inr (r2, go) \<Rightarrow> live strict f r2 \<and> (case go of None \<Rightarrow> True | Some (m1, cur1) \<Rightarrow> snd cur1 = 0)"
              proof (rule less.hyps)
                have "ccnl_ccnb_dehead m cur = Inr (Some (num, tt), cur1)" using d by simp
                then show "length m - fst cur2 < length m - fst cur"
                  using ccnb_after_head(1) ccnb_fwd_progress[of h r "Some f" m cur1 num r1 cur2] i z Some by simp
                show "live strict f r1" using k1 .
              qed
              then show ?thesis using eq i z Some by (auto split: sum.splits prod.splits)
            qed
          qed
        qed
      qed
    qed
  qed
qed

lemma ccnb_dispatch_ok: "dispatch_upto faults strict h ccnl_ccnb_forwarder"
  unfolding dispatch_upto_def ccnl_ccnb_forwarder_def
  using ccnb_forward_loop_ok by (fastforce split: sum.splits prod.splits option.splits)

end

end
