(* ===== verification/Relay_Ops.thy ===== *)
theory Relay_Ops
  imports Dispatch_Inv
begin

text \<open>
  The operations the application and the command line call on a well-formed relay: entries of the
  forwarding table and taps, adding to and removing from the content store, broadcasting an
  Interest, finding a face. Each ends without an error and keeps the relay well-formed.
\<close>

section \<open>The forwarding table\<close>

lemma relay_wf_fib:
  assumes "relay_wf r" and "\<forall>fw\<in>set fws. fw_prefix fw \<noteq> None \<and> set_option (fw_face fw) \<subseteq> out_faces r"
  shows "keeps r (r\<lparr>rl_fib := fws\<rparr>)"
  using assms by (simp add: keeps_def relay_wf_def faces_wf_def ifs_wf_def pit_wf_def fib_wf_def cs_wf_def
      nonces_wf_def face_ids_def out_faces_def)

lemma fib_wfD: "relay_wf r \<Longrightarrow> \<forall>fw\<in>set (rl_fib r). fw_prefix fw \<noteq> None"
  by (simp add: relay_wf_def fib_wf_def)

lemma fib_put_keeps:
  assumes "relay_wf r" and "fw_prefix new \<noteq> None" and "set_option (fw_face new) \<subseteq> out_faces r"
    and "fib_key new = prefix_key p" and "\<And>fw. fib_key fw = prefix_key p \<Longrightarrow> fib_key (g fw) = prefix_key p"
    and "\<And>fw. fw_prefix (g fw) \<noteq> None"
    and "\<And>fw. set_option (fw_face fw) \<subseteq> out_faces r \<Longrightarrow> set_option (fw_face (g fw)) \<subseteq> out_faces r"
  shows "keeps r (r\<lparr>rl_fib := fib_put p g new (rl_fib r)\<rparr>)"
proof (rule relay_wf_fib[OF assms(1)], rule ballI)
  fix fw assume "fw \<in> set (fib_put p g new (rl_fib r))"
  then have "fw = new \<or> fw \<in> set (rl_fib r) \<or> fw \<in> g ` set (rl_fib r)"
    using fib_put_map(3)[OF assms(4), of g "rl_fib r"] assms(5) by auto
  moreover have "\<forall>x\<in>set (rl_fib r). fw_prefix x \<noteq> None \<and> set_option (fw_face x) \<subseteq> out_faces r"
    using assms(1) by (simp add: relay_wf_def fib_wf_def)
  ultimately show "fw_prefix fw \<noteq> None \<and> set_option (fw_face fw) \<subseteq> out_faces r"
    using assms(2,3,6,7) by blast
qed

lemma fib_add_keeps:
  assumes "relay_wf r" and "set_option fc \<subseteq> out_faces r"
  shows "\<exists>r'. ccnl_fib_add_entry r p fc = Inr (0, r') \<and> keeps r r'"
proof -
  have "keeps r (r\<lparr>rl_fib := fib_put p (\<lambda>fw. fw\<lparr>fw_prefix := Some p, fw_face := fc\<rparr>)
      \<lparr>fw_prefix = Some p, fw_tap = None, fw_face = fc, fw_suite = pfx_suite p\<rparr> (rl_fib r)\<rparr>)"
    by (rule fib_put_keeps[OF assms(1)]) (use assms(2) in \<open>auto simp: fib_key_def prefix_key_def\<close>)
  then show ?thesis using fib_add_eq(1)[OF fib_wfD[OF assms(1)]] by blast
qed

lemma set_tap_keeps:
  assumes "relay_wf r"
  shows "\<exists>r'. ccnl_set_tap r p cb = Inr (0, r') \<and> keeps r r'"
proof -
  have "keeps r (r\<lparr>rl_fib := fib_put p (\<lambda>fw. fw\<lparr>fw_prefix := Some p, fw_tap := Some cb\<rparr>)
      \<lparr>fw_prefix = Some p, fw_tap = Some cb, fw_face = None, fw_suite = pfx_suite p\<rparr> (rl_fib r)\<rparr>)"
    by (rule fib_put_keeps[OF assms(1)]) (auto simp: fib_key_def prefix_key_def)
  then show ?thesis using fib_add_eq(2)[OF fib_wfD[OF assms(1)]] by blast
qed

lemma fib_rem_keeps:
  assumes "relay_wf r"
  shows "\<exists>rc r'. ccnl_fib_rem_entry r p fc = Inr (rc, r') \<and> keeps r r'"
proof -
  define fws where "fws = (if \<exists>fw\<in>set (rl_fib r). fib_matches p fc fw
      then takeWhile (\<lambda>fw. \<not> fib_matches p fc fw) (rl_fib r) @ tl (dropWhile (\<lambda>fw. \<not> fib_matches p fc fw) (rl_fib r))
      else rl_fib r)"
  have "set (tl (dropWhile (\<lambda>fw. \<not> fib_matches p fc fw) (rl_fib r))) \<subseteq> set (rl_fib r)"
    by (metis list.set_sel(2) set_dropWhileD subsetI tl_Nil)
  then have "set fws \<subseteq> set (rl_fib r)" by (auto simp: fws_def dest: set_takeWhileD)
  then have "keeps r (r\<lparr>rl_fib := fws\<rparr>)"
    using assms by (intro relay_wf_fib) (auto simp: relay_wf_def fib_wf_def)
  then show ?thesis
    using fib_rem_loop_spec[OF fib_wfD[OF assms], of p fc]
    by (cases "\<exists>fw\<in>set (rl_fib r). fib_matches p fc fw") (simp_all add: ccnl_fib_rem_entry_def fws_def)
qed

section \<open>The content store\<close>

lemma cs_set_keeps:
  assumes wf: "relay_wf r" and c': "c_ref c' = c_ref c" "c_pkt c' = c_pkt c"
  shows "\<forall>x\<in>set (rl_contents r). c_ref x = c_ref c \<longrightarrow> c_pkt x = c_pkt c \<Longrightarrow> keeps r (cs_upd (c_ref c) (\<lambda>_. c') r)"
proof -
  let ?g = "\<lambda>x. if c_ref x = c_ref c then c' else x"
  assume x: "\<forall>x\<in>set (rl_contents r). c_ref x = c_ref c \<longrightarrow> c_pkt x = c_pkt c"
  have m: "map (c_ref \<circ> ?g) (rl_contents r) = map c_ref (rl_contents r)"
    "map ((pkt_name \<circ> c_pkt) \<circ> ?g) (rl_contents r) = map (pkt_name \<circ> c_pkt) (rl_contents r)"
    using x c' by auto
  have "cs_wf (r\<lparr>rl_contents := map ?g (rl_contents r), rl_contentcnt := rl_contentcnt r\<rparr>)"
    using wf x c' unfolding relay_wf_def cs_wf_def by (auto simp: m)
  from relay_wf_cs[OF wf this] show ?thesis by (simp add: keeps_def cs_upd_def face_ids_def)
qed

lemma cs_add_keeps:
  assumes wf: "relay_wf r" and c: "fresh_content r c" and h: "hk_cs_remove h = None"
  shows "\<exists>rc r'. ccnl_cs_add h c r = Inr (rc, r') \<and> keeps r r'"
proof -
  note a = add2cache_wf[OF wf c h]
  show ?thesis
  proof (cases "cached_name r (c_pkt c)")
    case True
    then show ?thesis using a(1) wf by (simp add: ccnl_cs_add_def keeps_refl)
  next
    case False
    define r1 where "r1 = (if room r then r\<lparr>rl_contents := c # evict r, rl_contentcnt := int (length (evict r)) + 1\<rparr>
        else r\<lparr>rl_contents := evict r, rl_contentcnt := int (length (evict r))\<rparr>)"
    have r1: "ccnl_content_add2cache h c r = Inr (True, r1)" "relay_wf r1" "face_ids r1 = face_ids r" "all_out r1 = all_out r"
      using a False by (simp_all add: r1_def face_ids_def)
    obtain b where b: "pkt_wf (c_pkt c)" "pkt_buf (c_pkt c) = Some b" using c by (auto simp: fresh_content_def pkt_wf_def)
    obtain r2 c' and fs :: "faceref list" where s: "ccnl_content_serve_pending h c r1 = Inr (length fs + unawaited h c (rl_pit r1), c', r2)"
      "serving r1 r2" "relay_wf r2" "c_pkt c' = c_pkt c" "c_ref c' = c_ref c"
      using serve_pending_wf[OF r1(2) b, of h] by auto
    have "\<forall>x\<in>set (rl_contents r). c_ref x \<noteq> c_ref c" using c unfolding fresh_content_def by (metis image_eqI)
    then have "\<forall>x\<in>set (rl_contents r2). c_ref x = c_ref c \<longrightarrow> c_pkt x = c_pkt c"
      using s(2) by (auto simp: serving_def r1_def evict_def fresh_content_def split: if_splits)
    then have "keeps r2 (cs_upd (c_ref c) (\<lambda>_. c') r2)" by (rule cs_set_keeps[OF s(3,5,4)])
    then have "keeps r (cs_upd (c_ref c) (\<lambda>_. c') r2)"
      using serving_keeps[OF s(2,3)] r1(3,4) by (auto simp: keeps_def)
    then show ?thesis using r1(1) s(1) by (simp add: ccnl_cs_add_def)
  qed
qed

lemma cs_path_find_wf:
  "(\<forall>c\<in>set cs. pkt_wf (c_pkt c)) \<Longrightarrow> \<exists>x. cs_path_find u cs = Inr x \<and> (\<forall>c. x = Some (Some c) \<longrightarrow> c \<in> set cs)"
proof (induction cs)
  case (Cons c cs)
  then obtain p where "pkt_pfx (c_pkt c) = Some p" by (auto simp: pkt_wf_def)
  then show ?case using Cons by (auto split: sum.split)
qed simp

lemma cs_remove_keeps:
  assumes wf: "relay_wf r"
  shows "\<exists>rc r'. ccnl_cs_remove u r = Inr (rc, r') \<and> keeps r r'"
proof (cases u)
  case None
  then show ?thesis using wf by (simp add: ccnl_cs_remove_def keeps_refl)
next
  case (Some v)
  have "\<forall>c\<in>set (rl_contents r). pkt_wf (c_pkt c)" using wf by (simp add: relay_wf_def cs_wf_def)
  from cs_path_find_wf[OF this, of v] obtain x where x: "cs_path_find v (rl_contents r) = Inr x"
    "\<forall>c. x = Some (Some c) \<longrightarrow> c \<in> set (rl_contents r)" by blast
  show ?thesis
  proof (cases "\<exists>c. x = Some (Some c)")
    case True
    then obtain c where c: "x = Some (Some c)" by blast
    obtain r' where r': "ccnl_content_remove (c_ref c) r = Inr r'" "relay_wf r'"
      using rcs.rem_member[OF wf] x(2) c by blast
    then have "face_ids r' = face_ids r" "all_out r' = all_out r"
      by (auto simp: ccnl_content_remove_def bindE_eq_Inr_iff face_ids_def)
    then show ?thesis using Some x c r' by (simp add: ccnl_cs_remove_def keeps_def)
  next
    case False
    then have "x = None \<or> x = Some None" by (cases x) auto
    then show ?thesis using Some x(1) keeps_refl[OF wf] by (auto simp: ccnl_cs_remove_def)
  qed
qed

section \<open>Faces and broadcasting\<close>

lemma broadcast_addr_spec: "broadcast_addr s fam = Some a \<Longrightarrow> a \<noteq> Su_unspec"
  by (auto simp: broadcast_addr_def Let_def split: sa_family.splits)

lemma get_face_ifs:
  "ccnl_get_face_or_create r ix (Some a) = Inr (x, r1) \<Longrightarrow> rl_ifs r1 = rl_ifs r"
  by (auto simp: ccnl_get_face_or_create_def Let_def bindE_eq_Inr_iff split: option.splits if_splits)

text \<open>The face found or made for an address has an interface.\<close>

lemma get_face_all_out:
  assumes "ccnl_get_face_or_create r ix (Some a) = Inr (x, r1)" and "-1 \<le> ix" and "all_out r"
  shows "all_out r1"
proof -
  have up: "all_out (face_upd i (\<lambda>f. f\<lparr>f_last_used := t\<rparr>) r) = all_out r" for i t
    by (rule all_out_cong; rule face_upd_ids) (simp_all add: face_mark_def)
  have new: "0 \<le> f_ifndx f \<Longrightarrow> all_out (r\<lparr>rl_seqno := sq, rl_faces := f # rl_faces r\<rparr>)" for f sq
    using assms(3) by (auto simp: all_out_def face_ids_def out_faces_def)
  show ?thesis using assms up new
    by (auto simp: ccnl_get_face_or_create_def Let_def bindE_eq_Inr_iff split: option.splits if_splits)
qed

lemma get_face_keeps:
  assumes "relay_wf r" and "0 \<le> ix" and "ix < int (length (rl_ifs r))" and "a \<noteq> Su_unspec"
  shows "\<exists>g r1. ccnl_get_face_or_create r ix (Some a) = Inr (Some (f_faceid g), r1) \<and> relay_wf r1
    \<and> g \<in> set (rl_faces r1) \<and> face_for ix a g \<and> keeps r r1"
proof -
  from get_face_addr[OF assms] obtain g r1 where g: "ccnl_get_face_or_create r ix (Some a) = Inr (Some (f_faceid g), r1)"
    "relay_wf r1" "g \<in> set (rl_faces r1)" "face_for ix a g"
    "(\<exists>g\<in>set (rl_faces r). face_for ix a g) \<longrightarrow> face_ids r1 = face_ids r"
    "(\<nexists>g. g \<in> set (rl_faces r) \<and> face_for ix a g) \<longrightarrow> rl_faces r1 = g # rl_faces r" by blast
  have "face_ids r \<subseteq> face_ids r1"
    by (cases "\<exists>g\<in>set (rl_faces r). face_for ix a g") (use g(5,6) in \<open>auto simp: face_ids_def\<close>)
  then show ?thesis using g get_face_all_out[OF g(1)] assms(2) by (auto simp: keeps_def)
qed

lemma broadcast_loop_keeps:
  "relay_wf r \<Longrightarrow> pkt_buf p \<noteq> None \<Longrightarrow> \<forall>k\<in>set ks. k < length (rl_ifs r) \<Longrightarrow> set_option f \<subseteq> out_faces r \<Longrightarrow>
    \<exists>r'. broadcast_loop p ks f r = Inr r' \<and> keeps r r'"
proof (induction ks arbitrary: f r)
  case Nil
  then show ?case by (simp add: keeps_refl)
next
  case (Cons k ks)
  obtain b where b: "pkt_buf p = Some b" using Cons.prems(2) by auto
  define x where "x = (case broadcast_addr (pkt_suite p) (su_family (if_addr (rl_ifs r ! k))) of
             None \<Rightarrow> Inr (f, r) | Some a \<Rightarrow> ccnl_get_face_or_create r (int k) (Some a))"
  have k: "k < length (rl_ifs r)" using Cons.prems(3) by simp
  have "\<exists>g r1. x = Inr (g, r1) \<and> keeps r r1 \<and> set_option g \<subseteq> out_faces r1 \<and> rl_ifs r1 = rl_ifs r"
  proof (cases "broadcast_addr (pkt_suite p) (su_family (if_addr (rl_ifs r ! k)))")
    case None
    then show ?thesis using Cons.prems(1,4) by (simp add: x_def keeps_refl)
  next
    case (Some a)
    obtain g r1 where g: "ccnl_get_face_or_create r (int k) (Some a) = Inr (Some (f_faceid g), r1)" "relay_wf r1"
      "g \<in> set (rl_faces r1)" "face_for (int k) a g" "keeps r r1"
      using get_face_keeps[OF Cons.prems(1) _ _ broadcast_addr_spec[OF Some], of "int k"] k by auto
    then show ?thesis using Some get_face_ifs[OF g(1)]
      by (auto simp: x_def keeps_def out_faces_def face_for_def)
  qed
  then obtain g r1 where g: "x = Inr (g, r1)" "keeps r r1" "set_option g \<subseteq> out_faces r1" "rl_ifs r1 = rl_ifs r" by blast
  have step: "broadcast_loop p (k # ks) f r = (case g of None \<Rightarrow> broadcast_loop p ks g r1
      | Some y \<Rightarrow> bindE (ccnl_send_pkt y p r1) (\<lambda>(rc, r2). broadcast_loop p ks g r2))"
    using k g(1) by (simp add: x_def[symmetric] del: broadcast_loop.simps add: broadcast_loop.simps(2)[of p k ks f r])
  have w1: "relay_wf r1" using g(2) by (simp add: keeps_def)
  show ?case
  proof (cases g)
    case None
    then show ?thesis using step Cons.IH[OF w1 Cons.prems(2), of g] Cons.prems(3) g keeps_trans[OF g(2)] by auto
  next
    case (Some y)
    obtain r2 where r2: "ccnl_send_pkt y p r1 = Inr (0, r2)" "out_only r1 r2"
      using send_wf[OF w1 _ b, of y] g(3) Some by auto
    have "relay_wf r2" "set_option g \<subseteq> out_faces r2" "\<forall>k\<in>set ks. k < length (rl_ifs r2)"
      using out_only_wf[OF r2(2) w1] g(3,4) Cons.prems(3) by (simp_all add: out_only_fields[OF r2(2)])
    then obtain r' where "broadcast_loop p ks g r2 = Inr r'" "keeps r2 r'" using Cons.IH Cons.prems(2) by blast
    then show ?thesis using step Some r2(1) keeps_trans[OF keeps_trans[OF g(2) keeps_out[OF w1 r2(2)]]] by auto
  qed
qed

end
