(* ===== verification/Relay_System.thy ===== *)
theory Relay_System
  imports Relay_Ops
begin

text \<open>
  The relay as a state machine: its initial state, the events that change it between two rounds of
  the event loop, and the relays they reach. Every reachable relay is well-formed, and no event in
  a reachable relay touches a freed object or loops for ever.
\<close>

section \<open>The empty relay\<close>

text \<open>An interface of the static array \<open>ifs\<close>: the ring of requests is empty.\<close>

definition idle_if :: "sockunion \<Rightarrow> iface" where
  "idle_if a = \<lparr>if_addr = a, if_reflect = False, if_fwdalli = True, if_mtu = 1500, if_qlen = 0, if_qfront = 0,
     if_queue = replicate CCNL_MAX_IF_QLEN \<lparr>tx_buf = [], tx_dst = Su_unspec, tx_face = 0\<rparr>,
     if_rx_cnt = 0, if_tx_cnt = 0\<rparr>"

definition empty_relay :: "sockunion list \<Rightarrow> int \<Rightarrow> int \<Rightarrow> relay" where
  "empty_relay addrs max_cache max_pit = \<lparr>rl_faces = [], rl_fib = [], rl_pit = [], rl_contents = [], rl_nonces = [],
     rl_contentcnt = 0, rl_max_cache_entries = max_cache, rl_pitcnt = 0, rl_max_pit_entries = max_pit,
     rl_ifs = map idle_if (take CCNL_MAX_INTERFACES addrs) @ replicate (CCNL_MAX_INTERFACES - length addrs) (idle_if Su_unspec),
     rl_ifcount = min (length addrs) CCNL_MAX_INTERFACES, rl_seqno = 0, rl_fresh = 0, rl_now = 0, rl_tx = [], rl_taps = [], rl_halt = False\<rparr>"

lemma empty_relay_wf: "relay_wf (empty_relay addrs max_cache max_pit)"
  by (auto simp: relay_wf_defs empty_relay_def idle_if_def face_ids_def min_def)

section \<open>Receiving\<close>

lemma get_face_local:
  assumes "relay_wf r"
  shows "\<exists>f r1. ccnl_get_face_or_create r (-1) None = Inr (Some f, r1) \<and> relay_wf r1 \<and> f \<in> face_ids r1"
proof (cases "find (\<lambda>f. f_ifndx f = -1) (rl_faces r)")
  case None
  then show ?thesis
    using new_face_wf[OF assms, of "\<lparr>f_faceid = rl_seqno r + 1, f_ifndx = -1, f_peer = Su_unspec, f_flags = 0,
      f_last_used = rl_now r, f_outq = []\<rparr>"]
    by (simp add: ccnl_get_face_or_create_def Let_def face_ids_def)
next
  case (Some f)
  then have "f \<in> set (rl_faces r)" by (auto simp: find_Some_iff)
  then show ?thesis using Some assms by (auto simp: ccnl_get_face_or_create_def face_ids_def)
qed

lemma rx_count_wf:
  assumes "relay_wf r" and "n < length (rl_ifs r)"
  shows "relay_wf (if_upd n (\<lambda>i. i\<lparr>if_rx_cnt := if_rx_cnt i + 1\<rparr>) r)"
proof -
  have "ifs_wf (if_upd n (\<lambda>i. i\<lparr>if_rx_cnt := if_rx_cnt i + 1\<rparr>) r)"
    using assms by (auto simp: relay_wf_def ifs_wf_def if_upd_def dest!: set_update_subset_insert[THEN subsetD])
  then show ?thesis using assms
    by (simp add: relay_wf_def faces_wf_def pit_wf_def fib_wf_def cs_wf_def nonces_wf_def if_upd_def face_ids_def out_faces_def)
qed

text \<open>Where a frame may come from: an interface and an address, or the local client.\<close>

definition rx_source :: "relay \<Rightarrow> int \<Rightarrow> sockunion option \<Rightarrow> bool" where
  "rx_source r ifndx sa \<longleftrightarrow> (case sa of None \<Rightarrow> ifndx = -1
     | Some a \<Rightarrow> 0 \<le> ifndx \<and> ifndx < int (length (rl_ifs r)) \<and> a \<noteq> Su_unspec)"

lemma core_RX_loop:
  assumes wf: "relay_wf r" and src: "rx_source r ifndx sa"
  shows "\<exists>f r2. ccnl_core_RX tab h r ifndx data datalen sa = rx_loop (rx_fuel datalen) tab h r2 f (-1) data (0, datalen)
    \<and> relay_wf r2 \<and> f \<in> face_ids r2 \<and> (sa \<noteq> None \<longrightarrow> all_out r \<longrightarrow> all_out r2)"
proof (cases sa)
  case None
  then have "ifndx = -1" using src by (simp add: rx_source_def)
  then show ?thesis using get_face_local[OF wf] None by (fastforce simp: ccnl_core_RX_def)
next
  case (Some a)
  then have ix: "0 \<le> ifndx" "ifndx < int (length (rl_ifs r))" "a \<noteq> Su_unspec" using src by (auto simp: rx_source_def)
  define r1 where "r1 = if_upd (nat ifndx) (\<lambda>i. i\<lparr>if_rx_cnt := if_rx_cnt i + 1\<rparr>) r"
  have r1: "relay_wf r1" "length (rl_ifs r1) = length (rl_ifs r)"
    using rx_count_wf[OF wf, of "nat ifndx"] ix by (simp_all add: r1_def if_upd_def nat_less_iff)
  obtain g r2 where g: "ccnl_get_face_or_create r1 ifndx (Some a) = Inr (Some (f_faceid g), r2)" "relay_wf r2"
    "g \<in> set (rl_faces r2)" "all_out r1 \<longrightarrow> all_out r2"
    using get_face_keeps[OF r1(1) ix(1) _ ix(3)] ix(2) r1(2) by (auto simp: keeps_def)
  have "all_out r1 = all_out r" by (simp add: r1_def)
  moreover have "nat ifndx < length (rl_ifs r)" using ix by (simp add: nat_less_iff)
  ultimately show ?thesis using g ix Some
    by (intro exI[of _ "f_faceid g"] exI[of _ r2]) (simp add: ccnl_core_RX_def r1_def[symmetric] face_ids_def)
qed

lemma core_RX_done:
  assumes tab: "\<forall>s rx. tab s = Some rx \<longrightarrow> dispatch_upto E strict h rx" and E: "Oob \<in> E" and wf: "relay_wf r" and src: "rx_source r ifndx sa"
    and st: "strict \<longrightarrow> sa \<noteq> None \<and> all_out r"
  shows "rx_done E strict (ccnl_core_RX tab h r ifndx data datalen sa)"
proof -
  obtain f r2 where f: "ccnl_core_RX tab h r ifndx data datalen sa = rx_loop (rx_fuel datalen) tab h r2 f (-1) data (0, datalen)"
    and live: "live strict f r2" using core_RX_loop[OF wf src, of tab h data datalen] st by (auto simp: live_def)
  have "budget data (0, datalen) < rx_fuel datalen" by (simp add: budget_def rx_fuel_def)
  then show ?thesis using rx_loop_done[OF tab E live] f by simp
qed

section \<open>Events\<close>

text \<open>
  One event between two rounds of the event loop. A face given to the forwarding table is one of the
  relay's that has an interface; a content handed to the cache is new.
\<close>

inductive relay_step :: "suite_table \<Rightarrow> hooks \<Rightarrow> relay \<Rightarrow> relay \<Rightarrow> bool" for tab h where
  step_rx: "rx_source r ifndx sa \<Longrightarrow> ccnl_core_RX tab h r ifndx data datalen sa = Inr r' \<Longrightarrow> relay_step tab h r r'"
| step_clock: "relay_step tab h r (r\<lparr>rl_now := now\<rparr>)"
| step_age: "ccnl_do_ageing r = Inr r' \<Longrightarrow> relay_step tab h r r'"
| step_face: "0 \<le> ifndx \<Longrightarrow> ifndx < int (length (rl_ifs r)) \<Longrightarrow> a \<noteq> Su_unspec \<Longrightarrow>
    ccnl_get_face_or_create r ifndx (Some a) = Inr (f, r') \<Longrightarrow> relay_step tab h r r'"
| step_face_remove: "f \<in> face_ids r \<Longrightarrow> ccnl_face_remove f r = Inr (f2, r') \<Longrightarrow> relay_step tab h r r'"
| step_fib_add: "set_option fc \<subseteq> out_faces r \<Longrightarrow> ccnl_fib_add_entry r p fc = Inr (rc, r') \<Longrightarrow> relay_step tab h r r'"
| step_fib_rem: "ccnl_fib_rem_entry r po fc = Inr (rc, r') \<Longrightarrow> relay_step tab h r r'"
| step_tap: "ccnl_set_tap r p cb = Inr (rc, r') \<Longrightarrow> relay_step tab h r r'"
| step_cs_add: "pkt_wf pk \<Longrightarrow> ccnl_content_new r pk = (c, r1) \<Longrightarrow> ccnl_cs_add h c r1 = Inr (rc, r') \<Longrightarrow> relay_step tab h r r'"
| step_cs_remove: "ccnl_cs_remove u r = Inr (rc, r') \<Longrightarrow> relay_step tab h r r'"
| step_broadcast: "i \<in> set (rl_pit r) \<Longrightarrow> ccnl_interest_broadcast i r = Inr r' \<Longrightarrow> relay_step tab h r r'"
| step_cleanup: "ccnl_core_cleanup r = Inr r' \<Longrightarrow> relay_step tab h r r'"

inductive relay_reachable :: "suite_table \<Rightarrow> hooks \<Rightarrow> relay \<Rightarrow> relay \<Rightarrow> bool" for tab h where
  reach_start: "relay_reachable tab h r r"
| reach_step: "relay_reachable tab h r r1 \<Longrightarrow> relay_step tab h r1 r2 \<Longrightarrow> relay_reachable tab h r r2"

inductive_cases relay_stepE: "relay_step tab h r r'"

lemma relay_step_wf:
  assumes tab: "\<forall>s rx. tab s = Some rx \<longrightarrow> dispatch_upto E False h rx" and E: "Oob \<in> E" and h: "hk_cs_remove h = None"
    and wf: "relay_wf r" and st: "relay_step tab h r r'"
  shows "relay_wf r'"
  using st
proof cases
  case (step_rx ifndx sa data datalen)
  then show ?thesis using core_RX_done[OF tab E wf, of ifndx sa data datalen] by (simp add: rx_done_def)
next
  case (step_clock now)
  then show ?thesis using wf
    by (simp add: relay_wf_def faces_wf_def ifs_wf_def pit_wf_def fib_wf_def cs_wf_def nonces_wf_def face_ids_def out_faces_def)
next
  case step_age
  then show ?thesis using do_ageing_wf[OF wf] by auto
next
  case (step_face ifndx a f)
  then show ?thesis using get_face_keeps[OF wf, of ifndx a] by auto
next
  case (step_face_remove f f2)
  then show ?thesis using face_remove_eq[OF wf, of f] without_face_wf[OF wf, of f] by auto
next
  case (step_fib_add fc p rc)
  then show ?thesis using fib_add_keeps[OF wf, of fc p] by (auto simp: keeps_def)
next
  case (step_fib_rem po fc rc)
  then show ?thesis using fib_rem_keeps[OF wf, of po fc] by (auto simp: keeps_def)
next
  case (step_tap p cb rc)
  then show ?thesis using set_tap_keeps[OF wf, of p cb] by (auto simp: keeps_def)
next
  case (step_cs_add pk c r1 rc)
  have r1: "relay_wf r1" "fresh_content r1 c"
    using content_new_wf[OF wf step_cs_add(2)] step_cs_add(1) by (auto simp: keeps_def fresh_content_def)
  show ?thesis using cs_add_keeps[OF r1 h] step_cs_add(3) by (auto simp: keeps_def)
next
  case (step_cs_remove u rc)
  then show ?thesis using cs_remove_keeps[OF wf, of u] by (auto simp: keeps_def)
next
  case (step_broadcast i)
  then have "pkt_wf (i_pkt i)" using wf by (auto simp: relay_wf_def pit_wf_def interest_wf_def)
  then show ?thesis using step_broadcast broadcast_loop_keeps[OF wf, of "i_pkt i" "[0..<CCNL_MAX_INTERFACES]" None] wf
    by (auto simp: keeps_def ccnl_interest_broadcast_def pkt_wf_def relay_wf_def ifs_wf_def)
next
  case step_cleanup
  then show ?thesis using core_cleanup_wf[OF wf] by auto
qed

lemma relay_reachable_wf:
  assumes tab: "\<forall>s rx. tab s = Some rx \<longrightarrow> dispatch_upto E False h rx" and E: "Oob \<in> E" and h: "hk_cs_remove h = None"
  shows "relay_reachable tab h r r' \<Longrightarrow> relay_wf r \<Longrightarrow> relay_wf r'"
  by (induction rule: relay_reachable.induct) (use relay_step_wf[OF tab E h] in blast)+

end
