(* ===== verification/Rpc_Round.thy ===== *)
theory Rpc_Round
  imports Rpc
begin

text \<open>
  Encoding and decoding of local RPC data fit together: \<open>ccnl_rdr_serialize\<close> writes the type, the
  length and the contents of every node, \<open>ccnl_rdr_getType\<close> reads back the same tree.
\<close>

section \<open>The format\<close>

abbreviation (input) is_leaf :: "int \<Rightarrow> bool" where
  "is_leaf t \<equiv> t = LRPC_FLATNAME \<or> t = LRPC_BIN \<or> t = LRPC_STR \<or> t = LRPC_NONCE"

abbreviation (input) is_call :: "int \<Rightarrow> bool" where
  "is_call t \<equiv> t = LRPC_APPLICATION \<or> t = LRPC_LAMBDA"

abbreviation (input) is_row :: "int \<Rightarrow> bool" where
  "is_row t \<equiv> t = LRPC_PT_REQUEST \<or> t = LRPC_PT_REPLY \<or> t = LRPC_SEQUENCE"

definition leaf_bytes :: "u64 \<Rightarrow> (bytes \<times> nat) option \<Rightarrow> bytes" where
  "leaf_bytes v bs = (case bs of None \<Rightarrow> [] | Some (s, k) \<Rightarrow> take (unat v) (drop k s))"

definition rdr_tlv :: "int \<Rightarrow> bytes \<Rightarrow> bytes" where
  "rdr_tlv t body = lrpc_field (of_int t) @ lrpc_field (of_nat (length body)) @ body"

fun rdr_enc :: "rdr \<Rightarrow> bytes" where
  "rdr_enc (Rdr t fl flat v sub bs kids) = rdr_tlv t
     (if is_leaf t then leaf_bytes v bs
      else if t = LRPC_NONNEGINT then be_bytes (int_bytes v) v
      else (case sub of None \<Rightarrow> [] | Some a \<Rightarrow> rdr_enc a) @ concat (map rdr_enc kids))"

text \<open>A tree as the building routines make it.\<close>

fun rdr_ok :: "rdr \<Rightarrow> bool" where
  "rdr_ok (Rdr t fl flat v sub bs kids) \<longleftrightarrow> flat = None \<and>
     (if is_leaf t then sub = None \<and> kids = [] \<and> (case bs of None \<Rightarrow> v = 0 | Some (s, k) \<Rightarrow> k + unat v \<le> length s)
      else if t = LRPC_NONNEGINT then sub = None \<and> bs = None \<and> kids = []
      else v = 0 \<and> bs = None \<and> (\<forall>k\<in>set kids. rdr_ok k) \<and>
        (if is_call t then case sub of None \<Rightarrow> False | Some a \<Rightarrow> rdr_ok a else is_row t \<and> sub = None))"

text \<open>The tree with every node's length noted in it.\<close>

fun rdr_sized :: "rdr \<Rightarrow> rdr" where
  "rdr_sized (Rdr t fl flat v sub bs kids) =
     Rdr t (length (rdr_enc (Rdr t fl flat v sub bs kids))) flat v (map_option rdr_sized sub) bs (map rdr_sized kids)"

declare rdr_enc.simps [simp del] rdr_ok.simps [simp del] rdr_sized.simps [simp del]

lemma enc_sized [simp]: "rdr_enc (rdr_sized x) = rdr_enc x"
proof (induction x)
  case (Rdr t fl flat v sub bs kids)
  have k: "map rdr_enc (map rdr_sized kids) = map rdr_enc kids"
    using Rdr.IH(2) by simp
  have s: "(case map_option rdr_sized sub of None \<Rightarrow> [] | Some a \<Rightarrow> rdr_enc a) = (case sub of None \<Rightarrow> [] | Some a \<Rightarrow> rdr_enc a)"
    using Rdr.IH(1) by (cases sub) simp_all
  show ?case unfolding rdr_sized.simps unfolding rdr_enc.simps k s ..
qed

lemma ok_sized [simp]: "rdr_ok (rdr_sized x) = rdr_ok x"
proof (induction x)
  case (Rdr t fl flat v sub bs kids)
  have k: "(\<forall>k\<in>set (map rdr_sized kids). rdr_ok k) = (\<forall>k\<in>set kids. rdr_ok k)"
    using Rdr.IH(2) by simp
  have s: "(case map_option rdr_sized sub of None \<Rightarrow> False | Some a \<Rightarrow> rdr_ok a) = (case sub of None \<Rightarrow> False | Some a \<Rightarrow> rdr_ok a)"
    using Rdr.IH(1) by (cases sub) simp_all
  show ?case unfolding rdr_sized.simps unfolding rdr_ok.simps k s by simp
qed

lemma flatlen_sized [simp]: "r_flatlen (rdr_sized x) = length (rdr_enc x)"
  by (cases x) (simp add: rdr_sized.simps)

lemma sized_sized [simp]: "rdr_sized (rdr_sized x) = rdr_sized x"
proof (induction x)
  case (Rdr t fl flat v sub bs kids)
  have k: "map rdr_sized (map rdr_sized kids) = map rdr_sized kids"
    using Rdr.IH(2) by simp
  have s: "map_option rdr_sized (map_option rdr_sized sub) = map_option rdr_sized sub"
    using Rdr.IH(1) by (cases sub) simp_all
  have e: "rdr_enc (Rdr t n flat v (map_option rdr_sized sub) bs (map rdr_sized kids)) = rdr_enc (Rdr t fl flat v sub bs kids)" for n
    using enc_sized[of "Rdr t fl flat v sub bs kids"] unfolding rdr_sized.simps unfolding rdr_enc.simps .
  show ?case unfolding rdr_sized.simps k s e ..
qed

section \<open>Lengths\<close>

lemma length_field: "length (lrpc_field v) = ccnl_lrpc_fieldlen v"
  by (simp add: lrpc_field_def ccnl_lrpc_fieldlen_def)

lemma TLVlen: "length (rdr_tlv t body) < 2 ^ 64 \<Longrightarrow> ccnl_lrpc_TLVlen t (length body) = length (rdr_tlv t body)"
  by (simp add: ccnl_lrpc_TLVlen_def ccnl_lrpc_TLlen_def rdr_tlv_def length_field)

lemma length_rpc_tlv: "length body < length (rdr_tlv t body)"
  by (simp add: rdr_tlv_def length_field ccnl_lrpc_fieldlen_def)

lemma length_leaf: "(case bs of None \<Rightarrow> v = 0 | Some (s, k) \<Rightarrow> k + unat v \<le> length s) \<Longrightarrow> length (leaf_bytes v bs) = unat v"
  by (auto simp: leaf_bytes_def split: option.splits)

lemma flatLens_ok:
  assumes "\<And>x acc. x \<in> set xs \<Longrightarrow> ccnl_rdr_getFlatLen x acc = Inr (rdr_sized x, (acc + length (rdr_enc x)) mod 2 ^ 64)"
  shows "acc < 2 ^ 64 \<Longrightarrow> rdr_flatLens xs acc = Inr (map rdr_sized xs, (acc + length (concat (map rdr_enc xs))) mod 2 ^ 64)"
  using assms
proof (induction xs arbitrary: acc)
  case (Cons x xs)
  have "rdr_flatLens xs ((acc + length (rdr_enc x)) mod 2 ^ 64)
      = Inr (map rdr_sized xs, ((acc + length (rdr_enc x)) mod 2 ^ 64 + length (concat (map rdr_enc xs))) mod 2 ^ 64)"
    by (rule Cons.IH) (use Cons.prems(2) in auto)
  then show ?case using Cons.prems(2) by (simp add: mod_add_left_eq add.assoc)
qed simp

lemma getFlatLen_ok:
  "rdr_ok x \<Longrightarrow> length (rdr_enc x) < 2 ^ 64 \<Longrightarrow>
   ccnl_rdr_getFlatLen x acc = Inr (rdr_sized x, (acc + length (rdr_enc x)) mod 2 ^ 64)"
proof (induction x arbitrary: acc)
  case (Rdr t fl flat v sub bs kids)
  let ?x = "Rdr t fl flat v sub bs kids"
  have flat: "flat = None" using Rdr.prems(1) by (simp add: rdr_ok.simps)
  consider (leaf) "is_leaf t" | (num) "t = LRPC_NONNEGINT" | (call) "is_call t" | (row) "is_row t"
    using Rdr.prems(1) by (auto simp: rdr_ok.simps split: if_splits)
  then show ?case
  proof cases
    case leaf
    then have b: "sub = None" "kids = []" "length (leaf_bytes v bs) = unat v"
      using Rdr.prems(1) length_leaf by (simp_all add: rdr_ok.simps)
    have "ccnl_lrpc_TLVlen t (unat v) = length (rdr_enc ?x)"
      using TLVlen[of t "leaf_bytes v bs"] Rdr.prems(2) leaf b(3) by (simp add: rdr_enc.simps)
    then show ?thesis using leaf b flat by (auto simp: rdr_sized.simps)
  next
    case num
    have "ccnl_lrpc_TLVlen t (int_bytes v) = length (rdr_enc ?x)"
      using TLVlen[of t "be_bytes (int_bytes v) v"] Rdr.prems(2) num by (simp add: rdr_enc.simps)
    then show ?thesis using Rdr.prems(1) num flat by (simp add: rdr_sized.simps rdr_ok.simps)
  next
    case call
    then obtain a where a: "sub = Some a" "rdr_ok a" using Rdr.prems(1) by (auto simp: rdr_ok.simps split: option.splits)
    let ?body = "rdr_enc a @ concat (map rdr_enc kids)"
    have enc: "rdr_enc ?x = rdr_tlv t ?body" using call a by (auto simp: rdr_enc.simps)
    have len: "length ?body < 2 ^ 64" using Rdr.prems(2) length_rpc_tlv[of ?body t] enc by simp
    have 1: "ccnl_rdr_getFlatLen a 0 = Inr (rdr_sized a, length (rdr_enc a))"
      using Rdr.IH(1)[of a 0] a len by simp
    have 2: "rdr_flatLens kids (length (rdr_enc a)) = Inr (map rdr_sized kids, length ?body)"
    proof -
      have "length (rdr_enc k) < 2 ^ 64" if "k \<in> set kids" for k
        using that len member_le_sum_list[of "length (rdr_enc k)" "map (length \<circ> rdr_enc) kids"]
        by (simp add: length_concat comp_def)
      then show ?thesis using flatLens_ok[of kids "length (rdr_enc a)"] Rdr.IH(2) Rdr.prems(1) call len by (auto simp: rdr_ok.simps)
    qed
    show ?thesis using call flat 1 2 a(1) TLVlen[of t ?body] Rdr.prems(2) enc by (auto simp: rdr_sized.simps)
  next
    case row
    let ?body = "concat (map rdr_enc kids)"
    have sub: "sub = None" using row Rdr.prems(1) by (auto simp: rdr_ok.simps)
    have enc: "rdr_enc ?x = rdr_tlv t ?body" using row sub by (auto simp: rdr_enc.simps)
    have len: "length ?body < 2 ^ 64" using Rdr.prems(2) length_rpc_tlv[of ?body t] enc by simp
    have 2: "rdr_flatLens kids 0 = Inr (map rdr_sized kids, length ?body)"
    proof -
      have "length (rdr_enc k) < 2 ^ 64" if "k \<in> set kids" for k
        using that len member_le_sum_list[of "length (rdr_enc k)" "map (length \<circ> rdr_enc) kids"]
        by (simp add: length_concat comp_def)
      then show ?thesis using flatLens_ok[of kids 0] Rdr.IH(2) Rdr.prems(1) row len by (auto simp: rdr_ok.simps)
    qed
    show ?thesis using row flat 2 sub TLVlen[of t ?body] Rdr.prems(2) enc by (auto simp: rdr_sized.simps)
  qed
qed

text \<open>A second call changes no node.\<close>

lemma getFlatLen_again:
  "rdr_ok x \<Longrightarrow> length (rdr_enc x) < 2 ^ 64 \<Longrightarrow>
   ccnl_rdr_getFlatLen (rdr_sized x) acc = Inr (rdr_sized x, (acc + length (rdr_enc x)) mod 2 ^ 64)"
  using getFlatLen_ok[of "rdr_sized x"] by simp

section \<open>Writing\<close>

text \<open>The memory with \<open>xs\<close> at \<open>p\<close>.\<close>

definition put :: "bytes \<Rightarrow> nat \<Rightarrow> bytes \<Rightarrow> bytes" where
  "put m p xs = take p m @ xs @ drop (p + length xs) m"

lemma wrs_put: "p + length xs \<le> length m \<Longrightarrow> wrs m p xs = Inr (put m p xs)"
  by (simp add: wrs_def put_def)

lemma length_put [simp]: "p + length xs \<le> length m \<Longrightarrow> length (put m p xs) = length m"
  by (simp add: put_def)

lemma put_Nil [simp]: "put m p [] = m"
  by (simp add: put_def)

lemma put_put: "p + length (xs @ ys) \<le> length m \<Longrightarrow> put (put m p xs) (p + length xs) ys = put m p (xs @ ys)"
  by (simp add: put_def add.assoc add.commute add.left_commute)

lemma put_upd_left: "p < length m \<Longrightarrow> xs \<noteq> [] \<Longrightarrow> put (m[p := b]) p xs = put m p xs"
  by (cases xs) (simp_all add: put_def)

lemma put_upd_right: "p + length xs < length m \<Longrightarrow> put (m[p + length xs := b]) p xs = put m p (xs @ [b])"
  by (simp add: put_def drop_update_swap Cons_nth_drop_Suc[symmetric])

lemma at_pos_put: "p + length xs \<le> length m \<Longrightarrow> at_pos (put m p xs) p xs"
  by (simp add: put_def at_pos_def)

lemma fill_int_put: "p + k \<le> length m \<Longrightarrow> fill_int k v m p = Inr (put m p (be_bytes k v))"
proof (induction k arbitrary: v m)
  case (Suc k)
  have "put (m[p + k := ucast v]) p (be_bytes k (drop_bit 8 v)) = put m p (be_bytes (Suc k) v)"
    using put_upd_right[of p "be_bytes k (drop_bit 8 v)" m "ucast v"] Suc.prems by simp
  then show ?case using Suc.IH[of "m[p + k := ucast v]" "drop_bit 8 v"] Suc.prems by (simp add: wr_def)
qed simp

lemma field_nonempty [simp]: "lrpc_field v \<noteq> []"
  by (simp add: lrpc_field_def)

lemma fillTandL_put:
  assumes "p + length (lrpc_field (of_int t) @ lrpc_field (of_nat n)) \<le> length m"
  shows "ccnl_rdr_serialize_fillTandL t n m p =
    Inr (length (lrpc_field (of_int t) @ lrpc_field (of_nat n)), put m p (lrpc_field (of_int t) @ lrpc_field (of_nat n)))"
proof -
  let ?t = "lrpc_field (of_int t)" and ?n = "lrpc_field (of_nat n)"
  have p: "p < length m" using assms by (cases ?t) (auto simp: lrpc_field_def split: if_splits)
  have 1: "ccnl_rdr_serialize_fillTorL (of_int t) (m[p := 0]) p = Inr (length ?t, put m p ?t)"
    using assms p by (simp add: ccnl_rdr_serialize_fillTorL_def wrs_put put_upd_left)
  have 2: "ccnl_rdr_serialize_fillTorL (of_nat n) (put m p ?t) (p + length ?t) = Inr (length ?n, put m p (?t @ ?n))"
    using assms put_put[of p ?t ?n m] by (simp add: ccnl_rdr_serialize_fillTorL_def wrs_put)
  show ?thesis using 1 2 p by (simp add: ccnl_rdr_serialize_fillTandL_def wr_def)
qed

lemma copy_aux_put:
  assumes "case bs of None \<Rightarrow> v = 0 | Some (s, k) \<Rightarrow> k + unat v \<le> length s" and "p + unat v \<le> length m"
  shows "copy_aux bs (unat v) m p = Inr (put m p (leaf_bytes v bs))"
proof (cases bs)
  case None
  then show ?thesis using assms by (simp add: copy_aux_def leaf_bytes_def)
next
  case (Some x)
  obtain s k where "x = (s, k)" by (cases x)
  then show ?thesis using assms Some by (simp add: copy_aux_def leaf_bytes_def slice_def wrs_put)
qed

lemma fills_put:
  assumes "\<And>x m p. x \<in> set xs \<Longrightarrow> p + length (rdr_enc x) \<le> length m \<Longrightarrow>
      ccnl_rdr_serialize_fill junk (rdr_sized x) m p = Inr (0, put m p (rdr_enc x))"
  shows "p + length (concat (map rdr_enc xs)) \<le> length m \<Longrightarrow>
    rdr_fills junk (map rdr_sized xs) m p = Inr (put m p (concat (map rdr_enc xs)))"
  using assms
proof (induction xs arbitrary: m p)
  case (Cons x xs)
  have 1: "ccnl_rdr_serialize_fill junk (rdr_sized x) m p = Inr (0, put m p (rdr_enc x))"
    using Cons.prems by simp
  have "rdr_fills junk (map rdr_sized xs) (put m p (rdr_enc x)) (p + length (rdr_enc x))
      = Inr (put (put m p (rdr_enc x)) (p + length (rdr_enc x)) (concat (map rdr_enc xs)))"
    by (rule Cons.IH) (use Cons.prems in auto)
  then show ?case using 1 put_put[of p "rdr_enc x" "concat (map rdr_enc xs)" m] Cons.prems(1) by simp
qed simp

lemma int_bytes_le: "drop_bit (8 * k) v = 0 \<Longrightarrow> 0 < k \<Longrightarrow> int_bytes v \<le> k"
proof (induction k arbitrary: v)
  case (Suc k)
  show ?case
  proof (cases "drop_bit 8 v = 0")
    case False
    have "drop_bit (8 * k) (drop_bit 8 v) = 0" using Suc.prems(1) by (simp add: add.commute)
    moreover have "k \<noteq> 0" using False calculation by (cases k) auto
    ultimately have "int_bytes (drop_bit 8 v) \<le> k" using Suc.IH[of "drop_bit 8 v"] by simp
    then show ?thesis using False by (subst int_bytes.simps) simp
  qed (simp add: int_bytes.simps)
qed simp

lemma int_bytes_8: "int_bytes v \<le> 8"
  by (rule int_bytes_le) simp_all

lemma int_bytes_take: "take_bit (8 * int_bytes v) v = v"
proof (induction v rule: int_bytes.induct)
  case (1 v)
  show ?case
  proof (cases "drop_bit 8 v = 0")
    case True
    then show ?thesis using bits_ident[of 8 v] by (subst int_bytes.simps) simp
  next
    case False
    have "bit v n \<longleftrightarrow> n < 8 + 8 * int_bytes (drop_bit 8 v) \<and> bit v n" for n
    proof (cases "n < 8")
      case False
      then have "bit v n \<longleftrightarrow> bit (take_bit (8 * int_bytes (drop_bit 8 v)) (drop_bit 8 v)) (n - 8)"
        using 1[OF \<open>drop_bit 8 v \<noteq> 0\<close>] by (simp add: bit_drop_bit_eq)
      then show ?thesis using False by (auto simp: bit_take_bit_iff)
    qed simp
    then have "take_bit (8 + 8 * int_bytes (drop_bit 8 v)) v = v"
      by (intro bit_eqI) (auto simp: bit_take_bit_iff)
    then show ?thesis using False by (subst int_bytes.simps) simp
  qed
qed

lemma kids_bound: "k \<in> set kids \<Longrightarrow> length (rdr_enc k) \<le> length (concat (map rdr_enc kids))"
  using member_le_sum_list[of "length (rdr_enc k)" "map (length \<circ> rdr_enc) kids"] by (simp add: length_concat comp_def)

lemma flatLens_again:
  assumes "\<And>k. k \<in> set kids \<Longrightarrow> rdr_ok k" and "acc + length (concat (map rdr_enc kids)) < 2 ^ 64"
  shows "rdr_flatLens (map rdr_sized kids) acc = Inr (map rdr_sized kids, acc + length (concat (map rdr_enc kids)))"
proof -
  have e: "map rdr_enc (map rdr_sized kids) = map rdr_enc kids" "map rdr_sized (map rdr_sized kids) = map rdr_sized kids" by simp_all
  have "ccnl_rdr_getFlatLen x acc = Inr (rdr_sized x, (acc + length (rdr_enc x)) mod 2 ^ 64)"
    if x: "x \<in> set (map rdr_sized kids)" for x acc
  proof -
    obtain k where k: "x = rdr_sized k" "k \<in> set kids" using x by auto
    have "length (rdr_enc k) < 2 ^ 64" using kids_bound[OF k(2)] assms(2) by simp
    from getFlatLen_again[OF assms(1)[OF k(2)] this] show ?thesis by (simp only: k(1) sized_sized enc_sized)
  qed
  from flatLens_ok[of "map rdr_sized kids" acc, OF this] show ?thesis using assms(2) unfolding e by simp
qed

lemma fill_put:
  assumes j: "\<And>y. is_call (r_type y) \<Longrightarrow> junk y = 0"
  shows "rdr_ok x \<Longrightarrow> length (rdr_enc x) < 2 ^ 64 \<Longrightarrow> p + length (rdr_enc x) \<le> length m \<Longrightarrow>
   ccnl_rdr_serialize_fill junk (rdr_sized x) m p = Inr (0, put m p (rdr_enc x))"
proof (induction x arbitrary: m p)
  case (Rdr t fl flat v sub bs kids)
  let ?x = "Rdr t fl flat v sub bs kids"
  consider (leaf) "is_leaf t" | (num) "t = LRPC_NONNEGINT" | (call) "is_call t" | (row) "is_row t"
    using Rdr.prems(1) by (auto simp: rdr_ok.simps split: if_splits)
  then show ?case
  proof cases
    case leaf
    then have b: "sub = None" "kids = []" "case bs of None \<Rightarrow> v = 0 | Some (s, k) \<Rightarrow> k + unat v \<le> length s"
      using Rdr.prems(1) by (simp_all add: rdr_ok.simps)
    note l = length_leaf[OF b(3)]
    have enc: "rdr_enc ?x = rdr_tlv t (leaf_bytes v bs)" using leaf by (auto simp: rdr_enc.simps)
    let ?h = "lrpc_field (of_int t) @ lrpc_field (of_nat (unat v))"
    have e: "rdr_enc ?x = ?h @ leaf_bytes v bs" by (simp add: enc rdr_tlv_def l)
    have len: "p + length ?h + unat v \<le> length m" using Rdr.prems(3) l unfolding e by simp
    have 1: "ccnl_rdr_serialize_fillTandL t (unat v) m p = Inr (length ?h, put m p ?h)"
      by (rule fillTandL_put) (use len in simp)
    have 2: "copy_aux bs (unat v) (put m p ?h) (p + length ?h) = Inr (put m p (?h @ leaf_bytes v bs))"
      using copy_aux_put[OF b(3), of "p + length ?h" "put m p ?h"] put_put[of p ?h "leaf_bytes v bs" m] len l by simp
    show ?thesis using leaf 1 2 unfolding rdr_sized.simps ccnl_rdr_serialize_fill.simps e by auto
  next
    case num
    let ?n = "int_bytes v" and ?h = "lrpc_field (of_int t) @ lrpc_field (of_nat (int_bytes v))"
    have e: "rdr_enc ?x = ?h @ be_bytes ?n v" using num by (simp add: rdr_enc.simps rdr_tlv_def)
    have n8: "?n \<le> 8" by (rule int_bytes_8)
    have h: "length ?h = 2" using n8 num by (simp add: lrpc_field_def word_less_nat_alt unat_of_nat)
    have fl: "wsub (length (rdr_enc ?x)) 2 = ?n" using h n8 by (simp add: e wsub_le)
    have len: "p + 2 + ?n \<le> length m" using Rdr.prems(3) h unfolding e by simp
    have 1: "ccnl_rdr_serialize_fillTandL t ?n m p = Inr (2, put m p ?h)"
      using fillTandL_put[of p t ?n m] len h by simp
    have 2: "fill_int ?n v (put m p ?h) (p + 2) = Inr (put m p (?h @ be_bytes ?n v))"
      using fill_int_put[of "p + 2" ?n "put m p ?h" v] put_put[of p ?h "be_bytes ?n v" m] len h by simp
    show ?thesis using num 1 2 fl unfolding rdr_sized.simps ccnl_rdr_serialize_fill.simps e[symmetric] by simp
  next
    case call
    then obtain a where a: "sub = Some a" "rdr_ok a" using Rdr.prems(1) by (auto simp: rdr_ok.simps split: option.splits)
    let ?body = "rdr_enc a @ concat (map rdr_enc kids)"
    let ?h = "lrpc_field (of_int t) @ lrpc_field (of_nat (length ?body))"
    have e: "rdr_enc ?x = ?h @ ?body" using call a by (auto simp: rdr_enc.simps rdr_tlv_def)
    have len: "p + length ?h + length ?body \<le> length m" using Rdr.prems(3) unfolding e by simp
    have small: "length ?body < 2 ^ 64" using Rdr.prems(2) unfolding e by simp
    have kids: "\<And>k. k \<in> set kids \<Longrightarrow> rdr_ok k \<and> length (rdr_enc k) < 2 ^ 64"
      using Rdr.prems(1) call small kids_bound[of _ kids] by (fastforce simp: rdr_ok.simps)
    have l1: "ccnl_rdr_getFlatLen (rdr_sized a) 0 = Inr (rdr_sized a, length (rdr_enc a))"
      using getFlatLen_again[OF a(2), of 0] small by simp
    have l2: "rdr_flatLens (map rdr_sized kids) (length (rdr_enc a)) = Inr (map rdr_sized kids, length ?body)"
      using flatLens_again[of kids "length (rdr_enc a)"] kids small by simp
    have 1: "ccnl_rdr_serialize_fillTandL t (length ?body) m p = Inr (length ?h, put m p ?h)"
      by (rule fillTandL_put) (use len in simp)
    have 2: "ccnl_rdr_serialize_fill junk (rdr_sized a) (put m p ?h) (p + length ?h) = Inr (0, put m p (?h @ rdr_enc a))"
      using Rdr.IH(1)[of a "p + length ?h" "put m p ?h"] a small len put_put[of p ?h "rdr_enc a" m] by simp
    have 3: "rdr_fills junk (map rdr_sized kids) (put m p (?h @ rdr_enc a)) (p + length ?h + length (rdr_enc a))
        = Inr (put m p (?h @ ?body))"
      using fills_put[of kids junk "p + length ?h + length (rdr_enc a)" "put m p (?h @ rdr_enc a)"] Rdr.IH(2) kids len
        put_put[of p "?h @ rdr_enc a" "concat (map rdr_enc kids)" m] by (simp add: add.assoc)
    show ?thesis using call a l1 l2 1 2 3 j[of "rdr_sized ?x"] unfolding rdr_sized.simps ccnl_rdr_serialize_fill.simps e by auto
  next
    case row
    let ?body = "concat (map rdr_enc kids)"
    let ?h = "lrpc_field (of_int t) @ lrpc_field (of_nat (length ?body))"
    have sub: "sub = None" using row Rdr.prems(1) by (auto simp: rdr_ok.simps)
    have e: "rdr_enc ?x = ?h @ ?body" using row sub by (auto simp: rdr_enc.simps rdr_tlv_def)
    have len: "p + length ?h + length ?body \<le> length m" using Rdr.prems(3) unfolding e by simp
    have small: "length ?body < 2 ^ 64" using Rdr.prems(2) unfolding e by simp
    have kids: "\<And>k. k \<in> set kids \<Longrightarrow> rdr_ok k \<and> length (rdr_enc k) < 2 ^ 64"
      using Rdr.prems(1) row small kids_bound[of _ kids] by (fastforce simp: rdr_ok.simps)
    have l2: "rdr_flatLens (map rdr_sized kids) 0 = Inr (map rdr_sized kids, length ?body)"
      using flatLens_again[of kids 0] kids small by simp
    have 1: "ccnl_rdr_serialize_fillTandL t (length ?body) m p = Inr (length ?h, put m p ?h)"
      by (rule fillTandL_put) (use len in simp)
    have 3: "rdr_fills junk (map rdr_sized kids) (put m p ?h) (p + length ?h) = Inr (put m p (?h @ ?body))"
      using fills_put[of kids junk "p + length ?h" "put m p ?h"] Rdr.IH(2) kids len
        put_put[of p ?h ?body m] by (simp add: add.assoc)
    show ?thesis using row sub l2 1 3 unfolding rdr_sized.simps ccnl_rdr_serialize_fill.simps e by auto
  qed
qed

lemma serialize_put:
  assumes "\<And>y. is_call (r_type y) \<Longrightarrow> junk y = 0" and "rdr_ok x" and "length (rdr_enc x) < 2 ^ 64"
    and "p + length (rdr_enc x) \<le> length m"
  shows "ccnl_rdr_serialize junk x m p buflen = (let len = (junk x + length (rdr_enc x)) mod 2 ^ 64
    in if len > buflen then Inl Fail else Inr (len, put m p (rdr_enc x)))"
  using assms fill_put[of junk, OF assms(1)] by (simp add: ccnl_rdr_serialize_def getFlatLen_ok Let_def)

section \<open>Reading\<close>

text \<open>What a tree means, wherever its bytes lie.\<close>

datatype rval = Num u64 | Raw int bytes | Call int rval "rval list" | Row int "rval list"

fun rdr_abs :: "rdr \<Rightarrow> rval" where
  "rdr_abs (Rdr t fl flat v sub bs kids) =
    (if t = LRPC_NONNEGINT then Num v
     else if is_leaf t then Raw t (leaf_bytes v bs)
     else case sub of None \<Rightarrow> Row t (map rdr_abs kids) | Some a \<Rightarrow> Call t (rdr_abs a) (map rdr_abs kids))"

declare rdr_abs.simps [simp del]

lemma varlenint_field:
  assumes "at_pos m p (lrpc_field v)" and "v \<le> 0xffffffff" and "length (lrpc_field v) \<le> n"
  shows "ccnl_lrpc_varlenint m (p, n) = Inr (Some v, (p + length (lrpc_field v), n - length (lrpc_field v)))"
proof -
  consider (one) "v < 253" | (two) "\<not> v < 253" "v \<le> 0xffff" | (four) "\<not> v < 253" "\<not> v \<le> 0xffff" by blast
  then show ?thesis
  proof cases
    case one
    have k: "take_bit 8 v = v" using one by (intro take_bit_u64_id) (simp add: word_less_nat_alt)
    have "unat (ucast v :: byte) = take_bit 8 (unat v)" by (simp add: unsigned_ucast_eq)
    also have "\<dots> = unat v" using one by (simp add: take_bit_nat_eq_self_iff word_less_nat_alt)
    finally have "unat (ucast v :: byte) = unat v" .
    then have "(ucast v :: byte) < 253" "ucast (ucast v :: byte) = v"
      using one by (simp_all add: word_less_nat_alt ucast_byte_u64 k)
    moreover have "rd m p = Inr (ucast v)" using assms(1) one by (simp add: lrpc_field_def at_pos_Cons)
    ultimately show ?thesis using one assms(3)
      by (simp add: ccnl_lrpc_varlenint_def ccnl_ndntlv_varlenint_def lrpc_field_def)
  next
    case two
    have "take_bit 16 v = v" using two by (intro take_bit_u64_id) (simp add: word_less_nat_alt word_le_nat_alt)
    moreover have "rd m p = Inr 253" "slice m (Suc p) 2 = Inr (be_bytes 2 v)"
      using assms(1) two by (simp_all add: lrpc_field_def at_pos_Cons at_pos_slice)
    ultimately show ?thesis using two assms(3)
      by (simp add: ccnl_lrpc_varlenint_def ccnl_ndntlv_varlenint_def lrpc_field_def)
  next
    case four
    have "take_bit 32 v = v" using assms(2) by (intro take_bit_u64_id) (simp add: word_less_nat_alt word_le_nat_alt)
    moreover have "rd m p = Inr 254" "slice m (Suc p) 4 = Inr (be_bytes 4 v)"
      using assms(1,2) four by (simp_all add: lrpc_field_def at_pos_Cons at_pos_slice)
    ultimately show ?thesis using four assms(2,3)
      by (simp add: ccnl_lrpc_varlenint_def ccnl_ndntlv_varlenint_def lrpc_field_def)
  qed
qed

lemma dehead_tlv:
  assumes at: "at_pos m p (rdr_tlv t body)" and t: "0 \<le> t" "t < 253" and l: "length body < 2 ^ 32" and n: "length (rdr_tlv t body) \<le> n"
  shows "\<exists>h. length (rdr_tlv t body) = h + length body \<and> at_pos m (p + h) body
    \<and> ccnl_lrpc_dehead m (p, n) = Inr (Some (of_int t, length body), (p + h, n - h))"
proof -
  let ?t = "lrpc_field (of_int t)" and ?n = "lrpc_field (of_nat (length body))"
  have t': "(of_int t :: u64) < 253" using t by (simp add: word_less_def uint_word_of_int)
  have lt: "length ?t = 1" using t' by (simp add: lrpc_field_def)
  have le: "(of_nat (length body) :: u64) \<le> 0xffffffff" "unat (of_nat (length body) :: u64) = length body"
    using l by (simp_all add: word_le_nat_alt unat_of_nat)
  have 1: "ccnl_lrpc_varlenint m (p, n) = Inr (Some (of_int t), (p + 1, n - 1))"
    using varlenint_field[of m p "of_int t" n] at t' lt n by (simp add: rdr_tlv_def word_less_nat_alt word_le_nat_alt)
  have 2: "ccnl_lrpc_varlenint m (p + 1, n - 1) = Inr (Some (of_nat (length body)), (p + 1 + length ?n, n - 1 - length ?n))"
    by (rule varlenint_field) (use at lt le n in \<open>simp_all add: rdr_tlv_def\<close>)
  show ?thesis
    using at lt 1 2 le(2) by (intro exI[of _ "1 + length ?n"]) (simp add: rdr_tlv_def ccnl_lrpc_dehead_def add.assoc)
qed

lemma getRest_kids:
  assumes "\<And>x p n. x \<in> set xs \<Longrightarrow> at_pos m p (rdr_enc x) \<Longrightarrow> length (rdr_enc x) \<le> n \<Longrightarrow>
      \<exists>d. ccnl_rdr_getType m p n = Inr (Inr d) \<and> rdr_abs d = rdr_abs x \<and> r_flatlen d = length (rdr_enc x)"
  shows "at_pos m p (concat (map rdr_enc xs)) \<Longrightarrow> n = length (concat (map rdr_enc xs)) \<Longrightarrow>
    \<exists>ds. rdr_getRest m p n = Inr (Some ds) \<and> map rdr_abs ds = map rdr_abs xs \<and> sum_list (map r_flatlen ds) = n"
  using assms
proof (induction xs arbitrary: p n)
  case (Cons x xs)
  have pos: "0 < length (rdr_enc x)" by (cases x) (simp add: rdr_enc.simps rdr_tlv_def)
  obtain d where d: "ccnl_rdr_getType m p n = Inr (Inr d)" "rdr_abs d = rdr_abs x" "r_flatlen d = length (rdr_enc x)"
    using Cons.prems(3)[of x p n] Cons.prems(1,2) by auto
  obtain ds where "rdr_getRest m (p + length (rdr_enc x)) (n - length (rdr_enc x)) = Inr (Some ds)"
    "map rdr_abs ds = map rdr_abs xs" "sum_list (map r_flatlen ds) = n - length (rdr_enc x)"
    using Cons.IH[of "p + length (rdr_enc x)" "n - length (rdr_enc x)"] Cons.prems by auto
  then show ?case using d pos Cons.prems(2) by (subst rdr_getRest.simps) auto
qed (simp add: rdr_getRest.simps)

lemma getType_enc:
  "rdr_ok x \<Longrightarrow> length (rdr_enc x) < 2 ^ 32 \<Longrightarrow> at_pos m p (rdr_enc x) \<Longrightarrow> length (rdr_enc x) \<le> n \<Longrightarrow>
   \<exists>d. ccnl_rdr_getType m p n = Inr (Inr d) \<and> rdr_abs d = rdr_abs x \<and> r_flatlen d = length (rdr_enc x)"
proof (induction x arbitrary: p n)
  case (Rdr t fl flat v sub bs kids)
  let ?x = "Rdr t fl flat v sub bs kids"
  define body where "body = (if is_leaf t then leaf_bytes v bs else if t = LRPC_NONNEGINT then be_bytes (int_bytes v) v
      else (case sub of None \<Rightarrow> [] | Some a \<Rightarrow> rdr_enc a) @ concat (map rdr_enc kids))"
  have enc: "rdr_enc ?x = rdr_tlv t body" by (simp add: rdr_enc.simps body_def)
  have ty: "is_leaf t \<or> t = LRPC_NONNEGINT \<or> is_call t \<or> is_row t"
    using Rdr.prems(1) by (auto simp: rdr_ok.simps split: if_splits)
  then have t: "0 \<le> t" "t < 253" by auto
  have u: "uint (of_int t :: u64) = t" using t by (simp add: uint_word_of_int)
  have u': "\<not> (of_int t :: u64) > 0x7fffffff" using t by (simp add: word_less_def uint_word_of_int)
  have bl: "length body < 2 ^ 32" using Rdr.prems(2) length_rpc_tlv[of body t] enc by simp
  obtain h where h: "length (rdr_tlv t body) = h + length body" "at_pos m (p + h) body"
    "ccnl_lrpc_dehead m (p, n) = Inr (Some (of_int t, length body), (p + h, n - h))"
    using dehead_tlv[of m p t body n] Rdr.prems(3,4) t bl enc by auto
  have n: "n \<noteq> 0" "\<not> length body > n - h" using h(1) Rdr.prems(4) enc length_rpc_tlv[of body t] by auto
  have kids: "\<And>k. k \<in> set kids \<Longrightarrow> rdr_ok k" "\<And>k. k \<in> set kids \<Longrightarrow> length (rdr_enc k) < 2 ^ 32"
    if "is_call t \<or> is_row t"
    using that Rdr.prems(1) bl kids_bound[of _ kids] by (fastforce simp: rdr_ok.simps body_def)+
  note eq = ccnl_rdr_getType.simps[of m p n]
  from ty consider (leaf) "is_leaf t" | (num) "t = LRPC_NONNEGINT" | (call) "is_call t" | (row) "is_row t" by blast
  then show ?case
  proof cases
    case leaf
    then have b: "sub = None" "kids = []" "length (leaf_bytes v bs) = unat v"
      using Rdr.prems(1) length_leaf by (simp_all add: rdr_ok.simps)
    have "leaf_bytes (of_nat (length body)) (Some (m, p + h)) = body"
      using h(2) leaf bl by (simp add: leaf_bytes_def at_pos_def unat_of_nat)
    then show ?thesis using h n u u' leaf b enc
      by (subst eq) (auto simp: rdr_leaf_def rdr_abs.simps body_def)
  next
    case num
    have "ccnl_lrpc_nonNegInt m (p + h) (length body) = Inr v"
    proof -
      have "nonNegInt_loop m q (length xs) w = Inr (foldl be_step w xs)" if "at_pos m q xs" for q w xs
        using that by (induction xs arbitrary: q w) (auto simp: at_pos_Cons)
      from this[OF h(2)] have "ccnl_lrpc_nonNegInt m (p + h) (length body) = Inr (be_val body)"
        by (simp add: ccnl_lrpc_nonNegInt_def ccnl_ndntlv_nonNegInt_def be_val_def)
      then show ?thesis using num by (simp add: body_def int_bytes_take)
    qed
    then show ?thesis using h n u u' num Rdr.prems(1) enc
      by (subst eq) (auto simp: rdr_abs.simps)
  next
    case call
    then obtain a where a: "sub = Some a" "rdr_ok a" using Rdr.prems(1) by (auto simp: rdr_ok.simps split: option.splits)
    have b: "body = rdr_enc a @ concat (map rdr_enc kids)" using call a by (auto simp: body_def)
    obtain d where d: "ccnl_rdr_getType m (p + h) (length body) = Inr (Inr d)" "rdr_abs d = rdr_abs a" "r_flatlen d = length (rdr_enc a)"
      using Rdr.IH(1)[of a "p + h" "length body"] a h(2) bl b by auto
    obtain ds where ds: "rdr_getRest m (p + h + length (rdr_enc a)) (length body - length (rdr_enc a)) = Inr (Some ds)"
      "map rdr_abs ds = map rdr_abs kids" "sum_list (map r_flatlen ds) = length body - length (rdr_enc a)"
      using getRest_kids[of kids m "p + h + length (rdr_enc a)" "length body - length (rdr_enc a)"] Rdr.IH(2) kids h(2) call
      by (auto simp: b)
    show ?thesis using h n u u' call a d ds enc b by (subst eq) (auto simp: rdr_abs.simps)
  next
    case row
    have sub: "sub = None" using row Rdr.prems(1) by (auto simp: rdr_ok.simps)
    have b: "body = concat (map rdr_enc kids)" using row sub by (auto simp: body_def)
    obtain ds where ds: "rdr_getRest m (p + h) (length body) = Inr (Some ds)"
      "map rdr_abs ds = map rdr_abs kids" "sum_list (map r_flatlen ds) = length body"
      using getRest_kids[of kids m "p + h" "length body"] Rdr.IH(2) kids h(2) row by (auto simp: b)
    show ?thesis using h n u u' row sub ds enc by (subst eq) (auto simp: rdr_abs.simps)
  qed
qed

section \<open>Properties\<close>



text \<open>
  The uninitialised \<open>len\<close> decides what becomes of a sequence, a request or a reply: its value is
  added to the length that is returned, and when the sum exceeds the buffer the encoder reports an
  error although the bytes would fit.
\<close>

theorem serialize_adds_junk:
  assumes "rdr_ok x" and "is_row (r_type x)" and "\<forall>y. is_call (r_type y) \<longrightarrow> junk y = 0"
    and "p + length (rdr_enc x) \<le> length m" and "length (rdr_enc x) \<le> buflen" and "junk x + buflen < 2 ^ 64"
  shows "ccnl_rdr_serialize junk x m p buflen = (if junk x + length (rdr_enc x) > buflen then Inl Fail
    else Inr (junk x + length (rdr_enc x), take p m @ rdr_enc x @ drop (p + length (rdr_enc x)) m))"
  using serialize_put[of junk x p m buflen] assms by (simp add: put_def)

theorem serialize_adds_junk_witness:
  "ccnl_rdr_serialize (\<lambda>y. if r_type y = LRPC_SEQUENCE then 3 else 0) ccnl_rdr_mkSeq [9, 9, 9, 9, 9] 0 5 = Inr (5, [4, 0, 9, 9, 9])"
proof -
  have ok: "rdr_ok ccnl_rdr_mkSeq" by code_simp
  have enc: "rdr_enc ccnl_rdr_mkSeq = [4, 0]" by code_simp
  have t: "r_type ccnl_rdr_mkSeq = LRPC_SEQUENCE" by (simp add: ccnl_rdr_mkSeq_def)
  show ?thesis
    using serialize_adds_junk[OF ok, of "\<lambda>y. if r_type y = LRPC_SEQUENCE then 3 else 0" 0 "[9, 9, 9, 9, 9]" 5]
    by (simp add: enc t)
qed

end
