(* ===== verification/Rpc_Inv.thy ===== *)
theory Rpc_Inv
  imports Ccnb_Inv Relay_System Rpc_Round
begin

text \<open>
  Local RPC on a well-formed relay: decoding and encoding end with a result, a reported error or a
  memory fault of their own; a request keeps the relay well-formed; a reply carries what it was
  given.
\<close>

section \<open>Faults\<close>

lemma wr_err: "wr m p b = Inl e \<Longrightarrow> e = Oob"
  by (auto simp: wr_def split: if_splits)

lemma wrs_err: "wrs m p xs = Inl e \<Longrightarrow> e = Oob"
  by (auto simp: wrs_def split: if_splits)

lemma slice_err: "slice m p n = Inl e \<Longrightarrow> e = Oob"
  by (auto simp: slice_def split: if_splits)

lemma rd_err: "rd m p = Inl e \<Longrightarrow> e = Oob"
  by (auto simp: rd_def split: if_splits)

lemma varlenint_Oob: "ccnl_ndntlv_varlenint m cur = Inl e \<Longrightarrow> e = Oob"
  by (auto simp: ccnl_ndntlv_varlenint_def bindE_eq_Inl_iff dest: rd_err slice_err split: if_splits prod.splits)

lemma lrpc_dehead_Oob: "ccnl_lrpc_dehead m cur = Inl e \<Longrightarrow> e = Oob"
  by (auto simp: ccnl_lrpc_dehead_def ccnl_lrpc_varlenint_def bindE_eq_Inl_iff dest: varlenint_Oob
      split: if_splits prod.splits option.splits)

lemma nonNegInt_Oob: "ccnl_lrpc_nonNegInt m p n = Inl e \<Longrightarrow> e = Oob"
proof -
  have "nonNegInt_loop m p n v = Inl e \<Longrightarrow> e = Oob" for v
    by (induction n arbitrary: p v) (auto simp: bindE_eq_Inl_iff dest: rd_err)
  then show "ccnl_lrpc_nonNegInt m p n = Inl e \<Longrightarrow> e = Oob"
    by (simp add: ccnl_lrpc_nonNegInt_def ccnl_ndntlv_nonNegInt_def)
qed

text \<open>The encoder reads bytes through \<open>aux\<close> and writes bytes.\<close>

definition mem_fault :: "'a res \<Rightarrow> bool" where
  "mem_fault x \<longleftrightarrow> (\<forall>e. x = Inl e \<longrightarrow> e = Oob \<or> e = Null)"

lemma mem_fault_Inr [simp]: "mem_fault (Inr x)"
  by (simp add: mem_fault_def)

lemma mem_fault_bind: "mem_fault x \<Longrightarrow> (\<And>y. x = Inr y \<Longrightarrow> mem_fault (k y)) \<Longrightarrow> mem_fault (bindE x k)"
  by (cases x) (auto simp: mem_fault_def)

lemma mem_fault_if: "(b \<Longrightarrow> mem_fault x) \<Longrightarrow> (\<not> b \<Longrightarrow> mem_fault y) \<Longrightarrow> mem_fault (if b then x else y)"
  by simp

lemma mem_fault_prim [simp]: "mem_fault (wr m p b)" "mem_fault (wrs m p xs)" "mem_fault (slice m p n)" "mem_fault (Inl Oob)" "mem_fault (Inl Null)"
  by (auto simp: mem_fault_def dest: wr_err wrs_err slice_err)

lemmas mem_faults = mem_fault_bind mem_fault_if

lemma mem_fault_case: "mem_fault x \<Longrightarrow> (\<And>y. x = Inr y \<Longrightarrow> mem_fault (k y)) \<Longrightarrow> mem_fault (case_sum Inl k x)"
  by (cases x) (auto simp: mem_fault_def)

lemma lrpc_dehead_fault [simp]: "mem_fault (ccnl_lrpc_dehead m cur)"
  by (auto simp: mem_fault_def dest: lrpc_dehead_Oob)

lemma nonNegInt_fault [simp]: "mem_fault (ccnl_lrpc_nonNegInt m p n)"
  by (auto simp: mem_fault_def dest: nonNegInt_Oob)

lemma getType_fault: "mem_fault (ccnl_rdr_getType m p n)" and getRest_fault: "mem_fault (rdr_getRest m p n)"
proof -
  have "mem_fault (ccnl_rdr_getType m p n) \<and> mem_fault (rdr_getRest m p n)"
  proof (induction n arbitrary: p rule: less_induct)
    case (less n)
    have sub: "mem_fault (ccnl_rdr_getType m q v)" "mem_fault (rdr_getRest m q2 (v - i))"
      if "n \<noteq> 0" "ccnl_lrpc_dehead m (p, n) = Inr (Some (t, v), (q, k))" "\<not> v > k" for t v q k q2 i
    proof -
      have "v < n" using lrpc_dehead_progress[OF that(2)] that by linarith
      then show "mem_fault (ccnl_rdr_getType m q v)" "mem_fault (rdr_getRest m q2 (v - i))" using less.IH by auto
    qed
    have t: "mem_fault (ccnl_rdr_getType m p n)"
    proof (cases "n = 0")
      case True
      then show ?thesis by (simp add: ccnl_rdr_getType.simps)
    next
      case n: False
      show ?thesis
      proof (cases "ccnl_lrpc_dehead m (p, n)")
        case (Inl e)
        then show ?thesis using n lrpc_dehead_fault[of m "(p, n)"] by (simp add: ccnl_rdr_getType.simps mem_fault_def)
      next
        case (Inr y)
        show ?thesis
        proof (cases "\<exists>t v q k. y = (Some (t, v), (q, k)) \<and> \<not> v > k")
          case True
          then obtain t v q k where y: "y = (Some (t, v), (q, k))" "\<not> v > k" by blast
          note s = sub[OF n Inr[unfolded y(1)] y(2)]
          have s3: "mem_fault (rdr_getRest m q v)" using s(2)[of q 0] by simp
          have rest: "rdr_getRest m q2 (v - i) = Inl e \<Longrightarrow> mem_fault (Inl e)" for q2 i e
            using s(2)[of q2 i] by (simp add: mem_fault_def)
          show ?thesis
            unfolding ccnl_rdr_getType.simps[of m p n] Inr y Let_def sum.case prod.case option.case
            by (intro mem_fault_if mem_fault_bind mem_fault_case s(1) s3 mem_fault_Inr nonNegInt_fault)
              (auto intro: rest split: sum.split option.split)
        next
          case False
          obtain h q k where h: "y = (h, (q, k))" by (cases y) auto
          then show ?thesis using False n Inr by (cases h) (auto simp: ccnl_rdr_getType.simps[of m p n])
        qed
      qed
    qed
    moreover have "mem_fault (rdr_getRest m p n)"
      unfolding rdr_getRest.simps[of m p n]
    proof (intro mem_fault_if mem_fault_case t)
      fix y assume n: "n \<noteq> 0" and y: "ccnl_rdr_getType m p n = Inr y"
      show "mem_fault (case y of Inl rc \<Rightarrow> Inr None
          | Inr a \<Rightarrow> (case rdr_getRest m (p + r_flatlen a) (n - r_flatlen a) of Inl e \<Rightarrow> Inl e
              | Inr None \<Rightarrow> Inr None | Inr (Some as) \<Rightarrow> Inr (Some (a # as))))"
      proof (cases y)
        case (Inr a)
        have "2 \<le> r_flatlen a" using getType_grows[OF spec[OF getType_total]] y Inr by simp
        then have "mem_fault (rdr_getRest m (p + r_flatlen a) (n - r_flatlen a))" using less.IH n by simp
        then show ?thesis unfolding Inr sum.case by (rule mem_fault_case) (simp split: option.split)
      qed simp
    qed simp
    ultimately show ?case ..
  qed
  then show "mem_fault (ccnl_rdr_getType m p n)" "mem_fault (rdr_getRest m p n)" by simp_all
qed

lemma fill_int_fault [simp]: "mem_fault (fill_int k v m p)"
  by (induction k arbitrary: v m) (auto intro: mem_faults)

lemma fillTandL_fault [simp]: "mem_fault (ccnl_rdr_serialize_fillTandL t n m p)"
  unfolding ccnl_rdr_serialize_fillTandL_def ccnl_rdr_serialize_fillTorL_def
  by (auto intro!: mem_faults split: prod.split)

lemma copy_aux_fault [simp]: "mem_fault (copy_aux a n m p)"
  unfolding copy_aux_def by (auto intro!: mem_faults split: option.split)

lemma fill_fault: "mem_fault (ccnl_rdr_serialize_fill junk x m p)" and fills_fault: "mem_fault (rdr_fills junk xs m p)"
proof (induction junk x m p and junk xs m p rule: ccnl_rdr_serialize_fill_rdr_fills.induct)
  case (1 junk t fl flat v sub bs kids m p)
  then show ?case
    by (auto intro!: mem_faults split: option.split sum.split prod.split)
qed (auto intro!: mem_faults split: prod.split)

lemma serialize_fault: "ccnl_rdr_serialize junk x m p n = Inl e \<Longrightarrow> e = Fail \<or> e = Oob \<or> e = Null"
proof -
  have "ccnl_rdr_getFlatLen x acc = Inl e \<Longrightarrow> e = Fail" and "rdr_flatLens xs acc = Inl e \<Longrightarrow> e = Fail" for acc xs
  proof (induction x acc and xs acc rule: ccnl_rdr_getFlatLen_rdr_flatLens.induct)
    case (1 t fl flat v sub bs kids acc)
    then show ?case by (auto simp: bindE_eq_Inl_iff split: if_splits option.splits)
  qed (auto simp: bindE_eq_Inl_iff)
  then show "ccnl_rdr_serialize junk x m p n = Inl e \<Longrightarrow> e = Fail \<or> e = Oob \<or> e = Null"
    using fill_fault[of junk _ m p, unfolded mem_fault_def, rule_format]
    unfolding ccnl_rdr_serialize_def bindE_eq_Inl_iff
    by (fastforce simp: bindE_eq_Inl_iff split: if_splits)
qed

section \<open>Replies\<close>

lemma emit_handled:
  assumes live: "live strict f r" and E: "{Oob, Null} \<subseteq> E"
  shows "handled E strict f (ccnl_emit_RpcReturn env r (Some f) nonce rc reason content)"
proof -
  have quiet: "handled E strict f (Inr (-1, r))" using live by simp
  have send: "handled E strict f (bindE (ccnl_face_enqueue f (Some b) r) (\<lambda>(rc, r1). Inr (0, r1)))" for b
    using enqueue_any[OF liveD[OF live], of b] keeps_live[OF keeps_out[OF liveD(1)[OF live]] live] E by auto
  have writing: "handled E strict f (bindE (wr d k x) (\<lambda>d2. bindE (ccnl_face_enqueue f (Some (take l d2)) r) (\<lambda>(rc, r1). Inr (0, r1))))" for d k x l
    by (rule handled_bind) (use wr_err send E in auto)
  have ser: "handled E strict f (case ccnl_rdr_serialize j y d0 k l of Inl Fail \<Rightarrow> Inr (-1, r) | Inl e \<Rightarrow> Inl e
      | Inr (n, d1) \<Rightarrow> bindE (wr d1 k2 x) (\<lambda>d2. bindE (ccnl_face_enqueue f (Some (take (k2 + n) d2)) r) (\<lambda>(rc, r1). Inr (0, r1))))"
    for j y d0 k l k2 x
  proof (cases "ccnl_rdr_serialize j y d0 k l")
    case (Inl e)
    then show ?thesis using serialize_fault[OF Inl] quiet E by auto
  next
    case (Inr z)
    then show ?thesis using writing by (cases z) simp
  qed
  have all: "handled E strict f (bindE (wrs d 0 sw) (\<lambda>d0. case ccnl_rdr_serialize j y d0 k l of Inl Fail \<Rightarrow> Inr (-1, r) | Inl e \<Rightarrow> Inl e
      | Inr (n, d1) \<Rightarrow> bindE (wr d1 k2 x) (\<lambda>d2. bindE (ccnl_face_enqueue f (Some (take (k2 + n) d2)) r) (\<lambda>(rc, r1). Inr (0, r1)))))"
    for d sw j y k l k2 x
    by (rule handled_bind) (use wrs_err ser E in auto)
  show ?thesis
    unfolding ccnl_emit_RpcReturn_def Let_def option.case
    by (split sum.split, intro conjI allI impI, rule quiet, split sum.split, intro conjI allI impI, rule quiet,
        split prod.split, intro allI impI, rule all)
qed

lemma answer_handled:
  "live strict f r \<Longrightarrow> {Oob, Null} \<subseteq> E \<Longrightarrow> handled E strict f (rpc_answer env r (Some f) nonce rc reason content)"
  unfolding rpc_answer_def using handled_zero[OF emit_handled] by (simp add: case_prod_unfold)

section \<open>Builtin functions\<close>

lemma leaf_copy_fault: "leaf_copy x = Inl e \<Longrightarrow> e = Oob \<or> e = Null"
  by (auto simp: leaf_copy_def dest: slice_err split: if_splits option.splits)

lemma local_from_ok: "relay_wf r \<Longrightarrow> f \<in> face_ids r \<Longrightarrow> \<exists>b. local_from r (Some f) = Inr b"
  using face_ids_get[of f r] by (auto simp: local_from_def relay_wf_def)

text \<open>Removing the contents of a name: those of the list that have it go, all others stay.\<close>

lemma cache_remove_name_exact:
  assumes "relay_wf r" and "set cs \<subseteq> set (rl_contents r)" and "distinct (map c_ref cs)"
  shows "\<exists>r'. cache_remove_name p cs cnt r = Inr (cnt + length (filter (\<lambda>c. pkt_name (c_pkt c) = (pfx_comp p, pfx_chunknum p)) cs), r')
    \<and> relay_wf r' \<and> face_ids r' = face_ids r \<and> rl_faces r' = rl_faces r
    \<and> rl_contents r' = filter (\<lambda>c. \<not> (c \<in> set cs \<and> pkt_name (c_pkt c) = (pfx_comp p, pfx_chunknum p))) (rl_contents r)"
  using assms
proof (induction cs arbitrary: cnt r)
  case Nil
  then show ?case by simp
next
  case (Cons c cs)
  have wfc: "pkt_wf (c_pkt c)" and dist: "distinct (map c_ref (rl_contents r))"
    using Cons.prems by (auto simp: relay_wf_def cs_wf_def)
  obtain q where q: "pkt_pfx (c_pkt c) = Some q" using wfc by (auto simp: pkt_wf_def)
  have cmp: "ccnl_prefix_cmp q None p CMP_EXACT = 0 \<longleftrightarrow> pkt_name (c_pkt c) = (pfx_comp p, pfx_chunknum p)"
    using q by (auto simp: pkt_name_def prefix_cmp_exact md_comp_def)
  have uniq: "x \<in> set (rl_contents r) \<Longrightarrow> c_ref x = c_ref c \<Longrightarrow> x = c" for x
    using dist Cons.prems(2) by (auto simp: distinct_map dest: inj_onD)
  show ?case
  proof (cases "ccnl_prefix_cmp q None p CMP_EXACT = 0")
    case True
    obtain r1 where r1: "ccnl_content_remove (c_ref c) r = Inr r1" "relay_wf r1"
      "rl_contents r1 = filter (\<lambda>x. c_ref x \<noteq> c_ref c) (rl_contents r)"
      using rcs.rem_member[OF Cons.prems(1), of c] Cons.prems(2) by auto
    have f: "rl_faces r1 = rl_faces r" using r1(1) by (auto simp: ccnl_content_remove_def bindE_eq_Inr_iff)
    have "set cs \<subseteq> set (rl_contents r1)" using Cons.prems(2,3) by (auto simp: r1(3) rev_image_eqI)
    from Cons.IH[OF r1(2) this, of "cnt + 1"] Cons.prems(3) obtain r' where r':
      "cache_remove_name p cs (cnt + 1) r1 = Inr (cnt + 1 + length (filter (\<lambda>c. pkt_name (c_pkt c) = (pfx_comp p, pfx_chunknum p)) cs), r')"
      "relay_wf r'" "face_ids r' = face_ids r1" "rl_faces r' = rl_faces r1"
      "rl_contents r' = filter (\<lambda>c. \<not> (c \<in> set cs \<and> pkt_name (c_pkt c) = (pfx_comp p, pfx_chunknum p))) (rl_contents r1)"
      by auto
    have "rl_contents r' = filter (\<lambda>x. \<not> (x \<in> set (c # cs) \<and> pkt_name (c_pkt x) = (pfx_comp p, pfx_chunknum p))) (rl_contents r)"
      unfolding r'(5) r1(3) filter_filter
      by (rule filter_cong[OF refl]) (use uniq True cmp in auto)
    then show ?thesis using True q r1 r' f cmp by (simp add: face_ids_def)
  next
    case False
    obtain r' where r': "cache_remove_name p cs cnt r = Inr (cnt + length (filter (\<lambda>c. pkt_name (c_pkt c) = (pfx_comp p, pfx_chunknum p)) cs), r')"
      "relay_wf r'" "face_ids r' = face_ids r" "rl_faces r' = rl_faces r"
      "rl_contents r' = filter (\<lambda>c. \<not> (c \<in> set cs \<and> pkt_name (c_pkt c) = (pfx_comp p, pfx_chunknum p))) (rl_contents r)"
      using Cons.IH[OF Cons.prems(1), of cnt] Cons.prems(2,3) by auto
    have "rl_contents r' = filter (\<lambda>x. \<not> (x \<in> set (c # cs) \<and> pkt_name (c_pkt x) = (pfx_comp p, pfx_chunknum p))) (rl_contents r)"
      unfolding r'(5) by (rule filter_cong[OF refl]) (use False cmp in auto)
    then show ?thesis using False q r' cmp by simp
  qed
qed

lemma cache_remove_loop_keeps:
  "relay_wf r \<Longrightarrow> (case cache_remove_loop ps cnt r of Inl e \<Rightarrow> e = Oob \<or> e = Null
     | Inr (res, r') \<Rightarrow> relay_wf r' \<and> rl_faces r' = rl_faces r)"
proof (induction ps arbitrary: cnt r)
  case (Cons x xs)
  show ?case
  proof (cases "r_type x \<noteq> LRPC_FLATNAME")
    case False
    show ?thesis
    proof (cases "leaf_copy x")
      case (Inl e)
      then show ?thesis using False leaf_copy_fault by auto
    next
      case (Inr b)
      have "distinct (map c_ref (rl_contents r))" using Cons.prems by (simp add: relay_wf_def cs_wf_def)
      from cache_remove_name_exact[OF Cons.prems subset_refl this, of "ccnl_URItoPrefix (c_str b) CCNL_SUITE_NDNTLV None" cnt]
      obtain cnt1 r1 where r1: "cache_remove_name (ccnl_URItoPrefix (c_str b) CCNL_SUITE_NDNTLV None) (rl_contents r) cnt r = Inr (cnt1, r1)"
        "relay_wf r1" "rl_faces r1 = rl_faces r" by auto
      then show ?thesis using False Inr Cons.IH[OF r1(2), of cnt1, unfolded r1(3)] by simp
    qed
  qed (simp add: Cons.prems)
qed simp

context application
begin

lemma rpc_forward_handled:
  assumes "dispatch_upto faults strict h rx"
  shows "live strict f r \<Longrightarrow> handled faults strict f (forward_params env h rx (Some f) nonce ps r)"
proof (induction ps arbitrary: r)
  case Nil
  then show ?case by simp
next
  case (Cons x xs)
  show ?case
  proof (cases "r_type x \<noteq> LRPC_BIN")
    case True
    then show ?thesis using answer_handled[OF Cons.prems, of faults] by simp
  next
    case False
    show ?thesis
    proof (cases "r_bytes x")
      case None
      then show ?thesis using False by simp
    next
      case (Some y)
      obtain m p where y: "y = (m, p)" by (cases y)
      have run: "case rx h r (Some f) m (p, unat (r_num x)) of Inl e \<Rightarrow> e \<in> faults
          | Inr (r1, go) \<Rightarrow> live strict f r1 \<and> (case go of None \<Rightarrow> True | Some (m1, cur1) \<Rightarrow> snd cur1 = 0 \<or> budget m1 cur1 < budget m (p, unat (r_num x)))"
        using assms Cons.prems unfolding dispatch_upto_def by blast
      show ?thesis
      proof (cases "rx h r (Some f) m (p, unat (r_num x))")
        case (Inl e)
        then show ?thesis using run False Some y by simp
      next
        case (Inr z)
        obtain r1 go where z: "z = (r1, go)" by (cases z)
        have k: "live strict f r1" using run Inr z by simp
        then have "handled faults strict f (forward_params env h rx (Some f) nonce xs r1)"
          using Cons.IH[of r1] by simp
        then show ?thesis using False Some y Inr z by simp
      qed
    qed
  qed
qed

lemma builtin_handled:
  assumes live: "live strict f r" and fct: "map_of builtin b = Some fct"
  shows "handled faults strict f (fct env h r (Some f) nonce ps)"
proof -
  note ans = answer_handled[OF live, of faults, simplified]
  obtain ok where ok: "local_from r (Some f) = Inr ok" using local_from_ok[OF liveD[OF live]] by blast
  have log: "handled faults strict f (rpc_syslog env h r (Some f) nonce ps)"
    unfolding rpc_syslog_def by (auto simp: ans intro!: handled_bind dest: leaf_copy_fault)
  have add: "handled faults strict f (rpc_cacheAdd env h r (Some f) nonce ps)"
    by (simp add: rpc_cacheAdd_def ok ans)
  have look: "handled faults strict f (rpc_lookup env h r (Some f) nonce ps)"
    unfolding rpc_lookup_def by (auto simp: ans intro!: handled_bind dest: leaf_copy_fault)
  note through = rpc_forward_handled[OF ccnb_dispatch_ok live, simplified]
    rpc_forward_handled[OF ccntlv_dispatch_ok live, simplified] rpc_forward_handled[OF ndntlv_dispatch_ok live, simplified]
  have fwd: "handled faults strict f (rpc_forward env h r (Some f) nonce ps)"
    unfolding rpc_forward_def
    by (auto simp: ans rpc_encoding_def through intro!: handled_bind dest: leaf_copy_fault split: if_splits)
  have rem: "handled faults strict f (rpc_cacheRemove env h r (Some f) nonce ps)"
  proof (cases ok)
    case True
    show ?thesis
    proof (cases "cache_remove_loop ps 0 r")
      case (Inl e)
      then show ?thesis using cache_remove_loop_keeps[OF liveD(1)[OF live], of ps 0] True ok by (auto simp: rpc_cacheRemove_def)
    next
      case (Inr x)
      obtain res r1 where x: "x = (res, r1)" by (cases x)
      then have r1: "live strict f r1"
        using cache_remove_loop_keeps[OF liveD(1)[OF live], of ps 0] Inr live
        by (simp add: live_def all_out_def face_ids_def out_faces_def)
      show ?thesis using True ok Inr x answer_handled[OF r1, of faults]
        by (simp add: rpc_cacheRemove_def split: option.split)
    qed
  qed (simp add: rpc_cacheRemove_def ok ans)
  have "(b, fct) \<in> set builtin" using fct by (rule map_of_SomeD)
  then have "fct \<in> {rpc_cacheAdd, rpc_cacheRemove, rpc_forward, rpc_lookup, rpc_syslog}"
    unfolding builtin_def by auto
  then show ?thesis using log add look fwd rem by auto
qed

lemma request_handled:
  assumes live: "live strict f r"
  shows "handled faults strict f (ccnl_localrpc_handleRequest env h r (Some f) req)"
proof (cases "r_kids req")
  case Nil
  then show ?thesis using live by (simp add: ccnl_localrpc_handleRequest_def)
next
  case (Cons nonce rest)
  have refuse [simplified]: "handled faults strict f (bindE (ccnl_emit_RpcReturn env r (Some f) nonce rc reason None) (\<lambda>(_, r1). Inr (-1, r1)))" for rc reason
    by (rule handled_then[OF emit_handled[OF live]]) simp_all
  have call: "handled faults strict f (bindE (rpc_getBuiltinFct var) (\<lambda>fct. case fct of
      None \<Rightarrow> bindE (ccnl_emit_RpcReturn env r (Some f) nonce 501 (lit ''unknown function'') None) (\<lambda>(_, r1). Inr (-1, r1))
    | Some fct \<Rightarrow> fct env h r (Some f) nonce ps))" for var ps
  proof (rule handled_bind)
    show "rpc_getBuiltinFct var = Inl e \<Longrightarrow> e \<in> faults" for e
      using leaf_copy_fault[of var e] by (auto simp: rpc_getBuiltinFct_def bindE_eq_Inl_iff split: if_splits)
    fix y assume y: "rpc_getBuiltinFct var = Inr y"
    show "handled faults strict f (case y of
        None \<Rightarrow> bindE (ccnl_emit_RpcReturn env r (Some f) nonce 501 (lit ''unknown function'') None) (\<lambda>(_, r1). Inr (-1, r1))
      | Some fct \<Rightarrow> fct env h r (Some f) nonce ps)"
    proof (cases y)
      case (Some fct)
      then have "\<exists>b. map_of builtin b = Some fct" using y by (auto simp: rpc_getBuiltinFct_def bindE_eq_Inr_iff split: if_splits)
      then show ?thesis using builtin_handled[OF live] Some by auto
    qed (simp add: refuse)
  qed
  show ?thesis unfolding ccnl_localrpc_handleRequest_def Cons list.case Let_def
    by (auto simp: refuse call[simplified] split: option.split)
qed

lemma localrpc_upto: "dispatch_upto (insert Uaf faults) strict h (ccnl_localrpc_exec env)"
  unfolding dispatch_upto_def
proof (intro allI impI)
  fix r f m and cur :: cursor assume live: "live strict f r"
  obtain p n where c: "cur = (p, n)" by (cases cur)
  have req: "ccnl_localrpc_handleRequest env h r (Some f) a = Inl e \<Longrightarrow> e \<in> faults"
    "ccnl_localrpc_handleRequest env h r (Some f) a = Inr (rc, r1) \<Longrightarrow> live strict f r1" for a e rc r1
    using request_handled[OF live, of env a] by auto
  have msg: "case localrpc_message env h r (Some f) m cur of Inl e \<Rightarrow> e \<in> faults | Inr (r1, a) \<Rightarrow> live strict f r1"
    using getType_fault[of m p n] live rd_err[of m p]
    by (cases "rd m p"; cases "ccnl_rdr_getType m p n")
      (auto simp: localrpc_message_def c mem_fault_def ccnl_localrpc_handleReply_def bindE_def dest: req split: sum.splits prod.splits)
  show "case ccnl_localrpc_exec env h r (Some f) m cur of Inl e \<Rightarrow> e \<in> insert Uaf faults
      | Inr (r1, go) \<Rightarrow> live strict f r1 \<and> (case go of None \<Rightarrow> True | Some (m1, cur1) \<Rightarrow> snd cur1 = 0 \<or> budget m1 cur1 < budget m cur)"
  proof (cases "snd cur = 0")
    case True
    then show ?thesis using live by (simp add: ccnl_localrpc_exec_def)
  next
    case False
    then show ?thesis using msg
      by (cases "localrpc_message env h r (Some f) m cur") (auto simp: ccnl_localrpc_exec_def split: option.splits)
  qed
qed

text \<open>All four formats.\<close>

lemma core_init_upto:
  "ccnl_core_init env s = Some rx \<Longrightarrow> dispatch_upto (insert Uaf faults) strict h rx"
  "((ccnl_core_init env)(CCNL_SUITE_LOCALRPC := None)) s = Some rx \<Longrightarrow> dispatch_upto faults strict h rx"
  using localrpc_upto[of env] dispatch_upto_mono[OF ccnb_dispatch_ok subset_insertI] dispatch_upto_mono[OF ccntlv_dispatch_ok subset_insertI]
    dispatch_upto_mono[OF ndntlv_dispatch_ok subset_insertI] ccnb_dispatch_ok ccntlv_dispatch_ok ndntlv_dispatch_ok
  by (auto simp: ccnl_core_init_def ccnl_core_suites_def split: if_splits)

end

end
