(* ===== verification/Samples.thy ===== *)
theory Samples
  imports Relay_System
begin

text \<open>
  A small relay the examples work on: two remote faces and the local client, one forwarding entry,
  one pending Interest and one content, all of the CCNx-TLV format.
\<close>

definition name_of :: "bytes list \<Rightarrow> prefix" where
  "name_of cs = \<lparr>pfx_comp = cs, pfx_suite = CCNL_SUITE_CCNTLV, pfx_nameptr = None, pfx_namelen = 0,
     pfx_bytes = None, pfx_chunknum = None\<rparr>"

definition packet_of :: "bytes list \<Rightarrow> bytes \<Rightarrow> pkt" where
  "packet_of cs b = pkt_zero\<lparr>pkt_buf := Some b, pkt_pfx := Some (name_of cs), pkt_suite := CCNL_SUITE_CCNTLV\<rparr>"

definition content_of :: "ref \<Rightarrow> bytes list \<Rightarrow> bytes \<Rightarrow> u8 \<Rightarrow> u32 \<Rightarrow> content" where
  "content_of k cs b fl t = \<lparr>c_ref = k, c_pkt = packet_of cs b, c_flags = fl, c_last_used = t, c_served_cnt = 0\<rparr>"

definition face_of :: "faceref \<Rightarrow> int \<Rightarrow> sockunion \<Rightarrow> face" where
  "face_of k ifndx a = \<lparr>f_faceid = k, f_ifndx = ifndx, f_peer = a, f_flags = 0, f_last_used = 90, f_outq = []\<rparr>"

definition sample_interest :: interest where
  "sample_interest = \<lparr>i_ref = 1, i_pkt = packet_of [[97], [98]] [7, 7], i_from = Some 1,
     i_pending = [\<lparr>pi_face = 1, pi_last_used = 95\<rparr>, \<lparr>pi_face = 3, pi_last_used = 96\<rparr>],
     i_lifetime = 10, i_last_used = 95, i_retries = 0\<rparr>"

definition sample_relay :: "content list \<Rightarrow> int \<Rightarrow> relay" where
  "sample_relay cs max_cache = (empty_relay [Su_ip4 1 9695] max_cache (-1))
     \<lparr>rl_faces := [face_of 1 0 (Su_ip4 10 1000), face_of 2 0 (Su_ip4 20 1000), face_of 3 (-1) Su_unspec],
      rl_fib := [\<lparr>fw_prefix = Some (name_of [[97]]), fw_tap = None, fw_face = Some 2, fw_suite = CCNL_SUITE_CCNTLV\<rparr>],
      rl_pit := [sample_interest], rl_pitcnt := 1, rl_contents := cs, rl_contentcnt := int (length cs),
      rl_seqno := 3, rl_fresh := 10, rl_now := 100\<rparr>"

lemma sample_fields [simp]:
  "rl_faces (sample_relay cs k) = [face_of 1 0 (Su_ip4 10 1000), face_of 2 0 (Su_ip4 20 1000), face_of 3 (-1) Su_unspec]"
  "rl_fib (sample_relay cs k) = [\<lparr>fw_prefix = Some (name_of [[97]]), fw_tap = None, fw_face = Some 2, fw_suite = CCNL_SUITE_CCNTLV\<rparr>]"
  "rl_pit (sample_relay cs k) = [sample_interest]" "rl_pitcnt (sample_relay cs k) = 1"
  "rl_contents (sample_relay cs k) = cs" "rl_contentcnt (sample_relay cs k) = int (length cs)"
  "rl_seqno (sample_relay cs k) = 3" "rl_fresh (sample_relay cs k) = 10" "rl_now (sample_relay cs k) = 100"
  "rl_nonces (sample_relay cs k) = []" "rl_max_cache_entries (sample_relay cs k) = k"
  "rl_max_pit_entries (sample_relay cs k) = -1" "rl_tx (sample_relay cs k) = []" "rl_taps (sample_relay cs k) = []"
  "length (rl_ifs (sample_relay cs k)) = 10" "ifs_wf (sample_relay cs k)"
  by (simp_all add: sample_relay_def) (auto simp: empty_relay_def ifs_wf_def idle_if_def)

lemma face_of_simps [simp]:
  "f_faceid (face_of k n a) = k" "f_ifndx (face_of k n a) = n" "f_peer (face_of k n a) = a"
  "f_flags (face_of k n a) = 0" "f_outq (face_of k n a) = []" "f_last_used (face_of k n a) = 90"
  by (simp_all add: face_of_def)

lemma packet_of_simps [simp]:
  "pkt_buf (packet_of cs b) = Some b" "pkt_pfx (packet_of cs b) = Some (name_of cs)"
  "pkt_suite (packet_of cs b) = CCNL_SUITE_CCNTLV" "pkt_wf (packet_of cs b)"
  "pkt_name (packet_of cs b) = (cs, None)"
  by (simp_all add: packet_of_def pkt_wf_def pkt_name_def name_of_def)

lemma name_of_simps [simp]:
  "pfx_comp (name_of cs) = cs" "pfx_suite (name_of cs) = CCNL_SUITE_CCNTLV" "pfx_chunknum (name_of cs) = None"
  by (simp_all add: name_of_def)

lemma content_of_simps [simp]:
  "c_ref (content_of k cs b fl t) = k" "c_pkt (content_of k cs b fl t) = packet_of cs b"
  "c_flags (content_of k cs b fl t) = fl" "c_last_used (content_of k cs b fl t) = t"
  by (simp_all add: content_of_def)

lemma sample_ids [simp]:
  "face_ids (sample_relay cs k) = {1, 2, 3}" "out_faces (sample_relay cs k) = {1, 2}"
  unfolding face_ids_def out_faces_def set_filter[symmetric] by simp_all

lemma sample_wf:
  assumes "distinct (map c_ref cs)" and "\<forall>c\<in>set cs. c_ref c < 10 \<and> pkt_wf (c_pkt c)"
    and "distinct (map (pkt_name \<circ> c_pkt) cs)" and "k \<le> 0 \<or> int (length cs) \<le> k + 1"
  shows "relay_wf (sample_relay cs k)"
  using assms by (auto simp: relay_wf_def faces_wf_def pit_wf_def fib_wf_def cs_wf_def nonces_wf_def interest_wf_def sample_interest_def)

lemma distinct_pair: "distinct fs \<Longrightarrow> set fs = {x, y} \<Longrightarrow> x \<noteq> y \<Longrightarrow> fs = [x, y] \<or> fs = [y, x]"
proof -
  assume d: "distinct fs" and s: "set fs = {x, y}" and n: "x \<noteq> y"
  have "length fs = 2" using distinct_card[OF d] s n by simp
  then obtain a b where "fs = [a, b]" by (auto simp: length_Suc_conv numeral_2_eq_2)
  then show ?thesis using s by (auto simp: doubleton_eq_iff)
qed

end
