(* ===== verification/Rpc_Props.thy ===== *)
theory Rpc_Props
  imports Rpc_Inv Samples
begin

text \<open>
  Properties of local RPC on the relay: what a reply carries, and what becomes of the relay behind a
  message.
\<close>

section \<open>Replies\<close>

lemma coding_rpc: "ccnl_switch_prependCoding 3 (10, replicate 10 0) = Inr (8, replicate 8 0 @ [0x80, 3])"
  by code_simp

lemma length_field_le: "length (lrpc_field v) \<le> 9" "v \<le> 0xffffffff \<Longrightarrow> length (lrpc_field v) \<le> 5"
  by (simp_all add: lrpc_field_def)

lemma enc_leaf: "is_leaf t \<Longrightarrow> rdr_enc (Rdr t fl flat v sub bs kids) = rdr_tlv t (leaf_bytes v bs)"
  by (auto simp: rdr_enc.simps)

lemma length_tlv_small:
  assumes "0 \<le> t" and "t < 253" and "length body < 2 ^ 32"
  shows "length (rdr_tlv t body) \<le> 6 + length body"
proof -
  have "(of_int t :: u64) < 253" using assms by (simp add: word_less_def uint_word_of_int)
  moreover have "(of_nat (length body) :: u64) \<le> 0xffffffff" using assms(3) by (simp add: word_le_nat_alt unat_of_nat)
  ultimately show ?thesis using length_field_le(2)[of "of_nat (length body)"] by (simp add: rdr_tlv_def lrpc_field_def)
qed



section \<open>Messages\<close>



end
