(* ===== verification/Ndntlv_Wire.thy ===== *)
theory Ndntlv_Wire
  imports Ndntlv_Enc
begin

text \<open>
  What the NDN encoders put on the wire: the packet formats as plain byte-string functions, and
  the proof that every \<open>prepend\<close> routine of \<open>Ndntlv_Enc\<close> prepends exactly its format,
  as interpretations of \<open>prepender\<close>.
\<close>

section \<open>The wire format\<close>

definition tl_bytes :: "u64 \<Rightarrow> nat \<Rightarrow> bytes" where
  "tl_bytes t n = varlen_bytes t @ varlen_bytes (of_nat n)"

definition tlv :: "u64 \<Rightarrow> bytes \<Rightarrow> bytes" where
  "tlv t v = tl_bytes t (length v) @ v"

text \<open>The bytes a number needs.\<close>

function nbytes :: "u64 \<Rightarrow> nat" where
  "nbytes v = (if v = 0 then 0 else Suc (nbytes (drop_bit 8 v)))"
  by pat_completeness auto

termination nbytes
  by (relation "measure unat") (auto dest: drop_bit_8_less)

declare nbytes.simps [simp del]

lemma nbytes_le: "unat v < 256 ^ n \<Longrightarrow> nbytes v \<le> n"
proof (induction n arbitrary: v)
  case 0
  then show ?case by (simp add: nbytes.simps unat_eq_0)
next
  case (Suc n)
  then have "unat (drop_bit 8 v) < 256 ^ n"
    by (simp add: drop_bit_eq_div unat_div div_less_iff_less_mult mult.commute)
  then show ?case using Suc.IH by (subst nbytes.simps) simp
qed

lemma nbytes_le_8: "nbytes v \<le> 8"
  using unsigned_less[of v, where ?'a = nat] by (intro nbytes_le) simp

lemma nbytes_cover: "drop_bit (8 * nbytes v) v = 0"
proof (induction v rule: nbytes.induct)
  case (1 v)
  then show ?case by (subst nbytes.simps) (simp add: add.commute)
qed

text \<open>The width of an encoded number. NDN asks for 1, 2, 4 or 8 bytes; the padding loop makes
  values of 5 and 6 bytes 7 bytes wide.\<close>

definition nni_width :: "u64 \<Rightarrow> nat" where
  "nni_width v = (let n = nbytes v in
     if n \<le> 1 then 1 else if n = 2 then 2 else if n \<le> 4 then 4 else if n \<le> 6 then 7 else 8)"

definition nni_bytes :: "u64 \<Rightarrow> bytes" where
  "nni_bytes v = be_bytes (nni_width v) v"

definition chunk_comp :: "u32 option \<Rightarrow> bytes list" where
  "chunk_comp c = (case c of None \<Rightarrow> [] | Some n \<Rightarrow> [NDN_Marker_SegmentNumber # nni_bytes (ucast n)])"

definition name_bytes :: "prefix \<Rightarrow> bytes" where
  "name_bytes p = tlv NDN_TLV_Name (concat (map (tlv NDN_TLV_NameComponent)
     (pfx_comp p @ chunk_comp (pfx_chunknum p))))"

definition interest_bytes :: "prefix \<Rightarrow> int \<Rightarrow> ndn_interest_opts \<Rightarrow> bytes" where
  "interest_bytes name scope opts = tlv NDN_TLV_Interest
    (name_bytes name
     @ (if io_mustbefresh opts \<noteq> 0 then tlv NDN_TLV_Selectors (tlv NDN_TLV_MustBeFresh []) else [])
     @ tlv NDN_TLV_Nonce (nonce_bytes (io_nonce opts))
     @ (if io_interestlifetime opts \<noteq> 0
        then tlv NDN_TLV_InterestLifetime (nni_bytes (ucast (io_interestlifetime opts))) else [])
     @ (if scope \<ge> 0 then tlv NDN_TLV_Scope (nni_bytes (of_int scope)) else []))"

definition metainfo_bytes :: "ndn_data_opts option \<Rightarrow> bytes" where
  "metainfo_bytes opts = tlv NDN_TLV_MetaInfo (case opts of None \<Rightarrow> [] | Some opts \<Rightarrow>
     (if do_freshnessperiod opts \<noteq> 0
      then tlv NDN_TLV_FreshnessPeriod (nni_bytes (ucast (do_freshnessperiod opts))) else [])
     @ (if do_finalblockid opts \<noteq> 0xffffffff
      then tlv NDN_TLV_FinalBlockId (tlv NDN_TLV_NameComponent
             (NDN_Marker_SegmentNumber # nni_bytes (ucast (do_finalblockid opts)))) else []))"

definition signature_bytes :: bytes where
  "signature_bytes = tlv NDN_TLV_SignatureInfo (tlv NDN_TLV_SignatureType [NDN_VAL_SIGTYPE_DIGESTSHA256])
     @ tlv NDN_TLV_SignatureValue []"

definition data_bytes :: "prefix \<Rightarrow> bytes \<Rightarrow> ndn_data_opts option \<Rightarrow> bytes" where
  "data_bytes name payload opts = tlv NDN_TLV_Data
    (name_bytes name @ metainfo_bytes opts @ tlv NDN_TLV_Content payload @ signature_bytes)"

section \<open>Every routine prepends its wire format\<close>

lemma prependTLval_eq: "ccnl_ndntlv_prependTLval v = put_varlen v"
  by (rule ext) (simp add: ccnl_ndntlv_prependTLval_def put_varlen_def varlen_size_def varlen_mark_def)

interpretation ndn_tlval: prepender "ccnl_ndntlv_prependTLval v" "varlen_bytes v" for v
  unfolding prependTLval_eq by (rule put_varlen.prepender_axioms)

interpretation ndn_tl: prepender "ccnl_ndntlv_prependTL t (of_nat n)" "tl_bytes t n" for t n
proof -
  have "ccnl_ndntlv_prependTL t (of_nat n) =
      (\<lambda>ob. bindE (ccnl_ndntlv_prependTLval (of_nat n) ob) (ccnl_ndntlv_prependTLval t))"
    by (rule ext) (simp add: ccnl_ndntlv_prependTL_def)
  then show "prepender (ccnl_ndntlv_prependTL t (of_nat n)) (tl_bytes t n)"
    using prepender_bind[OF ndn_tlval.prepender_axioms ndn_tlval.prepender_axioms]
    by (simp add: tl_bytes_def)
qed

text \<open>A routine that wraps what \<open>f\<close> wrote into a TLV of type \<open>t\<close>.\<close>

lemma prepender_tlv:
  assumes "prepender f xs"
  shows "prepender (\<lambda>ob. bindE (f ob) (\<lambda>ob1. ccnl_ndntlv_prependTL t (of_nat (fst ob - fst ob1)) ob1)) (tlv t xs)"
  using prepender_seq[OF assms, of "\<lambda>n. ccnl_ndntlv_prependTL t (of_nat n)" "tl_bytes t (length xs)"]
    ndn_tl.prepender_axioms by (simp add: tlv_def)

declare nni_val_loop.simps [simp del] nni_pad_loop.simps [simp del]

lemma nni_val_loop_eq:
  "nni_val_loop v len ob = bindE (put_chk (nbytes v) v ob) (\<lambda>ob1. Inr (len + nbytes v, ob1))"
proof (induction v len ob rule: nni_val_loop.induct)
  case (1 v len ob)
  show ?case
  proof (cases "v = 0")
    case True
    then show ?thesis by (simp add: nbytes.simps nni_val_loop.simps)
  next
    case False
    then have "nbytes v = Suc (nbytes (drop_bit 8 v))" by (subst nbytes.simps) simp
    then show ?thesis
      using 1 False by (subst nni_val_loop.simps) (simp add: ucast_and_255 bindE_assoc cong: bindE_cong)
  qed
qed

lemma nni_pad_step:
  "nni_fill len = Inr f \<Longrightarrow> nni_pad_loop i len =
    (if i < f then (\<lambda>ob. bindE (push_chk 0 ob) (nni_pad_loop (i + 1) (len + 1))) else Inr)"
  by (rule ext) (simp add: nni_pad_loop.simps)

lemma put_chk_fun:
  "put_chk 0 v = Inr"
  "put_chk (Suc n) v = (\<lambda>ob. bindE (push_chk (ucast v) ob) (put_chk n (drop_bit 8 v)))"
  by (rule ext, simp)+

lemma put_chk_1_2: "put_chk 1 v = put_chk (Suc 0) v" "put_chk 2 v = put_chk (Suc (Suc 0)) v"
  by (simp_all only: One_nat_def numeral_2_eq_2)

lemma nni_pad_loop_eq:
  "nni_pad_loop 0 0 = put_chk 1 0" "nni_pad_loop 0 1 = put_chk 0 0"
  "nni_pad_loop 0 2 = put_chk 0 0" "nni_pad_loop 0 3 = put_chk 1 0"
  "nni_pad_loop 0 4 = put_chk 0 0" "nni_pad_loop 0 5 = put_chk 2 0"
  "nni_pad_loop 0 6 = put_chk 1 0" "nni_pad_loop 0 7 = put_chk 1 0"
  "nni_pad_loop 0 8 = put_chk 0 0"
  by (simp_all add: nni_pad_step nni_fill_def put_chk_1_2 put_chk_fun del: put_chk.simps)

lemma put_chk_add:
  "bindE (put_chk n v ob) (put_chk k (drop_bit (8 * n) v)) = put_chk (n + k) v ob"
proof (induction n arbitrary: v ob)
  case 0
  then show ?case by simp
next
  case (Suc n)
  have "bindE (put_chk (Suc n) v ob) (put_chk k (drop_bit (8 * Suc n) v))
      = bindE (push_chk (ucast v) ob) (\<lambda>ob. bindE (put_chk n (drop_bit 8 v) ob) (put_chk k (drop_bit (8 * n) (drop_bit 8 v))))"
    by (simp add: bindE_assoc add.commute)
  then show ?case by (simp only: Suc.IH put_chk.simps add_Suc)
qed

lemma nonNegIntVal_put_chk: "ccnl_ndntlv_prependNonNegIntVal v = put_chk (nni_width v) v"
proof
  fix ob
  consider "nbytes v = 0" | "nbytes v = 1" | "nbytes v = 2" | "nbytes v = 3" | "nbytes v = 4"
    | "nbytes v = 5" | "nbytes v = 6" | "nbytes v = 7" | "nbytes v = 8"
    using nbytes_le_8[of v] by linarith
  then have "nni_pad_loop 0 (nbytes v) = put_chk (nni_width v - nbytes v) 0 \<and> nbytes v \<le> nni_width v"
    by cases (simp_all only: nni_pad_loop_eq nni_width_def Let_def, simp_all)
  then show "ccnl_ndntlv_prependNonNegIntVal v ob = put_chk (nni_width v) v ob"
    using put_chk_add[of "nbytes v" v ob "nni_width v - nbytes v"]
    by (simp add: ccnl_ndntlv_prependNonNegIntVal_def nni_val_loop_eq bindE_assoc nbytes_cover)
qed

interpretation ndn_nni_val: prepender "ccnl_ndntlv_prependNonNegIntVal v" "nni_bytes v" for v
  unfolding nonNegIntVal_put_chk nni_bytes_def by (rule put_chk_prepender)

interpretation ndn_nni: prepender "ccnl_ndntlv_prependNonNegInt t v" "tlv t (nni_bytes v)" for t v
proof -
  have "ccnl_ndntlv_prependNonNegInt t v = (\<lambda>ob. bindE (ccnl_ndntlv_prependNonNegIntVal v ob)
      (\<lambda>ob1. ccnl_ndntlv_prependTL t (of_nat (fst ob - fst ob1)) ob1))"
    by (rule ext) (simp add: ccnl_ndntlv_prependNonNegInt_def)
  then show "prepender (ccnl_ndntlv_prependNonNegInt t v) (tlv t (nni_bytes v))"
    using prepender_tlv[OF ndn_nni_val.prepender_axioms] by simp
qed

interpretation ndn_included: prepender "ccnl_ndntlv_prependIncludedNonNegInt t v mk" "tlv t (mk # nni_bytes v)"
  for t v mk
proof -
  have "prepender (\<lambda>ob. bindE (ccnl_ndntlv_prependNonNegIntVal v ob) (push_chk mk)) (mk # nni_bytes v)"
    using prepender_bind[OF ndn_nni_val.prepender_axioms push_chk.prepender_axioms] by simp
  note prepender_tlv[OF this, of t]
  moreover have "ccnl_ndntlv_prependIncludedNonNegInt t v mk =
      (\<lambda>ob. bindE (bindE (ccnl_ndntlv_prependNonNegIntVal v ob) (push_chk mk))
        (\<lambda>ob1. ccnl_ndntlv_prependTL t (of_nat (fst ob - fst ob1)) ob1))"
    by (rule ext) (simp add: ccnl_ndntlv_prependIncludedNonNegInt_def bindE_assoc)
  ultimately show "prepender (ccnl_ndntlv_prependIncludedNonNegInt t v mk) (tlv t (mk # nni_bytes v))"
    by simp
qed

interpretation ndn_blob: prepender "ccnl_ndntlv_prependBlob t b" "tlv t b" for t b
proof -
  have "ccnl_ndntlv_prependBlob t b = (\<lambda>ob. bindE (put_blob b ob) (ccnl_ndntlv_prependTL t (of_nat (length b))))"
    by (rule ext) (simp add: ccnl_ndntlv_prependBlob_def)
  then show "prepender (ccnl_ndntlv_prependBlob t b) (tlv t b)"
    using prepender_bind[OF put_blob.prepender_axioms ndn_tl.prepender_axioms] by (simp add: tlv_def)
qed

lemma prepend_comps_prepender:
  "prepender (prepend_comps cs) (concat (map (tlv NDN_TLV_NameComponent) (rev cs)))"
proof (induction cs)
  case Nil
  have "prepend_comps [] = Inr" by (rule ext) simp
  then show ?case using prepender_skip by simp
next
  case (Cons c cs)
  have "prepend_comps (c # cs) = (\<lambda>ob. bindE (ccnl_ndntlv_prependBlob NDN_TLV_NameComponent c ob) (prepend_comps cs))"
    by (rule ext) simp
  then show ?case using prepender_bind[OF ndn_blob.prepender_axioms Cons.IH] by simp
qed

interpretation ndn_name: prepender "ccnl_ndntlv_prependName p" "name_bytes p" for p
proof -
  let ?chunk = "\<lambda>ob. case pfx_chunknum p of None \<Rightarrow> Inr ob
    | Some n \<Rightarrow> ccnl_ndntlv_prependIncludedNonNegInt NDN_TLV_NameComponent (ucast n) NDN_Marker_SegmentNumber ob"
  have "prepender ?chunk (concat (map (tlv NDN_TLV_NameComponent) (chunk_comp (pfx_chunknum p))))"
    using prepender_skip ndn_included.prepender_axioms
    by (cases "pfx_chunknum p") (simp_all add: chunk_comp_def)
  from prepender_tlv[OF prepender_bind[OF this prepend_comps_prepender[of "rev (pfx_comp p)"]], of NDN_TLV_Name]
  have "prepender (\<lambda>ob. bindE (bindE (?chunk ob) (prepend_comps (rev (pfx_comp p))))
      (\<lambda>ob1. ccnl_ndntlv_prependTL NDN_TLV_Name (of_nat (fst ob - fst ob1)) ob1)) (name_bytes p)"
    by (simp add: name_bytes_def)
  moreover have "ccnl_ndntlv_prependName p = (\<lambda>ob. bindE (bindE (?chunk ob) (prepend_comps (rev (pfx_comp p))))
      (\<lambda>ob1. ccnl_ndntlv_prependTL NDN_TLV_Name (of_nat (fst ob - fst ob1)) ob1))"
    by (rule ext) (simp add: ccnl_ndntlv_prependName_def bindE_assoc)
  ultimately show "prepender (ccnl_ndntlv_prependName p) (name_bytes p)" by simp
qed

lemma tl_prepender: "prepender (ccnl_ndntlv_prependTL t 0) (tlv t [])"
  using ndn_tl.prepender_axioms[of t 0] by (simp add: tlv_def)

lemma selectors_prepender:
  "prepender (prepend_selectors mbf)
    (if mbf \<noteq> 0 then tlv NDN_TLV_Selectors (tlv NDN_TLV_MustBeFresh []) else [])"
proof (cases "mbf = 0")
  case True
  then have "prepend_selectors mbf = Inr" by (intro ext) (simp add: prepend_selectors_def)
  then show ?thesis using True prepender_skip by simp
next
  case False
  then have "prepend_selectors mbf = (\<lambda>ob. bindE (ccnl_ndntlv_prependTL NDN_TLV_MustBeFresh 0 ob)
      (\<lambda>ob1. ccnl_ndntlv_prependTL NDN_TLV_Selectors (of_nat (fst ob - fst ob1)) ob1))"
    by (intro ext) (simp add: prepend_selectors_def)
  then show ?thesis using False prepender_tlv[OF tl_prepender] by simp
qed

lemma prepender_if:
  "(b \<Longrightarrow> prepender f xs) \<Longrightarrow> prepender (\<lambda>ob. if b then f ob else Inr ob) (if b then xs else [])"
  using prepender_skip by (cases b) simp_all

text \<open>The encoder of Interests with its result split off.\<close>

definition interest_body :: "prefix \<Rightarrow> int \<Rightarrow> ndn_interest_opts \<Rightarrow> outbuf \<Rightarrow> outbuf res" where
  "interest_body name scope opts ob =
    bindE (bindE (bindE (bindE (if scope \<ge> 0
              then ccnl_ndntlv_prependNonNegInt NDN_TLV_Scope (of_int scope) ob else Inr ob)
            (\<lambda>ob1. if io_interestlifetime opts \<noteq> 0
               then ccnl_ndntlv_prependNonNegInt NDN_TLV_InterestLifetime (ucast (io_interestlifetime opts)) ob1
               else Inr ob1))
          (ccnl_ndntlv_prependBlob NDN_TLV_Nonce (nonce_bytes (io_nonce opts))))
        (prepend_selectors (io_mustbefresh opts)))
      (ccnl_ndntlv_prependName name)"

lemma interest_prepender:
  "prepender (\<lambda>ob. bindE (interest_body name scope opts ob)
      (\<lambda>ob1. ccnl_ndntlv_prependTL NDN_TLV_Interest (of_nat (fst ob - fst ob1)) ob1))
    (interest_bytes name scope opts)"
proof -
  have "prepender (interest_body name scope opts)
     (name_bytes name
     @ (if io_mustbefresh opts \<noteq> 0 then tlv NDN_TLV_Selectors (tlv NDN_TLV_MustBeFresh []) else [])
     @ tlv NDN_TLV_Nonce (nonce_bytes (io_nonce opts))
     @ (if io_interestlifetime opts \<noteq> 0
        then tlv NDN_TLV_InterestLifetime (nni_bytes (ucast (io_interestlifetime opts))) else [])
     @ (if scope \<ge> 0 then tlv NDN_TLV_Scope (nni_bytes (of_int scope)) else []))"
    unfolding interest_body_def[abs_def]
    by (intro prepender_bind prepender_if ndn_nni.prepender_axioms ndn_blob.prepender_axioms
        selectors_prepender ndn_name.prepender_axioms)
  from prepender_tlv[OF this] show ?thesis by (simp add: interest_bytes_def)
qed

lemma prependInterest_eq:
  "ccnl_ndntlv_prependInterest name scope opts ob =
    (if scope > 2 then Inl Fail
     else bindE (bindE (interest_body name scope opts ob)
        (\<lambda>ob1. ccnl_ndntlv_prependTL NDN_TLV_Interest (of_nat (fst ob - fst ob1)) ob1))
      (\<lambda>ob1. Inr (ob1, fst ob - fst ob1)))"
  by (simp add: ccnl_ndntlv_prependInterest_def interest_body_def bindE_assoc)

lemma prependInterest_spec:
  assumes "scope \<le> 2" and "off \<le> length buf"
  shows "ccnl_ndntlv_prependInterest name scope opts (off, buf) =
    (if length (interest_bytes name scope opts) \<le> off
     then Inr (splice (interest_bytes name scope opts) (off, buf), length (interest_bytes name scope opts))
     else Inl Fail)"
  using assms prepender.fits[OF interest_prepender, of name scope opts off buf]
    prepender.full[OF interest_prepender, of off name scope opts buf]
  by (simp add: prependInterest_eq)

section \<open>Data\<close>

lemma metainfo_prepender: "prepender (prepend_metainfo opts) (metainfo_bytes opts)"
proof -
  let ?tl = "\<lambda>t ob ob1. ccnl_ndntlv_prependTL t (of_nat (fst ob - fst ob1)) ob1"
  let ?fbi = "\<lambda>(opts :: ndn_data_opts) ob. bindE (ccnl_ndntlv_prependIncludedNonNegInt NDN_TLV_NameComponent
      (ucast (do_finalblockid opts)) NDN_Marker_SegmentNumber ob) (?tl NDN_TLV_FinalBlockId ob)"
  let ?fresh = "\<lambda>(opts :: ndn_data_opts). ccnl_ndntlv_prependNonNegInt NDN_TLV_FreshnessPeriod (ucast (do_freshnessperiod opts))"
  let ?inner = "\<lambda>(opts :: ndn_data_opts) ob. bindE (if do_finalblockid opts \<noteq> 0xffffffff then ?fbi opts ob else Inr ob)
      (\<lambda>ob1. if do_freshnessperiod opts \<noteq> 0 then ?fresh opts ob1 else Inr ob1)"
  have inner: "prepender (?inner opts)
     ((if do_freshnessperiod opts \<noteq> 0
      then tlv NDN_TLV_FreshnessPeriod (nni_bytes (ucast (do_freshnessperiod opts))) else [])
     @ (if do_finalblockid opts \<noteq> 0xffffffff
      then tlv NDN_TLV_FinalBlockId (tlv NDN_TLV_NameComponent
             (NDN_Marker_SegmentNumber # nni_bytes (ucast (do_finalblockid opts)))) else []))" for opts
    by (intro prepender_bind prepender_if prepender_tlv ndn_nni.prepender_axioms ndn_included.prepender_axioms)
  have "prepend_metainfo opts = (\<lambda>ob. bindE (case opts of None \<Rightarrow> Inr ob | Some opts \<Rightarrow> ?inner opts ob) (?tl NDN_TLV_MetaInfo ob))"
    by (rule ext) (simp add: prepend_metainfo_def)
  moreover have "prepender (\<lambda>ob. bindE (case opts of None \<Rightarrow> Inr ob | Some opts \<Rightarrow> ?inner opts ob) (?tl NDN_TLV_MetaInfo ob))
      (metainfo_bytes opts)"
  proof (cases opts)
    case None
    then show ?thesis
      using prepender_tlv[OF prepender_skip, of NDN_TLV_MetaInfo] by (simp add: metainfo_bytes_def)
  next
    case (Some o1)
    show ?thesis
      unfolding Some option.case metainfo_bytes_def by (intro prepender_tlv inner)
  qed
  ultimately show ?thesis by simp
qed

lemma signature_prepender: "prepender prepend_signature signature_bytes"
  unfolding signature_bytes_def prepend_signature_def[abs_def]
  by (intro prepender_bind tl_prepender prepender_tlv ndn_blob.prepender_axioms)

lemma data_prepender:
  "prepender (\<lambda>ob. bindE (bindE (bindE (bindE (prepend_signature ob)
        (ccnl_ndntlv_prependBlob NDN_TLV_Content payload)) (prepend_metainfo opts)) (ccnl_ndntlv_prependName name))
      (\<lambda>ob1. ccnl_ndntlv_prependTL NDN_TLV_Data (of_nat (fst ob - fst ob1)) ob1))
    (data_bytes name payload opts)"
  unfolding data_bytes_def
  by (intro prepender_tlv)
    (intro prepender_bind signature_prepender ndn_blob.prepender_axioms metainfo_prepender ndn_name.prepender_axioms)

lemma prependContent_spec:
  assumes "off \<le> length buf"
  shows "ccnl_ndntlv_prependContent name payload opts (off, buf) =
    (let enc = data_bytes name payload opts in
     if length enc \<le> off
     then Inr (splice enc (off, buf), wsub (wsub off (length payload)) (off - length enc), length enc)
     else Inl Fail)"
proof -
  have "ccnl_ndntlv_prependContent name payload opts ob =
      bindE (bindE (bindE (bindE (bindE (prepend_signature ob)
        (ccnl_ndntlv_prependBlob NDN_TLV_Content payload)) (prepend_metainfo opts)) (ccnl_ndntlv_prependName name))
      (\<lambda>ob1. ccnl_ndntlv_prependTL NDN_TLV_Data (of_nat (fst ob - fst ob1)) ob1))
      (\<lambda>ob5. Inr (ob5, wsub (wsub (fst ob) (length payload)) (fst ob5), fst ob - fst ob5))" for ob
    by (simp add: ccnl_ndntlv_prependContent_def bindE_assoc)
  then show ?thesis
    using assms prepender.fits[OF data_prepender, of name payload opts off buf]
      prepender.full[OF data_prepender, of off name payload opts buf]
    by (simp add: Let_def)
qed

end
