(* ===== verification/Ndntlv_Round.thy ===== *)
theory Ndntlv_Round
  imports Ndntlv_Wire Ndntlv_Dec
begin

text \<open>
  The NDN parser on what the NDN encoders write: each reading routine inverts its writing
  routine, and whole Interests and Data packets parse back to the fields they were made from.
  Every number on the wire is below \<open>2 ^ 32\<close>: the parser refuses the 9-byte form.
\<close>

section \<open>Reading what was written\<close>

lemma length_tlv [simp]: "length (tlv t v) = length (tl_bytes t (length v)) + length v"
  by (simp add: tlv_def)

lemma at_pos_tlv [simp]:
  "at_pos m p (tlv t v) \<longleftrightarrow>
    at_pos m p (tl_bytes t (length v)) \<and> at_pos m (p + length (tl_bytes t (length v))) v"
  by (simp add: tlv_def)

lemma varlenint_read:
  assumes "at_pos m p (varlen_bytes v)" and "v \<le> 0xffffffff" and "length (varlen_bytes v) \<le> n"
  shows "ccnl_ndntlv_varlenint m (p, n) =
    Inr (Some v, (p + length (varlen_bytes v), n - length (varlen_bytes v)))"
proof -
  have rd0: "rd m p = Inr (varlen_mark v)" and
    sl: "slice m (p + 1) (varlen_size v) = Inr (be_bytes (varlen_size v) v)"
    using assms(1) at_pos_slice[of m "p + 1" "be_bytes (varlen_size v) v" "varlen_size v"]
    by (auto simp: varlen_bytes_def at_pos_Cons)
  have u: "unat v < 2 ^ 32" using assms(2) by (simp add: word_le_nat_alt)
  consider "v < 253" | "\<not> v < 253" "v \<le> 0xffff" | "\<not> v < 253" "\<not> v \<le> 0xffff" by blast
  then show ?thesis
  proof cases
    case 1
    then have "ucast v < (253 :: byte)" and "ucast (ucast v :: byte) = v"
      by (simp_all add: word_less_nat_alt unsigned_ucast_eq take_bit_nat_eq_self ucast_byte_u64 take_bit_u64_id)
    then show ?thesis
      using 1 rd0 assms(3) by (simp add: ccnl_ndntlv_varlenint_def varlen_bytes_def varlen_size_def varlen_mark_def)
  next
    case 2
    then have "take_bit 16 v = v" by (intro take_bit_u64_id) (simp add: word_le_nat_alt word_less_nat_alt)
    then show ?thesis
      using 2 rd0 sl assms(3)
      by (simp add: ccnl_ndntlv_varlenint_def varlen_bytes_def varlen_size_def varlen_mark_def)
  next
    case 3
    have "take_bit 32 v = v" using u by (intro take_bit_u64_id) (simp add: word_less_nat_alt)
    then show ?thesis
      using 3 rd0 sl assms
      by (simp add: ccnl_ndntlv_varlenint_def varlen_bytes_def varlen_size_def varlen_mark_def)
  qed
qed

lemma dehead_read:
  assumes "at_pos m p (tl_bytes t l)" and "t \<le> 0xffffffff" and "l \<le> 0xffffffff"
    and "length (tl_bytes t l) \<le> n" and "l \<le> n"
  shows "ccnl_ndntlv_dehead m (p, n) =
    Inr (Some (t, l), (p + length (tl_bytes t l), n - length (tl_bytes t l)))"
proof -
  let ?l = "of_nat l :: u64"
  have l: "unat ?l = l" "?l \<le> 0xffffffff"
    using assms(3) by (simp_all add: unat_of_nat word_le_nat_alt)
  have "ccnl_ndntlv_varlenint m (p, n) =
      Inr (Some t, (p + length (varlen_bytes t), n - length (varlen_bytes t)))"
    using assms by (intro varlenint_read) (auto simp: tl_bytes_def)
  moreover have "ccnl_ndntlv_varlenint m (p + length (varlen_bytes t), n - length (varlen_bytes t)) =
      Inr (Some ?l, (p + length (varlen_bytes t) + length (varlen_bytes ?l),
        n - length (varlen_bytes t) - length (varlen_bytes ?l)))"
    using assms l by (intro varlenint_read) (auto simp: tl_bytes_def)
  ultimately show ?thesis
    using assms l by (simp add: ccnl_ndntlv_dehead_def tl_bytes_def add.assoc)
qed

lemma nonNegInt_loop_read:
  "at_pos m p xs \<Longrightarrow> nonNegInt_loop m p (length xs) v = Inr (foldl be_step v xs)"
  by (induction xs arbitrary: p v) (auto simp: at_pos_Cons)

lemma nonNegInt_read:
  "at_pos m p xs \<Longrightarrow> n = length xs \<Longrightarrow> ccnl_ndntlv_nonNegInt m p n = Inr (be_val xs)"
  by (simp add: ccnl_ndntlv_nonNegInt_def nonNegInt_loop_read be_val_def)

lemma nni_width_cover: "drop_bit (8 * nni_width v) v = 0"
proof -
  have "nbytes v \<le> nni_width v"
    using nbytes_le_8[of v] by (auto simp: nni_width_def Let_def)
  then obtain k where "nni_width v = nbytes v + k" using le_Suc_ex by blast
  then have "drop_bit (8 * nni_width v) v = drop_bit (8 * k) (drop_bit (8 * nbytes v) v)"
    by (simp add: algebra_simps)
  then show ?thesis by (simp add: nbytes_cover)
qed

lemma be_val_nni_bytes [simp]: "be_val (nni_bytes v) = v"
proof -
  have "take_bit (8 * nni_width v) v = v"
    using bits_ident[of "8 * nni_width v" v] by (simp add: nni_width_cover)
  then show ?thesis by (simp add: nni_bytes_def)
qed

lemma length_nni_bytes: "1 \<le> length (nni_bytes v) \<and> length (nni_bytes v) \<le> 8"
  by (simp add: nni_bytes_def nni_width_def Let_def)

section \<open>Names\<close>

fun comp_offs :: "nat \<Rightarrow> bytes list \<Rightarrow> (nat \<times> nat) list" where
  "comp_offs p [] = []"
| "comp_offs p (c # cs) =
     (p + length (tl_bytes NDN_TLV_NameComponent (length c)), length c)
       # comp_offs (p + length (tlv NDN_TLV_NameComponent c)) cs"

lemma slices_comp_offs:
  "at_pos m p (concat (map (tlv NDN_TLV_NameComponent) cs)) \<Longrightarrow> slices m (comp_offs p cs) = Inr cs"
  by (induction cs arbitrary: p) (auto simp: at_pos_slice add.assoc)

text \<open>The chunk number the segment components of a name announce: the last one counts.\<close>

fun chunk_after :: "bytes list \<Rightarrow> u32 option \<Rightarrow> u32 option" where
  "chunk_after [] ch = ch"
| "chunk_after (c # cs) ch =
     chunk_after cs (if hd c = NDN_Marker_SegmentNumber then Some (ucast (be_val (tl c))) else ch)"

text \<open>The components the parser takes: not empty, and segment numbers of at most 32 bits.\<close>

definition ndn_comp_ok :: "bytes \<Rightarrow> bool" where
  "ndn_comp_ok c \<longleftrightarrow> c \<noteq> [] \<and> length c \<le> 0xffffffff
     \<and> (hd c = NDN_Marker_SegmentNumber \<longrightarrow> be_val (tl c) \<le> 0xffffffff)"

lemma name_comp_step_read:
  assumes "at_pos m p c" and "ndn_comp_ok c"
  shows "name_comp_step m p (length c) (comps, ch) = Inr (comps @ [(p, length c)],
    if hd c = NDN_Marker_SegmentNumber then Some (ucast (be_val (tl c))) else ch)"
proof -
  from assms(2) obtain b bs where c: "c = b # bs" by (cases c) (auto simp: ndn_comp_ok_def)
  have "wsub (length c) 1 = length bs"
    using assms(2) by (subst wsub_le) (auto simp: ndn_comp_ok_def c)
  then show ?thesis
    using assms nonNegInt_read[of m "p + 1" bs]
    by (auto simp: name_comp_step_def c at_pos_Cons ndn_comp_ok_def)
qed

lemma name_loop_read:
  assumes "at_pos m p (concat (map (tlv NDN_TLV_NameComponent) cs))"
    and "list_all ndn_comp_ok cs" and "length comps + length cs \<le> CCNL_MAX_NAME_COMP"
    and "n = length (concat (map (tlv NDN_TLV_NameComponent) cs))" and "n \<le> 0xffffffff"
  shows "name_loop m (p, n) (comps, ch) = Inr (comps @ comp_offs p cs, chunk_after cs ch)"
  using assms
proof (induction cs arbitrary: p n comps ch)
  case Nil
  then show ?case by (simp add: name_loop.simps)
next
  case (Cons c cs)
  let ?h = "tl_bytes NDN_TLV_NameComponent (length c)"
  let ?rest = "concat (map (tlv NDN_TLV_NameComponent) cs)"
  have n: "n = length ?h + length c + length ?rest" using Cons.prems(4) by simp
  have ok: "ndn_comp_ok c" using Cons.prems(2) by simp
  have hd: "ccnl_ndntlv_dehead m (p, n) =
      Inr (Some (NDN_TLV_NameComponent, length c), (p + length ?h, length c + length ?rest))"
    using Cons.prems ok n dehead_read[of m p NDN_TLV_NameComponent "length c" n]
    by (simp add: ndn_comp_ok_def)
  have w: "wsub (length c + length ?rest) (length c) = length ?rest"
    using Cons.prems(5) n by (subst wsub_le) auto
  have "n \<noteq> 0" using n ok by (auto simp: ndn_comp_ok_def)
  have at: "at_pos m (p + length ?h) c" using Cons.prems(1) by simp
  have "name_loop m (p + length ?h + length c, length ?rest)
      (comps @ [(p + length ?h, length c)], ch') =
      Inr (comps @ comp_offs p (c # cs), chunk_after cs ch')" for ch'
    using Cons.prems n by (subst Cons.IH) (simp_all add: add.assoc)
  then show ?case
    using Cons.prems(3) \<open>n \<noteq> 0\<close> hd w name_comp_step_read[OF at ok, of comps ch]
    by (subst name_loop.simps) simp
qed

section \<open>The packet loop over TLVs\<close>

lemma pkt_loop_tlv:
  assumes "at_pos m p (tlv t v)" and "t \<le> 0xffffffff" and "length (tlv t v) \<le> n" and "n \<le> 0xffffffff"
  shows "ndn_pkt_loop m (p, n) s =
    bindE (ndn_tlv_step m p t (length v) (p + length (tl_bytes t (length v))) s)
      (ndn_pkt_loop m (p + length (tlv t v), n - length (tlv t v)))"
proof -
  let ?h = "tl_bytes t (length v)"
  have hd: "ccnl_ndntlv_dehead m (p, n) = Inr (Some (t, length v), (p + length ?h, n - length ?h))"
    using assms by (intro dehead_read) auto
  have "wsub (n - length ?h) (length v) = n - length (tlv t v)"
    using assms by (subst wsub_le) auto
  then show ?thesis
    using hd by (subst ndn_pkt_loop.simps) (simp add: add.assoc)
qed

lemma pkt_loop_end: "p < length m \<Longrightarrow> ndn_pkt_loop m (p, 0) s = Inr ((p, 0), s)"
  by (simp add: ndn_pkt_loop.simps ccnl_ndntlv_dehead_def ccnl_ndntlv_varlenint_def)

lemma pkt_loop_opt:
  assumes "b \<Longrightarrow> at_pos m p (tlv t v)" and "t \<le> 0xffffffff"
    and "n = length (if b then tlv t v else []) + k" and "n \<le> 0xffffffff"
    and "b \<Longrightarrow> ndn_tlv_step m p t (length v) (p + length (tl_bytes t (length v))) s = Inr s'"
  shows "ndn_pkt_loop m (p, n) s =
    ndn_pkt_loop m (p + length (if b then tlv t v else []), k) (if b then s' else s)"
  using assms pkt_loop_tlv[of m p t v n s] by (cases b) auto

lemma pkt_loop_one:
  assumes "at_pos m p (tlv t v)" and "t \<le> 0xffffffff"
    and "n = length (tlv t v) + k" and "n \<le> 0xffffffff"
    and "ndn_tlv_step m p t (length v) (p + length (tl_bytes t (length v))) s = Inr s'"
  shows "ndn_pkt_loop m (p, n) s = ndn_pkt_loop m (p + length (tlv t v), k) s'"
  using pkt_loop_opt[of True m p t v n k s s'] assms by simp

text \<open>The name the parser builds for a name written at \<open>p\<close>.\<close>

definition ndn_name_ok :: "prefix \<Rightarrow> bool" where
  "ndn_name_ok name \<longleftrightarrow> list_all ndn_comp_ok (pfx_comp name)
     \<and> compcnt name + length (chunk_comp (pfx_chunknum name)) \<le> CCNL_MAX_NAME_COMP"

definition wire_comps :: "prefix \<Rightarrow> bytes list" where
  "wire_comps name = pfx_comp name @ chunk_comp (pfx_chunknum name)"

definition name_head :: "prefix \<Rightarrow> bytes" where
  "name_head name = tl_bytes NDN_TLV_Name (length (concat (map (tlv NDN_TLV_NameComponent) (wire_comps name))))"

definition parsed_name :: "prefix \<Rightarrow> nat \<Rightarrow> prefix" where
  "parsed_name name p = \<lparr>pfx_comp = wire_comps name, pfx_suite = CCNL_SUITE_NDNTLV,
     pfx_nameptr = Some p, pfx_namelen = length (name_head name), pfx_bytes = None,
     pfx_chunknum = chunk_after (wire_comps name) None\<rparr>"

lemma chunk_comp_ok: "list_all ndn_comp_ok (chunk_comp ch)"
proof (cases ch)
  case (Some n)
  have "unat n < 2 ^ 32" using unsigned_less[of n, where ?'a = nat] by simp
  then have "(ucast n :: u64) \<le> 0xffffffff"
    by (simp add: word_le_nat_alt unsigned_ucast_eq take_bit_nat_eq_self)
  then show ?thesis
    using Some length_nni_bytes[of "ucast n"] by (simp add: chunk_comp_def ndn_comp_ok_def)
qed (simp add: chunk_comp_def)

lemma name_step_read:
  assumes "at_pos m p (name_bytes name)" and "ndn_name_ok name" and "length (name_bytes name) \<le> 0xffffffff"
    and "np_name s = None"
  shows "ndn_tlv_step m p NDN_TLV_Name (length (name_bytes name) - length (name_head name)) (p + length (name_head name)) s
    = Inr (s\<lparr>np_name := Some (comp_offs (p + length (name_head name)) (wire_comps name), chunk_after (wire_comps name) None),
        np_val := -1, np_nameptr := p, np_namelen := length (name_head name)\<rparr>)"
proof -
  let ?cs = "concat (map (tlv NDN_TLV_NameComponent) (wire_comps name))"
  have nb: "name_bytes name = tlv NDN_TLV_Name ?cs" by (simp add: name_bytes_def wire_comps_def)
  have "name_loop m (p + length (name_head name), length ?cs) ([], None) =
      Inr ([] @ comp_offs (p + length (name_head name)) (wire_comps name), chunk_after (wire_comps name) None)"
    using assms unfolding nb
    by (intro name_loop_read) (auto simp: name_head_def wire_comps_def ndn_name_ok_def chunk_comp_ok)
  then show ?thesis
    using assms(4) unfolding nb by (simp add: ndn_tlv_step_def name_head_def)
qed

section \<open>Interests\<close>

definition interest_detail :: "int \<Rightarrow> ndn_interest_opts \<Rightarrow> ndn_detail" where
  "interest_detail scope opts = \<lparr>nd_minsuffix = 0, nd_maxsuffix = 64,
     nd_scope = (if scope \<ge> 0 then of_int scope else 3), nd_mbf = (io_mustbefresh opts \<noteq> 0),
     nd_nonce = Some (nonce_bytes (io_nonce opts)), nd_ppkl = None,
     nd_interestlifetime = (if io_interestlifetime opts \<noteq> 0 then ucast (io_interestlifetime opts) else 10000),
     nd_freshnessperiod = 0\<rparr>"

definition interest_body_bytes :: "prefix \<Rightarrow> int \<Rightarrow> ndn_interest_opts \<Rightarrow> bytes" where
  "interest_body_bytes name scope opts =
    name_bytes name
     @ (if io_mustbefresh opts \<noteq> 0 then tlv NDN_TLV_Selectors (tlv NDN_TLV_MustBeFresh []) else [])
     @ tlv NDN_TLV_Nonce (nonce_bytes (io_nonce opts))
     @ (if io_interestlifetime opts \<noteq> 0
        then tlv NDN_TLV_InterestLifetime (nni_bytes (ucast (io_interestlifetime opts))) else [])
     @ (if scope \<ge> 0 then tlv NDN_TLV_Scope (nni_bytes (of_int scope)) else [])"

lemma selectors_step_read:
  assumes "at_pos m p (tlv NDN_TLV_MustBeFresh [])"
  shows "selectors_loop m (p, length (tlv NDN_TLV_MustBeFresh [])) d = Inr (d\<lparr>nd_mbf := True\<rparr>)"
proof -
  have "ccnl_ndntlv_dehead m (p, length (tl_bytes NDN_TLV_MustBeFresh 0)) =
      Inr (Some (NDN_TLV_MustBeFresh, 0), (p + length (tl_bytes NDN_TLV_MustBeFresh 0), 0))"
    using assms dehead_read[of m p NDN_TLV_MustBeFresh 0 "length (tl_bytes NDN_TLV_MustBeFresh 0)"] by simp
  moreover have "wsub 0 0 = 0" by (simp add: wsub_def)
  ultimately show ?thesis
    by (simp add: selectors_loop.simps tl_bytes_def)
qed

lemma interest_loop:
  fixes name :: prefix and scope :: int and opts :: ndn_interest_opts
  defines "body \<equiv> interest_body_bytes name scope opts"
  assumes at: "at_pos m p body" and ok: "ndn_name_ok name"
    and small: "length body \<le> 0xffffffff"
  shows "ndn_pkt_loop m (p, length body) (ndn_parse_init NDN_TLV_Interest) =
    ndn_pkt_loop m (p + length body, 0) ((ndn_parse_init NDN_TLV_Interest)\<lparr>
      np_name := Some (comp_offs (p + length (name_head name)) (wire_comps name), chunk_after (wire_comps name) None),
      np_val := -1, np_nameptr := p, np_namelen := length (name_head name),
      np_detail := interest_detail scope opts\<rparr>)"
proof -
  let ?nm = "name_bytes name"
  let ?sel = "if io_mustbefresh opts \<noteq> 0 then tlv NDN_TLV_Selectors (tlv NDN_TLV_MustBeFresh []) else []"
  let ?no = "tlv NDN_TLV_Nonce (nonce_bytes (io_nonce opts))"
  let ?lt = "if io_interestlifetime opts \<noteq> 0
    then tlv NDN_TLV_InterestLifetime (nni_bytes (ucast (io_interestlifetime opts))) else []"
  let ?sc = "if scope \<ge> 0 then tlv NDN_TLV_Scope (nni_bytes (of_int scope)) else []"
  let ?d = "\<lambda>f s. s\<lparr>np_detail := f (np_detail s)\<rparr>"
  define s1 where "s1 = (ndn_parse_init NDN_TLV_Interest)\<lparr>
      np_name := Some (comp_offs (p + length (name_head name)) (wire_comps name), chunk_after (wire_comps name) None),
      np_val := -1, np_nameptr := p, np_namelen := length (name_head name)\<rparr>"
  define s2 where "s2 = (if io_mustbefresh opts \<noteq> 0 then ?d (\<lambda>d. d\<lparr>nd_mbf := True\<rparr>) s1 else s1)"
  define s3 where "s3 = ?d (\<lambda>d. d\<lparr>nd_nonce := Some (nonce_bytes (io_nonce opts))\<rparr>) s2"
  define s4 where "s4 = (if io_interestlifetime opts \<noteq> 0
    then ?d (\<lambda>d. d\<lparr>nd_interestlifetime := ucast (io_interestlifetime opts)\<rparr>) s3 else s3)"
  define s5 where "s5 = (if scope \<ge> 0 then ?d (\<lambda>d. d\<lparr>nd_scope := of_int scope\<rparr>) s4 else s4)"
  have body: "body = ?nm @ ?sel @ ?no @ ?lt @ ?sc"
    by (simp only: body_def interest_body_bytes_def)
  let ?p1 = "p + length ?nm" let ?p2 = "?p1 + length ?sel" let ?p3 = "?p2 + length ?no"
  let ?p4 = "?p3 + length ?lt"
  have nb: "?nm = tlv NDN_TLV_Name (concat (map (tlv NDN_TLV_NameComponent) (wire_comps name)))"
    by (simp add: name_bytes_def wire_comps_def)
  have n1: "ndn_pkt_loop m (p, length body) (ndn_parse_init NDN_TLV_Interest) =
      ndn_pkt_loop m (?p1, length (?sel @ ?no @ ?lt @ ?sc)) s1"
    using at small name_step_read[of m p name "ndn_parse_init NDN_TLV_Interest"] ok
    unfolding nb s1_def body
    by (intro pkt_loop_one) (simp_all add: nb name_head_def ndn_parse_init_def)
  have n2: "ndn_pkt_loop m (?p1, length (?sel @ ?no @ ?lt @ ?sc)) s1 =
      ndn_pkt_loop m (?p2, length (?no @ ?lt @ ?sc)) s2"
    using at small unfolding s2_def body
    by (intro pkt_loop_opt) (auto simp: ndn_tlv_step_def Let_def selectors_step_read simp del: length_tlv)
  have n3: "ndn_pkt_loop m (?p2, length (?no @ ?lt @ ?sc)) s2 = ndn_pkt_loop m (?p3, length (?lt @ ?sc)) s3"
    using at small unfolding s3_def body
    by (intro pkt_loop_one) (auto simp: ndn_tlv_step_def at_pos_slice add.assoc)
  have n4: "ndn_pkt_loop m (?p3, length (?lt @ ?sc)) s3 = ndn_pkt_loop m (?p4, length ?sc) s4"
    using at small unfolding s4_def body
    by (intro pkt_loop_opt) (auto simp: ndn_tlv_step_def nonNegInt_read add.assoc)
  have n5: "ndn_pkt_loop m (?p4, length ?sc) s4 = ndn_pkt_loop m (?p4 + length ?sc, 0) s5"
    using at small unfolding s5_def body
    by (intro pkt_loop_opt) (auto simp: ndn_tlv_step_def nonNegInt_read add.assoc)
  have "?p4 + length ?sc = p + length body" unfolding body by (simp del: length_tlv)
  moreover have "s5 = s1\<lparr>np_detail := interest_detail scope opts\<rparr>"
    by (simp add: s5_def s4_def s3_def s2_def s1_def interest_detail_def ndn_parse_init_def)
  ultimately show ?thesis
    using n1 n2 n3 n4 n5 by (simp only: s1_def)
qed

section \<open>Data\<close>

lemma wsub_self [simp]: "wsub a a = 0"
  by (simp add: wsub_def)

lemma sint_ucast_u32: "0 \<le> sint (ucast (n :: u32) :: u64)"
proof -
  have "\<not> bit (ucast n :: u64) 63" using bit_imp_le_length[of n 63] by (auto simp: bit_simps)
  then show ?thesis by (simp add: sint_uint signed_take_bit_eq_if_positive bit_uint_iff)
qed

definition meta_fresh :: "ndn_data_opts \<Rightarrow> bytes" where
  "meta_fresh opts = (if do_freshnessperiod opts \<noteq> 0
     then tlv NDN_TLV_FreshnessPeriod (nni_bytes (ucast (do_freshnessperiod opts))) else [])"

definition meta_final :: "ndn_data_opts \<Rightarrow> bytes" where
  "meta_final opts = (if do_finalblockid opts \<noteq> 0xffffffff
     then tlv NDN_TLV_FinalBlockId (tlv NDN_TLV_NameComponent
            (NDN_Marker_SegmentNumber # nni_bytes (ucast (do_finalblockid opts)))) else [])"

lemma metainfo_final_read:
  assumes "at_pos m p (meta_final opts)" and "length (meta_final opts) \<le> 0xffffffff"
  shows "metainfo_loop m (p, length (meta_final opts)) st =
    Inr (fst st, if do_finalblockid opts \<noteq> 0xffffffff then ucast (do_finalblockid opts) else snd st)"
proof (cases "do_finalblockid opts = 0xffffffff")
  case True
  then show ?thesis by (simp add: meta_final_def metainfo_loop.simps)
next
  case False
  let ?v = "NDN_Marker_SegmentNumber # nni_bytes (ucast (do_finalblockid opts))"
  let ?inner = "tlv NDN_TLV_NameComponent ?v"
  let ?h = "tl_bytes NDN_TLV_FinalBlockId (length ?inner)"
  let ?h1 = "tl_bytes NDN_TLV_NameComponent (length ?v)"
  have mf: "meta_final opts = tlv NDN_TLV_FinalBlockId ?inner" using False by (simp add: meta_final_def)
  have at: "at_pos m p ?h" "at_pos m (p + length ?h) ?h1" "at_pos m (p + length ?h + length ?h1) ?v"
    using assms(1) unfolding mf by simp_all
  have sz: "length ?h + (length ?h1 + length ?v) \<le> 0xffffffff" using assms(2) unfolding mf by simp
  have len: "length (meta_final opts) = length ?h + (length ?h1 + length ?v)" unfolding mf by simp
  have d1: "ccnl_ndntlv_dehead m (p, length (meta_final opts)) =
      Inr (Some (NDN_TLV_FinalBlockId, length ?inner), (p + length ?h, length ?h1 + length ?v))"
    using at sz unfolding len by (subst dehead_read) auto
  have d2: "ccnl_ndntlv_dehead m (p + length ?h, length ?h1 + length ?v) =
      Inr (Some (NDN_TLV_NameComponent, length ?v), (p + length ?h + length ?h1, length ?v))"
    using at sz by (subst dehead_read) auto
  have "wsub (length ?v) 1 = length (nni_bytes (ucast (do_finalblockid opts)))"
    using sz by (subst wsub_le) auto
  then have nn: "ccnl_ndntlv_nonNegInt m (p + length ?h + length ?h1 + 1) (wsub (length ?v) 1)
      = Inr (ucast (do_finalblockid opts))"
    using at(3) nonNegInt_read[of m "p + length ?h + length ?h1 + 1" "nni_bytes (ucast (do_finalblockid opts))"]
    by (simp add: at_pos_Cons)
  have "metainfo_loop m (p + length ?h + length ?h1 + length ?v, wsub (length ?v) (length ?v))
      (fst st, ucast (do_finalblockid opts)) = Inr (fst st, ucast (do_finalblockid opts))"
    by (simp add: metainfo_loop.simps)
  then show ?thesis
    using False d1 d2 nn sint_ucast_u32[of "do_finalblockid opts"] len
    by (subst metainfo_loop.simps) (simp del: length_tlv)
qed

lemma metainfo_read:
  assumes at: "at_pos m p (meta_fresh opts @ meta_final opts)"
    and sz: "length (meta_fresh opts @ meta_final opts) \<le> 0xffffffff"
  shows "metainfo_loop m (p, length (meta_fresh opts @ meta_final opts)) (0, v) =
    Inr (ucast (do_freshnessperiod opts),
      if do_finalblockid opts \<noteq> 0xffffffff then ucast (do_finalblockid opts) else v)"
proof (cases "do_freshnessperiod opts = 0")
  case True
  then show ?thesis
    using assms metainfo_final_read[of m p opts "(0, v)"] by (simp add: meta_fresh_def)
next
  case False
  let ?v = "nni_bytes (ucast (do_freshnessperiod opts))"
  let ?h = "tl_bytes NDN_TLV_FreshnessPeriod (length ?v)"
  let ?k = "length (meta_final opts)"
  have mf: "meta_fresh opts = tlv NDN_TLV_FreshnessPeriod ?v" using False by (simp add: meta_fresh_def)
  have len: "length (meta_fresh opts @ meta_final opts) = length ?h + (length ?v + ?k)" unfolding mf by simp
  have d1: "ccnl_ndntlv_dehead m (p, length ?h + (length ?v + ?k)) =
      Inr (Some (NDN_TLV_FreshnessPeriod, length ?v), (p + length ?h, length ?v + ?k))"
    using at sz unfolding mf by (subst dehead_read[of _ _ NDN_TLV_FreshnessPeriod "length ?v"]) auto
  have nn: "ccnl_ndntlv_nonNegInt m (p + length ?h) (length ?v) = Inr (ucast (do_freshnessperiod opts))"
    using at unfolding mf by (subst nonNegInt_read[of _ _ ?v]) simp_all
  have w: "wsub (length ?v + ?k) (length ?v) = ?k"
    using sz unfolding mf by (subst wsub_le) auto
  have "metainfo_loop m (p + length ?h + length ?v, ?k) (ucast (do_freshnessperiod opts), v) =
      Inr (ucast (do_freshnessperiod opts),
        if do_finalblockid opts \<noteq> 0xffffffff then ucast (do_finalblockid opts) else v)"
    using at sz unfolding mf by (subst metainfo_final_read) (simp_all add: add.assoc)
  moreover have "length ?v \<noteq> 0" using length_nni_bytes[of "ucast (do_freshnessperiod opts)"] by linarith
  ultimately show ?thesis
    using d1 nn w unfolding len by (subst metainfo_loop.simps) simp
qed

definition data_detail :: "ndn_data_opts option \<Rightarrow> ndn_detail" where
  "data_detail opts = (np_detail (ndn_parse_init NDN_TLV_Data))\<lparr>
     nd_freshnessperiod := (case opts of None \<Rightarrow> 0 | Some opts \<Rightarrow> ucast (do_freshnessperiod opts))\<rparr>"

text \<open>\<open>val.final_block_id\<close>: -1 when no final block is announced.\<close>

definition data_final :: "ndn_data_opts option \<Rightarrow> u64" where
  "data_final opts = (case opts of None \<Rightarrow> -1
     | Some opts \<Rightarrow> if do_finalblockid opts \<noteq> 0xffffffff then ucast (do_finalblockid opts) else -1)"

definition metainfo_val :: "ndn_data_opts option \<Rightarrow> bytes" where
  "metainfo_val opts = (case opts of None \<Rightarrow> [] | Some opts \<Rightarrow> meta_fresh opts @ meta_final opts)"

lemma metainfo_bytes_tlv: "metainfo_bytes opts = tlv NDN_TLV_MetaInfo (metainfo_val opts)"
  by (simp add: metainfo_bytes_def metainfo_val_def meta_fresh_def meta_final_def split: option.split)

lemma metainfo_step_read:
  fixes opts :: "ndn_data_opts option"
  defines "v \<equiv> metainfo_val opts"
  assumes "at_pos m q v" and "length v \<le> 0xffffffff"
    and "nd_freshnessperiod (np_detail s) = 0" and "np_val s = -1"
  shows "ndn_tlv_step m oldpos NDN_TLV_MetaInfo (length v) q s =
    Inr (s\<lparr>np_detail := (np_detail s)\<lparr>nd_freshnessperiod := nd_freshnessperiod (data_detail opts)\<rparr>,
      np_val := data_final opts\<rparr>)"
proof (cases opts)
  case None
  then show ?thesis using assms(4,5)
    by (simp add: v_def metainfo_val_def ndn_tlv_step_def metainfo_loop.simps data_detail_def data_final_def
        ndn_parse_init_def)
next
  case (Some o1)
  then have v: "v = meta_fresh o1 @ meta_final o1" by (simp add: v_def metainfo_val_def)
  have "metainfo_loop m (q, length v) (0, -1) = Inr (ucast (do_freshnessperiod o1),
      if do_finalblockid o1 \<noteq> 0xffffffff then ucast (do_finalblockid o1) else -1)"
    using assms(2,3) unfolding v by (intro metainfo_read) auto
  then show ?thesis
    using Some assms(4,5) by (simp add: ndn_tlv_step_def data_detail_def data_final_def)
qed

lemma siginfo_step_read:
  assumes "at_pos m q (tlv NDN_TLV_SignatureType [NDN_VAL_SIGTYPE_DIGESTSHA256])"
  shows "siginfo_loop m (q, length (tlv NDN_TLV_SignatureType [NDN_VAL_SIGTYPE_DIGESTSHA256])) h = Inr h"
proof -
  let ?h = "tl_bytes NDN_TLV_SignatureType 1"
  have at: "at_pos m q ?h" "rd m (q + length ?h) = Inr NDN_VAL_SIGTYPE_DIGESTSHA256"
    using assms by (simp_all add: at_pos_Cons)
  have "ccnl_ndntlv_dehead m (q, length ?h + 1) = Inr (Some (NDN_TLV_SignatureType, 1), (q + length ?h, 1))"
    using at by (subst dehead_read[of _ _ NDN_TLV_SignatureType 1]) auto
  moreover have "siginfo_loop m (q + length ?h + 1, wsub 1 1) h = Inr h"
    by (subst siginfo_loop.simps) simp
  ultimately show ?thesis
    using at by (subst siginfo_loop.simps) simp
qed

definition data_body_bytes :: "prefix \<Rightarrow> bytes \<Rightarrow> ndn_data_opts option \<Rightarrow> bytes" where
  "data_body_bytes name payload opts =
    name_bytes name @ metainfo_bytes opts @ tlv NDN_TLV_Content payload @ signature_bytes"

definition data_content_pos :: "prefix \<Rightarrow> bytes \<Rightarrow> ndn_data_opts option \<Rightarrow> nat" where
  "data_content_pos name payload opts = length (name_bytes name) + length (metainfo_bytes opts)
     + length (tl_bytes NDN_TLV_Content (length payload))"

lemma data_loop:
  fixes name :: prefix and payload :: bytes and opts :: "ndn_data_opts option"
  defines "body \<equiv> data_body_bytes name payload opts"
  assumes at: "at_pos m p body" and ok: "ndn_name_ok name"
    and small: "length body \<le> 0xffffffff"
  shows "ndn_pkt_loop m (p, length body) (ndn_parse_init NDN_TLV_Data) =
    ndn_pkt_loop m (p + length body, 0) ((ndn_parse_init NDN_TLV_Data)\<lparr>
      np_name := Some (comp_offs (p + length (name_head name)) (wire_comps name), chunk_after (wire_comps name) None),
      np_val := data_final opts, np_nameptr := p, np_namelen := length (name_head name),
      np_detail := data_detail opts, np_content := Some (p + data_content_pos name payload opts),
      np_contlen := length payload\<rparr>)"
proof -
  let ?nm = "name_bytes name" let ?mi = "metainfo_bytes opts" let ?co = "tlv NDN_TLV_Content payload"
  let ?st = "tlv NDN_TLV_SignatureType [NDN_VAL_SIGTYPE_DIGESTSHA256]"
  let ?si = "tlv NDN_TLV_SignatureInfo ?st" let ?sv = "tlv NDN_TLV_SignatureValue []"
  define s1 where "s1 = (ndn_parse_init NDN_TLV_Data)\<lparr>
      np_name := Some (comp_offs (p + length (name_head name)) (wire_comps name), chunk_after (wire_comps name) None),
      np_val := -1, np_nameptr := p, np_namelen := length (name_head name)\<rparr>"
  define s2 where "s2 = s1\<lparr>np_detail := data_detail opts, np_val := data_final opts\<rparr>"
  define s3 where "s3 = s2\<lparr>np_content := Some (p + data_content_pos name payload opts), np_contlen := length payload\<rparr>"
  have body: "body = ?nm @ ?mi @ ?co @ ?si @ ?sv"
    by (simp only: body_def data_body_bytes_def signature_bytes_def append_assoc)
  let ?p1 = "p + length ?nm" let ?p2 = "?p1 + length ?mi" let ?p3 = "?p2 + length ?co"
  let ?p4 = "?p3 + length ?si"
  have nb: "?nm = tlv NDN_TLV_Name (concat (map (tlv NDN_TLV_NameComponent) (wire_comps name)))"
    by (simp add: name_bytes_def wire_comps_def)
  have n1: "ndn_pkt_loop m (p, length body) (ndn_parse_init NDN_TLV_Data) =
      ndn_pkt_loop m (?p1, length (?mi @ ?co @ ?si @ ?sv)) s1"
    using at small name_step_read[of m p name "ndn_parse_init NDN_TLV_Data"] ok
    unfolding nb s1_def body
    by (intro pkt_loop_one) (simp_all add: nb name_head_def ndn_parse_init_def)
  have s2: "s2 = s1\<lparr>np_detail := (np_detail s1)\<lparr>nd_freshnessperiod := nd_freshnessperiod (data_detail opts)\<rparr>,
      np_val := data_final opts\<rparr>"
    by (simp add: s2_def s1_def data_detail_def ndn_parse_init_def)
  have n2: "ndn_pkt_loop m (?p1, length (?mi @ ?co @ ?si @ ?sv)) s1 = ndn_pkt_loop m (?p2, length (?co @ ?si @ ?sv)) s2"
    using at small unfolding s2 body metainfo_bytes_tlv
    by (intro pkt_loop_one metainfo_step_read) (simp_all add: s1_def ndn_parse_init_def)
  have n3: "ndn_pkt_loop m (?p2, length (?co @ ?si @ ?sv)) s2 = ndn_pkt_loop m (?p3, length (?si @ ?sv)) s3"
    using at small unfolding s3_def body
    by (intro pkt_loop_one) (simp_all add: ndn_tlv_step_def data_content_pos_def add.assoc)
  have n4: "ndn_pkt_loop m (?p3, length (?si @ ?sv)) s3 = ndn_pkt_loop m (?p4, length ?sv) s3"
    using at small siginfo_step_read[of m "?p3 + length (tl_bytes NDN_TLV_SignatureInfo (length ?st))" "np_hmac s3"]
    unfolding body
    by (intro pkt_loop_one) (simp_all add: ndn_tlv_step_def add.assoc)
  have n5: "ndn_pkt_loop m (?p4, length ?sv) s3 = ndn_pkt_loop m (?p4 + length ?sv, 0) s3"
    using at small unfolding body
    by (intro pkt_loop_one) (simp_all add: ndn_tlv_step_def add.assoc)
  have e: "?p4 + length ?sv = p + length body" unfolding body by (simp del: length_tlv)
  have "s3 = (ndn_parse_init NDN_TLV_Data)\<lparr>
      np_name := Some (comp_offs (p + length (name_head name)) (wire_comps name), chunk_after (wire_comps name) None),
      np_val := data_final opts, np_nameptr := p, np_namelen := length (name_head name),
      np_detail := data_detail opts, np_content := Some (p + data_content_pos name payload opts),
      np_contlen := length payload\<rparr>"
    by (simp add: s3_def s2_def s1_def)
  then show ?thesis using n1 n2 n3 n4 n5 by (simp only: e)
qed

section \<open>Whole packets\<close>

lemma pkt_loop_end_Oob: "length m \<le> p \<Longrightarrow> ndn_pkt_loop m (p, 0) s = Inl Oob"
  by (simp add: ndn_pkt_loop.simps ccnl_ndntlv_dehead_def ccnl_ndntlv_varlenint_def)

lemma slices_name:
  assumes "at_pos m p (name_bytes name)" and "p + length (name_bytes name) \<le> q"
  shows "slices (take q m) (comp_offs (p + length (name_head name)) (wire_comps name)) = Inr (wire_comps name)"
proof -
  have nb: "name_bytes name = tlv NDN_TLV_Name (concat (map (tlv NDN_TLV_NameComponent) (wire_comps name)))"
    by (simp add: name_bytes_def wire_comps_def)
  have "at_pos (take q m) p (name_bytes name)" using assms by (intro at_pos_take)
  then show ?thesis unfolding nb by (intro slices_comp_offs) (simp add: name_head_def)
qed

text \<open>The packet the parser builds from the bytes \<open>b\<close> of an Interest whose head is \<open>h\<close>
  bytes long.\<close>

definition parsed_interest :: "prefix \<Rightarrow> int \<Rightarrow> ndn_interest_opts \<Rightarrow> nat \<Rightarrow> bytes \<Rightarrow> pkt" where
  "parsed_interest name scope opts h b = \<lparr>pkt_buf = Some b, pkt_pfx = Some (parsed_name name h),
     pkt_content = None, pkt_contlen = 0, pkt_type = NDN_TLV_Interest, pkt_val = -1,
     pkt_s = Ndn_detail (interest_detail scope opts), pkt_hmacLen = 0, pkt_hmacSignature = None,
     pkt_flags = CCNL_PKT_REQUEST, pkt_suite = CCNL_SUITE_NDNTLV\<rparr>"

definition parsed_data :: "prefix \<Rightarrow> bytes \<Rightarrow> ndn_data_opts option \<Rightarrow> nat \<Rightarrow> bytes \<Rightarrow> pkt" where
  "parsed_data name payload opts h b = \<lparr>pkt_buf = Some b, pkt_pfx = Some (parsed_name name h),
     pkt_content = Some (h + data_content_pos name payload opts), pkt_contlen = length payload,
     pkt_type = NDN_TLV_Data, pkt_val = data_final opts, pkt_s = Ndn_detail (data_detail opts),
     pkt_hmacLen = 0, pkt_hmacSignature = None, pkt_flags = CCNL_PKT_REPLY,
     pkt_suite = CCNL_SUITE_NDNTLV\<rparr>"

lemma head_read:
  assumes "at_pos m 0 (tlv t v)" and "t \<le> 0xffffffff" and "length (tlv t v) \<le> 0xffffffff"
  shows "ccnl_ndntlv_dehead m (0, length (tlv t v)) =
    Inr (Some (t, length v), (length (tl_bytes t (length v)), length v))"
  using assms by (subst dehead_read[of _ _ t "length v"]) auto

lemma interest_decode:
  assumes "at_pos m 0 (interest_bytes name scope opts)" and "ndn_name_ok name"
    and "length (interest_bytes name scope opts) < length m"
    and "length (interest_bytes name scope opts) \<le> 0xffffffff"
  shows "\<exists>h n. ccnl_ndntlv_dehead m (0, length (interest_bytes name scope opts)) =
      Inr (Some (NDN_TLV_Interest, n), (h, n))
    \<and> ccnl_ndntlv_bytes2pkt NDN_TLV_Interest m (h, n) =
      Inr (parsed_interest name scope opts h (interest_bytes name scope opts),
        (length (interest_bytes name scope opts), 0))"
proof -
  let ?v = "interest_body_bytes name scope opts"
  let ?h = "tl_bytes NDN_TLV_Interest (length ?v)"
  have ib: "interest_bytes name scope opts = tlv NDN_TLV_Interest ?v"
    by (simp only: interest_bytes_def interest_body_bytes_def)
  have body: "at_pos m (length ?h) ?v" using assms(1) unfolding ib by simp
  have nm: "at_pos m (length ?h) (name_bytes name)" and "length (name_bytes name) \<le> length ?v"
    using body by (simp_all add: interest_body_bytes_def)
  then have sl: "slices (take (length ?h + length ?v) m) (comp_offs (length ?h + length (name_head name)) (wire_comps name))
      = Inr (wire_comps name)"
    by (intro slices_name) auto
  have "take (length ?h + length ?v) m = interest_bytes name scope opts"
    using assms(1) unfolding ib at_pos_def by simp
  moreover have "length ?h + length ?v \<le> length m" using assms(3) unfolding ib by simp
  moreover have "ndn_pkt_loop m (length ?h, length ?v) (ndn_parse_init NDN_TLV_Interest) =
    Inr ((length ?h + length ?v, 0), (ndn_parse_init NDN_TLV_Interest)\<lparr>
      np_name := Some (comp_offs (length ?h + length (name_head name)) (wire_comps name), chunk_after (wire_comps name) None),
      np_val := -1, np_nameptr := length ?h, np_namelen := length (name_head name),
      np_detail := interest_detail scope opts\<rparr>)"
    using assms body unfolding ib by (subst interest_loop) (auto intro: pkt_loop_end)
  ultimately have "ccnl_ndntlv_bytes2pkt NDN_TLV_Interest m (length ?h, length ?v) =
      Inr (parsed_interest name scope opts (length ?h) (interest_bytes name scope opts), (length ?h + length ?v, 0))"
    using sl by (simp add: ccnl_ndntlv_bytes2pkt_def slice_def parsed_interest_def parsed_name_def ndn_parse_init_def)
  then show ?thesis
    using head_read[of m NDN_TLV_Interest ?v] assms unfolding ib by (intro exI[of _ "length ?h"] exI[of _ "length ?v"]) simp
qed

lemma data_decode:
  assumes "at_pos m 0 (data_bytes name payload opts)" and "ndn_name_ok name"
    and "length (data_bytes name payload opts) < length m"
    and "length (data_bytes name payload opts) \<le> 0xffffffff"
  shows "\<exists>h n. ccnl_ndntlv_dehead m (0, length (data_bytes name payload opts)) =
      Inr (Some (NDN_TLV_Data, n), (h, n))
    \<and> ccnl_ndntlv_bytes2pkt NDN_TLV_Data m (h, n) =
      Inr (parsed_data name payload opts h (data_bytes name payload opts),
        (length (data_bytes name payload opts), 0))
    \<and> slice (data_bytes name payload opts) (h + data_content_pos name payload opts) (length payload) = Inr payload"
proof -
  let ?v = "data_body_bytes name payload opts"
  let ?h = "tl_bytes NDN_TLV_Data (length ?v)"
  have ib: "data_bytes name payload opts = tlv NDN_TLV_Data ?v"
    by (simp only: data_bytes_def data_body_bytes_def)
  have body: "at_pos m (length ?h) ?v" using assms(1) unfolding ib by simp
  have nm: "at_pos m (length ?h) (name_bytes name)" and "length (name_bytes name) \<le> length ?v"
    using body by (simp_all add: data_body_bytes_def)
  then have sl: "slices (take (length ?h + length ?v) m) (comp_offs (length ?h + length (name_head name)) (wire_comps name))
      = Inr (wire_comps name)"
    by (intro slices_name) auto
  have tk: "take (length ?h + length ?v) m = data_bytes name payload opts"
    using assms(1) unfolding ib at_pos_def by simp
  moreover have "length ?h + length ?v \<le> length m" using assms(3) unfolding ib by simp
  moreover have "ndn_pkt_loop m (length ?h, length ?v) (ndn_parse_init NDN_TLV_Data) =
    Inr ((length ?h + length ?v, 0), (ndn_parse_init NDN_TLV_Data)\<lparr>
      np_name := Some (comp_offs (length ?h + length (name_head name)) (wire_comps name), chunk_after (wire_comps name) None),
      np_val := data_final opts, np_nameptr := length ?h, np_namelen := length (name_head name),
      np_detail := data_detail opts, np_content := Some (length ?h + data_content_pos name payload opts),
      np_contlen := length payload\<rparr>)"
    using assms body unfolding ib by (subst data_loop) (auto intro: pkt_loop_end)
  ultimately have p: "ccnl_ndntlv_bytes2pkt NDN_TLV_Data m (length ?h, length ?v) =
      Inr (parsed_data name payload opts (length ?h) (data_bytes name payload opts), (length ?h + length ?v, 0))"
    using sl by (simp add: ccnl_ndntlv_bytes2pkt_def slice_def parsed_data_def parsed_name_def ndn_parse_init_def)
  have "at_pos (take (length ?h + length ?v) m) (length ?h) ?v"
    using body by (intro at_pos_take) auto
  then have "slice (data_bytes name payload opts) (length ?h + data_content_pos name payload opts) (length payload) = Inr payload"
    unfolding tk by (intro at_pos_slice) (simp_all add: data_body_bytes_def data_content_pos_def add.assoc)
  with p show ?thesis
    using head_read[of m NDN_TLV_Data ?v] assms unfolding ib by (intro exI[of _ "length ?h"] exI[of _ "length ?v"]) simp
qed

end
