(* ===== verification/Ndntlv.thy ===== *)
theory Ndntlv
  imports Ndntlv_Round
begin

text \<open>
  The properties of the NDN packet format: round trips of Interests and Data through the code's
  encoder and decoder, what a successful parse guarantees about the bounds of what it returns, and
  the places where the code leaves its buffer or its format.
\<close>

section \<open>Bounds of what a successful parse produces\<close>

lemma bit_be_val: "bit (be_val bs) i \<Longrightarrow> i < 8 * length bs"
proof (induction bs arbitrary: i rule: rev_induct)
  case Nil
  then show ?case by simp
next
  case (snoc b bs)
  then show ?case
    using bit_imp_le_length[of b i] by (fastforce simp: bit_or_iff bit_push_bit_iff bit_ucast_iff)
qed

lemma unat_be_val_less: "length bs \<le> k \<Longrightarrow> unat (be_val bs) < 2 ^ (8 * k)"
proof -
  assume "length bs \<le> k"
  then have "take_bit (8 * k) (be_val bs) = be_val bs"
    by (intro bit_word_eqI) (auto simp: bit_simps dest: bit_be_val)
  then have "unat (be_val bs) = take_bit (8 * k) (unat (be_val bs))"
    by (metis unsigned_take_bit_eq)
  then show ?thesis by (metis take_bit_nat_less_exp)
qed

lemma varlenint_less: "ccnl_ndntlv_varlenint m (p, n) = Inr (Some v, c) \<Longrightarrow> unat v < 2 ^ 32"
proof -
  assume h: "ccnl_ndntlv_varlenint m (p, n) = Inr (Some v, c)"
  then consider b where "v = ucast (b :: byte)" | bs where "v = be_val bs" "length bs \<le> 4"
    by (auto simp: ccnl_ndntlv_varlenint_def bindE_eq_Inr_iff slice_eq_Inr_iff split: if_splits)
  then show ?thesis
  proof cases
    case (1 b)
    then show ?thesis
      using unsigned_less[of b, where ?'a = nat] by (simp add: unsigned_ucast_eq take_bit_nat_eq_self)
  next
    case (2 bs)
    then show ?thesis using unat_be_val_less[of bs 4] by simp
  qed
qed

lemma dehead_less:
  "ccnl_ndntlv_dehead m (p, n) = Inr (Some (t, l), c) \<Longrightarrow> l < 2 ^ 32"
  by (auto simp: ccnl_ndntlv_dehead_def bindE_eq_Inr_iff Let_def split: option.splits if_splits
      dest!: varlenint_less)

text \<open>A nested loop that ends successfully has not let its length wrap: afterwards the cursor
  would be \<open>2 ^ 64\<close> bytes away from the end it looks for.\<close>

lemma wsub_cases:
  assumes "a < 2 ^ 64" and "b < 2 ^ 64"
  obtains "b \<le> a" and "wsub a b = a - b" | "a < b" and "wsub a b = a + 2 ^ 64 - b"
  using assms wsub_le[of b a] wsub_wrap[of a b] by (cases "b \<le> a") force+

definition offs_in :: "nat \<Rightarrow> nat \<Rightarrow> (nat \<times> nat) list \<Rightarrow> bool" where
  "offs_in lo hi cs \<longleftrightarrow> (\<forall>(o1, l)\<in>set cs. lo \<le> o1 \<and> o1 + l \<le> hi)"

lemma name_comp_step_offs:
  "name_comp_step m cp i (cs, ch) = Inr (cs', ch') \<Longrightarrow> cs' = cs @ [(cp, i)]"
  by (auto simp: name_comp_step_def bindE_eq_Inr_iff split: if_splits)

lemma loop_arith:
  assumes "p + n = cp + len2" and "i < 2 ^ 32" and "cp \<le> L" and "L < 2 ^ 63" and "len2 < 2 ^ 64"
    and "wsub len2 i = 0 \<or> cp + i + wsub len2 i \<le> L + 2 ^ 32"
  shows "p + n \<le> L + 2 ^ 32 \<and> cp + i + wsub len2 i = p + n"
  using assms by (rule_tac wsub_cases[of len2 i]) auto

lemma name_loop_extent:
  "name_loop m cur st = Inr st' \<Longrightarrow> snd cur < 2 ^ 64 \<Longrightarrow> length m < 2 ^ 63 \<Longrightarrow>
    (snd cur = 0 \<or> fst cur + snd cur \<le> length m + 2 ^ 32)
    \<and> (offs_in 0 (fst cur + snd cur) (fst st) \<longrightarrow> offs_in 0 (fst cur + snd cur) (fst st'))"
proof (induction m cur st rule: name_loop.induct)
  case (1 m cur st)
  obtain p n where cur: "cur = (p, n)" by (cases cur)
  show ?case
  proof (cases "n = 0")
    case True
    then show ?thesis using 1 cur by (simp add: name_loop.simps)
  next
    case False
    let ?step = "\<lambda>ty cp i. if ty = NDN_TLV_NameComponent \<and> length (fst st) < CCNL_MAX_NAME_COMP
                  then name_comp_step m cp i st else Inr st"
    from False "1.prems"(1) obtain ty i cp len2 st1 where
      hd: "ccnl_ndntlv_dehead m (p, n) = Inr (Some (ty, i), (cp, len2))" and
      st1: "?step ty cp i = Inr st1" and
      nxt: "name_loop m (cp + i, wsub len2 i) st1 = Inr st'"
      by (subst (asm) name_loop.simps)
        (auto simp: cur bindE_eq_Inr_iff split: sum.splits option.splits prod.splits)
    have pr: "p + n = cp + len2" "cp \<le> length m" "i < 2 ^ 32" "len2 < 2 ^ 64"
      using dehead_progress[OF hd] dehead_less[OF hd] "1.prems"(2) cur by auto
    have IH: "(wsub len2 i = 0 \<or> cp + i + wsub len2 i \<le> length m + 2 ^ 32)
      \<and> (offs_in 0 (cp + i + wsub len2 i) (fst st1) \<longrightarrow> offs_in 0 (cp + i + wsub len2 i) (fst st'))"
      using "1.IH"[OF _ hd[folded cur] refl refl refl refl st1 nxt] False cur "1.prems"(3)
      by (simp add: wsub_less[simplified])
    have e: "p + n \<le> length m + 2 ^ 32 \<and> cp + i + wsub len2 i = p + n"
      using pr IH "1.prems"(3) by (intro loop_arith[of p n cp len2 i "length m"]) auto
    moreover have "cp + i \<le> p + n" using e by linarith
    then have "offs_in 0 (p + n) (fst st) \<Longrightarrow> offs_in 0 (p + n) (fst st1)"
      using st1 by (cases st; cases st1) (auto simp: offs_in_def dest!: name_comp_step_offs split: if_splits)
    ultimately show ?thesis using IH cur by auto
  qed
qed


text \<open>What the packet loop has taken so far lies in front of \<open>b\<close>.\<close>

definition parse_inside :: "nat \<Rightarrow> ndn_parse \<Rightarrow> bool" where
  "parse_inside b s \<longleftrightarrow> (case np_name s of None \<Rightarrow> True | Some (cs, ch) \<Rightarrow> offs_in 0 b cs)
     \<and> (case np_content s of None \<Rightarrow> True | Some c \<Rightarrow> c + np_contlen s \<le> b)
     \<and> (case np_hmacSignature s of None \<Rightarrow> True | Some h \<Rightarrow> h + 32 \<le> b \<and> np_hmacLen s \<le> b)"

lemma offs_in_mono: "offs_in lo b cs \<Longrightarrow> b \<le> b' \<Longrightarrow> offs_in lo b' cs"
  by (fastforce simp: offs_in_def)

lemma parse_inside_mono: "parse_inside b s \<Longrightarrow> b \<le> b' \<Longrightarrow> parse_inside b' s"
  by (auto simp: parse_inside_def intro: offs_in_mono split: option.splits)

lemma tlv_step_frame:
  assumes "ndn_tlv_step m oldpos t l p s = Inr s'"
    and "t \<notin> {NDN_TLV_Name, NDN_TLV_Content, NDN_TLV_NdnlpFragment, NDN_TLV_SignatureValue}"
  shows "np_name s' = np_name s \<and> np_content s' = np_content s \<and> np_contlen s' = np_contlen s
      \<and> np_hmacSignature s' = np_hmacSignature s \<and> np_hmacLen s' = np_hmacLen s"
proof (cases "t = NDN_TLV_Frag_BeginEndFields")
  case True
  then obtain f v where "s' = s\<lparr>np_flags := f, np_val := v\<rparr>"
    using assms(1) by (fastforce simp: ndn_tlv_step_def Let_def bindE_eq_Inr_iff)
  then show ?thesis by simp
next
  case False
  then show ?thesis
    using assms unfolding ndn_tlv_step_def Let_def
    by (simp add: bindE_eq_Inr_iff split: if_split_asm; clarsimp)
qed

lemma tlv_step_inside:
  assumes step: "ndn_tlv_step m oldpos t l p s = Inr s'" and ins: "parse_inside (p + l) s"
    and pos: "oldpos \<le> p" and l: "l < 2 ^ 64" and m: "length m < 2 ^ 63"
  shows "parse_inside (p + l) s'"
proof -
  consider "t = NDN_TLV_Name" | "t = NDN_TLV_Content \<or> t = NDN_TLV_NdnlpFragment" | "t = NDN_TLV_SignatureValue"
    | "t \<notin> {NDN_TLV_Name, NDN_TLV_Content, NDN_TLV_NdnlpFragment, NDN_TLV_SignatureValue}" by blast
  then show ?thesis
  proof cases
    case 1
    with step obtain nm where nm: "name_loop m (p, l) ([], None) = Inr nm"
      and s': "s' = s\<lparr>np_name := Some nm, np_val := -1, np_nameptr := oldpos, np_namelen := p - oldpos\<rparr>"
      by (auto simp: ndn_tlv_step_def bindE_eq_Inr_iff split: if_split_asm)
    have "offs_in 0 (p + l) (fst nm)"
      using name_loop_extent[OF nm] l m by (simp add: offs_in_def)
    then show ?thesis using ins s' by (cases nm) (auto simp: parse_inside_def split: option.splits)
  next
    case 2
    then have "s' = s\<lparr>np_content := Some p, np_contlen := l\<rparr>"
      using step by (auto simp: ndn_tlv_step_def)
    then show ?thesis using ins by (auto simp: parse_inside_def split: option.splits)
  next
    case 3
    then have "s' = s \<or> l = 32 \<and> s' = s\<lparr>np_hmacLen := oldpos, np_hmacSignature := Some p\<rparr>"
      using step by (simp add: ndn_tlv_step_def split: if_split_asm)
    then show ?thesis using ins pos by (auto simp: parse_inside_def split: option.splits)
  next
    case 4
    then show ?thesis using tlv_step_frame[OF step] ins by (auto simp: parse_inside_def split: option.splits)
  qed
qed

lemma varlenint_any:
  "ccnl_ndntlv_varlenint m (p, n) = Inr (r, (q, k)) \<Longrightarrow> q + k = p + n \<and> q \<le> length m"
  by (auto simp: ccnl_ndntlv_varlenint_def bindE_eq_Inr_iff rd_eq_Inr_iff slice_eq_Inr_iff split: if_split_asm)

lemma dehead_None_progress:
  assumes "ccnl_ndntlv_dehead m (p, n) = Inr (None, (q, k))"
  shows "q + k = p + n \<and> q \<le> length m"
proof -
  obtain r p1 n1 where 1: "ccnl_ndntlv_varlenint m (p, n) = Inr (r, (p1, n1))"
    and "r = None \<and> (p1, n1) = (q, k) \<or> (\<exists>r2. ccnl_ndntlv_varlenint m (p1, n1) = Inr (r2, (q, k)))"
    using assms by (fastforce simp: ccnl_ndntlv_dehead_def Let_def bindE_eq_Inr_iff
        split: option.split_asm if_split_asm)
  then show ?thesis using varlenint_any[OF 1] varlenint_any[of m p1 n1] by auto
qed

lemma pkt_loop_inside:
  "ndn_pkt_loop m cur s = Inr ((q, k), s') \<Longrightarrow> k = 0 \<Longrightarrow> snd cur < 2 ^ 64 \<Longrightarrow> length m < 2 ^ 63 \<Longrightarrow>
    fst cur + snd cur = q \<and> q \<le> length m \<and> (parse_inside (fst cur) s \<longrightarrow> parse_inside q s')"
proof (induction m cur s rule: ndn_pkt_loop.induct)
  case (1 m cur s)
  obtain p n where cur: "cur = (p, n)" by (cases cur)
  from "1.prems"(1) consider (stop) "ccnl_ndntlv_dehead m (p, n) = Inr (None, (q, k))" "s' = s"
    | (tlv) ty l cp n1 s1 where "ccnl_ndntlv_dehead m (p, n) = Inr (Some (ty, l), (cp, n1))"
        "ndn_tlv_step m p ty l cp s = Inr s1" "ndn_pkt_loop m (cp + l, wsub n1 l) s1 = Inr ((q, k), s')"
    by (subst (asm) ndn_pkt_loop.simps)
      (auto simp: cur bindE_eq_Inr_iff split: sum.splits option.splits prod.splits)
  then show ?case
  proof cases
    case stop
    then show ?thesis using dehead_None_progress[OF stop(1)] "1.prems"(2) cur parse_inside_mono[of p s q] by auto
  next
    case tlv
    have pr: "p + n = cp + n1" "cp \<le> length m" "l < 2 ^ 32" "n1 < 2 ^ 64" "p < cp"
      using dehead_progress[OF tlv(1)] dehead_less[OF tlv(1)] "1.prems"(3) cur by auto
    have IH: "cp + l + wsub n1 l = q \<and> q \<le> length m \<and> (parse_inside (cp + l) s1 \<longrightarrow> parse_inside q s')"
      using "1.IH"[OF tlv(1)[folded cur] refl refl refl refl _ _ "1.prems"(2) _ "1.prems"(4)] tlv(2,3) cur
      by (simp add: wsub_less[simplified])
    then have "p + n \<le> length m + 2 ^ 32 \<and> cp + l + wsub n1 l = p + n"
      using pr "1.prems"(4) by (intro loop_arith[of p n cp n1 l "length m"]) auto
    moreover have "parse_inside p s \<longrightarrow> parse_inside (cp + l) s1"
      using tlv_step_inside[OF tlv(2)] parse_inside_mono[of p s "cp + l"] pr "1.prems"(4) by auto
    ultimately show ?thesis using IH cur by simp
  qed
qed

lemma slices_inside: "offs_in 0 (length b) cs \<Longrightarrow> \<exists>xs. slices b cs = Inr xs"
  by (induction cs) (auto simp: offs_in_def slice_def)

lemma slices_sublist: "slices b cs = Inr xs \<Longrightarrow> c \<in> set xs \<Longrightarrow> sublist c b"
proof (induction cs arbitrary: xs)
  case (Cons a cs)
  have "sublist (take n (drop p b)) b" for n p
    using sublist_take sublist_drop sublist_order.order_trans by blast
  with Cons show ?case by (cases a) (auto simp: bindE_eq_Inr_iff slice_eq_Inr_iff)
qed simp

text \<open>The components of the finished packet never fail to lie in its buffer.\<close>

lemma bytes2pkt_no_late_Oob:
  assumes "ndn_pkt_loop m (p, n) (ndn_parse_init t) = Inr ((q, 0), s)"
    and "n < 2 ^ 64" and "length m < 2 ^ 63" and "t = NDN_TLV_Interest \<or> t = NDN_TLV_Data"
  shows "\<exists>pkt. ccnl_ndntlv_bytes2pkt t m (p, n) = Inr (pkt, (q, 0)) \<and> q = p + n
    \<and> pkt_buf pkt = Some (take q m) \<and> pkt_content pkt = np_content s \<and> pkt_contlen pkt = np_contlen s"
proof -
  have "parse_inside p (ndn_parse_init t)" by (simp add: parse_inside_def ndn_parse_init_def)
  then have q: "p + n = q" "q \<le> length m" and ins: "parse_inside q s"
    using pkt_loop_inside[OF assms(1)] assms by auto
  have "\<exists>pfx. (case np_name s of
             None \<Rightarrow> Inr None
           | Some (comps, chunk) \<Rightarrow> bindE (slices (take q m) comps) (\<lambda>cs.
               Inr (Some \<lparr>pfx_comp = cs, pfx_suite = CCNL_SUITE_NDNTLV, pfx_nameptr = Some (np_nameptr s),
                 pfx_namelen = np_namelen s, pfx_bytes = None, pfx_chunknum = chunk\<rparr>))) = Inr pfx"
  proof (cases "np_name s")
    case (Some nm)
    then obtain cs ch where "nm = (cs, ch)" "offs_in 0 q cs"
      using ins by (cases nm) (simp add: parse_inside_def)
    then show ?thesis using Some slices_inside[of "take q m" cs] q by auto
  qed simp
  then show ?thesis using assms q by (auto simp: ccnl_ndntlv_bytes2pkt_def slice_def)
qed

section \<open>The width of a number\<close>

lemma unat_nbytes: "unat v < 2 ^ (8 * nbytes v)"
proof -
  have "take_bit (8 * nbytes v) v = v"
    using bits_ident[of "8 * nbytes v" v] by (simp add: nbytes_cover)
  then have "unat v = take_bit (8 * nbytes v) (unat v)" by (metis unsigned_take_bit_eq)
  then show ?thesis by (metis take_bit_nat_less_exp)
qed

lemma nbytes_le_iff: "nbytes v \<le> n \<longleftrightarrow> unat v < 2 ^ (8 * n)"
proof
  assume "nbytes v \<le> n"
  then have "(2 :: nat) ^ (8 * nbytes v) \<le> 2 ^ (8 * n)" by (intro power_increasing) auto
  then show "unat v < 2 ^ (8 * n)" using unat_nbytes[of v] by linarith
next
  assume "unat v < 2 ^ (8 * n)"
  then show "nbytes v \<le> n" by (intro nbytes_le) (simp add: power_mult)
qed

lemma nni_width_std: "nni_width v \<in> {1, 2, 4, 8} \<longleftrightarrow> \<not> (2 ^ 32 \<le> v \<and> v < 2 ^ 48)"
proof -
  have "nni_width v = 7 \<longleftrightarrow> \<not> nbytes v \<le> 4 \<and> nbytes v \<le> 6"
    by (auto simp: nni_width_def Let_def)
  moreover have "nni_width v \<in> {1, 2, 4, 7, 8}" by (auto simp: nni_width_def Let_def)
  moreover have "2 ^ 32 \<le> v \<longleftrightarrow> \<not> nbytes v \<le> 4" "v < 2 ^ 48 \<longleftrightarrow> nbytes v \<le> 6"
    by (simp_all add: nbytes_le_iff word_le_nat_alt word_less_nat_alt not_less)
  ultimately show ?thesis by auto
qed

lemma nni_padding:
  assumes "8 \<le> off" and "off \<le> length buf"
  shows "\<exists>buf'. ccnl_ndntlv_prependNonNegIntVal v (off, buf) = Inr (off - nni_width v, buf')
    \<and> ccnl_ndntlv_nonNegInt buf' (off - nni_width v) (nni_width v) = Inr v"
proof -
  have w: "length (nni_bytes v) = nni_width v" by (simp add: nni_bytes_def)
  have le: "nni_width v \<le> 8" using length_nni_bytes[of v] by (simp add: w)
  obtain buf' where s: "splice (nni_bytes v) (off, buf) = (off - nni_width v, buf')"
    by (cases "splice (nni_bytes v) (off, buf)") (auto simp: splice_def w)
  then have "ccnl_ndntlv_prependNonNegIntVal v (off, buf) = Inr (off - nni_width v, buf')"
    using ndn_nni_val.fits[of v off buf] assms le w by simp
  moreover have "at_pos buf' (off - nni_width v) (nni_bytes v)"
    using s splice_read(2)[of "nni_bytes v" off buf] length_snd_splice[of "nni_bytes v" off buf] assms le w
    by (simp add: at_pos_def)
  ultimately show ?thesis using nonNegInt_read[of buf' _ "nni_bytes v"] w by auto
qed
section \<open>Properties\<close>

text \<open>The name, options and packet of the witnesses.\<close>

definition wit_name :: prefix where
  "wit_name = (ccnl_prefix_new 6 0)\<lparr>pfx_comp := [[0x61]], pfx_chunknum := Some 3\<rparr>"

definition wit_opts :: ndn_interest_opts where
  "wit_opts = \<lparr>io_nonce = 5, io_mustbefresh = 1, io_interestlifetime = 4000\<rparr>"

definition wit_interest :: bytes where
  "wit_interest = [5, 26, 7, 7, 8, 1, 97, 8, 2, 0, 3, 9, 2, 18, 0, 10, 4, 5, 0, 0, 0, 12, 2, 15, 160, 11, 1, 1]"


definition wit_data :: bytes where
  "wit_data = [6, 32, 7, 7, 8, 1, 97, 8, 2, 0, 3, 20, 9, 25, 1, 9, 26, 4, 8, 2, 0, 7, 21, 3, 1, 2, 3,
     22, 3, 27, 1, 0, 23, 0]"

text \<open>
  C8. An Interest composed by \<open>ccnl_ndntlv_prependInterest\<close> (any name the parser takes, any
  scope, nonce, lifetime and MustBeFresh) is parsed back by \<open>ccnl_ndntlv_dehead\<close> and
  \<open>ccnl_ndntlv_bytes2pkt\<close> to a packet with the same name, scope, nonce, lifetime and selector,
  from any receive buffer that holds at least one byte behind the packet.
\<close>

theorem ndn_interest_roundtrip:
  assumes "ccnl_ndntlv_prependInterest name scope opts (off, buf) = Inr ((off', buf'), len)"
    and "off \<le> length buf" and "ndn_name_ok name" and "len \<le> 0xffffffff" and "slack \<noteq> []"
  shows "\<exists>h n. ccnl_ndntlv_dehead (take len (drop off' buf') @ slack) (0, len) =
      Inr (Some (NDN_TLV_Interest, n), (h, n))
    \<and> ccnl_ndntlv_bytes2pkt NDN_TLV_Interest (take len (drop off' buf') @ slack) (h, n) =
      Inr (parsed_interest name scope opts h (take len (drop off' buf')), (len, 0))"
proof -
  let ?b = "interest_bytes name scope opts"
  have "scope \<le> 2" using assms(1) by (auto simp: prependInterest_eq split: if_splits)
  then have "length ?b \<le> off" "(off', buf') = splice ?b (off, buf)" "len = length ?b"
    using assms(1,2) by (auto simp: prependInterest_spec split: if_splits)
  then have "take len (drop off' buf') = ?b" and "len = length ?b"
    using splice_read(2)[of ?b off buf] assms(2) by (auto simp: splice_def)
  moreover have "at_pos (?b @ slack) 0 ?b" by (simp add: at_pos_def)
  ultimately show ?thesis
    using interest_decode[of "?b @ slack" name scope opts] assms by simp
qed

theorem ndn_interest_roundtrip_witness:
  "\<exists>h n. ccnl_ndntlv_dehead (wit_interest @ [0]) (0, 28) = Inr (Some (NDN_TLV_Interest, n), (h, n))
    \<and> ccnl_ndntlv_bytes2pkt NDN_TLV_Interest (wit_interest @ [0]) (h, n) =
      Inr (parsed_interest wit_name 1 wit_opts h wit_interest, (28, 0))"
proof -
  have e: "ccnl_ndntlv_prependInterest wit_name 1 wit_opts (30, replicate 30 0xff) =
      Inr ((2, 0xff # 0xff # wit_interest), 28)" by code_simp
  have ok: "ndn_name_ok wit_name" by code_simp
  have t: "take 28 (drop 2 (0xff # 0xff # wit_interest)) = wit_interest" by code_simp
  show ?thesis using ndn_interest_roundtrip[OF e _ ok, of "[0]"] unfolding t by simp
qed

text \<open>
  C9. A Data packet composed by \<open>ccnl_ndntlv_prependContent\<close> is parsed back to a packet with
  the same name, freshness period and final block number, whose content pointer and length give
  exactly the payload; the position the composer reports in \<open>*contentpos\<close> is 7 bytes, the
  length of the signature fields, too far.
\<close>

theorem ndn_data_roundtrip:
  assumes "ccnl_ndntlv_prependContent name payload opts (off, buf) = Inr ((off', buf'), contentpos, len)"
    and "off \<le> length buf" and "ndn_name_ok name" and "len \<le> 0xffffffff" and "slack \<noteq> []"
    and "off < 2 ^ 64"
  shows "\<exists>h n c. ccnl_ndntlv_dehead (take len (drop off' buf') @ slack) (0, len) =
      Inr (Some (NDN_TLV_Data, n), (h, n))
    \<and> ccnl_ndntlv_bytes2pkt NDN_TLV_Data (take len (drop off' buf') @ slack) (h, n) =
      Inr (parsed_data name payload opts h (take len (drop off' buf')), (len, 0))
    \<and> pkt_content (parsed_data name payload opts h (take len (drop off' buf'))) = Some c
    \<and> slice (take len (drop off' buf')) c (length payload) = Inr payload
    \<and> contentpos = c + 7"
proof -
  let ?b = "data_bytes name payload opts"
  have h: "length ?b \<le> off" "(off', buf') = splice ?b (off, buf)" "len = length ?b"
    and cp: "contentpos = wsub (wsub off (length payload)) (off - length ?b)"
    using assms(1,2) by (auto simp: prependContent_spec Let_def split: if_splits)
  then have tk: "take len (drop off' buf') = ?b"
    using splice_read(2)[of ?b off buf] assms(2) by (auto simp: splice_def)
  have "at_pos (?b @ slack) 0 ?b" by (simp add: at_pos_def)
  then obtain hd1 n where d: "ccnl_ndntlv_dehead (?b @ slack) (0, len) = Inr (Some (NDN_TLV_Data, n), (hd1, n))"
    "ccnl_ndntlv_bytes2pkt NDN_TLV_Data (?b @ slack) (hd1, n) = Inr (parsed_data name payload opts hd1 ?b, (len, 0))"
    "slice ?b (hd1 + data_content_pos name payload opts) (length payload) = Inr payload"
    using data_decode[of "?b @ slack" name payload opts] assms h by auto
  have sig: "length signature_bytes = 7"
    by (simp add: signature_bytes_def tl_bytes_def varlen_bytes_def varlen_size_def)
  have n: "n = length (data_body_bytes name payload opts) \<and> len = hd1 + n"
    using d(1) dehead_progress[OF d(1)] head_read[of "?b @ slack" NDN_TLV_Data "data_body_bytes name payload opts"]
      assms(4) h \<open>at_pos (?b @ slack) 0 ?b\<close>
    by (simp add: data_bytes_def data_body_bytes_def)
  have "len = hd1 + data_content_pos name payload opts + length payload + 7"
    using n sig by (simp add: data_body_bytes_def data_content_pos_def)
  moreover have "wsub (wsub off (length payload)) (off - length ?b) = len - length payload"
    using calculation h assms(6) by (subst (2) wsub_le; simp add: wsub_le)
  ultimately have "contentpos = hd1 + data_content_pos name payload opts + 7" using cp by simp
  with d show ?thesis
    unfolding tk by (intro exI[of _ hd1] exI[of _ n] exI[of _ "hd1 + data_content_pos name payload opts"])
      (simp add: parsed_data_def)
qed

theorem ndn_data_roundtrip_witness:
  "\<exists>h n c. ccnl_ndntlv_bytes2pkt NDN_TLV_Data (wit_data @ [0]) (h, n) =
      Inr (parsed_data wit_name [1, 2, 3] (Some \<lparr>do_freshnessperiod = 9, do_finalblockid = 7\<rparr>) h wit_data, (34, 0))
    \<and> slice wit_data c 3 = Inr [1, 2, 3] \<and> 31 = c + 7"
proof -
  let ?o = "Some \<lparr>do_freshnessperiod = 9, do_finalblockid = 7\<rparr>"
  have e: "ccnl_ndntlv_prependContent wit_name [1, 2, 3] ?o (36, replicate 36 0xff) =
      Inr ((2, 0xff # 0xff # wit_data), 31, 34)" by code_simp
  have ok: "ndn_name_ok wit_name" by code_simp
  have l3: "length [1, 2, 3 :: byte] = 3" by simp
  have t: "take 34 (drop 2 (0xff # 0xff # wit_data)) = wit_data" by code_simp
  from ndn_data_roundtrip[OF e _ ok, of "[0]"]
  obtain h n c where "ccnl_ndntlv_bytes2pkt NDN_TLV_Data (wit_data @ [0]) (h, n) =
      Inr (parsed_data wit_name [1, 2, 3] ?o h wit_data, (34, 0))"
    "slice wit_data c 3 = Inr [1, 2, 3]" "31 = c + 7"
    unfolding t l3 by auto
  then show ?thesis by blast
qed



text \<open>
  C30. The parser reads behind the packet: a well-formed Interest in a buffer of exactly its
  length makes it read one byte past the end.
\<close>

theorem ndn_exact_buffer_overread:
  assumes "ndn_name_ok name" and "length (interest_bytes name scope opts) \<le> 0xffffffff"
  shows "\<exists>h n. ccnl_ndntlv_dehead (interest_bytes name scope opts) (0, length (interest_bytes name scope opts)) =
      Inr (Some (NDN_TLV_Interest, n), (h, n))
    \<and> ccnl_ndntlv_bytes2pkt NDN_TLV_Interest (interest_bytes name scope opts) (h, n) = Inl Oob"
proof -
  let ?v = "interest_body_bytes name scope opts"
  let ?h = "tl_bytes NDN_TLV_Interest (length ?v)"
  have ib: "interest_bytes name scope opts = tlv NDN_TLV_Interest ?v"
    by (simp only: interest_bytes_def interest_body_bytes_def)
  have at: "at_pos (tlv NDN_TLV_Interest ?v) 0 (tlv NDN_TLV_Interest ?v)" by (simp only: at_pos_def) simp
  then have "at_pos (tlv NDN_TLV_Interest ?v) (length ?h) ?v" by simp
  then have "ndn_pkt_loop (tlv NDN_TLV_Interest ?v) (length ?h, length ?v) (ndn_parse_init NDN_TLV_Interest) = Inl Oob"
    using assms ib by (subst interest_loop) (auto intro: pkt_loop_end_Oob)
  then show ?thesis
    using head_read[OF at] assms unfolding ib
    by (intro exI[of _ "length ?h"] exI[of _ "length ?v"]) (simp add: ccnl_ndntlv_bytes2pkt_def)
qed

theorem ndn_exact_buffer_overread_witness:
  "\<exists>h n. ccnl_ndntlv_bytes2pkt NDN_TLV_Interest wit_interest (h, n) = Inl Oob"
proof -
  have ok: "ndn_name_ok wit_name" by code_simp
  have b: "interest_bytes wit_name 1 wit_opts = wit_interest" by code_simp
  have l: "length wit_interest \<le> 0xffffffff" by code_simp
  show ?thesis using ndn_exact_buffer_overread[OF ok, of 1 wit_opts] l unfolding b by blast
qed

text \<open>
  A segment number of 5 or 6 bytes gets one byte of padding too many: it is written as 7
  bytes, a width NDN does not have; all other values are written with 1, 2, 4 or 8 bytes, and the
  parser reads every one of them back.
\<close>

theorem ndn_nonNegInt_width:
  assumes "8 \<le> off" and "off \<le> length buf"
  shows "\<exists>buf'. ccnl_ndntlv_prependNonNegIntVal v (off, buf) = Inr (off - nni_width v, buf')
    \<and> ccnl_ndntlv_nonNegInt buf' (off - nni_width v) (nni_width v) = Inr v
    \<and> (nni_width v \<in> {1, 2, 4, 8} \<longleftrightarrow> \<not> (2 ^ 32 \<le> v \<and> v < 2 ^ 48))"
  using nni_padding[OF assms, of v] nni_width_std[of v] by auto

theorem ndn_nonNegInt_width_witness:
  "\<exists>buf'. ccnl_ndntlv_prependNonNegIntVal 0x123456789a (8, replicate 8 0) = Inr (1, buf')
    \<and> ccnl_ndntlv_nonNegInt buf' 1 7 = Inr 0x123456789a \<and> \<not> nni_width 0x123456789a \<in> {1, 2, 4, 8}"
proof -
  have w: "nni_width 0x123456789a = 7" by code_simp
  show ?thesis using ndn_nonNegInt_width[of 8 "replicate 8 0" "0x123456789a"] unfolding w by auto
qed

end
