(* ===== verification/Relay_Props.thy ===== *)
theory Relay_Props
  imports Samples
begin

text \<open>
  The properties of the relay's tables: faces, forwarding, serving, the cache, the nonce list, ageing
  and cleaning up.
\<close>

section \<open>Faces\<close>

text \<open>
  C16. Removing a face succeeds on a well-formed relay and leaves no reference to it: no pending
  entry, no origin of an interest, no forwarding entry; looking it up afterwards would be a use
  after free. Interests nobody waits for any more go with it, all others stay.
\<close>

theorem face_remove_no_dangling:
  assumes "relay_wf r" and "f \<in> face_ids r"
  shows "\<exists>f2 r'. ccnl_face_remove f r = Inr (f2, r') \<and> relay_wf r' \<and> face_get r' f = Inl Uaf
    \<and> rl_faces r' = filter (\<lambda>x. f_faceid x \<noteq> f) (rl_faces r)
    \<and> (\<forall>i\<in>set (rl_pit r'). f \<notin> pi_face ` set (i_pending i) \<and> i_from i \<noteq> Some f)
    \<and> (\<forall>fw\<in>set (rl_fib r'). fw_face fw \<noteq> Some f)
    \<and> map i_ref (rl_pit r') = map i_ref (filter (\<lambda>i. \<exists>q\<in>set (i_pending i). pi_face q \<noteq> f) (rl_pit r))"
proof -
  have "map i_ref (pit_without f is) = map i_ref (filter (\<lambda>i. \<exists>q\<in>set (i_pending i). pi_face q \<noteq> f) is)" for "is"
    by (induction "is") (auto simp: pit_without_def filter_empty_conv)
  moreover have "\<forall>i\<in>set (pit_without f is). f \<notin> pi_face ` set (i_pending i) \<and> i_from i \<noteq> Some f" for "is"
    by (auto simp: pit_without_def drop_face_def split: if_splits)
  moreover have "face_get (without_face f r) f = Inl Uaf"
    by (simp add: face_get_Uaf without_face_ids)
  ultimately show ?thesis
    using face_remove_eq[OF assms] without_face_wf[OF assms(1), of f]
    by (auto simp: without_face_def)
qed

theorem face_remove_no_dangling_witness:
  "\<exists>f2 r'. ccnl_face_remove 1 (sample_relay [] 0) = Inr (f2, r') \<and> face_get r' 1 = Inl Uaf
    \<and> map i_ref (rl_pit r') = [1]"
proof -
  have wf: "relay_wf (sample_relay [] 0)" by (rule sample_wf) auto
  show ?thesis using face_remove_no_dangling[OF wf, of 1] by (auto simp: sample_interest_def)
qed

text \<open>
  Looking a face up by interface and address finds the same face every time, and makes a new
  one only when none matches.
\<close>

theorem get_face_or_create_idempotent:
  assumes "relay_wf r" and "0 \<le> ifndx" and "ifndx < int (length (rl_ifs r))" and "a \<noteq> Su_unspec"
  shows "\<exists>f r1. ccnl_get_face_or_create r ifndx (Some a) = Inr (Some (f_faceid f), r1) \<and> relay_wf r1
    \<and> f \<in> set (rl_faces r1) \<and> f_ifndx f = ifndx \<and> ccnl_addr_cmp (f_peer f) a = 0 \<and> f_last_used f = rl_now r
    \<and> (if \<exists>g\<in>set (rl_faces r). f_ifndx g = ifndx \<and> ccnl_addr_cmp (f_peer g) a = 0
       then face_ids r1 = face_ids r else rl_faces r1 = f # rl_faces r)
    \<and> ccnl_get_face_or_create r1 ifndx (Some a) = Inr (Some (f_faceid f), r1)"
  using get_face_addr[OF assms] unfolding face_for_def by (smt (verit, best))

theorem get_face_or_create_idempotent_witness:
  "\<exists>k r1. ccnl_get_face_or_create (sample_relay [] 0) 0 (Some (Su_ip4 30 1000)) = Inr (Some k, r1)
    \<and> length (rl_faces r1) = 4 \<and> ccnl_get_face_or_create r1 0 (Some (Su_ip4 30 1000)) = Inr (Some k, r1)"
proof -
  have wf: "relay_wf (sample_relay [] 0)" by (rule sample_wf) auto
  show ?thesis using get_face_or_create_idempotent[OF wf, of 0 "Su_ip4 30 1000"] by auto
qed

section \<open>Forwarding\<close>

text \<open>
  C12. An interest leaves on the face of every matching forwarding entry, in the order of the table,
  and nowhere else: the entry has the interest's format and a prefix of its name, and does not lead
  back to the face the interest came from unless that face reflects. The table of pending interests
  and everything else in the relay stays.
\<close>

theorem interest_propagate_exact:
  assumes "relay_wf r" and "interest_wf (face_ids r) i" and "pkt_buf (i_pkt i) = Some b"
  shows "\<exists>r'. ccnl_interest_propagate (Some i) r = Inr r' \<and> relay_wf r' \<and> rl_pit r' = rl_pit r
    \<and> rl_contents r' = rl_contents r \<and> rl_fib r' = rl_fib r \<and> rl_faces r' = rl_faces r
    \<and> rl_tx r' = rl_tx r @ concat (map (fw_tx r b) (filter (fib_hit r i) (rl_fib r)))
    \<and> rl_taps r' = rl_taps r @ concat (map (fw_taps i b) (filter (fib_hit r i) (rl_fib r)))"
proof -
  from propagate_wf[OF assms] obtain r' where "ccnl_interest_propagate (Some i) r = Inr r'" and o: "out_only r r'"
    and "rl_tx r' = rl_tx r @ concat (map (fw_tx r b) (filter (fib_hit r i) (rl_fib r)))"
      "rl_taps r' = rl_taps r @ concat (map (fw_taps i b) (filter (fib_hit r i) (rl_fib r)))" by blast
  then show ?thesis using out_only_wf[OF o assms(1)] out_only_fields[OF o] by auto
qed

theorem interest_propagate_exact_witness:
  "\<exists>r'. ccnl_interest_propagate (Some sample_interest) (sample_relay [] 0) = Inr r'
    \<and> rl_tx r' = [(0, Su_ip4 20 1000, [7, 7])]"
proof -
  have wf: "relay_wf (sample_relay [] 0)" by (rule sample_wf) auto
  have i: "interest_wf (face_ids (sample_relay [] 0)) sample_interest" by (simp add: interest_wf_def sample_interest_def)
  have b: "pkt_buf (i_pkt sample_interest) = Some [7, 7]" by (simp add: sample_interest_def)
  have "concat (map (fw_tx (sample_relay [] 0) [7, 7]) (filter (fib_hit (sample_relay [] 0) sample_interest) (rl_fib (sample_relay [] 0))))
      = [(0, Su_ip4 20 1000, [7, 7])]"
    by (simp add: fib_hit_def fw_tx_def tx_to_def face_get_def sample_interest_def)
  then show ?thesis using interest_propagate_exact[OF wf i b] by auto
qed

text \<open>
  C2. Content serves exactly the pending interests it satisfies: they are removed, all others stay;
  every face waiting for one of them gets the packet exactly once, faces of the local client
  nothing; the number returned is the number of faces served plus the number of satisfied interests
  without a waiting face.
\<close>

theorem content_serve_pending_once:
  assumes "relay_wf r" and "pkt_wf (c_pkt c)" and "pkt_buf (c_pkt c) = Some b"
  shows "\<exists>r' c' fs. ccnl_content_serve_pending h c r = Inr (length fs + unawaited h c (rl_pit r), c', r')
    \<and> relay_wf r' \<and> rl_pit r' = filter (\<lambda>i. \<not> satisfies h c i) (rl_pit r)
    \<and> rl_contents r' = rl_contents r \<and> rl_fib r' = rl_fib r
    \<and> distinct fs \<and> set fs = waiting h c (rl_pit r)
    \<and> rl_tx r' = rl_tx r @ concat (map (tx_to r b) (filter (\<lambda>f. f \<in> out_faces r) fs))"
  using serve_pending_wf[OF assms, of h] unfolding serving_def serve_tx_def by blast

theorem content_serve_pending_once_witness:
  "\<exists>r' c'. ccnl_content_serve_pending (hooks_unset (\<lambda>r b p f. Inr (0, r)) (\<lambda>_. None) (\<lambda>_. []))
      (content_of 9 [[97], [98]] [9] 0 100) (sample_relay [] 0) = Inr (2, c', r')
    \<and> rl_pit r' = [] \<and> rl_tx r' = [(0, Su_ip4 10 1000, [9])]"
proof -
  let ?h = "hooks_unset (\<lambda>r b p f. Inr (0, r)) (\<lambda>_. None) (\<lambda>_. [])"
  let ?c = "content_of 9 [[97], [98]] [9] 0 100" and ?r = "sample_relay [] 0"
  have wf: "relay_wf ?r" by (rule sample_wf) auto
  have s: "satisfies ?h ?c sample_interest"
    by (simp add: satisfies_def pending_matches_def sample_interest_def ccnl_prefix_cmp_def)
  then have w: "waiting ?h ?c [sample_interest] = {1, 3}" "unawaited ?h ?c [sample_interest] = 0"
    by (auto simp: waiting_def unawaited_def sample_interest_def)
  obtain r' c' fs where r: "ccnl_content_serve_pending ?h ?c ?r = Inr (length fs + unawaited ?h ?c (rl_pit ?r), c', r')"
    "rl_pit r' = filter (\<lambda>i. \<not> satisfies ?h ?c i) (rl_pit ?r)" "distinct fs" "set fs = waiting ?h ?c (rl_pit ?r)"
    "rl_tx r' = rl_tx ?r @ concat (map (tx_to ?r [9]) (filter (\<lambda>f. f \<in> out_faces ?r) fs))"
    using content_serve_pending_once[OF wf, of ?c "[9]" ?h] by auto
  have fs: "set fs = {1, 3}" using r(4) w by simp
  then have "fs = [1, 3] \<or> fs = [3, 1]" using distinct_pair[OF r(3)] by simp
  then show ?thesis using r s w by (auto simp: tx_to_def face_get_def)
qed

end
