(* ===== verification/Table_Props.thy ===== *)
theory Table_Props
  imports Samples
begin

text \<open>
  The properties of the tables of the relay: the content store and its eviction, the nonce list, the
  forwarding table as a map, ageing and cleaning up.
\<close>

section \<open>The content store\<close>

text \<open>
  C15. Adding to the content store: a name that is cached already is refused without any change;
  otherwise the content goes to the front, and when the cache is full the dynamic content that was
  not used for the longest time is dropped, and nothing else. (The ages are the times of last use,
  which must not be 0.)
\<close>

theorem add2cache_evicts_oldest:
  assumes wf: "relay_wf r" and c: "fresh_content r c" and h: "hk_cs_remove h = None"
    and m: "0 < rl_max_cache_entries r" "rl_max_cache_entries r = rl_contentcnt r"
    and d: "\<exists>x\<in>set (rl_contents r). dynamic x" "\<forall>x\<in>set (rl_contents r). dynamic x \<longrightarrow> c_last_used x \<noteq> 0"
  shows "(cached_name r (c_pkt c) \<and> ccnl_content_add2cache h c r = Inr (False, r))
    \<or> (\<exists>old r'. oldest_of (rl_contents r) old \<and> ccnl_content_add2cache h c r = Inr (True, r') \<and> relay_wf r'
        \<and> rl_contents r' = c # filter (\<lambda>x. c_ref x \<noteq> c_ref old) (rl_contents r) \<and> rl_contentcnt r' = rl_contentcnt r)"
proof (cases "cached_name r (c_pkt c)")
  case True
  then show ?thesis using add2cache_wf(1)[OF wf c h] by simp
next
  case False
  obtain k where k: "oldest_loop (rl_contents r) 0 None = Some k"
    using oldest_loop_some[OF d(1)] by (cases "oldest_loop (rl_contents r) 0 None") auto
  then obtain old where old: "oldest_of (rl_contents r) old" "k = c_ref old"
    using oldest_loop_first[OF d(2)] by auto
  have mem: "old \<in> set (rl_contents r)" using old(1) by (simp add: oldest_of_def)
  have e: "evict r = filter (\<lambda>x. c_ref x \<noteq> c_ref old) (rl_contents r)"
    using m k old(2) by (auto simp: evict_def victim_def intro!: filter_cong)
  have cnt: "rl_contentcnt r = int (length (rl_contents r))" "distinct (map c_ref (rl_contents r))"
    using wf by (simp_all add: relay_wf_def cs_wf_def)
  then have l: "rl_contentcnt r = int (length (evict r)) + 1"
    using length_filter_key[OF cnt(2) mem] by (simp add: e)
  then have "room r" using m by (simp add: room_def)
  then show ?thesis using add2cache_wf(1,2)[OF wf c h] False old(1) e l by auto
qed

theorem add2cache_evicts_oldest_witness:
  "\<exists>r'. ccnl_content_add2cache (hooks_unset (\<lambda>r b p f. Inr (0, r)) (\<lambda>_. None) (\<lambda>_. [])) (content_of 9 [[97]] [9] 0 100)
      (sample_relay [content_of 2 [[98]] [1] 0 50, content_of 3 [[99]] [2] 0 40, content_of 4 [[100]] [3] 1 10] 3) = Inr (True, r')
    \<and> map c_ref (rl_contents r') = [9, 2, 4]"
proof -
  let ?cs = "[content_of 2 [[98]] [1] 0 50, content_of 3 [[99]] [2] 0 40, content_of 4 [[100]] [3] 1 10]"
  let ?r = "sample_relay ?cs 3" and ?c = "content_of 9 [[97]] [9] 0 100"
  let ?h = "hooks_unset (\<lambda>r b p f. Inr (0, r)) (\<lambda>_. None) (\<lambda>_. [])"
  have wf: "relay_wf ?r" by (rule sample_wf) simp_all
  have c: "fresh_content ?r ?c" by (simp add: fresh_content_def)
  have h: "hk_cs_remove ?h = None" by (simp add: hooks_unset_def)
  have n: "\<not> cached_name ?r (c_pkt ?c)" by (simp add: cached_name_def)
  obtain old r' where r: "oldest_of ?cs old" "ccnl_content_add2cache ?h ?c ?r = Inr (True, r')"
    "rl_contents r' = ?c # filter (\<lambda>x. c_ref x \<noteq> c_ref old) ?cs"
    using add2cache_evicts_oldest[OF wf c h] n by (auto simp: dynamic_def)
  have "c_ref old = 3" using r(1) by (auto simp: oldest_of_def dynamic_def)
  then show ?thesis using r by simp
qed

text \<open>
  The cache outgrows its limit by one: the room is tested with \<open><=\<close> after the eviction, so a
  cache full of static contents still takes one more.
\<close>

theorem add2cache_overshoots:
  assumes wf: "relay_wf r" and c: "fresh_content r c" and h: "hk_cs_remove h = None"
    and m: "0 < rl_max_cache_entries r" "rl_contentcnt r = rl_max_cache_entries r"
    and s: "\<forall>x\<in>set (rl_contents r). \<not> dynamic x" and n: "\<not> cached_name r (c_pkt c)"
  shows "\<exists>r'. ccnl_content_add2cache h c r = Inr (True, r') \<and> rl_contents r' = c # rl_contents r
    \<and> int (length (rl_contents r')) = rl_max_cache_entries r' + 1"
proof -
  have "victim r = None" using victim_mem s by (cases "victim r") auto
  then have e: "evict r = rl_contents r" by (simp add: evict_def)
  moreover have cnt: "rl_contentcnt r = int (length (rl_contents r))" using wf by (simp add: relay_wf_def cs_wf_def)
  ultimately have "room r" using m by (simp add: room_def)
  then show ?thesis using add2cache_wf(1)[OF wf c h] n e m cnt by simp
qed

theorem add2cache_overshoots_witness:
  "\<exists>r'. ccnl_content_add2cache (hooks_unset (\<lambda>r b p f. Inr (0, r)) (\<lambda>_. None) (\<lambda>_. [])) (content_of 9 [[97]] [9] 0 100)
      (sample_relay [content_of 2 [[98]] [1] 1 50] 1) = Inr (True, r') \<and> map c_ref (rl_contents r') = [9, 2]
    \<and> rl_max_cache_entries r' = 1"
proof -
  let ?r = "sample_relay [content_of 2 [[98]] [1] 1 50] 1" and ?c = "content_of 9 [[97]] [9] 0 100"
  let ?h = "hooks_unset (\<lambda>r b p f. Inr (0, r)) (\<lambda>_. None) (\<lambda>_. [])"
  have wf: "relay_wf ?r" by (rule sample_wf) simp_all
  have c: "fresh_content ?r ?c" by (simp add: fresh_content_def)
  have h: "hk_cs_remove ?h = None" by (simp add: hooks_unset_def)
  have n: "\<not> cached_name ?r (c_pkt ?c)" by (simp add: cached_name_def)
  show ?thesis using add2cache_overshoots[OF wf c h _ _ _ n] by (auto simp: dynamic_def)
qed

text \<open>
  A time of last use 0 does not count as an age: of two dynamic contents the first of which
  was last used at time 0, the eviction drops the second, however recently it was used.
\<close>

theorem eviction_skips_age_zero:
  assumes "dynamic c1" and "dynamic c2" and "c_last_used c1 = 0"
    and "c_last_used c2 \<noteq> 0"
  shows "oldest_loop [c1, c2] 0 None = Some (c_ref c2) \<and> oldest_of [c1, c2] c1 \<and> \<not> oldest_of [c1, c2] c2"
  using assms by (auto simp: dynamic_def oldest_of_def)

theorem eviction_skips_age_zero_witness:
  "oldest_loop [content_of 1 [[97]] [1] 0 0, content_of 2 [[98]] [2] 0 1000] 0 None = Some 2"
  using eviction_skips_age_zero[of "content_of 1 [[97]] [1] 0 0" "content_of 2 [[98]] [2] 0 1000"]
  by (simp add: dynamic_def)

section \<open>Nonces\<close>

text \<open>
  The nonce list is a window: of nonces that arrive one after the other, all new, exactly the
  last 256 are remembered, the latest first, and a nonce is a duplicate if and only if it is among
  them.
\<close>

theorem nonce_window:
  assumes "nonces_wf r" and "distinct ns" and "set ns \<inter> set (rl_nonces r) = {}"
  shows "fold (\<lambda>n r. snd (ccnl_nonce_find_or_append r n)) ns r
      = r\<lparr>rl_nonces := take CCNL_MAX_NONCES (rev ns @ rl_nonces r)\<rparr>
    \<and> fst (ccnl_nonce_find_or_append (r\<lparr>rl_nonces := take CCNL_MAX_NONCES (rev ns @ rl_nonces r)\<rparr>) n)
      = (if n \<in> set (take CCNL_MAX_NONCES (rev ns @ rl_nonces r)) then -1 else 0)"
proof -
  have "fold (\<lambda>n r. snd (ccnl_nonce_find_or_append r n)) ns r
      = r\<lparr>rl_nonces := take CCNL_MAX_NONCES (rev ns @ rl_nonces r)\<rparr>"
    if "nonces_wf r" "distinct ns" "set ns \<inter> set (rl_nonces r) = {}" for ns r
    using that
  proof (induction ns arbitrary: r)
    case Nil
    then show ?case by (simp add: nonces_wf_def)
  next
    case (Cons n ns)
    let ?r = "r\<lparr>rl_nonces := take CCNL_MAX_NONCES (n # rl_nonces r)\<rparr>"
    have n: "n \<notin> set (rl_nonces r)" using Cons.prems by auto
    have wf: "nonces_wf ?r" using nonces_wf_step[OF Cons.prems(1) n] by simp
    have "set (rl_nonces ?r) \<subseteq> insert n (set (rl_nonces r))" by (auto dest: in_set_takeD)
    then have d: "set ns \<inter> set (rl_nonces ?r) = {}" using Cons.prems by auto
    have t: "take k (xs @ take k ys) = take k (xs @ ys)" for k and xs ys :: "bytes list" by simp
    have s: "fold (\<lambda>n r. snd (ccnl_nonce_find_or_append r n)) (n # ns) r = fold (\<lambda>n r. snd (ccnl_nonce_find_or_append r n)) ns ?r"
      using nonce_step[OF Cons.prems(1), of n] n by simp
    have "fold (\<lambda>n r. snd (ccnl_nonce_find_or_append r n)) ns ?r
        = ?r\<lparr>rl_nonces := take CCNL_MAX_NONCES (rev ns @ rl_nonces ?r)\<rparr>"
      using Cons.IH[OF wf _ d] Cons.prems by simp
    then show ?case unfolding s
      using t[of CCNL_MAX_NONCES "rev ns" "n # rl_nonces r"] by simp
  qed
  from this[OF assms] show ?thesis by (simp add: ccnl_nonce_find_or_append_def Let_def)
qed

theorem nonce_window_witness:
  "rl_nonces (fold (\<lambda>n r. snd (ccnl_nonce_find_or_append r n)) [[1], [2]] (sample_relay [] 0)) = [[2], [1]]"
  using nonce_window[of "sample_relay [] 0" "[[1], [2]]"] by (simp add: nonces_wf_def)

section \<open>The forwarding table\<close>

text \<open>The table as the application sees it: format and name to tap and face.\<close>

definition fib_abs :: "relay \<Rightarrow> int \<times> (bytes list \<times> u32 option) option \<rightharpoonup> nat option \<times> faceref option" where
  "fib_abs r k = map_option (\<lambda>fw. (fw_tap fw, fw_face fw)) (fib_map (rl_fib r) k)"

lemma fib_put_abs:
  assumes "\<forall>fw\<in>set (rl_fib r). fw_prefix fw \<noteq> None" and "distinct (map fib_key (rl_fib r))"
    and "fib_key new = prefix_key p" and "\<And>fw. fib_key fw = prefix_key p \<Longrightarrow> fib_key (g fw) = prefix_key p"
    and "fw_prefix new \<noteq> None" and "\<And>fw. fw_prefix (g fw) \<noteq> None"
  shows "fib_abs (r\<lparr>rl_fib := fib_put p g new (rl_fib r)\<rparr>) = (fib_abs r)(prefix_key p \<mapsto>
      (case fib_map (rl_fib r) (prefix_key p) of None \<Rightarrow> (fw_tap new, fw_face new) | Some fw \<Rightarrow> (fw_tap (g fw), fw_face (g fw))))"
    and "distinct (map fib_key (fib_put p g new (rl_fib r)))"
    and "\<forall>fw\<in>set (fib_put p g new (rl_fib r)). fw_prefix fw \<noteq> None"
proof -
  show "fib_abs (r\<lparr>rl_fib := fib_put p g new (rl_fib r)\<rparr>) = (fib_abs r)(prefix_key p \<mapsto>
      (case fib_map (rl_fib r) (prefix_key p) of None \<Rightarrow> (fw_tap new, fw_face new) | Some fw \<Rightarrow> (fw_tap (g fw), fw_face (g fw))))"
  proof (rule ext)
    fix k
    show "fib_abs (r\<lparr>rl_fib := fib_put p g new (rl_fib r)\<rparr>) k = ((fib_abs r)(prefix_key p \<mapsto>
      (case fib_map (rl_fib r) (prefix_key p) of None \<Rightarrow> (fw_tap new, fw_face new) | Some fw \<Rightarrow> (fw_tap (g fw), fw_face (g fw))))) k"
      by (cases "k = prefix_key p"; cases "fib_map (rl_fib r) (prefix_key p)")
        (simp_all add: fib_abs_def fib_put_map(1)[where g = g, OF assms(3,4)])
  qed
  show "distinct (map fib_key (fib_put p g new (rl_fib r)))" by (rule fib_put_map(2)[where g = g, OF assms(3,4,2)])
  show "\<forall>fw\<in>set (fib_put p g new (rl_fib r)). fw_prefix fw \<noteq> None"
  proof
    fix fw assume "fw \<in> set (fib_put p g new (rl_fib r))"
    then have "fw = new \<or> fw \<in> set (rl_fib r) \<or> fw \<in> g ` set (rl_fib r)"
      using fib_put_map(3)[where g = g, OF assms(3,4), of "rl_fib r"] by blast
    then show "fw_prefix fw \<noteq> None" using assms(1,5,6) by auto
  qed
qed

lemma fib_del_abs:
  assumes "distinct (map fib_key fws)"
  shows "fib_map (takeWhile (\<lambda>fw. fib_key fw \<noteq> k) fws @ tl (dropWhile (\<lambda>fw. fib_key fw \<noteq> k) fws)) = (fib_map fws)(k := None)"
    and "distinct (map fib_key (takeWhile (\<lambda>fw. fib_key fw \<noteq> k) fws @ tl (dropWhile (\<lambda>fw. fib_key fw \<noteq> k) fws)))"
proof -
  have e: "takeWhile (\<lambda>fw. fib_key fw \<noteq> k) fws @ tl (dropWhile (\<lambda>fw. fib_key fw \<noteq> k) fws) = filter (\<lambda>fw. fib_key fw \<noteq> k) fws"
    using assms
  proof (induction fws)
    case (Cons a fws)
    have "fib_key a = k \<Longrightarrow> \<forall>x\<in>set fws. fib_key x \<noteq> k" using Cons.prems by (auto simp: rev_image_eqI)
    then have "fib_key a = k \<Longrightarrow> filter (\<lambda>fw. fib_key fw \<noteq> k) fws = fws" by (simp add: filter_id_conv)
    then show ?case using Cons by simp
  qed simp
  have "find (\<lambda>fw. fib_key fw = k') (filter (\<lambda>fw. fib_key fw \<noteq> k) fws) = (if k' = k then None else find (\<lambda>fw. fib_key fw = k') fws)" for k'
    by (induction fws) auto
  then show "fib_map (takeWhile (\<lambda>fw. fib_key fw \<noteq> k) fws @ tl (dropWhile (\<lambda>fw. fib_key fw \<noteq> k) fws)) = (fib_map fws)(k := None)"
    by (intro ext) (simp add: fib_map_def e)
  show "distinct (map fib_key (takeWhile (\<lambda>fw. fib_key fw \<noteq> k) fws @ tl (dropWhile (\<lambda>fw. fib_key fw \<noteq> k) fws)))"
    using assms by (simp add: e distinct_map_filter)
qed

text \<open>
  C14. The forwarding table refines a finite map: adding an entry sets the face of its name and keeps
  its tap, setting a tap sets the tap and keeps the face, removing a name takes it out; no other name
  is affected, and each name stays unique.
\<close>

theorem fib_refines_map:
  assumes p: "\<forall>fw\<in>set (rl_fib r). fw_prefix fw \<noteq> None" and d: "distinct (map fib_key (rl_fib r))"
  shows "(\<exists>r'. ccnl_fib_add_entry r q fc = Inr (0, r') \<and> distinct (map fib_key (rl_fib r'))
        \<and> fib_abs r' = (fib_abs r)(prefix_key q \<mapsto> (Option.bind (fib_abs r (prefix_key q)) fst, fc)))
    \<and> (\<exists>r'. ccnl_set_tap r q cb = Inr (0, r') \<and> distinct (map fib_key (rl_fib r'))
        \<and> fib_abs r' = (fib_abs r)(prefix_key q \<mapsto> (Some cb, Option.bind (fib_abs r (prefix_key q)) snd)))
    \<and> (\<exists>r'. ccnl_fib_rem_entry r (Some q) None = Inr (if fib_abs r (prefix_key q) = None then -1 else 0, r')
        \<and> distinct (map fib_key (rl_fib r')) \<and> fib_abs r' = (fib_abs r)(prefix_key q := None))"
proof (intro conjI)
  let ?add = "\<lambda>fw. fw\<lparr>fw_prefix := Some q, fw_face := fc\<rparr>" and ?tap = "\<lambda>fw. fw\<lparr>fw_prefix := Some q, fw_tap := Some cb\<rparr>"
  have va: "(case fib_map (rl_fib r) k of None \<Rightarrow> (None, fc) | Some fw \<Rightarrow> (fw_tap (?add fw), fw_face (?add fw)))
      = (Option.bind (fib_abs r k) fst, fc)"
    and vt: "(case fib_map (rl_fib r) k of None \<Rightarrow> (Some cb, None) | Some fw \<Rightarrow> (fw_tap (?tap fw), fw_face (?tap fw)))
      = (Some cb, Option.bind (fib_abs r k) snd)" for k
    by (simp_all add: fib_abs_def split: option.split)
  have kq: "fib_key \<lparr>fw_prefix = Some q, fw_tap = t, fw_face = x, fw_suite = pfx_suite q\<rparr> = prefix_key q"
    "fib_key fw = prefix_key q \<Longrightarrow> fib_key (?add fw) = prefix_key q"
    "fib_key fw = prefix_key q \<Longrightarrow> fib_key (?tap fw) = prefix_key q" for t x fw
    by (auto simp: fib_key_def prefix_key_def)
  note a = fib_put_abs[OF p d kq(1)[of None fc] kq(2), simplified forward.simps option.distinct simp_thms va]
  show "\<exists>r'. ccnl_fib_add_entry r q fc = Inr (0, r') \<and> distinct (map fib_key (rl_fib r'))
      \<and> fib_abs r' = (fib_abs r)(prefix_key q \<mapsto> (Option.bind (fib_abs r (prefix_key q)) fst, fc))"
    unfolding fib_add_eq(1)[OF p] using a(1,2) va by simp
  note t = fib_put_abs[OF p d kq(1)[of "Some cb" None] kq(3), simplified forward.simps option.distinct simp_thms vt]
  show "\<exists>r'. ccnl_set_tap r q cb = Inr (0, r') \<and> distinct (map fib_key (rl_fib r'))
      \<and> fib_abs r' = (fib_abs r)(prefix_key q \<mapsto> (Some cb, Option.bind (fib_abs r (prefix_key q)) snd))"
    unfolding fib_add_eq(2)[OF p] using t(1,2) vt by simp
  have m: "fib_matches (Some q) None fw \<longleftrightarrow> fib_key fw = prefix_key q" for fw by (simp add: fib_matches_def)
  have n: "(\<exists>fw\<in>set (rl_fib r). fib_key fw = prefix_key q) \<longleftrightarrow> fib_abs r (prefix_key q) \<noteq> None"
    by (auto simp: fib_abs_def fib_map_def find_None_iff)
  have del: "fib_abs (r\<lparr>rl_fib := takeWhile (\<lambda>fw. fib_key fw \<noteq> prefix_key q) (rl_fib r)
      @ tl (dropWhile (\<lambda>fw. fib_key fw \<noteq> prefix_key q) (rl_fib r))\<rparr>) = (fib_abs r)(prefix_key q := None)"
    using fib_del_abs(1)[OF d, of "prefix_key q"] by (auto simp: fib_abs_def fun_eq_iff)
  show "\<exists>r'. ccnl_fib_rem_entry r (Some q) None = Inr (if fib_abs r (prefix_key q) = None then -1 else 0, r')
      \<and> distinct (map fib_key (rl_fib r')) \<and> fib_abs r' = (fib_abs r)(prefix_key q := None)"
  proof (cases "fib_abs r (prefix_key q) = None")
    case True
    then have nk: "\<forall>fw\<in>set (rl_fib r). \<not> fib_matches (Some q) None fw" using n m by blast
    have "ccnl_fib_rem_entry r (Some q) None = Inr (-1, r)"
      using fib_rem_loop_spec[OF p, of "Some q" None] nk by (simp add: ccnl_fib_rem_entry_def)
    then show ?thesis using True d by (auto simp: fun_upd_idem)
  next
    case False
    then show ?thesis using fib_rem_loop_spec[OF p, of "Some q" None] n fib_del_abs(2)[OF d, of "prefix_key q"] del
      by (simp add: ccnl_fib_rem_entry_def m)
  qed
qed

theorem fib_refines_map_witness:
  "\<exists>r'. ccnl_fib_add_entry (sample_relay [] 0) (name_of [[97]]) (Some 1) = Inr (0, r')
    \<and> fib_abs r' (prefix_key (name_of [[97]])) = Some (None, Some 1)"
proof -
  let ?r = "sample_relay [] 0" and ?k = "prefix_key (name_of [[97]])"
  have t: "Option.bind (fib_abs ?r ?k) fst = None"
    by (simp add: fib_abs_def fib_map_def fib_key_def prefix_key_def)
  obtain r' where "ccnl_fib_add_entry ?r (name_of [[97]]) (Some 1) = Inr (0, r')"
    "fib_abs r' = (fib_abs ?r)(?k \<mapsto> (Option.bind (fib_abs ?r ?k) fst, Some 1))"
    using fib_refines_map[of ?r "name_of [[97]]" "Some 1"] by auto
  then show ?thesis by (simp add: t)
qed

text \<open>
  A forwarding entry towards the local client is a read before the array of interfaces: the
  local client's face has no interface, but sending to it takes \<open>ifs + ifndx\<close> all the same.
\<close>

theorem send_to_local_face_oob:
  assumes "relay_wf r" and "f \<in> set (rl_faces r)" and "f_ifndx f = -1" and "pkt_buf p = Some b"
  shows "ccnl_send_pkt (f_faceid f) p r = Inl Oob"
  using send_local[OF assms(1,2)] assms(3,4) by simp

theorem send_to_local_face_oob_witness:
  "ccnl_send_pkt 3 (packet_of [[97]] [1]) (sample_relay [] 0) = Inl Oob"
proof -
  have wf: "relay_wf (sample_relay [] 0)" by (rule sample_wf) auto
  show ?thesis using send_to_local_face_oob[OF wf, of "face_of 3 (-1) Su_unspec" "packet_of [[97]] [1]" "[1]"] by simp
qed

section \<open>Looking content up by its printed name\<close>

text \<open>
  \<open>ccnl_cs_lookup\<close> and \<open>ccnl_cs_remove\<close> compare as many characters as the cached name has:
  they find (and remove) the first content whose printed name is a prefix of the string asked for,
  not one of that name.
\<close>

theorem cs_lookup_by_string_prefix:
  assumes "rl_contents r = ds @ c # es" and "pkt_pfx (c_pkt c) = Some p" and "ccnl_prefix_to_path p = Inr path"
    and "\<forall>d\<in>set ds. \<exists>q s. pkt_pfx (c_pkt d) = Some q \<and> ccnl_prefix_to_path q = Inr s \<and> \<not> Sublist.prefix s (path @ rest)"
    and "relay_wf r"
  shows "ccnl_cs_lookup (Some (path @ rest)) r = Inr (Some c)
    \<and> (\<exists>r'. ccnl_cs_remove (Some (path @ rest)) r = Inr (0, r') \<and> rl_contents r' = ds @ es)"
proof -
  have f: "cs_path_find (path @ rest) (xs @ c # es) = Inr (Some (Some c))"
    if "\<forall>d\<in>set xs. \<exists>q s. pkt_pfx (c_pkt d) = Some q \<and> ccnl_prefix_to_path q = Inr s \<and> \<not> Sublist.prefix s (path @ rest)" for xs
    using that
  proof (induction xs)
    case Nil
    show ?case using assms(2,3) by simp
  next
    case (Cons d xs)
    then obtain q s where q: "pkt_pfx (c_pkt d) = Some q" "ccnl_prefix_to_path q = Inr s" "\<not> Sublist.prefix s (path @ rest)"
      by auto
    then have "take (length s) (path @ rest) \<noteq> s" by (metis take_is_prefix)
    then show ?case using Cons q by simp
  qed
  have d: "distinct (map c_ref (ds @ c # es))" using assms(1,5) by (simp add: relay_wf_def cs_wf_def)
  obtain r' where "ccnl_content_remove (c_ref c) r = Inr r'" "rl_contents r' = filter (\<lambda>x. c_ref x \<noteq> c_ref c) (rl_contents r)"
    using rcs.rem_member[OF assms(5), of c] assms(1) by auto
  then show ?thesis using f[OF assms(4)] assms(1) key_split(2)[OF d]
    by (simp add: ccnl_cs_lookup_def ccnl_cs_remove_def)
qed

theorem cs_lookup_by_string_prefix_witness:
  "ccnl_cs_lookup (Some [0x2f, 97, 98]) (sample_relay [content_of 2 [[0, 1, 0, 1, 97]] [1] 0 50] 4)
    = Inr (Some (content_of 2 [[0, 1, 0, 1, 97]] [1] 0 50))"
proof -
  let ?c = "content_of 2 [[0, 1, 0, 1, 97]] [1] 0 50"
  have wf: "relay_wf (sample_relay [?c] 4)" by (rule sample_wf) simp_all
  have p: "ccnl_prefix_to_path (name_of [[0, 1, 0, 1, 97]]) = Inr [0x2f, 97]" by code_simp
  show ?thesis using cs_lookup_by_string_prefix[of "sample_relay [?c] 4" "[]" ?c "[]" _ _ "[98]", OF _ _ p _ wf] by simp
qed

section \<open>Ageing and cleaning up\<close>

text \<open>
  C13. One round of ageing: dynamic contents past their lifetime go, stale ones are marked, all
  others stay; interests past their lifetime or their last retransmission go, every other one is
  sent again to the same faces as when it was new and its retransmissions are counted; idle faces go
  with everything that refers to them. The relay stays well-formed.
\<close>

theorem do_ageing_exact:
  assumes "relay_wf r"
  shows "\<exists>r'. ccnl_do_ageing r = Inr r' \<and> relay_wf r'
    \<and> rl_contents r' = map (content_aged (rl_now r)) (filter (content_live (rl_now r)) (rl_contents r))
    \<and> rl_faces r' = filter (face_live (rl_now r)) (rl_faces r)
    \<and> rl_fib r' = filter (\<lambda>fw. \<forall>f\<in>set (expired_faces r). fw_face fw \<noteq> Some f) (rl_fib r)
    \<and> rl_pit r' = fold pit_without (expired_faces r) (map retried (filter (interest_live (rl_now r)) (rl_pit r)))
    \<and> rl_tx r' = rl_tx r @ concat (map (interest_tx r) (filter (interest_live (rl_now r)) (rl_pit r)))"
  using do_ageing_wf[OF assms] by (simp add: cache_aged_def)

theorem do_ageing_exact_witness:
  "\<exists>r'. ccnl_do_ageing (sample_relay [content_of 2 [[97]] [1] 0 50] 4) = Inr r'
    \<and> length (rl_contents r') = 1 \<and> map i_retries (rl_pit r') = [1] \<and> rl_tx r' = [(0, Su_ip4 20 1000, [7, 7])]"
proof -
  let ?r = "sample_relay [content_of 2 [[97]] [1] 0 50] 4"
  have wf: "relay_wf ?r" by (rule sample_wf) simp_all
  have e: "expired_faces ?r = []" by (simp add: expired_faces_def face_live_def face_of_def)
  have l: "interest_live 100 sample_interest" by (simp add: interest_live_def sample_interest_def)
  have t: "interest_tx ?r sample_interest = [(0, Su_ip4 20 1000, [7, 7])]"
    by (simp add: interest_tx_def fib_hit_def fw_tx_def tx_to_def face_get_def sample_interest_def)
  have c: "content_live 100 (content_of 2 [[97]] [1] 0 50)" by (simp add: content_live_def)
  show ?thesis using do_ageing_exact[OF wf] by (auto simp: e l t c retried_def) (simp add: sample_interest_def)
qed

text \<open>
  Cleaning up empties all tables of a well-formed relay without touching an object it has
  freed before.
\<close>

theorem core_cleanup_empties:
  assumes "relay_wf r"
  shows "\<exists>r'. ccnl_core_cleanup r = Inr r' \<and> relay_wf r' \<and> rl_pit r' = [] \<and> rl_faces r' = [] \<and> rl_fib r' = []
    \<and> rl_contents r' = [] \<and> rl_nonces r' = [] \<and> rl_pitcnt r' = 0 \<and> rl_contentcnt r' = 0"
  using core_cleanup_wf[OF assms] .

theorem core_cleanup_empties_witness:
  "\<exists>r'. ccnl_core_cleanup (sample_relay [content_of 2 [[97]] [1] 0 50] 4) = Inr r' \<and> rl_faces r' = []"
proof -
  have wf: "relay_wf (sample_relay [content_of 2 [[97]] [1] 0 50] 4)" by (rule sample_wf) simp_all
  show ?thesis using core_cleanup_empties[OF wf] by auto
qed

end
