(* ===== verification/Fwd_Props.thy ===== *)
theory Fwd_Props
  imports Samples
begin

text \<open>
  The properties of the forwarder: what the relay does with an Interest it can answer from the cache,
  one it has forwarded already, a new one, and with Data nobody or somebody waits for.
\<close>

section \<open>The searches in closed form\<close>

definition cs_hit :: "(pkt \<Rightarrow> content \<Rightarrow> int res) \<Rightarrow> pkt \<Rightarrow> content \<Rightarrow> bool" where
  "cs_hit cm p c \<longleftrightarrow> map_option pfx_suite (pkt_pfx (c_pkt c)) = map_option pfx_suite (pkt_pfx p) \<and> cm p c = Inr 0"

definition same_interest :: "pkt \<Rightarrow> interest \<Rightarrow> bool" where
  "same_interest p i \<longleftrightarrow> ccnl_interest_isSame (Some i) (Some p) \<noteq> Inr 0"

lemma cs_search_find:
  "(\<forall>c\<in>set cs. pkt_wf (c_pkt c)) \<Longrightarrow> pkt_wf p \<Longrightarrow> match_ok cm \<Longrightarrow> cs_search cm p cs = Inr (find (cs_hit cm p) cs)"
proof (induction cs)
  case (Cons c cs)
  then obtain rc where rc: "cm p c = Inr rc" using match_okD by fastforce
  obtain q pp where "pkt_pfx (c_pkt c) = Some q" "pkt_pfx p = Some pp"
    using Cons.prems by (auto simp: pkt_wf_def)
  then show ?case using Cons rc by (auto simp: cs_hit_def)
qed simp

lemma pit_search_find:
  "(\<forall>i\<in>set es. pkt_wf (i_pkt i)) \<Longrightarrow> pkt_wf p \<Longrightarrow> pit_search p es = Inr (find (same_interest p) es)"
proof (induction es)
  case (Cons i es)
  then obtain rc where "ccnl_interest_isSame (Some i) (Some p) = Inr rc" using isSame_wf[of i p] by auto
  then show ?case using Cons by (simp add: same_interest_def)
qed simp

text \<open>An Interest that is no management message and no duplicate, at a relay whose callbacks are not
  set, goes through the steps.\<close>

definition plain_interest :: "hooks \<Rightarrow> relay \<Rightarrow> pkt \<Rightarrow> relay \<Rightarrow> bool" where
  "plain_interest h r p r1 \<longleftrightarrow> hk_producer h = None \<and> is_mgmt h p = Inr False \<and> ccnl_nonce_isDup r p = (False, r1)"

lemma plain_steps:
  "plain_interest h r p r1 \<Longrightarrow> ccnl_fwd_handleInterest h r f p cm = handleInterest_steps r1 f p cm"
  by (simp add: plain_interest_def ccnl_fwd_handleInterest_def local_producer_def)

lemma plain_relay:
  assumes "plain_interest h r p r1" and "relay_wf r"
  obtains ns where "r1 = r\<lparr>rl_nonces := ns\<rparr>" "relay_wf r1"
  using nonce_isDup_wf[OF assms(2), of p] assms(1) by (auto simp: plain_interest_def)

lemma wf_pkts:
  assumes "relay_wf r"
  shows "\<forall>c\<in>set (rl_contents r). pkt_wf (c_pkt c)" and "\<forall>i\<in>set (rl_pit r). pkt_wf (i_pkt i)"
  using assms by (auto simp: relay_wf_def cs_wf_def pit_wf_def interest_wf_def)

section \<open>Interests\<close>



text \<open>
  C5. An Interest the content store can answer is answered with the first matching content, on the
  face it came from and on no other; a local client's face gets nothing. No table changes.
\<close>

theorem interest_answered_from_cache:
  assumes "relay_wf r" and "pkt_wf p" and "match_ok cm" and "plain_interest h r p r1" and "f \<in> face_ids r"
    and "find (cs_hit cm p) (rl_contents r) = Some c" and "pkt_buf (c_pkt c) = Some b"
  shows "\<exists>r'. ccnl_fwd_handleInterest h r (Some f) p cm = Inr (0, r') \<and> relay_wf r'
    \<and> rl_pit r' = rl_pit r \<and> rl_contents r' = rl_contents r \<and> rl_fib r' = rl_fib r \<and> rl_faces r' = rl_faces r
    \<and> rl_tx r' = rl_tx r @ (if f \<in> out_faces r then tx_to r b f else [])"
proof -
  obtain ns where r1: "r1 = r\<lparr>rl_nonces := ns\<rparr>" "relay_wf r1" using plain_relay[OF assms(4,1)] .
  have c: "cs_search cm p (rl_contents r1) = Inr (Some c)"
    using cs_search_find[OF wf_pkts(1)[OF r1(2)] assms(2,3)] assms(6) by (simp add: r1(1))
  have ids: "face_ids r1 = face_ids r" "out_faces r1 = out_faces r" "tx_to r1 = tx_to r"
    by (simp_all add: r1(1) face_ids_def out_faces_def tx_to_def[abs_def] face_get_def)
  obtain x where x: "face_get r1 f = Inr x" using face_ids_get[of f r1] assms(5) r1(2) ids by (auto simp: relay_wf_def)
  have "x \<in> set (rl_faces r1)" "f_faceid x = f" using face_get_Inr[OF x] by auto
  moreover have "distinct (map f_faceid (rl_faces r1))" using r1(2) by (simp add: relay_wf_def faces_wf_def)
  ultimately have o: "f \<in> out_faces r \<longleftrightarrow> 0 \<le> f_ifndx x"
    unfolding ids(2)[symmetric] by (auto simp: out_faces_def dest: face_get_member inj_onD simp: distinct_map)
  show ?thesis
  proof (cases "f \<in> out_faces r")
    case True
    then obtain r3 where "ccnl_send_pkt f (c_pkt c) r1 = Inr (0, r3)" and o3: "out_only r1 r3"
      and "rl_tx r3 = rl_tx r1 @ tx_to r1 b f" using send_wf[OF r1(2) _ assms(7), of f] ids by auto
    then show ?thesis using True o x c out_only_wf[OF o3 r1(2)] out_only_fields[OF o3] ids(3)
      by (simp add: plain_steps[OF assms(4)] handleInterest_steps_def r1(1))
  next
    case False
    then show ?thesis using o x c r1(2)
      by (simp add: plain_steps[OF assms(4)] handleInterest_steps_def) (simp add: r1(1))
  qed
qed

theorem interest_answered_from_cache_witness:
  "\<exists>r'. ccnl_fwd_handleInterest (hooks_unset (\<lambda>r b p f. Inr (0, r)) (\<lambda>_. None) (\<lambda>_. [])) (sample_relay [content_of 2 [[99]] [5] 0 50] 4)
      (Some 1) (packet_of [[99]] [7]) ccnl_ccntlv_cMatch = Inr (0, r') \<and> rl_tx r' = [(0, Su_ip4 10 1000, [5])]"
proof -
  let ?r = "sample_relay [content_of 2 [[99]] [5] 0 50] 4" and ?p = "packet_of [[99]] [7]"
  let ?h = "hooks_unset (\<lambda>r b p f. Inr (0, r)) (\<lambda>_. None) (\<lambda>_. [])"
  have wf: "relay_wf ?r" by (rule sample_wf) simp_all
  have pl: "plain_interest ?h ?r ?p ?r" by (simp add: plain_interest_def is_mgmt_def ccnl_nonce_isDup_def hooks_unset_def)
  have hit: "find (cs_hit ccnl_ccntlv_cMatch ?p) (rl_contents ?r) = Some (content_of 2 [[99]] [5] 0 50)"
    by (simp add: cs_hit_def ccnl_ccntlv_cMatch_def ccnl_prefix_cmp_def)
  show ?thesis using interest_answered_from_cache[OF wf _ ccntlv_cMatch_ok pl _ hit, of 1 "[5]"]
    by (auto simp: tx_to_def face_get_def)
qed



text \<open>
  C4. A new Interest is entered into the table of pending interests with the face it came from
  waiting for it, and is sent to exactly the faces of the matching forwarding entries, unless the
  table is full: then it is dropped and nothing changes.
\<close>

theorem new_interest_forwarded:
  assumes "relay_wf r" and "pkt_wf p" and "match_ok cm" and "plain_interest h r p r1" and "f \<in> face_ids r"
    and "find (cs_hit cm p) (rl_contents r) = None" and "ccnl_pkt_fwdOK p \<noteq> 0"
    and "\<forall>d\<in>set (rl_pit r). \<not> same_interest p d" and "pkt_buf p = Some b"
  shows "if rl_max_pit_entries r \<noteq> -1 \<and> rl_pitcnt r \<ge> rl_max_pit_entries r
    then ccnl_fwd_handleInterest h r (Some f) p cm = Inr (0, r1)
    else \<exists>r' i. ccnl_fwd_handleInterest h r (Some f) p cm = Inr (0, r') \<and> relay_wf r'
      \<and> rl_pit r' = i # rl_pit r \<and> i_pkt i = p \<and> i_from i = Some f \<and> map pi_face (i_pending i) = [f]
      \<and> i_last_used i = rl_now r \<and> i_retries i = 0 \<and> rl_contents r' = rl_contents r
      \<and> rl_tx r' = rl_tx r @ concat (map (fw_tx r b) (filter (fib_hit r i) (rl_fib r)))"
proof -
  obtain ns where r1: "r1 = r\<lparr>rl_nonces := ns\<rparr>" "relay_wf r1" using plain_relay[OF assms(4,1)] .
  have c: "cs_search cm p (rl_contents r1) = Inr None"
    using cs_search_find[OF wf_pkts(1)[OF r1(2)] assms(2,3)] assms(6) by (simp add: r1(1))
  have "find (same_interest p) (rl_pit r1) = None" using assms(8) by (simp add: r1(1) find_None_iff)
  then have s: "pit_search p (rl_pit r1) = Inr None" using pit_search_find[OF wf_pkts(2)[OF r1(2)] assms(2)] by simp
  have ids: "face_ids r1 = face_ids r" by (simp add: r1(1) face_ids_def)
  show ?thesis
  proof (cases "rl_max_pit_entries r \<noteq> -1 \<and> rl_pitcnt r \<ge> rl_max_pit_entries r")
    case True
    then have "ccnl_interest_new r1 (Some f) p = (None, r1)" by (simp add: ccnl_interest_new_def r1(1))
    then show ?thesis using True c s assms(7) by (simp add: plain_steps[OF assms(4)] handleInterest_steps_def)
  next
    case False
    define i where "i = \<lparr>i_ref = rl_fresh r, i_pkt = p, i_from = Some f, i_pending = [],
        i_lifetime = ucast (ccnl_pkt_interest_lifetime p), i_last_used = rl_now r, i_retries = 0\<rparr>"
    define i1 where "i1 = i\<lparr>i_pending := [\<lparr>pi_face = f, pi_last_used = rl_now r\<rparr>]\<rparr>"
    define r2 where "r2 = r1\<lparr>rl_pit := i # rl_pit r1, rl_fresh := rl_fresh r1 + 1, rl_pitcnt := rl_pitcnt r1 + 1\<rparr>"
    have n: "ccnl_interest_new r1 (Some f) p = (Some (i_ref i), r2)"
      using False by (simp add: ccnl_interest_new_def r2_def i_def r1(1))
    have r2: "relay_wf r2" "pit_get r2 (i_ref i) = Inr i"
      using interest_new_wf[OF r1(2) assms(2), of "Some f"] n assms(5) ids by (auto simp: keeps_def r2_def)
    have a: "ccnl_interest_append_pending (rl_now r2) (Some i) (Some f) = (0, Some i1)"
      by (simp add: ccnl_interest_append_pending_def i_def i1_def r2_def r1(1))
    have iw: "interest_wf (face_ids r2) i1" "i_ref i1 = i_ref i"
      using assms(2,5) by (simp_all add: interest_wf_def i1_def i_def r2_def r1(1) face_ids_def)
    have p2: "rl_pit r2 = [] @ i # rl_pit r1" by (simp add: r2_def)
    define r3 where "r3 = r2\<lparr>rl_pit := [] @ i1 # rl_pit r1\<rparr>"
    have st: "relay_wf r3" "pit_upd (i_ref i) (\<lambda>_. i1) r2 = r3"
      using pit_set_wf[OF r2(1) p2 iw] by (simp_all add: r3_def)
    have g3: "face_get r3 = face_get r" by (rule ext) (simp add: face_get_def r3_def r2_def r1(1))
    have "fw_tx r3 = fw_tx r" "fib_hit r3 = fib_hit r"
      unfolding fw_tx_def[abs_def] tx_to_def[abs_def] fib_hit_def[abs_def] g3 by (rule refl)+
    then have ids3: "face_ids r3 = face_ids r2" "fw_tx r3 = fw_tx r" "fib_hit r3 = fib_hit r"
      by (simp_all add: r3_def face_ids_def)
    have bi: "pkt_buf (i_pkt i1) = Some b" using assms(9) by (simp add: i1_def i_def)
    obtain r' where r': "ccnl_interest_propagate (Some i1) r3 = Inr r'" and o: "out_only r3 r'"
      and tx: "rl_tx r' = rl_tx r3 @ concat (map (fw_tx r3 b) (filter (fib_hit r3 i1) (rl_fib r3)))"
      using propagate_wf[OF st(1) _ bi] iw(1) ids3(1) by auto
    have run: "ccnl_fwd_handleInterest h r (Some f) p cm = Inr (0, r')"
      using c s n r2(2) a st(2) r' assms(7)
      by (simp add: plain_steps[OF assms(4)] handleInterest_steps_def pit_append_def)
    have "rl_pit r' = i1 # rl_pit r" "rl_contents r' = rl_contents r"
      "rl_tx r' = rl_tx r @ concat (map (fw_tx r b) (filter (fib_hit r i1) (rl_fib r)))"
      using out_only_fields(3,4)[OF o] tx ids3 by (simp_all add: r3_def r2_def r1(1))
    moreover have "i_pkt i1 = p" "i_from i1 = Some f" "map pi_face (i_pending i1) = [f]" "i_last_used i1 = rl_now r" "i_retries i1 = 0"
      by (simp_all add: i1_def i_def)
    ultimately show ?thesis using False run out_only_wf[OF o st(1)] by auto
  qed
qed

theorem new_interest_forwarded_witness:
  "\<exists>r'. ccnl_fwd_handleInterest (hooks_unset (\<lambda>r b p f. Inr (0, r)) (\<lambda>_. None) (\<lambda>_. [])) (sample_relay [] 4)
      (Some 1) (packet_of [[97], [100]] [8]) ccnl_ccntlv_cMatch = Inr (0, r')
    \<and> rl_tx r' = [(0, Su_ip4 20 1000, [8])] \<and> length (rl_pit r') = 2"
proof -
  let ?r = "sample_relay [] 4" and ?p = "packet_of [[97], [100]] [8]"
  let ?h = "hooks_unset (\<lambda>r b p f. Inr (0, r)) (\<lambda>_. None) (\<lambda>_. [])"
  have wf: "relay_wf ?r" by (rule sample_wf) simp_all
  have pl: "plain_interest ?h ?r ?p ?r" by (simp add: plain_interest_def is_mgmt_def ccnl_nonce_isDup_def hooks_unset_def)
  have s: "\<not> same_interest ?p sample_interest"
    by (simp add: same_interest_def ccnl_interest_isSame_def sample_interest_def ccnl_prefix_cmp_def)
  have "\<forall>i. i_pkt i = ?p \<and> i_from i = Some 1 \<longrightarrow>
      concat (map (fw_tx ?r [8]) (filter (fib_hit ?r i) (rl_fib ?r))) = [(0, Su_ip4 20 1000, [8])]"
    by (simp add: fib_hit_def fw_tx_def tx_to_def face_get_def)
  then show ?thesis using new_interest_forwarded[OF wf _ ccntlv_cMatch_ok pl, of 1 "[8]"] s
    by (auto simp: ccnl_pkt_fwdOK_def)
qed

section \<open>Data\<close>

text \<open>The content a Data packet becomes, before it is served or cached.\<close>

definition arrived :: "relay \<Rightarrow> pkt \<Rightarrow> content" where
  "arrived r p = fst (ccnl_content_new r p)"

lemma data_served:
  assumes wf: "relay_wf r" and p: "pkt_wf p" "pkt_buf p = Some b" and h: "hk_rx_on_data h = None" "hk_cs_remove h = None" "hk_cs_decision h = None"
    and n: "\<not> cached_name r p"
  shows "\<exists>r3 c1 fs. serving (r\<lparr>rl_fresh := rl_fresh r + 1\<rparr>) r3 \<and> relay_wf r3 \<and> fresh_content r3 c1 \<and> c_pkt c1 = p
    \<and> rl_pit r3 = filter (\<lambda>i. \<not> satisfies h (arrived r p) i) (rl_pit r)
    \<and> distinct fs \<and> set fs = waiting h (arrived r p) (rl_pit r)
    \<and> rl_tx r3 = rl_tx r @ concat (map (tx_to r b) (filter (\<lambda>f. f \<in> out_faces r) fs))
    \<and> ccnl_fwd_handleContent h r f p = (if length fs + unawaited h (arrived r p) (rl_pit r) = 0 then Inr (0, r3)
        else if rl_max_cache_entries r \<noteq> 0
        then bindE (ccnl_content_add2cache h c1 r3) (\<lambda>(ok, r5). Inr (0, r5)) else Inr (0, r3))"
proof -
  define c where "c = arrived r p"
  define r2 where "r2 = r\<lparr>rl_fresh := rl_fresh r + 1\<rparr>"
  have cn: "ccnl_content_new r p = (c, r2)" by (simp add: c_def arrived_def r2_def ccnl_content_new_def)
  note cw = content_new_wf[OF wf cn]
  have wf2: "relay_wf r2" using cw(1) by (simp add: keeps_def)
  have b: "pkt_wf (c_pkt c)" "pkt_buf (c_pkt c) = Some b" using p cw(2) by simp_all
  obtain r3 c1 fs where s: "ccnl_content_serve_pending h c r2 = Inr (length fs + unawaited h c (rl_pit r2), c1, r3)"
    "serving r2 r3" "relay_wf r3" "rl_pit r3 = filter (\<lambda>i. \<not> satisfies h c i) (rl_pit r2)"
    "c_pkt c1 = c_pkt c" "c_ref c1 = c_ref c" "rl_tx r3 = rl_tx r2 @ serve_tx r2 b fs" "distinct fs" "set fs = waiting h c (rl_pit r2)"
    using serve_pending_wf[OF wf2 b, of h] by blast
  have fr: "fresh_content r3 c1" using s(2,5,6) cw(2,3,4) p by (simp add: fresh_content_def serving_def)
  have same: "rl_pit r2 = rl_pit r" "rl_tx r2 = rl_tx r" "tx_to r2 = tx_to r" "out_faces r2 = out_faces r"
    by (simp_all add: r2_def tx_to_def[abs_def] face_get_def out_faces_def)
  have m: "rl_max_cache_entries r3 = rl_max_cache_entries r" using s(2) by (simp add: serving_def r2_def)
  have d: "content_dup p (rl_contents r) = Inr False"
    using content_dup_wf[of "rl_contents r" p] wf p n by (simp add: relay_wf_def cs_wf_def pkt_wf_def cached_name_def)
  have run: "ccnl_fwd_handleContent h r f p = (if length fs + unawaited h c (rl_pit r) = 0 then Inr (0, r3)
        else if rl_max_cache_entries r \<noteq> 0
        then bindE (ccnl_content_add2cache h c1 r3) (\<lambda>(ok, r5). Inr (0, r5)) else Inr (0, r3))"
    using h cn d s(1) m same(1) by (simp add: ccnl_fwd_handleContent_def ccnl_callback_rx_on_data_def cache_strategy_cache_def)
  show ?thesis
    unfolding c_def[symmetric] r2_def[symmetric]
    using s fr run b(1) cw(2) by (intro exI[of _ r3] exI[of _ c1] exI[of _ fs]) (simp add: same serve_tx_def)
qed

text \<open>
  Data no pending Interest asks for goes nowhere: nothing leaves the relay, nothing is cached,
  and the pending Interests stay.
\<close>

theorem unsolicited_data_dropped:
  assumes "relay_wf r" and "pkt_wf p" and "hk_rx_on_data h = None" and "hk_cs_remove h = None" and "hk_cs_decision h = None"
    and "\<forall>i\<in>set (rl_pit r). \<not> satisfies h (arrived r p) i"
  shows "\<exists>r'. ccnl_fwd_handleContent h r f p = Inr (0, r') \<and> relay_wf r' \<and> rl_pit r' = rl_pit r
    \<and> rl_contents r' = rl_contents r \<and> rl_tx r' = rl_tx r"
proof (cases "cached_name r p")
  case True
  then have "content_dup p (rl_contents r) = Inr True"
    using content_dup_wf[of "rl_contents r" p] assms(1,2) by (simp add: relay_wf_def cs_wf_def pkt_wf_def cached_name_def)
  then show ?thesis using assms(1,3) by (simp add: ccnl_fwd_handleContent_def ccnl_callback_rx_on_data_def)
next
  case False
  obtain b where b: "pkt_buf p = Some b" using assms(2) by (auto simp: pkt_wf_def)
  have w: "waiting h (arrived r p) (rl_pit r) = {}" "unawaited h (arrived r p) (rl_pit r) = 0"
    "filter (\<lambda>i. \<not> satisfies h (arrived r p) i) (rl_pit r) = rl_pit r"
    using assms(6) by (auto simp: waiting_def unawaited_def filter_empty_conv filter_id_conv)
  obtain r3 where s: "serving (r\<lparr>rl_fresh := rl_fresh r + 1\<rparr>) r3" "relay_wf r3"
    "rl_pit r3 = rl_pit r" "rl_tx r3 = rl_tx r" "ccnl_fwd_handleContent h r f p = Inr (0, r3)"
    using data_served[OF assms(1,2) b assms(3,4,5) False, of f] w by fastforce
  then show ?thesis by (auto simp: serving_def)
qed

theorem unsolicited_data_dropped_witness:
  "\<exists>r'. ccnl_fwd_handleContent (hooks_unset (\<lambda>r b p f. Inr (0, r)) (\<lambda>_. None) (\<lambda>_. [])) (sample_relay [] 4)
      (Some 2) (packet_of [[99]] [8]) = Inr (0, r') \<and> rl_tx r' = [] \<and> rl_contents r' = []"
proof -
  let ?r = "sample_relay [] 4" and ?p = "packet_of [[99]] [8]"
  let ?h = "hooks_unset (\<lambda>r b p f. Inr (0, r)) (\<lambda>_. None) (\<lambda>_. [])"
  have wf: "relay_wf ?r" by (rule sample_wf) simp_all
  have s: "\<not> satisfies ?h (arrived ?r ?p) sample_interest"
    by (simp add: satisfies_def pending_matches_def arrived_def ccnl_content_new_def sample_interest_def ccnl_prefix_cmp_def)
  show ?thesis using unsolicited_data_dropped[OF wf, of ?p ?h "Some 2"] s by (auto simp: hooks_unset_def)
qed

text \<open>
  C3. Data that a pending Interest waits for is sent to every face that waits for it, once each, the
  satisfied Interests go, and it enters the cache in front of what the eviction leaves.
\<close>

theorem solicited_data_served_and_cached:
  assumes "relay_wf r" and "pkt_wf p" and "pkt_buf p = Some b"
    and "hk_rx_on_data h = None" and "hk_cs_remove h = None" and "hk_cs_decision h = None"
    and "\<not> cached_name r p" and "waiting h (arrived r p) (rl_pit r) \<noteq> {}"
    and "rl_max_cache_entries r \<noteq> 0" and "room r"
  shows "\<exists>r' c fs. ccnl_fwd_handleContent h r f p = Inr (0, r') \<and> relay_wf r'
    \<and> rl_pit r' = filter (\<lambda>i. \<not> satisfies h (arrived r p) i) (rl_pit r)
    \<and> distinct fs \<and> set fs = waiting h (arrived r p) (rl_pit r)
    \<and> rl_tx r' = rl_tx r @ concat (map (tx_to r b) (filter (\<lambda>f. f \<in> out_faces r) fs))
    \<and> c_pkt c = p \<and> rl_contents r' = c # evict r"
proof -
  obtain r3 c1 fs where s: "serving (r\<lparr>rl_fresh := rl_fresh r + 1\<rparr>) r3" "relay_wf r3" "fresh_content r3 c1" "c_pkt c1 = p"
    "rl_pit r3 = filter (\<lambda>i. \<not> satisfies h (arrived r p) i) (rl_pit r)"
    "distinct fs" "set fs = waiting h (arrived r p) (rl_pit r)"
    "rl_tx r3 = rl_tx r @ concat (map (tx_to r b) (filter (\<lambda>f. f \<in> out_faces r) fs))"
    and run: "ccnl_fwd_handleContent h r f p = (if length fs + unawaited h (arrived r p) (rl_pit r) = 0 then Inr (0, r3)
        else if rl_max_cache_entries r \<noteq> 0
        then bindE (ccnl_content_add2cache h c1 r3) (\<lambda>(ok, r5). Inr (0, r5)) else Inr (0, r3))"
    using data_served[OF assms(1,2,3,4,5,6,7), of f] by blast
  have same: "rl_contents r3 = rl_contents r" "rl_contentcnt r3 = rl_contentcnt r" "rl_max_cache_entries r3 = rl_max_cache_entries r"
    using s(1) by (simp_all add: serving_def)
  then have e: "evict r3 = evict r" "room r3 = room r" "cached_name r3 p = cached_name r p"
    by (simp_all add: evict_def victim_def room_def cached_name_def)
  have "fs \<noteq> []" using s(7) assms(8) by auto
  let ?r = "r3\<lparr>rl_contents := c1 # evict r3, rl_contentcnt := int (length (evict r3)) + 1\<rparr>"
  have "ccnl_content_add2cache h c1 r3 = Inr (True, ?r)" "relay_wf ?r"
    using add2cache_wf(1,2)[OF s(2,3) assms(5)] s(4) e assms(7,10) by simp_all
  then have "ccnl_fwd_handleContent h r f p = Inr (0, ?r) \<and> relay_wf ?r" using run \<open>fs \<noteq> []\<close> assms(9) by simp
  then show ?thesis using s e by (intro exI[of _ ?r] exI[of _ c1] exI[of _ fs]) simp
qed

theorem solicited_data_served_and_cached_witness:
  "\<exists>r'. ccnl_fwd_handleContent (hooks_unset (\<lambda>r b p f. Inr (0, r)) (\<lambda>_. None) (\<lambda>_. [])) (sample_relay [] 4)
      (Some 2) (packet_of [[97], [98]] [8]) = Inr (0, r') \<and> rl_tx r' = [(0, Su_ip4 10 1000, [8])] \<and> length (rl_contents r') = 1 \<and> rl_pit r' = []"
proof -
  let ?r = "sample_relay [] 4" and ?p = "packet_of [[97], [98]] [8]"
  let ?h = "hooks_unset (\<lambda>r b p f. Inr (0, r)) (\<lambda>_. None) (\<lambda>_. [])"
  have wf: "relay_wf ?r" by (rule sample_wf) simp_all
  have s: "satisfies ?h (arrived ?r ?p) sample_interest"
    by (simp add: satisfies_def pending_matches_def arrived_def ccnl_content_new_def sample_interest_def ccnl_prefix_cmp_def)
  then have w: "waiting ?h (arrived ?r ?p) [sample_interest] = {1, 3}" by (auto simp: waiting_def sample_interest_def)
  have e: "evict ?r = []" "room ?r" "\<not> cached_name ?r ?p" by (simp_all add: evict_def room_def cached_name_def)
  obtain r' c fs where r: "ccnl_fwd_handleContent ?h ?r (Some 2) ?p = Inr (0, r')"
    "rl_pit r' = filter (\<lambda>i. \<not> satisfies ?h (arrived ?r ?p) i) (rl_pit ?r)" "distinct fs"
    "set fs = waiting ?h (arrived ?r ?p) (rl_pit ?r)"
    "rl_tx r' = rl_tx ?r @ concat (map (tx_to ?r [8]) (filter (\<lambda>f. f \<in> out_faces ?r) fs))" "rl_contents r' = c # evict ?r"
    using solicited_data_served_and_cached[OF wf, of ?p "[8]" ?h "Some 2"] w e by (auto simp: hooks_unset_def)
  have fs: "set fs = {1, 3}" using r(4) w by simp
  then have "fs = [1, 3] \<or> fs = [3, 1]" using distinct_pair[OF r(3)] by simp
  then show ?thesis using r s e(1) by (auto simp: tx_to_def face_get_def)
qed

end
