(* ===== verification/Ccntlv_Enc.thy ===== *)
theory Ccntlv_Enc
  imports Ccntlv_Dec
begin

text \<open>
  Writing CCNx-TLV packets: the composing half of \<open>ccnl-pkt/src/ccnl-pkt-ccntlv.c\<close>. The bytes
  go before \<open>buf[*offset]\<close>, which is lowered.
\<close>

text \<open>In \<open>(uint8_t) (len & 0xff00U) >> 8U\<close> the cast is done first.\<close>

definition ccnl_ccntlv_prependTL :: "u16 \<Rightarrow> nat \<Rightarrow> outbuf \<Rightarrow> outbuf res" where
  "ccnl_ccntlv_prependTL typ len ob =
    (if fst ob < 4 \<or> len > 0xffff then Inl Fail
     else let l = of_nat len :: u64 in
       bindE (push_byte (ucast (l AND 0xff)) ob) (\<lambda>ob1.
       bindE (push_byte (drop_bit 8 (ucast (l AND 0xff00))) ob1) (\<lambda>ob2.
       bindE (push_byte (ucast (typ AND 0xff)) ob2)
         (push_byte (drop_bit 8 (ucast (typ AND 0xff00)))))))"

definition ccnl_ccntlv_prependBlob :: "u16 \<Rightarrow> bytes \<Rightarrow> outbuf \<Rightarrow> outbuf res" where
  "ccnl_ccntlv_prependBlob typ blob ob =
    (if fst ob < length blob + 4 then Inl Fail
     else bindE (put_blob blob ob) (ccnl_ccntlv_prependTL typ (length blob)))"

text \<open>The loop runs until the value is used up or the buffer is full; \<open>len\<close> counts.\<close>

function varuint_loop :: "u32 \<Rightarrow> nat \<Rightarrow> outbuf \<Rightarrow> (nat \<times> outbuf) res" where
  "varuint_loop v len ob =
    (if fst ob > 0 then
       bindE (push_byte (ucast (v AND 0xff)) ob) (\<lambda>ob1.
         if drop_bit 8 v = 0 then Inr (len + 1, ob1) else varuint_loop (drop_bit 8 v) (len + 1) ob1)
     else Inr (len, ob))"
  by pat_completeness auto

termination varuint_loop
  by (relation "measure (\<lambda>(v, len, ob). fst ob)")
    (auto simp: push_byte_def bindE_eq_Inr_iff split: prod.splits if_splits)

declare varuint_loop.simps [simp del]

definition ccnl_ccntlv_prependNetworkVarUInt :: "u16 \<Rightarrow> u32 \<Rightarrow> outbuf \<Rightarrow> outbuf res" where
  "ccnl_ccntlv_prependNetworkVarUInt typ v ob =
    bindE (varuint_loop v 0 ob) (\<lambda>(len, ob1). ccnl_ccntlv_prependTL typ len ob1)"

definition ccnl_ccntlv_prependFixedHdr :: "u8 \<Rightarrow> u8 \<Rightarrow> nat \<Rightarrow> u8 \<Rightarrow> outbuf \<Rightarrow> outbuf res" where
  "ccnl_ccntlv_prependFixedHdr ver packettype payloadlen hoplimit ob =
    (let pktlen = ccnx_hdr_size + payloadlen in
     if pktlen > 0xffff then Inl Fail
     else if fst ob < ccnx_hdr_size then Inl Fail
     else put_blob ([ver, packettype] @ be_bytes 2 (of_nat pktlen) @ [hoplimit, 0, 0, of_nat ccnx_hdr_size, 0]) ob)"

fun ccntlv_prepend_comps :: "bytes list \<Rightarrow> outbuf \<Rightarrow> outbuf res" where
  "ccntlv_prepend_comps [] ob = Inr ob"
| "ccntlv_prepend_comps (c # cs) ob = bindE (ccntlv_prepend_comps cs ob) (put_blob c)"

definition ccnl_ccntlv_prependName :: "prefix \<Rightarrow> u32 option \<Rightarrow> outbuf \<Rightarrow> outbuf res" where
  "ccnl_ccntlv_prependName name lastchunknum ob =
    bindE (case lastchunknum of None \<Rightarrow> Inr ob
        | Some v \<Rightarrow> ccnl_ccntlv_prependNetworkVarUInt CCNX_TLV_M_ENDChunk v ob) (\<lambda>ob1.
      bindE (case pfx_chunknum name of None \<Rightarrow> Inr ob1
          | Some v \<Rightarrow> ccnl_ccntlv_prependNetworkVarUInt CCNX_TLV_N_Chunk v ob1) (\<lambda>ob2.
        bindE (ccntlv_prepend_comps (pfx_comp name) ob2) (\<lambda>ob3.
          ccnl_ccntlv_prependTL CCNX_TLV_M_Name (fst ob1 - fst ob3) ob3)))"

text \<open>The result is the buffer and \<open>*len\<close>.\<close>

definition ccnl_ccntlv_prependInterest :: "prefix \<Rightarrow> outbuf \<Rightarrow> (nat \<times> outbuf) res" where
  "ccnl_ccntlv_prependInterest name ob =
    bindE (ccnl_ccntlv_prependName name None ob) (\<lambda>ob1.
      bindE (ccnl_ccntlv_prependTL CCNX_TLV_TL_Interest (fst ob - fst ob1) ob1) (\<lambda>ob2.
        Inr (fst ob - fst ob2, ob2)))"

definition ccnl_ccntlv_prependChunkInterestWithHdr :: "prefix \<Rightarrow> outbuf \<Rightarrow> (nat \<times> outbuf) res" where
  "ccnl_ccntlv_prependChunkInterestWithHdr name ob =
    bindE (ccnl_ccntlv_prependInterest name ob) (\<lambda>(len, ob1).
      if len > 0xffff - ccnx_hdr_size then Inl Fail
      else bindE (ccnl_ccntlv_prependFixedHdr CCNX_TLV_V1 CCNX_PT_Interest len 64 ob1) (\<lambda>ob2.
        Inr (fst ob - fst ob2, ob2)))"

definition ccnl_ccntlv_prependInterestWithHdr :: "prefix \<Rightarrow> outbuf \<Rightarrow> (nat \<times> outbuf) res" where
  "ccnl_ccntlv_prependInterestWithHdr = ccnl_ccntlv_prependChunkInterestWithHdr"

text \<open>\<open>*contentpos\<close>, \<open>*len\<close> and the buffer. The position is the payload's offset in the buffer.\<close>

definition ccnl_ccntlv_prependContent ::
    "prefix \<Rightarrow> bytes \<Rightarrow> u32 option \<Rightarrow> outbuf \<Rightarrow> (nat \<times> nat \<times> outbuf) res" where
  "ccnl_ccntlv_prependContent name payload lastchunknum ob =
    bindE (ccnl_ccntlv_prependBlob CCNX_TLV_M_Payload payload ob) (\<lambda>ob1.
      bindE (ccnl_ccntlv_prependName name lastchunknum ob1) (\<lambda>ob2.
        bindE (ccnl_ccntlv_prependTL CCNX_TLV_TL_Object (fst ob - fst ob2) ob2) (\<lambda>ob3.
          Inr (wsub (fst ob) (length payload), fst ob - fst ob3, ob3))))"

definition ccnl_ccntlv_prependContentWithHdr ::
    "prefix \<Rightarrow> bytes \<Rightarrow> u32 option \<Rightarrow> outbuf \<Rightarrow> (nat \<times> nat \<times> outbuf) res" where
  "ccnl_ccntlv_prependContentWithHdr name payload lastchunknum ob =
    bindE (ccnl_ccntlv_prependContent name payload lastchunknum ob) (\<lambda>(contentpos, len, ob1).
      if len > 0xffff - ccnx_hdr_size then Inl Fail
      else bindE (ccnl_ccntlv_prependFixedHdr CCNX_TLV_V1 CCNX_PT_Data len 255 ob1) (\<lambda>ob2.
        Inr (contentpos, fst ob - fst ob2, ob2)))"

end
