(* ===== verification/Ccntlv_Round.thy ===== *)
theory Ccntlv_Round
  imports Ccntlv_Enc Ndntlv_Round
begin

text \<open>
  Composing and parsing CCNx-TLV packets fit together as long as every length is below 256: the
  composer loses the high byte of lengths.
\<close>

section \<open>What the composer writes\<close>

lemma push_splice:
  "length xs < off \<Longrightarrow> off \<le> length buf \<Longrightarrow> push_byte b (splice xs (off, buf)) = Inr (splice (b # xs) (off, buf))"
proof -
  assume a: "length xs < off" "off \<le> length buf"
  obtain off' buf' where s: "splice xs (off, buf) = (off', buf')" by (cases "splice xs (off, buf)")
  have "off' = off - length xs" "length buf' = length buf"
    using s a fst_splice[of xs off buf] length_snd_splice[of xs off buf] by simp_all
  then have "push_byte b (off', buf') = Inr (splice [b] (off', buf'))" using a by (intro push_byte_fits) simp_all
  then show ?thesis using a splice_splice[of xs "[b]" off buf] by (simp add: s)
qed

text \<open>The head that is written: the high bytes of the type and of the length are 0.\<close>

definition ccntlv_head :: "u16 \<Rightarrow> nat \<Rightarrow> bytes" where
  "ccntlv_head typ len = [0, ucast typ, 0, of_nat len]"

lemma head_bytes:
  "(ucast (v AND 0xff :: u64) :: byte) = ucast v" "(ucast (w AND 0xff :: u16) :: byte) = ucast w"
  "drop_bit 8 (b :: byte) = 0"
proof -
  have "v AND 0xff = take_bit 8 v" "w AND 0xff = take_bit 8 w" by (simp_all add: take_bit_eq_mask mask_eq_exp_minus_1)
  then show "(ucast (v AND 0xff :: u64) :: byte) = ucast v" "(ucast (w AND 0xff :: u16) :: byte) = ucast w"
    by (simp_all only:) (rule bit_word_eqI, simp add: bit_simps)+
  show "drop_bit 8 (b :: byte) = 0" by simp
qed

lemma ucast_of_nat8: "(ucast (of_nat n :: u64) :: byte) = of_nat n"
  by (rule bit_word_eqI) (simp add: bit_simps)

lemma prependTL_prepender: "len \<le> 0xffff \<Longrightarrow> prepender (ccnl_ccntlv_prependTL typ len) (ccntlv_head typ len)"
proof (rule prepender.intro)
  fix off :: nat and buf :: bytes
  assume l: "len \<le> 0xffff" and off: "length (ccntlv_head typ len) \<le> off" "off \<le> length buf"
  have "push_byte b (off, buf) = Inr (splice [b] (off, buf))" for b
    using off by (intro push_byte_fits) (simp_all add: ccntlv_head_def)
  then show "ccnl_ccntlv_prependTL typ len (off, buf) = Inr (splice (ccntlv_head typ len) (off, buf))"
    using l off by (simp add: ccnl_ccntlv_prependTL_def Let_def head_bytes ucast_of_nat8 push_splice ccntlv_head_def)
qed (simp add: ccnl_ccntlv_prependTL_def ccntlv_head_def)

lemma prepend_box:
  assumes "prepender f xs" and "length xs \<le> 0xffff"
  shows "prepender (\<lambda>ob. bindE (f ob) (\<lambda>ob1. ccnl_ccntlv_prependTL t (fst ob - fst ob1) ob1)) (ccntlv_head t (length xs) @ xs)"
  using prepender_seq[where g = "ccnl_ccntlv_prependTL t", OF assms(1) prependTL_prepender[OF assms(2)]] .

lemma prependBlob_prepender:
  "length b \<le> 0xffff \<Longrightarrow> prepender (ccnl_ccntlv_prependBlob t b) (ccntlv_head t (length b) @ b)"
proof -
  assume l: "length b \<le> 0xffff"
  have p: "prepender (\<lambda>ob. bindE (put_blob b ob) (ccnl_ccntlv_prependTL t (length b))) (ccntlv_head t (length b) @ b)"
    by (rule prepender_bind[OF put_blob.prepender_axioms prependTL_prepender[OF l]])
  show ?thesis
  proof (rule prepender.intro)
    fix off :: nat and buf :: bytes
    assume "length (ccntlv_head t (length b) @ b) \<le> off" "off \<le> length buf"
    then show "ccnl_ccntlv_prependBlob t b (off, buf) = Inr (splice (ccntlv_head t (length b) @ b) (off, buf))"
      using prepender.fits[OF p] by (simp add: ccnl_ccntlv_prependBlob_def ccntlv_head_def)
  qed (simp add: ccnl_ccntlv_prependBlob_def ccntlv_head_def)
qed

lemma ccntlv_comps_prepender: "prepender (ccntlv_prepend_comps cs) (concat cs)"
proof (induction cs)
  case Nil
  have "ccntlv_prepend_comps [] = Inr" by (rule ext) simp
  then show ?case using prepender_skip by simp
next
  case (Cons c cs)
  have "ccntlv_prepend_comps (c # cs) = (\<lambda>ob. bindE (ccntlv_prepend_comps cs ob) (put_blob c))" by (rule ext) simp
  then show ?case using prepender_bind[OF Cons.IH put_blob.prepender_axioms, of c] by simp
qed

text \<open>A name without a chunk number.\<close>

definition ccntlv_name :: "bytes list \<Rightarrow> bytes" where
  "ccntlv_name cs = ccntlv_head CCNX_TLV_M_Name (length (concat cs)) @ concat cs"

lemma prependName_prepender:
  assumes "pfx_chunknum name = None" and "length (concat (pfx_comp name)) \<le> 0xffff"
  shows "prepender (ccnl_ccntlv_prependName name None) (ccntlv_name (pfx_comp name))"
proof -
  have e: "ccnl_ccntlv_prependName name None = (\<lambda>ob. bindE (ccntlv_prepend_comps (pfx_comp name) ob)
      (\<lambda>ob3. ccnl_ccntlv_prependTL CCNX_TLV_M_Name (fst ob - fst ob3) ob3))"
    unfolding ccnl_ccntlv_prependName_def assms(1) option.case bindE_simps ..
  show ?thesis unfolding e ccntlv_name_def by (rule prepend_box[OF ccntlv_comps_prepender assms(2)])
qed

definition ccntlv_interest :: "bytes list \<Rightarrow> bytes" where
  "ccntlv_interest cs = ccntlv_head CCNX_TLV_TL_Interest (length (ccntlv_name cs)) @ ccntlv_name cs"

definition ccntlv_object :: "bytes list \<Rightarrow> bytes \<Rightarrow> bytes" where
  "ccntlv_object cs d = (let v = ccntlv_name cs @ ccntlv_head CCNX_TLV_M_Payload (length d) @ d
     in ccntlv_head CCNX_TLV_TL_Object (length v) @ v)"

definition ccntlv_fixed :: "u8 \<Rightarrow> nat \<Rightarrow> u8 \<Rightarrow> bytes" where
  "ccntlv_fixed t n hop = [CCNX_TLV_V1, t] @ be_bytes 2 (of_nat (ccnx_hdr_size + n)) @ [hop, 0, 0, 9, 0]"

lemma fixed_prepender:
  "ccnx_hdr_size + n \<le> 0xffff \<Longrightarrow> prepender (ccnl_ccntlv_prependFixedHdr CCNX_TLV_V1 t n hop) (ccntlv_fixed t n hop)"
proof (rule prepender.intro)
  fix off :: nat and buf :: bytes
  assume "ccnx_hdr_size + n \<le> 0xffff" "length (ccntlv_fixed t n hop) \<le> off" "off \<le> length buf"
  then show "ccnl_ccntlv_prependFixedHdr CCNX_TLV_V1 t n hop (off, buf) = Inr (splice (ccntlv_fixed t n hop) (off, buf))"
    using put_blob.fits[of "ccntlv_fixed t n hop" off buf]
    by (simp add: ccnl_ccntlv_prependFixedHdr_def ccntlv_fixed_def)
qed (simp add: ccnl_ccntlv_prependFixedHdr_def ccntlv_fixed_def)

text \<open>The length of a name and a bound for the packets that follow.\<close>

lemma length_ccntlv [simp]:
  "length (ccntlv_head t n) = 4" "length (ccntlv_name cs) = 4 + length (concat cs)"
  "length (ccntlv_fixed p n hop) = 9"
  by (simp_all add: ccntlv_head_def ccntlv_name_def ccntlv_fixed_def)

lemma interestWithHdr_fits:
  assumes c: "pfx_chunknum name = None" and l: "length (ccntlv_interest (pfx_comp name)) + 9 \<le> 0xffff"
    and off: "length (ccntlv_interest (pfx_comp name)) + 9 \<le> off" "off \<le> length buf"
  shows "ccnl_ccntlv_prependInterestWithHdr name (off, buf) = Inr (length (ccntlv_interest (pfx_comp name)) + 9,
    splice (ccntlv_fixed CCNX_PT_Interest (length (ccntlv_interest (pfx_comp name))) 64 @ ccntlv_interest (pfx_comp name)) (off, buf))"
proof -
  let ?cs = "pfx_comp name"
  let ?i = "ccntlv_interest ?cs"
  have nl: "length (concat ?cs) \<le> 0xffff" "length (ccntlv_name ?cs) \<le> 0xffff" using l by (simp_all add: ccntlv_interest_def)
  have p: "prepender (\<lambda>ob. bindE (ccnl_ccntlv_prependName name None ob)
      (\<lambda>ob1. ccnl_ccntlv_prependTL CCNX_TLV_TL_Interest (fst ob - fst ob1) ob1)) ?i"
    unfolding ccntlv_interest_def by (rule prepend_box[OF prependName_prepender[OF c nl(1)] nl(2)])
  obtain o1 b1 where s: "splice ?i (off, buf) = (o1, b1)" by (cases "splice ?i (off, buf)")
  have o1: "o1 = off - length ?i" "length b1 = length buf"
    using s off fst_splice[of ?i off buf] length_snd_splice[of ?i off buf] by simp_all
  have 1: "ccnl_ccntlv_prependInterest name (off, buf) = Inr (length ?i, (o1, b1))"
    using prepender.fits[OF p, of off buf] off s o1(1) by (auto simp: ccnl_ccntlv_prependInterest_def bindE_eq_Inr_iff)
  have 2: "ccnl_ccntlv_prependFixedHdr CCNX_TLV_V1 CCNX_PT_Interest (length ?i) 64 (o1, b1)
      = Inr (splice (ccntlv_fixed CCNX_PT_Interest (length ?i) 64 @ ?i) (off, buf))"
    using prepender.fits[OF fixed_prepender, of "length ?i" CCNX_PT_Interest 64 o1 b1] l off o1
      splice_splice[of ?i "ccntlv_fixed CCNX_PT_Interest (length ?i) 64" off buf] s by simp
  show ?thesis using 1 2 l off
    by (simp add: ccnl_ccntlv_prependInterestWithHdr_def ccnl_ccntlv_prependChunkInterestWithHdr_def)
qed

text \<open>A content whose name, with what follows it, is written as \<open>nm\<close>.\<close>

lemma boxed_content_fits:
  assumes nm: "prepender (ccnl_ccntlv_prependName name lc) nm"
    and v: "v = nm @ ccntlv_head CCNX_TLV_M_Payload (length d) @ d" and i: "i = ccntlv_head CCNX_TLV_TL_Object (length v) @ v"
    and l: "length i + 9 \<le> 0xffff" and off: "length i + 9 \<le> off" "off \<le> length buf" "off < 2 ^ 64"
  shows "ccnl_ccntlv_prependContentWithHdr name d lc (off, buf) = Inr (off - length d, length i + 9,
    splice (ccntlv_fixed CCNX_PT_Data (length i) 255 @ i) (off, buf))"
proof -
  have nl: "length d \<le> 0xffff" "length v \<le> 0xffff" using l v i by simp_all
  have q: "prepender (\<lambda>ob. bindE (ccnl_ccntlv_prependBlob CCNX_TLV_M_Payload d ob) (ccnl_ccntlv_prependName name lc)) v"
    using prepender_bind[OF prependBlob_prepender[OF nl(1)] nm] v by simp
  have p: "prepender (\<lambda>ob. bindE (bindE (ccnl_ccntlv_prependBlob CCNX_TLV_M_Payload d ob) (ccnl_ccntlv_prependName name lc))
      (\<lambda>ob1. ccnl_ccntlv_prependTL CCNX_TLV_TL_Object (fst ob - fst ob1) ob1)) i"
    unfolding i by (rule prepend_box[OF q nl(2)])
  obtain o1 b1 where s: "splice i (off, buf) = (o1, b1)" by (cases "splice i (off, buf)")
  have o1: "o1 = off - length i" "length b1 = length buf"
    using s off fst_splice[of i off buf] length_snd_splice[of i off buf] by simp_all
  have "length d \<le> off" using off v i by simp
  then have 1: "ccnl_ccntlv_prependContent name d lc (off, buf) = Inr (off - length d, length i, (o1, b1))"
    using prepender.fits[OF p, of off buf] off s o1(1) wsub_le[of "length d" off]
    by (auto simp: ccnl_ccntlv_prependContent_def bindE_eq_Inr_iff)
  have 2: "ccnl_ccntlv_prependFixedHdr CCNX_TLV_V1 CCNX_PT_Data (length i) 255 (o1, b1)
      = Inr (splice (ccntlv_fixed CCNX_PT_Data (length i) 255 @ i) (off, buf))"
    using prepender.fits[OF fixed_prepender, of "length i" CCNX_PT_Data 255 o1 b1] l off o1
      splice_splice[of i "ccntlv_fixed CCNX_PT_Data (length i) 255" off buf] s by simp
  show ?thesis using 1 2 l off by (simp add: ccnl_ccntlv_prependContentWithHdr_def)
qed

lemma contentWithHdr_fits:
  assumes c: "pfx_chunknum name = None" and l: "length (ccntlv_object (pfx_comp name) d) + 9 \<le> 0xffff"
    and off: "length (ccntlv_object (pfx_comp name) d) + 9 \<le> off" "off \<le> length buf" "off < 2 ^ 64"
  shows "ccnl_ccntlv_prependContentWithHdr name d None (off, buf) = Inr (off - length d, length (ccntlv_object (pfx_comp name) d) + 9,
    splice (ccntlv_fixed CCNX_PT_Data (length (ccntlv_object (pfx_comp name) d)) 255 @ ccntlv_object (pfx_comp name) d) (off, buf))"
proof -
  have "length (concat (pfx_comp name)) \<le> 0xffff" using l by (simp add: ccntlv_object_def Let_def)
  from boxed_content_fits[OF prependName_prepender[OF c this] refl, of _ d off buf] l off
  show ?thesis by (simp add: ccntlv_object_def Let_def)
qed

section \<open>Reading it back\<close>

text \<open>The length on the wire is the length modulo 256.\<close>

lemma be16_read: "unat (push_bit 8 (ucast (0 :: byte)) OR ucast (of_nat l :: byte) :: u16) = l mod 256"
  by (simp add: unsigned_ucast_eq unsigned_of_nat take_bit_nat_eq_self) (simp add: take_bit_eq_mod)

lemma ccntlv_head_read:
  assumes "at_pos m p (ccntlv_head t l)" and "t < 256" and "4 \<le> n" and "l mod 256 \<le> n"
  shows "ccnl_ccntlv_dehead m (p, n) = Inr (Some (t, l mod 256), (p + 4, n - 4))"
proof -
  have r: "rd m p = Inr 0" "rd m (p + 1) = Inr (ucast t)" "rd m (p + 2) = Inr 0" "rd m (p + 3) = Inr (of_nat l)"
    using assms(1) by (simp_all add: ccntlv_head_def at_pos_Cons add.assoc numeral_2_eq_2 numeral_3_eq_3)
  have "(ucast (ucast t :: byte) :: u16) = t"
  proof -
    have "unat t < 2 ^ 8" using assms(2) by (simp add: word_less_nat_alt)
    then show ?thesis by (simp add: word_unat_eq_iff unsigned_ucast_eq unsigned_take_bit_eq take_bit_nat_eq_self)
  qed
  then show ?thesis using r be16_read[of l] assms(3,4) by (simp add: ccnl_ccntlv_dehead_def Let_def)
qed

abbreviation ccntlv_seg :: "bytes \<Rightarrow> bytes" where
  "ccntlv_seg \<equiv> ccnl_pkt_mkComponent CCNL_SUITE_CCNTLV"

lemma ccntlv_seg_bytes: "length d \<le> 0xffff \<Longrightarrow> length d < 256 \<Longrightarrow> ccntlv_seg d = ccntlv_head CCNX_TLV_N_NameSegment (length d) @ d"
proof -
  assume "length d \<le> 0xffff" "length d < 256"
  moreover from this have "drop_bit 8 (of_nat (length d) :: u64) = 0"
    by (simp add: word_unat_eq_iff drop_bit_eq_div unat_div unsigned_of_nat take_bit_nat_eq_self)
  ultimately show ?thesis by (simp add: ccnl_pkt_mkComponent_def ccntlv_head_def numeral_2_eq_2 ucast_of_nat8)
qed

fun ccntlv_offs :: "nat \<Rightarrow> bytes list \<Rightarrow> (nat \<times> nat) list" where
  "ccntlv_offs p [] = []"
| "ccntlv_offs p (c # cs) = (p, length c) # ccntlv_offs (p + length c) cs"

lemma slices_ccntlv_offs: "at_pos m p (concat cs) \<Longrightarrow> slices m (ccntlv_offs p cs) = Inr cs"
  by (induction cs arbitrary: p) (auto simp: at_pos_slice)

lemma length_ccntlv_offs [simp]: "length (ccntlv_offs p cs) = length cs"
  by (induction cs arbitrary: p) auto

lemma ccntlv_name_read:
  assumes "at_pos m p (concat (map ccntlv_seg ds))" and "\<forall>d\<in>set ds. length d < 256"
    and "n = length (concat (map ccntlv_seg ds))" and "n < 2 ^ 64" and "length (fst nm) + length ds \<le> CCNL_MAX_NAME_COMP"
  shows "ccntlv_name_loop m (p, n) nm = Inr (fst nm @ ccntlv_offs p (map ccntlv_seg ds), snd nm)"
  using assms
proof (induction ds arbitrary: p n nm)
  case Nil
  then show ?case by (simp add: ccntlv_name_loop.simps)
next
  case (Cons d ds)
  let ?k = "length (concat (map ccntlv_seg ds))"
  have seg: "ccntlv_seg d = ccntlv_head CCNX_TLV_N_NameSegment (length d) @ d"
    using Cons.prems(2) by (intro ccntlv_seg_bytes) auto
  have n: "n = 4 + length d + ?k" using Cons.prems(3) seg by simp
  have h: "ccnl_ccntlv_dehead m (p, n) = Inr (Some (CCNX_TLV_N_NameSegment, length d), (p + 4, length d + ?k))"
    using ccntlv_head_read[of m p CCNX_TLV_N_NameSegment "length d" n] Cons.prems n seg by (simp add: add.assoc)
  have "ccntlv_name_loop m (p + (4 + length d), ?k) (fst nm @ [(p, 4 + length d)], snd nm) =
      Inr ((fst nm @ [(p, 4 + length d)]) @ ccntlv_offs (p + (4 + length d)) (map ccntlv_seg ds), snd nm)"
    using Cons.IH[of "p + (4 + length d)" ?k "(fst nm @ [(p, 4 + length d)], snd nm)"] Cons.prems n seg by (simp add: add.assoc)
  moreover have "wsub (length d + ?k) (length d) = ?k" using n Cons.prems(4) by (simp add: wsub_le)
  ultimately show ?case
    using h n Cons.prems(5) seg by (subst ccntlv_name_loop.simps) (simp add: ccntlv_add_comp_def add.assoc)
qed

lemma ccntlv_pkt_step:
  assumes "at_pos m p (ccntlv_head t l)" and "t < 256" and "l < 256" and "n = 4 + l + k"
    and "ccntlv_step m st p t l (p + 4) s = Inr s'"
  shows "ccntlv_pkt_loop m st (p, n) s = ccntlv_pkt_loop m st (p + 4 + l, k) s'"
  using ccntlv_head_read[OF assms(1,2), of n] assms(3-5) by (subst ccntlv_pkt_loop.simps) simp

lemma ccntlv_pkt_end: "ccntlv_pkt_loop m st (p, 0) s = Inr ((p, 0), s)"
  by (simp add: ccntlv_pkt_loop.simps ccnl_ccntlv_dehead_def)

text \<open>The packet the parser makes of a name, and of a content with its name.\<close>

definition ccntlv_pfx :: "bytes list \<Rightarrow> nat \<Rightarrow> prefix" where
  "ccntlv_pfx cs p = \<lparr>pfx_comp = cs, pfx_suite = CCNL_SUITE_CCNTLV, pfx_nameptr = Some p,
     pfx_namelen = 4, pfx_bytes = None, pfx_chunknum = None\<rparr>"

definition ccntlv_pkt :: "bytes \<Rightarrow> bytes list \<Rightarrow> u64 \<Rightarrow> (nat \<times> nat) option \<Rightarrow> pkt" where
  "ccntlv_pkt frame cs typ c = \<lparr>pkt_buf = Some frame, pkt_pfx = Some (ccntlv_pfx cs 13),
     pkt_content = map_option fst c, pkt_contlen = (case c of None \<Rightarrow> 0 | Some (p, n) \<Rightarrow> n), pkt_type = typ,
     pkt_val = -1, pkt_s = Raw_detail, pkt_hmacLen = 0, pkt_hmacSignature = None, pkt_flags = 0,
     pkt_suite = CCNL_SUITE_CCNTLV\<rparr>"

lemma name_step:
  assumes "at_pos m p (ccntlv_name (map ccntlv_seg ds))" and "\<forall>d\<in>set ds. length d < 256" and "length ds \<le> CCNL_MAX_NAME_COMP"
    and "length (concat (map ccntlv_seg ds)) < 256" and "n = length (ccntlv_name (map ccntlv_seg ds)) + k" and "cp_name s = ([], None)"
  shows "ccntlv_pkt_loop m st (p, n) s = ccntlv_pkt_loop m st (p + length (ccntlv_name (map ccntlv_seg ds)), k)
    (s\<lparr>cp_name := (ccntlv_offs (p + 4) (map ccntlv_seg ds), None), cp_nameptr := Some p, cp_namelen := 4\<rparr>)"
proof -
  let ?cs = "map ccntlv_seg ds" and ?l = "length (concat (map ccntlv_seg ds))"
  have at: "at_pos m p (ccntlv_head CCNX_TLV_M_Name ?l)" "at_pos m (p + 4) (concat ?cs)"
    using assms(1) by (simp_all add: ccntlv_name_def)
  have "ccntlv_name_loop m (p + 4, ?l) ([], None) = Inr (ccntlv_offs (p + 4) ?cs, None)"
    using ccntlv_name_read[OF at(2) assms(2), of ?l "([], None)"] assms(3,4) by simp
  then show ?thesis
    using ccntlv_pkt_step[OF at(1), of n k st s] assms(4-6) by (simp add: ccntlv_step_def add.assoc)
qed

lemma at_pos_frame: "length pre = p \<Longrightarrow> at_pos (pre @ xs) p xs"
  by (auto simp: at_pos_def)

lemma interest_read:
  assumes ok: "\<forall>d\<in>set ds. length d < 256" "length ds \<le> CCNL_MAX_NAME_COMP"
    and short: "length (ccntlv_interest (map ccntlv_seg ds)) < 260" and pre: "length pre = 9"
  shows "ccnl_ccntlv_bytes2pkt (pre @ ccntlv_interest (map ccntlv_seg ds)) (9, length (ccntlv_interest (map ccntlv_seg ds)))
    = Inr (ccntlv_pkt (pre @ ccntlv_interest (map ccntlv_seg ds)) (map ccntlv_seg ds) 1 None,
        (length (pre @ ccntlv_interest (map ccntlv_seg ds)), 0))"
proof -
  let ?cs = "map ccntlv_seg ds" and ?i = "ccntlv_interest (map ccntlv_seg ds)"
  let ?m = "pre @ ?i" and ?l = "length (ccntlv_name (map ccntlv_seg ds))"
  have l: "?l < 256" "length ?i = 4 + ?l" using short by (simp_all add: ccntlv_interest_def)
  have "at_pos ?m 9 ?i" using at_pos_frame[OF pre] by blast
  then have at: "at_pos ?m 9 (ccntlv_head CCNX_TLV_TL_Interest ?l)" "at_pos ?m 13 (ccntlv_name ?cs)"
    by (simp_all add: ccntlv_interest_def)
  have h: "ccnl_ccntlv_dehead ?m (9, length ?i) = Inr (Some (1, ?l), (13, ?l))"
    using ccntlv_head_read[OF at(1), of "length ?i"] l by simp
  have p: "ccntlv_pkt_loop ?m 9 (13, ?l) ccntlv_parse_init = Inr ((13 + ?l, 0),
      ccntlv_parse_init\<lparr>cp_name := (ccntlv_offs 17 ?cs, None), cp_nameptr := Some 13, cp_namelen := 4\<rparr>)"
    using name_step[OF at(2) ok, of ?l 0 ccntlv_parse_init 9] l by (simp add: ccntlv_parse_init_def ccntlv_pkt_end)
  have s: "slice ?m 0 (13 + ?l) = Inr ?m" using pre l by (simp add: slice_def)
  have "slices ?m (ccntlv_offs 17 ?cs) = Inr ?cs"
    using at(2) by (intro slices_ccntlv_offs) (simp add: ccntlv_name_def)
  then show ?thesis using h p s l pre
    by (simp add: ccnl_ccntlv_bytes2pkt_def ccntlv_parse_init_def ccntlv_pkt_def ccntlv_pfx_def add.commute)
qed

lemma object_read:
  assumes ok: "\<forall>d\<in>set ds. length d < 256" "length ds \<le> CCNL_MAX_NAME_COMP"
    and short: "length (ccntlv_object (map ccntlv_seg ds) payload) < 260" and pre: "length pre = 9"
  shows "ccnl_ccntlv_bytes2pkt (pre @ ccntlv_object (map ccntlv_seg ds) payload) (9, length (ccntlv_object (map ccntlv_seg ds) payload))
    = Inr (ccntlv_pkt (pre @ ccntlv_object (map ccntlv_seg ds) payload) (map ccntlv_seg ds) 2
        (Some (length pre + length (ccntlv_object (map ccntlv_seg ds) payload) - length payload, length payload)),
        (length (pre @ ccntlv_object (map ccntlv_seg ds) payload), 0))"
proof -
  let ?cs = "map ccntlv_seg ds" and ?i = "ccntlv_object (map ccntlv_seg ds) payload"
  let ?m = "pre @ ?i" and ?l = "length (ccntlv_name (map ccntlv_seg ds))" and ?d = "length payload"
  have l: "?l + 4 + ?d < 256" "length ?i = 4 + (?l + 4 + ?d)" using short by (simp_all add: ccntlv_object_def Let_def)
  have "at_pos ?m 9 ?i" using at_pos_frame[OF pre] by blast
  then have at: "at_pos ?m 9 (ccntlv_head CCNX_TLV_TL_Object (?l + (4 + ?d)))" "at_pos ?m 13 (ccntlv_name ?cs)"
      "at_pos ?m (13 + ?l) (ccntlv_head CCNX_TLV_M_Payload ?d)"
    by (simp_all add: ccntlv_object_def Let_def)
  have h: "ccnl_ccntlv_dehead ?m (9, length ?i) = Inr (Some (2, ?l + (4 + ?d)), (13, ?l + (4 + ?d)))"
    using ccntlv_head_read[OF at(1), of "length ?i"] l by simp
  define s1 where "s1 = ccntlv_parse_init\<lparr>cp_name := (ccntlv_offs 17 ?cs, None), cp_nameptr := Some 13, cp_namelen := 4\<rparr>"
  have p1: "ccntlv_pkt_loop ?m 9 (13, ?l + (4 + ?d)) ccntlv_parse_init = ccntlv_pkt_loop ?m 9 (13 + ?l, 4 + ?d) s1"
    using name_step[OF at(2) ok, of "?l + (4 + ?d)" "4 + ?d" ccntlv_parse_init 9] l
    by (simp add: ccntlv_parse_init_def s1_def)
  have p2: "ccntlv_pkt_loop ?m 9 (13 + ?l, 4 + ?d) s1
      = Inr ((13 + ?l + 4 + ?d, 0), s1\<lparr>cp_content := Some (13 + ?l + 4), cp_contlen := ?d\<rparr>)"
    using ccntlv_pkt_step[OF at(3), of "4 + ?d" 0 9 s1 "s1\<lparr>cp_content := Some (13 + ?l + 4), cp_contlen := ?d\<rparr>"] l
    by (simp add: ccntlv_step_def ccntlv_pkt_end)
  have s: "slice ?m 0 (13 + ?l + 4 + ?d) = Inr ?m" using pre l by (simp add: slice_def)
  have "slices ?m (ccntlv_offs 17 ?cs) = Inr ?cs"
    using at(2) by (intro slices_ccntlv_offs) (simp add: ccntlv_name_def)
  then show ?thesis using h p1 p2 s l pre
    by (simp add: ccnl_ccntlv_bytes2pkt_def ccntlv_parse_init_def ccntlv_pkt_def ccntlv_pfx_def s1_def)
qed

section \<open>Composing and parsing\<close>

lemma seg_length: "length d < 256 \<Longrightarrow> length (ccntlv_seg d) = 4 + length d"
  by (simp add: ccntlv_seg_bytes)

lemma segs_length: "\<forall>d\<in>set ds. length d < 256 \<Longrightarrow> length (concat (map ccntlv_seg ds)) = (\<Sum>d\<leftarrow>ds. 4 + length d)"
  by (induction ds) (simp_all add: seg_length)

lemma fixed_read:
  assumes "ccnx_hdr_size + n \<le> 0xffff" and "length xs = n"
  shows "ccnx_tlvhdr_at (ccntlv_fixed t n hop @ xs) 0 = Inr \<lparr>hd_version = 1, hd_pkttype = t, hd_pktlen = 9 + n, hd_hoplimit = hop, hd_hdrlen = 9\<rparr>"
    and "ccnl_ccntlv_getHdrLen (ccntlv_fixed t n hop @ xs) 0 (9 + n) = Inr 9"
proof -
  let ?w = "of_nat (ccnx_hdr_size + n) :: u64"
  have "unat (of_nat k :: u64) = k" if "k \<le> 0xffff" for k using that by (simp add: unat_of_nat)
  from this[OF assms(1)] have w: "unat ?w = ccnx_hdr_size + n" .
  have "be_bytes 2 ?w = [ucast (drop_bit 8 ?w), ucast ?w]" by (simp add: numeral_2_eq_2)
  then have f: "ccntlv_fixed t n hop = [1, t, ucast (drop_bit 8 ?w), ucast ?w, hop, 0, 0, 9, 0]"
    by (simp add: ccntlv_fixed_def)
  have "unat (ucast (drop_bit 8 ?w) :: byte) = (ccnx_hdr_size + n) div 256" "unat (ucast ?w :: byte) = (ccnx_hdr_size + n) mod 256"
    using assms(1) w by (simp_all add: unsigned_ucast_eq unat_drop_bit_eq drop_bit_eq_div take_bit_eq_mod unat_div)
  then have "unat (ucast (drop_bit 8 ?w) :: byte) * 256 + unat (ucast ?w :: byte) = 9 + n"
    using div_mult_mod_eq[of "ccnx_hdr_size + n" 256] by simp
  then show "ccnx_tlvhdr_at (ccntlv_fixed t n hop @ xs) 0 = Inr \<lparr>hd_version = 1, hd_pkttype = t, hd_pktlen = 9 + n, hd_hoplimit = hop, hd_hdrlen = 9\<rparr>"
    unfolding f by (simp add: ccnx_tlvhdr_at_def slice_def)
  show "ccnl_ccntlv_getHdrLen (ccntlv_fixed t n hop @ xs) 0 (9 + n) = Inr 9"
    unfolding f by (simp add: ccnl_ccntlv_getHdrLen_def rd_def)
qed

text \<open>
  C19. Composing a CCNx-TLV Interest and parsing it again: given room, the composer of
  \<open>ccnl_ccntlv_prependInterestWithHdr\<close> succeeds; the frame starts with a fixed header that says its
  length, hop limit 64 and 9 bytes of header, and the parser takes the whole frame and finds the
  components of the name. The frame must be shorter than 269 bytes.
\<close>

theorem ccntlv_interest_roundtrip:
  assumes "pfx_comp name = map (ccnl_pkt_mkComponent CCNL_SUITE_CCNTLV) ds" and "pfx_chunknum name = None"
    and "\<forall>d\<in>set ds. length d < 256" and "length ds \<le> CCNL_MAX_NAME_COMP"
    and "len = 17 + (\<Sum>d\<leftarrow>ds. 4 + length d)" and "len < 269" and "len \<le> off" and "off \<le> length buf"
  shows "\<exists>buf' frame. ccnl_ccntlv_prependInterestWithHdr name (off, buf) = Inr (len, (off - len, buf'))
    \<and> frame = take len (drop (off - len) buf')
    \<and> ccnx_tlvhdr_at frame 0 = Inr \<lparr>hd_version = CCNX_TLV_V1, hd_pkttype = CCNX_PT_Interest, hd_pktlen = len, hd_hoplimit = 64, hd_hdrlen = 9\<rparr>
    \<and> ccnl_ccntlv_getHdrLen frame 0 len = Inr 9
    \<and> ccnl_ccntlv_bytes2pkt frame (9, len - 9) = Inr (ccntlv_pkt frame (pfx_comp name) 1 None, (len, 0))"
proof -
  let ?i = "ccntlv_interest (map ccntlv_seg ds)"
  let ?f = "ccntlv_fixed CCNX_PT_Interest (length ?i) 64"
  have len: "len = length ?i + 9" using assms(5) segs_length[OF assms(3)] by (simp add: ccntlv_interest_def)
  obtain o1 buf' where s: "splice (?f @ ?i) (off, buf) = (o1, buf')" by (cases "splice (?f @ ?i) (off, buf)")
  have o1: "o1 = off - len" using s fst_splice[of "?f @ ?i" off buf] len by simp
  have c: "ccnl_ccntlv_prependInterestWithHdr name (off, buf) = Inr (len, (off - len, buf'))"
    using interestWithHdr_fits[OF assms(2), of off buf] assms(1,6-8) len s o1 by simp
  have "take len (drop (off - len) buf') = ?f @ ?i"
    using splice_read(2)[of "?f @ ?i" off buf] assms(7,8) s len by (simp add: add.commute)
  then show ?thesis
    using c fixed_read[of "length ?i" ?i CCNX_PT_Interest 64] interest_read[OF assms(3,4), of ?f] assms(1,6) len
    by (auto simp: add.commute)
qed

theorem ccntlv_interest_roundtrip_witness:
  "\<exists>buf' frame. ccnl_ccntlv_prependInterestWithHdr (ccnl_URItoPrefix (map (of_char) ''/a/bc'') CCNL_SUITE_CCNTLV None) (40, replicate 40 0)
      = Inr (28, (12, buf'))
    \<and> frame = take 28 (drop 12 buf')
    \<and> ccnl_ccntlv_bytes2pkt frame (9, 19) = Inr (ccntlv_pkt frame [[0, 1, 0, 1, 97], [0, 1, 0, 2, 98, 99]] 1 None, (28, 0))"
proof -
  let ?name = "ccnl_URItoPrefix (map (of_char) ''/a/bc'') CCNL_SUITE_CCNTLV None"
  have n: "pfx_comp ?name = map (ccnl_pkt_mkComponent CCNL_SUITE_CCNTLV) [[97], [98, 99]]" "pfx_chunknum ?name = None" by code_simp+
  have c: "map (ccnl_pkt_mkComponent CCNL_SUITE_CCNTLV) [[97], [98, 99]] = [[0, 1, 0, 1, 97], [0, 1, 0, 2, 98, 99]]" by code_simp
  show ?thesis
    using ccntlv_interest_roundtrip[OF n, of 28 40 "replicate 40 0"] unfolding n(1) c by auto
qed

text \<open>
  C20. Composing a CCNx-TLV content object and parsing it again: the parser finds the components of the
  name and a content that is the payload, at the end of the frame.
\<close>

theorem ccntlv_content_roundtrip:
  assumes "pfx_comp name = map (ccnl_pkt_mkComponent CCNL_SUITE_CCNTLV) ds" and "pfx_chunknum name = None"
    and "\<forall>d\<in>set ds. length d < 256" and "length ds \<le> CCNL_MAX_NAME_COMP"
    and "len = 21 + (\<Sum>d\<leftarrow>ds. 4 + length d) + length payload" and "len < 269" and "len \<le> off" and "off \<le> length buf" and "off < 2 ^ 64"
  shows "\<exists>buf' frame. ccnl_ccntlv_prependContentWithHdr name payload None (off, buf) = Inr (off - length payload, len, (off - len, buf'))
    \<and> frame = take len (drop (off - len) buf')
    \<and> ccnx_tlvhdr_at frame 0 = Inr \<lparr>hd_version = CCNX_TLV_V1, hd_pkttype = CCNX_PT_Data, hd_pktlen = len, hd_hoplimit = 255, hd_hdrlen = 9\<rparr>
    \<and> ccnl_ccntlv_bytes2pkt frame (9, len - 9)
        = Inr (ccntlv_pkt frame (pfx_comp name) 2 (Some (len - length payload, length payload)), (len, 0))
    \<and> slice frame (len - length payload) (length payload) = Inr payload"
proof -
  let ?i = "ccntlv_object (map ccntlv_seg ds) payload"
  let ?f = "ccntlv_fixed CCNX_PT_Data (length ?i) 255"
  have len: "len = length ?i + 9" using assms(5) segs_length[OF assms(3)] by (simp add: ccntlv_object_def Let_def)
  obtain o1 buf' where s: "splice (?f @ ?i) (off, buf) = (o1, buf')" by (cases "splice (?f @ ?i) (off, buf)")
  have o1: "o1 = off - len" using s fst_splice[of "?f @ ?i" off buf] len by simp
  have c: "ccnl_ccntlv_prependContentWithHdr name payload None (off, buf) = Inr (off - length payload, len, (off - len, buf'))"
    using contentWithHdr_fits[OF assms(2), of payload off buf] assms(1,6-9) len s o1 by simp
  have fr: "take len (drop (off - len) buf') = ?f @ ?i"
    using splice_read(2)[of "?f @ ?i" off buf] assms(7,8) s len by (simp add: add.commute)
  have "slice (?f @ ?i) (len - length payload) (length payload) = Inr payload"
    using len by (simp add: slice_def ccntlv_object_def Let_def)
  then show ?thesis
    using c fr fixed_read[of "length ?i" ?i CCNX_PT_Data 255] object_read[OF assms(3,4), of payload ?f] assms(1,6) len
    by (auto simp: add.commute)
qed

theorem ccntlv_content_roundtrip_witness:
  "\<exists>buf' frame. ccnl_ccntlv_prependContentWithHdr (ccnl_URItoPrefix (map (of_char) ''/a/bc'') CCNL_SUITE_CCNTLV None) [1, 2, 3] None (40, replicate 40 0)
      = Inr (37, 35, (5, buf'))
    \<and> frame = take 35 (drop 5 buf')
    \<and> ccnl_ccntlv_bytes2pkt frame (9, 26) = Inr (ccntlv_pkt frame [[0, 1, 0, 1, 97], [0, 1, 0, 2, 98, 99]] 2 (Some (32, 3)), (35, 0))
    \<and> slice frame 32 3 = Inr [1, 2, 3]"
proof -
  let ?name = "ccnl_URItoPrefix (map (of_char) ''/a/bc'') CCNL_SUITE_CCNTLV None"
  have n: "pfx_comp ?name = map (ccnl_pkt_mkComponent CCNL_SUITE_CCNTLV) [[97], [98, 99]]" "pfx_chunknum ?name = None" by code_simp+
  have c: "map (ccnl_pkt_mkComponent CCNL_SUITE_CCNTLV) [[97], [98, 99]] = [[0, 1, 0, 1, 97], [0, 1, 0, 2, 98, 99]]" by code_simp
  show ?thesis
    using ccntlv_content_roundtrip[OF n, of 35 "[1, 2, 3]" 40 "replicate 40 0"] unfolding n(1) c by (auto simp: numeral_3_eq_3)
qed

text \<open>
  The bound is the code's: \<open>ccnl_ccntlv_prependTL\<close> accepts every length up to 65535 and
  writes its low byte only, so the parser reads a length from 256 on as the remainder modulo 256.
\<close>

theorem ccntlv_length_reduced:
  assumes "len \<le> 0xffff" and "t < 256" and "4 \<le> off" and "off \<le> length buf" and "4 + len \<le> n"
  shows "\<exists>buf'. ccnl_ccntlv_prependTL t len (off, buf) = Inr (off - 4, buf')
    \<and> ccnl_ccntlv_dehead buf' (off - 4, n) = Inr (Some (t, len mod 256), (off, n - 4))"
proof -
  obtain o1 buf' where s: "splice (ccntlv_head t len) (off, buf) = (o1, buf')" by (cases "splice (ccntlv_head t len) (off, buf)")
  have o1: "o1 = off - 4" using s fst_splice[of "ccntlv_head t len" off buf] by simp
  have "at_pos buf' (off - 4) (ccntlv_head t len)"
    using s assms(3,4) by (auto simp: splice_def at_pos_def)
  moreover have "len mod 256 \<le> n" using assms(5) mod_less_eq_dividend[of len 256] by linarith
  ultimately show ?thesis
    using prepender.fits[OF prependTL_prepender[OF assms(1)], of t off buf] ccntlv_head_read[of buf' "off - 4" t len n] assms s o1
    by auto
qed

theorem ccntlv_length_reduced_witness:
  "\<exists>buf'. ccnl_ccntlv_prependTL CCNX_TLV_M_Payload 300 (4, replicate 304 0) = Inr (0, buf')
    \<and> ccnl_ccntlv_dehead buf' (0, 304) = Inr (Some (CCNX_TLV_M_Payload, 44), (4, 300))"
  using ccntlv_length_reduced[of 300 CCNX_TLV_M_Payload 4 "replicate 304 0" 304] by simp

end
