(* ===== verification/Ccnb_Enc.thy ===== *)
theory Ccnb_Enc
  imports Ccnb_Dec Ndntlv_Enc
begin

text \<open>
  Writing CCNb packets: the composing half of \<open>ccnl-pkt/src/ccnl-pkt-ccnb.c\<close>. The bytes go
  forward from \<open>out\<close>; the state is the position in the memory \<open>out\<close> points into and that
  memory, \<open>bufend\<close> is a position too. A routine adds the bytes it wrote to \<open>*retlen\<close>.
  Some routines test the room in front of the data they copy only: then the copy may run past the
  end of the memory.
\<close>

definition put_fwd :: "bytes \<Rightarrow> outbuf \<Rightarrow> outbuf res" where
  "put_fwd xs ob = bindE (wrs (snd ob) (fst ob) xs) (\<lambda>b. Inr (fst ob + length xs, b))"

text \<open>The groups of seven bits, lowest first.\<close>

function ccnb_groups :: "u64 \<Rightarrow> bytes" where
  "ccnb_groups v = (if v = 0 then [] else ucast (v AND 0x7f) # ccnb_groups (drop_bit 7 v))"
  by pat_completeness auto

termination ccnb_groups
proof (relation "measure unat")
  fix v :: u64 assume "v \<noteq> 0"
  then have "unat v div 2 ^ 7 < unat v" by (intro div_less_dividend) (simp_all add: unat_gt_0)
  then show "(drop_bit 7 v, v) \<in> measure unat"
    unfolding in_measure unat_drop_bit_eq by (simp add: drop_bit_eq_div)
qed simp

declare ccnb_groups.simps [simp del]

definition ccnl_ccnb_mkHeader :: "nat \<Rightarrow> u64 \<Rightarrow> u8 \<Rightarrow> outbuf \<Rightarrow> outbuf res" where
  "ccnl_ccnb_mkHeader bufend num tt ob =
    (let tmp = (0x80 OR push_bit 3 (ucast (num AND 0x0f)) OR tt) # ccnb_groups (drop_bit 4 num)
     in if fst ob + length tmp \<ge> bufend then Inl Fail else put_fwd (rev tmp) ob)"

definition ccnl_ccnb_addBlob :: "nat \<Rightarrow> bytes \<Rightarrow> outbuf \<Rightarrow> outbuf res" where
  "ccnl_ccnb_addBlob bufend cp ob = bindE (ccnl_ccnb_mkHeader bufend (of_nat (length cp)) CCN_TT_BLOB ob) (\<lambda>ob1.
     if fst ob1 + length cp \<ge> bufend then Inl Fail else put_fwd cp ob1)"

definition ccnl_ccnb_mkField :: "nat \<Rightarrow> u64 \<Rightarrow> u8 \<Rightarrow> bytes \<Rightarrow> outbuf \<Rightarrow> outbuf res" where
  "ccnl_ccnb_mkField bufend num typ d ob =
    bindE (ccnl_ccnb_mkHeader bufend num CCN_TT_DTAG ob) (\<lambda>ob1.
    bindE (ccnl_ccnb_mkHeader bufend (of_nat (length d)) typ ob1) (\<lambda>ob2.
      if fst ob2 + 1 \<ge> bufend then Inl Fail
      else bindE (put_fwd d ob2) (put_fwd [0])))"

definition ccnl_ccnb_mkBlob :: "nat \<Rightarrow> u64 \<Rightarrow> u8 \<Rightarrow> bytes \<Rightarrow> outbuf \<Rightarrow> outbuf res" where
  "ccnl_ccnb_mkBlob bufend num tt cp ob = ccnl_ccnb_mkField bufend num CCN_TT_BLOB cp ob"

definition ccnl_ccnb_mkStrBlob :: "nat \<Rightarrow> u64 \<Rightarrow> u8 \<Rightarrow> bytes \<Rightarrow> outbuf \<Rightarrow> outbuf res" where
  "ccnl_ccnb_mkStrBlob bufend num tt str ob = ccnl_ccnb_mkField bufend num CCN_TT_BLOB str ob"

text \<open>The width 0 asks for the least number of bytes.\<close>

fun sig_bytes :: "u64 \<Rightarrow> nat \<Rightarrow> nat" where
  "sig_bytes val 0 = 0"
| "sig_bytes val (Suc k) = (if drop_bit (8 * Suc k) val \<noteq> 0 then Suc k else sig_bytes val k)"

definition ccnl_ccnb_mkBinaryInt :: "nat \<Rightarrow> u64 \<Rightarrow> u8 \<Rightarrow> u64 \<Rightarrow> nat \<Rightarrow> outbuf \<Rightarrow> outbuf res" where
  "ccnl_ccnb_mkBinaryInt bufend num tt val width ob =
    bindE (ccnl_ccnb_mkHeader bufend num tt ob) (\<lambda>ob1.
      let k = (if width = 0 then sig_bytes val 7 + 1 else width) in
      bindE (ccnl_ccnb_mkHeader bufend (of_nat k) CCN_TT_BLOB ob1) (\<lambda>ob2.
        if fst ob2 + k + 1 \<ge> bufend then Inl Fail
        else bindE (put_fwd (map (\<lambda>i. ucast (drop_bit (8 * i) val)) (rev [0..<k])) ob2) (put_fwd [0])))"

definition ccnl_ccnb_mkComponent :: "nat \<Rightarrow> bytes \<Rightarrow> outbuf \<Rightarrow> outbuf res" where
  "ccnl_ccnb_mkComponent bufend val ob =
    bindE (ccnl_ccnb_mkHeader bufend CCN_DTAG_COMPONENT CCN_TT_DTAG ob) (\<lambda>ob1.
    bindE (ccnl_ccnb_mkHeader bufend (of_nat (length val)) CCN_TT_BLOB ob1) (\<lambda>ob2.
      if fst ob2 + length val + 1 \<ge> bufend then Inl Fail
      else bindE (put_fwd val ob2) (put_fwd [0])))"

fun ccnb_mkComponents :: "nat \<Rightarrow> bytes list \<Rightarrow> outbuf \<Rightarrow> outbuf res" where
  "ccnb_mkComponents bufend [] ob = Inr ob"
| "ccnb_mkComponents bufend (c # cs) ob = bindE (ccnl_ccnb_mkComponent bufend c ob) (ccnb_mkComponents bufend cs)"

definition ccnl_ccnb_mkName :: "nat \<Rightarrow> prefix \<Rightarrow> outbuf \<Rightarrow> outbuf res" where
  "ccnl_ccnb_mkName bufend name ob =
    bindE (ccnl_ccnb_mkHeader bufend CCN_DTAG_NAME CCN_TT_DTAG ob) (\<lambda>ob1.
    bindE (ccnb_mkComponents bufend (pfx_comp name) ob1) (\<lambda>ob2.
      if fst ob2 + 1 \<ge> bufend then Inl Fail else put_fwd [0] ob2))"

text \<open>The nonce is copied in the order of the (little-endian) host, and no end byte follows it.\<close>

definition ccnl_ccnb_fillInterest :: "nat \<Rightarrow> prefix \<Rightarrow> u32 option \<Rightarrow> outbuf \<Rightarrow> outbuf res" where
  "ccnl_ccnb_fillInterest bufend name nonce ob =
    bindE (ccnl_ccnb_mkHeader bufend CCN_DTAG_INTEREST CCN_TT_DTAG ob) (\<lambda>ob1.
    bindE (ccnl_ccnb_mkName bufend name ob1) (\<lambda>ob2.
    bindE (case nonce of
        None \<Rightarrow> Inr ob2
      | Some x \<Rightarrow> bindE (ccnl_ccnb_mkHeader bufend CCN_DTAG_NONCE CCN_TT_DTAG ob2) (\<lambda>ob3.
          bindE (ccnl_ccnb_mkHeader bufend 4 CCN_TT_BLOB ob3) (\<lambda>ob4.
            if fst ob4 + 4 \<ge> bufend then Inl Fail else put_fwd (nonce_bytes x) ob4)))
      (\<lambda>ob5. if fst ob5 + 1 \<ge> bufend then Inl Fail else put_fwd [0] ob5)))"

text \<open>The result has \<open>*contentpos\<close>, counted from \<open>out\<close>.\<close>

definition ccnl_ccnb_fillContent :: "nat \<Rightarrow> prefix \<Rightarrow> bytes \<Rightarrow> outbuf \<Rightarrow> (nat \<times> outbuf) res" where
  "ccnl_ccnb_fillContent bufend name d ob =
    bindE (ccnl_ccnb_mkHeader bufend CCN_DTAG_CONTENTOBJ CCN_TT_DTAG ob) (\<lambda>ob1.
    bindE (ccnl_ccnb_mkName bufend name ob1) (\<lambda>ob2.
    bindE (ccnl_ccnb_mkHeader bufend CCN_DTAG_CONTENT CCN_TT_DTAG ob2) (\<lambda>ob3.
    bindE (ccnl_ccnb_mkHeader bufend (of_nat (length d)) CCN_TT_BLOB ob3) (\<lambda>ob4.
      if fst ob4 + 2 \<ge> bufend then Inl Fail
      else bindE (put_fwd d ob4) (\<lambda>ob5. bindE (put_fwd [0, 0] ob5) (\<lambda>ob6. Inr (fst ob4 - fst ob, ob6)))))))"

end
