(* ===== verification/Timer.thy ===== *)
theory Timer
  imports Prelude "HOL-Library.Multiset"
begin

text \<open>
  The timers of \<open>ccnl-core/src/ccnl-os-time.c\<close>: a queue of callbacks ordered by the time they
  are due, the routine of the event loop that calls the due ones, and the periodic callback
  \<open>ccnl_ageing\<close> pattern the platforms use.

  \<^item> The queue is a list, head first; a timer has an address (\<open>tm_ref\<close>) that is never used
    twice. \<open>gettimeofday\<close> is the parameter \<open>tod\<close>: the \<open>n\<close>-th call of the program
    reads \<open>tod n\<close>, and \<open>eq_calls\<close> counts the calls.
  \<^item> A callback is a value of an arbitrary type; \<open>call\<close> runs it on the state of the program
    and the queue.
\<close>

section \<open>Times\<close>

datatype timeval = Timeval (tv_sec: int) (tv_usec: int)

instantiation timeval :: linorder
begin

definition less_eq_timeval :: "timeval \<Rightarrow> timeval \<Rightarrow> bool" where
  "less_eq_timeval a b \<longleftrightarrow> tv_sec a < tv_sec b \<or> tv_sec a = tv_sec b \<and> tv_usec a \<le> tv_usec b"

definition less_timeval :: "timeval \<Rightarrow> timeval \<Rightarrow> bool" where
  "less_timeval a b \<longleftrightarrow> tv_sec a < tv_sec b \<or> tv_sec a = tv_sec b \<and> tv_usec a < tv_usec b"

instance
proof
  fix a b c :: timeval
  show "a < b \<longleftrightarrow> a \<le> b \<and> \<not> b \<le> a" by (auto simp: less_timeval_def less_eq_timeval_def)
  show "a \<le> a" by (simp add: less_eq_timeval_def)
  show "a \<le> b \<or> b \<le> a" by (auto simp: less_eq_timeval_def)
  show "a \<le> b \<Longrightarrow> b \<le> c \<Longrightarrow> a \<le> c" by (auto simp: less_eq_timeval_def)
  show "a \<le> b \<Longrightarrow> b \<le> a \<Longrightarrow> a = b" by (cases a; cases b) (auto simp: less_eq_timeval_def)
qed

end

text \<open>A time as the clock gives it, far from the ends of the 64-bit range.\<close>

definition tv_ok :: "timeval \<Rightarrow> bool" where
  "tv_ok t \<longleftrightarrow> 0 \<le> tv_sec t \<and> tv_sec t < 2 ^ 42 \<and> 0 \<le> tv_usec t \<and> tv_usec t < 1000000"

text \<open>The difference in microseconds, in the 64 bits of a \<open>long\<close>.\<close>

definition timevaldelta :: "timeval \<Rightarrow> timeval \<Rightarrow> int" where
  "timevaldelta a b = signed_take_bit 63 (1000000 * (tv_sec a - tv_sec b) + tv_usec a - tv_usec b)"

lemma timevaldelta_exact:
  assumes "tv_ok a" "tv_ok b"
  shows "timevaldelta a b = 1000000 * (tv_sec a - tv_sec b) + tv_usec a - tv_usec b"
  using assms by (simp add: timevaldelta_def tv_ok_def signed_take_bit_int_eq_self)

lemma timevaldelta_neg_iff:
  assumes "tv_ok a" "tv_ok b"
  shows "timevaldelta a b < 0 \<longleftrightarrow> a < b"
  using assms by (auto simp: timevaldelta_exact less_timeval_def tv_ok_def)

section \<open>The queue\<close>

record 'f timer =
  tm_ref :: nat
  tm_timeout :: timeval
  tm_fct :: "'f option"
  tm_fct2 :: "'f option"

record 'f eventq =
  eq_timers :: "'f timer list"
  eq_fresh :: nat
  eq_calls :: nat

definition gettimeofday :: "(nat \<Rightarrow> timeval) \<Rightarrow> 'f eventq \<Rightarrow> timeval \<times> 'f eventq" where
  "gettimeofday tod q = (tod (eq_calls q), q\<lparr>eq_calls := eq_calls q + 1\<rparr>)"

text \<open>The walk from the head to the first timer that is due later.\<close>

fun timer_insert :: "'f timer \<Rightarrow> 'f timer list \<Rightarrow> 'f timer list" where
  "timer_insert t [] = [t]"
| "timer_insert t (p # ps) =
    (if tv_sec (tm_timeout p) > tv_sec (tm_timeout t)
        \<or> tv_sec (tm_timeout p) = tv_sec (tm_timeout t) \<and> tv_usec (tm_timeout p) > tv_usec (tm_timeout t)
     then t # p # ps else p # timer_insert t ps)"

text \<open>The time \<open>usec\<close> microseconds after \<open>now\<close>; \<open>usec\<close> is a \<open>uint64_t\<close>, to which the
  microseconds of the clock are added.\<close>

definition timeout_at :: "u64 \<Rightarrow> timeval \<Rightarrow> timeval" where
  "timeout_at usec now = (let u = usec + of_int (tv_usec now)
     in Timeval (tv_sec now + uint (u div 1000000)) (uint (u mod 1000000)))"

definition ccnl_set_timer :: "(nat \<Rightarrow> timeval) \<Rightarrow> u64 \<Rightarrow> 'f option \<Rightarrow> 'f eventq \<Rightarrow> nat \<times> 'f eventq" where
  "ccnl_set_timer tod usec fct q =
    (case gettimeofday tod q of (now, q1) \<Rightarrow>
      (let t = \<lparr>tm_ref = eq_fresh q1, tm_timeout = timeout_at usec now, tm_fct = None, tm_fct2 = fct\<rparr>
       in (eq_fresh q1, q1\<lparr>eq_fresh := eq_fresh q1 + 1, eq_timers := timer_insert t (eq_timers q1)\<rparr>)))"

definition ccnl_set_absolute_timer :: "timeval \<Rightarrow> 'f option \<Rightarrow> 'f eventq \<Rightarrow> nat \<times> 'f eventq" where
  "ccnl_set_absolute_timer abstime fct q =
    (let t = \<lparr>tm_ref = eq_fresh q, tm_timeout = abstime, tm_fct = None, tm_fct2 = fct\<rparr>
     in (eq_fresh q, q\<lparr>eq_fresh := eq_fresh q + 1, eq_timers := timer_insert t (eq_timers q)\<rparr>))"

fun timer_remove :: "nat \<Rightarrow> 'f timer list \<Rightarrow> 'f timer list" where
  "timer_remove h [] = []"
| "timer_remove h (p # ps) = (if tm_ref p = h then ps else p # timer_remove h ps)"

definition ccnl_rem_timer :: "nat \<Rightarrow> 'f eventq \<Rightarrow> 'f eventq" where
  "ccnl_rem_timer h q = q\<lparr>eq_timers := timer_remove h (eq_timers q)\<rparr>"

text \<open>
  The loop over the due timers. The timer stays at the head while its callback runs; afterwards
  \<open>eventqueue\<close> becomes its successor, whatever the callback put in front of it. A callback that
  removes its own timer frees what \<open>t->next\<close> is then read from. The wait is returned as an
  \<open>int\<close>. The loop does not end when callbacks keep setting timers in the past: fuel.
\<close>

definition timer_call :: "('f timer \<Rightarrow> 'f \<Rightarrow> 's \<times> 'f eventq \<Rightarrow> ('s \<times> 'f eventq) res) \<Rightarrow> 'f timer
    \<Rightarrow> 's \<times> 'f eventq \<Rightarrow> ('s \<times> 'f eventq) res" where
  "timer_call call t sq = (case tm_fct t of Some f \<Rightarrow> call t f sq
     | None \<Rightarrow> (case tm_fct2 t of Some f \<Rightarrow> call t f sq | None \<Rightarrow> Inr sq))"

fun run_events_loop :: "nat \<Rightarrow> ('f timer \<Rightarrow> 'f \<Rightarrow> 's \<times> 'f eventq \<Rightarrow> ('s \<times> 'f eventq) res) \<Rightarrow> timeval
    \<Rightarrow> 's \<times> 'f eventq \<Rightarrow> (int \<times> 's \<times> 'f eventq) res" where
  "run_events_loop 0 call now sq = Inl Diverge"
| "run_events_loop (Suc k) call now sq = (case eq_timers (snd sq) of
      [] \<Rightarrow> Inr (-1, sq)
    | t # _ \<Rightarrow>
        (let usec = timevaldelta (tm_timeout t) now in
         if usec \<ge> 0 then Inr (signed_take_bit 31 usec, sq)
         else bindE (timer_call call t sq) (\<lambda>(s, q).
           case dropWhile (\<lambda>x. tm_ref x \<noteq> tm_ref t) (eq_timers q) of
             [] \<Rightarrow> Inl Uaf
           | _ # rest \<Rightarrow> run_events_loop k call now (s, q\<lparr>eq_timers := rest\<rparr>))))"

definition ccnl_run_events :: "nat \<Rightarrow> (nat \<Rightarrow> timeval) \<Rightarrow> ('f timer \<Rightarrow> 'f \<Rightarrow> 's \<times> 'f eventq \<Rightarrow> ('s \<times> 'f eventq) res)
    \<Rightarrow> 's \<times> 'f eventq \<Rightarrow> (int \<times> 's \<times> 'f eventq) res" where
  "ccnl_run_events k tod call sq = (case sq of (s, q) \<Rightarrow>
     (case gettimeofday tod q of (now, q1) \<Rightarrow> run_events_loop k call now (s, q1)))"

section \<open>The queue is ordered\<close>

abbreviation timeouts_sorted :: "'f timer list \<Rightarrow> bool" where
  "timeouts_sorted ts \<equiv> sorted (map tm_timeout ts)"

lemma timer_insert_less:
  "timer_insert t (p # ps) = (if tm_timeout t < tm_timeout p then t # p # ps else p # timer_insert t ps)"
  by (auto simp: less_timeval_def)

declare timer_insert.simps(2) [simp del]
declare timer_insert_less [simp]

lemma mset_timer_insert [simp]: "mset (timer_insert t ts) = add_mset t (mset ts)"
  by (induction ts) (auto simp: add_mset_commute)

lemma set_timer_insert [simp]: "set (timer_insert t ts) = insert t (set ts)"
  by (metis mset_timer_insert set_mset_add_mset_insert set_mset_mset)

lemma sorted_timer_insert: "timeouts_sorted ts \<Longrightarrow> timeouts_sorted (timer_insert t ts)"
  by (induction ts) (auto simp: not_less order.strict_implies_order intro: order_trans)

text \<open>Timers that are due at the same time keep the order in which they were set.\<close>

lemma filter_later: "timeouts_sorted (p # ps) \<Longrightarrow> k < tm_timeout p \<Longrightarrow> filter (\<lambda>x. tm_timeout x = k) ps = []"
  by (auto simp: filter_empty_conv)

lemma filter_timer_insert:
  "timeouts_sorted ts \<Longrightarrow>
   filter (\<lambda>x. tm_timeout x = k) (timer_insert t ts) = filter (\<lambda>x. tm_timeout x = k) (ts @ [t])"
  using filter_later by (induction ts) fastforce+

lemma timer_insert_eq_sort_key:
  assumes "timeouts_sorted ts"
  shows "timer_insert t ts = sort_key tm_timeout (ts @ [t])"
proof (rule properties_for_sort_key[symmetric])
  show "mset (timer_insert t ts) = mset (ts @ [t])" by simp
  show "timeouts_sorted (timer_insert t ts)" using assms by (rule sorted_timer_insert)
  fix k assume "k \<in> set (timer_insert t ts)"
  then show "filter (\<lambda>x. tm_timeout k = tm_timeout x) (timer_insert t ts)
      = filter (\<lambda>x. tm_timeout k = tm_timeout x) (ts @ [t])"
    using filter_timer_insert[OF assms, of "tm_timeout k" t] by (simp add: eq_commute)
qed

lemma sort_key_snoc: "sort_key f (sort_key f xs @ [x]) = sort_key f (xs @ [x])"
proof (rule properties_for_sort_key)
  fix k
  have st: "filter (\<lambda>y. f k = f y) (sort_key f zs) = filter (\<lambda>y. f k = f y) zs" for zs
    using sort_key_stable[of f "f k" zs] by (simp add: eq_commute)
  show "filter (\<lambda>y. f k = f y) (sort_key f (xs @ [x])) = filter (\<lambda>y. f k = f y) (sort_key f xs @ [x])"
    by (simp only: st filter_append)
qed simp_all

lemma timer_inserts_sort_key: "foldl (\<lambda>ts t. timer_insert t ts) [] news = sort_key tm_timeout news"
  by (induction news rule: rev_induct) (simp_all add: timer_insert_eq_sort_key sort_key_snoc)

section \<open>Removing\<close>

lemma timer_remove_absent: "h \<notin> tm_ref ` set ts \<Longrightarrow> timer_remove h ts = ts"
  by (induction ts) auto

lemma timer_remove_insert:
  "tm_ref t \<notin> tm_ref ` set ts \<Longrightarrow> timer_remove (tm_ref t) (timer_insert t ts) = ts"
  by (induction ts) (auto simp: timer_remove_absent)

section \<open>Running the due timers\<close>

definition eventq_wf :: "'f eventq \<Rightarrow> bool" where
  "eventq_wf q \<longleftrightarrow> timeouts_sorted (eq_timers q) \<and> distinct (map tm_ref (eq_timers q))
     \<and> (\<forall>t\<in>set (eq_timers q). tm_ref t < eq_fresh q \<and> tv_ok (tm_timeout t))"

text \<open>The due timers in turn, each callback run once with its own timer still in the queue.\<close>

fun run_due :: "('f timer \<Rightarrow> 'f \<Rightarrow> 's \<times> 'f eventq \<Rightarrow> ('s \<times> 'f eventq) res) \<Rightarrow> 'f timer list
    \<Rightarrow> 's \<times> 'f eventq \<Rightarrow> ('s \<times> 'f eventq) res" where
  "run_due call [] sq = Inr sq"
| "run_due call (t # ts) sq =
    bindE (timer_call call t sq)
      (\<lambda>(s, q). run_due call ts (s, q\<lparr>eq_timers := timer_remove (tm_ref t) (eq_timers q)\<rparr>))"

definition due_at :: "timeval \<Rightarrow> 'f timer list \<Rightarrow> 'f timer list" where
  "due_at now ts = takeWhile (\<lambda>t. tm_timeout t < now) ts"

definition next_wait :: "timeval \<Rightarrow> 'f eventq \<Rightarrow> int" where
  "next_wait now q = (case eq_timers q of [] \<Rightarrow> -1 | t # _ \<Rightarrow> signed_take_bit 31 (timevaldelta (tm_timeout t) now))"

text \<open>A clock that does not go back and is far from the end of its range.\<close>

definition clock_ok :: "(nat \<Rightarrow> timeval) \<Rightarrow> bool" where
  "clock_ok tod \<longleftrightarrow> (\<forall>i j. i \<le> j \<longrightarrow> tod i \<le> tod j) \<and> (\<forall>i. tv_ok (tod i) \<and> tv_sec (tod i) < 2 ^ 41)"

lemma timeout_later:
  assumes "tv_ok now" "tv_sec now < 2 ^ 41" "usec < 2 ^ 60"
  shows "now \<le> timeout_at usec now \<and> tv_ok (timeout_at usec now)"
proof -
  have u: "0 \<le> tv_usec now" "tv_usec now < 1000000" using assms(1) by (simp_all add: tv_ok_def)
  have "uint usec < 2 ^ 60" using assms(3) by (simp add: word_less_def)
  then have s: "uint (usec + of_int (tv_usec now)) = uint usec + tv_usec now"
    using u by (simp add: uint_word_ariths of_int_def[symmetric] uint_word_of_int take_bit_int_eq_self mod_add_right_eq)
  have "0 \<le> uint usec" by simp
  then have "0 \<le> (uint usec + tv_usec now) div 1000000" using u by (intro pos_imp_zdiv_nonneg_iff[THEN iffD2]) simp_all
  then show ?thesis using u assms \<open>uint usec < 2 ^ 60\<close>
    by (auto simp: timeout_at_def Let_def less_eq_timeval_def tv_ok_def uint_div uint_mod s)
qed

text \<open>Callbacks that touch the queue by setting timers only.\<close>

locale timer_client =
  fixes call :: "'f timer \<Rightarrow> 'f \<Rightarrow> 's \<times> 'f eventq \<Rightarrow> ('s \<times> 'f eventq) res"
    and tod :: "nat \<Rightarrow> timeval"
  assumes sets: "call t f (s, q) = Inr (s', q') \<Longrightarrow>
      \<exists>news. eq_timers q' = foldl (\<lambda>ts x. timer_insert x ts) (eq_timers q) news
        \<and> eq_calls q \<le> eq_calls q' \<and> eq_fresh q \<le> eq_fresh q' \<and> distinct (map tm_ref news)
        \<and> (\<forall>x\<in>set news. (\<exists>i u. eq_calls q \<le> i \<and> u < 2 ^ 60 \<and> tm_timeout x = timeout_at u (tod i))
             \<and> eq_fresh q \<le> tm_ref x \<and> tm_ref x < eq_fresh q')"
begin

lemma inserts_behind:
  assumes "\<forall>x\<in>set news. now \<le> tm_timeout x" "tm_timeout t < now"
  shows "\<exists>us. foldl (\<lambda>ts x. timer_insert x ts) (t # ts) news = t # us \<and> due_at now us = due_at now ts"
  using assms
proof (induction news arbitrary: ts)
  case Nil
  then show ?case by simp
next
  case (Cons x news)
  have "due_at now (timer_insert x ts) = due_at now ts"
    using Cons.prems by (induction ts) (auto simp: due_at_def not_less)
  then show ?case using Cons.IH[of "timer_insert x ts"] Cons.prems by (auto simp: not_less)
qed

lemma inserts_wf:
  assumes "timeouts_sorted ts"
  shows "timeouts_sorted (foldl (\<lambda>ts x. timer_insert x ts) ts news)
    \<and> mset (foldl (\<lambda>ts x. timer_insert x ts) ts news) = mset (ts @ news)"
  using assms by (induction news arbitrary: ts) (simp_all add: sorted_timer_insert)

lemma call_keeps:
  assumes wf: "eventq_wf q" and q: "eq_timers q = t # ts" and due: "tm_timeout t < now"
    and now: "now \<le> tod (eq_calls q)" and tod: "clock_ok tod" and c: "call t f (s, q) = Inr (s', q')"
  shows "\<exists>us. eq_timers q' = t # us \<and> due_at now us = due_at now ts \<and> eventq_wf q' \<and> now \<le> tod (eq_calls q')
    \<and> set ts \<subseteq> set us"
proof -
  obtain news where n: "eq_timers q' = foldl (\<lambda>ts x. timer_insert x ts) (eq_timers q) news"
    "eq_calls q \<le> eq_calls q'" "eq_fresh q \<le> eq_fresh q'" "distinct (map tm_ref news)"
    and ns: "\<forall>x\<in>set news. (\<exists>i u. eq_calls q \<le> i \<and> u < 2 ^ 60 \<and> tm_timeout x = timeout_at u (tod i))
       \<and> eq_fresh q \<le> tm_ref x \<and> tm_ref x < eq_fresh q'"
    using sets[OF c] by blast
  have n5: "\<forall>x\<in>set news. tod (eq_calls q) \<le> tm_timeout x \<and> tv_ok (tm_timeout x) \<and> eq_fresh q \<le> tm_ref x \<and> tm_ref x < eq_fresh q'"
  proof
    fix x assume x: "x \<in> set news"
    then obtain i u where i: "eq_calls q \<le> i" "u < 2 ^ 60" "tm_timeout x = timeout_at u (tod i)" using ns by blast
    have "tod (eq_calls q) \<le> tod i" "tod i \<le> timeout_at u (tod i) \<and> tv_ok (timeout_at u (tod i))"
      using tod i(1) timeout_later[OF _ _ i(2), of "tod i"] by (simp_all add: clock_ok_def)
    then show "tod (eq_calls q) \<le> tm_timeout x \<and> tv_ok (tm_timeout x) \<and> eq_fresh q \<le> tm_ref x \<and> tm_ref x < eq_fresh q'"
      using ns x i(3) by (auto intro: order_trans)
  qed
  have ms: "timeouts_sorted (eq_timers q')" "mset (eq_timers q') = mset (eq_timers q @ news)"
    using inserts_wf[of "eq_timers q" news] wf n(1) by (simp_all add: eventq_wf_def)
  have "mset (map tm_ref (eq_timers q')) = mset (map tm_ref (eq_timers q @ news))"
    using ms(2) by (simp only: mset_map)
  moreover have "distinct (map tm_ref (eq_timers q @ news))"
    using wf n(4) n5 by (fastforce simp: eventq_wf_def)
  ultimately have "distinct (map tm_ref (eq_timers q'))" by (metis mset_eq_imp_distinct_iff)
  moreover have eqs: "set (eq_timers q') = set (eq_timers q) \<union> set news"
    using ms(2) by (metis set_append set_mset_mset)
  ultimately have "eventq_wf q'" using wf n(3) n5 ms(1) by (fastforce simp: eventq_wf_def)
  moreover have "now \<le> tod (eq_calls q')" using now n(2) tod unfolding clock_ok_def by (blast intro: order_trans)
  moreover have "\<forall>x\<in>set news. now \<le> tm_timeout x" using n5 now order_trans by blast
  moreover have "\<exists>us. eq_timers q' = t # us \<and> due_at now us = due_at now ts"
    using calculation(3) inserts_behind[OF _ due, of news ts] n(1) q by auto
  moreover have "t \<notin> set ts" using wf q by (auto simp: eventq_wf_def)
  ultimately show ?thesis using eqs q by auto
qed

lemma timer_call_keeps:
  assumes "eventq_wf q" "eq_timers q = t # ts" "tm_timeout t < now" "now \<le> tod (eq_calls q)" "clock_ok tod"
    "timer_call call t (s, q) = Inr (s', q')"
  shows "\<exists>us. eq_timers q' = t # us \<and> due_at now us = due_at now ts \<and> eventq_wf q' \<and> now \<le> tod (eq_calls q')
    \<and> set ts \<subseteq> set us"
  using assms call_keeps[OF assms(1-5)] by (auto simp: timer_call_def split: option.splits)

lemma run_events_loop_eq:
  assumes tod: "clock_ok tod" and "eventq_wf q" and "tv_ok now" and "now \<le> tod (eq_calls q)" and "length (due_at now (eq_timers q)) < k"
  shows "run_events_loop k call now (s, q)
    = bindE (run_due call (due_at now (eq_timers q)) (s, q)) (\<lambda>(s', q'). Inr (next_wait now q', s', q'))"
  using assms(2-)
proof (induction k arbitrary: s q)
  case 0
  then show ?case by simp
next
  case (Suc k)
  show ?case
  proof (cases "eq_timers q")
    case Nil
    then show ?thesis by (simp add: due_at_def next_wait_def)
  next
    case (Cons t ts)
    have neg: "timevaldelta (tm_timeout t) now < 0 \<longleftrightarrow> tm_timeout t < now"
      using Suc.prems(1,2) Cons by (intro timevaldelta_neg_iff) (auto simp: eventq_wf_def)
    show ?thesis
    proof (cases "tm_timeout t < now \<and> (\<exists>sq'. timer_call call t (s, q) = Inr sq')")
      case False
      then show ?thesis using Cons neg
        by (cases "timer_call call t (s, q)") (auto simp: due_at_def next_wait_def not_less Let_def)
    next
      case True
      then obtain s' q' us where c: "timer_call call t (s, q) = Inr (s', q')" and
        us: "eq_timers q' = t # us" "due_at now us = due_at now ts" "eventq_wf q'" "now \<le> tod (eq_calls q')"
        using timer_call_keeps[OF Suc.prems(1) Cons _ Suc.prems(3) tod] by fast
      have "eventq_wf (q'\<lparr>eq_timers := us\<rparr>)" using us(1,3) by (simp add: eventq_wf_def)
      moreover have "length (due_at now us) < k" using Suc.prems(4) Cons True us(2) by (simp add: due_at_def)
      ultimately show ?thesis using us Suc.IH[of "q'\<lparr>eq_timers := us\<rparr>" s'] Suc.prems(2) Cons neg c True
        by (simp add: due_at_def Let_def)
    qed
  qed
qed

text \<open>What the callbacks of the due timers leave in the queue is not due, and no waiting timer is lost.\<close>

lemma run_due_keeps:
  assumes tod: "clock_ok tod" and "eventq_wf q" and "now \<le> tod (eq_calls q)" and "run_due call (due_at now (eq_timers q)) (s, q) = Inr (s', q')"
  shows "eventq_wf q' \<and> (\<forall>t\<in>set (eq_timers q'). now \<le> tm_timeout t)
    \<and> {t\<in>set (eq_timers q). now \<le> tm_timeout t} \<subseteq> set (eq_timers q')"
  using assms(2-)
proof (induction "due_at now (eq_timers q)" arbitrary: s q)
  case Nil
  then have "eq_timers q = [] \<or> now \<le> tm_timeout (hd (eq_timers q))"
    by (cases "eq_timers q") (auto simp: due_at_def not_less split: if_splits)
  then have "\<forall>t\<in>set (eq_timers q). now \<le> tm_timeout t"
    using Nil.prems(1) by (cases "eq_timers q") (auto simp: eventq_wf_def intro: order_trans)
  moreover have "q' = q" using Nil by (simp add: Nil.hyps[symmetric])
  ultimately show ?case using Nil by simp
next
  case (Cons t ds)
  then obtain ts where q: "eq_timers q = t # ts" and t: "tm_timeout t < now" and ds: "ds = due_at now ts"
    by (cases "eq_timers q") (auto simp: due_at_def split: if_splits)
  have "run_due call (t # ds) (s, q) = Inr (s', q')" using Cons.prems(3) Cons.hyps(2) by simp
  then obtain s1 q1 where c: "timer_call call t (s, q) = Inr (s1, q1)"
    and r: "run_due call ds (s1, q1\<lparr>eq_timers := timer_remove (tm_ref t) (eq_timers q1)\<rparr>) = Inr (s', q')"
    by (auto simp: bindE_eq_Inr_iff)
  obtain us where us: "eq_timers q1 = t # us" "due_at now us = due_at now ts" "eventq_wf q1" "now \<le> tod (eq_calls q1)"
    "set ts \<subseteq> set us" using timer_call_keeps[OF Cons.prems(1) q t Cons.prems(2) tod c] by blast
  have "eventq_wf (q1\<lparr>eq_timers := us\<rparr>)" using us(1,3) by (simp add: eventq_wf_def)
  then show ?case using Cons.hyps(1)[of "q1\<lparr>eq_timers := us\<rparr>" s1] us r ds t q by auto
qed

end

end
