(* ===== verification/Events.thy ===== *)
theory Events
  imports Timer Relay_System
begin

text \<open>
  The event loop's clockwork: the periodic callback \<open>ccnl_ageing\<close> of
  \<open>ccnl-unix/src/ccnl-unix.c\<close> over the timer queue. The callbacks of the relay only set timers, so the contract
  \<open>timer_client\<close> holds for them and \<open>ccnl_run_events\<close> is one pass over the due timers.
\<close>

section \<open>Ageing\<close>

datatype event = Ev_ageing

definition ccnl_ageing :: "(nat \<Rightarrow> timeval) \<Rightarrow> relay \<times> event eventq \<Rightarrow> (relay \<times> event eventq) res" where
  "ccnl_ageing tod rq = (case rq of (r, q) \<Rightarrow>
     bindE (ccnl_do_ageing r) (\<lambda>r1. Inr (r1, snd (ccnl_set_timer tod 1000000 (Some Ev_ageing) q))))"

definition relay_event :: "(nat \<Rightarrow> timeval) \<Rightarrow> event timer \<Rightarrow> event \<Rightarrow> relay \<times> event eventq
    \<Rightarrow> (relay \<times> event eventq) res" where
  "relay_event tod t ev rq = (case ev of Ev_ageing \<Rightarrow> ccnl_ageing tod rq)"

lemma set_timer_sets:
  assumes "usec < 2 ^ 60"
  shows "\<exists>news. eq_timers (snd (ccnl_set_timer tod usec f q)) = foldl (\<lambda>ts x. timer_insert x ts) (eq_timers q) news
    \<and> eq_calls q \<le> eq_calls (snd (ccnl_set_timer tod usec f q)) \<and> eq_fresh q \<le> eq_fresh (snd (ccnl_set_timer tod usec f q))
    \<and> distinct (map tm_ref news)
    \<and> (\<forall>x\<in>set news. (\<exists>i u. eq_calls q \<le> i \<and> u < 2 ^ 60 \<and> tm_timeout x = timeout_at u (tod i))
         \<and> eq_fresh q \<le> tm_ref x \<and> tm_ref x < eq_fresh (snd (ccnl_set_timer tod usec f q)))"
  using assms
  by (intro exI[of _ "[\<lparr>tm_ref = eq_fresh q, tm_timeout = timeout_at usec (tod (eq_calls q)), tm_fct = None, tm_fct2 = f\<rparr>]"])
    (auto simp: ccnl_set_timer_def gettimeofday_def Let_def)

interpretation relay_events: timer_client "relay_event tod" tod for tod
proof
  fix t f and s s' :: relay and q q' :: "event eventq"
  assume "relay_event tod t f (s, q) = Inr (s', q')"
  then have q': "q' = snd (ccnl_set_timer tod 1000000 (Some Ev_ageing) q)"
    by (auto simp: relay_event_def ccnl_ageing_def bindE_eq_Inr_iff split: event.splits)
  show "\<exists>news. eq_timers q' = foldl (\<lambda>ts x. timer_insert x ts) (eq_timers q) news
        \<and> eq_calls q \<le> eq_calls q' \<and> eq_fresh q \<le> eq_fresh q' \<and> distinct (map tm_ref news)
        \<and> (\<forall>x\<in>set news. (\<exists>i u. eq_calls q \<le> i \<and> u < 2 ^ 60 \<and> tm_timeout x = timeout_at u (tod i))
             \<and> eq_fresh q \<le> tm_ref x \<and> tm_ref x < eq_fresh q')"
    unfolding q' by (rule set_timer_sets) simp
qed

section \<open>Setting timers is a stable sort\<close>

text \<open>The timers that a sequence of calls of \<open>ccnl_set_timer\<close> makes, in the order of the calls.\<close>

fun set_timers :: "(nat \<Rightarrow> timeval) \<Rightarrow> (u64 \<times> 'f option) list \<Rightarrow> 'f eventq \<Rightarrow> 'f eventq" where
  "set_timers tod [] q = q"
| "set_timers tod ((u, f) # rs) q = set_timers tod rs (snd (ccnl_set_timer tod u f q))"

fun timers_of :: "(nat \<Rightarrow> timeval) \<Rightarrow> (u64 \<times> 'f option) list \<Rightarrow> nat \<Rightarrow> nat \<Rightarrow> 'f timer list" where
  "timers_of tod [] i n = []"
| "timers_of tod ((u, f) # rs) i n =
     \<lparr>tm_ref = i, tm_timeout = timeout_at u (tod n), tm_fct = None, tm_fct2 = f\<rparr> # timers_of tod rs (i + 1) (n + 1)"

lemma set_timers_inserts:
  "eq_timers (set_timers tod rs q) = foldl (\<lambda>ts t. timer_insert t ts) (eq_timers q) (timers_of tod rs (eq_fresh q) (eq_calls q))"
  by (induction rs arbitrary: q) (auto simp: ccnl_set_timer_def gettimeofday_def Let_def)

text \<open>
  C34. Timers set on an empty queue stand in it in the order of a stable sort by the time they are
  due: earlier ones first, and those due at the same time in the order of the calls.
\<close>
theorem set_timers_stable_sort:
  "eq_timers (set_timers tod rs \<lparr>eq_timers = [], eq_fresh = i, eq_calls = n\<rparr>) = sort_key tm_timeout (timers_of tod rs i n)"
  by (simp add: set_timers_inserts timer_inserts_sort_key)

section \<open>The loop over the due timers\<close>

lemma run_events_eq:
  assumes "clock_ok tod" "eventq_wf q" "length (eq_timers q) < k"
  shows "ccnl_run_events k tod (relay_event tod) (r, q)
    = bindE (run_due (relay_event tod) (due_at (tod (eq_calls q)) (eq_timers q)) (r, q\<lparr>eq_calls := eq_calls q + 1\<rparr>))
        (\<lambda>(r', q'). Inr (next_wait (tod (eq_calls q)) q', r', q'))"
proof -
  have "length (due_at (tod (eq_calls q)) (eq_timers q)) \<le> length (eq_timers q)"
    by (simp add: due_at_def length_takeWhile_le)
  then show ?thesis
    using assms relay_events.run_events_loop_eq[of tod "q\<lparr>eq_calls := eq_calls q + 1\<rparr>" "tod (eq_calls q)" k r]
    by (simp add: ccnl_run_events_def gettimeofday_def clock_ok_def eventq_wf_def)
qed

text \<open>Every callback of the queue ages the relay.\<close>

definition ageing_only :: "event eventq \<Rightarrow> bool" where
  "ageing_only q \<longleftrightarrow> (\<forall>t\<in>set (eq_timers q). tm_fct t = None \<and> tm_fct2 t = Some Ev_ageing)"

lemma ageing_round:
  assumes "relay_wf r" "ageing_only q" "eventq_wf q" "t \<in> set (eq_timers q)"
  shows "\<exists>r' q'. timer_call (relay_event tod) t (r, q) = Inr (r', q') \<and> ccnl_do_ageing r = Inr r' \<and> relay_wf r'
    \<and> ageing_only q' \<and> length (eq_timers q') = length (eq_timers q) + 1
    \<and> q' = snd (ccnl_set_timer tod 1000000 (Some Ev_ageing) q)"
proof -
  obtain r' where r': "ccnl_do_ageing r = Inr r'" "relay_wf r'" using do_ageing_wf[OF assms(1)] by auto
  have "length (timer_insert x ts) = length ts + 1" for x and ts :: "event timer list"
    by (metis mset_timer_insert size_mset size_add_mset Suc_eq_plus1)
  then show ?thesis using r' assms
    by (auto simp: timer_call_def ageing_only_def relay_event_def ccnl_ageing_def ccnl_set_timer_def gettimeofday_def Let_def)
qed

lemma run_due_ages:
  assumes "clock_ok tod" "relay_wf r" "ageing_only q" "eventq_wf q" "now \<le> tod (eq_calls q)"
  shows "\<exists>r' q'. run_due (relay_event tod) (due_at now (eq_timers q)) (r, q) = Inr (r', q') \<and> relay_wf r'
    \<and> ageing_only q' \<and> length (eq_timers q') = length (eq_timers q)"
  using assms
proof (induction "due_at now (eq_timers q)" arbitrary: r q)
  case Nil
  then show ?case by (simp add: Nil.hyps[symmetric])
next
  case (Cons t ds)
  then obtain ts where q: "eq_timers q = t # ts" and t: "tm_timeout t < now" and ds: "ds = due_at now ts"
    by (cases "eq_timers q") (auto simp: due_at_def split: if_splits)
  obtain r1 q1 where c: "timer_call (relay_event tod) t (r, q) = Inr (r1, q1)" "relay_wf r1" "ageing_only q1"
    "length (eq_timers q1) = length (eq_timers q) + 1"
    using ageing_round[OF Cons.prems(2,3,4), of t tod] q by auto
  obtain us where us: "eq_timers q1 = t # us" "due_at now us = due_at now ts" "eventq_wf q1" "now \<le> tod (eq_calls q1)"
    using relay_events.timer_call_keeps[OF Cons.prems(4) q t Cons.prems(5,1) c(1)] by blast
  have "eventq_wf (q1\<lparr>eq_timers := us\<rparr>)" "ageing_only (q1\<lparr>eq_timers := us\<rparr>)"
    using us(1,3) c(3) by (simp_all add: eventq_wf_def ageing_only_def)
  moreover have "due_at now (eq_timers q) = t # due_at now ts" using q t by (simp add: due_at_def)
  ultimately show ?case using Cons.hyps(1)[of "q1\<lparr>eq_timers := us\<rparr>" r1] Cons.prems(1) us c ds q by simp
qed

lemma run_events_ages:
  assumes "clock_ok tod" "relay_wf r" "eventq_wf q" "ageing_only q" "length (eq_timers q) < k"
  shows "\<exists>w r' q'. ccnl_run_events k tod (relay_event tod) (r, q) = Inr (w, r', q') \<and> relay_wf r' \<and> eventq_wf q'
    \<and> ageing_only q' \<and> length (eq_timers q') = length (eq_timers q)
    \<and> (\<forall>t\<in>set (eq_timers q'). tod (eq_calls q) \<le> tm_timeout t)
    \<and> {t\<in>set (eq_timers q). tod (eq_calls q) \<le> tm_timeout t} \<subseteq> set (eq_timers q')"
proof -
  let ?q = "q\<lparr>eq_calls := eq_calls q + 1\<rparr>"
  have q: "eventq_wf ?q" "ageing_only ?q" "tod (eq_calls q) \<le> tod (eq_calls ?q)"
    using assms by (simp_all add: eventq_wf_def ageing_only_def clock_ok_def)
  obtain r' q' where d: "run_due (relay_event tod) (due_at (tod (eq_calls q)) (eq_timers ?q)) (r, ?q) = Inr (r', q')" "relay_wf r'"
    "ageing_only q'" "length (eq_timers q') = length (eq_timers q)"
    using run_due_ages[OF assms(1,2) q(2,1,3)] by auto
  then show ?thesis using run_events_eq[OF assms(1,3,5), of r] relay_events.run_due_keeps[OF assms(1) q(1,3) d(1)] by simp
qed

text \<open>
  C35. With a clock that does not go back, one pass of the event loop ends, serves every timer that
  is due, leaves a consistent relay, loses no timer that waits, and leaves as many timers as before,
  none of them due: the ageing never stops.
\<close>
theorem run_events_keeps_ageing:
  assumes "clock_ok tod" "relay_wf r" "eventq_wf q" "ageing_only q" "length (eq_timers q) < k"
  shows "\<exists>w r' q'. ccnl_run_events k tod (relay_event tod) (r, q) = Inr (w, r', q') \<and> relay_wf r' \<and> eventq_wf q'
    \<and> ageing_only q' \<and> length (eq_timers q') = length (eq_timers q)
    \<and> (\<forall>t\<in>set (eq_timers q'). tod (eq_calls q) \<le> tm_timeout t)
    \<and> {t\<in>set (eq_timers q). tod (eq_calls q) \<le> tm_timeout t} \<subseteq> set (eq_timers q')"
  using assms by (rule run_events_ages)

definition sample_clock :: "nat \<Rightarrow> timeval" where
  "sample_clock n = Timeval (5 + int (min n 3)) 0"

definition sample_events :: "event eventq" where
  "sample_events = \<lparr>eq_timers = map (\<lambda>(i, s). \<lparr>tm_ref = i, tm_timeout = Timeval s 0, tm_fct = None, tm_fct2 = Some Ev_ageing\<rparr>)
     [(0, 1), (1, 2), (2, 9)], eq_fresh = 3, eq_calls = 0\<rparr>"

theorem run_events_keeps_ageing_witness:
  "\<exists>w r' q'. ccnl_run_events 4 sample_clock (relay_event sample_clock) (empty_relay [] 0 0, sample_events) = Inr (w, r', q')
    \<and> relay_wf r' \<and> eventq_wf q' \<and> ageing_only q' \<and> length (eq_timers q') = length (eq_timers sample_events)
    \<and> (\<forall>t\<in>set (eq_timers q'). sample_clock (eq_calls sample_events) \<le> tm_timeout t)
    \<and> {t\<in>set (eq_timers sample_events). sample_clock (eq_calls sample_events) \<le> tm_timeout t} \<subseteq> set (eq_timers q')"
proof (rule run_events_keeps_ageing)
  show "clock_ok sample_clock" by (auto simp: clock_ok_def sample_clock_def less_eq_timeval_def tv_ok_def)
qed (simp_all add: empty_relay_wf eventq_wf_def ageing_only_def sample_events_def less_eq_timeval_def tv_ok_def)

end
