(* ===== verification/Sched.thy ===== *)
theory Sched
  imports Timer "HOL-Library.Signed_Division"
begin

text \<open>
  The schedulers of \<open>ccnl-core/src/ccnl-sched.c\<close> (the build without the chemflow engine): the
  dummy one that lets everything pass, and the packet rate limiter. A scheduler is asked for
  permission with \<open>ccnl_sched_RTS\<close> and grants it through its callback \<open>cts\<close>, at once or
  from a timer. The call of \<open>cts\<close> is the last thing each routine does: the model returns
  whether it happens, with the arguments \<open>aux1\<close> and \<open>aux2\<close> (pointers, \<open>None\<close> is NULL).
\<close>

type_synonym aux = "nat option \<times> nat option"

record 'f sched =
  sc_mode :: int
  sc_cts :: 'f
  sc_aux :: aux
  sc_cnt :: int
  sc_pendingTimer :: "nat option"
  sc_nextTX :: timeval
  sc_ipi :: int

definition sched_zero :: "'f \<Rightarrow> 'f sched" where
  "sched_zero cts = \<lparr>sc_mode = 0, sc_cts = cts, sc_aux = (None, None), sc_cnt = 0, sc_pendingTimer = None,
     sc_nextTX = Timeval 0 0, sc_ipi = 0\<rparr>"

definition ccnl_sched_dummy_new :: "'f \<Rightarrow> 'f sched" where
  "ccnl_sched_dummy_new cts = sched_zero cts"

definition ccnl_sched_pktrate_new :: "(nat \<Rightarrow> timeval) \<Rightarrow> 'f \<Rightarrow> int \<Rightarrow> ('f \<times> aux) eventq \<Rightarrow> 'f sched \<times> ('f \<times> aux) eventq" where
  "ccnl_sched_pktrate_new tod cts inter_packet_interval q =
    (case gettimeofday tod q of (now, q1) \<Rightarrow>
      ((sched_zero cts)\<lparr>sc_mode := 1, sc_nextTX := now, sc_ipi := inter_packet_interval\<rparr>, q1))"

text \<open>Made by \<open>calloc\<close> and left in mode 0: this limiter limits nothing.\<close>

definition ccnl_sched_packetratelimiter_new :: "(nat \<Rightarrow> timeval) \<Rightarrow> int \<Rightarrow> 'f \<Rightarrow> aux \<Rightarrow> ('f \<times> aux) eventq
    \<Rightarrow> 'f sched \<times> ('f \<times> aux) eventq" where
  "ccnl_sched_packetratelimiter_new tod inter_packet_interval cts aux q =
    (case gettimeofday tod q of (now, q1) \<Rightarrow>
      ((sched_zero cts)\<lparr>sc_aux := aux, sc_nextTX := now, sc_ipi := inter_packet_interval\<rparr>, q1))"

text \<open>The microseconds are added without a carry.\<close>

definition tv_add :: "timeval \<Rightarrow> int \<Rightarrow> timeval" where
  "tv_add t ipi = Timeval (tv_sec t + ipi sdiv 1000000) (tv_usec t + ipi smod 1000000)"

text \<open>The tail \<open>RTS\<close> and \<open>CTS_done\<close> share.\<close>

definition sched_grant :: "(nat \<Rightarrow> timeval) \<Rightarrow> 'f sched \<Rightarrow> ('f \<times> aux) eventq
    \<Rightarrow> aux option \<times> 'f sched \<times> ('f \<times> aux) eventq" where
  "sched_grant tod s q =
    (case gettimeofday tod q of (now, q1) \<Rightarrow>
      (let since = timevaldelta (sc_nextTX s) now in
       if since \<le> 0 then (Some (sc_aux s), s\<lparr>sc_nextTX := tv_add now (sc_ipi s)\<rparr>, q1)
       else case ccnl_set_timer tod (word_of_int since) (Some (sc_cts s, sc_aux s)) q1 of (h, q2) \<Rightarrow>
         (None, s\<lparr>sc_pendingTimer := Some h, sc_nextTX := tv_add (sc_nextTX s) (sc_ipi s)\<rparr>, q2)))"

definition ccnl_sched_RTS :: "(nat \<Rightarrow> timeval) \<Rightarrow> 'f sched option \<Rightarrow> int \<Rightarrow> aux \<Rightarrow> ('f \<times> aux) eventq
    \<Rightarrow> aux option \<times> 'f sched option \<times> ('f \<times> aux) eventq" where
  "ccnl_sched_RTS tod so cnt aux q = (case so of None \<Rightarrow> (None, None, q)
    | Some s \<Rightarrow>
        (let s1 = s\<lparr>sc_cnt := signed_take_bit 31 (sc_cnt s + cnt), sc_aux := aux\<rparr> in
         if sc_mode s1 = 0 then (Some aux, Some s1, q)
         else case sched_grant tod s1 q of (c, s2, q2) \<Rightarrow> (c, Some s2, q2)))"

definition ccnl_sched_CTS_done :: "(nat \<Rightarrow> timeval) \<Rightarrow> 'f sched option \<Rightarrow> int \<Rightarrow> ('f \<times> aux) eventq
    \<Rightarrow> aux option \<times> 'f sched option \<times> ('f \<times> aux) eventq" where
  "ccnl_sched_CTS_done tod so cnt q = (case so of None \<Rightarrow> (None, None, q)
    | Some s \<Rightarrow>
        (let s1 = s\<lparr>sc_cnt := signed_take_bit 31 (sc_cnt s - cnt)\<rparr> in
         if sc_cnt s1 \<le> 0 then (None, Some s1, q)
         else if sc_mode s1 = 0 then (Some (sc_aux s1), Some s1, q)
         else case sched_grant tod s1 q of (c, s2, q2) \<Rightarrow> (c, Some s2, q2)))"

section \<open>The rate\<close>

text \<open>A time in microseconds.\<close>

definition tv_micro :: "timeval \<Rightarrow> int" where
  "tv_micro t = 1000000 * tv_sec t + tv_usec t"

lemma tv_micro_add: "tv_micro (tv_add t i) = tv_micro t + i"
  using mult_sdiv_smod_eq[of 1000000 i] unfolding tv_micro_def tv_add_def by simp

lemma tv_micro_delta:
  "\<bar>tv_micro a - tv_micro b\<bar> < 2 ^ 63 \<Longrightarrow> timevaldelta a b = tv_micro a - tv_micro b"
  by (simp add: timevaldelta_def tv_micro_def signed_take_bit_int_eq_self algebra_simps abs_less_iff)

lemma tv_micro_timeout:
  assumes "0 \<le> tv_usec now" "tv_usec now < 1000000" "0 \<le> d" "d < 2 ^ 63"
  shows "tv_micro (timeout_at (word_of_int d) now) = tv_micro now + d"
proof -
  define u :: u64 where "u = word_of_int d + of_int (tv_usec now)"
  have u: "uint u = d + tv_usec now"
    using assms unfolding u_def
    by (simp add: of_int_add[symmetric] uint_word_of_int take_bit_int_eq_self del: of_int_add)
  have m: "uint (1000000 :: u64) = 1000000" by simp
  have "uint (u div 1000000) = (d + tv_usec now) div 1000000" "uint (u mod 1000000) = (d + tv_usec now) mod 1000000"
    unfolding uint_div uint_mod u m by simp_all
  then show ?thesis using mult_div_mod_eq[of 1000000 "d + tv_usec now"]
    by (simp add: timeout_at_def tv_micro_def Let_def u_def)
qed

lemma clock_micro:
  assumes "clock_ok tod"
  shows "0 \<le> tv_micro (tod n)" "tv_micro (tod n) < 2 ^ 61" "i \<le> j \<Longrightarrow> tv_micro (tod i) \<le> tv_micro (tod j)"
proof -
  have ok: "tv_ok (tod i) \<and> tv_sec (tod i) < 2 ^ 41" for i using assms by (simp add: clock_ok_def)
  show "0 \<le> tv_micro (tod n)" "tv_micro (tod n) < 2 ^ 61" using ok[of n] by (auto simp: tv_micro_def tv_ok_def)
  assume "i \<le> j"
  then have "tod i \<le> tod j" using assms by (simp add: clock_ok_def)
  then show "tv_micro (tod i) \<le> tv_micro (tod j)" using ok[of i] ok[of j]
    by (auto simp: tv_micro_def tv_ok_def less_eq_timeval_def)
qed

text \<open>The requests of a burst, one after the other, and when each is granted: at once, which is the
  time of the request, or when the timer that was set for it is due.\<close>

fun grant_times :: "(nat \<Rightarrow> timeval) \<Rightarrow> aux list \<Rightarrow> 'f sched option \<Rightarrow> ('f \<times> aux) eventq \<Rightarrow> int list" where
  "grant_times tod [] s q = []"
| "grant_times tod (a # as) s q = (case ccnl_sched_RTS tod s 1 a q of (c, s1, q1) \<Rightarrow>
     tv_micro (case c of Some _ \<Rightarrow> tod (eq_calls q)
       | None \<Rightarrow> (case find (\<lambda>t. tm_ref t = eq_fresh q) (eq_timers q1) of Some t \<Rightarrow> tm_timeout t | None \<Rightarrow> Timeval 0 0))
     # grant_times tod as s1 q1)"

lemma find_inserted:
  "tm_ref t \<notin> tm_ref ` set ts \<Longrightarrow> find (\<lambda>x. tm_ref x = tm_ref t) (timer_insert t ts) = Some t"
  by (induction ts) auto

text \<open>One request is granted no earlier than \<open>nextTX\<close>, which moves on by the interval at least.\<close>

lemma RTS_step:
  assumes clock: "clock_ok tod" and s: "sc_mode s \<noteq> 0" "0 \<le> tv_micro (sc_nextTX s)" "tv_micro (sc_nextTX s) < 2 ^ 62"
    and q: "\<forall>t\<in>set (eq_timers q). tm_ref t < eq_fresh q" and r: "ccnl_sched_RTS tod (Some s) 1 a q = (c, so, q1)"
  shows "\<exists>s1 g. so = Some s1 \<and> sc_mode s1 = sc_mode s \<and> sc_ipi s1 = sc_ipi s
    \<and> (\<forall>t\<in>set (eq_timers q1). tm_ref t < eq_fresh q1)
    \<and> tv_micro (sc_nextTX s1) = max (tv_micro (sc_nextTX s)) (tv_micro (tod (eq_calls q))) + sc_ipi s
    \<and> tv_micro (sc_nextTX s) \<le> g \<and> grant_times tod (a # as) (Some s) q = g # grant_times tod as so q1"
proof -
  let ?now = "tod (eq_calls q)" and ?t1 = "tod (eq_calls q + 1)"
  let ?d = "timevaldelta (sc_nextTX s) ?now"
  have now: "0 \<le> tv_micro ?now" "tv_micro ?now < 2 ^ 61" "tv_micro ?now \<le> tv_micro ?t1"
    using clock_micro[OF clock] by simp_all
  have d: "?d = tv_micro (sc_nextTX s) - tv_micro ?now" using now s by (intro tv_micro_delta) auto
  show ?thesis
  proof (cases "?d \<le> 0")
    case True
    then show ?thesis using r s q d
      by (auto simp: ccnl_sched_RTS_def sched_grant_def gettimeofday_def Let_def tv_micro_add)
  next
    case False
    have ok: "0 \<le> tv_usec ?t1" "tv_usec ?t1 < 1000000" using clock by (simp_all add: clock_ok_def tv_ok_def)
    have "tv_micro (timeout_at (word_of_int ?d) ?t1) = tv_micro ?t1 + ?d"
      using False d s now by (intro tv_micro_timeout ok) simp_all
    then have later: "tv_micro (sc_nextTX s) \<le> tv_micro (timeout_at (word_of_int ?d) ?t1)" using d now by simp
    define t where "t = \<lparr>tm_ref = eq_fresh q, tm_timeout = timeout_at (word_of_int ?d) ?t1, tm_fct = None, tm_fct2 = Some (sc_cts s, a)\<rparr>"
    have "tm_ref t \<notin> tm_ref ` set (eq_timers q)" using q by (auto simp: t_def)
    from find_inserted[OF this] have f: "find (\<lambda>x. tm_ref x = eq_fresh q) (timer_insert t (eq_timers q)) = Some t"
      by (simp add: t_def)
    show ?thesis using False r s q d later f
      by (auto simp: ccnl_sched_RTS_def sched_grant_def ccnl_set_timer_def gettimeofday_def Let_def tv_micro_add t_def less_SucI)
  qed
qed

lemma grant_times_spaced:
  assumes clock: "clock_ok tod"
  shows "sc_mode s \<noteq> 0 \<Longrightarrow> 0 \<le> sc_ipi s \<Longrightarrow> sc_ipi s < 2 ^ 31 \<Longrightarrow> 0 \<le> tv_micro (sc_nextTX s)
    \<Longrightarrow> tv_micro (sc_nextTX s) + 2 ^ 31 * int (length as) < 2 ^ 62 \<Longrightarrow> length as < 2 ^ 30
    \<Longrightarrow> \<forall>t\<in>set (eq_timers q). tm_ref t < eq_fresh q \<Longrightarrow> k < length as
    \<Longrightarrow> tv_micro (sc_nextTX s) + int k * sc_ipi s \<le> grant_times tod as (Some s) q ! k"
proof (induction as arbitrary: s q k)
  case Nil
  then show ?case by simp
next
  case (Cons a as)
  obtain c so q1 where r: "ccnl_sched_RTS tod (Some s) 1 a q = (c, so, q1)" by (cases "ccnl_sched_RTS tod (Some s) 1 a q") auto
  have "tv_micro (sc_nextTX s) < 2 ^ 62" using Cons.prems(5) by simp
  from RTS_step[OF clock Cons.prems(1,4) this Cons.prems(7) r, of as] obtain s1 g where
    s1: "so = Some s1" "sc_mode s1 = sc_mode s" "sc_ipi s1 = sc_ipi s" "\<forall>t\<in>set (eq_timers q1). tm_ref t < eq_fresh q1"
      "tv_micro (sc_nextTX s1) = max (tv_micro (sc_nextTX s)) (tv_micro (tod (eq_calls q))) + sc_ipi s"
      "tv_micro (sc_nextTX s) \<le> g" "grant_times tod (a # as) (Some s) q = g # grant_times tod as (Some s1) q1"
    by auto
  show ?case
  proof (cases k)
    case 0
    then show ?thesis using s1 by simp
  next
    case (Suc j)
    have "tv_micro (tod (eq_calls q)) < 2 ^ 61" using clock_micro[OF clock] by simp
    then have "tv_micro (sc_nextTX s1) + 2 ^ 31 * int (length as) < 2 ^ 62"
      using Cons.prems(3,5,6) s1(5) by (auto simp: max_def)
    then have "tv_micro (sc_nextTX s1) + int j * sc_ipi s1 \<le> grant_times tod as (Some s1) q1 ! j"
      using Cons.IH[of s1 q1 j] Cons.prems Suc s1 by simp
    then show ?thesis using s1 Suc by (simp add: algebra_simps)
  qed
qed

text \<open>
  The rate limiter never sends early: of a burst of requests, the \<open>k\<close>-th is granted at least
  \<open>k\<close> intervals after the time the limiter was made, whenever the requests arrive.
\<close>
theorem pktrate_limits:
  assumes "clock_ok tod" "0 \<le> ipi" "ipi < 2 ^ 31" "length as < 2 ^ 29"
    and "\<forall>t\<in>set (eq_timers q). tm_ref t < eq_fresh q" and "ccnl_sched_pktrate_new tod cts ipi q = (s, q1)" and "k < length as"
  shows "tv_micro (tod (eq_calls q)) + int k * ipi \<le> grant_times tod as (Some s) q1 ! k"
proof -
  have s: "sc_mode s = 1" "sc_ipi s = ipi" "sc_nextTX s = tod (eq_calls q)" "eq_timers q1 = eq_timers q" "eq_fresh q1 = eq_fresh q"
    using assms(6) by (auto simp: ccnl_sched_pktrate_new_def gettimeofday_def)
  have "tv_micro (tod (eq_calls q)) < 2 ^ 61" "0 \<le> tv_micro (tod (eq_calls q))" using clock_micro[OF assms(1)] by simp_all
  then show ?thesis using grant_times_spaced[OF assms(1), of s as q1 k] assms s by simp
qed

definition idle_events :: "(nat \<times> aux) eventq" where
  "idle_events = \<lparr>eq_timers = [], eq_fresh = 0, eq_calls = 0\<rparr>"

theorem pktrate_limits_witness:
  "tv_micro (Timeval 5 0) + int 2 * 3000 \<le> grant_times (\<lambda>n. Timeval 5 0) (replicate 3 (None, None))
     (Some (fst (ccnl_sched_pktrate_new (\<lambda>n. Timeval 5 0) 7 3000 idle_events)))
     (snd (ccnl_sched_pktrate_new (\<lambda>n. Timeval 5 0) 7 3000 idle_events)) ! 2"
  by (rule pktrate_limits[where q = idle_events and tod = "\<lambda>n. Timeval 5 0"])
    (auto simp: clock_ok_def tv_ok_def idle_events_def)

end
