(* ===== verification/Array.thy ===== *)
theory Array
  imports Prelude
begin

text \<open>
  The growing array of pointers of \<open>ccnl-core/src/ccnl-array.c\<close>: its operations with every
  access to \<open>items\<close> checked, and the list they stand for. A pointer is an address, \<open>None\<close> is
  NULL; memory that \<open>realloc\<close> adds holds what the argument \<open>junk\<close> gives.
\<close>

type_synonym ptr = "nat option"

abbreviation (input) CCNL_ARRAY_DEFAULT_CAPACITY :: int where "CCNL_ARRAY_DEFAULT_CAPACITY \<equiv> 4"
abbreviation (input) CCNL_ARRAY_NOT_FOUND :: int where "CCNL_ARRAY_NOT_FOUND \<equiv> -1"

record carray =
  arr_count :: int
  arr_capacity :: int
  arr_items :: "ptr list"

section \<open>Operations\<close>

definition arr_get :: "ptr list \<Rightarrow> int \<Rightarrow> ptr res" where
  "arr_get m i = (if 0 \<le> i \<and> i < int (length m) then Inr (m ! nat i) else Inl Oob)"

definition arr_put :: "ptr list \<Rightarrow> int \<Rightarrow> ptr \<Rightarrow> ptr list res" where
  "arr_put m i x = (if 0 \<le> i \<and> i < int (length m) then Inr (m[nat i := x]) else Inl Oob)"

definition ccnl_array_new :: "int \<Rightarrow> carray" where
  "ccnl_array_new capacity = (let c = (if capacity \<noteq> 0 then capacity else CCNL_ARRAY_DEFAULT_CAPACITY)
     in \<lparr>arr_count = 0, arr_capacity = c, arr_items = replicate (nat c) None\<rparr>)"

text \<open>\<open>for (i = count - 1; i >= index; i--) items[i+1] = items[i];\<close>: \<open>n\<close> rounds are left.\<close>

fun arr_shift_up :: "nat \<Rightarrow> int \<Rightarrow> ptr list \<Rightarrow> ptr list res" where
  "arr_shift_up 0 i m = Inr m"
| "arr_shift_up (Suc n) i m =
     bindE (arr_get m i) (\<lambda>x. bindE (arr_put m (i + 1) x) (arr_shift_up n (i - 1)))"

text \<open>The room is tested against the index, not against the count.\<close>

definition ccnl_array_insert :: "(nat \<Rightarrow> ptr) \<Rightarrow> carray \<Rightarrow> ptr \<Rightarrow> int \<Rightarrow> carray res" where
  "ccnl_array_insert junk a item index =
    (if index > arr_count a then Inr a
     else
       let (c, m) = (if index \<ge> arr_capacity a
             then (let c = arr_capacity a * 3 div 2 in
               (c, take (nat c) (arr_items a) @ map junk [length (arr_items a)..<nat c]))
             else (arr_capacity a, arr_items a))
       in bindE (arr_shift_up (nat (arr_count a - index)) (arr_count a - 1) m) (\<lambda>m1.
          bindE (arr_put m1 index item) (\<lambda>m2.
          Inr \<lparr>arr_count = arr_count a + 1, arr_capacity = c, arr_items = m2\<rparr>)))"

definition ccnl_array_push :: "(nat \<Rightarrow> ptr) \<Rightarrow> carray \<Rightarrow> ptr \<Rightarrow> carray res" where
  "ccnl_array_push junk a item = ccnl_array_insert junk a item (arr_count a)"

definition ccnl_array_pop :: "carray \<Rightarrow> (ptr \<times> carray) res" where
  "ccnl_array_pop a =
    (if arr_count a < 1 then Inr (None, a)
     else bindE (arr_get (arr_items a) (arr_count a - 1)) (\<lambda>x. Inr (x, a\<lparr>arr_count := arr_count a - 1\<rparr>)))"

text \<open>The loop of \<open>ccnl_array_remove\<close>, \<open>n = count - (i + offset)\<close>.\<close>

fun arr_remove_loop :: "nat \<Rightarrow> ptr \<Rightarrow> int \<Rightarrow> int \<Rightarrow> ptr list \<Rightarrow> (int \<times> ptr list) res" where
  "arr_remove_loop 0 item i off m = Inr (off, m)"
| "arr_remove_loop (Suc n) item i off m =
     bindE (arr_get m (i + off)) (\<lambda>x.
       if x = item then arr_remove_loop n item i (off + 1) m
       else bindE (arr_put m i x) (arr_remove_loop n item (i + 1) off))"

definition ccnl_array_remove :: "carray \<Rightarrow> ptr \<Rightarrow> carray res" where
  "ccnl_array_remove a item =
    bindE (arr_remove_loop (nat (arr_count a)) item 0 0 (arr_items a)) (\<lambda>(off, m).
      Inr (a\<lparr>arr_items := m, arr_count := arr_count a - off\<rparr>))"

text \<open>\<open>for (i = index; i < count - 1; i++) items[i] = items[i+1];\<close>\<close>

fun arr_shift_down :: "nat \<Rightarrow> int \<Rightarrow> ptr list \<Rightarrow> ptr list res" where
  "arr_shift_down 0 i m = Inr m"
| "arr_shift_down (Suc n) i m =
     bindE (arr_get m (i + 1)) (\<lambda>x. bindE (arr_put m i x) (arr_shift_down n (i + 1)))"

definition ccnl_array_remove_index :: "carray \<Rightarrow> int \<Rightarrow> carray res" where
  "ccnl_array_remove_index a index =
    (if index \<ge> arr_count a then Inr a
     else bindE (arr_shift_down (nat (arr_count a - 1 - index)) index (arr_items a)) (\<lambda>m.
       Inr (a\<lparr>arr_items := m, arr_count := arr_count a - 1\<rparr>)))"

fun arr_find_loop :: "nat \<Rightarrow> ptr \<Rightarrow> int \<Rightarrow> ptr list \<Rightarrow> int res" where
  "arr_find_loop 0 item i m = Inr CCNL_ARRAY_NOT_FOUND"
| "arr_find_loop (Suc n) item i m =
     bindE (arr_get m i) (\<lambda>x. if x = item then Inr i else arr_find_loop n item (i + 1) m)"

definition ccnl_array_find :: "carray \<Rightarrow> ptr \<Rightarrow> int res" where
  "ccnl_array_find a item = arr_find_loop (nat (arr_count a)) item 0 (arr_items a)"

definition ccnl_array_contains :: "carray \<Rightarrow> ptr \<Rightarrow> bool res" where
  "ccnl_array_contains a item = bindE (ccnl_array_find a item) (\<lambda>i. Inr (i \<noteq> CCNL_ARRAY_NOT_FOUND))"

section \<open>The list an array stands for\<close>

definition arr_wf :: "carray \<Rightarrow> bool" where
  "arr_wf a \<longleftrightarrow> 0 \<le> arr_count a \<and> arr_count a \<le> arr_capacity a \<and> 2 \<le> arr_capacity a
     \<and> int (length (arr_items a)) = arr_capacity a"

definition arr_list :: "carray \<Rightarrow> ptr list" where
  "arr_list a = take (nat (arr_count a)) (arr_items a)"

lemma length_arr_list [simp]: "arr_wf a \<Longrightarrow> length (arr_list a) = nat (arr_count a)"
  by (auto simp: arr_list_def arr_wf_def)

lemma array_new_ok: "c = 0 \<or> 2 \<le> c \<Longrightarrow> arr_wf (ccnl_array_new c) \<and> arr_list (ccnl_array_new c) = []"
  by (auto simp: arr_wf_def arr_list_def ccnl_array_new_def)

lemma array_push_list:
  assumes "arr_wf a"
  shows "\<exists>b. ccnl_array_push junk a x = Inr b \<and> arr_wf b \<and> arr_list b = arr_list a @ [x]"
proof (cases "arr_count a < arr_capacity a")
  case True
  then show ?thesis using assms
    by (auto simp: ccnl_array_push_def ccnl_array_insert_def arr_put_def arr_wf_def arr_list_def nat_add_distrib take_Suc_conv_app_nth)
next
  case False
  define c where "c = arr_capacity a * 3 div 2"
  define m where "m = take (nat c) (arr_items a) @ map junk [length (arr_items a)..<nat c]"
  have n: "arr_count a = arr_capacity a" "int (length (arr_items a)) = arr_capacity a" "arr_capacity a < c" "0 \<le> arr_count a"
    using False assms by (auto simp: arr_wf_def c_def)
  then have m: "m = arr_items a @ map junk [length (arr_items a)..<nat c]" "length m = nat c" by (auto simp: m_def)
  then show ?thesis using n assms
    by (auto simp: ccnl_array_push_def ccnl_array_insert_def c_def[symmetric] m_def[symmetric] Let_def arr_put_def
      arr_wf_def arr_list_def nat_add_distrib take_Suc_conv_app_nth)
qed

lemma array_pop_list:
  assumes "arr_wf a"
  shows "\<exists>b. ccnl_array_pop a = Inr (if arr_list a = [] then None else last (arr_list a), b)
    \<and> arr_wf b \<and> arr_list b = butlast (arr_list a)"
proof (cases "arr_count a < 1")
  case True
  then show ?thesis using assms by (auto simp: ccnl_array_pop_def arr_wf_def arr_list_def)
next
  case False
  define k where "k = nat (arr_count a - 1)"
  have k: "arr_count a = int k + 1" "k < length (arr_items a)" using False assms by (auto simp: k_def arr_wf_def)
  then show ?thesis using assms
    by (auto simp: ccnl_array_pop_def arr_wf_def arr_list_def arr_get_def take_Suc_conv_app_nth nat_add_distrib)
qed

lemma arr_remove_loop_ok:
  "i + off + n \<le> length m \<Longrightarrow>
   \<exists>off' m'. arr_remove_loop n item (int i) (int off) m = Inr (int off', m') \<and> length m' = length m
     \<and> off \<le> off' \<and> off' \<le> off + n
     \<and> take (i + off + n - off') m' = take i m @ filter (\<lambda>x. x \<noteq> item) (take n (drop (i + off) m))"
proof (induction n arbitrary: i off m)
  case 0
  then show ?case by simp
next
  case (Suc n)
  let ?x = "m ! (i + off)"
  have x: "take (Suc n) (drop (i + off) m) = ?x # take n (drop (i + off + 1) m)"
    using Suc.prems take_drop_nth[of "i + off" m n] by simp
  show ?case
  proof (cases "?x = item")
    case True
    then show ?thesis using Suc.IH[of i "off + 1" m] Suc.prems x by (auto simp: arr_get_def nat_add_distrib ac_simps)
  next
    case False
    have "take (i + 1) (m[i := ?x]) = take i m @ [?x]" using Suc.prems by (simp add: take_Suc_conv_app_nth)
    then show ?thesis using Suc.IH[of "i + 1" off "m[i := ?x]"] Suc.prems x False
      by (auto simp: arr_get_def arr_put_def nat_add_distrib ac_simps)
  qed
qed

lemma array_remove_list:
  assumes "arr_wf a"
  shows "\<exists>b. ccnl_array_remove a x = Inr b \<and> arr_wf b \<and> arr_list b = filter (\<lambda>y. y \<noteq> x) (arr_list a)"
proof -
  define n where "n = nat (arr_count a)"
  have n: "arr_count a = int n" "n \<le> length (arr_items a)" using assms by (auto simp: n_def arr_wf_def)
  obtain off m where "arr_remove_loop n x 0 0 (arr_items a) = Inr (int off, m)" "length m = length (arr_items a)" "off \<le> n"
    "take (n - off) m = filter (\<lambda>y. y \<noteq> x) (take n (arr_items a))"
    using arr_remove_loop_ok[of 0 0 n "arr_items a" x] n(2) by auto
  then show ?thesis using assms n by (auto simp: ccnl_array_remove_def arr_wf_def arr_list_def nat_diff_distrib)
qed

lemma arr_shift_down_ok:
  "i + n < length m \<Longrightarrow>
   \<exists>m'. arr_shift_down n (int i) m = Inr m' \<and> length m' = length m \<and> take (i + n) m' = take i m @ take n (drop (i + 1) m)"
proof (induction n arbitrary: i m)
  case 0
  then show ?case by simp
next
  case (Suc n)
  have "take (i + 1) (m[i := m ! (i + 1)]) = take i m @ [m ! (i + 1)]" using Suc.prems by (simp add: take_Suc_conv_app_nth)
  moreover have "take (Suc n) (drop (i + 1) m) = m ! (i + 1) # take n (drop (i + 2) m)"
    using Suc.prems take_drop_nth[of "i + 1" m n] by simp
  ultimately show ?case using Suc.IH[of "i + 1" "m[i := m ! (i + 1)]"] Suc.prems
    by (auto simp: arr_get_def arr_put_def nat_add_distrib ac_simps)
qed

lemma array_remove_index_list:
  assumes "arr_wf a"
  shows "\<exists>b. ccnl_array_remove_index a (int i) = Inr b \<and> arr_wf b
    \<and> arr_list b = take i (arr_list a) @ drop (i + 1) (arr_list a)"
proof (cases "int i < arr_count a")
  case False
  then show ?thesis using assms by (auto simp: ccnl_array_remove_index_def arr_wf_def arr_list_def)
next
  case True
  define n where "n = nat (arr_count a - 1 - int i)"
  have n: "arr_count a = int (i + n + 1)" "i + n + 1 \<le> length (arr_items a)" using True assms by (auto simp: n_def arr_wf_def)
  obtain m where m: "arr_shift_down n (int i) (arr_items a) = Inr m" "length m = length (arr_items a)"
    "take (i + n) m = take i (arr_items a) @ take n (drop (i + 1) (arr_items a))"
    using arr_shift_down_ok[of i n "arr_items a"] n(2) by auto
  have "take i (arr_list a) @ drop (i + 1) (arr_list a) = take (i + n) m"
    unfolding m(3) arr_list_def n(1) nat_int by (simp add: min_def drop_take)
  then show ?thesis using assms n m(1,2) by (auto simp: ccnl_array_remove_index_def arr_wf_def arr_list_def nat_add_distrib)
qed

text \<open>The index of the first occurrence.\<close>

fun index_from :: "int \<Rightarrow> ptr \<Rightarrow> ptr list \<Rightarrow> int" where
  "index_from i x [] = CCNL_ARRAY_NOT_FOUND"
| "index_from i x (y # ys) = (if y = x then i else index_from (i + 1) x ys)"

lemma arr_find_loop_ok:
  "i + n \<le> length m \<Longrightarrow> arr_find_loop n x (int i) m = Inr (index_from (int i) x (take n (drop i m)))"
proof (induction n arbitrary: i)
  case 0
  then show ?case by simp
next
  case (Suc n)
  have "take (Suc n) (drop i m) = m ! i # take n (drop (i + 1) m)" using Suc.prems take_drop_nth[of i m n] by simp
  then show ?case using Suc.IH[of "i + 1"] Suc.prems by (simp add: arr_get_def add.commute)
qed

lemma array_find_list: "arr_wf a \<Longrightarrow> ccnl_array_find a x = Inr (index_from 0 x (arr_list a))"
  using arr_find_loop_ok[of 0 "nat (arr_count a)" "arr_items a" x]
  by (auto simp: ccnl_array_find_def arr_list_def arr_wf_def nat_le_iff)

lemma index_from_found: "0 \<le> i \<Longrightarrow> index_from i x xs \<noteq> CCNL_ARRAY_NOT_FOUND \<longleftrightarrow> x \<in> set xs"
  by (induction xs arbitrary: i) auto

lemma arr_shift_up_ok:
  "i + n < length m \<Longrightarrow>
   arr_shift_up n (int (i + n) - 1) m = Inr (take (i + 1) m @ take n (drop i m) @ drop (i + n + 1) m)"
proof (induction n arbitrary: m)
  case 0
  then show ?case by simp
next
  case (Suc n)
  let ?m = "m[i + n + 1 := m ! (i + n)]"
  have "drop (i + n + 1) ?m = m ! (i + n) # drop (i + n + 2) m"
    using Suc.prems Cons_nth_drop_Suc[of "i + n + 1" ?m] by simp
  moreover have "take (Suc n) (drop i m) = take n (drop i m) @ [m ! (i + n)]"
    using Suc.prems by (simp add: take_Suc_conv_app_nth)
  moreover have "take n (drop i ?m) = take n (drop i m)" using Suc.prems by (simp add: drop_update_swap)
  ultimately show ?case using Suc.IH[of ?m] Suc.prems by (simp add: arr_get_def arr_put_def nat_add_distrib)
qed

lemma array_insert_list:
  assumes "arr_wf a" "int i \<le> arr_count a" "arr_count a < arr_capacity a"
  shows "\<exists>b. ccnl_array_insert junk a x (int i) = Inr b \<and> arr_wf b
    \<and> arr_list b = take i (arr_list a) @ x # drop i (arr_list a)"
proof -
  define n where "n = nat (arr_count a - int i)"
  have n: "arr_count a = int (i + n)" "i + n < length (arr_items a)" using assms by (auto simp: n_def arr_wf_def)
  let ?m = "take (i + 1) (arr_items a) @ take n (drop i (arr_items a)) @ drop (i + n + 1) (arr_items a)"
  have "?m[i := x] = take i (arr_items a) @ x # take n (drop i (arr_items a)) @ drop (i + n + 1) (arr_items a)"
    using n(2) by (simp add: list_update_append take_Suc_conv_app_nth min_def)
  moreover have "i < length ?m" using n(2) by simp
  ultimately have "arr_put ?m (int i) x
      = Inr (take i (arr_items a) @ x # take n (drop i (arr_items a)) @ drop (i + n + 1) (arr_items a))"
    by (simp add: arr_put_def)
  moreover have "arr_shift_up n (int (i + n) - 1) (arr_items a) = Inr ?m" using n(2) by (rule arr_shift_up_ok)
  ultimately have "ccnl_array_insert junk a x (int i) = Inr \<lparr>arr_count = arr_count a + 1, arr_capacity = arr_capacity a,
      arr_items = take i (arr_items a) @ x # take n (drop i (arr_items a)) @ drop (i + n + 1) (arr_items a)\<rparr>"
    using assms n by (simp add: ccnl_array_insert_def)
  then show ?thesis using assms n
    by (auto simp: arr_wf_def arr_list_def nat_add_distrib min_def drop_take)
qed

section \<open>Programs\<close>

text \<open>A sequence of calls, and what it does on lists. \<open>find\<close> and \<open>pop\<close> report a value.\<close>

datatype arr_op = Push ptr | Pop | Remove ptr | Remove_index nat | Find ptr

fun arr_step :: "(nat \<Rightarrow> ptr) \<Rightarrow> arr_op \<Rightarrow> carray \<Rightarrow> ((int + ptr) option \<times> carray) res" where
  "arr_step junk (Push x) a = bindE (ccnl_array_push junk a x) (\<lambda>b. Inr (None, b))"
| "arr_step junk Pop a = bindE (ccnl_array_pop a) (\<lambda>(x, b). Inr (Some (Inr x), b))"
| "arr_step junk (Remove x) a = bindE (ccnl_array_remove a x) (\<lambda>b. Inr (None, b))"
| "arr_step junk (Remove_index i) a = bindE (ccnl_array_remove_index a (int i)) (\<lambda>b. Inr (None, b))"
| "arr_step junk (Find x) a = bindE (ccnl_array_find a x) (\<lambda>i. Inr (Some (Inl i), a))"

fun arr_run :: "(nat \<Rightarrow> ptr) \<Rightarrow> arr_op list \<Rightarrow> carray \<Rightarrow> ((int + ptr) option list \<times> carray) res" where
  "arr_run junk [] a = Inr ([], a)"
| "arr_run junk (c # cs) a = bindE (arr_step junk c a) (\<lambda>(o1, b).
     bindE (arr_run junk cs b) (\<lambda>(os, c'). Inr (o1 # os, c')))"

fun list_step :: "arr_op \<Rightarrow> ptr list \<Rightarrow> (int + ptr) option \<times> ptr list" where
  "list_step (Push x) xs = (None, xs @ [x])"
| "list_step Pop xs = (Some (Inr (if xs = [] then None else last xs)), butlast xs)"
| "list_step (Remove x) xs = (None, filter (\<lambda>y. y \<noteq> x) xs)"
| "list_step (Remove_index i) xs = (None, take i xs @ drop (i + 1) xs)"
| "list_step (Find x) xs = (Some (Inl (index_from 0 x xs)), xs)"

fun list_run :: "arr_op list \<Rightarrow> ptr list \<Rightarrow> (int + ptr) option list \<times> ptr list" where
  "list_run [] xs = ([], xs)"
| "list_run (c # cs) xs = (case list_step c xs of (o1, ys) \<Rightarrow> (case list_run cs ys of (os, zs) \<Rightarrow> (o1 # os, zs)))"

lemma arr_step_refines:
  assumes "arr_wf a"
  shows "\<exists>b. arr_step junk c a = Inr (fst (list_step c (arr_list a)), b) \<and> arr_wf b \<and> arr_list b = snd (list_step c (arr_list a))"
proof (cases c)
  case (Push x)
  then show ?thesis using array_push_list[OF assms, of junk x] by auto
next
  case Pop
  then show ?thesis using array_pop_list[OF assms] by auto
next
  case (Remove x)
  then show ?thesis using array_remove_list[OF assms, of x] by auto
next
  case (Remove_index i)
  then show ?thesis using array_remove_index_list[OF assms, of i] by auto
next
  case (Find x)
  then show ?thesis using assms by (simp add: array_find_list)
qed

lemma arr_run_refines:
  "arr_wf a \<Longrightarrow> \<exists>b. arr_run junk cs a = Inr (fst (list_run cs (arr_list a)), b) \<and> arr_wf b
    \<and> arr_list b = snd (list_run cs (arr_list a))"
proof (induction cs arbitrary: a)
  case Nil
  then show ?case by simp
next
  case (Cons c cs)
  obtain b where b: "arr_step junk c a = Inr (fst (list_step c (arr_list a)), b)" "arr_wf b"
    "arr_list b = snd (list_step c (arr_list a))" using arr_step_refines[OF Cons.prems] by blast
  then show ?case using Cons.IH[OF b(2)] by (auto simp: case_prod_beta')
qed

text \<open>
  An array made with the default capacity or one of at least two behaves under every sequence of
  pushes, pops, removals and searches as the list does, growing when it must, and never leaves its
  memory.
\<close>
theorem array_equals_list:
  assumes "capacity = 0 \<or> 2 \<le> capacity"
  shows "\<exists>b. arr_run junk cs (ccnl_array_new capacity) = Inr (fst (list_run cs []), b) \<and> arr_list b = snd (list_run cs [])"
  using arr_run_refines[of "ccnl_array_new capacity" junk cs] array_new_ok[OF assms] by auto

theorem array_equals_list_witness:
  "\<exists>b. arr_run (\<lambda>_. None) [Push (Some 1), Push (Some 2), Push (Some 1), Remove (Some 1), Find (Some 2)] (ccnl_array_new 2)
      = Inr ([None, None, None, None, Some (Inl 0)], b) \<and> arr_list b = [Some 2]"
  using array_equals_list[of 2 "\<lambda>_. None" "[Push (Some 1), Push (Some 2), Push (Some 1), Remove (Some 1), Find (Some 2)]"]
  by simp

text \<open>
  The room for an insertion is tested against the index: inserting before the end of a full
  array, at any index, writes one element behind its memory. Filling an array of capacity one does
  the same at the second element, since three halves of one is one.
\<close>
theorem array_insert_full_overflows:
  assumes "0 \<le> i" "i < arr_count a" "arr_count a = arr_capacity a" "int (length (arr_items a)) = arr_capacity a"
  shows "ccnl_array_insert junk a x i = Inl Oob"
proof -
  obtain n where n: "nat (arr_count a - i) = Suc n" using assms(2) by (metis gr0_implies_Suc zero_less_diff zero_less_nat_eq diff_gt_0_iff_gt)
  then show ?thesis using assms by (auto simp: ccnl_array_insert_def arr_get_def arr_put_def)
qed

theorem array_insert_full_overflows_witness:
  "ccnl_array_insert (\<lambda>_. None) \<lparr>arr_count = 2, arr_capacity = 2, arr_items = [Some 1, Some 2]\<rparr> (Some 3) 0 = Inl Oob"
  by (rule array_insert_full_overflows) simp_all

lemma array_capacity_one: "ccnl_array_push junk \<lparr>arr_count = 1, arr_capacity = 1, arr_items = [y]\<rparr> x = Inl Oob"
  by (simp add: ccnl_array_push_def ccnl_array_insert_def arr_put_def)

end
