(* ===== verification/Builder.thy ===== *)
theory Builder
  imports Tables Ndntlv Ccntlv_Round Ccnb_Enc
begin

text \<open>
  The packet builder, \<open>ccnl-pkt/src/ccnl-pkt-builder.c\<close>: the tests that tell what kind of
  packet a buffer holds, and the composition of whole Interests and contents, in a temporary buffer
  of \<open>CCNL_MAX_PACKET_SIZE\<close> bytes, for the suite of a name.

  \<^item> \<open>opts\<close> is \<open>None\<close> for a NULL pointer. \<open>rnd\<close> is the value \<open>rand ()\<close> returns.
  \<^item> \<open>ccnl_mkInterest\<close> and \<open>ccnl_mkContent\<close> return \<open>*len\<close>, \<open>*offs\<close> and the temporary
    buffer (and \<open>*contentpos\<close>); \<open>Inl Fail\<close> is their \<open>return -1\<close>. What a failed CCNb routine
    has written to the buffer is not recorded: \<open>*len\<close> does not count it.
\<close>

section \<open>Kinds of packets\<close>

abbreviation (input) CCNX_PT_Fragment :: u8 where "CCNX_PT_Fragment \<equiv> 3"

definition ccnb_isContent :: "bytes \<Rightarrow> nat \<Rightarrow> nat \<Rightarrow> int res" where
  "ccnb_isContent m p len = bindE (ccnl_ccnb_dehead m (p, len)) (\<lambda>(h, _). case h of
      None \<Rightarrow> Inr 0
    | Some (num, typ) \<Rightarrow> if typ \<noteq> CCN_TT_DTAG \<or> num \<noteq> CCN_DTAG_CONTENTOBJ then Inr 0 else Inr 1)"

text \<open>The header, or \<open>None\<close> for NULL. The structure has 9 bytes.\<close>

definition ccntlv_isHeader :: "bytes \<Rightarrow> nat \<Rightarrow> nat \<Rightarrow> ccnx_tlvhdr option res" where
  "ccntlv_isHeader m p len =
    (if len < ccnx_hdr_size then Inr None
     else bindE (ccnx_tlvhdr_at m p) (\<lambda>hp.
       if hd_version hp \<noteq> CCNX_TLV_V1 then Inr None
       else if hd_pktlen hp < len then Inr None
       else Inr (Some hp)))"

definition ccntlv_isData :: "bytes \<Rightarrow> nat \<Rightarrow> nat \<Rightarrow> int res" where
  "ccntlv_isData m p len = bindE (ccntlv_isHeader m p len) (\<lambda>h. case h of
      None \<Rightarrow> Inr 0 | Some hp \<Rightarrow> Inr (if hd_pkttype hp = CCNX_PT_Data then 1 else 0))"

definition ccntlv_isFragment :: "bytes \<Rightarrow> nat \<Rightarrow> nat \<Rightarrow> int res" where
  "ccntlv_isFragment m p len = bindE (ccntlv_isHeader m p len) (\<lambda>h. case h of
      None \<Rightarrow> Inr 0 | Some hp \<Rightarrow> Inr (if hd_pkttype hp = CCNX_PT_Fragment then 1 else 0))"

definition ndntlv_isData :: "bytes \<Rightarrow> nat \<Rightarrow> nat \<Rightarrow> int res" where
  "ndntlv_isData m p len = bindE (ccnl_ndntlv_dehead m (p, len)) (\<lambda>(h, _). case h of
      None \<Rightarrow> Inr (-1) | Some (typ, vallen) \<Rightarrow> Inr (if typ \<noteq> NDN_TLV_Data then 0 else 1))"

definition ccnl_isContent :: "bytes \<Rightarrow> nat \<Rightarrow> nat \<Rightarrow> int \<Rightarrow> int res" where
  "ccnl_isContent m p len suite =
    (if suite = CCNL_SUITE_CCNB then ccnb_isContent m p len
     else if suite = CCNL_SUITE_CCNTLV then ccntlv_isData m p len
     else if suite = CCNL_SUITE_NDNTLV then ndntlv_isData m p len
     else Inr (-1))"

definition ccnl_isFragment :: "bytes \<Rightarrow> nat \<Rightarrow> nat \<Rightarrow> int \<Rightarrow> int res" where
  "ccnl_isFragment m p len suite =
    (if suite = CCNL_SUITE_CCNTLV then ccntlv_isFragment m p len else Inr (-1))"

section \<open>Composing\<close>

definition zero_interest_opts :: ndn_interest_opts where
  "zero_interest_opts = \<lparr>io_nonce = 0, io_mustbefresh = 0, io_interestlifetime = 0\<rparr>"

definition fill_nonce :: "u32 \<Rightarrow> ndn_interest_opts option \<Rightarrow> ndn_interest_opts" where
  "fill_nonce rnd opts = (let o1 = (case opts of None \<Rightarrow> zero_interest_opts | Some o1 \<Rightarrow> o1)
     in if io_nonce o1 = 0 then o1\<lparr>io_nonce := rnd\<rparr> else o1)"

text \<open>The CCNb routine's return code is not looked at; it adds to \<open>*len\<close> when it succeeds.\<close>

definition ccnl_mkInterest :: "u32 \<Rightarrow> prefix \<Rightarrow> ndn_interest_opts option \<Rightarrow> nat \<Rightarrow> nat \<Rightarrow> bytes
    \<Rightarrow> (nat \<times> nat \<times> bytes) res" where
  "ccnl_mkInterest rnd name opts len offs tmp =
    (if pfx_suite name = CCNL_SUITE_CCNB then
       (case ccnl_ccnb_fillInterest (length tmp) name None (0, tmp) of
          Inr (n, tmp') \<Rightarrow> Inr (len + n, 0, tmp')
        | Inl e \<Rightarrow> if e = Fail then Inr (len, 0, tmp) else Inl e)
     else if pfx_suite name = CCNL_SUITE_CCNTLV then
       bindE (ccnl_ccntlv_prependInterestWithHdr name (offs, tmp)) (\<lambda>(len', offs', tmp'). Inr (len', offs', tmp'))
     else if pfx_suite name = CCNL_SUITE_NDNTLV then
       bindE (ccnl_ndntlv_prependInterest name (-1) (fill_nonce rnd opts) (offs, tmp)) (\<lambda>((offs', tmp'), len').
         Inr (len', offs', tmp'))
     else Inr (len, offs, tmp))"

text \<open>A buffer from \<open>malloc\<close>, whatever it holds, and NULL for every failure.\<close>

definition ccnl_mkSimpleInterest :: "bytes \<Rightarrow> u32 \<Rightarrow> prefix \<Rightarrow> ndn_interest_opts option \<Rightarrow> bytes option res" where
  "ccnl_mkSimpleInterest tmp rnd name opts =
    (case ccnl_mkInterest rnd name opts 0 CCNL_MAX_PACKET_SIZE tmp of
       Inl e \<Rightarrow> if e = Fail then Inr None else Inl e
     | Inr (len, offs, tmp') \<Rightarrow> if len > 0 then bindE (slice tmp' offs len) (\<lambda>b. Inr (Some b)) else Inr None)"

definition ccnl_mkInterestObject :: "bytes \<Rightarrow> u32 \<Rightarrow> ref \<Rightarrow> prefix \<Rightarrow> ndn_interest_opts option \<Rightarrow> interest option res" where
  "ccnl_mkInterestObject tmp rnd i name opts =
    bindE (ccnl_mkSimpleInterest tmp rnd name opts) (\<lambda>buf. case buf of
      None \<Rightarrow> Inr None
    | Some b \<Rightarrow> Inr (Some \<lparr>i_ref = i, i_pkt = pkt_zero\<lparr>pkt_buf := Some b, pkt_pfx := Some (ccnl_prefix_dup name)\<rparr>,
        i_from = None, i_pending = [], i_lifetime = 0, i_last_used = 0, i_retries = 0\<rparr>))"

text \<open>For CCNb the end of the buffer is given as \<open>tmp + *len\<close>.\<close>

definition ccnl_mkContent :: "prefix \<Rightarrow> bytes \<Rightarrow> nat \<Rightarrow> nat \<Rightarrow> nat \<Rightarrow> ndn_data_opts option \<Rightarrow> bytes
    \<Rightarrow> (nat \<times> nat \<times> nat \<times> bytes) res" where
  "ccnl_mkContent name payload len contentpos offs opts tmp =
    (if pfx_suite name = CCNL_SUITE_CCNB then
       (case ccnl_ccnb_fillContent len name payload (0, tmp) of
          Inr (contentpos', n, tmp') \<Rightarrow> Inr (len + n, contentpos', 0, tmp')
        | Inl e \<Rightarrow> if e = Fail then Inr (len, contentpos, 0, tmp) else Inl e)
     else if pfx_suite name = CCNL_SUITE_CCNTLV then
       bindE (ccnl_ccntlv_prependContentWithHdr name payload (Some 0) (offs, tmp)) (\<lambda>(contentpos', len', offs', tmp').
         Inr (len', contentpos', offs', tmp'))
     else if pfx_suite name = CCNL_SUITE_NDNTLV then
       bindE (ccnl_ndntlv_prependContent name payload opts (offs, tmp)) (\<lambda>((offs', tmp'), contentpos', len').
         Inr (len', contentpos', offs', tmp'))
     else Inr (len, contentpos, offs, tmp))"

text \<open>The buffer and \<open>*payoffset\<close>.\<close>

definition ccnl_mkSimpleContent :: "bytes \<Rightarrow> prefix \<Rightarrow> bytes \<Rightarrow> ndn_data_opts option \<Rightarrow> (bytes \<times> nat) option res" where
  "ccnl_mkSimpleContent tmp name payload opts =
    (case ccnl_mkContent name payload 0 0 CCNL_MAX_PACKET_SIZE opts tmp of
       Inl e \<Rightarrow> if e = Fail then Inr None else Inl e
     | Inr (len, contentpos, offs, tmp') \<Rightarrow>
         if len \<noteq> 0 then bindE (slice tmp' offs len) (\<lambda>b. Inr (Some (b, contentpos))) else Inr None)"

definition ccnl_mkContentObject :: "bytes \<Rightarrow> relay \<Rightarrow> prefix \<Rightarrow> bytes \<Rightarrow> ndn_data_opts option
    \<Rightarrow> (content option \<times> relay) res" where
  "ccnl_mkContentObject tmp r name payload opts =
    bindE (ccnl_mkSimpleContent tmp name payload opts) (\<lambda>x. case x of
      None \<Rightarrow> Inr (None, r)
    | Some (b, dataoffset) \<Rightarrow>
        (case ccnl_content_new r (pkt_zero\<lparr>pkt_buf := Some b, pkt_pfx := Some (ccnl_prefix_dup name),
            pkt_content := Some dataoffset, pkt_contlen := length payload\<rparr>) of (c, r1) \<Rightarrow> Inr (Some c, r1)))"

section \<open>What the builder builds\<close>

text \<open>
  C36. An Interest made from an NDN name that fits into 8096 bytes is a packet the relay's parser
  reads back: the name, no scope, and the nonce of the options, or a random one when they have none.
\<close>
theorem simple_interest_parses:
  assumes "length tmp = CCNL_MAX_PACKET_SIZE" "pfx_suite name = CCNL_SUITE_NDNTLV" "ndn_name_ok name" "slack \<noteq> []"
    and "length (interest_bytes name (-1) (fill_nonce rnd opts)) \<le> CCNL_MAX_PACKET_SIZE"
  shows "\<exists>b h n. ccnl_mkSimpleInterest tmp rnd name opts = Inr (Some b)
    \<and> ccnl_ndntlv_dehead (b @ slack) (0, length b) = Inr (Some (NDN_TLV_Interest, n), (h, n))
    \<and> ccnl_ndntlv_bytes2pkt NDN_TLV_Interest (b @ slack) (h, n) =
      Inr (parsed_interest name (-1) (fill_nonce rnd opts) h b, (length b, 0))"
proof -
  let ?b = "interest_bytes name (-1) (fill_nonce rnd opts)"
  obtain offs tmp' where s: "splice ?b (CCNL_MAX_PACKET_SIZE, tmp) = (offs, tmp')" by (cases "splice ?b (CCNL_MAX_PACKET_SIZE, tmp)")
  have c: "ccnl_ndntlv_prependInterest name (-1) (fill_nonce rnd opts) (CCNL_MAX_PACKET_SIZE, tmp) = Inr ((offs, tmp'), length ?b)"
    using assms(1,5) s by (simp add: prependInterest_spec)
  have b: "take (length ?b) (drop offs tmp') = ?b"
    using splice_read(2)[of ?b CCNL_MAX_PACKET_SIZE tmp] assms(1,5) s fst_splice[of ?b CCNL_MAX_PACKET_SIZE tmp] by simp
  moreover have "?b \<noteq> []" by (simp add: interest_bytes_def tlv_def tl_bytes_def)
  moreover have "length tmp' = CCNL_MAX_PACKET_SIZE" "offs = CCNL_MAX_PACKET_SIZE - length ?b"
    using length_snd_splice[of ?b CCNL_MAX_PACKET_SIZE tmp] assms(1,5) s fst_splice[of ?b CCNL_MAX_PACKET_SIZE tmp]
    by simp_all
  ultimately have "ccnl_mkSimpleInterest tmp rnd name opts = Inr (Some ?b)"
    using assms(2,5) c by (simp add: ccnl_mkSimpleInterest_def ccnl_mkInterest_def slice_def)
  then show ?thesis using ndn_interest_roundtrip[OF c _ assms(3) _ assms(4)] assms(1,5) b by auto
qed

theorem simple_interest_parses_witness:
  "\<exists>b h n. ccnl_mkSimpleInterest (replicate CCNL_MAX_PACKET_SIZE 0) 9 (wit_name\<lparr>pfx_suite := CCNL_SUITE_NDNTLV\<rparr>) None = Inr (Some b)
    \<and> ccnl_ndntlv_dehead (b @ [0]) (0, length b) = Inr (Some (NDN_TLV_Interest, n), (h, n))
    \<and> ccnl_ndntlv_bytes2pkt NDN_TLV_Interest (b @ [0]) (h, n) =
      Inr (parsed_interest (wit_name\<lparr>pfx_suite := CCNL_SUITE_NDNTLV\<rparr>) (-1) (fill_nonce 9 None) h b, (length b, 0))"
proof (rule simple_interest_parses)
  show "ndn_name_ok (wit_name\<lparr>pfx_suite := CCNL_SUITE_NDNTLV\<rparr>)" by code_simp
  show "length (interest_bytes (wit_name\<lparr>pfx_suite := CCNL_SUITE_NDNTLV\<rparr>) (-1) (fill_nonce 9 None)) \<le> CCNL_MAX_PACKET_SIZE"
    by code_simp
qed simp_all

text \<open>A content the builder composes in NDN is one that \<open>ccnl_isContent\<close> knows.\<close>

lemma simple_content_ndn:
  assumes "length tmp = CCNL_MAX_PACKET_SIZE" "pfx_suite name = CCNL_SUITE_NDNTLV" "ndn_name_ok name" "slack \<noteq> []"
    and "ccnl_mkSimpleContent tmp name payload opts = Inr (Some (b, pos))"
  shows "ccnl_isContent (b @ slack) 0 (length b) CCNL_SUITE_NDNTLV = Inr 1
    \<and> (\<exists>h n c. ccnl_ndntlv_dehead (b @ slack) (0, length b) = Inr (Some (NDN_TLV_Data, n), (h, n))
      \<and> ccnl_ndntlv_bytes2pkt NDN_TLV_Data (b @ slack) (h, n) = Inr (parsed_data name payload opts h b, (length b, 0))
      \<and> slice b c (length payload) = Inr payload \<and> pos = c + 7)"
proof -
  obtain offs tmp' len where c: "ccnl_ndntlv_prependContent name payload opts (CCNL_MAX_PACKET_SIZE, tmp)
      = Inr ((offs, tmp'), pos, len)" and b: "slice tmp' offs len = Inr b"
    using assms(2,5) by (auto simp: ccnl_mkSimpleContent_def ccnl_mkContent_def bindE_eq_Inr_iff
      split: sum.splits if_splits)
  have b': "b = take len (drop offs tmp')" "length b = len" using b by (auto simp: slice_eq_Inr_iff)
  have "len \<le> CCNL_MAX_PACKET_SIZE" using c by (auto simp: ccnl_ndntlv_prependContent_def bindE_eq_Inr_iff)
  then show ?thesis using ndn_data_roundtrip[OF c _ assms(3) _ assms(4)] assms(1) b'
    by (auto simp: ccnl_isContent_def ndntlv_isData_def)
qed

text \<open>
  For a name of the CCNb suite no content can be made: the end of the buffer is computed from a
  length that is still 0, every write finds no room, and the return code is not looked at.
\<close>
theorem ccnb_content_never_built:
  assumes "pfx_suite name = CCNL_SUITE_CCNB"
  shows "ccnl_mkContentObject tmp r name payload opts = Inr (None, r)"
proof -
  have "ccnl_ccnb_fillContent 0 name payload (0, tmp) = Inl Fail"
    by (simp add: ccnl_ccnb_fillContent_def ccnl_ccnb_mkHeader_def Let_def)
  then show ?thesis using assms by (simp add: ccnl_mkContentObject_def ccnl_mkSimpleContent_def ccnl_mkContent_def)
qed

theorem ccnb_content_never_built_witness:
  "\<forall>r. ccnl_mkContentObject [] r ((ccnl_prefix_new CCNL_SUITE_CCNB 0)\<lparr>pfx_comp := [[97]]\<rparr>) [1, 2] None = Inr (None, r)"
  by (intro allI ccnb_content_never_built) (simp add: ccnl_prefix_new_def)

text \<open>The builder adds the number 0 of the last chunk to every CCNx-TLV content.\<close>

lemma endchunk_prepender:
  "prepender (ccnl_ccntlv_prependNetworkVarUInt t 0) (ccntlv_head t 1 @ [0])"
proof -
  have p: "prepender (\<lambda>ob. bindE (push_chk 0 ob) (ccnl_ccntlv_prependTL t 1)) (ccntlv_head t 1 @ [0])"
    by (rule prepender_bind[OF push_chk.prepender_axioms prependTL_prepender]) simp
  show ?thesis
    by (rule prepender_eq[OF p])
      (auto simp: ccnl_ccntlv_prependNetworkVarUInt_def varuint_loop.simps[of 0] push_chk_def push_byte_def
        ccnl_ccntlv_prependTL_def bindE_assoc)
qed

lemma prependName_endchunk:
  assumes "pfx_chunknum name = None" and "length (concat (pfx_comp name)) \<le> 0xffff"
  shows "prepender (ccnl_ccntlv_prependName name (Some 0)) (ccntlv_name (pfx_comp name) @ ccntlv_head CCNX_TLV_M_ENDChunk 1 @ [0])"
proof -
  have "ccnl_ccntlv_prependName name (Some 0)
      = (\<lambda>ob. bindE (ccnl_ccntlv_prependNetworkVarUInt CCNX_TLV_M_ENDChunk 0 ob) (ccnl_ccntlv_prependName name None))"
    by (rule ext) (simp add: ccnl_ccntlv_prependName_def assms(1) cong: bindE_cong)
  then show ?thesis using prepender_bind[OF endchunk_prepender prependName_prepender[OF assms]] by simp
qed

text \<open>
  A content object made in CCNx-TLV has its content pointer at the payload's place in the
  temporary buffer of 8096 bytes, not in the copy: unless the packet fills all of it, the pointer
  and the payload's length reach behind the object's buffer.
\<close>
theorem ccntlv_content_object_outside:
  assumes "pfx_suite name = CCNL_SUITE_CCNTLV" and "pfx_chunknum name = None" and "length tmp = CCNL_MAX_PACKET_SIZE"
    and "n = 26 + length (concat (pfx_comp name)) + length payload" and "n < CCNL_MAX_PACKET_SIZE"
  shows "\<exists>c r1 b pos. ccnl_mkContentObject tmp r name payload opts = Inr (Some c, r1) \<and> pkt_buf (c_pkt c) = Some b
    \<and> pkt_content (c_pkt c) = Some pos \<and> pkt_contlen (c_pkt c) = length payload
    \<and> length b = n \<and> pos + length payload = CCNL_MAX_PACKET_SIZE"
proof -
  have nl: "length (concat (pfx_comp name)) \<le> 0xffff" using assms(4,5) by simp
  define i where "i = (let v = (ccntlv_name (pfx_comp name) @ ccntlv_head CCNX_TLV_M_ENDChunk 1 @ [0])
      @ ccntlv_head CCNX_TLV_M_Payload (length payload) @ payload in ccntlv_head CCNX_TLV_TL_Object (length v) @ v)"
  have i: "length i + 9 = n" using assms(4) by (simp add: i_def Let_def)
  obtain offs tmp' where s: "splice (ccntlv_fixed CCNX_PT_Data (length i) 255 @ i) (CCNL_MAX_PACKET_SIZE, tmp) = (offs, tmp')"
    by (cases "splice (ccntlv_fixed CCNX_PT_Data (length i) 255 @ i) (CCNL_MAX_PACKET_SIZE, tmp)")
  have "offs = CCNL_MAX_PACKET_SIZE - n" "length tmp' = CCNL_MAX_PACKET_SIZE"
    using s i assms(3,5) fst_splice[of "ccntlv_fixed CCNX_PT_Data (length i) 255 @ i" CCNL_MAX_PACKET_SIZE tmp]
      length_snd_splice[of "ccntlv_fixed CCNX_PT_Data (length i) 255 @ i" CCNL_MAX_PACKET_SIZE tmp] by simp_all
  then have "slice tmp' offs n = Inr (take n (drop offs tmp'))" "length (take n (drop offs tmp')) = n"
    using assms(5) by (simp_all add: slice_def)
  moreover have "ccnl_ccntlv_prependContentWithHdr name payload (Some 0) (CCNL_MAX_PACKET_SIZE, tmp)
      = Inr (CCNL_MAX_PACKET_SIZE - length payload, n, offs, tmp')"
    using boxed_content_fits[OF prependName_endchunk[OF assms(2) nl] refl, of i payload CCNL_MAX_PACKET_SIZE tmp] i assms(3-5) s
    by (simp add: i_def Let_def)
  ultimately show ?thesis using assms(1,4,5)
    by (simp add: ccnl_mkContentObject_def ccnl_mkSimpleContent_def ccnl_mkContent_def ccnl_content_new_def)
qed

theorem ccntlv_content_object_outside_witness:
  "\<forall>r. \<exists>c r1 b pos. ccnl_mkContentObject (replicate CCNL_MAX_PACKET_SIZE 0) r
      ((ccnl_prefix_new CCNL_SUITE_CCNTLV 0)\<lparr>pfx_comp := [[0, 1, 0, 1, 97]]\<rparr>) [1, 2, 3] None = Inr (Some c, r1)
    \<and> pkt_buf (c_pkt c) = Some b \<and> pkt_content (c_pkt c) = Some pos \<and> pkt_contlen (c_pkt c) = 3
    \<and> length b = 34 \<and> pos + 3 = CCNL_MAX_PACKET_SIZE"
  using ccntlv_content_object_outside[of "(ccnl_prefix_new CCNL_SUITE_CCNTLV 0)\<lparr>pfx_comp := [[0, 1, 0, 1, 97]]\<rparr>"
    "replicate CCNL_MAX_PACKET_SIZE 0" 34 "[1, 2, 3]"]
  by (simp add: ccnl_prefix_new_def numeral_3_eq_3)

end
