(* ===== verification/Devices.thy ===== *)
theory Devices
  imports Relay
begin

text \<open>
  Opening sockets and handing frames to them, \<open>ccnl-unix/src/ccnl-unix.c\<close>.

  \<^item> A record \<open>oscalls\<close> holds what the system answers to the calls made while one device is
    opened: the descriptor, the hardware address, whether the index is known, whether \<open>bind\<close> works,
    the address \<open>getsockname\<close> stores, whether broadcast is allowed.
  \<^item> A routine gets the address the structure holds and returns the descriptor (or -1) and the
    address it leaves behind, also when it fails. Memory that another member of the union has written
    counts as 0 for a hardware address.
  \<^item> Descriptors identify the interfaces to the system only; the model identifies them by their index.
\<close>

record oscalls =
  os_socket :: int
  os_hwaddr :: "bytes option"
  os_ifindex :: bool
  os_bind :: bool
  os_sockname :: "sockunion option"
  os_broadcast :: bool

definition ccnl_open_ethdev :: "oscalls \<Rightarrow> sockunion \<Rightarrow> u16 \<Rightarrow> int \<times> sockunion" where
  "ccnl_open_ethdev os su ethtype =
    (case (case su of Su_linklayer a n p \<Rightarrow> (a, n, p) | _ \<Rightarrow> (replicate 8 0, 0, 0)) of (a, n, p) \<Rightarrow>
     if os_socket os < 0 then (-1, su)
     else (case os_hwaddr os of
         None \<Rightarrow> (-1, su)
       | Some hw \<Rightarrow>
           (let a1 = take 6 hw @ drop 6 a in
            if \<not> os_ifindex os then (-1, Su_linklayer a1 n p)
            else (if os_bind os then os_socket os else -1, Su_linklayer a1 n ethtype))))"

definition ccnl_open_unixpath :: "oscalls \<Rightarrow> bytes \<Rightarrow> sockunion \<Rightarrow> int \<times> sockunion" where
  "ccnl_open_unixpath os path su =
    (if os_socket os < 0 then (-1, su)
     else (if os_bind os then os_socket os else -1, Su_unix (take 108 path)))"

definition ccnl_open_udpdev :: "oscalls \<Rightarrow> u16 \<Rightarrow> sockunion \<Rightarrow> int \<times> sockunion" where
  "ccnl_open_udpdev os port su =
    (if os_socket os < 0 then (-1, su)
     else if \<not> os_bind os then (-1, Su_ip4 0 port)
     else (if os_broadcast os then os_socket os else -1,
           case os_sockname os of Some a \<Rightarrow> a | None \<Rightarrow> Su_ip4 0 port))"

definition ccnl_open_udp6dev :: "oscalls \<Rightarrow> u16 \<Rightarrow> sockunion \<Rightarrow> int \<times> sockunion" where
  "ccnl_open_udp6dev os port su =
    (if os_socket os < 0 then (-1, su)
     else if \<not> os_bind os then (-1, Su_ip6 (replicate 16 0) port)
     else (os_socket os, case os_sockname os of Some a \<Rightarrow> a | None \<Rightarrow> Su_ip6 (replicate 16 0) port))"

section \<open>Interfaces\<close>

text \<open>An operation on the next free interface, \<open>&relay->ifs[relay->ifcount]\<close>.\<close>

definition next_if :: "relay \<Rightarrow> iface res" where
  "next_if r = (if rl_ifcount r < length (rl_ifs r) then Inr (rl_ifs r ! rl_ifcount r) else Inl Oob)"

text \<open>\<open>af\<close> is one of \<open>AF_INET\<close> and \<open>AF_INET6\<close>. A descriptor 0 counts as a failure.\<close>

definition ccnl_relay_udp :: "oscalls \<Rightarrow> relay \<Rightarrow> int \<Rightarrow> sa_family \<Rightarrow> int \<Rightarrow> relay res" where
  "ccnl_relay_udp os r sport af suite =
    (if sport < 0 \<or> sport > 0xffff \<or> af \<noteq> AF_INET \<and> af \<noteq> AF_INET6 then Inr r
     else bindE (next_if r) (\<lambda>i.
       case (if af = AF_INET then ccnl_open_udpdev os (of_int sport) (if_addr i)
             else ccnl_open_udp6dev os (of_int sport) (if_addr i)) of (sock, a) \<Rightarrow>
         let r1 = if_upd (rl_ifcount r) (\<lambda>i. i\<lparr>if_addr := a\<rparr>) r in
         if sock \<le> 0 then Inr r1
         else Inr (if_upd (rl_ifcount r) (\<lambda>i. i\<lparr>if_fwdalli := True,
             if_mtu := (if suite = CCNL_SUITE_CCNB \<or> suite = CCNL_SUITE_CCNTLV \<or> suite = CCNL_SUITE_NDNTLV
               then 4096 else if_mtu i)\<rparr>) r1\<lparr>rl_ifcount := rl_ifcount r + 1\<rparr>)))"

end
