(* ===== verification/Unix.thy ===== *)
theory Unix
  imports Devices Events
begin

text \<open>
  The relay as a Unix process, the rest of \<open>ccnl-unix/src/ccnl-unix.c\<close>: handing packets to a socket,
  configuring the relay, the main loop and filling the cache from a directory.

  \<^item> The answers of the system are arguments: what the calls that open a device return, and for
    each round of the main loop the time, what \<open>select\<close> and \<open>recvfrom\<close> return.
  \<^item> A descriptor names an interface to the system only; \<open>io_sock\<close> gives the one of an interface.
    A descriptor outside of the range of an \<open>fd_set\<close> makes \<open>FD_SET\<close> write outside of it.
  \<^item> \<open>select\<close> reports nothing on a descriptor that is not below its first argument.
  \<^item> The status page over HTTP and the logging of the time of day are left out.
\<close>

section \<open>Sending\<close>

text \<open>The frame a raw socket gets: it is cut off after 2000 bytes.\<close>

definition ccnl_eth_sendto :: "bytes \<Rightarrow> bytes \<Rightarrow> bytes \<Rightarrow> bytes" where
  "ccnl_eth_sendto dst src d = take 6 dst @ take 6 src @ [0x08, 0x01] @ take (2000 - 14) d"

text \<open>What goes to \<open>sendto\<close>: the destination address, if there is one, and the bytes. The address
  of an interface of another family counts as 0 for a hardware address.\<close>

definition ccnl_ll_TX :: "iface \<Rightarrow> sockunion \<Rightarrow> bytes \<Rightarrow> (sockunion option \<times> bytes) option" where
  "ccnl_ll_TX ifc dest b = (case dest of
      Su_ip4 _ _ \<Rightarrow> Some (Some dest, b)
    | Su_ip6 _ _ \<Rightarrow> Some (Some dest, b)
    | Su_linklayer a _ _ \<Rightarrow> Some (None, ccnl_eth_sendto a (case if_addr ifc of Su_linklayer s _ _ \<Rightarrow> s | _ \<Rightarrow> replicate 8 0) b)
    | Su_unix _ \<Rightarrow> Some (Some dest, b)
    | Su_unspec \<Rightarrow> None)"

section \<open>Configuration\<close>

record unix_config =
  cf_ethdev :: bool
  cf_udp :: "int \<times> int"
  cf_udp6 :: "int \<times> int"
  cf_uxpath :: "bytes option"
  cf_suite :: int
  cf_max_cache :: int
  cf_os_eth :: oscalls
  cf_os_udp :: "oscalls \<times> oscalls"
  cf_os_udp6 :: "oscalls \<times> oscalls"
  cf_os_ux :: oscalls

text \<open>The next interface gets its fields whether the device opens or not, and is taken when it does.\<close>

definition config_if :: "(sockunion \<Rightarrow> int \<times> sockunion) \<Rightarrow> (iface \<Rightarrow> iface) \<Rightarrow> relay \<Rightarrow> relay res" where
  "config_if dev g r = bindE (next_if r) (\<lambda>i. case dev (if_addr i) of (sock, a) \<Rightarrow>
     let r1 = if_upd (rl_ifcount r) (\<lambda>i. g (i\<lparr>if_addr := a\<rparr>)) r
     in Inr (if sock \<ge> 0 then r1\<lparr>rl_ifcount := rl_ifcount r + 1\<rparr> else r1))"

definition ccnl_relay_config :: "(nat \<Rightarrow> timeval) \<Rightarrow> unix_config \<Rightarrow> relay \<times> event eventq \<Rightarrow> (relay \<times> event eventq) res" where
  "ccnl_relay_config tod cf rq = (case rq of (r, q) \<Rightarrow>
     let r0 = r\<lparr>rl_contents := [], rl_pit := [], rl_fib := [], rl_faces := [], rl_nonces := [],
           rl_max_cache_entries := cf_max_cache cf, rl_max_pit_entries := -1\<rparr> in
     bindE (if cf_ethdev cf then config_if (\<lambda>su. ccnl_open_ethdev (cf_os_eth cf) su 0x0801)
         (\<lambda>i. i\<lparr>if_mtu := 1500, if_reflect := True, if_fwdalli := True\<rparr>) r0 else Inr r0) (\<lambda>r1.
     bindE (ccnl_relay_udp (fst (cf_os_udp cf)) r1 (fst (cf_udp cf)) AF_INET (cf_suite cf)) (\<lambda>r2.
     bindE (ccnl_relay_udp (snd (cf_os_udp cf)) r2 (snd (cf_udp cf)) AF_INET (cf_suite cf)) (\<lambda>r3.
     bindE (ccnl_relay_udp (fst (cf_os_udp6 cf)) r3 (fst (cf_udp6 cf)) AF_INET6 (cf_suite cf)) (\<lambda>r4.
     bindE (ccnl_relay_udp (snd (cf_os_udp6 cf)) r4 (snd (cf_udp6 cf)) AF_INET6 (cf_suite cf)) (\<lambda>r5.
     bindE (case cf_uxpath cf of None \<Rightarrow> Inr r5
       | Some path \<Rightarrow> config_if (ccnl_open_unixpath (cf_os_ux cf) path) (\<lambda>i. i\<lparr>if_mtu := 4096\<rparr>) r5) (\<lambda>r6.
     Inr (r6, snd (ccnl_set_timer tod 1000000 (Some Ev_ageing) q)))))))))"

section \<open>The main loop\<close>

text \<open>One round: the time \<open>CCNL_NOW ()\<close> shows, whether \<open>select\<close> works, and for each interface the
  memory of the receive buffer with the length and the source of the frame in it, and whether the socket takes
  more. The interfaces are polled up to the descriptor that was the highest when the loop began.\<close>

record io_round =
  io_now :: u32
  io_select :: bool
  io_frame :: "nat \<Rightarrow> (bytes \<times> nat \<times> sockunion) option"
  io_writable :: "nat \<Rightarrow> bool"

datatype io_end = Io_on | Io_exit

definition fd_ok :: "int \<Rightarrow> bool" where
  "fd_ok fd \<longleftrightarrow> 0 \<le> fd \<and> fd < 1024"

text \<open>Without the header of 14 bytes, which only an Ethernet frame has.\<close>

definition io_receive :: "suite_table \<Rightarrow> hooks \<Rightarrow> nat \<Rightarrow> (bytes \<times> nat \<times> sockunion) option \<Rightarrow> relay \<Rightarrow> relay res" where
  "io_receive tab h i frame r = (case frame of
      None \<Rightarrow> Inr r
    | Some (buf, len, src) \<Rightarrow>
        if len = 0 then Inr r
        else (case src of
            Su_unspec \<Rightarrow> Inr r
          | Su_linklayer _ _ _ \<Rightarrow>
              if len > 14 then ccnl_core_RX tab h r (int i) (drop 14 buf) (len - 14) (Some src) else Inr r
          | _ \<Rightarrow> ccnl_core_RX tab h r (int i) buf len (Some src)))"

text \<open>The second loop over the interfaces, whose number a frame may change. \<open>rset\<close> and \<open>wset\<close> are
  the interfaces put into the two sets before.\<close>

fun io_ifs :: "suite_table \<Rightarrow> hooks \<Rightarrow> (nat \<Rightarrow> int) \<Rightarrow> int \<Rightarrow> io_round \<Rightarrow> nat set \<Rightarrow> nat set \<Rightarrow> nat list \<Rightarrow> relay \<Rightarrow> relay res" where
  "io_ifs tab h sock maxfd io rset wset [] r = Inr r"
| "io_ifs tab h sock maxfd io rset wset (i # is) r =
     (if i \<ge> rl_ifcount r then Inr r
      else bindE (if i \<in> rset \<and> sock i < maxfd then io_receive tab h i (io_frame io i) r else Inr r) (\<lambda>r1.
        bindE (if i \<in> wset \<and> sock i < maxfd \<and> io_writable io i then ccnl_interface_CTS i r1 else Inr r1)
          (io_ifs tab h sock maxfd io rset wset is)))"

definition io_step :: "suite_table \<Rightarrow> hooks \<Rightarrow> (nat \<Rightarrow> timeval) \<Rightarrow> (nat \<Rightarrow> int) \<Rightarrow> int \<Rightarrow> io_round
    \<Rightarrow> relay \<times> event eventq \<Rightarrow> (io_end \<times> relay \<times> event eventq) res" where
  "io_step tab h tod sock maxfd io rq = (case rq of (r0, q) \<Rightarrow>
     let r = r0\<lparr>rl_now := io_now io\<rparr>; rset = set [0..<rl_ifcount r];
         wset = set (filter (\<lambda>i. if_qlen (rl_ifs r ! i) > 0) [0..<rl_ifcount r]) in
     if \<exists>i<rl_ifcount r. \<not> fd_ok (sock i) then Inl Oob
     else bindE (ccnl_run_events (length (eq_timers q) + 1) tod (relay_event tod) (r, q)) (\<lambda>(usec, r1, q1).
       if \<not> io_select io then Inr (Io_exit, r1, q1)
       else bindE (io_ifs tab h sock maxfd io rset wset [0..<length (rl_ifs r1)] r1) (\<lambda>r2. Inr (Io_on, r2, q1))))"

text \<open>As many rounds as there are in the list, unless the loop ends before.\<close>

fun io_rounds :: "suite_table \<Rightarrow> hooks \<Rightarrow> (nat \<Rightarrow> timeval) \<Rightarrow> (nat \<Rightarrow> int) \<Rightarrow> int \<Rightarrow> io_round list
    \<Rightarrow> relay \<times> event eventq \<Rightarrow> (io_end \<times> relay \<times> event eventq) res" where
  "io_rounds tab h tod sock maxfd [] rq = Inr (Io_on, rq)"
| "io_rounds tab h tod sock maxfd (io # ios) rq =
     (if rl_halt (fst rq) then Inr (Io_on, rq)
      else bindE (io_step tab h tod sock maxfd io rq) (\<lambda>(how, rq1).
        if how = Io_exit then Inr (Io_exit, rq1) else io_rounds tab h tod sock maxfd ios rq1))"

definition max_fd :: "(nat \<Rightarrow> int) \<Rightarrow> nat \<Rightarrow> int" where
  "max_fd sock n = foldl max (-1) (map sock [0..<n]) + 1"

definition ccnl_io_loop :: "suite_table \<Rightarrow> hooks \<Rightarrow> (nat \<Rightarrow> timeval) \<Rightarrow> (nat \<Rightarrow> int) \<Rightarrow> io_round list
    \<Rightarrow> relay \<times> event eventq \<Rightarrow> (io_end \<times> relay \<times> event eventq) res" where
  "ccnl_io_loop tab h tod sock ios rq =
    (if rl_ifcount (fst rq) = 0 then Inr (Io_exit, rq)
     else io_rounds tab h tod sock (max_fd sock (rl_ifcount (fst rq))) ios rq)"

section \<open>Filling the cache\<close>

text \<open>An entry of the directory: its name, what \<open>stat\<close> tells (whether it is a directory, and its
  size), the descriptor \<open>open\<close> returns, and the bytes \<open>read\<close> returns.\<close>

record dir_entry =
  de_name :: bytes
  de_stat :: "(bool \<times> int) option"
  de_fd :: int
  de_read :: "bytes option"

text \<open>Parsing the bytes behind the code of the format, as the format goes.\<close>

definition file_parse :: "int \<Rightarrow> bytes \<Rightarrow> nat \<Rightarrow> (pkt \<times> nat \<times> nat) res" where
  "file_parse suite m n =
    (if suite = CCNL_SUITE_CCNB then
       bindE (rd m 0) (\<lambda>b0. bindE (if b0 \<noteq> 0x04 then Inr 0 else rd m 1) (\<lambda>b1.
         if b0 \<noteq> 0x04 \<or> b1 \<noteq> 0x82 then Inl Fail else ccnl_ccnb_bytes2pkt m (2, wsub n 2)))
     else if suite = CCNL_SUITE_CCNTLV then
       bindE (ccnl_ccntlv_getHdrLen m 0 n) (\<lambda>hdrlen. ccnl_ccntlv_bytes2pkt m (hdrlen, wsub n hdrlen))
     else if suite = CCNL_SUITE_NDNTLV then
       bindE (ccnl_ndntlv_dehead m (0, n)) (\<lambda>(hd, cur). case hd of
           None \<Rightarrow> Inl Fail
         | Some (typ, len) \<Rightarrow> if typ \<noteq> NDN_TLV_Data then Inl Fail else ccnl_ndntlv_bytes2pkt typ m cur)
     else Inl Fail)"

text \<open>The packet in a file. \<open>None\<close> for a file that holds no content or cannot be parsed.\<close>

definition file_pkt :: "bytes \<Rightarrow> pkt option res" where
  "file_pkt b = bindE (ccnl_pkt2suite b 0 (length b)) (\<lambda>(suite, skip).
     case file_parse suite (drop skip b) (wsub (length b) skip) of
       Inl e \<Rightarrow> if e = Fail then Inr None else Inl e
     | Inr (pk, cur) \<Rightarrow> Inr (Some pk))"

definition populate_file :: "hooks \<Rightarrow> bytes \<Rightarrow> dir_entry \<Rightarrow> relay \<Rightarrow> relay res" where
  "populate_file h path de r =
    (if de_name de \<noteq> [] \<and> hd (de_name de) = 0x2e then Inr r
     else if length path + 2 > 1000 then Inl Oob
     else case de_stat de of
         None \<Rightarrow> Inr r
       | Some (isdir, sz) \<Rightarrow>
           if isdir \<or> sz < 0 \<or> de_fd de = 0 then Inr r
           else (case de_read de of
               None \<Rightarrow> Inr r
             | Some b \<Rightarrow>
                 if int (length b) \<noteq> sz \<or> length b < 2 then Inr r
                 else bindE (file_pkt b) (\<lambda>x. case x of
                     None \<Rightarrow> Inr r
                   | Some pk \<Rightarrow> (case ccnl_content_new r pk of (c, r1) \<Rightarrow>
                       bindE (ccnl_content_add2cache h c r1) (\<lambda>(ok, r2).
                         Inr (cs_upd (c_ref c) (\<lambda>x. x\<lparr>c_flags := c_flags x OR CCNL_CONTENT_FLAGS_STATIC\<rparr>) r2))))))"

fun ccnl_populate_cache :: "hooks \<Rightarrow> bytes \<Rightarrow> dir_entry list \<Rightarrow> relay \<Rightarrow> relay res" where
  "ccnl_populate_cache h path [] r = Inr r"
| "ccnl_populate_cache h path (de # des) r = bindE (populate_file h path de r) (ccnl_populate_cache h path des)"

end
