(* ===== verification/Dump.thy ===== *)
theory Dump
  imports Cstd Tables
begin

text \<open>
  The tables of a relay as text: \<open>ccnl_addr2ascii\<close> and \<open>ll2ascii\<close> of
  \<open>ccnl-core/src/ccnl-sockunion.c\<close>, and \<open>ccnl-core/src/ccnl-dump.c\<close>, which prints the tables
  to the console and copies them into the arrays that management sends.

  \<^item> A block of memory that holds a string is the list of its bytes, the terminating 0 included.
  \<^item> \<open>dump_env\<close> holds what the code gets from outside its text: the addresses of objects (none is
    0), the descriptors of the interfaces, what the uninitialised string for a name holds, and what
    the arrays of the debug command hold before they are filled.
  \<^item> Of the output on the console only the reads it makes are modelled.
\<close>

section \<open>Addresses\<close>

definition ll2ascii :: "bytes \<Rightarrow> nat \<Rightarrow> bytes option res" where
  "ll2ascii addr len =
    (if len > 18 then Inr None
     else if len > 6 \<or> len > length addr then Inl Oob
     else Inr (Some (concat (map (\<lambda>i. [hex_digit (drop_bit 4 (addr ! i)), hex_digit (addr ! i AND 0xf)]
       @ (if i \<noteq> len - 1 then [0x3a] else [])) [0..<len]))))"

text \<open>\<open>%04x\<close>.\<close>

definition hex4 :: "u16 \<Rightarrow> bytes" where
  "hex4 w = map (\<lambda>k. hex_digit (ucast (drop_bit (4 * k) w AND 0xf))) [3, 2, 1, 0]"

fun ccnl_addr2ascii :: "sockunion option \<Rightarrow> bytes option res" where
  "ccnl_addr2ascii None = Inr (Some (lit ''(local)''))"
| "ccnl_addr2ascii (Some (Su_linklayer a n p)) =
     bindE (ll2ascii a (n mod 16)) (\<lambda>s. bindE (deref s) (\<lambda>s. Inr (Some (s @ lit ''/0x'' @ hex4 p))))"
| "ccnl_addr2ascii (Some (Su_ip4 a p)) = Inr (Some (inet_ntop4 (be_bytes 4 (ucast a)) @ lit ''/'' @ dec_str (uint p)))"
| "ccnl_addr2ascii (Some (Su_ip6 a p)) = Inr (Some (inet_ntop6 a @ lit ''/'' @ dec_str (uint p)))"
| "ccnl_addr2ascii (Some (Su_unix path)) = Inr (Some (take 255 (c_str path)))"
| "ccnl_addr2ascii (Some Su_unspec) = Inr None"

section \<open>Names\<close>

datatype dumped = D_face faceref | D_fwd nat | D_interest ref | D_publisher ref | D_content ref

record face_dump =
  fd_id :: int
  fd_next :: u64
  fd_prev :: u64
  fd_ifndx :: int
  fd_flags :: u32
  fd_peer :: bytes
  fd_type :: sa_family

record fwd_dump =
  wd_fwd :: u64
  wd_next :: u64
  wd_face :: u64
  wd_faceid :: int
  wd_suite :: int
  wd_prefix :: bytes

record if_dump =
  id_ifndx :: int
  id_addr :: bytes
  id_dev :: u64
  id_reflect :: int

record interest_dump =
  td_interest :: u64
  td_next :: u64
  td_prev :: u64
  td_last :: int
  td_min :: int
  td_max :: int
  td_retries :: int
  td_publisher :: u64
  td_prefix :: bytes

record content_dump =
  cd_content :: u64
  cd_next :: u64
  cd_prev :: u64
  cd_last_use :: int
  cd_served_cnt :: int
  cd_prefix :: bytes

record dump_env =
  du_stack :: bytes
  du_addr :: "dumped \<Rightarrow> u64"
  du_sock :: "nat \<Rightarrow> int"
  du_face :: "nat \<Rightarrow> face_dump"
  du_fwd :: "nat \<Rightarrow> fwd_dump"
  du_if :: "nat \<Rightarrow> if_dump"
  du_interest :: "nat \<Rightarrow> interest_dump"
  du_content :: "nat \<Rightarrow> content_dump"

text \<open>\<open>ccnl_prefix_to_str (p, s, sizeof (s))\<close>, where a name without components leaves \<open>s\<close> as it is.\<close>

definition prefix_string :: "dump_env \<Rightarrow> prefix \<Rightarrow> bytes option res" where
  "prefix_string env p =
    (if pfx_comp p = [] then if 0 \<in> set (du_stack env) then Inr (Some (du_stack env)) else Inl Oob
     else (case ccnl_prefix_to_str_detailed p True False CCNL_MAX_PREFIX_SIZE of
         Inr s \<Rightarrow> Inr (Some s) | Inl e \<Rightarrow> if e = Fail then Inr None else Inl e))"

text \<open>\<open>printf\<close> writes \<open>(null)\<close> for a NULL string, as the GNU library does.\<close>

definition prefix_text :: "dump_env \<Rightarrow> prefix \<Rightarrow> bytes res" where
  "prefix_text env p = bindE (prefix_string env p) (\<lambda>s. Inr (case s of Some b \<Rightarrow> c_str b | None \<Rightarrow> lit ''(null)''))"

text \<open>Into a block of 256 bytes, whose size the bound given to \<open>snprintf\<close> is not.\<close>

definition get_prefix_dump :: "dump_env \<Rightarrow> prefix option \<Rightarrow> (nat \<times> bytes) option res" where
  "get_prefix_dump env pre = (case pre of None \<Rightarrow> Inr None | Some p \<Rightarrow>
     bindE (prefix_text env p) (\<lambda>t. let b = take (CCNL_MAX_PREFIX_SIZE - 1) t @ [0] in
       if length b > 256 then Inl Oob else Inr (Some (compcnt p, b))))"

section \<open>The console\<close>

definition dump_prefix :: "dump_env \<Rightarrow> prefix option \<Rightarrow> unit res" where
  "dump_prefix env pre = bindE (deref pre) (\<lambda>p. bindE (prefix_text env p) (\<lambda>_. Inr ()))"

fun dump_ifs :: "iface list \<Rightarrow> unit res" where
  "dump_ifs [] = Inr ()"
| "dump_ifs (i # is) = bindE (ccnl_addr2ascii (Some (if_addr i))) (\<lambda>_. dump_ifs is)"

fun dump_faces :: "face list \<Rightarrow> unit res" where
  "dump_faces [] = Inr ()"
| "dump_faces (f # fs) = bindE (if su_family (f_peer f) = AF_UNSPEC then Inr None else ccnl_addr2ascii (Some (f_peer f))) (\<lambda>_. dump_faces fs)"

fun dump_fwds :: "dump_env \<Rightarrow> relay \<Rightarrow> forward list \<Rightarrow> unit res" where
  "dump_fwds env r [] = Inr ()"
| "dump_fwds env r (w # ws) = bindE (deref (fw_face w)) (\<lambda>f. bindE (face_get r f) (\<lambda>_.
     bindE (dump_prefix env (fw_prefix w)) (\<lambda>_. dump_fwds env r ws)))"

fun dump_pkts :: "dump_env \<Rightarrow> pkt list \<Rightarrow> unit res" where
  "dump_pkts env [] = Inr ()"
| "dump_pkts env (p # ps) = bindE (dump_prefix env (pkt_pfx p)) (\<lambda>_. dump_pkts env ps)"

text \<open>\<open>ccnl_dump (0, CCNL_RELAY, ccnl)\<close>.\<close>

definition ccnl_dump_relay :: "dump_env \<Rightarrow> relay \<Rightarrow> unit res" where
  "ccnl_dump_relay env r =
    bindE (dump_ifs (take (rl_ifcount r) (rl_ifs r))) (\<lambda>_.
    bindE (dump_faces (rl_faces r)) (\<lambda>_.
    bindE (dump_fwds env r (rl_fib r)) (\<lambda>_.
    bindE (dump_pkts env (map i_pkt (rl_pit r))) (\<lambda>_.
    dump_pkts env (map c_pkt (rl_contents r))))))"

section \<open>The tables\<close>

text \<open>The address of the first object of a list, 0 for the end of the list.\<close>

definition next_addr :: "('a \<Rightarrow> u64) \<Rightarrow> 'a list \<Rightarrow> u64" where
  "next_addr g xs = (case xs of [] \<Rightarrow> 0 | x # _ \<Rightarrow> g x)"

text \<open>The peer goes into a block of 50 bytes. For an IPv4 address the chain of comparisons that
  follows the first one ends in its last branch, which overwrites the family.\<close>

fun get_faces_dump :: "dump_env \<Rightarrow> u64 \<Rightarrow> face list \<Rightarrow> face_dump list res" where
  "get_faces_dump env prev [] = Inr []"
| "get_faces_dump env prev (f # fs) =
     bindE (bindE (ccnl_addr2ascii (Some (f_peer f))) deref) (\<lambda>peer.
       if length peer + 1 > 50 then Inl Oob
       else bindE (get_faces_dump env (du_addr env (D_face (f_faceid f))) fs) (\<lambda>ds. Inr (
         \<lparr>fd_id = int (f_faceid f), fd_next = next_addr (\<lambda>g. du_addr env (D_face (f_faceid g))) fs, fd_prev = prev,
           fd_ifndx = f_ifndx f, fd_flags = f_flags f, fd_peer = peer @ [0],
           fd_type = (if su_family (f_peer f) \<in> {AF_INET6, AF_PACKET, AF_UNIX} then su_family (f_peer f) else AF_UNSPEC)\<rparr> # ds)))"

text \<open>\<open>k\<close> is the position of the first entry in the forwarding table.\<close>

fun get_fwd_dump :: "dump_env \<Rightarrow> relay \<Rightarrow> nat \<Rightarrow> forward list \<Rightarrow> fwd_dump list res" where
  "get_fwd_dump env r k [] = Inr []"
| "get_fwd_dump env r k (w # ws) =
     bindE (case fw_face w of None \<Rightarrow> Inr 0 | Some f \<Rightarrow> bindE (face_get r f) (\<lambda>_. Inr (int f))) (\<lambda>fi.
     bindE (get_prefix_dump env (fw_prefix w)) (\<lambda>p.
     bindE (get_fwd_dump env r (k + 1) ws) (\<lambda>ds. Inr (
       \<lparr>wd_fwd = du_addr env (D_fwd k), wd_next = (if ws = [] then 0 else du_addr env (D_fwd (k + 1))),
         wd_face = (case fw_face w of None \<Rightarrow> 0 | Some f \<Rightarrow> du_addr env (D_face f)), wd_faceid = fi, wd_suite = fw_suite w,
         wd_prefix = (case p of None \<Rightarrow> lit ''?'' @ [0] | Some (_, b) \<Rightarrow> b)\<rparr> # ds))))"

text \<open>The address goes into a block of 130 bytes; only a flag that is set is stored.\<close>

fun get_interface_dump :: "dump_env \<Rightarrow> nat \<Rightarrow> iface list \<Rightarrow> if_dump list res" where
  "get_interface_dump env k [] = Inr []"
| "get_interface_dump env k (i # is) =
     bindE (bindE (ccnl_addr2ascii (Some (if_addr i))) deref) (\<lambda>addr.
       if length addr + 1 > 130 then Inl Oob
       else bindE (get_interface_dump env (k + 1) is) (\<lambda>ds. Inr (
         \<lparr>id_ifndx = int k, id_addr = addr @ [0], id_dev = of_int (du_sock env k),
           id_reflect = (if if_reflect i then 1 else id_reflect (du_if env k))\<rparr> # ds)))"

definition minmax :: "pkt \<Rightarrow> prefix \<Rightarrow> int \<times> int \<times> bool" where
  "minmax pk p =
    (if pfx_suite p = CCNL_SUITE_CCNB then (sint (cb_minsuffix (s_ccnb pk)), sint (cb_maxsuffix (s_ccnb pk)), cb_ppkd (s_ccnb pk) \<noteq> None)
     else if pfx_suite p = CCNL_SUITE_NDNTLV then
       (sint (ucast (nd_minsuffix (s_ndntlv pk)) :: u32), sint (ucast (nd_maxsuffix (s_ndntlv pk)) :: u32), nd_ppkl (s_ndntlv pk) \<noteq> None)
     else (-1, -1, False))"

fun get_interest_dump :: "dump_env \<Rightarrow> u64 \<Rightarrow> nat \<Rightarrow> interest list \<Rightarrow> interest_dump list res" where
  "get_interest_dump env prev k [] = Inr []"
| "get_interest_dump env prev k (i # is) =
     bindE (get_prefix_dump env (pkt_pfx (i_pkt i))) (\<lambda>p.
     bindE (get_interest_dump env (du_addr env (D_interest (i_ref i))) (k + 1) is) (\<lambda>ds. Inr (
       (case (case pkt_pfx (i_pkt i) of None \<Rightarrow> (-1, -1, False) | Some q \<Rightarrow> minmax (i_pkt i) q) of (mn, mx, pub) \<Rightarrow>
         \<lparr>td_interest = du_addr env (D_interest (i_ref i)), td_next = next_addr (\<lambda>j. du_addr env (D_interest (i_ref j))) is,
           td_prev = prev, td_last = sint (i_last_used i), td_min = mn, td_max = mx, td_retries = int (i_retries i),
           td_publisher = (if pub then du_addr env (D_publisher (i_ref i)) else 0),
           td_prefix = (case p of None \<Rightarrow> td_prefix (du_interest env k) | Some (_, b) \<Rightarrow> b)\<rparr>) # ds)))"

fun get_content_dump :: "dump_env \<Rightarrow> u64 \<Rightarrow> nat \<Rightarrow> content list \<Rightarrow> content_dump list res" where
  "get_content_dump env prev k [] = Inr []"
| "get_content_dump env prev k (c # cs) =
     bindE (get_prefix_dump env (pkt_pfx (c_pkt c))) (\<lambda>p.
     bindE (get_content_dump env (du_addr env (D_content (c_ref c))) (k + 1) cs) (\<lambda>ds. Inr (
       \<lparr>cd_content = du_addr env (D_content (c_ref c)), cd_next = next_addr (\<lambda>d. du_addr env (D_content (c_ref d))) cs,
         cd_prev = prev, cd_last_use = sint (c_last_used c), cd_served_cnt = int (c_served_cnt c),
         cd_prefix = (case p of None \<Rightarrow> cd_prefix (du_content env k) | Some (_, b) \<Rightarrow> b)\<rparr> # ds)))"

end
