(* ===== verification/Mgmt_Wire.thy ===== *)
theory Mgmt_Wire
  imports Dump Builder Devices
begin

text \<open>
  The messages of the management protocol, \<open>ccnl-core/src/ccnl-mgmt.c\<close>: reading the request that
  the fourth component of a management Interest's name holds, composing a reply in the static
  buffers, and sending it in pieces.

  \<^item> The component is followed by the memory \<open>mg_behind\<close>: after the first three heads the code
    takes the length the message announces for the length that is left, so it can read on there.
  \<^item> A string the code extracts is the bytes of the field; in memory a 0 byte follows them.
  \<^item> A static buffer starts out zeroed. What an earlier reply left in it is never read: only the
    bytes written for this one are.
  \<^item> The record \<open>mgmt_env\<close> holds what the code gets from outside its text: the memory behind the
    component and behind the components of stored names, the system's answers while a device is opened, the bytes an
    uninitialised address holds, the temporary buffer and random number of the packet builder, and the
    addresses and uninitialised memory that show when the state of the relay is printed.
\<close>

section \<open>Constants\<close>

abbreviation (input) CCN_DTAG_ANY :: u64 where "CCN_DTAG_ANY \<equiv> 13"
abbreviation (input) CCN_DTAG_CONTENTDIGEST :: u64 where "CCN_DTAG_CONTENTDIGEST \<equiv> 21"
abbreviation (input) CCN_DTAG_ACTION :: u64 where "CCN_DTAG_ACTION \<equiv> 73"
abbreviation (input) CCN_DTAG_FACEID :: u64 where "CCN_DTAG_FACEID \<equiv> 74"
abbreviation (input) CCN_DTAG_IPPROTO :: u64 where "CCN_DTAG_IPPROTO \<equiv> 75"
abbreviation (input) CCN_DTAG_HOST :: u64 where "CCN_DTAG_HOST \<equiv> 76"
abbreviation (input) CCN_DTAG_PORT :: u64 where "CCN_DTAG_PORT \<equiv> 77"
abbreviation (input) CCN_DTAG_FACEINSTANCE :: u64 where "CCN_DTAG_FACEINSTANCE \<equiv> 80"
abbreviation (input) CCN_DTAG_FWDINGENTRY :: u64 where "CCN_DTAG_FWDINGENTRY \<equiv> 81"
abbreviation (input) CCNL_DTAG_MACSRC :: u64 where "CCNL_DTAG_MACSRC \<equiv> 99001"
abbreviation (input) CCNL_DTAG_IP4SRC :: u64 where "CCNL_DTAG_IP4SRC \<equiv> 99002"
abbreviation (input) CCNL_DTAG_IP6SRC :: u64 where "CCNL_DTAG_IP6SRC \<equiv> 99003"
abbreviation (input) CCNL_DTAG_UNIXSRC :: u64 where "CCNL_DTAG_UNIXSRC \<equiv> 99004"
abbreviation (input) CCNL_DTAG_FRAG :: u64 where "CCNL_DTAG_FRAG \<equiv> 99005"
abbreviation (input) CCNL_DTAG_FACEFLAGS :: u64 where "CCNL_DTAG_FACEFLAGS \<equiv> 99006"
abbreviation (input) CCNL_DTAG_DEVINSTANCE :: u64 where "CCNL_DTAG_DEVINSTANCE \<equiv> 99007"
abbreviation (input) CCNL_DTAG_DEVNAME :: u64 where "CCNL_DTAG_DEVNAME \<equiv> 99008"
abbreviation (input) CCNL_DTAG_DEVFLAGS :: u64 where "CCNL_DTAG_DEVFLAGS \<equiv> 99009"
abbreviation (input) CCNL_DTAG_MTU :: u64 where "CCNL_DTAG_MTU \<equiv> 99010"
abbreviation (input) CCNL_DTAG_WPANADR :: u64 where "CCNL_DTAG_WPANADR \<equiv> 99011"
abbreviation (input) CCNL_DTAG_WPANPANID :: u64 where "CCNL_DTAG_WPANPANID \<equiv> 99012"
abbreviation (input) CCNL_DTAG_PREFIX :: u64 where "CCNL_DTAG_PREFIX \<equiv> 99215"
abbreviation (input) CCNL_DTAG_SUITE :: u64 where "CCNL_DTAG_SUITE \<equiv> 99300"
abbreviation (input) CCNL_DTAG_CHUNKNUM :: u64 where "CCNL_DTAG_CHUNKNUM \<equiv> 99302"
abbreviation (input) CCNL_DTAG_CHUNKFLAG :: u64 where "CCNL_DTAG_CHUNKFLAG \<equiv> 99303"

record mgmt_env =
  mg_behind :: bytes
  mg_behind_comp :: "content \<Rightarrow> nat \<Rightarrow> bytes"
  mg_os :: oscalls
  mg_os6 :: oscalls
  mg_ip4 :: u32
  mg_ip6 :: bytes
  mg_tmp :: bytes
  mg_rnd :: u32
  mg_dump :: dump_env

section \<open>Reading a request\<close>

definition mgmt_expect :: "bytes \<Rightarrow> cursor \<Rightarrow> (u64 \<Rightarrow> u8 \<Rightarrow> bool) \<Rightarrow> (u64 \<times> cursor) option res" where
  "mgmt_expect m cur good = bindE (ccnl_ccnb_dehead m cur) (\<lambda>(h, cur1). Inr (case h of
      None \<Rightarrow> None
    | Some (num, typ) \<Rightarrow> if good num typ then Some (num, cur1) else None))"

definition is_dtag :: "u64 \<Rightarrow> u64 \<Rightarrow> u8 \<Rightarrow> bool" where
  "is_dtag tag num typ \<longleftrightarrow> typ = CCN_TT_DTAG \<and> num = tag"

text \<open>The four heads every command starts with; \<open>None\<close> is the jump to \<open>SoftBail\<close>.\<close>

definition mgmt_open :: "bytes \<Rightarrow> nat \<Rightarrow> u64 \<Rightarrow> cursor option res" where
  "mgmt_open m buflen tag =
    bindE (mgmt_expect m (0, buflen) (is_dtag CCN_DTAG_CONTENTOBJ)) (\<lambda>a. case a of None \<Rightarrow> Inr None | Some (_, cur1) \<Rightarrow>
    bindE (mgmt_expect m cur1 (is_dtag CCN_DTAG_CONTENT)) (\<lambda>b. case b of None \<Rightarrow> Inr None | Some (_, cur2) \<Rightarrow>
    bindE (mgmt_expect m cur2 (\<lambda>num typ. typ = CCN_TT_BLOB)) (\<lambda>c. case c of None \<Rightarrow> Inr None | Some (num, (p, _)) \<Rightarrow>
    bindE (mgmt_expect m (p, unat num) (is_dtag tag)) (\<lambda>d. Inr (map_option snd d)))))"

text \<open>How the loop over the fields ends: at the end tag or where no head can be read, at
  \<open>SoftBail\<close>, or at \<open>Bail\<close>, where the macro \<open>extractStr\<close> jumps. A field without a blob leaves the
  pointer the macro copies from uninitialised.\<close>

datatype parse_end = Ended | Soft | Hard

type_synonym fields = "u64 \<Rightarrow> bytes option"

function mgmt_fields :: "bytes \<Rightarrow> u64 list \<Rightarrow> cursor \<Rightarrow> fields \<Rightarrow> (parse_end \<times> fields) res" where
  "mgmt_fields m tags cur vals = (case ccnl_ccnb_dehead m cur of
      Inl e \<Rightarrow> Inl e
    | Inr (None, cur1) \<Rightarrow> Inr (Ended, vals)
    | Inr (Some (num, typ), cur1) \<Rightarrow>
        if num = 0 \<and> typ = 0 then Inr (Ended, vals)
        else (case ccnl_ccnb_consume m typ num cur1 None of
            Inl e \<Rightarrow> if e = Fail then Inr (if typ = CCN_TT_DTAG \<and> num \<in> set tags then Hard else Soft, vals) else Inl e
          | Inr (cur2, v) \<Rightarrow>
              if typ = CCN_TT_DTAG \<and> num \<in> set tags
              then bindE (blob_val v) (\<lambda>(cp, len). bindE (slice m cp len) (\<lambda>b.
                mgmt_fields m tags cur2 (vals(num := Some b))))
              else mgmt_fields m tags cur2 vals))"
  by pat_completeness auto

termination mgmt_fields
  by (relation "measure (\<lambda>(m, tags, cur, vals). length m - fst cur)")
    (auto intro: ccnb_after_head dest!: consume_progress)

declare mgmt_fields.simps [simp del]

text \<open>The components of a name; the flag is false after the jump to \<open>SoftBail\<close>, which keeps those
  read so far.\<close>

function mgmt_name :: "bytes \<Rightarrow> cursor \<Rightarrow> blobref list \<Rightarrow> (bool \<times> cursor \<times> blobref list) res" where
  "mgmt_name m cur comps = (case ccnl_ccnb_dehead m cur of
      Inl e \<Rightarrow> Inl e
    | Inr (None, cur1) \<Rightarrow> Inr (False, cur1, comps)
    | Inr (Some (num, typ), cur1) \<Rightarrow>
        if num = 0 \<and> typ = 0 then Inr (True, cur1, comps)
        else (case ccnl_ccnb_consume m typ num cur1 None of
            Inl e \<Rightarrow> if e = Fail then Inr (False, cur1, comps) else Inl e
          | Inr (cur2, v) \<Rightarrow>
              if typ = CCN_TT_DTAG \<and> num = CCN_DTAG_COMPONENT \<and> length comps < CCNL_MAX_NAME_COMP
              then mgmt_name m cur2 (comps @ [v])
              else mgmt_name m cur2 comps))"
  by pat_completeness auto

termination mgmt_name
  by (relation "measure (\<lambda>(m, cur, comps). length m - fst cur)")
    (auto intro: ccnb_after_head dest!: consume_progress)

declare mgmt_name.simps [simp del]

lemma mgmt_name_progress: "mgmt_name m cur comps = Inr (ok, cur', comps') \<Longrightarrow> fst cur \<le> fst cur'"
proof (induction "length m - fst cur" arbitrary: cur comps rule: less_induct)
  case less
  note run = less.prems
  obtain x where x: "ccnl_ccnb_dehead m cur = Inr x"
    using run by (subst (asm) mgmt_name.simps) (auto split: sum.splits)
  obtain hd1 cur1 where hx: "x = (hd1, cur1)" by (cases x)
  show ?case
  proof (cases hd1)
    case None
    have "cur1 = cur" using x hx None
      by (auto simp: ccnl_ccnb_dehead_def bindE_eq_Inr_iff split: prod.splits if_splits option.splits)
    then show ?thesis using run x hx None by (subst (asm) mgmt_name.simps) simp
  next
    case (Some y)
    obtain num tt where y: "y = (num, tt)" by (cases y)
    have d: "ccnl_ccnb_dehead m cur = Inr (Some (num, tt), cur1)" using x hx Some y by simp
    note pos = ccnb_after_head(2)[OF d]
    show ?thesis
    proof (cases "num = 0 \<and> tt = 0")
      case True
      then show ?thesis using run d pos[of cur1] by (subst (asm) mgmt_name.simps) simp
    next
      case n0: False
      show ?thesis
      proof (cases "ccnl_ccnb_consume m tt num cur1 None")
        case (Inl e)
        then show ?thesis using run d n0 pos[of cur1] by (subst (asm) mgmt_name.simps) (auto split: if_splits)
      next
        case (Inr z)
        obtain cur2 v where z: "z = (cur2, v)" by (cases z)
        have c: "fst cur1 \<le> fst cur2" using consume_progress[of m tt num cur1 None cur2 v] Inr z by simp
        obtain cs where "mgmt_name m cur2 cs = Inr (ok, cur', comps')"
          using run d n0 Inr z by (subst (asm) mgmt_name.simps) (auto split: if_splits)
        then have "fst cur2 \<le> fst cur'" using less.hyps[of cur2 cs] ccnb_after_head(1)[OF d c] by blast
        then show ?thesis using pos[OF c] by simp
      qed
    qed
  qed
qed

text \<open>The loop of \<open>prefixreg\<close>, which also reads names.\<close>

function mgmt_reg_fields :: "bytes \<Rightarrow> u64 list \<Rightarrow> cursor \<Rightarrow> fields \<Rightarrow> blobref list
    \<Rightarrow> (parse_end \<times> fields \<times> blobref list) res" where
  "mgmt_reg_fields m tags cur vals comps = (case ccnl_ccnb_dehead m cur of
      Inl e \<Rightarrow> Inl e
    | Inr (None, cur1) \<Rightarrow> Inr (Ended, vals, comps)
    | Inr (Some (num, typ), cur1) \<Rightarrow>
        if num = 0 \<and> typ = 0 then Inr (Ended, vals, comps)
        else if typ = CCN_TT_DTAG \<and> num = CCN_DTAG_NAME then
          (case mgmt_name m cur1 comps of
              Inl e \<Rightarrow> Inl e
            | Inr (ok, cur2, comps2) \<Rightarrow>
                if ok then mgmt_reg_fields m tags cur2 vals comps2 else Inr (Soft, vals, comps2))
        else (case ccnl_ccnb_consume m typ num cur1 None of
            Inl e \<Rightarrow> if e = Fail then Inr (if typ = CCN_TT_DTAG \<and> num \<in> set tags then Hard else Soft, vals, comps) else Inl e
          | Inr (cur2, v) \<Rightarrow>
              if typ = CCN_TT_DTAG \<and> num \<in> set tags
              then bindE (blob_val v) (\<lambda>(cp, len). bindE (slice m cp len) (\<lambda>b.
                mgmt_reg_fields m tags cur2 (vals(num := Some b)) comps))
              else mgmt_reg_fields m tags cur2 vals comps))"
  by pat_completeness auto

termination mgmt_reg_fields
  by (relation "measure (\<lambda>(m, tags, cur, vals, comps). length m - fst cur)")
    (auto intro: ccnb_after_head dest!: consume_progress mgmt_name_progress)

declare mgmt_reg_fields.simps [simp del]

section \<open>Composing a reply\<close>

definition zeroed :: "nat \<Rightarrow> outbuf" where
  "zeroed n = (0, replicate n 0)"

definition written :: "outbuf \<Rightarrow> bytes" where
  "written ob = take (fst ob) (snd ob)"

text \<open>\<open>ccnl_ccnb_mkStrBlob\<close> with a pointer that may be NULL: \<open>strlen\<close> follows it.\<close>

definition mk_str :: "nat \<Rightarrow> u64 \<Rightarrow> bytes option \<Rightarrow> outbuf \<Rightarrow> outbuf res" where
  "mk_str bufend num s ob = (case s of None \<Rightarrow> Inl Null
    | Some b \<Rightarrow> ccnl_ccnb_mkStrBlob bufend num CCN_TT_DTAG (c_str b) ob)"

text \<open>\<open>if (s) { mkStrBlob (..., s, ...) }\<close>.\<close>

definition mk_opt :: "nat \<Rightarrow> u64 \<Rightarrow> bytes option \<Rightarrow> outbuf \<Rightarrow> outbuf res" where
  "mk_opt bufend num s ob = (case s of None \<Rightarrow> Inr ob | Some b \<Rightarrow> mk_str bufend num s ob)"

definition mk_end :: "nat \<Rightarrow> outbuf \<Rightarrow> outbuf res" where
  "mk_end bufend ob = (if fst ob + 1 \<ge> bufend then Inl Fail else put_fwd [0] ob)"

text \<open>The name \<open>/ccnx//cmp\<close>.\<close>

definition mk_mgmt_name :: "nat \<Rightarrow> bytes option \<Rightarrow> outbuf \<Rightarrow> outbuf res" where
  "mk_mgmt_name bufend cmp ob =
    bindE (ccnl_ccnb_mkHeader bufend CCN_DTAG_NAME CCN_TT_DTAG ob) (\<lambda>ob1.
    bindE (mk_str bufend CCN_DTAG_COMPONENT (Some (lit ''ccnx'')) ob1) (\<lambda>ob2.
    bindE (mk_str bufend CCN_DTAG_COMPONENT (Some []) ob2) (\<lambda>ob3.
    bindE (mk_str bufend CCN_DTAG_COMPONENT cmp ob3) (mk_end bufend))))"

text \<open>The name, the inner statement, and the statement as the content behind the name. All buffers of
  the name have 2000 bytes.\<close>

definition mgmt_message :: "bytes option \<Rightarrow> outbuf res \<Rightarrow> bytes res" where
  "mgmt_message cmp stmt =
    bindE (mk_mgmt_name 2000 cmp (zeroed 2000)) (\<lambda>ob.
    bindE stmt (\<lambda>ob3.
    bindE (ccnl_ccnb_mkBlob 2000 CCN_DTAG_CONTENT CCN_TT_DTAG (written ob3) ob) (\<lambda>ob4. Inr (written ob4))))"

section \<open>Sending\<close>

text \<open>One piece: the packet of 4048 bytes that holds \<open>d\<close>, and the content object around it.\<close>

definition split_packet :: "bool \<Rightarrow> bytes \<Rightarrow> bytes res" where
  "split_packet last_one d =
    bindE (ccnl_ccnb_mkHeader 4048 CCNL_DTAG_FRAG CCN_TT_DTAG (zeroed 4048)) (\<lambda>ob1.
    bindE (if last_one then mk_str 4048 CCN_DTAG_ANY (Some (lit ''last'')) ob1 else Inr ob1) (\<lambda>ob2.
    bindE (ccnl_ccnb_mkBlob 4048 CCN_DTAG_CONTENTDIGEST CCN_TT_DTAG d ob2) (\<lambda>ob3.
    bindE (mk_end 4048 ob3) (\<lambda>ob4. Inr (written ob4)))))"

definition split_object :: "bytes \<Rightarrow> bytes res" where
  "split_object packet =
    bindE (ccnl_ccnb_mkHeader CCNL_MAX_PACKET_SIZE CCN_DTAG_CONTENTOBJ CCN_TT_DTAG (zeroed CCNL_MAX_PACKET_SIZE)) (\<lambda>ob1.
      if fst ob1 + length packet + 1 \<ge> CCNL_MAX_PACKET_SIZE then Inl Fail
      else bindE (put_fwd packet ob1) (\<lambda>ob2. bindE (put_fwd [0] ob2) (\<lambda>ob3. Inr (written ob3))))"

text \<open>A routine of the reply fails with \<open>goto Bail\<close>: the return code is 1, nothing is undone.\<close>

definition or_bail :: "'a res \<Rightarrow> relay \<Rightarrow> ('a \<Rightarrow> (int \<times> relay) res) \<Rightarrow> (int \<times> relay) res" where
  "or_bail x r f = (case x of Inl e \<Rightarrow> if e = Fail then Inr (1, r) else Inl e | Inr a \<Rightarrow> f a)"

text \<open>The first piece goes to the face that asked, the others into the content store under the names
  \<open>/mgmt/seqnum-it\<close>.\<close>

fun split_loop :: "hooks \<Rightarrow> bytes \<Rightarrow> faceref \<Rightarrow> nat \<Rightarrow> bytes \<Rightarrow> nat list \<Rightarrow> relay \<Rightarrow> (int \<times> relay) res" where
  "split_loop h tmp from1 numPackets buf [] r = Inr (0, r)"
| "split_loop h tmp from1 numPackets buf (it # its) r =
     or_bail (split_packet (it = numPackets - 1) (take 2024 (drop (it * 2024) buf))) r (\<lambda>packet.
     or_bail (split_object packet) r (\<lambda>buf2.
       if it = 0 then bindE (ccnl_face_enqueue from1 (Some buf2) r) (\<lambda>(rc, r1).
         split_loop h tmp from1 numPackets buf its r1)
       else
         let pfx = ccnl_URItoPrefix (lit ''/mgmt/seqnum-'' @ dec_str (int it)) CCNL_SUITE_CCNB None in
         bindE (ccnl_mkSimpleContent tmp pfx buf2 None) (\<lambda>x. case x of
             None \<Rightarrow> Inr (1, r)
           | Some (b, contentpos) \<Rightarrow>
               (case ccnl_content_new r (pkt_zero\<lparr>pkt_pfx := Some pfx, pkt_buf := Some b,
                   pkt_content := Some contentpos, pkt_contlen := length buf2\<rparr>) of (c, r1) \<Rightarrow>
                 bindE (ccnl_content_serve_pending h c r1) (\<lambda>(n, c1, r2).
                 bindE (ccnl_content_add2cache h c1 r2) (\<lambda>(ok, r3).
                   split_loop h tmp from1 numPackets buf its r3))))))"

definition ccnl_mgmt_send_return_split :: "hooks \<Rightarrow> bytes \<Rightarrow> faceref \<Rightarrow> bytes \<Rightarrow> relay \<Rightarrow> (int \<times> relay) res" where
  "ccnl_mgmt_send_return_split h tmp from1 buf r =
    (let numPackets = length buf div 2024 + 1 in split_loop h tmp from1 numPackets buf [0..<numPackets] r)"

text \<open>Composing may fail: then nothing is sent.\<close>

definition mgmt_send :: "hooks \<Rightarrow> mgmt_env \<Rightarrow> faceref \<Rightarrow> bytes res \<Rightarrow> relay \<Rightarrow> (int \<times> relay) res" where
  "mgmt_send h env from1 msg r = (case msg of
      Inl e \<Rightarrow> if e = Fail then Inr (-1, r) else Inl e
    | Inr b \<Rightarrow> bindE (ccnl_mgmt_send_return_split h (mg_tmp env) from1 b r) (\<lambda>(rc, r1). Inr (if rc \<noteq> 0 then -1 else 0, r1)))"

definition ccnl_mgmt_return_ccn_msg :: "hooks \<Rightarrow> mgmt_env \<Rightarrow> faceref \<Rightarrow> bytes \<Rightarrow> bytes \<Rightarrow> relay \<Rightarrow> (int \<times> relay) res" where
  "ccnl_mgmt_return_ccn_msg h env from1 component_type answer r =
    mgmt_send h env from1 (mgmt_message (Some component_type) (mk_str 500 CCN_DTAG_ACTION (Some answer) (zeroed 500))) r"

end
