(* ===== verification/Mgmt_Debug.thy ===== *)
theory Mgmt_Debug
  imports Mgmt_Wire
begin

text \<open>
  The command \<open>debug\<close> of \<open>ccnl-core/src/ccnl-mgmt.c\<close>: it prints the tables of the relay, sends
  them back, and stops the relay. The arrays between the two are lists of records, one per entry of
  a table; when the request breaks off behind the action they are sent as they were allocated.
\<close>

section \<open>Sizes of the tables\<close>

definition get_num_faces :: "relay \<Rightarrow> nat" where "get_num_faces r = length (rl_faces r)"
definition get_num_fwds :: "relay \<Rightarrow> nat" where "get_num_fwds r = length (rl_fib r)"
definition get_num_interface :: "relay \<Rightarrow> nat" where "get_num_interface r = rl_ifcount r"
definition get_num_interests :: "relay \<Rightarrow> nat" where "get_num_interests r = length (rl_pit r)"
definition get_num_contents :: "relay \<Rightarrow> nat" where "get_num_contents r = length (rl_contents r)"

section \<open>Statements\<close>

text \<open>Fields one after the other, each from a block of memory with a string.\<close>

definition mk_mem :: "nat \<Rightarrow> u64 \<Rightarrow> bytes \<Rightarrow> outbuf \<Rightarrow> outbuf res" where
  "mk_mem bufend num b ob = (if 0 \<in> set b then mk_str bufend num (Some b) ob else Inl Oob)"

fun mk_mems :: "nat \<Rightarrow> (u64 \<times> bytes) list \<Rightarrow> outbuf \<Rightarrow> outbuf res" where
  "mk_mems bufend [] ob = Inr ob"
| "mk_mems bufend ((num, b) # fs) ob = bindE (mk_mem bufend num b ob) (mk_mems bufend fs)"

definition z_str :: "bytes \<Rightarrow> bytes" where "z_str b = b @ [0]"

text \<open>\<open>snprintf (str, 100, "%s", b)\<close>, whose result must not be cut off.\<close>

definition fits_100 :: "bytes \<Rightarrow> bytes res" where
  "fits_100 b = (if 0 \<notin> set b then Inl Oob else if length (c_str b) \<ge> 100 then Inl Fail else Inr (z_str (c_str b)))"

fun ccnl_mgmt_create_interface_stmt :: "nat \<Rightarrow> if_dump list \<Rightarrow> outbuf \<Rightarrow> outbuf res" where
  "ccnl_mgmt_create_interface_stmt bufend [] ob = Inr ob"
| "ccnl_mgmt_create_interface_stmt bufend (d # ds) ob =
     bindE (ccnl_ccnb_mkHeader bufend 99202 CCN_TT_DTAG ob) (\<lambda>ob1.
     bindE (mk_mem bufend 99205 (z_str (dec_str (id_ifndx d))) ob1) (\<lambda>ob2.
     bindE (fits_100 (id_addr d)) (\<lambda>addr.
     bindE (mk_mems bufend [(99212, addr), (99213, z_str (ptr_str (id_dev d))), (99214, z_str (dec_str (id_reflect d)))] ob2) (\<lambda>ob3.
     bindE (mk_end bufend ob3) (ccnl_mgmt_create_interface_stmt bufend ds)))))"

definition peer_field :: "face_dump \<Rightarrow> u64 \<times> bytes" where
  "peer_field d = (case fd_type d of
      AF_INET \<Rightarrow> (99206, fd_peer d) | AF_PACKET \<Rightarrow> (99207, fd_peer d) | AF_UNIX \<Rightarrow> (99208, fd_peer d)
    | _ \<Rightarrow> (99209, z_str (lit ''peer=?'')))"

fun ccnl_mgmt_create_faces_stmt :: "nat \<Rightarrow> face_dump list \<Rightarrow> outbuf \<Rightarrow> outbuf res" where
  "ccnl_mgmt_create_faces_stmt bufend [] ob = Inr ob"
| "ccnl_mgmt_create_faces_stmt bufend (d # ds) ob =
     bindE (ccnl_ccnb_mkHeader bufend CCN_DTAG_FACEINSTANCE CCN_TT_DTAG ob) (\<lambda>ob1.
     bindE (mk_mems bufend [(CCN_DTAG_FACEID, z_str (dec_str (fd_id d))), (99203, z_str (ptr_str (fd_next d))),
       (99204, z_str (ptr_str (fd_prev d))), (99205, z_str (dec_str (fd_ifndx d))),
       (CCNL_DTAG_FACEFLAGS, z_str (hex2_str (fd_flags d))), peer_field d] ob1) (\<lambda>ob2.
     if fst ob2 \<ge> bufend then Inl Fail
     else bindE (put_fwd [0] ob2) (ccnl_mgmt_create_faces_stmt bufend ds)))"

fun ccnl_mgmt_create_fwds_stmt :: "nat \<Rightarrow> fwd_dump list \<Rightarrow> outbuf \<Rightarrow> outbuf res" where
  "ccnl_mgmt_create_fwds_stmt bufend [] ob = Inr ob"
| "ccnl_mgmt_create_fwds_stmt bufend (d # ds) ob =
     bindE (ccnl_ccnb_mkHeader bufend CCN_DTAG_FWDINGENTRY CCN_TT_DTAG ob) (\<lambda>ob1.
     bindE (mk_mems bufend [(99210, z_str (ptr_str (wd_fwd d))), (99203, z_str (ptr_str (wd_next d))),
       (99211, z_str (ptr_str (wd_face d))), (CCN_DTAG_FACEID, z_str (dec_str (wd_faceid d))),
       (CCNL_DTAG_SUITE, z_str (dec_str (wd_suite d))), (CCNL_DTAG_PREFIX, wd_prefix d)] ob1) (\<lambda>ob2.
     bindE (mk_end bufend ob2) (ccnl_mgmt_create_fwds_stmt bufend ds)))"

fun ccnl_mgmt_create_interest_stmt :: "nat \<Rightarrow> interest_dump list \<Rightarrow> outbuf \<Rightarrow> outbuf res" where
  "ccnl_mgmt_create_interest_stmt bufend [] ob = Inr ob"
| "ccnl_mgmt_create_interest_stmt bufend (d # ds) ob =
     bindE (ccnl_ccnb_mkHeader bufend 26 CCN_TT_DTAG ob) (\<lambda>ob1.
     bindE (mk_mems bufend [(99216, z_str (ptr_str (td_interest d))), (99203, z_str (ptr_str (td_next d))),
       (99204, z_str (ptr_str (td_prev d))), (99217, z_str (dec_str (td_last d))), (99218, z_str (dec_str (td_min d))),
       (99219, z_str (dec_str (td_max d))), (99220, z_str (dec_str (td_retries d))),
       (99221, z_str (ptr_str (td_publisher d))), (CCNL_DTAG_PREFIX, td_prefix d)] ob1) (\<lambda>ob2.
     bindE (mk_end bufend ob2) (ccnl_mgmt_create_interest_stmt bufend ds)))"

fun ccnl_mgmt_create_content_stmt :: "nat \<Rightarrow> content_dump list \<Rightarrow> outbuf \<Rightarrow> outbuf res" where
  "ccnl_mgmt_create_content_stmt bufend [] ob = Inr ob"
| "ccnl_mgmt_create_content_stmt bufend (d # ds) ob =
     bindE (ccnl_ccnb_mkHeader bufend CCN_DTAG_CONTENT CCN_TT_DTAG ob) (\<lambda>ob1.
     bindE (mk_mems bufend [(99222, z_str (ptr_str (cd_content d))), (99203, z_str (ptr_str (cd_next d))),
       (99204, z_str (ptr_str (cd_prev d))), (99223, z_str (dec_str (cd_last_use d))),
       (99224, z_str (dec_str (cd_served_cnt d))), (CCNL_DTAG_PREFIX, cd_prefix d)] ob1) (\<lambda>ob2.
     bindE (mk_end bufend ob2) (ccnl_mgmt_create_content_stmt bufend ds)))"

section \<open>The command\<close>

record tables =
  tb_faces :: "face_dump list"
  tb_fwds :: "fwd_dump list"
  tb_ifs :: "if_dump list"
  tb_interests :: "interest_dump list"
  tb_contents :: "content_dump list"

text \<open>The arrays after their allocation; the strings for the names of the forwarding table are
  zeroed, the others are not.\<close>

definition faces_unset :: "dump_env \<Rightarrow> relay \<Rightarrow> face_dump list" where
  "faces_unset env r = map (du_face env) [0..<get_num_faces r]"

definition fwds_unset :: "dump_env \<Rightarrow> relay \<Rightarrow> fwd_dump list" where
  "fwds_unset env r = map (\<lambda>k. (du_fwd env k)\<lparr>wd_prefix := replicate 256 0\<rparr>) [0..<get_num_fwds r]"

definition ifs_unset :: "dump_env \<Rightarrow> relay \<Rightarrow> if_dump list" where
  "ifs_unset env r = map (du_if env) [0..<get_num_interface r]"

definition interests_unset :: "dump_env \<Rightarrow> relay \<Rightarrow> interest_dump list" where
  "interests_unset env r = map (du_interest env) [0..<get_num_interests r]"

definition contents_unset :: "dump_env \<Rightarrow> relay \<Rightarrow> content_dump list" where
  "contents_unset env r = map (du_content env) [0..<get_num_contents r]"

definition tables_unset :: "dump_env \<Rightarrow> relay \<Rightarrow> tables" where
  "tables_unset env r =
    \<lparr>tb_faces = faces_unset env r, tb_fwds = fwds_unset env r, tb_ifs = ifs_unset env r,
     tb_interests = interests_unset env r, tb_contents = contents_unset env r\<rparr>"

text \<open>The console first, then the arrays.\<close>

definition tables_dump :: "dump_env \<Rightarrow> relay \<Rightarrow> tables res" where
  "tables_dump env r =
    bindE (ccnl_dump_relay env r) (\<lambda>_.
    bindE (get_faces_dump env 0 (rl_faces r)) (\<lambda>fs.
    bindE (get_fwd_dump env r 0 (rl_fib r)) (\<lambda>ws.
    bindE (get_interface_dump env 0 (take (rl_ifcount r) (rl_ifs r))) (\<lambda>ds.
    bindE (get_interest_dump env 0 0 (rl_pit r)) (\<lambda>ts.
    bindE (get_content_dump env 0 0 (rl_contents r)) (\<lambda>cs.
    Inr \<lparr>tb_faces = fs, tb_fwds = ws, tb_ifs = ds, tb_interests = ts, tb_contents = cs\<rparr>))))))"

text \<open>What the action does: the text for the reply, the arrays and the relay.\<close>

definition debug_act :: "dump_env \<Rightarrow> bytes option \<Rightarrow> relay \<Rightarrow> (bytes \<times> tables \<times> relay) res" where
  "debug_act env debugaction r = (case debugaction of
      None \<Rightarrow> Inr (lit ''no debug action given, ignored'', tables_unset env r, r)
    | Some a \<Rightarrow>
        if c_str a = lit ''dump'' then bindE (tables_dump env r) (\<lambda>t. Inr (lit ''debug cmd worked'', t, r))
        else if c_str a = lit ''halt'' then Inr (lit ''debug cmd worked'', tables_unset env r, r\<lparr>rl_halt := True\<rparr>)
        else if c_str a = lit ''dump+halt'' then bindE (tables_dump env r) (\<lambda>t. Inr (lit ''debug cmd worked'', t, r\<lparr>rl_halt := True\<rparr>))
        else Inr (lit ''unknown debug action, ignored'', tables_unset env r, r))"

definition stmt_length :: "relay \<Rightarrow> nat" where
  "stmt_length r = 200 * get_num_faces r + 200 * get_num_interface r + 200 * get_num_fwds r
     + 200 * get_num_interests r + 200 * get_num_contents r"

definition debug_stmt :: "nat \<Rightarrow> bytes \<Rightarrow> bytes \<Rightarrow> tables \<Rightarrow> outbuf res" where
  "debug_stmt n action cp t =
    bindE (ccnl_ccnb_mkHeader n 99100 CCN_TT_DTAG (zeroed n)) (\<lambda>ob1.
    bindE (mk_str n CCN_DTAG_ACTION (Some action) ob1) (\<lambda>ob2.
    bindE (mk_str n 99101 (Some cp) ob2) (\<lambda>ob3.
    bindE (mk_end n ob3) (\<lambda>ob4.
    bindE (if c_str action = lit ''dump'' \<or> c_str action = lit ''dump+halt'' then
        bindE (ccnl_ccnb_mkHeader n 99201 CCN_TT_DTAG ob4) (\<lambda>ob5.
        bindE (ccnl_mgmt_create_interface_stmt n (tb_ifs t) ob5) (\<lambda>ob6.
        bindE (ccnl_mgmt_create_faces_stmt n (tb_faces t) ob6) (\<lambda>ob7.
        bindE (ccnl_mgmt_create_fwds_stmt n (tb_fwds t) ob7) (\<lambda>ob8.
        bindE (ccnl_mgmt_create_interest_stmt n (tb_interests t) ob8)
          (ccnl_mgmt_create_content_stmt n (tb_contents t))))))
      else Inr ob4) (mk_end n)))))"

text \<open>The reply; its buffer is as long as the statement and 2000 bytes.\<close>

definition debug_message :: "nat \<Rightarrow> outbuf res \<Rightarrow> bytes res" where
  "debug_message n stmt =
    bindE (mk_mgmt_name (n + 2000) (Some (lit ''debug'')) (zeroed (n + 2000))) (\<lambda>ob.
    bindE stmt (\<lambda>ob3.
    bindE (ccnl_ccnb_mkBlob (n + 2000) CCN_DTAG_CONTENT CCN_TT_DTAG (written ob3) ob) (\<lambda>ob4. Inr (written ob4))))"

text \<open>The shape of the commands: no request (\<open>None\<close>) and a request that could not be read to its end
  (\<open>Soft\<close>) lead to the reply, \<open>Hard\<close> leads out without one.\<close>

definition mgmt_request :: "bytes \<Rightarrow> nat \<Rightarrow> u64 \<Rightarrow> u64 list \<Rightarrow> (parse_end \<times> fields) res" where
  "mgmt_request m len tag tags = bindE (mgmt_open m len tag) (\<lambda>x. case x of
      None \<Rightarrow> Inr (Soft, Map.empty)
    | Some cur \<Rightarrow> mgmt_fields m tags cur Map.empty)"

definition ccnl_mgmt_debug :: "hooks \<Rightarrow> mgmt_env \<Rightarrow> bytes \<Rightarrow> nat \<Rightarrow> faceref \<Rightarrow> relay \<Rightarrow> (int \<times> relay) res" where
  "ccnl_mgmt_debug h env m len from1 r =
    bindE (mgmt_request m len 99100 [CCN_DTAG_ACTION, 99101]) (\<lambda>(how, v).
    if how = Hard then Inr (-1, r)
    else
      let action = v 99101; n = stmt_length r in
      bindE (if how = Ended then debug_act (mg_dump env) action r
             else Inr (lit ''debug cmd failed'', tables_unset (mg_dump env) r, r)) (\<lambda>(cp, t, r1).
      mgmt_send h env from1 (debug_message n (debug_stmt n
        (case action of Some a \<Rightarrow> a | None \<Rightarrow> lit ''Error for debug cmd'') cp t)) r1))"

end
