(* ===== verification/Mgmt.thy ===== *)
theory Mgmt
  imports Mgmt_Debug "HOL-Library.Monad_Syntax"
begin

text \<open>
  The commands of the management protocol, \<open>ccnl-core/src/ccnl-mgmt.c\<close>, in the default Unix build
  (no fragmentation, no echo server, no signatures). Each takes the relay to the return code and the
  new relay. \<open>m\<close> is the fourth component with the memory behind it, \<open>len\<close> the component's length.
\<close>

section \<open>Arguments\<close>

text \<open>\<open>strtol (s, NULL, 0)\<close> and \<open>strtoul\<close> of a field; a missing field is a NULL string.\<close>

definition field_long :: "bytes option \<Rightarrow> (int \<times> bool) res" where
  "field_long s = bindE (case s of None \<Rightarrow> Inl Null | Some b \<Rightarrow> Inr b) (\<lambda>b. Inr (strtol 0 (c_str b)))"

definition field_ulong :: "bytes option \<Rightarrow> (nat \<times> bool) res" where
  "field_ulong s = bindE (case s of None \<Rightarrow> Inl Null | Some b \<Rightarrow> Inr b) (\<lambda>b. Inr (strtoul 0 (c_str b)))"

text \<open>Octet \<open>i\<close> is read at \<open>str + 3 * i\<close>, wherever the string ends; \<open>m\<close> is the memory of the string
  with its terminating 0. The bytes come out in order; \<open>None\<close> is the return value -1.\<close>

fun parse_eth_loop :: "nat \<Rightarrow> nat \<Rightarrow> bytes \<Rightarrow> bytes \<Rightarrow> bytes option res" where
  "parse_eth_loop 0 i m acc = Inr (Some acc)"
| "parse_eth_loop (Suc n) i m acc =
     (if 3 * i \<ge> length m then Inl Oob
      else
        let s = c_str (drop (3 * i) m); (octet, erange) = strtoul 16 s in
        bindE (rd m (3 * i + strto_end 16 s)) (\<lambda>e.
          if erange \<or> octet > 255 \<or> i \<noteq> 5 \<and> e \<noteq> 0x3a then Inr None
          else parse_eth_loop n (i + 1) m (acc @ [of_nat octet])))"

definition ccnl_mgmt_parse_eth_address :: "bytes \<Rightarrow> bytes option res" where
  "ccnl_mgmt_parse_eth_address str =
    bindE (parse_eth_loop 6 0 (str @ [0]) []) (\<lambda>a. Inr (map_option (\<lambda>bs. bs @ [0, 0]) a))"

section \<open>New faces\<close>

text \<open>The address a request for a face names. \<open>None\<close> for no address, \<open>Inl Fail\<close> for the jump to
  \<open>SoftBail\<close>. A host that does not parse leaves the address uninitialised.\<close>

definition newface_eth :: "fields \<Rightarrow> sockunion res" where
  "newface_eth v =
    bindE (field_ulong (v CCN_DTAG_PORT)) (\<lambda>(lport, erange).
      if erange \<or> lport > 0xffff then Inl Fail
      else bindE (ccnl_mgmt_parse_eth_address (the (v CCN_DTAG_HOST))) (\<lambda>a. case a of
          None \<Rightarrow> Inl Fail
        | Some a \<Rightarrow> Inr (Su_linklayer a 0 (of_nat lport))))"

definition newface_udp :: "mgmt_env \<Rightarrow> fields \<Rightarrow> (sockunion option \<times> sockunion option) res" where
  "newface_udp env v =
    bindE (field_ulong (v CCN_DTAG_PORT)) (\<lambda>(lport, erange).
      if erange \<or> lport > 0xffff then Inl Fail
      else
        bindE (if v CCNL_DTAG_IP4SRC = None then Inr None
          else bindE (case v CCN_DTAG_HOST of None \<Rightarrow> Inl Null | Some hst \<Rightarrow> Inr hst) (\<lambda>hst.
            Inr (Some (Su_ip4 (case inet_pton4 (c_str hst) of Some b \<Rightarrow> ucast (be_val b) | None \<Rightarrow> mg_ip4 env) (of_nat lport))))) (\<lambda>a4.
        bindE (if v CCNL_DTAG_IP6SRC = None then Inr None
          else bindE (case v CCN_DTAG_HOST of None \<Rightarrow> Inl Null | Some hst \<Rightarrow> Inr hst) (\<lambda>hst.
            Inr (Some (Su_ip6 (case inet_pton6 (c_str hst) of Some b \<Rightarrow> b | None \<Rightarrow> mg_ip6 env) (of_nat lport))))) (\<lambda>a6.
        Inr (a4, a6))))"

text \<open>\<open>f = ccnl_get_face_or_create (ccnl, -1, ...)\<close>, when there is an address.\<close>

definition mgmt_face :: "sockunion option \<Rightarrow> faceref option \<times> relay \<Rightarrow> (faceref option \<times> relay) res" where
  "mgmt_face a fr = (case a of None \<Rightarrow> Inr fr | Some su \<Rightarrow> ccnl_get_face_or_create (snd fr) (-1) (Some su))"

text \<open>The path of a Unix socket has 108 bytes, the last of which must stay 0.\<close>

definition newface_unix :: "fields \<Rightarrow> sockunion option res" where
  "newface_unix v = (case v CCNL_DTAG_UNIXSRC of None \<Rightarrow> Inr None
    | Some path \<Rightarrow> if length (c_str path) \<ge> 108 then Inl Fail else Inr (Some (Su_unix (c_str path))))"

definition newface_wants_udp :: "fields \<Rightarrow> bool" where
  "newface_wants_udp v \<longleftrightarrow>
    v CCN_DTAG_IPPROTO \<noteq> None \<and> v CCN_DTAG_HOST \<noteq> None \<and> v CCN_DTAG_PORT \<noteq> None
      \<and> c_str (the (v CCN_DTAG_IPPROTO)) = lit ''17''
    \<or> v CCNL_DTAG_WPANADR \<noteq> None \<and> v CCNL_DTAG_WPANPANID \<noteq> None"

text \<open>An early exit keeps the face found so far: the result is whether the command worked, the face and
  the relay.\<close>

definition soft_exit :: "'a res \<Rightarrow> faceref option \<times> relay \<Rightarrow> ('a \<Rightarrow> (bool \<times> faceref option \<times> relay) res)
    \<Rightarrow> (bool \<times> faceref option \<times> relay) res" where
  "soft_exit x fr g = (case x of Inl e \<Rightarrow> if e = Fail then Inr (False, fr) else Inl e | Inr a \<Rightarrow> g a)"

definition newface_find :: "mgmt_env \<Rightarrow> fields \<Rightarrow> relay \<Rightarrow> (bool \<times> faceref option \<times> relay) res" where
  "newface_find env v r =
    soft_exit (if v CCNL_DTAG_MACSRC \<noteq> None \<and> v CCN_DTAG_HOST \<noteq> None \<and> v CCN_DTAG_PORT \<noteq> None
        then bindE (newface_eth v) (\<lambda>su. mgmt_face (Some su) (None, r))
        else if newface_wants_udp v
        then bindE (newface_udp env v) (\<lambda>(a4, a6). bindE (mgmt_face a4 (None, r)) (mgmt_face a6))
        else Inr (None, r)) (None, r) (\<lambda>fr1.
    soft_exit (newface_unix v) fr1 (\<lambda>au. bindE (mgmt_face au fr1) (\<lambda>(f, r2). Inr (True, f, r2))))"

text \<open>The flags of the new face; \<open>strtol\<close> gets them even when the request has none.\<close>

definition newface_flags :: "fields \<Rightarrow> faceref option \<times> relay \<Rightarrow> (bool \<times> faceref option \<times> relay) res" where
  "newface_flags v fr = (case fr of
      (None, r) \<Rightarrow> Inr (False, None, r)
    | (Some f, r) \<Rightarrow>
        bindE (field_long (v CCNL_DTAG_FACEFLAGS)) (\<lambda>(lflags, erange).
          if erange \<or> lflags > 32767 \<or> lflags < -32768 then Inr (False, Some f, r)
          else Inr (True, Some f, face_upd f (\<lambda>x. x\<lparr>f_flags := of_int lflags AND
            (CCNL_FACE_FLAGS_STATIC OR CCNL_FACE_FLAGS_REFLECT)\<rparr>) r)))"

definition newface_stmt :: "fields \<Rightarrow> bool \<Rightarrow> faceref option \<Rightarrow> outbuf res" where
  "newface_stmt v worked f =
    bindE (ccnl_ccnb_mkHeader 2000 CCN_DTAG_FACEINSTANCE CCN_TT_DTAG (zeroed 2000)) (\<lambda>ob1.
    bindE (mk_str 2000 CCN_DTAG_ACTION (Some (lit ''newface:  '' @ (if worked then lit ''newface cmd worked'' else lit ''newface cmd failed''))) ob1) (\<lambda>ob2.
    bindE (mk_opt 2000 CCNL_DTAG_MACSRC (v CCNL_DTAG_MACSRC) ob2) (\<lambda>ob3.
    bindE (if v CCNL_DTAG_IP4SRC = None then Inr ob3
      else bindE (mk_str 2000 CCNL_DTAG_IP4SRC (v CCNL_DTAG_IP4SRC) ob3) (mk_str 2000 CCN_DTAG_IPPROTO (Some (lit ''17'')))) (\<lambda>ob4.
    bindE (if v CCNL_DTAG_IP6SRC = None then Inr ob4
      else bindE (mk_str 2000 CCNL_DTAG_IP6SRC (v CCNL_DTAG_IP6SRC) ob4) (mk_str 2000 CCN_DTAG_IPPROTO (Some (lit ''17'')))) (\<lambda>ob5.
    bindE (mk_opt 2000 CCN_DTAG_HOST (v CCN_DTAG_HOST) ob5) (\<lambda>ob6.
    bindE (mk_opt 2000 CCN_DTAG_PORT (v CCN_DTAG_PORT) ob6) (\<lambda>ob7.
    bindE (mk_opt 2000 CCNL_DTAG_FACEFLAGS (v CCNL_DTAG_FACEFLAGS) ob7) (\<lambda>ob8.
    bindE (mk_opt 2000 CCN_DTAG_FACEID (map_option (\<lambda>i. dec_str (int i)) f) ob8) (put_fwd [0])))))))))"

definition ccnl_mgmt_newface :: "hooks \<Rightarrow> mgmt_env \<Rightarrow> bytes \<Rightarrow> nat \<Rightarrow> faceref \<Rightarrow> relay \<Rightarrow> (int \<times> relay) res" where
  "ccnl_mgmt_newface h env m len from1 r =
    bindE (mgmt_request m len CCN_DTAG_FACEINSTANCE [CCN_DTAG_ACTION, CCNL_DTAG_MACSRC, CCNL_DTAG_IP4SRC,
      CCNL_DTAG_IP6SRC, CCNL_DTAG_UNIXSRC, CCN_DTAG_IPPROTO, CCN_DTAG_HOST, CCN_DTAG_PORT, CCNL_DTAG_WPANADR,
      CCNL_DTAG_WPANPANID, CCNL_DTAG_FACEFLAGS]) (\<lambda>(how, v).
    if how = Hard then Inr (-1, r)
    else
      bindE (if how = Soft then Inr (False, None, r)
        else bindE (newface_find env v r) (\<lambda>(go, fr). if go then newface_flags v fr else Inr (False, fr))) (\<lambda>(worked, f, r1).
      mgmt_send h env from1 (mgmt_message (Some (lit ''newface'')) (newface_stmt v worked f)) r1))"

section \<open>Fragmentation and removal of faces\<close>

definition face_by_id :: "relay \<Rightarrow> int \<Rightarrow> faceref option" where
  "face_by_id r i = map_option f_faceid (find (\<lambda>f. int (f_faceid f) = i) (rl_faces r))"

text \<open>The reply takes the three fields as strings, whether the request had them or not.\<close>

definition setfrag_stmt :: "bytes \<Rightarrow> fields \<Rightarrow> outbuf res" where
  "setfrag_stmt cp v =
    bindE (ccnl_ccnb_mkHeader 2000 CCN_DTAG_FACEINSTANCE CCN_TT_DTAG (zeroed 2000)) (\<lambda>ob1.
    bindE (mk_str 2000 CCN_DTAG_ACTION (Some cp) ob1) (\<lambda>ob2.
    bindE (mk_str 2000 CCN_DTAG_FACEID (v CCN_DTAG_FACEID) ob2) (\<lambda>ob3.
    bindE (mk_str 2000 CCNL_DTAG_FRAG (v CCNL_DTAG_FRAG) ob3) (\<lambda>ob4.
    bindE (mk_str 2000 CCNL_DTAG_MTU (v CCNL_DTAG_MTU) ob4) (mk_end 2000)))))"

definition ccnl_mgmt_setfrag :: "hooks \<Rightarrow> mgmt_env \<Rightarrow> bytes \<Rightarrow> nat \<Rightarrow> faceref \<Rightarrow> relay \<Rightarrow> (int \<times> relay) res" where
  "ccnl_mgmt_setfrag h env m len from1 r =
    bindE (mgmt_request m len CCN_DTAG_FACEINSTANCE [CCN_DTAG_ACTION, CCN_DTAG_FACEID, CCNL_DTAG_FRAG, CCNL_DTAG_MTU]) (\<lambda>(how, v).
    if how = Hard then Inr (-1, r)
    else
      let known = (how = Ended \<and> v CCNL_DTAG_FRAG \<noteq> None \<and> v CCNL_DTAG_MTU \<noteq> None
            \<and> (case v CCN_DTAG_FACEID of None \<Rightarrow> False | Some b \<Rightarrow> face_by_id r (fst (strtol 0 (c_str b))) \<noteq> None));
          cp = (if known then lit ''no fragmentation support'' else lit ''setfrag cmd failed'')
      in mgmt_send h env from1 (mgmt_message (Some (lit ''setfrag'')) (setfrag_stmt cp v)) r)"

text \<open>Whether the face was found and removed.\<close>

definition destroyface_find :: "bytes \<Rightarrow> relay \<Rightarrow> (bool \<times> relay) res" where
  "destroyface_find faceid r =
    (case strtol 0 (c_str faceid) of (lfi, erange) \<Rightarrow>
      if erange \<or> lfi < 0 \<or> lfi > 32767 then Inr (False, r)
      else (case face_by_id r lfi of
          None \<Rightarrow> Inr (False, r)
        | Some f \<Rightarrow> bindE (ccnl_face_remove f r) (\<lambda>(f2, r1). Inr (True, r1))))"

definition destroyface_stmt :: "bytes \<Rightarrow> bytes \<Rightarrow> outbuf res" where
  "destroyface_stmt cp faceid =
    bindE (ccnl_ccnb_mkHeader 2000 CCN_DTAG_FACEINSTANCE CCN_TT_DTAG (zeroed 2000)) (\<lambda>ob1.
    bindE (mk_str 2000 CCN_DTAG_ACTION (Some cp) ob1) (\<lambda>ob2.
    bindE (mk_str 2000 CCN_DTAG_FACEID (Some faceid) ob2) (mk_end 2000)))"

definition ccnl_mgmt_destroyface :: "hooks \<Rightarrow> mgmt_env \<Rightarrow> bytes \<Rightarrow> nat \<Rightarrow> faceref \<Rightarrow> relay \<Rightarrow> (int \<times> relay) res" where
  "ccnl_mgmt_destroyface h env m len from1 r =
    bindE (mgmt_request m len CCN_DTAG_FACEINSTANCE [CCN_DTAG_ACTION, CCN_DTAG_FACEID]) (\<lambda>(how, v).
    if how = Hard then Inr (-1, r)
    else (case v CCN_DTAG_FACEID of
        None \<Rightarrow> bindE (ccnl_mgmt_return_ccn_msg h env from1 (lit ''destroyface'') (lit ''destroyface cmd failed'') r)
          (\<lambda>(rc, r1). Inr (-1, r1))
      | Some faceid \<Rightarrow>
          bindE (if how = Ended then destroyface_find faceid r else Inr (False, r)) (\<lambda>(removed, r1).
            let cp = (if removed then lit ''facedestroy cmd worked'' else lit ''destroyface cmd failed'')
            in mgmt_send h env from1 (mgmt_message (Some (lit ''destroyface'')) (destroyface_stmt cp faceid)) r1)))"

section \<open>New devices\<close>

text \<open>The socket and the address go to the structure of the next free interface, also when the device
  is not taken. \<open>None\<close> is the jump to \<open>SoftBail\<close>: a descriptor 0 is one, -1 is not.\<close>

definition open_if :: "(sockunion \<Rightarrow> int \<times> sockunion) \<Rightarrow> relay \<Rightarrow> (bool \<times> relay) res" where
  "open_if dev r = bindE (next_if r) (\<lambda>i. case dev (if_addr i) of (sock, a) \<Rightarrow>
     Inr (sock \<noteq> 0, if_upd (rl_ifcount r) (\<lambda>i. i\<lparr>if_addr := a\<rparr>) r))"

definition take_if :: "u32 \<Rightarrow> bool \<Rightarrow> relay \<Rightarrow> relay" where
  "take_if mtu reflect r =
    (if_upd (rl_ifcount r) (\<lambda>i. i\<lparr>if_mtu := mtu, if_reflect := reflect, if_fwdalli := True\<rparr>) r)
      \<lparr>rl_ifcount := rl_ifcount r + 1\<rparr>"

text \<open>The text of the reply and the new relay.\<close>

definition newdev_eth :: "mgmt_env \<Rightarrow> bytes \<Rightarrow> relay \<Rightarrow> (bytes \<times> relay) res" where
  "newdev_eth env port r =
    (case strtoul 0 (c_str port) of (lport, erange) \<Rightarrow>
      if erange \<or> lport > 0xffff then Inr (lit ''newETHdev cmd worked'', r)
      else bindE (open_if (\<lambda>su. ccnl_open_ethdev (mg_os env) su (of_nat lport)) r) (\<lambda>(ok, r1).
        Inr (lit ''newETHdev cmd worked'', if ok then take_if 1500 True r1 else r1)))"

definition newdev_udp :: "mgmt_env \<Rightarrow> bool \<Rightarrow> bool \<Rightarrow> bytes \<Rightarrow> relay \<Rightarrow> (bytes \<times> relay) res" where
  "newdev_udp env ip4 ip6 port r =
    (case strtoul 0 (c_str port) of (lport, erange) \<Rightarrow>
      let bad = (erange \<or> lport > 0xffff); cp = lit ''newUDPdev cmd worked'' in
      if bad then Inr (if ip4 then cp else lit ''newdevice cmd worked'', r)
      else
        bindE (if ip4 then open_if (ccnl_open_udpdev (mg_os env) (of_nat lport)) r else Inr (True, r)) (\<lambda>(ok4, r1).
        if \<not> ok4 then Inr (cp, r1)
        else bindE (if ip6 then open_if (ccnl_open_udp6dev (mg_os6 env) (of_nat lport)) r1 else Inr (True, r1)) (\<lambda>(ok6, r2).
          Inr (cp, if ok6 then take_if 4096 False r2 else r2))))"

definition newdev_open :: "mgmt_env \<Rightarrow> fields \<Rightarrow> relay \<Rightarrow> (bytes \<times> relay) res" where
  "newdev_open env v r =
    (if rl_ifcount r \<ge> CCNL_MAX_INTERFACES then Inr (lit ''newdevice cmd worked'', r)
     else (case v CCN_DTAG_PORT of
         None \<Rightarrow> Inr (lit ''newdevice cmd worked'', r)
       | Some port \<Rightarrow>
           if v CCNL_DTAG_DEVNAME \<noteq> None then newdev_eth env port r
           else if v CCNL_DTAG_IP4SRC \<noteq> None \<or> v CCNL_DTAG_IP6SRC \<noteq> None
           then newdev_udp env (v CCNL_DTAG_IP4SRC \<noteq> None) (v CCNL_DTAG_IP6SRC \<noteq> None) port r
           else Inr (lit ''newdevice cmd worked'', r)))"

definition newdev_stmt :: "fields \<Rightarrow> bytes \<Rightarrow> outbuf res" where
  "newdev_stmt v cp =
    bindE (ccnl_ccnb_mkHeader 2000 CCNL_DTAG_DEVINSTANCE CCN_TT_DTAG (zeroed 2000)) (\<lambda>ob1.
    bindE (mk_str 2000 CCN_DTAG_ACTION (Some cp) ob1) (\<lambda>ob2.
    bindE (mk_opt 2000 CCNL_DTAG_DEVNAME (v CCNL_DTAG_DEVNAME) ob2) (\<lambda>ob3.
    if v CCN_DTAG_PORT \<noteq> None \<and> (v CCNL_DTAG_DEVNAME \<noteq> None \<or> v CCNL_DTAG_IP4SRC \<noteq> None \<or> v CCNL_DTAG_IP6SRC \<noteq> None)
    then
      bindE (if v CCNL_DTAG_DEVNAME \<noteq> None then Inr ob3
        else bindE (mk_opt 2000 CCNL_DTAG_IP4SRC (v CCNL_DTAG_IP4SRC) ob3) (mk_opt 2000 CCNL_DTAG_IP6SRC (v CCNL_DTAG_IP6SRC))) (\<lambda>ob4.
      bindE (mk_opt 2000 CCN_DTAG_PORT (v CCN_DTAG_PORT) ob4) (\<lambda>ob5.
      bindE (mk_opt 2000 CCNL_DTAG_FRAG (v CCNL_DTAG_FRAG) ob5) (\<lambda>ob6.
      bindE (mk_opt 2000 CCNL_DTAG_DEVFLAGS (v CCNL_DTAG_DEVFLAGS) ob6) (mk_end 2000))))
    else Inr ob3)))"

definition ccnl_mgmt_newdev :: "hooks \<Rightarrow> mgmt_env \<Rightarrow> bytes \<Rightarrow> nat \<Rightarrow> faceref \<Rightarrow> relay \<Rightarrow> (int \<times> relay) res" where
  "ccnl_mgmt_newdev h env m len from1 r =
    bindE (mgmt_request m len CCNL_DTAG_DEVINSTANCE [CCN_DTAG_ACTION, CCNL_DTAG_DEVNAME, CCNL_DTAG_IP4SRC,
      CCNL_DTAG_IP6SRC, CCN_DTAG_PORT, CCNL_DTAG_FRAG, CCNL_DTAG_DEVFLAGS]) (\<lambda>(how, v).
    if how = Hard then Inr (-1, r)
    else bindE (if how = Ended then newdev_open env v r else Inr (lit ''newdevice cmd worked'', r)) (\<lambda>(cp, r1).
      mgmt_send h env from1 (mgmt_message (Some (lit ''newdev'')) (newdev_stmt v cp)) r1))"

definition ccnl_mgmt_destroydev :: "hooks \<Rightarrow> mgmt_env \<Rightarrow> faceref \<Rightarrow> relay \<Rightarrow> (int \<times> relay) res" where
  "ccnl_mgmt_destroydev h env from1 r =
    bindE (ccnl_mgmt_return_ccn_msg h env from1 (lit ''mgmt_destroy'') (lit ''mgmt_destroydev not implemented yet'') r)
      (\<lambda>(rc, r1). Inr (-1, r1))"

section \<open>Forwarding entries\<close>

text \<open>The name of the request. A component without a blob has no address.\<close>

definition reg_prefix :: "bytes \<Rightarrow> int \<Rightarrow> blobref list \<Rightarrow> prefix res" where
  "reg_prefix m suite comps = bindE (ccnb_comps m comps) (\<lambda>cs. Inr ((ccnl_prefix_new suite 0)\<lparr>pfx_comp := cs\<rparr>))"

text \<open>The first byte of the suite, which may be the terminating 0, as a \<open>char\<close>.\<close>

definition suite_char :: "bytes \<Rightarrow> int" where
  "suite_char b = sint (hd (b @ [0]))"

text \<open>Whether the entry was made, the suite the name has afterwards, and the relay.\<close>

definition prefixreg_enter :: "bytes \<Rightarrow> fields \<Rightarrow> blobref list \<Rightarrow> relay \<Rightarrow> (bool \<times> int \<times> relay) res" where
  "prefixreg_enter m v comps r = (case v CCN_DTAG_FACEID of
      None \<Rightarrow> Inr (False, 0, r)
    | Some faceid \<Rightarrow>
        if comps = [] then Inr (False, 0, r)
        else (case strtol 0 (c_str faceid) of (fi, erange) \<Rightarrow>
          if erange \<or> fi < - (2 ^ 31) \<or> fi > 2 ^ 31 - 1 then Inr (False, 0, r)
          else bindE (deref (v CCNL_DTAG_SUITE)) (\<lambda>sb.
            case face_by_id r fi of
              None \<Rightarrow> Inr (False, suite_char sb, r)
            | Some f \<Rightarrow> bindE (reg_prefix m (suite_char sb) comps) (\<lambda>p.
                Inr (True, suite_char sb, r\<lparr>rl_fib := rl_fib r @
                  [\<lparr>fw_prefix = Some (ccnl_prefix_dup p), fw_tap = None, fw_face = Some f, fw_suite = suite_char sb\<rparr>]\<rparr>)))))"

definition prefixreg_stmt :: "mgmt_env \<Rightarrow> bytes \<Rightarrow> prefix res \<Rightarrow> bytes \<Rightarrow> bytes option \<Rightarrow> outbuf res" where
  "prefixreg_stmt env cp p faceid suite =
    bindE (ccnl_ccnb_mkHeader 2000 CCNL_DTAG_PREFIX CCN_TT_DTAG (zeroed 2000)) (\<lambda>ob1.
    bindE (mk_str 2000 CCN_DTAG_ACTION (Some cp) ob1) (\<lambda>ob2.
    bindE (bindE p (prefix_string (mg_dump env))) (\<lambda>name.
    bindE (mk_str 2000 CCN_DTAG_NAME name ob2) (\<lambda>ob3.
    bindE (mk_str 2000 CCN_DTAG_FACEID (Some faceid) ob3) (\<lambda>ob4.
    bindE (deref suite) (\<lambda>sb.
    bindE (mk_str 2000 CCNL_DTAG_SUITE (Some (dec_str (uint (hd (sb @ [0]))))) ob4) (put_fwd [0])))))))"

text \<open>A reply that fails after the entry was made frees it, though it is in the table: the routine
  returns, and the relay is left with a dangling pointer.\<close>

definition prefixreg_reply :: "hooks \<Rightarrow> mgmt_env \<Rightarrow> faceref \<Rightarrow> bytes \<Rightarrow> fields \<Rightarrow> prefix res \<Rightarrow> relay \<Rightarrow> (int \<times> relay) res" where
  "prefixreg_reply h env from1 cp v p r = (case (v CCN_DTAG_ACTION, v CCN_DTAG_FACEID) of
      (Some action, Some faceid) \<Rightarrow>
        mgmt_send h env from1 (mgmt_message (Some action) (prefixreg_stmt env cp p faceid (v CCNL_DTAG_SUITE))) r
    | _ \<Rightarrow> bindE (ccnl_mgmt_return_ccn_msg h env from1 (lit ''prefixreg'') cp r) (\<lambda>(rc, r1). Inr (-1, r1)))"

definition ccnl_mgmt_prefixreg :: "hooks \<Rightarrow> mgmt_env \<Rightarrow> bytes \<Rightarrow> nat \<Rightarrow> faceref \<Rightarrow> relay \<Rightarrow> (int \<times> relay) res" where
  "ccnl_mgmt_prefixreg h env m len from1 r =
    bindE (mgmt_open m len CCN_DTAG_FWDINGENTRY) (\<lambda>x. case x of
      None \<Rightarrow> prefixreg_reply h env from1 (lit ''prefixreg cmd failed'') Map.empty (Inl Null) r
    | Some cur \<Rightarrow>
        bindE (mgmt_reg_fields m [CCN_DTAG_ACTION, CCN_DTAG_FACEID, CCNL_DTAG_SUITE] cur Map.empty []) (\<lambda>(how, v, comps).
        if how = Hard then Inr (-1, r)
        else bindE (if how = Ended then prefixreg_enter m v comps r else Inr (False, 0, r)) (\<lambda>(entered, suite, r1).
          let cp = (if entered then lit ''prefixreg cmd worked'' else lit ''prefixreg cmd failed'') in
          bindE (prefixreg_reply h env from1 cp v (reg_prefix m suite comps) r1) (\<lambda>(rc, r2).
            if rc \<noteq> 0 \<and> entered then Inl Uaf else Inr (rc, r2)))))"

section \<open>The content store\<close>

record add_state =
  ad_h :: "bytes option"
  ad_h2 :: "bytes option"
  ad_h3 :: "bytes option"
  ad_suite :: int
  ad_chunknum :: u32
  ad_chunkflag :: u32
  ad_num :: u64
  ad_typ :: u8

text \<open>The strings read so far are looked at when a head follows that is none of them: \<open>None\<close> for a
  number that does not fit, and whether the loop stops.\<close>

definition add_parse :: "add_state \<Rightarrow> (bool \<times> add_state) option" where
  "add_parse s =
    (case ad_h s of
        None \<Rightarrow> Some s
      | Some b \<Rightarrow> (case strtol 0 (c_str b) of (n, erange) \<Rightarrow>
          if erange \<or> n < -128 \<or> n > 127 then None else Some (s\<lparr>ad_suite := n, ad_h := None\<rparr>)))
    \<bind> (\<lambda>s1. case ad_h2 s1 of
        None \<Rightarrow> Some s1
      | Some b \<Rightarrow> (case strtoul 0 (c_str b) of (n, erange) \<Rightarrow>
          if erange \<or> n > 0xffffffff then None else Some (s1\<lparr>ad_chunknum := of_nat n, ad_h2 := None\<rparr>)))
    \<bind> (\<lambda>s2. case ad_h3 s2 of
        None \<Rightarrow> Some (False, s2)
      | Some b \<Rightarrow> (case strtoul 0 (c_str b) of (n, erange) \<Rightarrow>
          if erange \<or> n > 0xffffffff then None else Some (True, s2\<lparr>ad_chunkflag := of_nat n, ad_h3 := None\<rparr>)))"

definition add_store :: "u64 \<Rightarrow> bytes \<Rightarrow> add_state \<Rightarrow> add_state" where
  "add_store num b s = (if num = CCNL_DTAG_SUITE then s\<lparr>ad_h := Some b\<rparr>
     else if num = CCNL_DTAG_CHUNKNUM then s\<lparr>ad_h2 := Some b\<rparr> else s\<lparr>ad_h3 := Some b\<rparr>)"

function add_loop :: "bytes \<Rightarrow> cursor \<Rightarrow> add_state \<Rightarrow> (cursor \<times> add_state) option res" where
  "add_loop m cur s = (case ccnl_ccnb_dehead m cur of
      Inl e \<Rightarrow> Inl e
    | Inr (None, cur1) \<Rightarrow> Inr (Some (cur1, s))
    | Inr (Some (num, typ), cur1) \<Rightarrow>
        (let s1 = s\<lparr>ad_num := num, ad_typ := typ\<rparr> in
         if num = 0 \<and> typ = 0 then Inr (Some (cur1, s1))
         else if typ = CCN_TT_DTAG \<and> num \<in> {CCNL_DTAG_SUITE, CCNL_DTAG_CHUNKNUM, CCNL_DTAG_CHUNKFLAG} then
           (case ccnl_ccnb_consume m typ num cur1 None of
               Inl e \<Rightarrow> if e = Fail then Inr None else Inl e
             | Inr (cur2, v) \<Rightarrow> bindE (blob_val v) (\<lambda>(cp, len). bindE (slice m cp len) (\<lambda>b.
                 add_loop m cur2 (add_store num b s1))))
         else (case add_parse s1 of
             None \<Rightarrow> Inr None
           | Some (stop, s2) \<Rightarrow>
               if stop then Inr (Some (cur1, s2))
               else (case ccnl_ccnb_consume m typ num cur1 None of
                   Inl e \<Rightarrow> if e = Fail then Inr None else Inl e
                 | Inr (cur2, v) \<Rightarrow> add_loop m cur2 s2))))"
  by pat_completeness auto

termination add_loop
  by (relation "measure (\<lambda>(m, cur, s). length m - fst cur)")
    (auto intro: ccnb_after_head dest!: consume_progress)

declare add_loop.simps [simp del]

text \<open>What the request asks for: the name as a string, the suite and the chunk. \<open>None\<close> for the jump
  to \<open>Bail\<close>.\<close>

definition add_request :: "bytes \<Rightarrow> nat \<Rightarrow> (bytes option \<times> add_state) option res" where
  "add_request m len =
    bindE (mgmt_expect m (0, len) (is_dtag CCN_DTAG_CONTENTOBJ)) (\<lambda>a. case a of None \<Rightarrow> Inr None | Some (_, cur1) \<Rightarrow>
    bindE (add_loop m cur1 \<lparr>ad_h = None, ad_h2 = None, ad_h3 = None, ad_suite = 2, ad_chunknum = 0, ad_chunkflag = 0,
        ad_num = CCN_DTAG_CONTENTOBJ, ad_typ = CCN_TT_DTAG\<rparr>) (\<lambda>b. case b of None \<Rightarrow> Inr None | Some (cur2, s) \<Rightarrow>
    if ad_typ s \<noteq> CCN_TT_DTAG \<or> ad_num s \<noteq> CCN_DTAG_NAME then Inr None
    else bindE (mgmt_expect m cur2 (\<lambda>num typ. typ = CCN_TT_BLOB)) (\<lambda>c. case c of None \<Rightarrow> Inr None | Some (_, cur3) \<Rightarrow>
    bindE (mgmt_fields m [CCN_DTAG_COMPONENT] cur3 Map.empty) (\<lambda>(how, v).
      Inr (if how = Ended then Some (v CCN_DTAG_COMPONENT, s) else None)))))"

definition add_answer :: "mgmt_env \<Rightarrow> prefix \<Rightarrow> bytes res" where
  "add_answer env p = bindE (prefix_text (mg_dump env) p) (\<lambda>s.
    Inr (lit ''received add to cache request, inizializing callback for '' @ s))"

definition add_pkt :: "prefix \<Rightarrow> bytes \<Rightarrow> pkt" where
  "add_pkt p b = pkt_zero\<lparr>pkt_suite := pfx_suite p, pkt_pfx := Some p, pkt_buf := Some b, pkt_val := -1,
     pkt_s := (if pfx_suite p = CCNL_SUITE_CCNB then Ccnb_detail (zero_ccnb\<lparr>cb_maxsuffix := of_nat CCNL_MAX_NAME_COMP\<rparr>)
       else if pfx_suite p = CCNL_SUITE_NDNTLV then Ndn_detail (zero_ndn\<lparr>nd_maxsuffix := of_nat CCNL_MAX_NAME_COMP\<rparr>)
       else Raw_detail)\<rparr>"

text \<open>The request is answered, and an Interest for the content sent back to where it came from.\<close>

definition add_interest :: "mgmt_env \<Rightarrow> faceref \<Rightarrow> prefix \<Rightarrow> relay \<Rightarrow> (int \<times> relay) res" where
  "add_interest env from1 p r =
    bindE (ccnl_mkSimpleInterest (mg_tmp env) (mg_rnd env) p None) (\<lambda>x. case x of
      None \<Rightarrow> Inr (-1, r)
    | Some b \<Rightarrow> (case ccnl_interest_new r (Some from1) (add_pkt p b) of
          (None, r1) \<Rightarrow> Inr (-1, r1)
        | (Some i, r1) \<Rightarrow> bindE (ccnl_face_enqueue from1 (Some b) r1) (\<lambda>(rc, r2). Inr (0, r2))))"

definition ccnl_mgmt_addcacheobject :: "hooks \<Rightarrow> mgmt_env \<Rightarrow> bytes \<Rightarrow> nat \<Rightarrow> faceref \<Rightarrow> relay \<Rightarrow> (int \<times> relay) res" where
  "ccnl_mgmt_addcacheobject h env m len from1 r =
    bindE (add_request m len) (\<lambda>x. case x of None \<Rightarrow> Inr (-1, r) | Some (components, s) \<Rightarrow>
    bindE (deref components) (\<lambda>uri.
      let p = (ccnl_URItoPrefix (c_str uri) CCNL_SUITE_CCNB (if ad_chunkflag s \<noteq> 0 then Some (ad_chunknum s) else None))
            \<lparr>pfx_suite := ad_suite s\<rparr> in
      bindE (add_answer env p) (\<lambda>answer.
        if length answer \<ge> 300 then Inr (-1, r)
        else bindE (ccnl_mgmt_return_ccn_msg h env from1 (lit ''addcacheobject'') answer r) (\<lambda>(rc, r1).
          if rc \<noteq> 0 then Inr (-1, r1) else add_interest env from1 p r1))))"

text \<open>Every field of the request counts as a component; those that are none stay NULL.\<close>

function remove_fields :: "bytes \<Rightarrow> cursor \<Rightarrow> bytes option list \<Rightarrow> (parse_end \<times> bytes option list) res" where
  "remove_fields m cur comps = (case ccnl_ccnb_dehead m cur of
      Inl e \<Rightarrow> Inl e
    | Inr (None, cur1) \<Rightarrow> Inr (Ended, comps)
    | Inr (Some (num, typ), cur1) \<Rightarrow>
        if num = 0 \<and> typ = 0 then Inr (Ended, comps)
        else (case ccnl_ccnb_consume m typ num cur1 None of
            Inl e \<Rightarrow> if e = Fail then Inr (if typ = CCN_TT_DTAG \<and> num = CCN_DTAG_COMPONENT then Hard else Soft, comps) else Inl e
          | Inr (cur2, v) \<Rightarrow>
              if typ = CCN_TT_DTAG \<and> num = CCN_DTAG_COMPONENT
              then bindE (blob_val v) (\<lambda>(cp, len). bindE (slice m cp len) (\<lambda>b.
                if length comps \<ge> 1024 then Inl Oob else remove_fields m cur2 (comps @ [Some b])))
              else remove_fields m cur2 (comps @ [None])))"
  by pat_completeness auto

termination remove_fields
  by (relation "measure (\<lambda>(m, cur, comps). length m - fst cur)")
    (auto intro: ccnb_after_head dest!: consume_progress)

declare remove_fields.simps [simp del]

text \<open>The index at which the loop over the components stops. The component of a stored name is not
  terminated.\<close>

fun remove_match :: "(nat \<Rightarrow> bytes) \<Rightarrow> bytes list \<Rightarrow> bytes option list \<Rightarrow> nat \<Rightarrow> nat res" where
  "remove_match behind (c # cs) (d # ds) i =
    (if i \<ge> 1024 then Inl Oob
     else bindE (deref d) (\<lambda>b. bindE (strcmp_eq (c @ behind i) (c_str b)) (\<lambda>eq.
       if eq then remove_match behind cs ds (i + 1) else Inr i)))"
| "remove_match behind _ _ i = Inr i"

text \<open>The content found and the index, which keeps its old value for names of another length.\<close>

fun remove_search :: "mgmt_env \<Rightarrow> bytes option list \<Rightarrow> content list \<Rightarrow> nat \<Rightarrow> (ref option \<times> nat) res" where
  "remove_search env comps [] i = Inr (None, i)"
| "remove_search env comps (c # cs) i = bindE (deref (pkt_pfx (c_pkt c))) (\<lambda>p.
     if compcnt p \<noteq> length comps then remove_search env comps cs i
     else bindE (remove_match (mg_behind_comp env c) (pfx_comp p) comps 0) (\<lambda>j.
       if j = length comps then Inr (Some (c_ref c), j) else remove_search env comps cs j))"

definition remove_open :: "bytes \<Rightarrow> nat \<Rightarrow> cursor option res" where
  "remove_open m len =
    bindE (mgmt_expect m (0, len) (is_dtag CCN_DTAG_CONTENTOBJ)) (\<lambda>a. case a of None \<Rightarrow> Inr None | Some (_, cur1) \<Rightarrow>
    bindE (mgmt_expect m cur1 (is_dtag CCN_DTAG_CONTENT)) (\<lambda>b. case b of None \<Rightarrow> Inr None | Some (_, cur2) \<Rightarrow>
    bindE (mgmt_expect m cur2 (\<lambda>num typ. typ = CCN_TT_BLOB)) (\<lambda>c. case c of None \<Rightarrow> Inr None | Some (_, cur3) \<Rightarrow>
    bindE (mgmt_expect m cur3 (is_dtag CCN_DTAG_CONTENT)) (\<lambda>d. case d of None \<Rightarrow> Inr None | Some (_, cur4) \<Rightarrow>
    bindE (mgmt_expect m cur4 (is_dtag CCN_DTAG_NAME)) (\<lambda>e. Inr (map_option snd e))))))"

definition remove_content :: "mgmt_env \<Rightarrow> bytes option list \<Rightarrow> relay \<Rightarrow> (bool \<times> relay) res" where
  "remove_content env comps r = bindE (remove_search env comps (rl_contents r) 1024) (\<lambda>(c2, i).
     if i = length comps then bindE (deref c2) (\<lambda>c. bindE (ccnl_content_remove c r) (\<lambda>r1. Inr (True, r1)))
     else Inr (False, r))"

definition ccnl_mgmt_removecacheobject :: "hooks \<Rightarrow> mgmt_env \<Rightarrow> bytes \<Rightarrow> nat \<Rightarrow> faceref \<Rightarrow> relay \<Rightarrow> (int \<times> relay) res" where
  "ccnl_mgmt_removecacheobject h env m len from1 r =
    bindE (bindE (remove_open m len) (\<lambda>x. case x of None \<Rightarrow> Inr (Soft, []) | Some cur \<Rightarrow> remove_fields m cur [])) (\<lambda>(how, comps).
    if how = Hard then Inr (-1, r)
    else bindE (if how = Ended then remove_content env comps r else Inr (False, r)) (\<lambda>(removed, r1).
      bindE (ccnl_mgmt_return_ccn_msg h env from1 (lit ''removecacheobject'')
          (if removed then lit ''Content successfully removed'' else lit ''Failed to remove content'') r1) (\<lambda>(rc, r2).
        Inr (if rc \<noteq> 0 then -1 else 0, r2))))"

section \<open>Commands\<close>

text \<open>The fourth component, with what follows it in memory.\<close>

definition mgmt_arg :: "mgmt_env \<Rightarrow> prefix \<Rightarrow> (bytes \<Rightarrow> nat \<Rightarrow> 'a res) \<Rightarrow> 'a res" where
  "mgmt_arg env p f = (if 3 < compcnt p then f (pfx_comp p ! 3 @ mg_behind env) (length (pfx_comp p ! 3)) else Inl Oob)"

definition ccnl_mgmt_handle :: "hooks \<Rightarrow> mgmt_env \<Rightarrow> bytes \<Rightarrow> prefix \<Rightarrow> faceref \<Rightarrow> bytes \<Rightarrow> bool \<Rightarrow> relay \<Rightarrow> (int \<times> relay) res" where
  "ccnl_mgmt_handle h env orig p from1 cmd verified r =
    (if \<not> verified then bindE (ccnl_mgmt_return_ccn_msg h env from1 cmd (lit ''refused: error signature not verified'') r)
       (\<lambda>(rc, r1). Inr (-1, r1))
     else if cmd = lit ''newdev'' then mgmt_arg env p (\<lambda>m len. ccnl_mgmt_newdev h env m len from1 r)
     else if cmd = lit ''setfrag'' then mgmt_arg env p (\<lambda>m len. ccnl_mgmt_setfrag h env m len from1 r)
     else if cmd = lit ''destroydev'' then ccnl_mgmt_destroydev h env from1 r
     else if cmd = lit ''newface'' then mgmt_arg env p (\<lambda>m len. ccnl_mgmt_newface h env m len from1 r)
     else if cmd = lit ''destroyface'' then mgmt_arg env p (\<lambda>m len. ccnl_mgmt_destroyface h env m len from1 r)
     else if cmd = lit ''prefixreg'' then mgmt_arg env p (\<lambda>m len. ccnl_mgmt_prefixreg h env m len from1 r)
     else if cmd = lit ''addcacheobject'' then mgmt_arg env p (\<lambda>m len. ccnl_mgmt_addcacheobject h env m len from1 r)
     else if cmd = lit ''removecacheobject'' then mgmt_arg env p (\<lambda>m len. ccnl_mgmt_removecacheobject h env m len from1 r)
     else if cmd = lit ''debug'' then mgmt_arg env p (\<lambda>m len. ccnl_mgmt_debug h env m len from1 r)
     else bindE (ccnl_mgmt_return_ccn_msg h env from1 cmd (lit ''unknown mgmt command'') r) (\<lambda>(rc, r1). Inr (-1, r1)))"

definition ccnl_mgmt :: "hooks \<Rightarrow> mgmt_env \<Rightarrow> relay \<Rightarrow> bytes \<Rightarrow> prefix \<Rightarrow> faceref option \<Rightarrow> (int \<times> relay) res" where
  "ccnl_mgmt h env r orig p from1 =
    bindE (if 2 < compcnt p then Inr (pfx_comp p ! 2) else Inl Oob) (\<lambda>c.
      let cmd = (if length c < 1000 then c_str c else lit ''cmd-is-too-long-to-display'') in
      bindE (deref from1) (\<lambda>f. bindE (face_get r f) (\<lambda>fc.
        if ccnl_is_local_addr (Some (f_peer fc)) \<noteq> 0 then ccnl_mgmt_handle h env orig p f cmd True r
        else bindE (ccnl_mgmt_return_ccn_msg h env f cmd (lit ''refused: origin of mgmt cmd is not local'') r)
          (\<lambda>(rc, r1). Inr (-1, r1)))))"

end
