(* ===== verification/Mgmt_Ends.thy ===== *)
theory Mgmt_Ends
  imports Mgmt Rpc_Inv Relay_System
begin

text \<open>
  What the parts of the management commands end with. Composing a message never diverges
  (\<open>ends\<close>), reading a request only ends with a fault of memory (\<open>mem_only\<close>), and sending a reply leaves
  the relay consistent.
\<close>

section \<open>Routines end\<close>

definition ends :: "'a res \<Rightarrow> bool" where
  "ends x \<longleftrightarrow> x \<noteq> Inl Diverge"

lemma ends_simps [simp]: "ends (Inr x)" "ends (Inl e) \<longleftrightarrow> e \<noteq> Diverge"
  by (simp_all add: ends_def)

lemma ends_bind: "ends x \<Longrightarrow> (\<And>y. x = Inr y \<Longrightarrow> ends (k y)) \<Longrightarrow> ends (bindE x k)"
  by (cases x) (simp_all add: ends_def)

lemma ends_if: "(b \<Longrightarrow> ends x) \<Longrightarrow> (\<not> b \<Longrightarrow> ends y) \<Longrightarrow> ends (if b then x else y)"
  by simp

lemma ends_option: "(x = None \<Longrightarrow> ends a) \<Longrightarrow> (\<And>y. x = Some y \<Longrightarrow> ends (k y)) \<Longrightarrow> ends (case x of None \<Rightarrow> a | Some y \<Rightarrow> k y)"
  by (cases x) simp_all

lemmas ends_intros = ends_bind ends_if ends_option

lemma ends_parse: "parse_err x \<Longrightarrow> ends x"
  by (auto simp: parse_err_def ends_def)

lemma ends_prim [simp]: "ends (wr m p b)" "ends (wrs m p xs)" "ends (rd m p)" "ends (slice m p n)" "ends (deref x)"
  by (auto simp: ends_def deref_def rd_def slice_def dest: wr_err wrs_err split: option.splits)

lemma ends_put [simp]: "ends (put_fwd xs ob)"
  unfolding put_fwd_def by (intro ends_intros) simp_all

lemma ends_header [simp]: "ends (ccnl_ccnb_mkHeader n num tt ob)"
  by (simp add: ccnl_ccnb_mkHeader_def Let_def)

lemma ends_field [simp]: "ends (ccnl_ccnb_mkField n num tt b ob)"
  unfolding ccnl_ccnb_mkField_def by (intro ends_intros) simp_all

lemma ends_blob [simp]: "ends (ccnl_ccnb_mkBlob n num tt b ob)" "ends (ccnl_ccnb_mkStrBlob n num tt b ob)"
  by (simp_all add: ccnl_ccnb_mkBlob_def ccnl_ccnb_mkStrBlob_def)

lemma ends_str [simp]: "ends (mk_str n num s ob)" "ends (mk_opt n num s ob)" "ends (mk_end n ob)" "ends (mk_mem n num b ob)"
  by (simp_all add: mk_str_def mk_opt_def mk_end_def mk_mem_def split: option.split)

lemma ends_mems [simp]: "ends (mk_mems n fs ob)"
  by (induction n fs ob rule: mk_mems.induct) (auto intro: ends_intros)

lemma ends_name [simp]: "ends (mk_mgmt_name n c ob)"
  unfolding mk_mgmt_name_def by (intro ends_intros) simp_all

lemma ends_message: "ends s \<Longrightarrow> ends (mgmt_message c s)" "ends s \<Longrightarrow> ends (debug_message n s)"
  unfolding mgmt_message_def debug_message_def by (intro ends_intros; simp)+

lemma ends_split [simp]: "ends (split_packet b d)" "ends (split_object p)"
  unfolding split_packet_def split_object_def by (intro ends_intros; simp)+

lemma ends_snprint [simp]: "ends (snprint n x out)"
  by (simp add: snprint_def)

lemma ends_to_str [simp]: "ends (ccnl_prefix_to_str_detailed p skip esc n)"
proof -
  have c: "ends (to_str_comp esc n c out)" for c out
    by (induction c arbitrary: out) (auto intro: ends_intros)
  have "ends (to_str_comps esc k n cs out)" for k cs out
    by (induction cs arbitrary: out) (auto intro!: ends_intros c)
  then show ?thesis by (simp add: ccnl_prefix_to_str_detailed_def)
qed

lemma ends_prefix_text [simp]: "ends (prefix_string env p)" "ends (prefix_text env p)"
proof -
  show "ends (prefix_string env p)" using ends_to_str[of p True False CCNL_MAX_PREFIX_SIZE]
    by (auto simp: prefix_string_def ends_def split: sum.split)
  then show "ends (prefix_text env p)" unfolding prefix_text_def by (intro ends_intros) simp_all
qed

section \<open>Replies\<close>

abbreviation mgmt_faults :: "err set" where "mgmt_faults \<equiv> {Oob, Null, Uaf}"

lemma mgmt_fault: "x \<noteq> Inl Fail \<Longrightarrow> ends x \<Longrightarrow> x = Inl e \<Longrightarrow> e \<in> mgmt_faults"
  by (cases e) (auto simp: ends_def)

lemma enqueue_handled: "live strict f r \<Longrightarrow> handled mgmt_faults strict f (ccnl_face_enqueue f (Some b) r)"
  using enqueue_any[of r f b] keeps_out keeps_live liveD by (fastforce simp: handled_def)

text \<open>No content is ever made for a piece: its name is one of CCNb.\<close>

lemma ccnb_simple_content: "pfx_suite p = CCNL_SUITE_CCNB \<Longrightarrow> ccnl_mkSimpleContent tmp p d opts = Inr None"
proof -
  assume p: "pfx_suite p = CCNL_SUITE_CCNB"
  have "ccnl_ccnb_fillContent 0 p d (0, tmp) = Inl Fail"
    by (simp add: ccnl_ccnb_fillContent_def ccnl_ccnb_mkHeader_def Let_def)
  then show ?thesis using p by (simp add: ccnl_mkSimpleContent_def ccnl_mkContent_def)
qed

lemma URI_suite [simp]: "pfx_suite (ccnl_URItoPrefix s suite c) = suite"
  by (simp add: ccnl_URItoPrefix_def ccnl_prefix_new_def Let_def)

lemma or_bail_handled:
  "live strict f r \<Longrightarrow> ends x \<Longrightarrow> (\<And>a. handled mgmt_faults strict f (k a)) \<Longrightarrow> handled mgmt_faults strict f (or_bail x r k)"
  by (cases x; cases "projl x") (auto simp: or_bail_def)

lemma split_loop_handled: "live strict f r \<Longrightarrow> handled mgmt_faults strict f (split_loop h tmp f n buf its r)"
proof (induction its arbitrary: r)
  case (Cons it its)
  have "handled mgmt_faults strict f (bindE (ccnl_face_enqueue f (Some b) r) (\<lambda>(rc, r1). split_loop h tmp f n buf its r1))" for b
    using handled_then[OF enqueue_handled[OF Cons.prems]] Cons.IH by fastforce
  then show ?case using Cons.prems
    by (auto simp: ccnb_simple_content Let_def intro!: or_bail_handled)
qed simp

lemma send_handled:
  assumes "live strict f r" and "ends msg"
  shows "handled mgmt_faults strict f (mgmt_send h env f msg r)"
proof (cases msg)
  case (Inl e)
  then show ?thesis using assms by (cases e) (auto simp: mgmt_send_def)
next
  case (Inr b)
  then show ?thesis using handled_then[OF split_loop_handled[OF assms(1)]]
    by (auto simp: mgmt_send_def ccnl_mgmt_send_return_split_def Let_def)
qed

lemma return_handled: "live strict f r \<Longrightarrow> handled mgmt_faults strict f (ccnl_mgmt_return_ccn_msg h env f c a r)"
  unfolding ccnl_mgmt_return_ccn_msg_def by (intro send_handled ends_message) simp_all

lemma refuse_handled:
  "live strict f r \<Longrightarrow> handled mgmt_faults strict f (bindE (ccnl_mgmt_return_ccn_msg h env f c a r) (\<lambda>(rc, r1). Inr (g rc, r1)))"
  using handled_then[OF return_handled] by fastforce

section \<open>Requests\<close>

definition mem_only :: "'a res \<Rightarrow> bool" where
  "mem_only x \<longleftrightarrow> (\<forall>e. x = Inl e \<longrightarrow> e \<in> mgmt_faults)"

lemma mem_only_simps [simp]: "mem_only (Inr x)" "mem_only (Inl e) \<longleftrightarrow> e \<in> mgmt_faults"
  by (simp_all add: mem_only_def)

lemma mem_only_bind: "mem_only x \<Longrightarrow> (\<And>y. x = Inr y \<Longrightarrow> mem_only (k y)) \<Longrightarrow> mem_only (bindE x k)"
  by (cases x) (simp_all add: mem_only_def)

lemma mem_only_if: "(b \<Longrightarrow> mem_only x) \<Longrightarrow> (\<not> b \<Longrightarrow> mem_only y) \<Longrightarrow> mem_only (if b then x else y)"
  by simp

lemma mem_only_option: "(x = None \<Longrightarrow> mem_only a) \<Longrightarrow> (\<And>y. x = Some y \<Longrightarrow> mem_only (k y)) \<Longrightarrow> mem_only (case x of None \<Rightarrow> a | Some y \<Rightarrow> k y)"
  by (cases x) simp_all

lemmas mem_only_intros = mem_only_bind mem_only_if mem_only_option

lemma mem_only_prim [simp]: "mem_only (slice m p n)" "mem_only (rd m p)" "mem_only (deref x)" "mem_only (blob_val v)"
  by (auto simp: mem_only_def slice_def rd_def deref_def blob_val_def split: option.splits)

lemma ccnb_head_mem [simp]: "mem_only (ccnl_ccnb_dehead m cur)"
  using ccnb_dehead_Oob by (auto simp: mem_only_def)

lemma mgmt_expect_mem [simp]: "mem_only (mgmt_expect m cur good)"
  unfolding mgmt_expect_def by (intro mem_only_intros) (auto split: prod.split)

lemma mgmt_open_mem [simp]: "mem_only (mgmt_open m n tag)"
  unfolding mgmt_open_def by (intro mem_only_intros; simp) (auto intro!: mem_only_intros split: prod.split)

text \<open>A loop over fields: a head, then a field.\<close>

lemma consume_Oob: "ccnl_ccnb_consume m tt num cur v = Inl e \<Longrightarrow> e \<noteq> Fail \<Longrightarrow> e = Oob"
  using parse_errD[OF consume_err] by blast

lemma mem_only_head:
  "mem_only x \<Longrightarrow> (\<And>c. x = Inr (None, c) \<Longrightarrow> mem_only (g c))
    \<Longrightarrow> (\<And>num tt c. x = Inr (Some (num, tt), c) \<Longrightarrow> mem_only (k num tt c))
    \<Longrightarrow> mem_only (case x of Inl e \<Rightarrow> Inl e | Inr (None, c) \<Rightarrow> g c | Inr (Some (num, tt), c) \<Rightarrow> k num tt c)"
  by (auto split: sum.split option.split prod.split)

lemma mem_only_consume:
  "(\<And>c v. ccnl_ccnb_consume m tt num cur u = Inr (c, v) \<Longrightarrow> mem_only (k c v))
    \<Longrightarrow> mem_only (case ccnl_ccnb_consume m tt num cur u of Inl e \<Rightarrow> if e = Fail then Inr a else Inl e | Inr (c, v) \<Rightarrow> k c v)"
  by (auto dest: consume_Oob split: sum.split)

lemma mem_only_pair: "(\<And>a b. y = (a, b) \<Longrightarrow> mem_only (k a b)) \<Longrightarrow> mem_only (case y of (a, b) \<Rightarrow> k a b)"
  by (cases y) simp

lemma mem_only_Let: "mem_only (k x) \<Longrightarrow> mem_only (let y = x in k y)"
  by simp

lemmas field_loop = mem_only_head mem_only_consume mem_only_bind mem_only_if mem_only_pair mem_only_Let ccnb_head_mem mem_only_prim mem_only_simps

lemma mgmt_fields_mem [simp]: "mem_only (mgmt_fields m tags cur vals)"
proof (induction m tags cur vals rule: mgmt_fields.induct)
  case (1 m tags cur vals)
  show ?case by (subst mgmt_fields.simps, intro field_loop; rule 1; simp)
qed

lemma mgmt_name_mem [simp]: "mem_only (mgmt_name m cur comps)"
proof (induction m cur comps rule: mgmt_name.induct)
  case (1 m cur comps)
  show ?case by (subst mgmt_name.simps, intro field_loop; rule 1; simp)
qed

lemma remove_fields_mem [simp]: "mem_only (remove_fields m cur comps)"
proof (induction m cur comps rule: remove_fields.induct)
  case (1 m cur comps)
  show ?case by (subst remove_fields.simps, intro field_loop; (rule 1)?; simp)
qed

lemma mem_only_sum: "mem_only x \<Longrightarrow> (\<And>y. x = Inr y \<Longrightarrow> mem_only (k y)) \<Longrightarrow> mem_only (case x of Inl e \<Rightarrow> Inl e | Inr y \<Rightarrow> k y)"
  by (cases x) simp_all

lemma mgmt_reg_fields_mem [simp]: "mem_only (mgmt_reg_fields m tags cur vals comps)"
proof (induction m tags cur vals comps rule: mgmt_reg_fields.induct)
  case (1 m tags cur vals comps)
  show ?case 
    apply (subst mgmt_reg_fields.simps)
    apply (rule mem_only_head)
      apply simp
     apply simp
    apply (intro mem_only_if)
      apply simp
     apply (rule mem_only_sum, simp)
     apply (intro mem_only_pair mem_only_if)
      apply (rule 1(1); (assumption | simp))
     apply simp
    apply (rule mem_only_consume)
    apply (intro mem_only_if mem_only_bind mem_only_pair)
       apply simp
      apply simp
     apply (rule 1(2); (assumption | simp))
    apply (rule 1(3); (assumption | simp))
    done
qed

lemma add_loop_mem [simp]: "mem_only (add_loop m cur s)"
proof (induction m cur s rule: add_loop.induct)
  case (1 m cur s)
  show ?case by (subst add_loop.simps, intro field_loop mem_only_option; (rule 1)?; (assumption | simp))
qed

lemma request_mem [simp]: "mem_only (mgmt_request m n tag tags)"
  unfolding mgmt_request_def by (auto intro!: mem_only_intros)

section \<open>Interests\<close>

lemma ends_push [simp]: "ends (push_byte b ob)" "ends (push_chk b ob)" "ends (put_blob xs ob)"
  by (auto simp: push_byte_def push_chk_def put_blob_def intro!: ends_intros split: prod.split)

lemma ends_put_bytes [simp]: "ends (put_bytes n v ob)"
  by (induction n arbitrary: v ob) (auto intro!: ends_intros)

lemma ends_TL [simp]: "ends (ccnl_ndntlv_prependTLval v ob)" "ends (ccnl_ndntlv_prependTL t l ob)" "ends (ccnl_ccntlv_prependTL t2 l2 ob)"
proof -
  show 1: "ends (ccnl_ndntlv_prependTLval v ob)" for v ob
    unfolding ccnl_ndntlv_prependTLval_def by (auto simp: Let_def intro!: ends_intros)
  show "ends (ccnl_ndntlv_prependTL t l ob)" unfolding ccnl_ndntlv_prependTL_def by (intro ends_intros 1)
  show "ends (ccnl_ccntlv_prependTL t2 l2 ob)" unfolding ccnl_ccntlv_prependTL_def by (auto simp: Let_def intro!: ends_intros)
qed

lemma ends_nni [simp]: "ends (ccnl_ndntlv_prependNonNegIntVal v ob)"
proof -
  have a: "ends (nni_val_loop v len ob)" for v len ob
    by (induction v len ob rule: nni_val_loop.induct) (subst nni_val_loop.simps, auto simp del: nni_val_loop.simps intro!: ends_intros)
  have b: "ends (nni_pad_loop i len ob)" for i len ob
    by (induction i len ob rule: nni_pad_loop.induct)
      (subst nni_pad_loop.simps, auto simp del: nni_pad_loop.simps simp: nni_fill_def intro!: ends_intros split: sum.split)
  show ?thesis unfolding ccnl_ndntlv_prependNonNegIntVal_def
    by (auto simp del: nni_val_loop.simps nni_pad_loop.simps intro!: ends_intros a b split: prod.split)
qed

lemma ends_ndn_parts [simp]: "ends (ccnl_ndntlv_prependNonNegInt t v ob)" "ends (ccnl_ndntlv_prependIncludedNonNegInt t v mk ob)"
    "ends (ccnl_ndntlv_prependBlob t b ob)" "ends (prepend_selectors mbf ob)"
  unfolding ccnl_ndntlv_prependNonNegInt_def ccnl_ndntlv_prependIncludedNonNegInt_def prepend_selectors_def ccnl_ndntlv_prependBlob_def
  by (intro ends_intros; simp)+

lemma ends_comps [simp]: "ends (prepend_comps cs ob)"
  by (induction cs arbitrary: ob) (auto intro!: ends_intros)

lemma ends_ndn_interest: "ends (ccnl_ndntlv_prependInterest name scope opts ob)"
  unfolding ccnl_ndntlv_prependInterest_def ccnl_ndntlv_prependName_def by (intro ends_intros; simp)

lemma ends_ccntlv_interest: "ends (ccnl_ccntlv_prependInterestWithHdr name ob)"
proof -
  have v: "ends (varuint_loop v len ob)" for v len ob
    by (induction v len ob rule: varuint_loop.induct) (subst varuint_loop.simps, auto intro!: ends_intros)
  have c: "ends (ccntlv_prepend_comps cs ob)" for cs ob
    by (induction cs) (auto intro!: ends_intros)
  have n: "ends (ccnl_ccntlv_prependName name k ob)" for k ob
    unfolding ccnl_ccntlv_prependName_def ccnl_ccntlv_prependNetworkVarUInt_def
    by (intro ends_intros) (auto intro!: ends_intros v c split: prod.split)
  show ?thesis
    unfolding ccnl_ccntlv_prependInterestWithHdr_def ccnl_ccntlv_prependChunkInterestWithHdr_def ccnl_ccntlv_prependInterest_def
      ccnl_ccntlv_prependFixedHdr_def
    by (auto simp: Let_def intro!: ends_intros n split: prod.split)
qed

lemma ends_ccnb_interest: "ends (ccnl_ccnb_fillInterest n name nonce ob)"
proof -
  have c: "ends (ccnb_mkComponents n cs ob)" for cs ob
    by (induction cs arbitrary: ob) (auto simp: ccnl_ccnb_mkComponent_def intro!: ends_intros)
  show ?thesis unfolding ccnl_ccnb_fillInterest_def ccnl_ccnb_mkName_def
    by (intro ends_intros c; simp)
qed

lemma simple_interest_mem: "mem_only (ccnl_mkSimpleInterest tmp rnd name opts)"
proof -
  have "ends (ccnl_mkInterest rnd name opts 0 CCNL_MAX_PACKET_SIZE tmp)"
    unfolding ccnl_mkInterest_def
  proof (intro ends_if ends_bind ends_ndn_interest ends_ccntlv_interest)
    show "ends (case ccnl_ccnb_fillInterest (length tmp) name None (0, tmp) of
        Inl e \<Rightarrow> if e = Fail then Inr (0, 0, tmp) else Inl e | Inr (n, tmp') \<Rightarrow> Inr (0 + n, 0, tmp'))"
      using ends_ccnb_interest[of "length tmp" name None "(0, tmp)"] by (auto simp: ends_def split: sum.split)
  qed (auto split: prod.split)
  then show ?thesis
    by (cases "projl (ccnl_mkInterest rnd name opts 0 CCNL_MAX_PACKET_SIZE tmp)")
      (auto simp: ccnl_mkSimpleInterest_def ends_def intro!: mem_only_intros split: sum.split)
qed

end
