(* ===== verification/Mgmt_Inv.thy ===== *)
theory Mgmt_Inv
  imports Mgmt_Ends
begin

text \<open>
  Management keeps the relay consistent: each command of \<open>ccnl-mgmt.c\<close>, run for a face of a relay whose
  faces all have an interface, ends with such a relay or a fault of memory, so that the real management
  meets the contract \<open>application\<close> of the callbacks. Only \<open>destroyface\<close> may leave the face that asked gone.
\<close>

section \<open>Operations of the commands\<close>

text \<open>A result that keeps the relay it carries, or stops.\<close>

definition kept :: "err set \<Rightarrow> relay \<Rightarrow> ('a \<Rightarrow> relay) \<Rightarrow> 'a res \<Rightarrow> bool" where
  "kept E r g x \<longleftrightarrow> (case x of Inl e \<Rightarrow> e \<in> E | Inr y \<Rightarrow> keeps r (g y))"

lemma kept_simps [simp]: "kept E r g (Inl e) \<longleftrightarrow> e \<in> E" "kept E r g (Inr y) \<longleftrightarrow> keeps r (g y)"
  by (simp_all add: kept_def)

lemma kept_bind: "kept E r g x \<Longrightarrow> (\<And>y. keeps r (g y) \<Longrightarrow> kept E r g' (k y)) \<Longrightarrow> kept E r g' (bindE x k)"
  by (cases x) simp_all

lemma kept_plain: "(\<And>e. x = Inl e \<Longrightarrow> e \<in> E) \<Longrightarrow> (\<And>y. x = Inr y \<Longrightarrow> kept E r g (k y)) \<Longrightarrow> kept E r g (bindE x k)"
  by (cases x) simp_all

lemma kept_trans: "keeps r r1 \<Longrightarrow> kept E r1 g x \<Longrightarrow> kept E r g x"
  by (auto simp: kept_def intro: keeps_trans split: sum.splits)

lemma kept_handled:
  "kept mgmt_faults r g x \<Longrightarrow> live strict f r \<Longrightarrow> (\<And>y. x = Inr y \<Longrightarrow> live strict f (g y) \<Longrightarrow> handled mgmt_faults strict f (k y))
    \<Longrightarrow> handled mgmt_faults strict f (bindE x k)"
  by (cases x) (auto intro: keeps_live)

abbreviation soft_faults :: "err set" where "soft_faults \<equiv> {Fail, Oob, Null, Uaf}"

lemma soft_fault: "ends x \<Longrightarrow> x = Inl e \<Longrightarrow> e \<in> soft_faults"
  by (cases e) (auto simp: ends_def)

lemma face_upd_keeps: "face_mark g \<Longrightarrow> relay_wf r \<Longrightarrow> keeps r (face_upd i g r)"
  by (simp add: keeps_def face_upd_wf face_upd_ids all_out_def)

text \<open>A face on the first interface of an address's family.\<close>

lemma first_iface:
  assumes "find P (enumerate 0 (take k xs)) = Some (i, x)"
  shows "i < length xs"
proof -
  have "(i, x) \<in> set (enumerate 0 (take k xs))" using assms by (metis find_Some_iff nth_mem)
  then show ?thesis by (auto simp: in_set_enumerate_eq)
qed

lemma any_face_keeps:
  assumes wf: "relay_wf r"
  shows "kept {Oob} r snd (ccnl_get_face_or_create r (-1) (Some a))"
proof -
  have up: "keeps r (face_upd i (\<lambda>f. f\<lparr>f_last_used := t\<rparr>) r)" for i t
    by (rule face_upd_keeps[OF _ wf]) (simp add: face_mark_def)
  have new: "keeps r (r\<lparr>rl_seqno := Suc (rl_seqno r), rl_faces := f # rl_faces r\<rparr>)"
    if "f_faceid f = Suc (rl_seqno r)" "0 \<le> f_ifndx f" "f_ifndx f < int (length (rl_ifs r))" "f_outq f = []" for f
    using new_face_wf[OF wf, of f] that by (auto simp: keeps_def all_out_def face_ids_def out_faces_def intro: image_eqI[of _ _ f])
  show ?thesis
    by (auto simp: ccnl_get_face_or_create_def Let_def kept_def up keeps_refl[OF wf] intro!: new dest: first_iface split: option.split)
qed

lemma mgmt_face_keeps: "keeps r (snd fr) \<Longrightarrow> kept {Oob} r snd (mgmt_face a fr)"
  using any_face_keeps[of "snd fr"] kept_trans[of r "snd fr"]
  by (cases a) (auto simp: mgmt_face_def keeps_def split: option.split)

text \<open>The address of an interface may change, and its use.\<close>

lemma if_upd_keeps:
  assumes "relay_wf r" and "\<And>i. if_qlen (g i) = if_qlen i \<and> if_qfront (g i) = if_qfront i \<and> if_queue (g i) = if_queue i"
  shows "keeps r (if_upd n g r)"
proof -
  have "ifs_wf (if_upd n g r)"
  proof (cases "n < length (rl_ifs r)")
    case True
    then have "rl_ifs r ! n \<in> set (rl_ifs r)" by simp
    then show ?thesis using assms by (auto simp: relay_wf_def ifs_wf_def if_upd_def dest!: set_update_subset_insert[THEN subsetD])
  qed (use assms(1) in \<open>simp add: if_upd_def relay_wf_def ifs_wf_def list_update_beyond\<close>)
  then show ?thesis using assms(1)
    by (simp add: keeps_def relay_wf_def faces_wf_def pit_wf_def fib_wf_def cs_wf_def nonces_wf_def if_upd_def face_ids_def out_faces_def)
qed

lemma take_if_keeps:
  assumes "relay_wf r" and "rl_ifcount r < length (rl_ifs r)"
  shows "keeps r (take_if mtu rf r)"
proof -
  let ?r = "if_upd (rl_ifcount r) (\<lambda>i. i\<lparr>if_mtu := mtu, if_reflect := rf, if_fwdalli := True\<rparr>) r"
  have "keeps r ?r" by (rule if_upd_keeps[OF assms(1)]) simp
  moreover have "keeps ?r (?r\<lparr>rl_ifcount := rl_ifcount r + 1\<rparr>)"
    using calculation assms(2)
    by (simp add: keeps_def relay_wf_def faces_wf_def ifs_wf_def pit_wf_def fib_wf_def cs_wf_def nonces_wf_def if_upd_def face_ids_def out_faces_def all_out_def)
  ultimately show ?thesis unfolding take_if_def by (rule keeps_trans)
qed

lemma open_if_keeps:
  assumes "relay_wf r"
  shows "kept {Oob} r snd (open_if dev r)"
  using if_upd_keeps[OF assms] by (auto simp: open_if_def next_if_def split: prod.split)

section \<open>Commands\<close>

lemma field_mem [simp]: "mem_only (field_long s)" "mem_only (field_ulong s)"
  by (simp_all add: field_long_def field_ulong_def split: option.split)

lemma mem_onlyD: "mem_only x \<Longrightarrow> x = Inl e \<Longrightarrow> e \<in> mgmt_faults"
  by (simp add: mem_only_def)

lemma eth_address_ends: "ends (ccnl_mgmt_parse_eth_address s)"
proof -
  have "ends (parse_eth_loop n i m acc)" for n i m acc
    by (induction n arbitrary: i acc) (auto simp: Let_def intro!: ends_intros split: prod.split)
  then show ?thesis unfolding ccnl_mgmt_parse_eth_address_def by (intro ends_intros) simp_all
qed

lemma field_ends [simp]: "ends (field_long s)" "ends (field_ulong s)"
  by (auto simp: field_long_def field_ulong_def split: option.split)

lemma newface_ends: "ends (newface_eth v)" "ends (newface_udp env v)" "ends (newface_unix v)"
proof -
  show "ends (newface_eth v)" unfolding newface_eth_def
    by (auto intro!: ends_intros eth_address_ends split: prod.split option.split)
  show "ends (newface_udp env v)" unfolding newface_udp_def
    by (auto intro!: ends_intros split: prod.split option.split)
  show "ends (newface_unix v)" by (simp add: newface_unix_def split: option.split)
qed

lemma soft_exit_kept:
  "(\<And>e. x = Inl e \<Longrightarrow> e \<in> soft_faults) \<Longrightarrow> keeps r (snd fr) \<Longrightarrow> (\<And>y. x = Inr y \<Longrightarrow> kept mgmt_faults r (\<lambda>(go, f, r1). r1) (k y))
    \<Longrightarrow> kept mgmt_faults r (\<lambda>(go, f, r1). r1) (soft_exit x fr k)"
  by (cases x) (auto simp: soft_exit_def split: prod.split)

lemma mgmt_face_step: "keeps r (snd fr) \<Longrightarrow> kept soft_faults r snd (mgmt_face a fr)" "keeps r (snd fr) \<Longrightarrow> kept mgmt_faults r snd (mgmt_face a fr)"
  using mgmt_face_keeps[of r fr a] by (auto simp: kept_def split: sum.splits)

lemma newface_find_keeps:
  assumes "relay_wf r"
  shows "kept mgmt_faults r (\<lambda>(go, f, r1). r1) (newface_find env v r)"
proof -
  have start: "kept soft_faults r snd (if v CCNL_DTAG_MACSRC \<noteq> None \<and> v CCN_DTAG_HOST \<noteq> None \<and> v CCN_DTAG_PORT \<noteq> None
        then bindE (newface_eth v) (\<lambda>su. mgmt_face (Some su) (None, r))
        else if newface_wants_udp v
        then bindE (newface_udp env v) (\<lambda>(a4, a6). bindE (mgmt_face a4 (None, r)) (mgmt_face a6))
        else Inr (None, r))" (is "kept _ _ _ ?x")
    using keeps_refl[OF assms]
    by (auto intro!: kept_plain mgmt_face_step(1) kept_bind[OF mgmt_face_step(1)]
        dest: soft_fault[OF newface_ends(1)] soft_fault[OF newface_ends(2)])
  show ?thesis unfolding newface_find_def
  proof (rule soft_exit_kept)
    show "?x = Inl e \<Longrightarrow> e \<in> soft_faults" for e using start by (auto simp: kept_def)
    show "keeps r (snd (None, r))" using keeps_refl[OF assms] by simp
    fix fr1 assume "?x = Inr fr1"
    then have fr1: "keeps r (snd fr1)" using start by (simp add: kept_def)
    show "kept mgmt_faults r (\<lambda>(go, f, r1). r1) (soft_exit (newface_unix v) fr1 (\<lambda>au. bindE (mgmt_face au fr1) (\<lambda>(f, r2). Inr (True, f, r2))))"
      by (rule soft_exit_kept[OF soft_fault[OF newface_ends(3)] fr1])
        (auto intro!: kept_bind[OF mgmt_face_step(2)[OF fr1]] split: prod.split)
  qed
qed

lemma newface_flags_keeps:
  assumes "keeps r (snd fr)"
  shows "kept mgmt_faults r (\<lambda>(go, f, r1). r1) (newface_flags v fr)"
proof (cases fr)
  case (Pair f r1)
  show ?thesis
  proof (cases f)
    case (Some g)
    have "keeps r (face_upd g (\<lambda>x. x\<lparr>f_flags := w\<rparr>) r1)" for w
      using assms keeps_trans[OF _ face_upd_keeps] Pair by (fastforce simp: face_mark_def keeps_def)
    then show ?thesis using assms Pair Some
      by (auto simp: newface_flags_def intro!: kept_plain dest: mem_onlyD[OF field_mem(1)] split: prod.split)
  qed (use assms Pair in \<open>simp add: newface_flags_def\<close>)
qed

lemma newface_stmt_ends: "ends (newface_stmt v w f)"
  unfolding newface_stmt_def by (intro ends_intros; simp)

lemma handled_if: "(b \<Longrightarrow> handled E strict f x) \<Longrightarrow> (\<not> b \<Longrightarrow> handled E strict f y) \<Longrightarrow> handled E strict f (if b then x else y)"
  by simp

lemma newface_handled:
  assumes live: "live strict f r"
  shows "handled mgmt_faults strict f (ccnl_mgmt_newface h env m n f r)"
  unfolding ccnl_mgmt_newface_def
proof (rule handled_bind[OF mem_onlyD[OF request_mem]], assumption)
  fix y :: "parse_end \<times> fields" obtain how v where y: "y = (how, v)" by (cases y)
  have k: "kept mgmt_faults r (\<lambda>(go, f, r1). r1) (if how = Soft then Inr (False, None, r)
      else bindE (newface_find env v r) (\<lambda>(go, fr). if go then newface_flags v fr else Inr (False, fr)))"
    using keeps_refl[OF liveD(1)[OF live]]
    by (auto intro!: kept_bind[OF newface_find_keeps[OF liveD(1)[OF live]]] newface_flags_keeps split: prod.split)
  show "handled mgmt_faults strict f (case y of (how, v) \<Rightarrow> if how = Hard then Inr (-1, r)
      else bindE (if how = Soft then Inr (False, None, r)
        else bindE (newface_find env v r) (\<lambda>(go, fr). if go then newface_flags v fr else Inr (False, fr))) (\<lambda>(worked, g, r1).
        mgmt_send h env f (mgmt_message (Some (lit ''newface'')) (newface_stmt v worked g)) r1))"
    unfolding y prod.case
  proof (rule handled_if)
    show "handled mgmt_faults strict f (bindE (if how = Soft then Inr (False, None, r)
        else bindE (newface_find env v r) (\<lambda>(go, fr). if go then newface_flags v fr else Inr (False, fr))) (\<lambda>(worked, g, r1).
        mgmt_send h env f (mgmt_message (Some (lit ''newface'')) (newface_stmt v worked g)) r1))"
      by (rule kept_handled[OF k live]) (auto intro!: send_handled ends_message newface_stmt_ends)
  qed (simp add: live)
qed

lemma face_by_id: "face_by_id r i = Some f \<Longrightarrow> f \<in> face_ids r"
  by (auto simp: face_by_id_def face_ids_def find_Some_iff)

lemma setfrag_handled:
  assumes live: "live strict f r"
  shows "handled mgmt_faults strict f (ccnl_mgmt_setfrag h env m n f r)"
proof -
  have e: "ends (setfrag_stmt cp v)" for cp v unfolding setfrag_stmt_def by (intro ends_intros; simp)
  show ?thesis unfolding ccnl_mgmt_setfrag_def
    by (rule handled_bind[OF mem_onlyD[OF request_mem]])
      (auto simp: Let_def intro!: send_handled[OF live] ends_message e live)
qed

lemma open_if_step:
  assumes "keeps r r1"
  shows "open_if dev r1 = Inl e \<Longrightarrow> e = Oob"
    and "open_if dev r1 = Inr (ok, r2) \<Longrightarrow> keeps r r2 \<and> rl_ifcount r2 < length (rl_ifs r2)"
proof -
  show "open_if dev r1 = Inl e \<Longrightarrow> e = Oob"
    by (auto simp: open_if_def next_if_def bindE_eq_Inl_iff split: if_splits prod.splits)
  assume o: "open_if dev r1 = Inr (ok, r2)"
  have "keeps r1 r2" using open_if_keeps[of r1 dev] assms o by (simp add: keeps_def)
  then show "keeps r r2 \<and> rl_ifcount r2 < length (rl_ifs r2)" using o keeps_trans[OF assms]
    by (auto simp: open_if_def next_if_def if_upd_def split: if_splits prod.splits)
qed

lemma newdev_open_keeps:
  assumes wf: "relay_wf r"
  shows "kept mgmt_faults r snd (newdev_open env v r)"
proof -
  note start = keeps_refl[OF wf]
  have take: "keeps r r1 \<Longrightarrow> rl_ifcount r1 < length (rl_ifs r1) \<Longrightarrow> keeps r (take_if mtu rf r1)" for r1 mtu rf
    using keeps_trans[OF _ take_if_keeps] by (auto simp: keeps_def)
  have room: "rl_ifcount r < CCNL_MAX_INTERFACES \<Longrightarrow> rl_ifcount r < length (rl_ifs r)"
    using wf by (auto simp: relay_wf_def ifs_wf_def)
  have eth: "kept mgmt_faults r snd (newdev_eth env port r)" for port
    unfolding newdev_eth_def by (auto intro!: kept_plain take start dest: open_if_step(1)[OF start] open_if_step(2)[OF start] split: prod.split)
  have udp: "kept mgmt_faults r snd (newdev_udp env ip4 ip6 port r)" if "rl_ifcount r < CCNL_MAX_INTERFACES" for ip4 ip6 port
  proof -
    have second: "kept mgmt_faults r snd (bindE (if ip6 then open_if dev r1 else Inr (True, r1)) (\<lambda>(ok6, r2). Inr (cp, if ok6 then take_if 4096 False r2 else r2)))"
      if "keeps r r1" "rl_ifcount r1 < length (rl_ifs r1)" for r1 dev and cp :: bytes
      using that by (auto intro!: kept_plain take dest: open_if_step(1)[OF that(1)] open_if_step(2)[OF that(1)])
    have first: "kept mgmt_faults r snd (bindE (if ip4 then open_if dev r else Inr (True, r)) (\<lambda>(ok4, r1). if \<not> ok4 then Inr (cp, r1) else k r1))"
      if "\<And>r1. keeps r r1 \<Longrightarrow> rl_ifcount r1 < length (rl_ifs r1) \<Longrightarrow> kept mgmt_faults r snd (k r1)" for dev k and cp :: bytes
      using that room[OF \<open>rl_ifcount r < CCNL_MAX_INTERFACES\<close>] start
      by (auto intro!: kept_plain dest: open_if_step(1)[OF start] open_if_step(2)[OF start])
    obtain lport erange where "strtoul 0 (c_str port) = (lport, erange)" by (cases "strtoul 0 (c_str port)")
    then show ?thesis unfolding newdev_udp_def Let_def by (simp add: start first second)
  qed
  show ?thesis by (auto simp: newdev_open_def start eth udp split: option.split)
qed

lemma newdev_handled:
  assumes live: "live strict f r"
  shows "handled mgmt_faults strict f (ccnl_mgmt_newdev h env m n f r)"
  unfolding ccnl_mgmt_newdev_def
proof (rule handled_bind[OF mem_onlyD[OF request_mem]], assumption)
  fix y :: "parse_end \<times> fields" obtain how v where y: "y = (how, v)" by (cases y)
  have e: "ends (newdev_stmt v cp)" for cp unfolding newdev_stmt_def by (intro ends_intros; simp)
  have k: "kept mgmt_faults r snd (if how = Ended then newdev_open env v r else Inr (lit ''newdevice cmd worked'', r))"
    using keeps_refl[OF liveD(1)[OF live]] newdev_open_keeps[OF liveD(1)[OF live]] by simp
  show "handled mgmt_faults strict f (case y of (how, v) \<Rightarrow> if how = Hard then Inr (-1, r)
      else bindE (if how = Ended then newdev_open env v r else Inr (lit ''newdevice cmd worked'', r)) (\<lambda>(cp, r1).
        mgmt_send h env f (mgmt_message (Some (lit ''newdev'')) (newdev_stmt v cp)) r1))"
    unfolding y prod.case
    by (rule handled_if, simp add: live, rule kept_handled[OF k live]) (auto intro!: send_handled ends_message e)
qed

text \<open>After \<open>destroyface\<close> the face that asked may be gone.\<close>

definition left_over :: "err set \<Rightarrow> bool \<Rightarrow> faceref \<Rightarrow> (int \<times> relay) res \<Rightarrow> bool" where
  "left_over E strict f x \<longleftrightarrow> (case x of Inl e \<Rightarrow> e \<in> E | Inr (rc, r1) \<Rightarrow> f \<notin> face_ids r1 \<or> live strict f r1)"

lemma handled_left_over: "handled E strict f x \<Longrightarrow> left_over E strict f x"
  by (auto simp: handled_def left_over_def split: sum.splits)

lemma send_gone:
  assumes gone: "f \<notin> face_ids r" and ok: "ends msg"
  shows "left_over mgmt_faults strict f (mgmt_send h env f msg r)"
proof (cases msg)
  case (Inl e)
  then show ?thesis using assms by (cases e) (auto simp: mgmt_send_def left_over_def)
next
  case (Inr b)
  have get: "face_get r f = Inl Uaf" using gone by (auto simp: face_get_def face_ids_def find_None_iff split: option.split)
  then have q: "ccnl_face_enqueue f (Some c) r = Inl Uaf" for c by (simp add: ccnl_face_enqueue_def)
  have bail: "left_over mgmt_faults strict f (bindE (or_bail x r k) (\<lambda>(rc, r1). Inr (if rc \<noteq> 0 then -1 else 0, r1)))"
    if "ends x" "\<And>a. left_over mgmt_faults strict f (bindE (k a) (\<lambda>(rc, r1). Inr (if rc \<noteq> 0 then -1 else 0, r1)))" for x :: "bytes res" and k
    using that gone by (cases x; cases "projl x") (auto simp: or_bail_def left_over_def)
  have "[0..<length b div 2024 + 1] = 0 # [1..<length b div 2024 + 1]" by (simp add: upt_rec)
  then show ?thesis using Inr
    by (auto simp: mgmt_send_def ccnl_mgmt_send_return_split_def Let_def q simp del: upt_Suc intro!: bail) (simp add: left_over_def)
qed

lemma destroyface_left_over:
  assumes live: "live strict f r"
  shows "left_over mgmt_faults strict f (ccnl_mgmt_destroyface h env m n f r)"
proof -
  have e: "ends (destroyface_stmt cp i)" for cp i unfolding destroyface_stmt_def by (intro ends_intros; simp)
  have sent: "left_over mgmt_faults strict f (mgmt_send h env f (mgmt_message c (destroyface_stmt cp i)) r1)"
    if "f \<notin> face_ids r1 \<or> live strict f r1" for c cp i r1
    using that send_gone[OF _ ends_message(1)[OF e]] handled_left_over[OF send_handled[OF _ ends_message(1)[OF e]]] by blast
  have found: "\<exists>ok r1. destroyface_find i r = Inr (ok, r1) \<and> (f \<notin> face_ids r1 \<or> live strict f r1)" for i
  proof (cases "\<exists>g. destroyface_find i r = bindE (ccnl_face_remove g r) (\<lambda>(f2, r1). Inr (True, r1)) \<and> g \<in> face_ids r")
    case True
    then obtain g where g: "destroyface_find i r = bindE (ccnl_face_remove g r) (\<lambda>(f2, r1). Inr (True, r1))" "g \<in> face_ids r" by blast
    obtain f2 where "ccnl_face_remove g r = Inr (f2, without_face g r)" using face_remove_eq[OF liveD(1)[OF live] g(2)] by blast
    then show ?thesis using g live without_face_wf[OF liveD(1)[OF live]]
      by (auto simp: live_def all_out_def without_face_ids)
  next
    case False
    then have "destroyface_find i r = Inr (False, r)"
      by (auto simp: destroyface_find_def split: prod.split option.split dest: face_by_id)
    then show ?thesis using live by blast
  qed
  show ?thesis unfolding ccnl_mgmt_destroyface_def
  proof (cases "mgmt_request m n CCN_DTAG_FACEINSTANCE [CCN_DTAG_ACTION, CCN_DTAG_FACEID]")
    case (Inl e)
    then show "left_over mgmt_faults strict f (bindE (mgmt_request m n CCN_DTAG_FACEINSTANCE [CCN_DTAG_ACTION, CCN_DTAG_FACEID]) k)" for k
      using mem_onlyD[OF request_mem] by (simp add: left_over_def)
  next
    case (Inr y)
    obtain how v where y: "y = (how, v)" by (cases y)
    show "left_over mgmt_faults strict f (bindE (mgmt_request m n CCN_DTAG_FACEINSTANCE [CCN_DTAG_ACTION, CCN_DTAG_FACEID]) (\<lambda>(how, v).
      if how = Hard then Inr (-1, r)
      else (case v CCN_DTAG_FACEID of
          None \<Rightarrow> bindE (ccnl_mgmt_return_ccn_msg h env f (lit ''destroyface'') (lit ''destroyface cmd failed'') r) (\<lambda>(rc, r1). Inr (-1, r1))
        | Some faceid \<Rightarrow> bindE (if how = Ended then destroyface_find faceid r else Inr (False, r)) (\<lambda>(removed, r1).
            let cp = (if removed then lit ''facedestroy cmd worked'' else lit ''destroyface cmd failed'')
            in mgmt_send h env f (mgmt_message (Some (lit ''destroyface'')) (destroyface_stmt cp faceid)) r1))))"
    proof (cases "v CCN_DTAG_FACEID")
      case None
      then show ?thesis using Inr y live handled_left_over[OF refuse_handled[OF live, of h env _ _ "\<lambda>_. -1"]]
        by (simp add: handled_left_over)
    next
      case (Some i)
      obtain ok r1 where "destroyface_find i r = Inr (ok, r1)" "f \<notin> face_ids r1 \<or> live strict f r1" using found by blast
      then show ?thesis using Inr y Some live sent by (auto simp: Let_def handled_left_over)
    qed
  qed
qed

text \<open>A forwarding entry leads to a face with an interface when every face has one.\<close>

lemma comps_ends [simp]: "mem_only (ccnb_comps m vs)" "mem_only (reg_prefix m suite vs)"
proof -
  show c: "mem_only (ccnb_comps m vs)"
    by (induction vs) (auto intro!: mem_only_intros)
  show "mem_only (reg_prefix m suite vs)" unfolding reg_prefix_def by (intro mem_only_intros c) simp
qed

lemma mem_only_ends: "mem_only x \<Longrightarrow> ends x"
  by (auto simp: mem_only_def ends_def)

lemma prefixreg_enter_live:
  assumes live: "live True f r"
  shows "case prefixreg_enter m v comps r of Inl e \<Rightarrow> e \<in> mgmt_faults | Inr (entered, suite, r1) \<Rightarrow> live True f r1"
proof -
  have add: "live True f (r\<lparr>rl_fib := rl_fib r @ [\<lparr>fw_prefix = Some p, fw_tap = None, fw_face = Some g, fw_suite = s\<rparr>]\<rparr>)"
    if "g \<in> face_ids r" for g p s
    using live that by (auto simp: live_def relay_wf_def faces_wf_def ifs_wf_def pit_wf_def fib_wf_def cs_wf_def nonces_wf_def
        all_out_def face_ids_def out_faces_def)
  show ?thesis using live
    by (auto simp: prefixreg_enter_def bindE_def deref_def split: option.split prod.split sum.split
        intro!: add face_by_id dest: mem_onlyD[OF comps_ends(2)])
qed

lemma prefixreg_reply_handled:
  assumes live: "live strict f r" and p: "ends p"
  shows "handled mgmt_faults strict f (prefixreg_reply h env f cp v p r)"
proof -
  have e: "ends (prefixreg_stmt (mg_env) cp p i s)" for mg_env i s
    unfolding prefixreg_stmt_def by (intro ends_intros p) simp_all
  show ?thesis unfolding prefixreg_reply_def
    by (auto intro!: send_handled[OF live] ends_message e refuse_handled[OF live] split: option.split)
qed

lemma prefixreg_handled:
  assumes live: "live True f r"
  shows "handled mgmt_faults True f (ccnl_mgmt_prefixreg h env m n f r)"
  unfolding ccnl_mgmt_prefixreg_def
proof (rule handled_bind[OF mem_onlyD[OF mgmt_open_mem]], assumption)
  fix x :: "cursor option"
  show "handled mgmt_faults True f (case x of
      None \<Rightarrow> prefixreg_reply h env f (lit ''prefixreg cmd failed'') Map.empty (Inl Null) r
    | Some cur \<Rightarrow>
        bindE (mgmt_reg_fields m [CCN_DTAG_ACTION, CCN_DTAG_FACEID, CCNL_DTAG_SUITE] cur Map.empty []) (\<lambda>(how, v, comps).
        if how = Hard then Inr (-1, r)
        else bindE (if how = Ended then prefixreg_enter m v comps r else Inr (False, 0, r)) (\<lambda>(entered, suite, r1).
          let cp = (if entered then lit ''prefixreg cmd worked'' else lit ''prefixreg cmd failed'') in
          bindE (prefixreg_reply h env f cp v (reg_prefix m suite comps) r1) (\<lambda>(rc, r2).
            if rc \<noteq> 0 \<and> entered then Inl Uaf else Inr (rc, r2)))))"
  proof (cases x)
    case None
    then show ?thesis using prefixreg_reply_handled[OF live] by simp
  next
    case (Some cur)
    have rest: "handled mgmt_faults True f (bindE (if how = Ended then prefixreg_enter m v comps r else Inr (False, 0, r)) (\<lambda>(entered, suite, r1).
          let cp = (if entered then lit ''prefixreg cmd worked'' else lit ''prefixreg cmd failed'') in
          bindE (prefixreg_reply h env f cp v (reg_prefix m suite comps) r1) (\<lambda>(rc, r2).
            if rc \<noteq> 0 \<and> entered then Inl Uaf else Inr (rc, r2))))" for how v comps
    proof (rule handled_bind)
      let ?x = "if how = Ended then prefixreg_enter m v comps r else Inr (False, 0, r)"
      show "?x = Inl e \<Longrightarrow> e \<in> mgmt_faults" for e using prefixreg_enter_live[OF live, of m v comps] by (auto split: if_splits)
      fix y assume y: "?x = Inr y"
      obtain entered suite r1 where yy: "y = (entered, suite, r1)" by (cases y)
      have live1: "live True f r1" using prefixreg_enter_live[OF live, of m v comps] y yy live by (auto split: if_splits)
      show "handled mgmt_faults True f (case y of (entered, suite, r1) \<Rightarrow>
          let cp = (if entered then lit ''prefixreg cmd worked'' else lit ''prefixreg cmd failed'') in
          bindE (prefixreg_reply h env f cp v (reg_prefix m suite comps) r1) (\<lambda>(rc, r2).
            if rc \<noteq> 0 \<and> entered then Inl Uaf else Inr (rc, r2)))"
        unfolding yy prod.case Let_def
        by (rule handled_then[OF prefixreg_reply_handled[OF live1 mem_only_ends[OF comps_ends(2)]]]) simp
    qed
    show ?thesis unfolding Some option.case
      by (rule handled_bind[OF mem_onlyD[OF mgmt_reg_fields_mem]], assumption, simp only: split_paired_all prod.case,
        rule handled_if, simp only: handled_simps live, rule rest)
  qed
qed

lemma add_request_mem: "mem_only (add_request m n)"
  unfolding add_request_def by (intro mem_only_bind mgmt_expect_mem) (auto intro!: mem_only_intros split: option.split prod.split)

lemma prefix_text_mem [simp]: "mem_only (prefix_text env p)"
proof -
  have "prefix_text env p \<noteq> Inl Fail"
    by (auto simp: prefix_text_def prefix_string_def bindE_eq_Inl_iff split: if_splits sum.splits)
  then show ?thesis unfolding mem_only_def by (intro allI impI, rule mgmt_fault[OF _ ends_prefix_text(2)])
qed

lemma add_interest_handled:
  assumes live: "live strict f r"
  shows "handled mgmt_faults strict f (add_interest env f p r)"
  unfolding add_interest_def
proof (rule handled_bind[OF mem_onlyD[OF simple_interest_mem]], assumption)
  fix x :: "bytes option"
  show "handled mgmt_faults strict f (case x of None \<Rightarrow> Inr (-1, r) | Some b \<Rightarrow> (case ccnl_interest_new r (Some f) (add_pkt p b) of
          (None, r1) \<Rightarrow> Inr (-1, r1)
        | (Some i, r1) \<Rightarrow> bindE (ccnl_face_enqueue f (Some b) r1) (\<lambda>(rc, r2). Inr (0, r2))))"
  proof (cases x)
    case (Some b)
    have "pkt_wf (add_pkt p b)" by (simp add: add_pkt_def pkt_wf_def)
    then consider "ccnl_interest_new r (Some f) (add_pkt p b) = (None, r)"
      | i r1 where "ccnl_interest_new r (Some f) (add_pkt p b) = (Some i, r1)" "keeps r r1"
      using interest_new_wf[OF liveD(1)[OF live], of "add_pkt p b" "Some f"] liveD(2)[OF live] by auto
    then show ?thesis
    proof cases
      case (2 i r1)
      then show ?thesis using handled_zero[OF enqueue_handled[OF keeps_live[OF 2(2) live]]] Some by simp
    qed (simp add: Some live)
  qed (simp add: live)
qed

lemma addcacheobject_handled:
  assumes live: "live strict f r"
  shows "handled mgmt_faults strict f (ccnl_mgmt_addcacheobject h env m n f r)"
proof -
  have a: "mem_only (add_answer env p)" for p unfolding add_answer_def by (intro mem_only_intros) simp_all
  have sent: "handled mgmt_faults strict f (bindE (ccnl_mgmt_return_ccn_msg h env f c answer r) (\<lambda>(rc, r1).
      if rc \<noteq> 0 then Inr (-1, r1) else add_interest env f p r1))" for c answer p
    by (rule handled_then[OF return_handled[OF live]]) (simp add: add_interest_handled)
  show ?thesis unfolding ccnl_mgmt_addcacheobject_def Let_def
    by (intro handled_bind[OF mem_onlyD[OF add_request_mem]], assumption)
      (auto simp: live intro!: handled_bind sent dest: mem_onlyD[OF a] mem_onlyD[OF mem_only_prim(3)] split: option.split)
qed

lemma remove_match_mem [simp]: "mem_only (remove_match behind cs ds i)"
proof -
  have s: "mem_only (strcmp_eq a b)" for a b
    by (induction a b rule: strcmp_eq.induct) (auto split: list.split)
  show ?thesis by (induction behind cs ds i rule: remove_match.induct) (auto intro!: mem_only_intros s)
qed

lemma remove_search_found:
  "mem_only (remove_search env comps cs i) \<and> (remove_search env comps cs i = Inr (Some c, j) \<longrightarrow> c \<in> c_ref ` set cs)"
proof (induction cs arbitrary: i)
  case (Cons d cs)
  then show ?case
    by (auto intro!: mem_only_intros simp: bindE_eq_Inr_iff split: if_splits)
qed simp

lemma remove_content_live:
  assumes live: "live strict f r"
  shows "case remove_content env comps r of Inl e \<Rightarrow> e \<in> mgmt_faults | Inr (ok, r1) \<Rightarrow> live strict f r1"
proof (cases "remove_search env comps (rl_contents r) 1024")
  case (Inl e)
  then show ?thesis using remove_search_found[of env comps "rl_contents r" 1024] by (simp add: remove_content_def mem_only_def)
next
  case (Inr x)
  obtain c2 i where x: "x = (c2, i)" by (cases x)
  show ?thesis
  proof (cases "i = length comps \<and> c2 \<noteq> None")
    case True
    then obtain c where c: "c2 = Some c" by blast
    then obtain d where d: "d \<in> set (rl_contents r)" "c_ref d = c"
      using remove_search_found[of env comps "rl_contents r" 1024 c i] Inr x by auto
    obtain r1 where r1: "ccnl_content_remove c r = Inr r1" "relay_wf r1"
      using rcs.rem_member[OF liveD(1)[OF live] d(1)] d(2) by blast
    have "rl_faces r1 = rl_faces r" using r1(1) by (auto simp: ccnl_content_remove_def bindE_eq_Inr_iff)
    then show ?thesis using True c Inr x r1 live
      by (simp add: remove_content_def live_def all_out_def face_ids_def out_faces_def)
  qed (use Inr x live in \<open>auto simp: remove_content_def\<close>)
qed

lemma removecacheobject_handled:
  assumes live: "live strict f r"
  shows "handled mgmt_faults strict f (ccnl_mgmt_removecacheobject h env m n f r)"
proof -
  have o: "mem_only (remove_open m n)" unfolding remove_open_def
    by (intro mem_only_bind mgmt_expect_mem) (auto intro!: mem_only_intros split: option.split prod.split)
  have q: "mem_only (bindE (remove_open m n) (\<lambda>x. case x of None \<Rightarrow> Inr (Soft, []) | Some cur \<Rightarrow> remove_fields m cur []))"
    by (intro mem_only_intros o) simp_all
  have sent: "handled mgmt_faults strict f (bindE (if how = Ended then remove_content env comps r else Inr (False, r)) (\<lambda>(removed, r1).
      bindE (ccnl_mgmt_return_ccn_msg h env f c (g removed) r1) (\<lambda>(rc, r2). Inr (if rc \<noteq> 0 then -1 else 0, r2))))" for how comps c g
  proof (rule handled_bind)
    let ?x = "if how = Ended then remove_content env comps r else Inr (False, r)"
    show "?x = Inl e \<Longrightarrow> e \<in> mgmt_faults" for e using remove_content_live[OF live, of env comps] by (auto split: if_splits)
    fix y assume "?x = Inr y"
    then have "live strict f (snd y)" using remove_content_live[OF live, of env comps] live by (cases y) (auto split: if_splits)
    then show "handled mgmt_faults strict f (case y of (removed, r1) \<Rightarrow>
        bindE (ccnl_mgmt_return_ccn_msg h env f c (g removed) r1) (\<lambda>(rc, r2). Inr (if rc \<noteq> 0 then -1 else 0, r2)))"
      using refuse_handled[of strict f "snd y" h env c _ "\<lambda>rc. if rc \<noteq> 0 then -1 else 0"] by (cases y) simp
  qed
  show ?thesis unfolding ccnl_mgmt_removecacheobject_def
    by (rule handled_bind[OF mem_onlyD[OF q]], assumption) (auto simp: live intro!: handled_if sent)
qed

text \<open>The dump of the tables.\<close>

lemma addr2ascii_mem [simp]: "mem_only (ccnl_addr2ascii a)"
proof -
  have "mem_only (ll2ascii x n)" for x n by (simp add: ll2ascii_def)
  then show ?thesis by (cases a rule: ccnl_addr2ascii.cases) (auto intro!: mem_only_intros)
qed

lemma prefix_dump_mem [simp]: "mem_only (get_prefix_dump env p)" "mem_only (dump_prefix env p)"
  by (auto simp: get_prefix_dump_def dump_prefix_def Let_def intro!: mem_only_intros)

lemma face_get_mem [simp]: "mem_only (face_get r f)"
  by (simp add: face_get_def split: option.split)

lemma dump_relay_mem [simp]: "mem_only (ccnl_dump_relay env r)"
proof -
  have i: "mem_only (dump_ifs is)" for "is" by (induction "is") (auto intro!: mem_only_intros)
  have f: "mem_only (dump_faces fs)" for fs by (induction fs) (auto intro!: mem_only_intros)
  have w: "mem_only (dump_fwds env r ws)" for ws by (induction ws) (auto intro!: mem_only_intros)
  have p: "mem_only (dump_pkts env ps)" for ps by (induction ps) (auto intro!: mem_only_intros)
  show ?thesis unfolding ccnl_dump_relay_def by (intro mem_only_intros i f w p)
qed

lemma tables_dump_mem: "mem_only (tables_dump env r)"
proof -
  have f: "mem_only (get_faces_dump env prev fs)" for prev fs
    by (induction env prev fs rule: get_faces_dump.induct) (auto intro!: mem_only_intros)
  have w: "mem_only (get_fwd_dump env r k ws)" for k ws
    by (induction env r k ws rule: get_fwd_dump.induct) (auto intro!: mem_only_intros split: option.split)
  have d: "mem_only (get_interface_dump env k ds)" for k ds
    by (induction env k ds rule: get_interface_dump.induct) (auto intro!: mem_only_intros)
  have i: "mem_only (get_interest_dump env prev k es)" for prev k es
    by (induction env prev k es rule: get_interest_dump.induct) (auto intro!: mem_only_intros)
  have c: "mem_only (get_content_dump env prev k es)" for prev k es
    by (induction env prev k es rule: get_content_dump.induct) (auto intro!: mem_only_intros)
  show ?thesis unfolding tables_dump_def by (intro mem_only_intros f w d i c dump_relay_mem) simp
qed

lemma debug_stmt_ends: "ends (debug_stmt n a cp t)"
proof -
  have i: "ends (ccnl_mgmt_create_interface_stmt n ds ob)" for ds ob
    by (induction ds arbitrary: ob) (auto simp: fits_100_def intro!: ends_intros)
  have f: "ends (ccnl_mgmt_create_faces_stmt n ds ob)" for ds ob
    by (induction ds arbitrary: ob) (auto intro!: ends_intros)
  have w: "ends (ccnl_mgmt_create_fwds_stmt n ds ob)" for ds ob
    by (induction ds arbitrary: ob) (auto intro!: ends_intros)
  have e: "ends (ccnl_mgmt_create_interest_stmt n ds ob)" for ds ob
    by (induction ds arbitrary: ob) (auto intro!: ends_intros)
  have c: "ends (ccnl_mgmt_create_content_stmt n ds ob)" for ds ob
    by (induction ds arbitrary: ob) (auto intro!: ends_intros)
  show ?thesis unfolding debug_stmt_def by (intro ends_intros i f w e c; simp)
qed

lemma debug_act_live:
  assumes "live strict f r"
  shows "case debug_act env a r of Inl e \<Rightarrow> e \<in> mgmt_faults | Inr (cp, t, r1) \<Rightarrow> live strict f r1"
proof -
  have halt: "live strict f (r\<lparr>rl_halt := True\<rparr>)" using assms
    by (simp add: live_def relay_wf_def faces_wf_def ifs_wf_def pit_wf_def fib_wf_def cs_wf_def nonces_wf_def all_out_def face_ids_def out_faces_def)
  show ?thesis
  proof (cases "tables_dump env r")
    case (Inl e)
    then show ?thesis using assms halt mem_onlyD[OF tables_dump_mem Inl] by (simp add: debug_act_def split: option.split)
  qed (use assms halt in \<open>simp add: debug_act_def split: option.split\<close>)
qed

lemma debug_handled:
  assumes live: "live strict f r"
  shows "handled mgmt_faults strict f (ccnl_mgmt_debug h env m n f r)"
proof -
  have sent: "handled mgmt_faults strict f (bindE (if how = Ended then debug_act (mg_dump env) a r else Inr (cp0, t0, r)) (\<lambda>(cp, t, r1).
      mgmt_send h env f (debug_message k (debug_stmt k x cp t)) r1))" for how a cp0 t0 k x
  proof (rule handled_bind)
    let ?x = "if how = Ended then debug_act (mg_dump env) a r else Inr (cp0, t0, r)"
    show "?x = Inl e \<Longrightarrow> e \<in> mgmt_faults" for e using debug_act_live[OF live, of "mg_dump env" a] by (auto split: if_splits)
    fix y assume y: "?x = Inr y"
    obtain cp t r1 where yy: "y = (cp, t, r1)" by (cases y)
    have "live strict f r1" using y yy debug_act_live[OF live, of "mg_dump env" a] live by (auto split: if_splits)
    then show "handled mgmt_faults strict f (case y of (cp, t, r1) \<Rightarrow> mgmt_send h env f (debug_message k (debug_stmt k x cp t)) r1)"
      unfolding yy prod.case by (intro send_handled ends_message(2) debug_stmt_ends)
  qed
  show ?thesis unfolding ccnl_mgmt_debug_def Let_def
    by (rule handled_bind[OF mem_onlyD[OF request_mem]], assumption, simp only: split_paired_all prod.case,
        rule handled_if, simp only: handled_simps live, rule sent)
qed

section \<open>Management\<close>

lemma left_over_if: "(b \<Longrightarrow> left_over E strict f x) \<Longrightarrow> (\<not> b \<Longrightarrow> left_over E strict f y) \<Longrightarrow> left_over E strict f (if b then x else y)"
  by simp

lemma mgmt_left_over:
  assumes live: "live True f r"
  shows "left_over mgmt_faults True f (ccnl_mgmt h env r orig p (Some f))"
proof -
  note all = newdev_handled[OF live] setfrag_handled[OF live] newface_handled[OF live] prefixreg_handled[OF live]
    addcacheobject_handled[OF live] removecacheobject_handled[OF live] debug_handled[OF live]
  have arg: "left_over mgmt_faults True f (mgmt_arg env p k)" if "\<And>m n. left_over mgmt_faults True f (k m n)" for k
    using that by (simp add: mgmt_arg_def left_over_def)
  have refused: "left_over mgmt_faults True f (bindE (ccnl_mgmt_return_ccn_msg h env f c a r) (\<lambda>(rc, r1). Inr (-1, r1)))" for c a
    by (rule handled_left_over[OF refuse_handled[OF live]])
  obtain x where x: "face_get r f = Inr x" using live face_ids_get by (auto simp: live_def relay_wf_def)
  have "left_over mgmt_faults True f (ccnl_mgmt_handle h env orig p f cmd True r)" for cmd
    unfolding ccnl_mgmt_handle_def ccnl_mgmt_destroydev_def
    by (intro left_over_if refused arg all[THEN handled_left_over] destroyface_left_over[OF live])
  then show ?thesis using x refused by (auto simp: ccnl_mgmt_def Let_def) (auto simp: left_over_def)
qed

text \<open>
  Management as the callback of the forwarder. The dispatcher goes on with the face the request came
  from; when a command returns after that face was freed the pointer dangles, which counts as the
  fault it leads to.
\<close>

definition mgmt_hook :: "hooks \<Rightarrow> mgmt_env \<Rightarrow> relay \<Rightarrow> bytes \<Rightarrow> prefix \<Rightarrow> faceref option \<Rightarrow> (int \<times> relay) res" where
  "mgmt_hook h env r orig p from1 =
    bindE (ccnl_mgmt h env r orig p from1) (\<lambda>(rc, r1).
      if set_option from1 \<subseteq> face_ids r1 then Inr (rc, r1) else Inl Uaf)"

lemma mgmt_hook_live:
  assumes "live True f r"
  shows "case mgmt_hook h env r orig p (Some f) of Inl e \<Rightarrow> e \<in> mgmt_faults | Inr (rc, r1) \<Rightarrow> live True f r1"
  using mgmt_left_over[OF assms, of h env orig p]
  by (cases "ccnl_mgmt h env r orig p (Some f)") (auto simp: mgmt_hook_def left_over_def)

interpretation managed: application "hooks_unset (mgmt_hook h env) digest behind" True "{Oob, Null, Uaf}" for h env digest behind
  by (rule application_unset) (rule mgmt_hook_live)

end
