(* ===== verification/Unix_Inv.thy ===== *)
theory Unix_Inv
  imports Unix Mgmt_Inv
begin

text \<open>
  The main loop keeps the relay consistent: configuring makes a relay without faces, every round of
  the loop serves the due timers and the frames of each interface. With the real management every face has an
  interface all along (\<open>all_out\<close>), because no frame comes from a local client.
\<close>

section \<open>Configuration\<close>

text \<open>What the process starts with: zeroed counters and idle interfaces.\<close>

definition blank :: "relay \<Rightarrow> bool" where
  "blank r \<longleftrightarrow> ifs_wf r \<and> rl_pitcnt r = 0 \<and> rl_contentcnt r = 0"

lemma blank_reset: "blank r \<Longrightarrow> relay_wf (r\<lparr>rl_contents := [], rl_pit := [], rl_fib := [], rl_faces := [], rl_nonces := [],
    rl_max_cache_entries := k, rl_max_pit_entries := -1\<rparr>)"
  by (auto simp: blank_def relay_wf_defs)

lemma next_if_room: "relay_wf r \<Longrightarrow> rl_ifcount r < CCNL_MAX_INTERFACES \<Longrightarrow> next_if r = Inr (rl_ifs r ! rl_ifcount r)"
  by (simp add: next_if_def relay_wf_def ifs_wf_def)

lemma more_ifs_keeps: "relay_wf r \<Longrightarrow> rl_ifcount r < CCNL_MAX_INTERFACES \<Longrightarrow> keeps r (r\<lparr>rl_ifcount := rl_ifcount r + 1\<rparr>)"
  by (simp add: keeps_def relay_wf_def faces_wf_def ifs_wf_def pit_wf_def fib_wf_def cs_wf_def nonces_wf_def face_ids_def out_faces_def all_out_def)

text \<open>An operation that takes at most one more interface.\<close>

definition one_if :: "relay \<Rightarrow> relay res \<Rightarrow> bool" where
  "one_if r x \<longleftrightarrow> (\<exists>r'. x = Inr r' \<and> keeps r r' \<and> rl_ifcount r' \<le> rl_ifcount r + 1)"

lemma if_upd_fields [simp]: "rl_ifcount (if_upd n g r) = rl_ifcount r" "length (rl_ifs (if_upd n g r)) = length (rl_ifs r)"
  by (simp_all add: if_upd_def)

lemma config_if_one:
  assumes wf: "relay_wf r" and n: "rl_ifcount r < CCNL_MAX_INTERFACES"
    and g: "\<And>i a. if_qlen (g (i\<lparr>if_addr := a\<rparr>)) = if_qlen i \<and> if_qfront (g (i\<lparr>if_addr := a\<rparr>)) = if_qfront i \<and> if_queue (g (i\<lparr>if_addr := a\<rparr>)) = if_queue i"
  shows "one_if r (config_if dev g r)"
proof -
  have k: "keeps r (if_upd (rl_ifcount r) (\<lambda>i. g (i\<lparr>if_addr := a\<rparr>)) r)" for a
    by (rule if_upd_keeps[OF wf]) (use g in simp)
  have "keeps r (if_upd (rl_ifcount r) (\<lambda>i. g (i\<lparr>if_addr := a\<rparr>)) r\<lparr>rl_ifcount := rl_ifcount r + 1\<rparr>)" for a
    using keeps_trans[OF k more_ifs_keeps, of a] k[of a] n by (simp add: keeps_def)
  then show ?thesis using k next_if_room[OF wf n] by (auto simp: one_if_def config_if_def Let_def split: prod.split)
qed

lemma relay_udp_one:
  assumes wf: "relay_wf r" and n: "rl_ifcount r < CCNL_MAX_INTERFACES"
  shows "one_if r (ccnl_relay_udp os r sport af suite)"
proof -
  let ?n = "rl_ifcount r"
  have k1: "keeps r (if_upd ?n (\<lambda>i. i\<lparr>if_addr := a\<rparr>) r)" for a by (rule if_upd_keeps[OF wf]) simp
  let ?g = "\<lambda>i :: iface. i\<lparr>if_fwdalli := True, if_mtu := (if suite = CCNL_SUITE_CCNB \<or> suite = CCNL_SUITE_CCNTLV \<or> suite = CCNL_SUITE_NDNTLV
               then 4096 else if_mtu i)\<rparr>"
  have k2: "keeps r (if_upd ?n ?g (if_upd ?n (\<lambda>i. i\<lparr>if_addr := a\<rparr>) r))" for a
    using keeps_trans[OF k1 if_upd_keeps[of _ ?g], of a] k1[of a] by (simp add: keeps_def)
  have k3: "keeps r (if_upd ?n ?g (if_upd ?n (\<lambda>i. i\<lparr>if_addr := a\<rparr>) r)\<lparr>rl_ifcount := ?n + 1\<rparr>)" for a
    using keeps_trans[OF k2 more_ifs_keeps, of a] k2[of a] n by (simp add: keeps_def)
  show ?thesis using k1 k3 keeps_refl[OF wf] next_if_room[OF wf n]
    by (auto simp: one_if_def ccnl_relay_udp_def Let_def split: prod.split)
qed

lemma one_if_bind:
  "one_if r x \<Longrightarrow> (\<And>r'. keeps r r' \<Longrightarrow> rl_ifcount r' \<le> rl_ifcount r + 1 \<Longrightarrow> P (k r')) \<Longrightarrow> P (bindE x k)"
  by (auto simp: one_if_def)

lemma one_ifD:
  "one_if r x \<Longrightarrow> keeps r0 r \<Longrightarrow> rl_ifcount r \<le> k \<Longrightarrow> \<exists>r'. x = Inr r' \<and> keeps r0 r' \<and> relay_wf r' \<and> rl_ifcount r' \<le> Suc k"
  unfolding one_if_def using keeps_trans by (fastforce simp: keeps_def)

lemma set_timer_wf:
  assumes "clock_ok tod" "eventq_wf q" "ageing_only q"
  shows "eventq_wf (snd (ccnl_set_timer tod 1000000 (Some Ev_ageing) q))" "ageing_only (snd (ccnl_set_timer tod 1000000 (Some Ev_ageing) q))"
    "length (eq_timers (snd (ccnl_set_timer tod 1000000 (Some Ev_ageing) q))) = length (eq_timers q) + 1"
proof -
  have l: "length (timer_insert x ts) = length ts + 1" for x and ts :: "event timer list"
    by (metis mset_timer_insert size_mset size_add_mset Suc_eq_plus1)
  have d: "distinct (map tm_ref (timer_insert x ts)) \<longleftrightarrow> tm_ref x \<notin> tm_ref ` set ts \<and> distinct (map tm_ref ts)" for x and ts :: "event timer list"
  proof -
    have "mset (map tm_ref (timer_insert x ts)) = mset (map tm_ref (x # ts))" by simp
    then have "distinct (map tm_ref (timer_insert x ts)) \<longleftrightarrow> distinct (map tm_ref (x # ts))" by (rule mset_eq_imp_distinct_iff)
    then show ?thesis by simp
  qed
  have o: "tv_ok (timeout_at 1000000 (tod (eq_calls q)))"
    using assms(1) timeout_later[of "tod (eq_calls q)" 1000000] by (simp add: clock_ok_def)
  show "eventq_wf (snd (ccnl_set_timer tod 1000000 (Some Ev_ageing) q))"
    using assms(2) o by (auto simp: eventq_wf_def ccnl_set_timer_def gettimeofday_def Let_def sorted_timer_insert d)
  show "ageing_only (snd (ccnl_set_timer tod 1000000 (Some Ev_ageing) q))"
    using assms(3) by (auto simp: ageing_only_def ccnl_set_timer_def gettimeofday_def Let_def)
  show "length (eq_timers (snd (ccnl_set_timer tod 1000000 (Some Ev_ageing) q))) = length (eq_timers q) + 1"
    by (simp add: l ccnl_set_timer_def gettimeofday_def Let_def)
qed

lemma config_consistent:
  assumes b: "blank r" and n: "rl_ifcount r = 0" and q: "clock_ok tod" "eventq_wf q" "ageing_only q"
  shows "\<exists>r' q'. ccnl_relay_config tod cf (r, q) = Inr (r', q') \<and> relay_wf r' \<and> all_out r' \<and> rl_ifcount r' \<le> 6
    \<and> eventq_wf q' \<and> ageing_only q' \<and> length (eq_timers q') = length (eq_timers q) + 1"
proof -
  define r0 where "r0 = r\<lparr>rl_contents := [], rl_pit := [], rl_fib := [], rl_faces := [], rl_nonces := [],
           rl_max_cache_entries := cf_max_cache cf, rl_max_pit_entries := -1\<rparr>"
  have r0: "relay_wf r0" "all_out r0" "rl_ifcount r0 \<le> 0"
    using blank_reset[OF b] n by (simp_all add: r0_def all_out_def face_ids_def)
  obtain r1 where r1: "(if cf_ethdev cf then config_if (\<lambda>su. ccnl_open_ethdev (cf_os_eth cf) su 0x0801)
      (\<lambda>i. i\<lparr>if_mtu := 1500, if_reflect := True, if_fwdalli := True\<rparr>) r0 else Inr r0) = Inr r1" "keeps r0 r1" "relay_wf r1" "rl_ifcount r1 \<le> Suc 0"
    using one_ifD[OF config_if_one[OF r0(1)] keeps_refl[OF r0(1)] r0(3),
        of "\<lambda>i. i\<lparr>if_mtu := 1500, if_reflect := True, if_fwdalli := True\<rparr>" "\<lambda>su. ccnl_open_ethdev (cf_os_eth cf) su 0x0801"]
      keeps_refl[OF r0(1)] r0 by (cases "cf_ethdev cf") auto
  have udp: "\<exists>r'. ccnl_relay_udp os ra sport af suite = Inr r' \<and> keeps r0 r' \<and> relay_wf r' \<and> rl_ifcount r' \<le> Suc k"
    if "keeps r0 ra" "relay_wf ra" "rl_ifcount ra \<le> k" "k < 9" for os ra sport af suite k
    using one_ifD[OF relay_udp_one[OF that(2)] that(1,3)] that by auto
  obtain r2 where r2: "ccnl_relay_udp (fst (cf_os_udp cf)) r1 (fst (cf_udp cf)) AF_INET (cf_suite cf) = Inr r2"
    "keeps r0 r2" "relay_wf r2" "rl_ifcount r2 \<le> Suc (Suc 0)" using udp[OF r1(2-4), of "fst (cf_os_udp cf)" "fst (cf_udp cf)" AF_INET "cf_suite cf"] by auto
  obtain r3 where r3: "ccnl_relay_udp (snd (cf_os_udp cf)) r2 (snd (cf_udp cf)) AF_INET (cf_suite cf) = Inr r3"
    "keeps r0 r3" "relay_wf r3" "rl_ifcount r3 \<le> Suc (Suc (Suc 0))" using udp[OF r2(2-4), of "snd (cf_os_udp cf)" "snd (cf_udp cf)" AF_INET "cf_suite cf"] by auto
  obtain r4 where r4: "ccnl_relay_udp (fst (cf_os_udp6 cf)) r3 (fst (cf_udp6 cf)) AF_INET6 (cf_suite cf) = Inr r4"
    "keeps r0 r4" "relay_wf r4" "rl_ifcount r4 \<le> Suc (Suc (Suc (Suc 0)))" using udp[OF r3(2-4), of "fst (cf_os_udp6 cf)" "fst (cf_udp6 cf)" AF_INET6 "cf_suite cf"] by auto
  obtain r5 where r5: "ccnl_relay_udp (snd (cf_os_udp6 cf)) r4 (snd (cf_udp6 cf)) AF_INET6 (cf_suite cf) = Inr r5"
    "keeps r0 r5" "relay_wf r5" "rl_ifcount r5 \<le> 5" using udp[OF r4(2-4), of "snd (cf_os_udp6 cf)" "snd (cf_udp6 cf)" AF_INET6 "cf_suite cf"] by auto
  obtain r6 where r6: "(case cf_uxpath cf of None \<Rightarrow> Inr r5
      | Some path \<Rightarrow> config_if (ccnl_open_unixpath (cf_os_ux cf) path) (\<lambda>i. i\<lparr>if_mtu := 4096\<rparr>) r5) = Inr r6"
    "keeps r0 r6" "rl_ifcount r6 \<le> 6"
    using one_ifD[OF config_if_one[OF r5(3)] r5(2,4), of "\<lambda>i. i\<lparr>if_mtu := 4096\<rparr>"] r5 by (cases "cf_uxpath cf") auto
  note set = set_timer_wf[OF q]
  have "ccnl_relay_config tod cf (r, q) = Inr (r6, snd (ccnl_set_timer tod 1000000 (Some Ev_ageing) q))"
    unfolding ccnl_relay_config_def prod.case Let_def r0_def[symmetric] by (simp add: r1(1) r2(1) r3(1) r4(1) r5(1) r6(1))
  then show ?thesis using r6(2,3) r0(2) set by (auto simp: keeps_def)
qed

section \<open>The loop\<close>

lemma all_out_iff: "relay_wf r \<Longrightarrow> all_out r \<longleftrightarrow> (\<forall>x\<in>set (rl_faces r). 0 \<le> f_ifndx x)"
proof
  assume wf: "relay_wf r" and o: "all_out r"
  show "\<forall>x\<in>set (rl_faces r). 0 \<le> f_ifndx x"
  proof
    fix x assume x: "x \<in> set (rl_faces r)"
    then obtain y where "y \<in> set (rl_faces r)" "f_faceid y = f_faceid x" "0 \<le> f_ifndx y"
      using o by (force simp: all_out_def face_ids_def out_faces_def)
    moreover have "inj_on f_faceid (set (rl_faces r))" using wf by (simp add: relay_wf_def faces_wf_def distinct_map)
    ultimately show "0 \<le> f_ifndx x" using x by (metis inj_onD)
  qed
next
  assume "\<forall>x\<in>set (rl_faces r). 0 \<le> f_ifndx x"
  then show "all_out r" by (auto simp: all_out_def face_ids_def out_faces_def)
qed

lemma ageing_all_out: "relay_wf r \<Longrightarrow> all_out r \<Longrightarrow> ccnl_do_ageing r = Inr r' \<Longrightarrow> relay_wf r' \<and> all_out r'"
  using do_ageing_wf[of r] by (auto simp: all_out_iff)

lemma event_all_out:
  assumes "relay_wf r" and "all_out r" and "timer_call (relay_event tod) t (r, q) = Inr (r', q')"
  shows "relay_wf r' \<and> all_out r'"
  using assms ageing_all_out[OF assms(1,2)]
  by (auto simp: timer_call_def relay_event_def ccnl_ageing_def bindE_eq_Inr_iff split: option.splits event.splits)

lemma events_all_out:
  "relay_wf r \<Longrightarrow> all_out r \<Longrightarrow> run_events_loop k (relay_event tod) now (r, q) = Inr (w, r', q') \<Longrightarrow> relay_wf r' \<and> all_out r'"
proof (induction k arbitrary: r q)
  case (Suc k)
  show ?case
  proof (cases "eq_timers q")
    case (Cons t ts)
    show ?thesis
    proof (cases "timer_call (relay_event tod) t (r, q)")
      case (Inr x)
      obtain r1 q1 where "x = (r1, q1)" by (cases x)
      then show ?thesis using Suc.prems Suc.IH[of r1] Cons Inr event_all_out[OF Suc.prems(1,2), of tod t q r1 q1]
        by (auto simp: Let_def split: if_splits list.splits)
    qed (use Suc.prems Cons in \<open>auto simp: Let_def split: if_splits\<close>)
  qed (use Suc.prems in simp)
qed simp

text \<open>One frame of an interface: whatever it is, the relay stays consistent.\<close>

definition all_dispatch :: "suite_table \<Rightarrow> hooks \<Rightarrow> err set \<Rightarrow> bool" where
  "all_dispatch tab h E \<longleftrightarrow> Oob \<in> E \<and> (\<forall>s rx. tab s = Some rx \<longrightarrow> dispatch_upto E True h rx)"

lemma io_receive_done:
  assumes "all_dispatch tab h E" and "relay_wf r" and "all_out r" and "i < rl_ifcount r"
  shows "rx_done E True (io_receive tab h i frame r)"
proof -
  have "rx_done E True (ccnl_core_RX tab h r (int i) d n (Some su))" if "su \<noteq> Su_unspec" for d n su
    using assms that by (intro core_RX_done) (auto simp: all_dispatch_def rx_source_def relay_wf_def ifs_wf_def)
  then show ?thesis using assms(2,3)
    by (auto simp: io_receive_def split: option.split prod.split sockunion.split) (simp_all add: rx_done_def)
qed

lemma io_ifs_done:
  assumes d: "all_dispatch tab h E"
  shows "relay_wf r \<Longrightarrow> all_out r \<Longrightarrow> rx_done E True (io_ifs tab h sock maxfd io rset {} is r)"
proof (induction "is" arbitrary: r)
  case (Cons i "is")
  let ?x = "if i \<in> rset \<and> sock i < maxfd then io_receive tab h i (io_frame io i) r else Inr r"
  show ?case
  proof (cases "i \<ge> rl_ifcount r")
    case False
    then have "rx_done E True ?x" using io_receive_done[OF d Cons.prems, of i "io_frame io i"] Cons.prems by (auto simp: rx_done_def)
    then show ?thesis using False Cons.IH by (cases ?x) (auto simp: rx_done_def)
  qed (use Cons.prems in \<open>simp add: rx_done_def\<close>)
qed (simp add: rx_done_def)

text \<open>What the main loop keeps.\<close>

definition loop_inv :: "relay \<times> event eventq \<Rightarrow> bool" where
  "loop_inv rq \<longleftrightarrow> relay_wf (fst rq) \<and> all_out (fst rq) \<and> eventq_wf (snd rq) \<and> ageing_only (snd rq)"

lemma io_step_inv:
  assumes d: "all_dispatch tab h E" and tod: "clock_ok tod" and inv: "loop_inv rq"
  shows "case io_step tab h tod sock maxfd io rq of Inl e \<Rightarrow> e \<in> E
    | Inr (how, rq') \<Rightarrow> loop_inv rq' \<and> length (eq_timers (snd rq')) = length (eq_timers (snd rq))"
proof -
  obtain r0 q where rq: "rq = (r0, q)" by (cases rq)
  define r where "r = r0\<lparr>rl_now := io_now io\<rparr>"
  have r: "relay_wf r" "all_out r" using inv
    by (simp_all add: rq r_def loop_inv_def relay_wf_def faces_wf_def ifs_wf_def pit_wf_def fib_wf_def cs_wf_def nonces_wf_def face_ids_def out_faces_def all_out_def)
  have idle: "set (filter (\<lambda>i. if_qlen (rl_ifs r ! i) > 0) [0..<rl_ifcount r]) = {}"
    using r(1) by (auto simp: relay_wf_def ifs_wf_def)
  obtain w r1 q1 where e: "ccnl_run_events (length (eq_timers q) + 1) tod (relay_event tod) (r, q) = Inr (w, r1, q1)"
    "eventq_wf q1" "ageing_only q1" "length (eq_timers q1) = length (eq_timers q)"
    using run_events_ages[OF tod r(1), of q "length (eq_timers q) + 1"] inv by (auto simp: rq loop_inv_def)
  have r1: "relay_wf r1" "all_out r1" using events_all_out[OF r] e(1) by (auto simp: ccnl_run_events_def simp del: run_events_loop.simps split: prod.splits)
  note ifs = io_ifs_done[OF d r1, of sock maxfd io "set [0..<rl_ifcount r]" "[0..<length (rl_ifs r1)]"]
  show ?thesis
    using d r1 e ifs unfolding rq io_step_def prod.case Let_def r_def[symmetric] idle
    by (auto simp: all_dispatch_def loop_inv_def rx_done_def bindE_def split: sum.splits)
qed

lemma io_rounds_inv:
  assumes d: "all_dispatch tab h E" and tod: "clock_ok tod"
  shows "loop_inv rq \<Longrightarrow> case io_rounds tab h tod sock maxfd ios rq of Inl e \<Rightarrow> e \<in> E
    | Inr (how, rq') \<Rightarrow> loop_inv rq' \<and> length (eq_timers (snd rq')) = length (eq_timers (snd rq))"
proof (induction ios arbitrary: rq)
  case (Cons io ios)
  show ?case
  proof (cases "io_step tab h tod sock maxfd io rq")
    case (Inr y)
    obtain how rq1 where "y = (how, rq1)" by (cases y)
    then show ?thesis using Inr Cons.prems io_step_inv[OF d tod Cons.prems, of sock maxfd io] Cons.IH[of rq1]
      by (cases "io_rounds tab h tod sock maxfd ios rq1") (simp_all split: prod.splits)
  qed (use Cons.prems io_step_inv[OF d tod Cons.prems, of sock maxfd io] in auto)
qed simp

lemma io_loop_inv:
  assumes "all_dispatch tab h E" and "clock_ok tod" and "loop_inv rq"
  shows "case ccnl_io_loop tab h tod sock ios rq of Inl e \<Rightarrow> e \<in> E
    | Inr (how, rq') \<Rightarrow> loop_inv rq' \<and> length (eq_timers (snd rq')) = length (eq_timers (snd rq))"
  using io_rounds_inv[OF assms(1,2)] assms(3) by (simp add: ccnl_io_loop_def)

section \<open>Filling the cache\<close>

text \<open>A file whose packet has a name. The NDN parser accepts packets without one.\<close>

definition named_file :: "dir_entry \<Rightarrow> bool" where
  "named_file de \<longleftrightarrow> (\<forall>b pk. de_read de = Some b \<longrightarrow> file_pkt b = Inr (Some pk) \<longrightarrow> pkt_pfx pk \<noteq> None)"

lemma file_parse_pkt: "file_parse suite m n = Inr (pk, cur) \<Longrightarrow> pkt_pfx pk = Some p \<Longrightarrow> pkt_wf pk"
  by (cases cur) (auto simp: file_parse_def bindE_eq_Inr_iff split: if_split_asm option.split_asm
      dest!: ccnb_bytes2pkt_pkt ccntlv_bytes2pkt_pkt ndntlv_bytes2pkt_pkt)

lemma file_parse_err: "parse_err (file_parse suite m n)"
proof -
  have h: "parse_err (ccnl_ccntlv_getHdrLen m 0 n)"
    unfolding ccnl_ccntlv_getHdrLen_def Let_def by (auto intro!: parse_err_intros)
  have c: "parse_err (if (b0::byte) \<noteq> 0x04 then Inr (0::byte) else rd m 1)" for b0 by simp
  show ?thesis using h c unfolding file_parse_def by (auto intro!: parse_err_intros split: option.split)
qed

lemma file_pkt_wf: "file_pkt b = Inr (Some pk) \<Longrightarrow> pkt_pfx pk \<noteq> None \<Longrightarrow> pkt_wf pk"
  unfolding file_pkt_def
  by (cases "ccnl_pkt2suite b 0 (length b)"; elim bindE_eq_Inr_iff[THEN iffD1, elim_format] exE conjE;
      auto split: sum.split_asm if_split_asm dest: file_parse_pkt)

lemma file_pkt_err: "file_pkt b = Inl e \<Longrightarrow> e = Oob"
  using pkt2suite_err[of b 0 "length b" e] parse_errD[OF file_parse_err]
  by (cases "ccnl_pkt2suite b 0 (length b)") (auto simp: file_pkt_def split: sum.splits prod.splits if_splits)

lemma cs_upd_flags_keeps:
  assumes wf: "relay_wf r" and g: "\<And>x. c_ref (g x) = c_ref x \<and> c_pkt (g x) = c_pkt x"
  shows "keeps r (cs_upd i g r)"
proof -
  let ?u = "\<lambda>x. if c_ref x = i then g x else x"
  have u: "c_ref (?u x) = c_ref x" "c_pkt (?u x) = c_pkt x" for x using g by simp_all
  have m: "map (c_ref \<circ> ?u) xs = map c_ref xs" "map (pkt_name \<circ> c_pkt \<circ> ?u) xs = map (pkt_name \<circ> c_pkt) xs" for xs
    by (rule map_cong; simp add: u del: if_split)+
  have "\<forall>c\<in>set (map ?u xs). P (c_ref c) (c_pkt c)" if "\<forall>c\<in>set xs. P (c_ref c) (c_pkt c)" for P xs
    using that by (auto simp: g)
  from this[of "rl_contents r" "\<lambda>a b. a < rl_fresh r"] this[of "rl_contents r" "\<lambda>a b. pkt_wf b"]
  have "cs_wf (cs_upd i g r)" using wf unfolding relay_wf_def cs_wf_def cs_upd_def by (simp add: m del: set_map)
  then show ?thesis using relay_wf_cs[OF wf, of "rl_contentcnt r" "map ?u (rl_contents r)"]
    by (simp add: keeps_def cs_upd_def all_out_def face_ids_def out_faces_def)
qed

lemma populate_file_keeps:
  assumes wf: "relay_wf r" and de: "named_file de" and h: "hk_cs_remove h = None"
  shows "case populate_file h path de r of Inl e \<Rightarrow> e = Oob | Inr r' \<Rightarrow> keeps r r'"
proof -
  have "case ccnl_content_new r pk of (c, r1) \<Rightarrow> \<exists>ok r2. ccnl_content_add2cache h c r1 = Inr (ok, r2) \<and> keeps r r2"
    if "pkt_wf pk" for pk
  proof -
    obtain c r1 where c: "ccnl_content_new r pk = (c, r1)" by (cases "ccnl_content_new r pk")
    note n = content_new_wf[OF wf c]
    have f: "relay_wf r1" "fresh_content r1 c" using n that by (auto simp: keeps_def fresh_content_def)
    have "\<exists>ok r2. ccnl_content_add2cache h c r1 = Inr (ok, r2) \<and> keeps r1 r2"
      using add2cache_wf[OF f h] f(1)
      by (cases "cached_name r1 (c_pkt c)"; cases "room r1") (auto simp: keeps_def all_out_def face_ids_def out_faces_def)
    then show ?thesis using c n(1) keeps_trans by fastforce
  qed
  then have add: "\<exists>c r1 ok r2. ccnl_content_new r pk = (c, r1) \<and> ccnl_content_add2cache h c r1 = Inr (ok, r2) \<and> keeps r r2"
    if "pkt_wf pk" for pk using that by (fastforce split: prod.splits)
  have "case (bindE (file_pkt b) (\<lambda>x. case x of
                     None \<Rightarrow> Inr r
                   | Some pk \<Rightarrow> (case ccnl_content_new r pk of (c, r1) \<Rightarrow>
                       bindE (ccnl_content_add2cache h c r1) (\<lambda>(ok, r2).
                         Inr (cs_upd (c_ref c) (\<lambda>x. x\<lparr>c_flags := c_flags x OR CCNL_CONTENT_FLAGS_STATIC\<rparr>) r2))))) of
     Inl e \<Rightarrow> e = Oob | Inr r' \<Rightarrow> keeps r r'" if b: "de_read de = Some b" for b
  proof (cases "file_pkt b")
    case (Inr x)
    show ?thesis
    proof (cases x)
      case (Some pk)
      then have "pkt_wf pk" using de b Inr file_pkt_wf[of b pk] by (simp add: named_file_def)
      from add[OF this] obtain c r1 ok r2 where a: "ccnl_content_new r pk = (c, r1)" "ccnl_content_add2cache h c r1 = Inr (ok, r2)" "keeps r r2"
        by blast
      have "keeps r2 (cs_upd (c_ref c) (\<lambda>x. x\<lparr>c_flags := c_flags x OR CCNL_CONTENT_FLAGS_STATIC\<rparr>) r2)"
        by (rule cs_upd_flags_keeps) (use a(3) in \<open>simp_all add: keeps_def\<close>)
      then show ?thesis using Inr Some a keeps_trans by simp
    qed (use Inr keeps_refl[OF wf] in simp)
  qed (use file_pkt_err in simp)
  then show ?thesis using keeps_refl[OF wf] by (auto simp: populate_file_def split: option.split)
qed

lemma populate_keeps:
  assumes h: "hk_cs_remove h = None"
  shows "relay_wf r \<Longrightarrow> list_all named_file des \<Longrightarrow>
    (case ccnl_populate_cache h path des r of Inl e \<Rightarrow> e = Oob | Inr r' \<Rightarrow> keeps r r')"
proof (induction des arbitrary: r)
  case Nil
  then show ?case by (simp add: keeps_refl)
next
  case (Cons de des)
  have p: "case populate_file h path de r of Inl e \<Rightarrow> e = Oob | Inr r' \<Rightarrow> keeps r r'"
    using Cons.prems by (intro populate_file_keeps h) simp_all
  show ?case
  proof (cases "populate_file h path de r")
    case (Inr r1)
    then have "keeps r r1" using p by simp
    then show ?thesis using Inr Cons.IH[of r1] Cons.prems(2) keeps_trans[of r r1]
      by (auto simp: keeps_def split: sum.splits)
  qed (use p in simp)
qed

end
