(* ===== verification/Relay_Main.thy ===== *)
theory Relay_Main
  imports Unix_Inv
begin

text \<open>
  The relay as a program, \<open>main\<close> of \<open>ccnl-relay/ccn-lite-relay.c\<close>: the options, and the order in
  which the relay is configured, its cache filled, the main loop run and everything freed.

  \<^item> \<open>getopt\<close> hands the options over one by one as pairs of a character and an argument.
  \<^item> The status page over HTTP, the level of the logging and the two intervals (which nothing
    reads) are kept as numbers only.
\<close>

section \<open>Options\<close>

record relay_opts =
  ro_cache :: int
  ro_http :: int
  ro_udp :: "int \<times> int"
  ro_udp6 :: "int \<times> int"
  ro_datadir :: "bytes option"
  ro_ethdev :: "bytes option"
  ro_crypto :: "bytes option"
  ro_uxpath :: "bytes option"
  ro_suite :: int
  ro_pkt_interval :: int
  ro_ccn_interval :: int

definition relay_defaults :: relay_opts where
  "relay_defaults = \<lparr>ro_cache = -1, ro_http = -1, ro_udp = (-1, -1), ro_udp6 = (-1, -1), ro_datadir = None, ro_ethdev = None,
     ro_crypto = None, ro_uxpath = Some (lit ''/tmp/.ccnl.sock''), ro_suite = CCNL_SUITE_NDNTLV, ro_pkt_interval = 0, ro_ccn_interval = 0\<rparr>"

text \<open>A number for an \<open>int\<close>.\<close>

definition int_arg :: "bytes \<Rightarrow> int option" where
  "int_arg a = (case strtol 10 a of (v, erange) \<Rightarrow>
     if erange \<or> v < - (2 ^ 31) \<or> v > 2 ^ 31 - 1 then None else Some v)"

text \<open>The first port until it is set, then the second one.\<close>

definition port_arg :: "int \<times> int \<Rightarrow> bytes \<Rightarrow> (int \<times> int) option" where
  "port_arg pp a = map_option (\<lambda>v. if fst pp = -1 then (v, snd pp) else (fst pp, v)) (int_arg a)"

text \<open>One option. \<open>None\<close> prints the usage and ends the program.\<close>

definition relay_opt :: "byte \<times> bytes \<Rightarrow> relay_opts \<Rightarrow> relay_opts option" where
  "relay_opt oa ro = (case oa of (c, a) \<Rightarrow>
     if [c] = lit ''c'' then map_option (\<lambda>v. ro\<lparr>ro_cache := v\<rparr>) (int_arg a)
     else if [c] = lit ''d'' then Some (ro\<lparr>ro_datadir := Some a\<rparr>)
     else if [c] = lit ''e'' then Some (ro\<lparr>ro_ethdev := Some a\<rparr>)
     else if [c] = lit ''g'' then map_option (\<lambda>v. ro\<lparr>ro_pkt_interval := v\<rparr>) (int_arg a)
     else if [c] = lit ''i'' then map_option (\<lambda>v. ro\<lparr>ro_ccn_interval := v\<rparr>) (int_arg a)
     else if [c] = lit ''p'' then Some (ro\<lparr>ro_crypto := Some a\<rparr>)
     else if [c] = lit ''s'' then
       (let s = ccnl_str2suite (Some (map (\<lambda>b. char_of (unat b)) a)) in if ccnl_isSuite s then Some (ro\<lparr>ro_suite := s\<rparr>) else None)
     else if [c] = lit ''t'' then map_option (\<lambda>v. ro\<lparr>ro_http := v\<rparr>) (int_arg a)
     else if [c] = lit ''u'' then map_option (\<lambda>pp. ro\<lparr>ro_udp := pp\<rparr>) (port_arg (ro_udp ro) a)
     else if [c] = lit ''6'' then map_option (\<lambda>pp. ro\<lparr>ro_udp6 := pp\<rparr>) (port_arg (ro_udp6 ro) a)
     else if [c] = lit ''v'' then
       (if a \<noteq> [] \<and> digit_val (hd a) < 10 then map_option (\<lambda>_. ro) (int_arg a) else Some ro)
     else if [c] = lit ''x'' then Some (ro\<lparr>ro_uxpath := Some a\<rparr>)
     else None)"

fun relay_options :: "(byte \<times> bytes) list \<Rightarrow> relay_opts \<Rightarrow> relay_opts option" where
  "relay_options [] ro = Some ro"
| "relay_options (oa # oas) ro = (case relay_opt oa ro of None \<Rightarrow> None | Some ro1 \<Rightarrow> relay_options oas ro1)"

text \<open>The ports that were not given.\<close>

definition default_ports :: "relay_opts \<Rightarrow> relay_opts" where
  "default_ports ro = (let p = ccnl_suite2defaultPort (ro_suite ro) in
     ro\<lparr>ro_udp := (if fst (ro_udp ro) < 0 then p else fst (ro_udp ro), snd (ro_udp ro)),
        ro_http := (if ro_http ro < 0 then p else ro_http ro)\<rparr>)"

section \<open>The program\<close>

text \<open>What the system answers while the program runs.\<close>

record world =
  wo_eth :: oscalls
  wo_udp :: "oscalls \<times> oscalls"
  wo_udp6 :: "oscalls \<times> oscalls"
  wo_ux :: oscalls
  wo_clock :: "nat \<Rightarrow> timeval"
  wo_sock :: "nat \<Rightarrow> int"
  wo_dir :: "dir_entry list option"
  wo_rounds :: "io_round list"

definition relay_cf :: "world \<Rightarrow> relay_opts \<Rightarrow> unix_config" where
  "relay_cf w ro = \<lparr>cf_ethdev = (ro_ethdev ro \<noteq> None), cf_udp = ro_udp ro, cf_udp6 = ro_udp6 ro, cf_uxpath = ro_uxpath ro,
     cf_suite = ro_suite ro, cf_max_cache = ro_cache ro, cf_os_eth = wo_eth w, cf_os_udp = wo_udp w, cf_os_udp6 = wo_udp6 w,
     cf_os_ux = wo_ux w\<rparr>"

text \<open>Emptying the queue from its head, as often as it has timers.\<close>

primrec rem_timers :: "nat \<Rightarrow> 'f eventq \<Rightarrow> 'f eventq" where
  "rem_timers 0 q = q"
| "rem_timers (Suc n) q = (case eq_timers q of [] \<Rightarrow> q | t # ts \<Rightarrow> rem_timers n (ccnl_rem_timer (tm_ref t) q))"

datatype relay_end =
    Usage
  | Exit
  | Running "relay \<times> event eventq"
  | Done "relay \<times> event eventq"

definition relay_main :: "suite_table \<Rightarrow> hooks \<Rightarrow> world \<Rightarrow> (byte \<times> bytes) list \<Rightarrow> relay \<Rightarrow> relay_end res" where
  "relay_main tab h w args r = (case relay_options args relay_defaults of
      None \<Rightarrow> Inr Usage
    | Some ro0 \<Rightarrow> let ro = default_ports ro0 in
        bindE (ccnl_relay_config (wo_clock w) (relay_cf w ro) (r, \<lparr>eq_timers = [], eq_fresh = 0, eq_calls = 0\<rparr>)) (\<lambda>(r1, q1).
        bindE (case (ro_datadir ro, wo_dir w) of (Some path, Some des) \<Rightarrow> ccnl_populate_cache h path des r1 | _ \<Rightarrow> Inr r1) (\<lambda>r2.
        bindE (ccnl_io_loop tab h (wo_clock w) (wo_sock w) (wo_rounds w) (r2, q1)) (\<lambda>(how, r3, q3).
          if how = Io_exit then Inr Exit
          else if \<not> rl_halt r3 then Inr (Running (r3, q3))
          else bindE (ccnl_core_cleanup r3) (\<lambda>r4. Inr (Done (r4, rem_timers (length (eq_timers q3)) q3)))))))"

lemma rem_timers_all: "length (eq_timers q) \<le> n \<Longrightarrow> eq_timers (rem_timers n q) = []"
  by (induction n arbitrary: q) (auto simp: ccnl_rem_timer_def split: list.split)

section \<open>Running the relay\<close>

lemma managed_dispatch: "all_dispatch (ccnl_core_init env) (hooks_unset (mgmt_hook h menv) digest behind) {Oob, Null, Uaf}"
proof -
  have "{Uaf, Oob, Null, Uaf, Oob, Null} = {Oob, Null, Uaf}" by auto
  then show ?thesis using managed.core_init_upto(1)[of env] by (simp add: all_dispatch_def)
qed

lemma managed_no_removal: "hk_cs_remove (hooks_unset m digest behind) = None"
  by (simp add: hooks_unset_def)

lemma populate_named:
  assumes "relay_wf r" "all_out r" "\<forall>des. dir = Some des \<longrightarrow> list_all named_file des" "hk_cs_remove h = None"
  shows "case (case (path, dir) of (Some p, Some des) \<Rightarrow> ccnl_populate_cache h p des r | _ \<Rightarrow> Inr r) of
    Inl e \<Rightarrow> e = Oob | Inr r' \<Rightarrow> relay_wf r' \<and> all_out r'"
proof (cases path; cases dir)
  fix p des assume pd: "path = Some p" "dir = Some des"
  then have "case ccnl_populate_cache h p des r of Inl e \<Rightarrow> e = Oob | Inr r' \<Rightarrow> keeps r r'"
    using assms by (intro populate_keeps) simp_all
  then show ?thesis using pd assms(2) by (simp add: keeps_def split: sum.splits)
qed (use assms in simp_all)

text \<open>What a run may come to. \<open>ro\<close> are the options, when they can be read.\<close>

definition main_ok :: "relay_opts option \<Rightarrow> relay_end res \<Rightarrow> bool" where
  "main_ok ro x \<longleftrightarrow> (case x of Inl e \<Rightarrow> e \<in> {Oob, Null, Uaf} | Inr Usage \<Rightarrow> ro = None | Inr Exit \<Rightarrow> ro \<noteq> None
     | Inr (Running rq) \<Rightarrow> loop_inv rq \<and> eq_timers (snd rq) \<noteq> []
     | Inr (Done rq) \<Rightarrow> relay_wf (fst rq) \<and> rl_faces (fst rq) = [] \<and> rl_fib (fst rq) = [] \<and> rl_pit (fst rq) = []
         \<and> rl_contents (fst rq) = [] \<and> eq_timers (snd rq) = [])"

lemma relay_main_inv:
  assumes d: "all_dispatch tab h {Oob, Null, Uaf}" and h: "hk_cs_remove h = None"
    and b: "blank r" "rl_ifcount r = 0" and tod: "clock_ok (wo_clock w)" and dir: "\<forall>des. wo_dir w = Some des \<longrightarrow> list_all named_file des"
  shows "main_ok (relay_options args relay_defaults) (relay_main tab h w args r)"
proof (cases "relay_options args relay_defaults")
  case (Some ro0)
  let ?ro = "default_ports ro0"
  let ?q0 = "\<lparr>eq_timers = [], eq_fresh = 0, eq_calls = 0\<rparr> :: event eventq"
  have q0: "eventq_wf ?q0" "ageing_only ?q0" by (simp_all add: eventq_wf_def ageing_only_def)
  obtain r1 q1 where r1: "ccnl_relay_config (wo_clock w) (relay_cf w ?ro) (r, ?q0) = Inr (r1, q1)" "relay_wf r1" "all_out r1"
    "eventq_wf q1" "ageing_only q1" "length (eq_timers q1) = 1" using config_consistent[OF b tod q0, of "relay_cf w ?ro"] by auto
  note p = populate_named[OF r1(2,3) dir h, of "ro_datadir ?ro"]
  let ?p = "case (ro_datadir ?ro, wo_dir w) of (Some path, Some des) \<Rightarrow> ccnl_populate_cache h path des r1 | _ \<Rightarrow> Inr r1"
  show ?thesis
  proof (cases ?p)
    case (Inl e)
    then show ?thesis using Some r1(1) p by (simp add: relay_main_def main_ok_def Let_def)
  next
    case (Inr r2)
    then have i: "loop_inv (r2, q1)" using p r1 by (simp add: loop_inv_def)
    note l = io_loop_inv[OF d tod i, of "wo_sock w" "wo_rounds w"]
    show ?thesis
    proof (cases "ccnl_io_loop tab h (wo_clock w) (wo_sock w) (wo_rounds w) (r2, q1)")
      case (Inr y)
      obtain how r3 q3 where y: "y = (how, r3, q3)" by (cases y)
      have i3: "loop_inv (r3, q3)" "eq_timers q3 \<noteq> []" using l Inr y r1(6) by auto
      then obtain r4 where "ccnl_core_cleanup r3 = Inr r4" "relay_wf r4" "rl_pit r4 = []" "rl_faces r4 = []" "rl_fib r4 = []" "rl_contents r4 = []"
        using core_cleanup_wf[of r3] by (auto simp: loop_inv_def)
      then show ?thesis using Some r1(1) \<open>?p = Inr r2\<close> Inr y i3
        by (simp add: relay_main_def main_ok_def Let_def rem_timers_all)
    qed (use Some r1(1) \<open>?p = Inr r2\<close> l in \<open>simp add: relay_main_def main_ok_def Let_def\<close>)
  qed
qed (simp add: relay_main_def main_ok_def)


text \<open>One UDP socket that opens, two named files of which one is a directory, and a frame.\<close>

definition sample_oscalls :: "int \<Rightarrow> oscalls" where
  "sample_oscalls s = \<lparr>os_socket = s, os_hwaddr = None, os_ifindex = True, os_bind = True, os_sockname = None, os_broadcast = True\<rparr>"

definition sample_world :: world where
  "sample_world = \<lparr>wo_eth = sample_oscalls (-1), wo_udp = (sample_oscalls 3, sample_oscalls (-1)),
     wo_udp6 = (sample_oscalls (-1), sample_oscalls (-1)), wo_ux = sample_oscalls 4, wo_clock = sample_clock,
     wo_sock = (\<lambda>i. int i + 3),
     wo_dir = Some [\<lparr>de_name = lit ''sub'', de_stat = Some (True, 4096), de_fd = 5, de_read = None\<rparr>,
                    \<lparr>de_name = lit ''a'', de_stat = Some (False, 2), de_fd = 5, de_read = Some [0x05, 0x00]\<rparr>],
     wo_rounds = [\<lparr>io_now = 7, io_select = True, io_frame = (\<lambda>i. Some ([0x04, 0x82, 0x00], 3, Su_ip4 0x7f000001 9000)),
                   io_writable = (\<lambda>_. True)\<rparr>]\<rparr>"

lemma sample_clock_ok: "clock_ok sample_clock"
  by (auto simp: clock_ok_def sample_clock_def less_eq_timeval_def tv_ok_def)


end
