(* ===== verification/Mgmt_Props.thy ===== *)
theory Mgmt_Props
  imports Mgmt_Inv Samples
begin

text \<open>
  What the management commands do to the relay, beside keeping it consistent: replies only leave on
  the face the request came from, a request from elsewhere changes nothing, \<open>prefixreg\<close> appends to the forwarding
  table, and what the listing of the faces shows.
\<close>

section \<open>Replies\<close>

text \<open>On return, nothing but the output has changed, and all of it went to the face \<open>f\<close>.\<close>

definition replies :: "faceref \<Rightarrow> relay \<Rightarrow> (int \<times> relay) res \<Rightarrow> bool" where
  "replies f r x \<longleftrightarrow> (case x of Inl e \<Rightarrow> True
     | Inr (rc, r') \<Rightarrow> out_only r r' \<and> (\<exists>bs. rl_tx r' = rl_tx r @ concat (map (\<lambda>b. tx_to r b f) bs)))"

lemma replies_simps [simp]: "replies f r (Inl e)" "replies f r (Inr (rc, r))"
  by (auto simp: replies_def intro: exI[of _ "[]"])

lemma replies_then: "replies f r x \<Longrightarrow> replies f r (bindE x (\<lambda>(rc, r1). Inr (g rc, r1)))"
  by (auto simp: replies_def bindE_def split: sum.splits)

lemma tx_to_out_only: "out_only r r' \<Longrightarrow> tx_to r' b f = tx_to r b f"
  by (simp add: tx_to_def out_only_fields)

lemma replies_trans:
  assumes "replies f r x" and "\<And>rc r1. x = Inr (rc, r1) \<Longrightarrow> replies f r1 (k rc r1)"
  shows "replies f r (bindE x (\<lambda>(rc, r1). k rc r1))"
proof (cases x)
  case (Inr y)
  obtain rc r1 where y: "y = (rc, r1)" by (cases y)
  obtain bs where 1: "out_only r r1" "rl_tx r1 = rl_tx r @ concat (map (\<lambda>b. tx_to r b f) bs)" using assms(1) Inr y by (auto simp: replies_def)
  show ?thesis
  proof (cases "k rc r1")
    case (Inr z)
    obtain rc2 r2 where z: "z = (rc2, r2)" by (cases z)
    obtain cs where 2: "out_only r1 r2" "rl_tx r2 = rl_tx r1 @ concat (map (\<lambda>b. tx_to r1 b f) cs)"
      using assms(2) \<open>x = Inr y\<close> y Inr z by (auto simp: replies_def)
    have "rl_tx r2 = rl_tx r @ concat (map (\<lambda>b. tx_to r b f) (bs @ cs))" using 1 2 tx_to_out_only[OF 1(1)] by simp
    then show ?thesis using out_only_trans[OF 1(1) 2(1)]
      unfolding replies_def \<open>x = Inr y\<close> y bindE_simps prod.case Inr z sum.case by blast
  qed (use Inr y in simp)
qed simp

lemma replies_enqueue: "relay_wf r \<Longrightarrow> f \<in> face_ids r \<Longrightarrow> replies f r (ccnl_face_enqueue f (Some b) r)"
  using enqueue_any[of r f b] by (auto simp: replies_def intro!: exI[of _ "[b]"])

lemma out_only_live: "out_only r r' \<Longrightarrow> relay_wf r \<and> f \<in> face_ids r \<Longrightarrow> relay_wf r' \<and> f \<in> face_ids r'"
  using out_only_wf by (simp add: out_only_fields)

lemma replies_split: "relay_wf r \<and> f \<in> face_ids r \<Longrightarrow> replies f r (split_loop h tmp f n buf its r)"
proof (induction its arbitrary: r)
  case (Cons it its)
  have "replies f r (bindE (ccnl_face_enqueue f (Some b) r) (\<lambda>(rc, r1). split_loop h tmp f n buf its r1))" for b
  proof (rule replies_trans)
    show e: "replies f r (ccnl_face_enqueue f (Some b) r)" using Cons.prems by (simp add: replies_enqueue)
    show "replies f r1 (split_loop h tmp f n buf its r1)" if "ccnl_face_enqueue f (Some b) r = Inr (rc, r1)" for rc r1
      using Cons.IH out_only_live[OF _ Cons.prems, of r1] e that by (simp add: replies_def)
  qed
  then show ?case by (simp add: or_bail_def ccnb_simple_content Let_def split: sum.split)
qed simp

lemma replies_send: "relay_wf r \<and> f \<in> face_ids r \<Longrightarrow> replies f r (mgmt_send h env f msg r)"
  using replies_then[OF replies_split, of r f]
  by (simp add: mgmt_send_def ccnl_mgmt_send_return_split_def Let_def split: sum.split)

lemma replies_return: "relay_wf r \<and> f \<in> face_ids r \<Longrightarrow> replies f r (ccnl_mgmt_return_ccn_msg h env f c a r)"
  unfolding ccnl_mgmt_return_ccn_msg_def by (rule replies_send)

section \<open>Requests from elsewhere\<close>

text \<open>
  C25. A management request whose face has a peer that is not on this host is refused: whatever the
  command, it changes no table, no interface and no flag; all it can do is have an answer sent on that
  same face, and the return code says that it failed.
\<close>

theorem remote_request_refused:
  assumes "relay_wf r" and "f \<in> out_faces r" and "face_get r f = Inr fc" and "ccnl_is_local_addr (Some (f_peer fc)) = 0"
  shows "case ccnl_mgmt h env r orig p (Some f) of
      Inl e \<Rightarrow> e \<in> {Oob, Null, Uaf}
    | Inr (rc, r') \<Rightarrow> rc = -1 \<and> out_only r r' \<and> (\<exists>bs. rl_tx r' = rl_tx r @ concat (map (\<lambda>b. tx_to r b f) bs))"
proof -
  have f: "f \<in> face_ids r" using assms(2) by (auto simp: out_faces_def face_ids_def)
  define cmd where "cmd = (if length (pfx_comp p ! 2) < 1000 then c_str (pfx_comp p ! 2) else lit ''cmd-is-too-long-to-display'')"
  let ?x = "ccnl_mgmt_return_ccn_msg h env f cmd (lit ''refused: origin of mgmt cmd is not local'') r"
  have x: "ccnl_mgmt h env r orig p (Some f) = (if 2 < compcnt p then bindE ?x (\<lambda>(rc, r1). Inr (-1, r1)) else Inl Oob)"
    using assms(3,4) by (simp add: ccnl_mgmt_def Let_def cmd_def)
  have "replies f r ?x" using assms(1) f by (simp add: replies_return)
  moreover have "handled mgmt_faults False f ?x" using assms(1) f by (intro return_handled) (simp add: live_def)
  ultimately show ?thesis unfolding x by (cases ?x) (auto simp: replies_def handled_def split: if_splits)
qed

theorem remote_request_refused_witness:
  "\<forall>h env orig p. case ccnl_mgmt h env (sample_relay [] 0) orig p (Some 1) of
      Inl e \<Rightarrow> e \<in> {Oob, Null, Uaf}
    | Inr (rc, r') \<Rightarrow> rc = -1 \<and> out_only (sample_relay [] 0) r'
        \<and> (\<exists>bs. rl_tx r' = rl_tx (sample_relay [] 0) @ concat (map (\<lambda>b. tx_to (sample_relay [] 0) b 1) bs))"
proof (intro allI)
  fix h env orig p
  have "relay_wf (sample_relay [] 0)" by (rule sample_wf) simp_all
  moreover have "1 \<in> out_faces (sample_relay [] 0)" by simp
  moreover have "face_get (sample_relay [] 0) 1 = Inr (face_of 1 0 (Su_ip4 10 1000))" by (simp add: face_get_def)
  moreover have "ccnl_is_local_addr (Some (f_peer (face_of 1 0 (Su_ip4 10 1000)))) = 0" by code_simp
  ultimately show "case ccnl_mgmt h env (sample_relay [] 0) orig p (Some 1) of
      Inl e \<Rightarrow> e \<in> {Oob, Null, Uaf}
    | Inr (rc, r') \<Rightarrow> rc = -1 \<and> out_only (sample_relay [] 0) r'
        \<and> (\<exists>bs. rl_tx r' = rl_tx (sample_relay [] 0) @ concat (map (\<lambda>b. tx_to (sample_relay [] 0) b 1) bs))"
    by (rule remote_request_refused)
qed

section \<open>Registering a prefix\<close>

text \<open>The entry a successful request makes.\<close>

definition new_entry :: "relay \<Rightarrow> forward list \<Rightarrow> bool" where
  "new_entry r es \<longleftrightarrow> es = [] \<or> (\<exists>fw p f. es = [fw] \<and> fw_prefix fw = Some p \<and> fw_face fw = Some f \<and> f \<in> face_ids r \<and> fw_tap fw = None)"

lemma enter_appends:
  assumes "prefixreg_enter m v comps r = Inr (entered, suite, r1)"
  shows "\<exists>es. new_entry r es \<and> r1 = r\<lparr>rl_fib := rl_fib r @ es\<rparr> \<and> (entered \<longleftrightarrow> es \<noteq> [])"
proof (cases entered)
  case False
  then have "r1 = r" using assms by (auto simp: prefixreg_enter_def bindE_eq_Inr_iff split: option.splits if_splits prod.splits)
  then show ?thesis using False by (intro exI[of _ "[]"]) (simp add: new_entry_def)
next
  case True
  then obtain i g p fw where g: "face_by_id r i = Some g" "r1 = r\<lparr>rl_fib := rl_fib r @ [fw]\<rparr>"
    "fw = \<lparr>fw_prefix = Some (ccnl_prefix_dup p), fw_tap = None, fw_face = Some g, fw_suite = suite\<rparr>"
    using assms by (auto simp: prefixreg_enter_def bindE_eq_Inr_iff split: option.splits if_splits prod.splits)
  then have "new_entry r [fw]" using face_by_id[OF g(1)] by (simp add: new_entry_def)
  then show ?thesis using True g(2) by blast
qed

lemma prefixreg_returns:
  assumes "ccnl_mgmt_prefixreg h env m len f r = Inr (rc, r')"
  shows "r' = r \<or> (\<exists>cp v p. prefixreg_reply h env f cp v p r = Inr (rc, r'))
    \<or> (\<exists>v comps entered suite r1 cp p. prefixreg_enter m v comps r = Inr (entered, suite, r1)
         \<and> prefixreg_reply h env f cp v p r1 = Inr (rc, r') \<and> (entered \<longrightarrow> rc = 0))"
proof -
  have ret: "bindE a (\<lambda>(rc, r2). if rc \<noteq> 0 \<and> entered then Inl Uaf else Inr (rc, r2)) = Inr (rc, r') \<Longrightarrow> a = Inr (rc, r') \<and> (entered \<longrightarrow> rc = 0)"
    for a :: "(int \<times> relay) res" and entered by (cases a) (auto split: if_splits)
  obtain x where k: "(case x of
      None \<Rightarrow> prefixreg_reply h env f (lit ''prefixreg cmd failed'') Map.empty (Inl Null) r
    | Some cur \<Rightarrow>
        bindE (mgmt_reg_fields m [CCN_DTAG_ACTION, CCN_DTAG_FACEID, CCNL_DTAG_SUITE] cur Map.empty []) (\<lambda>(how, v, comps).
        if how = Hard then Inr (-1, r)
        else bindE (if how = Ended then prefixreg_enter m v comps r else Inr (False, 0, r)) (\<lambda>(entered, suite, r1).
          let cp = (if entered then lit ''prefixreg cmd worked'' else lit ''prefixreg cmd failed'') in
          bindE (prefixreg_reply h env f cp v (reg_prefix m suite comps) r1) (\<lambda>(rc, r2).
            if rc \<noteq> 0 \<and> entered then Inl Uaf else Inr (rc, r2))))) = Inr (rc, r')"
    using assms unfolding ccnl_mgmt_prefixreg_def bindE_eq_Inr_iff by blast
  show ?thesis
  proof (cases x)
    case None
    then show ?thesis using k by auto
  next
    case (Some cur)
    obtain how v comps where k2: "(if how = Hard then Inr (-1, r)
        else bindE (if how = Ended then prefixreg_enter m v comps r else Inr (False, 0, r)) (\<lambda>(entered, suite, r1).
          let cp = (if entered then lit ''prefixreg cmd worked'' else lit ''prefixreg cmd failed'') in
          bindE (prefixreg_reply h env f cp v (reg_prefix m suite comps) r1) (\<lambda>(rc, r2).
            if rc \<noteq> 0 \<and> entered then Inl Uaf else Inr (rc, r2)))) = Inr (rc, r')"
      using k unfolding Some option.case bindE_eq_Inr_iff by (fastforce simp only: split_paired_Ex prod.case)
    show ?thesis
    proof (cases "how = Ended")
      case True
      then obtain entered suite r1 where e: "prefixreg_enter m v comps r = Inr (entered, suite, r1)"
        using k2 by (cases "prefixreg_enter m v comps r") auto
      have "bindE (prefixreg_reply h env f (if entered then lit ''prefixreg cmd worked'' else lit ''prefixreg cmd failed'') v (reg_prefix m suite comps) r1)
            (\<lambda>(rc, r2). if rc \<noteq> 0 \<and> entered then Inl Uaf else Inr (rc, r2)) = Inr (rc, r')" using k2 True e by simp
      from ret[OF this] e show ?thesis by blast
    next
      case False
      show ?thesis
      proof (cases "how = Hard")
        case False
        then have "bindE (prefixreg_reply h env f (lit ''prefixreg cmd failed'') v (reg_prefix m 0 comps) r)
            (\<lambda>(rc, r2). if rc \<noteq> 0 \<and> False then Inl Uaf else Inr (rc, r2)) = Inr (rc, r')" using k2 \<open>how \<noteq> Ended\<close> by simp
        from ret[OF this] show ?thesis by blast
      qed (use k2 in simp)
    qed
  qed
qed

lemma replies_reply: "relay_wf r \<and> f \<in> face_ids r \<Longrightarrow> replies f r (prefixreg_reply h env f cp v p r)"
  unfolding prefixreg_reply_def using replies_send replies_then[OF replies_return] by (simp split: option.split)

text \<open>The small relay of the examples without its local client, and without the Interest that waits for it.\<close>

definition remote_relay :: relay where
  "remote_relay = (sample_relay [] 0)\<lparr>rl_faces := [face_of 1 0 (Su_ip4 10 1000), face_of 2 0 (Su_ip4 20 1000)],
     rl_pit := [], rl_pitcnt := 0\<rparr>"

lemma remote_faces [simp]: "face_ids remote_relay = {1, 2}" "out_faces remote_relay = {1, 2}"
  unfolding face_ids_def out_faces_def set_filter[symmetric] remote_relay_def by simp_all

lemma remote_wf: "relay_wf remote_relay"
  using sample_wf[of "[]" 0] remote_faces by (simp add: remote_relay_def relay_wf_def faces_wf_def pit_wf_def fib_wf_def cs_wf_def nonces_wf_def ifs_wf_def)



section \<open>Listing the faces\<close>

text \<open>What the listing should say of a peer: the tag of its kind and its address.\<close>

definition peer_shown :: "face \<Rightarrow> u64 \<times> bytes \<Rightarrow> bool" where
  "peer_shown f t \<longleftrightarrow> (\<exists>a. ccnl_addr2ascii (Some (f_peer f)) = Inr (Some a) \<and> snd t = a @ [0] \<and>
     fst t = (case su_family (f_peer f) of AF_INET \<Rightarrow> 99206 | AF_PACKET \<Rightarrow> 99207 | AF_UNIX \<Rightarrow> 99208 | _ \<Rightarrow> 99209))"

text \<open>
  C38. The listing of the faces names the peer of a face on a local or a hardware address, and the peer of
  no face on an IP address: \<open>get_faces_dump\<close> overwrites the family of an IPv4 address, and the statement has no case for
  IPv6, so that both are shown as \<open>peer=?\<close>.
\<close>

theorem ip_peers_not_listed:
  assumes "get_faces_dump env prev fs = Inr ds" and "i < length fs"
  shows "length ds = length fs
    \<and> (su_family (f_peer (fs ! i)) \<in> {AF_INET, AF_INET6} \<longrightarrow> peer_field (ds ! i) = (99209, lit ''peer=?'' @ [0]))
    \<and> (su_family (f_peer (fs ! i)) \<in> {AF_UNIX, AF_PACKET} \<longrightarrow> peer_shown (fs ! i) (peer_field (ds ! i)))"
  using assms
proof (induction env prev fs arbitrary: ds i rule: get_faces_dump.induct)
  case (2 env prev f fs)
  obtain a ds1 where a: "ccnl_addr2ascii (Some (f_peer f)) = Inr (Some a)"
    and d: "get_faces_dump env (du_addr env (D_face (f_faceid f))) fs = Inr ds1" and n: "\<not> length a + 1 > 50"
    and ds: "tl ds = ds1" "ds \<noteq> []" "fd_peer (hd ds) = a @ [0]"
      "fd_type (hd ds) = (if su_family (f_peer f) \<in> {AF_INET6, AF_PACKET, AF_UNIX} then su_family (f_peer f) else AF_UNSPEC)"
    using 2(2) by (auto simp: bindE_eq_Inr_iff deref_def split: if_splits option.splits)
  have l: "length ds1 = length fs"
  proof (cases fs)
    case (Cons g gs)
    then show ?thesis using 2(1)[of "a" ds1 0] a d n by auto
  qed (use d in simp)
  obtain d0 where ds': "ds = d0 # ds1" using ds(1,2) by (cases ds) auto
  show ?case
  proof (cases i)
    case 0
    then show ?thesis using a ds(3,4) ds' l by (auto simp: peer_field_def peer_shown_def z_str_def)
  next
    case (Suc i1)
    then show ?thesis using 2(1)[of "a" ds1 i1] a d n 2(3) l ds' by auto
  qed
qed simp

theorem ip_peers_not_listed_witness:
  "\<forall>env. \<exists>d1 d2. get_faces_dump env 0
      [\<lparr>f_faceid = 7, f_ifndx = 0, f_peer = Su_ip4 0x7f000001 9000, f_flags = 0, f_last_used = 0, f_outq = []\<rparr>,
       \<lparr>f_faceid = 8, f_ifndx = 1, f_peer = Su_unix (lit ''/tmp/x''), f_flags = 0, f_last_used = 0, f_outq = []\<rparr>] = Inr [d1, d2]
    \<and> peer_field d1 = (99209, lit ''peer=?'' @ [0])
    \<and> peer_shown \<lparr>f_faceid = 8, f_ifndx = 1, f_peer = Su_unix (lit ''/tmp/x''), f_flags = 0, f_last_used = 0, f_outq = []\<rparr> (peer_field d2)"
proof
  fix env
  let ?f7 = "\<lparr>f_faceid = 7, f_ifndx = 0, f_peer = Su_ip4 0x7f000001 9000, f_flags = 0, f_last_used = 0, f_outq = []\<rparr> :: face"
  let ?f8 = "\<lparr>f_faceid = 8, f_ifndx = 1, f_peer = Su_unix (lit ''/tmp/x''), f_flags = 0, f_last_used = 0, f_outq = []\<rparr> :: face"
  let ?fs = "[?f7, ?f8]"
  have a: "ccnl_addr2ascii (Some (Su_ip4 0x7f000001 9000)) = Inr (Some (lit ''127.0.0.1/9000''))"
    "ccnl_addr2ascii (Some (Su_unix (lit ''/tmp/x''))) = Inr (Some (lit ''/tmp/x''))" by code_simp+
  have l: "length (lit ''127.0.0.1/9000'') = 14" "length (lit ''/tmp/x'') = 6" by code_simp+
  obtain ds where d: "get_faces_dump env 0 ?fs = Inr ds" by (simp add: a l del: ccnl_addr2ascii.simps)
  have "length ds = 2" using ip_peers_not_listed[OF d, of 0] by simp
  then obtain d1 d2 where "ds = [d1, d2]" by (auto simp: length_Suc_conv numeral_2_eq_2)
  then show "\<exists>d1 d2. get_faces_dump env 0 ?fs = Inr [d1, d2] \<and> peer_field d1 = (99209, lit ''peer=?'' @ [0]) \<and> peer_shown ?f8 (peer_field d2)"
    using d ip_peers_not_listed[OF d, of 0] ip_peers_not_listed[OF d, of 1] by simp
qed

end
