(* ===== verification/Frag.thy ===== *)
theory Frag
  imports Tables Ccntlv_Enc Ccntlv_Dec Ndntlv_Enc Sockunion Builder
begin

text \<open>
  Fragmentation, \<open>ccnl-core/src/ccnl-frag.c\<close> with the routines of \<open>ccnl-pkt-ccntlv.c\<close>,
  \<open>ccnl-pkt-ndntlv.c\<close>, \<open>ccnl-fwd.c\<close> and \<open>ccnl-relay.c\<close> that \<open>USE_FRAG\<close> switches on. The default build
  leaves them out, so they stand beside the relay: the fields a face gets with them are a record of their own.

  \<^item> Of the four protocols \<open>Begin-End\<close> is the one the code compiles; the others are marked obsolete.
    The fields that only those use (\<open>losscount\<close> and the widths of the fields) are left out.
  \<^item> What is done with a packet that is complete again is an argument, the callback of the C code. It gets
    the memory, the cursor and the state, which includes the fragments of the face.
\<close>

section \<open>The state of a face\<close>

abbreviation (input) CCNL_FRAG_NONE :: int where "CCNL_FRAG_NONE \<equiv> 0"
abbreviation (input) CCNL_FRAG_BEGINEND2015 :: int where "CCNL_FRAG_BEGINEND2015 \<equiv> 4"
abbreviation (input) CCNL_BEFRAG_FLAG_MID :: u16 where "CCNL_BEFRAG_FLAG_MID \<equiv> 0"
abbreviation (input) CCNL_BEFRAG_FLAG_FIRST :: u16 where "CCNL_BEFRAG_FLAG_FIRST \<equiv> 1"
abbreviation (input) CCNL_BEFRAG_FLAG_LAST :: u16 where "CCNL_BEFRAG_FLAG_LAST \<equiv> 2"
abbreviation (input) CCNL_BEFRAG_FLAG_SINGLE :: u16 where "CCNL_BEFRAG_FLAG_SINGLE \<equiv> 3"
abbreviation (input) CCNL_BEFRAG_FLAG_MASK :: u16 where "CCNL_BEFRAG_FLAG_MASK \<equiv> 3"

record frag =
  fr_protocol :: int
  fr_mtu :: int
  fr_dest :: sockunion
  fr_bigpkt :: "bytes option"
  fr_sendoffs :: u32
  fr_outsuite :: int
  fr_ifndx :: int
  fr_defrag :: "bytes option"
  fr_sendseq :: u32
  fr_recvseq :: u32

definition ccnl_frag_new :: "int \<Rightarrow> int \<Rightarrow> frag option" where
  "ccnl_frag_new protocol mtu = (if protocol = CCNL_FRAG_BEGINEND2015
     then Some \<lparr>fr_protocol = protocol, fr_mtu = mtu, fr_dest = Su_unspec, fr_bigpkt = None, fr_sendoffs = 0, fr_outsuite = 0,
       fr_ifndx = 0, fr_defrag = None, fr_sendseq = 0, fr_recvseq = 0\<rparr>
     else None)"

definition ccnl_frag_reset :: "frag option \<Rightarrow> bytes option \<Rightarrow> int \<Rightarrow> sockunion \<Rightarrow> frag option res" where
  "ccnl_frag_reset fo buf ifndx dst = (case fo of
      None \<Rightarrow> Inr None
    | Some e \<Rightarrow>
        bindE (case buf of None \<Rightarrow> Inr (fr_outsuite e) | Some b \<Rightarrow> bindE (ccnl_pkt2suite b 0 (length b)) (\<lambda>(suite, _). Inr suite)) (\<lambda>suite.
        Inr (Some (e\<lparr>fr_ifndx := ifndx, fr_dest := dst, fr_bigpkt := buf, fr_outsuite := suite, fr_sendoffs := 0\<rparr>))))"

text \<open>The number of fragments and their total length, for the scheduler.\<close>

definition ccnl_frag_getfragcount :: "frag option \<Rightarrow> int \<Rightarrow> int \<times> int" where
  "ccnl_frag_getfragcount fo origlen = (if fo = None then (1, 0) else (0, 0))"

section \<open>Making fragments\<close>

text \<open>\<open>htons\<close>, in memory.\<close>

definition net16 :: "u16 \<Rightarrow> bytes" where
  "net16 v = [ucast (drop_bit 8 v), ucast v]"

text \<open>The place of a fragment of \<open>datalen\<close> bytes in its packet.\<close>

definition frag_flag :: "frag \<Rightarrow> bytes \<Rightarrow> nat \<Rightarrow> u16" where
  "frag_flag fr big datalen =
    (if datalen \<ge> length big then CCNL_BEFRAG_FLAG_SINGLE
     else if fr_sendoffs fr = 0 then CCNL_BEFRAG_FLAG_FIRST
     else if datalen \<ge> wsub (length big) (unat (fr_sendoffs fr)) then CCNL_BEFRAG_FLAG_LAST
     else CCNL_BEFRAG_FLAG_MID)"

definition frag_fields :: "frag \<Rightarrow> bytes \<Rightarrow> nat \<Rightarrow> u16" where
  "frag_fields fr big datalen = (ucast (fr_sendseq fr) AND 0x03fff) OR push_bit 14 (frag_flag fr big datalen)"

text \<open>\<open>mtu - sizeof (*fp) - 4\<close> is a difference of \<open>size_t\<close>. \<open>None\<close> when no fragment is made.\<close>

definition ccnl_ccntlv_mkFrag :: "frag \<Rightarrow> (bytes \<times> nat) option res" where
  "ccnl_ccntlv_mkFrag fr = (case fr_bigpkt fr of None \<Rightarrow> Inl Null | Some big \<Rightarrow>
    let rest = wsub (length big) (unat (fr_sendoffs fr));
        room = unat (word_of_int (fr_mtu fr) - 9 - 4 :: u64);
        datalen = (if room > rest then rest else room) in
    if datalen > 65535 then Inr None
    else bindE (slice big (unat (fr_sendoffs fr)) datalen) (\<lambda>d.
      Inr (Some ([CCNX_TLV_V1, CCNX_PT_Fragment] @ net16 (of_nat (9 + 4 + datalen)) @ [0] @ net16 (frag_fields fr big datalen) @ [9, 0]
        @ net16 5 @ net16 (of_nat datalen) @ d, datalen))))"

text \<open>The return code of \<open>ccnl_ndntlv_prependTL\<close> and what it has written, also when it fails.\<close>

definition prependTL_rc :: "u64 \<Rightarrow> u64 \<Rightarrow> outbuf \<Rightarrow> (u64 \<times> outbuf) res" where
  "prependTL_rc type len ob = (case ccnl_ndntlv_prependTLval len ob of
      Inl e \<Rightarrow> if e = Fail then Inr (-1, ob) else Inl e
    | Inr ob1 \<Rightarrow> (case ccnl_ndntlv_prependTLval type ob1 of
          Inl e \<Rightarrow> if e = Fail then Inr (-1, ob1) else Inl e
        | Inr ob2 \<Rightarrow> Inr (0, ob2)))"

text \<open>The return codes are taken for lengths, so that the header counts two bytes.\<close>

definition ndn_frag_hdrlen :: "int \<Rightarrow> nat \<Rightarrow> u64 res" where
  "ndn_frag_hdrlen mtu rest =
    (let d = (if int rest > mtu then mtu else int rest) in
     bindE (prependTL_rc NDN_TLV_NdnlpFragment (of_int d) (20, replicate 20 0)) (\<lambda>(r1, ob1).
     bindE (prependTL_rc NDN_TLV_Frag_BeginEndFields 2 ob1) (\<lambda>(r2, ob2).
     bindE (prependTL_rc NDN_TLV_Fragment (r1 + (r2 + 2) + of_int d) ob2) (\<lambda>(r3, ob3).
     Inr (r1 + (r2 + 2) + r3)))))"

definition ccnl_ndntlv_mkFrag :: "frag \<Rightarrow> (bytes \<times> nat) option res" where
  "ccnl_ndntlv_mkFrag fr = (case fr_bigpkt fr of None \<Rightarrow> Inl Null | Some big \<Rightarrow>
    let rest = wsub (length big) (unat (fr_sendoffs fr)) in
    bindE (ndn_frag_hdrlen (fr_mtu fr) rest) (\<lambda>hdrlen.
    let room = unat (of_int (fr_mtu fr) - hdrlen); datalen = (if rest > room then room else rest) in
    bindE (slice big (unat (fr_sendoffs fr)) datalen) (\<lambda>d.
    let n = datalen + unat hdrlen in
    bindE (prependTL_rc NDN_TLV_NdnlpFragment (of_nat datalen) (unat hdrlen, replicate (unat hdrlen) 0 @ d)) (\<lambda>(r1, off1, b1).
    if off1 < 2 then Inl Oob
    else
      let b2 = take (off1 - 2) b1 @ net16 (frag_fields fr big datalen) @ drop off1 b1 in
      bindE (prependTL_rc NDN_TLV_Frag_BeginEndFields 2 (off1 - 2, b2)) (\<lambda>(r2, ob3).
      bindE (prependTL_rc NDN_TLV_Fragment (of_nat (n - fst ob3)) ob3) (\<lambda>(r3, off4, b4).
      Inr (Some (drop off4 b4, datalen))))))))"

text \<open>The next fragment with the interface and the address it goes to.\<close>

definition ccnl_frag_getnextBE2015 :: "frag \<Rightarrow> ((bytes \<times> int \<times> sockunion) option \<times> frag) res" where
  "ccnl_frag_getnextBE2015 fr =
    bindE (if fr_outsuite fr = CCNL_SUITE_CCNTLV then ccnl_ccntlv_mkFrag fr
           else if fr_outsuite fr = CCNL_SUITE_NDNTLV then ccnl_ndntlv_mkFrag fr
           else Inr None) (\<lambda>x. case x of
      None \<Rightarrow> Inr (None, fr)
    | Some (b, datalen) \<Rightarrow> (case fr_bigpkt fr of None \<Rightarrow> Inl Null | Some big \<Rightarrow>
        let offs = fr_sendoffs fr + of_nat datalen in
        Inr (Some (b, fr_ifndx fr, fr_dest fr),
          fr\<lparr>fr_sendseq := fr_sendseq fr + 1, fr_sendoffs := offs,
             fr_bigpkt := (if unat offs \<ge> length big mod 2 ^ 32 then None else Some big)\<rparr>)))"

definition ccnl_frag_getnext :: "frag \<Rightarrow> ((bytes \<times> int \<times> sockunion) option \<times> frag) res" where
  "ccnl_frag_getnext fr =
    (if fr_bigpkt fr = None then Inr (None, fr)
     else if fr_protocol fr = CCNL_FRAG_BEGINEND2015 then ccnl_frag_getnextBE2015 fr
     else Inr (None, fr))"

definition ccnl_frag_nomorefragments :: "frag option \<Rightarrow> bool" where
  "ccnl_frag_nomorefragments fo = (case fo of None \<Rightarrow> True
     | Some e \<Rightarrow> (case fr_bigpkt e of None \<Rightarrow> True | Some big \<Rightarrow> length big mod 2 ^ 32 \<le> unat (fr_sendoffs e)))"

text \<open>
  \<open>ccnl_face_CTS\<close> of a face that fragments: the rest of the packet in work first, then the queue; one
  round pushes one fragment and calls itself. The result are the fragments in the order they are handed
  to the interfaces. The recursion has no bound of its own, so it has fuel.
\<close>

fun face_CTS_frag :: "nat \<Rightarrow> int \<Rightarrow> sockunion \<Rightarrow> frag \<Rightarrow> bytes list \<Rightarrow> (frag \<times> bytes list \<times> (bytes \<times> int \<times> sockunion) list) res" where
  "face_CTS_frag 0 ifndx peer fr q = Inl Diverge"
| "face_CTS_frag (Suc k) ifndx peer fr q =
    bindE (ccnl_frag_getnext fr) (\<lambda>(x, fr1). case x of
      Some y \<Rightarrow> bindE (face_CTS_frag k ifndx peer fr1 q) (\<lambda>(fr2, q2, ys). Inr (fr2, q2, y # ys))
    | None \<Rightarrow>
        bindE (ccnl_frag_reset (Some fr1) (case q of [] \<Rightarrow> None | b # _ \<Rightarrow> Some b) ifndx peer) (\<lambda>fo. case fo of
            None \<Rightarrow> Inl Null
          | Some fr2 \<Rightarrow> bindE (ccnl_frag_getnext fr2) (\<lambda>(x2, fr3). case x2 of
              None \<Rightarrow> Inr (fr3, tl q, [])
            | Some y \<Rightarrow> bindE (face_CTS_frag k ifndx peer fr3 (tl q)) (\<lambda>(fr4, q4, ys). Inr (fr4, q4, y # ys)))))"

section \<open>Putting fragments together\<close>

type_synonym 's frag_callback = "bytes \<Rightarrow> cursor \<Rightarrow> frag option \<times> 's \<Rightarrow> (cursor \<times> frag option \<times> 's) res"

text \<open>A fragment with another number than the expected one gives up what has come so far.\<close>

definition frag_expect :: "u32 \<Rightarrow> frag \<Rightarrow> frag" where
  "frag_expect seqno e = (if fr_recvseq e \<noteq> seqno then e\<lparr>fr_defrag := None, fr_recvseq := seqno\<rparr> else e)"

definition ccnl_frag_RX_BeginEnd2015 :: "'s frag_callback \<Rightarrow> bool \<Rightarrow> int \<Rightarrow> u16 \<Rightarrow> u32 \<Rightarrow> bytes \<Rightarrow> cursor
    \<Rightarrow> frag option \<times> 's \<Rightarrow> (int \<times> cursor \<times> frag option \<times> 's) res" where
  "ccnl_frag_RX_BeginEnd2015 callback from1 mtu bits seqno m cur x = (case (cur, x) of ((p, n), (fo, s)) \<Rightarrow>
    if \<not> from1 then Inr (0, cur, x)
    else (case (case fo of None \<Rightarrow> ccnl_frag_new CCNL_FRAG_BEGINEND2015 mtu | Some e \<Rightarrow> Some e) of
        None \<Rightarrow> Inr (0, cur, None, s)
      | Some e0 \<Rightarrow>
          if fr_protocol e0 \<noteq> CCNL_FRAG_BEGINEND2015 then Inr (0, cur, Some e0, s)
          else
            let e = frag_expect seqno e0; bump = (\<lambda>e. e\<lparr>fr_recvseq := fr_recvseq e + 1\<rparr>); k = bits AND CCNL_BEFRAG_FLAG_MASK in
            if k = CCNL_BEFRAG_FLAG_SINGLE then
              bindE (callback m cur (Some (bump (e\<lparr>fr_defrag := None\<rparr>)), s)) (\<lambda>(cur1, x1). Inr (1, cur1, x1))
            else if k = CCNL_BEFRAG_FLAG_FIRST then
              bindE (slice m p n) (\<lambda>d. Inr (1, (p + n, 0), Some (bump (e\<lparr>fr_defrag := Some d\<rparr>)), s))
            else (case fr_defrag e of
                None \<Rightarrow> Inr (1, (p + n, 0), Some (bump e), s)
              | Some a \<Rightarrow>
                  bindE (slice m p n) (\<lambda>d.
                    if k = CCNL_BEFRAG_FLAG_LAST then
                      bindE (callback (a @ d) (0, length (a @ d)) (Some (bump (e\<lparr>fr_defrag := None\<rparr>)), s))
                        (\<lambda>(cur1, x1). Inr (1, (p + n, 0), x1))
                    else Inr (1, (p + n, 0), Some (bump (e\<lparr>fr_defrag := Some (a @ d)\<rparr>)), s)))))"

text \<open>An NDN fragment that is parsed, \<open>ccnl_fwd_handleFragment\<close>. The interface of the face is looked up
  before anything else, so that a packet without a face is the NULL pointer.\<close>

definition ccnl_fwd_handleFragment :: "'s frag_callback \<Rightarrow> int option \<Rightarrow> pkt \<Rightarrow> frag option \<times> 's \<Rightarrow> (frag option \<times> 's) res" where
  "ccnl_fwd_handleFragment callback mtu pk x =
    bindE (deref mtu) (\<lambda>mtu. bindE (deref (pkt_buf pk)) (\<lambda>b.
      bindE (ccnl_frag_RX_BeginEnd2015 callback True mtu (ucast (drop_bit 2 (pkt_flags pk)) AND 3) (ucast (pkt_val pk)) b
          (case pkt_content pk of None \<Rightarrow> 0 | Some c \<Rightarrow> c, pkt_contlen pk) x)
        (\<lambda>(rc, cur, x1). Inr x1)))"

text \<open>
  A frame that reaches the CCNx TLV forwarder, up to where it knows what to do with it: the checks of the
  fixed header, the hop limit, and the fragment. \<open>Rx_packet\<close> is a frame that is no fragment. A fragment
  takes all the bytes that are left of the frame, not those of its own length only. \<open>mtu\<close> is the one of the
  interface of the face, when there is a face.
\<close>

datatype frag_rx = Rx_refused | Rx_packet bytes cursor | Rx_done bytes cursor

definition ccntlv_rx_fragment :: "'s frag_callback \<Rightarrow> int option \<Rightarrow> bytes \<Rightarrow> cursor \<Rightarrow> frag option \<times> 's
    \<Rightarrow> (frag_rx \<times> frag option \<times> 's) res" where
  "ccntlv_rx_fragment callback mtu m cur x = (case cur of (p, n) \<Rightarrow>
    if n < 9 then Inr (Rx_refused, x)
    else bindE (ccnx_tlvhdr_at m p) (\<lambda>hp.
      let hdrlen = hd_hdrlen hp; q = p + hdrlen in
      if hd_version hp \<noteq> CCNX_TLV_V1 \<or> hdrlen > n \<or> hd_pktlen hp < hdrlen \<or> hd_pktlen hp > n then Inr (Rx_refused, x)
      else
        let payloadlen = hd_pktlen hp - hdrlen; k = n - hdrlen;
            hop = (hd_pkttype hp = CCNX_PT_Interest \<or> hd_pkttype hp = CCNX_PT_Fragment \<or> hd_pkttype hp = CCNX_PT_NACK);
            m1 = (if hop then m[p + 4 := hd_hoplimit hp - 1] else m) in
        if hop \<and> hd_hoplimit hp - 1 = 0 then Inr (Rx_done m1 (q + payloadlen, k - payloadlen), x)
        else if hd_pkttype hp \<noteq> CCNX_PT_Fragment then Inr (Rx_packet m1 (q, k), x)
        else bindE (slice m1 q 4) (\<lambda>b.
          let fraglen = unat (b ! 2) * 256 + unat (b ! 3) in
          if b ! 0 = 0 \<and> b ! 1 = 5 \<and> fraglen = wsub payloadlen 4 then
            bindE (slice m1 (p + 5) 2) (\<lambda>f. let fields = push_bit 8 (ucast (f ! 0)) OR ucast (f ! 1) :: u16 in
            bindE (deref mtu) (\<lambda>mtu.
            bindE (ccnl_frag_RX_BeginEnd2015 callback True mtu (drop_bit 14 fields) (ucast (fields AND 0x3fff)) m1 (q + 4, k - 4) x)
              (\<lambda>(rc, cur1, x1). Inr (Rx_done m1 cur1, x1))))
          else Inr (Rx_done m1 (q + payloadlen, k - payloadlen), x))))"

end
