(* ===== verification/Frag_Props.thy ===== *)
theory Frag_Props
  imports Frag Ndntlv_Wire
begin

text \<open>
  What fragmentation promises. The frames a face sends for a queue of packets are given in closed form
  (\<open>frag_list\<close>, \<open>frag_frames\<close>), one fragment as a step of the receiver (\<open>frag_step\<close>). From these follow that fragments in
  order make the packets again, that no other packet can be made from them, and where the code loses packets.
\<close>

section \<open>One fragment on the wire\<close>

definition frag_frame :: "u16 \<Rightarrow> u32 \<Rightarrow> bytes \<Rightarrow> bytes" where
  "frag_frame fl s c = [CCNX_TLV_V1, CCNX_PT_Fragment] @ net16 (of_nat (9 + 4 + length c)) @ [0]
     @ net16 ((ucast s AND 0x03fff) OR push_bit 14 fl) @ [9, 0] @ net16 5 @ net16 (of_nat (length c)) @ c"

definition seq14 :: "u32 \<Rightarrow> u32" where "seq14 s = s AND 0x3fff"

lemma net16_nth: "n < 65536 \<Longrightarrow> unat (net16 (of_nat n) ! 0) * 256 + unat (net16 (of_nat n) ! 1) = n"
proof -
  assume n: "n < 65536"
  have "unat (drop_bit 8 (of_nat n :: u16)) = n div 256" unfolding unat_drop_bit_eq using n by (simp add: drop_bit_eq_div unat_of_nat)
  moreover have "n div 256 < 256" using n by simp
  ultimately show ?thesis using n by (simp add: net16_def unsigned_ucast_eq take_bit_eq_mod unat_of_nat)
qed

lemma net16_join: "push_bit 8 (ucast (net16 v ! 0)) OR ucast (net16 v ! 1) = (v :: u16)"
  by (rule bit_word_eqI) (auto simp: net16_def bit_simps)

lemma length_net16 [simp]: "length (net16 v) = 2"
  by (simp add: net16_def)

lemma frag_fields_split:
  assumes "fl < 4"
  shows "drop_bit 14 ((ucast s AND 0x03fff) OR push_bit 14 fl :: u16) = fl"
    and "ucast (((ucast s AND 0x03fff) OR push_bit 14 fl :: u16) AND 0x3fff) = seq14 (s :: u32)"
proof -
  have m: "(0x3fff :: u16) = mask 14" "(0x3fff :: u32) = mask 14" by (simp_all add: mask_eq_exp_minus_1)
  have "\<not> bit fl n" if "2 \<le> n" for n
  proof -
    have "fl = take_bit 2 fl" using mod_word_less[OF assms] by (simp add: take_bit_eq_mod)
    then show ?thesis using that by (metis bit_take_bit_iff not_less)
  qed
  then have b: "bit fl n \<Longrightarrow> n < 2" for n by (meson not_less)
  show "drop_bit 14 ((ucast s AND 0x03fff) OR push_bit 14 fl :: u16) = fl"
    by (rule bit_word_eqI) (auto simp: m bit_simps dest: b)
  show "ucast (((ucast s AND 0x03fff) OR push_bit 14 fl :: u16) AND 0x3fff) = seq14 s"
    by (rule bit_word_eqI) (auto simp: m seq14_def bit_simps)
qed

lemma rx_frag_frame:
  assumes c: "length c \<le> 65522" and fl: "fl < 4"
  shows "ccntlv_rx_fragment cb (Some mtu) (frag_frame fl s c) (0, length (frag_frame fl s c)) x =
    bindE (ccnl_frag_RX_BeginEnd2015 cb True mtu fl (seq14 s) ((frag_frame fl s c)[4 := 255]) (13, length c) x)
      (\<lambda>(rc, cur1, x1). Inr (Rx_done ((frag_frame fl s c)[4 := 255]) cur1, x1))"
proof -
  let ?v = "(ucast s AND 0x03fff) OR push_bit 14 fl :: u16"
  have two: "\<exists>a b. net16 (of_nat n) = [a, b] \<and> unat a * 256 + unat b = n" if "n < 65536" for n
    using net16_nth[OF that] by (simp add: net16_def)
  obtain l0 l1 where l: "net16 (13 + of_nat (length c)) = [l0, l1]" "unat l0 * 256 + unat l1 = 13 + length c"
    using two[of "13 + length c"] c by auto
  obtain d0 d1 where d: "net16 (of_nat (length c)) = [d0, d1]" "unat d0 * 256 + unat d1 = length c"
    using two[of "length c"] c by auto
  obtain v0 v1 where v: "net16 ?v = [v0, v1]" "push_bit 8 (ucast v0) OR ucast v1 = ?v"
    using net16_join[of ?v] by (simp add: net16_def)
  have v14: "drop_bit 14 (push_bit 8 (ucast v0)) OR drop_bit 14 (ucast v1 :: u16) = fl"
    using frag_fields_split(1)[OF fl, of s] unfolding v(2)[symmetric] by simp
  have m1: "(- 1 :: byte) = 255" by simp
  have f5: "net16 5 = [0, 5]" by (simp add: net16_def)
  have f: "frag_frame fl s c = [1, 3, l0, l1, 0, v0, v1, 9, 0, 0, 5, d0, d1] @ c"
    by (simp add: frag_frame_def l(1) d(1) v(1) f5)
  show ?thesis
    unfolding f using c
    by (simp add: ccntlv_rx_fragment_def ccnx_tlvhdr_at_def slice_def l(2) d(2) Let_def wsub_def v(2) v14 frag_fields_split[OF fl] m1)
qed

section \<open>The fragments of a packet\<close>

definition frag_cnt :: "nat \<Rightarrow> bytes \<Rightarrow> nat" where
  "frag_cnt k b = (length b + k - 1) div k"

definition frag_piece :: "nat \<Rightarrow> bytes \<Rightarrow> nat \<Rightarrow> bytes" where
  "frag_piece k b i = take k (drop (i * k) b)"

definition frag_kind :: "nat \<Rightarrow> bytes \<Rightarrow> nat \<Rightarrow> u16" where
  "frag_kind k b i = (if frag_cnt k b = 1 then 3 else if i = 0 then 1 else if i + 1 = frag_cnt k b then 2 else 0)"

text \<open>Every packet with the numbers of its pieces, and the frames with consecutive sequence numbers.\<close>

definition frag_list :: "nat \<Rightarrow> bytes list \<Rightarrow> (bytes \<times> nat) list" where
  "frag_list k ps = concat (map (\<lambda>b. map (Pair b) [0..<frag_cnt k b]) ps)"

fun frag_frames :: "nat \<Rightarrow> u32 \<Rightarrow> (bytes \<times> nat) list \<Rightarrow> bytes list" where
  "frag_frames k s [] = []"
| "frag_frames k s ((b, i) # xs) = frag_frame (frag_kind k b i) s (frag_piece k b i) # frag_frames k (s + 1) xs"

lemma length_frag_frames [simp]: "length (frag_frames k s xs) = length xs"
  by (induction k s xs rule: frag_frames.induct) simp_all

lemma frag_frames_nth:
  "j < length xs \<Longrightarrow> xs ! j = (b, i) \<Longrightarrow> frag_frames k s xs ! j = frag_frame (frag_kind k b i) (s + of_nat j) (frag_piece k b i)"
  by (induction k s xs arbitrary: j rule: frag_frames.induct) (auto simp: nth_Cons' algebra_simps)

lemma frag_kind_small: "frag_kind k b i < 4"
  by (simp add: frag_kind_def)

lemma frag_cnt_iff: "0 < k \<Longrightarrow> i < frag_cnt k b \<longleftrightarrow> i * k < length b"
proof -
  assume k: "0 < k"
  have "i < frag_cnt k b \<longleftrightarrow> i + 1 \<le> (length b + k - 1) div k" by (auto simp: frag_cnt_def)
  also have "\<dots> \<longleftrightarrow> (i + 1) * k \<le> length b + k - 1" using k by (simp add: less_eq_div_iff_mult_less_eq)
  also have "\<dots> \<longleftrightarrow> i * k < length b" using k by auto
  finally show ?thesis .
qed

lemma frag_last_iff: "0 < k \<Longrightarrow> i < frag_cnt k b \<Longrightarrow> i + 1 = frag_cnt k b \<longleftrightarrow> length b \<le> i * k + k"
  using frag_cnt_iff[of k i b] frag_cnt_iff[of k "i + 1" b] by (auto simp: algebra_simps not_less)

lemma frag_one_iff: "0 < k \<Longrightarrow> b \<noteq> [] \<Longrightarrow> frag_cnt k b = 1 \<longleftrightarrow> length b \<le> k"
  using frag_last_iff[of k 0 b] frag_cnt_iff[of k 0 b] by auto

lemma length_frag_piece: "length (frag_piece k b i) = min k (length b - i * k)"
  by (simp add: frag_piece_def)

lemma frag_piece_append: "take (i * k) b @ frag_piece k b i = take ((i + 1) * k) b"
  by (simp add: frag_piece_def take_add[symmetric] add.commute)

section \<open>Sending\<close>

text \<open>A face that has sent \<open>i\<close> fragments of \<open>b\<close>.\<close>

definition frag_at :: "nat \<Rightarrow> int \<Rightarrow> sockunion \<Rightarrow> bytes \<Rightarrow> nat \<Rightarrow> u32 \<Rightarrow> frag \<Rightarrow> bool" where
  "frag_at k ifndx peer b i s fr \<longleftrightarrow> fr_protocol fr = CCNL_FRAG_BEGINEND2015 \<and> fr_mtu fr = int k + 13 \<and> fr_sendseq fr = s
     \<and> (if i < frag_cnt k b then fr_bigpkt fr = Some b \<and> fr_sendoffs fr = of_nat (i * k) \<and> fr_outsuite fr = CCNL_SUITE_CCNTLV
          \<and> fr_ifndx fr = ifndx \<and> fr_dest fr = peer \<and> length b < 2 ^ 32
        else fr_bigpkt fr = None)"

lemma getnext_frag:
  assumes k: "0 < k" "k \<le> 65522" and a: "frag_at k ifndx peer b i s fr" and i: "i < frag_cnt k b"
  shows "\<exists>fr'. ccnl_frag_getnext fr = Inr (Some (frag_frame (frag_kind k b i) s (frag_piece k b i), ifndx, peer), fr')
    \<and> frag_at k ifndx peer b (i + 1) (s + 1) fr'"
proof -
  have o: "i * k < length b" "length b < 2 ^ 32" using a i frag_cnt_iff[OF k(1)] by (auto simp: frag_at_def)
  have offs: "unat (fr_sendoffs fr) = i * k" using a i o by (simp add: frag_at_def unat_of_nat del: of_nat_mult)
  have big: "fr_bigpkt fr = Some b" "fr_outsuite fr = CCNL_SUITE_CCNTLV" "fr_protocol fr = CCNL_FRAG_BEGINEND2015" "fr_sendseq fr = s"
    "fr_ifndx fr = ifndx" "fr_dest fr = peer" "fr_sendoffs fr = of_nat (i * k)" "fr_mtu fr = int k + 13"
    using a i by (simp_all add: frag_at_def)
  have room: "unat (word_of_int (fr_mtu fr) - 9 - 4 :: u64) = k"
  proof -
    have "(word_of_int (fr_mtu fr) - 9 - 4 :: u64) = of_nat k" by (simp add: big(8))
    then show ?thesis using k by (simp add: unat_of_nat)
  qed
  have rest: "wsub (length b) (i * k) = length b - i * k" using o by (intro wsub_le) simp_all
  define n where "n = length (frag_piece k b i)"
  have n: "n = (if k > length b - i * k then length b - i * k else k)" by (auto simp: n_def length_frag_piece)
  have np: "n \<le> k" "0 < n" "i * k + n \<le> length b" using n o k by auto
  have sl: "slice b (i * k) n = Inr (frag_piece k b i)" using np n by (auto simp: slice_def frag_piece_def n_def)
  have z: "fr_sendoffs fr = 0 \<longleftrightarrow> i = 0"
    unfolding unat_eq_zero[symmetric] offs using k by simp
  have fl: "frag_flag fr b n = frag_kind k b i"
  proof -
    have b: "b \<noteq> []" using o by auto
    have "length b \<le> n \<longleftrightarrow> frag_cnt k b = 1"
    proof
      assume "length b \<le> n"
      then show "frag_cnt k b = 1" using np(1) frag_one_iff[OF k(1) b] by simp
    next
      assume c: "frag_cnt k b = 1"
      then have "i = 0" using i by simp
      then show "length b \<le> n" using c n frag_one_iff[OF k(1) b] by simp
    qed
    moreover have "length b - i * k \<le> n \<longleftrightarrow> i + 1 = frag_cnt k b"
      using n unfolding frag_last_iff[OF k(1) i] by auto
    ultimately show ?thesis by (simp add: frag_flag_def frag_kind_def offs rest z)
  qed
  have mk: "ccnl_ccntlv_mkFrag fr = Inr (Some (frag_frame (frag_kind k b i) s (frag_piece k b i), n))"
    using k np sl unfolding ccnl_ccntlv_mkFrag_def big(1,4) option.case Let_def offs rest room n[symmetric]
    by (simp add: frag_frame_def frag_fields_def fl n_def[symmetric] big(4))
  define w :: u32 where "w = fr_sendoffs fr + of_nat n"
  have w: "w = of_nat (i * k + n)" by (simp add: w_def big)
  have uw: "unat w = i * k + n" using np o unfolding w by (subst unat_of_nat) simp
  have lm: "length b mod 2 ^ 32 = length b" using o by simp
  have sent: "ccnl_frag_getnext fr = Inr (Some (frag_frame (frag_kind k b i) s (frag_piece k b i), ifndx, peer),
      fr\<lparr>fr_sendseq := s + 1, fr_sendoffs := w, fr_bigpkt := (if i * k + n \<ge> length b then None else Some b)\<rparr>)"
    using o(2) by (simp add: ccnl_frag_getnext_def ccnl_frag_getnextBE2015_def big(1-6) mk Let_def w_def[symmetric] uw)
  have last: "length b \<le> i * k + n \<longleftrightarrow> \<not> i + 1 < frag_cnt k b"
    using n np frag_cnt_iff[OF k(1), of "i + 1" b] by (auto simp: algebra_simps)
  have nxt: "i + 1 < frag_cnt k b \<Longrightarrow> w = of_nat ((i + 1) * k)"
    using n frag_cnt_iff[OF k(1), of "i + 1" b] unfolding w by (intro arg_cong[of _ _ of_nat]) (auto simp: algebra_simps)
  show ?thesis
    by (rule exI, rule conjI, rule sent, insert o(2), cases "i + 1 < frag_cnt k b") (simp_all add: frag_at_def big last nxt)
qed

lemma frag_list_Cons: "frag_list k (b # ps) = map (Pair b) [0..<frag_cnt k b] @ frag_list k ps"
  by (simp add: frag_list_def)

definition frag_packet :: "bytes \<Rightarrow> bool" where
  "frag_packet b \<longleftrightarrow> b \<noteq> [] \<and> length b < 2 ^ 32 \<and> (\<exists>skip. ccnl_pkt2suite b 0 (length b) = Inr (CCNL_SUITE_CCNTLV, skip))"

lemma frag_reset_at:
  assumes "frag_at k i' p' b' j s fr" and "frag_packet b" and "0 < k"
  shows "\<exists>fr'. ccnl_frag_reset (Some fr) (Some b) ifndx peer = Inr (Some fr') \<and> frag_at k ifndx peer b 0 s fr'"
  using assms frag_cnt_iff[of k 0 b] by (auto simp: ccnl_frag_reset_def frag_at_def frag_packet_def)

lemma face_CTS_frames:
  assumes k: "0 < k" "k \<le> 65522"
  shows "frag_at k ifndx peer b i s fr \<Longrightarrow> list_all frag_packet q \<Longrightarrow>
    length (map (Pair b) [i..<frag_cnt k b] @ frag_list k q) < n \<Longrightarrow>
    \<exists>fr'. face_CTS_frag n ifndx peer fr q = Inr (fr', [], map (\<lambda>w. (w, ifndx, peer)) (frag_frames k s (map (Pair b) [i..<frag_cnt k b] @ frag_list k q)))
      \<and> fr_bigpkt fr' = None"
proof (induction n arbitrary: b i s fr q)
  case (Suc n)
  show ?case
  proof (cases "i < frag_cnt k b")
    case True
    obtain fr1 where g: "ccnl_frag_getnext fr = Inr (Some (frag_frame (frag_kind k b i) s (frag_piece k b i), ifndx, peer), fr1)"
      "frag_at k ifndx peer b (i + 1) (s + 1) fr1" using getnext_frag[OF k Suc.prems(1) True] by blast
    have u: "[i..<frag_cnt k b] = i # [i + 1..<frag_cnt k b]" using True by (simp add: upt_conv_Cons)
    show ?thesis using g(1) Suc.IH[OF g(2) Suc.prems(2)] Suc.prems(3) unfolding u by auto
  next
    case False
    then have none: "ccnl_frag_getnext fr = Inr (None, fr)" using Suc.prems(1) by (simp add: frag_at_def ccnl_frag_getnext_def)
    show ?thesis
    proof (cases q)
      case Nil
      then show ?thesis using False none Suc.prems(1) by (simp add: ccnl_frag_reset_def ccnl_frag_getnext_def frag_list_def)
    next
      case (Cons b1 q1)
      have p: "frag_packet b1" using Suc.prems(2) Cons by simp
      obtain fr1 where r: "ccnl_frag_reset (Some fr) (Some b1) ifndx peer = Inr (Some fr1)" "frag_at k ifndx peer b1 0 s fr1"
        using frag_reset_at[OF Suc.prems(1) p k(1)] by blast
      have c: "0 < frag_cnt k b1" using p frag_cnt_iff[OF k(1), of 0 b1] by (simp add: frag_packet_def)
      obtain fr2 where g: "ccnl_frag_getnext fr1 = Inr (Some (frag_frame (frag_kind k b1 0) s (frag_piece k b1 0), ifndx, peer), fr2)"
        "frag_at k ifndx peer b1 1 (s + 1) fr2" using getnext_frag[OF k r(2) c] by auto
      have u: "[0..<frag_cnt k b1] = 0 # [1..<frag_cnt k b1]" using c by (simp add: upt_conv_Cons)
      show ?thesis using False none Cons r(1) g(1) Suc.IH[OF g(2), of q1] Suc.prems(2,3) u by (auto simp: frag_list_Cons)
    qed
  qed
qed simp

section \<open>Receiving\<close>

text \<open>A callback that writes down the packets it gets, and takes all of the frame.\<close>

definition keep_packets :: "bytes list frag_callback" where
  "keep_packets m cur x = (case (cur, x) of ((p, n), (fo, log)) \<Rightarrow> bindE (slice m p n) (\<lambda>d. Inr ((p + n, 0), fo, log @ [d])))"

text \<open>Frames one after the other.\<close>

fun rx_frames :: "int \<Rightarrow> bytes list \<Rightarrow> frag option \<times> bytes list \<Rightarrow> (frag option \<times> bytes list) res" where
  "rx_frames mtu [] x = Inr x"
| "rx_frames mtu (w # ws) x = bindE (ccntlv_rx_fragment keep_packets (Some mtu) w (0, length w) x) (\<lambda>(_, x1). rx_frames mtu ws x1)"

text \<open>What a fragment does to a face that speaks the protocol.\<close>

definition frag_step :: "u16 \<Rightarrow> u32 \<Rightarrow> bytes \<Rightarrow> frag \<times> bytes list \<Rightarrow> frag \<times> bytes list" where
  "frag_step fl s c x = (case x of (e0, log) \<Rightarrow>
    let e = (frag_expect s e0)\<lparr>fr_recvseq := s + 1\<rparr> in
    if fl = 3 then (e\<lparr>fr_defrag := None\<rparr>, log @ [c])
    else if fl = 1 then (e\<lparr>fr_defrag := Some c\<rparr>, log)
    else (case fr_defrag e of None \<Rightarrow> (e, log)
      | Some a \<Rightarrow> if fl = 2 then (e\<lparr>fr_defrag := None\<rparr>, log @ [a @ c]) else (e\<lparr>fr_defrag := Some (a @ c)\<rparr>, log)))"

definition frag_rcv :: "int \<Rightarrow> frag option \<Rightarrow> frag" where
  "frag_rcv mtu fo = (case fo of None \<Rightarrow> the (ccnl_frag_new CCNL_FRAG_BEGINEND2015 mtu) | Some e \<Rightarrow> e)"

lemma frag_cases: "fl < (4 :: u16) \<Longrightarrow> fl = 0 \<or> fl = 1 \<or> fl = 2 \<or> fl = 3"
proof -
  assume "fl < 4"
  then have "unat fl < 4" by (simp add: word_less_nat_alt)
  moreover have "fl = of_nat (unat fl)" by simp
  ultimately show ?thesis by (cases "unat fl"; cases "unat fl - 1"; cases "unat fl - 2") auto
qed

lemma frag_update_commute: "e\<lparr>fr_recvseq := a, fr_defrag := d\<rparr> = e\<lparr>fr_defrag := d, fr_recvseq := a\<rparr>"
  by simp

lemma rx_frames_step:
  assumes c: "length c \<le> 65522" and fl: "fl < 4" and e: "fr_protocol (frag_rcv mtu fo) = CCNL_FRAG_BEGINEND2015"
  shows "rx_frames mtu (frag_frame fl s c # ws) (fo, log)
    = (case frag_step fl (seq14 s) c (frag_rcv mtu fo, log) of (e1, log1) \<Rightarrow> rx_frames mtu ws (Some e1, log1))"
proof -
  define m where "m = (frag_frame fl s c)[4 := 255]"
  have sl: "slice m 13 (length c) = Inr c" by (simp add: m_def frag_frame_def net16_def slice_def)
  have whole: "slice (a @ c) 0 (length (a @ c)) = Inr (a @ c)" for a by (simp add: slice_def)
  have new: "(case fo of None \<Rightarrow> ccnl_frag_new CCNL_FRAG_BEGINEND2015 mtu | Some e \<Rightarrow> Some e) = Some (frag_rcv mtu fo)"
    by (simp add: frag_rcv_def ccnl_frag_new_def split: option.split)
  have r: "fr_recvseq (frag_expect (seq14 s) (frag_rcv mtu fo)) = seq14 s" by (simp add: frag_expect_def)
  show ?thesis
    using frag_cases[OF fl] unfolding rx_frames.simps rx_frag_frame[OF c fl] m_def[symmetric]
    by (elim disjE) (auto simp: ccnl_frag_RX_BeginEnd2015_def new e Let_def keep_packets_def sl r frag_step_def whole[simplified] frag_update_commute split: option.split)
qed

section \<open>Sequence numbers\<close>

lemma mod_succ_eq: "(a :: nat) mod m + 1 = b mod m \<Longrightarrow> (a + 1) mod m = b mod m"
  by (metis mod_add_left_eq mod_mod_trivial)

lemma mod_succ_less: "(a :: nat) mod m + 1 < m \<Longrightarrow> a mod m + 1 = (a + 1) mod m"
  by (metis mod_add_left_eq mod_less)

lemma mod_shift_inj: "((u :: nat) + a) mod m = (u + b) mod m \<Longrightarrow> a < m \<Longrightarrow> b < m \<Longrightarrow> a = b"
proof (induction a b rule: linorder_wlog)
  case (le a b)
  then have "m dvd (u + b) - (u + a)" by (metis add_le_cancel_left mod_eq_dvd_iff_nat)
  then show ?case using le by (auto dest: dvd_imp_le)
qed simp

lemma unat_seq14: "unat (seq14 s) = unat s mod 16384"
proof -
  have m: "(0x3fff :: u32) = mask 14" by (simp add: mask_eq_exp_minus_1)
  have "seq14 s = take_bit 14 s" unfolding seq14_def m by (rule take_bit_eq_mask[symmetric])
  then show ?thesis by (simp only: unsigned_take_bit_eq) (simp add: take_bit_eq_mod)
qed

lemma unat_seq14_add: "unat (seq14 (s + of_nat j)) = (unat s + j) mod 16384"
proof -
  have "unat (s + of_nat j) = (unat s + j) mod 2 ^ 32" by (simp add: unat_word_ariths unat_of_nat mod_simps)
  then show ?thesis using mod_mod_cancel[of 16384 "2 ^ 32" "unat s + j"] by (simp add: unat_seq14)
qed

lemma unat_seq14_Suc: "unat (seq14 s + 1) = unat (seq14 s) + 1"
proof -
  have "unat (seq14 s) < 16384" by (simp add: unat_seq14)
  then show ?thesis by (simp add: unat_word_ariths)
qed

lemma seq14_succ: "seq14 (s + of_nat i) + 1 = seq14 (s + of_nat j) \<Longrightarrow> (unat s + i + 1) mod 16384 = (unat s + j) mod 16384"
  by (rule mod_succ_eq) (metis unat_seq14_add unat_seq14_Suc)

lemma seq14_next: "(unat s + j) mod 16384 + 1 < 16384 \<Longrightarrow> seq14 (s + of_nat j) + 1 = seq14 (s + of_nat (j + 1))"
  using mod_succ_less[of "unat s + j" 16384] unat_seq14_add[of s j] unat_seq14_add[of s "j + 1"] unat_seq14_Suc[of "s + of_nat j"]
  by (simp only: word_unat_eq_iff add.assoc)

section \<open>What the network may do\<close>

lemma frag_list_next:
  "j < length (frag_list k ps) \<Longrightarrow> frag_list k ps ! j = (b, i) \<Longrightarrow>
    b \<in> set ps \<and> i < frag_cnt k b \<and> (i + 1 < frag_cnt k b \<longrightarrow> j + 1 < length (frag_list k ps) \<and> frag_list k ps ! (j + 1) = (b, i + 1))"
proof (induction ps arbitrary: j)
  case (Cons a ps)
  show ?case
  proof (cases "j < frag_cnt k a")
    case True
    then have "a = b" "i = j" using Cons.prems by (auto simp: frag_list_Cons nth_append)
    then show ?thesis using True by (auto simp: frag_list_Cons nth_append)
  next
    case False
    then have "j - frag_cnt k a < length (frag_list k ps)" "frag_list k ps ! (j - frag_cnt k a) = (b, i)"
      using Cons.prems by (auto simp: frag_list_Cons nth_append)
    from Cons.IH[OF this] False show ?thesis by (auto simp: frag_list_Cons nth_append Suc_diff_le)
  qed
qed (simp add: frag_list_def)

text \<open>What a face holds on to is the beginning of a packet that was sent, and it waits for the next piece of it.\<close>

definition frag_inv :: "nat \<Rightarrow> u32 \<Rightarrow> bytes list \<Rightarrow> frag \<times> bytes list \<Rightarrow> bool" where
  "frag_inv k s ps x \<longleftrightarrow> (case x of (e, log) \<Rightarrow> fr_protocol e = CCNL_FRAG_BEGINEND2015 \<and> set log \<subseteq> set ps
     \<and> (\<forall>d. fr_defrag e = Some d \<longrightarrow> (\<exists>j b i. j + 1 < length (frag_list k ps) \<and> frag_list k ps ! (j + 1) = (b, i + 1)
         \<and> d = take ((i + 1) * k) b \<and> fr_recvseq e = seq14 (s + of_nat j) + 1)))"

lemma frag_step_inv:
  assumes k: "0 < k" and N: "length (frag_list k ps) \<le> 16384" and inv: "frag_inv k s ps (e, log)"
    and j: "j < length (frag_list k ps)" "frag_list k ps ! j = (b, i)"
  shows "frag_inv k s ps (frag_step (frag_kind k b i) (seq14 (s + of_nat j)) (frag_piece k b i) (e, log))"
proof -
  let ?q = "seq14 (s + of_nat j)"
  have b: "b \<in> set ps" "i < frag_cnt k b" and nx: "i + 1 < frag_cnt k b \<Longrightarrow> j + 1 < length (frag_list k ps) \<and> frag_list k ps ! (j + 1) = (b, i + 1)"
    using frag_list_next[OF j] by auto
  have e: "fr_protocol e = CCNL_FRAG_BEGINEND2015" "set log \<subseteq> set ps" using inv by (simp_all add: frag_inv_def)
  have held: "d = take (i * k) b \<and> 0 < i" if d: "fr_defrag (frag_expect ?q e) = Some d" for d
  proof -
    have eq: "fr_recvseq e = ?q" "fr_defrag e = Some d" using d by (auto simp: frag_expect_def split: if_splits)
    then obtain j1 b1 i1 where o: "j1 + 1 < length (frag_list k ps)" "frag_list k ps ! (j1 + 1) = (b1, i1 + 1)" "d = take ((i1 + 1) * k) b1"
      "?q = seq14 (s + of_nat j1) + 1" using inv eq by (auto simp: frag_inv_def)
    have "(unat s + j1 + 1) mod 16384 = (unat s + j) mod 16384" using seq14_succ[of s j1 j] o(4) by simp
    then have "j1 + 1 = j" using mod_shift_inj[of "unat s" "j1 + 1" 16384 j] o(1) j(1) N by (simp add: add.assoc)
    then show ?thesis using o j(2) by simp
  qed
  have take_all: "take ((i + 1) * k) b = b" if "i + 1 = frag_cnt k b"
    using iffD1[OF frag_last_iff[OF k b(2)] that] by (simp add: add.commute)
  have whole: "frag_piece k b 0 = b" if "frag_cnt k b = 1" using that take_all[of] b(2) by (simp add: frag_piece_def)
  have first: "frag_piece k b 0 = take ((0 + 1) * k) b" by (simp add: frag_piece_def)
  consider "frag_cnt k b = 1" "i = 0" | "frag_cnt k b \<noteq> 1" "i = 0" "i + 1 < frag_cnt k b" | "0 < i" "i + 1 = frag_cnt k b" | "0 < i" "i + 1 < frag_cnt k b"
    using b(2) by linarith
  then show ?thesis
  proof cases
    case 1
    then show ?thesis using e b(1) whole by (simp add: frag_inv_def frag_step_def frag_kind_def Let_def frag_expect_def)
  next
    case 2
    then show ?thesis using e nx first by (force simp: frag_inv_def frag_step_def frag_kind_def Let_def frag_expect_def)
  next
    case 3
    then show ?thesis using e b(1) held take_all frag_piece_append[of i k b]
      by (auto simp: frag_inv_def frag_step_def frag_kind_def Let_def frag_expect_def split: option.split)
  next
    case 4
    then obtain i0 where i0: "i = Suc i0" by (cases i) auto
    have "take (i * k) b @ frag_piece k b i = take ((i + 1) * k) b" by (rule frag_piece_append)
    then show ?thesis using 4 e nx held[of "the (fr_defrag (frag_expect ?q e))"]
      by (cases "fr_defrag (frag_expect ?q e)") (force simp: frag_inv_def frag_step_def frag_kind_def Let_def frag_expect_def)+
  qed
qed

text \<open>The receiver's face before it has got anything.\<close>

definition frag_fresh :: "frag option \<Rightarrow> bool" where
  "frag_fresh fo \<longleftrightarrow> (case fo of None \<Rightarrow> True | Some e \<Rightarrow> fr_protocol e = CCNL_FRAG_BEGINEND2015 \<and> fr_defrag e = None)"

definition frag_idle :: "nat \<Rightarrow> frag \<Rightarrow> bool" where
  "frag_idle k fr \<longleftrightarrow> fr_protocol fr = CCNL_FRAG_BEGINEND2015 \<and> fr_mtu fr = int k + 13 \<and> fr_bigpkt fr = None"

lemma rx_frames_inv:
  assumes k: "0 < k" "k \<le> 65522" and N: "length (frag_list k ps) \<le> 16384"
  shows "set ws \<subseteq> set (frag_frames k s (frag_list k ps)) \<Longrightarrow> frag_inv k s ps (frag_rcv mtu fo, log) \<Longrightarrow>
    \<exists>fo' log'. rx_frames mtu ws (fo, log) = Inr (fo', log') \<and> set log' \<subseteq> set ps"
proof (induction ws arbitrary: fo log)
  case Nil
  then show ?case by (auto simp: frag_inv_def)
next
  case (Cons w ws)
  obtain j where j: "j < length (frag_list k ps)" "w = frag_frames k s (frag_list k ps) ! j"
    using Cons.prems(1) by (metis in_set_conv_nth length_frag_frames list.set_intros(1) subsetD)
  obtain b i where bi: "frag_list k ps ! j = (b, i)" by (cases "frag_list k ps ! j")
  have w: "w = frag_frame (frag_kind k b i) (s + of_nat j) (frag_piece k b i)" using frag_frames_nth[OF j(1) bi] j(2) by simp
  have p: "length (frag_piece k b i) \<le> 65522" using k by (simp add: length_frag_piece)
  have e: "fr_protocol (frag_rcv mtu fo) = CCNL_FRAG_BEGINEND2015" using Cons.prems(2) by (simp add: frag_inv_def)
  obtain e1 log1 where st: "frag_step (frag_kind k b i) (seq14 (s + of_nat j)) (frag_piece k b i) (frag_rcv mtu fo, log) = (e1, log1)"
    by (cases "frag_step (frag_kind k b i) (seq14 (s + of_nat j)) (frag_piece k b i) (frag_rcv mtu fo, log)")
  have "frag_inv k s ps (e1, log1)" using frag_step_inv[OF k(1) N Cons.prems(2) j(1) bi] st by simp
  then have "frag_inv k s ps (frag_rcv mtu (Some e1), log1)" by (simp add: frag_rcv_def)
  from Cons.IH[OF _ this] Cons.prems(1) show ?case
    using st by (simp add: w rx_frames_step[OF p frag_kind_small e] del: rx_frames.simps)
qed

lemma frag_frames_append: "frag_frames k s (xs @ ys) = frag_frames k s xs @ frag_frames k (s + of_nat (length xs)) ys"
  by (induction k s xs rule: frag_frames.induct) (simp_all add: algebra_simps)

text \<open>The rest of a packet, from its piece \<open>i\<close> on.\<close>

lemma rx_packet:
  assumes k: "0 < k" "k \<le> 65522"
  shows "i < frag_cnt k b \<Longrightarrow> unat s mod 16384 + (frag_cnt k b - i) \<le> 16384 \<Longrightarrow> fr_protocol (frag_rcv mtu fo) = CCNL_FRAG_BEGINEND2015 \<Longrightarrow>
    (0 < i \<Longrightarrow> fr_defrag (frag_rcv mtu fo) = Some (take (i * k) b) \<and> fr_recvseq (frag_rcv mtu fo) = seq14 s) \<Longrightarrow>
    \<exists>e. rx_frames mtu (frag_frames k s (map (Pair b) [i..<frag_cnt k b]) @ ws) (fo, log) = rx_frames mtu ws (Some e, log @ [b])
      \<and> fr_protocol e = CCNL_FRAG_BEGINEND2015"
proof (induction "frag_cnt k b - i" arbitrary: i s fo)
  case (Suc n)
  have p: "length (frag_piece k b i) \<le> 65522" using k by (simp add: length_frag_piece)
  have u: "[i..<frag_cnt k b] = i # [i + 1..<frag_cnt k b]" using Suc.prems(1) by (simp add: upt_conv_Cons)
  note st = rx_frames_step[OF p frag_kind_small Suc.prems(3)]
  have all: "take ((i + 1) * k) b = b" if "i + 1 = frag_cnt k b"
    using iffD1[OF frag_last_iff[OF k(1) Suc.prems(1)] that] by (simp add: add.commute)
  have app: "take (i * k) b @ frag_piece k b i = take ((i + 1) * k) b" by (rule frag_piece_append)
  show ?case
  proof (cases "i + 1 < frag_cnt k b")
    case False
    then have l: "i + 1 = frag_cnt k b" using Suc.prems(1) by simp
    have exp: "0 < i \<Longrightarrow> frag_expect (seq14 s) (frag_rcv mtu fo) = frag_rcv mtu fo" using Suc.prems(4) by (simp add: frag_expect_def)
    have none: "[i + 1..<frag_cnt k b] = []" using l by simp
    show ?thesis
      using l all app Suc.prems(3,4) exp unfolding u none list.map frag_frames.simps append.simps st
      by (cases "i = 0") (auto simp: frag_step_def frag_kind_def Let_def frag_expect_def)
  next
    case True
    have sq: "seq14 s + 1 = seq14 (s + 1)" using seq14_next[of s 0] True Suc.prems(2) by simp
    have um: "unat (s + 1) mod 16384 = unat s mod 16384 + 1"
      using unat_seq14[of "s + 1"] unat_seq14_Suc[of s] unat_seq14[of s] sq by simp
    have m: "n = frag_cnt k b - (i + 1)" and um2: "unat (s + 1) mod 16384 + (frag_cnt k b - (i + 1)) \<le> 16384"
      using Suc.hyps(2) True Suc.prems(2) um by linarith+
    define e1 where "e1 = fst (frag_step (frag_kind k b i) (seq14 s) (frag_piece k b i) (frag_rcv mtu fo, log))"
    have e1: "frag_step (frag_kind k b i) (seq14 s) (frag_piece k b i) (frag_rcv mtu fo, log) = (e1, log)"
      "fr_protocol e1 = CCNL_FRAG_BEGINEND2015" "fr_defrag e1 = Some (take ((i + 1) * k) b)" "fr_recvseq e1 = seq14 (s + 1)"
      using True Suc.prems(3,4) app sq unfolding e1_def
      by (cases "i = 0"; simp add: frag_step_def frag_kind_def Let_def frag_expect_def frag_piece_def split: option.split)+
    obtain e where "rx_frames mtu (frag_frames k (s + 1) (map (Pair b) [i + 1..<frag_cnt k b]) @ ws) (Some e1, log) = rx_frames mtu ws (Some e, log @ [b])"
      "fr_protocol e = CCNL_FRAG_BEGINEND2015"
      using Suc.hyps(1)[OF m True um2, of "Some e1"] e1 by (auto simp: frag_rcv_def)
    then show ?thesis unfolding u list.map frag_frames.simps append.simps st e1 by auto
  qed
qed simp

lemma rx_packets:
  assumes k: "0 < k" "k \<le> 65522"
  shows "list_all frag_packet ps \<Longrightarrow> unat s mod 16384 + length (frag_list k ps) \<le> 16384 \<Longrightarrow> fr_protocol (frag_rcv mtu fo) = CCNL_FRAG_BEGINEND2015 \<Longrightarrow>
    \<exists>fo'. rx_frames mtu (frag_frames k s (frag_list k ps)) (fo, log) = Inr (fo', log @ ps)"
proof (induction ps arbitrary: s fo log)
  case (Cons b ps)
  have c: "0 < frag_cnt k b" using Cons.prems(1) frag_cnt_iff[OF k(1), of 0 b] by (simp add: frag_packet_def)
  have n: "unat s mod 16384 + frag_cnt k b + length (frag_list k ps) \<le> 16384" using Cons.prems(2) by (simp add: frag_list_Cons)
  obtain e where e: "rx_frames mtu (frag_frames k s (map (Pair b) [0..<frag_cnt k b]) @ frag_frames k (s + of_nat (frag_cnt k b)) (frag_list k ps)) (fo, log)
      = rx_frames mtu (frag_frames k (s + of_nat (frag_cnt k b)) (frag_list k ps)) (Some e, log @ [b])" "fr_protocol e = CCNL_FRAG_BEGINEND2015"
    using rx_packet[OF k c, of s mtu fo "frag_frames k (s + of_nat (frag_cnt k b)) (frag_list k ps)" log] n Cons.prems(3) by auto
  show ?case
  proof (cases "ps = []")
    case True
    then show ?thesis using e by (simp add: frag_list_Cons frag_list_def)
  next
    case False
    then obtain b1 ps1 where "ps = b1 # ps1" by (cases ps) auto
    then have "0 < length (frag_list k ps)" using Cons.prems(1) frag_cnt_iff[OF k(1), of 0 b1] by (simp add: frag_packet_def frag_list_Cons)
    then have lt: "unat s mod 16384 + frag_cnt k b < 16384" using n by linarith
    have "unat (s + of_nat (frag_cnt k b)) mod 16384 = (unat s mod 16384 + frag_cnt k b) mod 16384"
      using unat_seq14_add[of s "frag_cnt k b"] unat_seq14[of "s + of_nat (frag_cnt k b)"] by (simp add: mod_add_left_eq)
    then have "unat (s + of_nat (frag_cnt k b)) mod 16384 = unat s mod 16384 + frag_cnt k b" using lt by simp
    then show ?thesis using Cons.IH[of "s + of_nat (frag_cnt k b)" "Some e" "log @ [b]"] Cons.prems(1) n e
      by (simp add: frag_list_Cons frag_frames_append frag_rcv_def)
  qed
qed (simp add: frag_list_def)

definition sample_frag :: frag where
  "sample_frag = \<lparr>fr_protocol = CCNL_FRAG_BEGINEND2015, fr_mtu = 15, fr_dest = Su_unspec, fr_bigpkt = None, fr_sendoffs = 0, fr_outsuite = 0,
     fr_ifndx = 0, fr_defrag = None, fr_sendseq = 0x10005, fr_recvseq = 0\<rparr>"

definition sample_packets :: "bytes list" where
  "sample_packets = [[1, 1, 7, 8, 9], [1, 0], [1, 0, 5]]"

lemma sample_packets_ok: "list_all frag_packet sample_packets"
proof -
  have "ccnl_pkt2suite [1, 1, 7, 8, 9] 0 (Suc (Suc (Suc (Suc (Suc 0))))) = Inr (CCNL_SUITE_CCNTLV, 0)" "ccnl_pkt2suite [1, 0] 0 (Suc (Suc 0)) = Inr (CCNL_SUITE_CCNTLV, 0)"
    "ccnl_pkt2suite [1, 0, 5] 0 (Suc (Suc (Suc 0))) = Inr (CCNL_SUITE_CCNTLV, 0)" by code_simp+
  then show ?thesis by (simp add: sample_packets_def frag_packet_def)
qed

lemma sample_packets_list: "frag_list 2 sample_packets = [([1, 1, 7, 8, 9], 0), ([1, 1, 7, 8, 9], 1), ([1, 1, 7, 8, 9], 2),
    ([1, 0], 0), ([1, 0, 5], 0), ([1, 0, 5], 1)]"
  by code_simp



text \<open>
  C24. Fragments in order are put together again: whatever the receiver held before, it gets exactly the
  packets that were sent, in their order, as long as the sequence numbers of 14 bits do not start anew.
\<close>

theorem fragments_roundtrip:
  assumes "frag_idle k fr" and "0 < k" and "k \<le> 65522" and "list_all frag_packet ps"
    and "unat (fr_sendseq fr) mod 16384 + length (frag_list k ps) \<le> 16384" and "length (frag_list k ps) < n"
    and "fo = None \<or> fr_protocol (the fo) = CCNL_FRAG_BEGINEND2015"
  shows "\<exists>fr' sent fo'. face_CTS_frag n ifndx peer fr ps = Inr (fr', [], sent) \<and> (\<forall>(w, i, a)\<in>set sent. i = ifndx \<and> a = peer)
    \<and> rx_frames mtu (map (\<lambda>(w, _, _). w) sent) (fo, []) = Inr (fo', ps)"
proof -
  have "frag_at k ifndx peer [] 0 (fr_sendseq fr) fr" using assms(1,2) by (simp add: frag_at_def frag_idle_def frag_cnt_def)
  then obtain fr' where c: "face_CTS_frag n ifndx peer fr ps = Inr (fr', [], map (\<lambda>w. (w, ifndx, peer)) (frag_frames k (fr_sendseq fr) (frag_list k ps)))"
    using face_CTS_frames[OF assms(2,3) _ assms(4), of ifndx peer "[]" 0 "fr_sendseq fr" fr n] assms(2,6) by (auto simp: frag_cnt_def)
  have "fr_protocol (frag_rcv mtu fo) = CCNL_FRAG_BEGINEND2015"
    using assms(7) by (auto simp: frag_rcv_def ccnl_frag_new_def split: option.splits)
  from rx_packets[OF assms(2,3,4,5) this, of "[]"] show ?thesis using c by (auto simp: comp_def)
qed

theorem fragments_roundtrip_witness:
  "\<exists>fr' sent fo'. face_CTS_frag 9 3 (Su_ip4 1 2) sample_frag sample_packets = Inr (fr', [], sent) \<and> (\<forall>(w, i, a)\<in>set sent. i = 3 \<and> a = Su_ip4 1 2)
    \<and> rx_frames 15 (map (\<lambda>(w, _, _). w) sent) (None, []) = Inr (fo', sample_packets)"
  by (rule fragments_roundtrip[where k = 2]) (simp_all add: sample_packets_ok sample_packets_list, simp_all add: frag_idle_def sample_frag_def)

section \<open>Where fragmentation fails\<close>

lemma rx_orphans:
  assumes k: "0 < k" "k \<le> 65522"
  shows "0 < i \<Longrightarrow> fr_protocol e = CCNL_FRAG_BEGINEND2015 \<Longrightarrow> fr_defrag e = None \<or> fr_recvseq e \<noteq> seq14 s \<Longrightarrow>
    \<exists>e'. rx_frames mtu (frag_frames k s (map (Pair b) [i..<frag_cnt k b])) (Some e, log) = Inr (Some e', log)"
proof (induction "frag_cnt k b - i" arbitrary: i s e)
  case (Suc n)
  have p: "length (frag_piece k b i) \<le> 65522" using k by (simp add: length_frag_piece)
  have u: "[i..<frag_cnt k b] = i # [i + 1..<frag_cnt k b]" using Suc.hyps(2) by (simp add: upt_conv_Cons)
  have pr: "fr_protocol (frag_rcv mtu (Some e)) = CCNL_FRAG_BEGINEND2015" using Suc.prems(2) by (simp add: frag_rcv_def)
  have "frag_step (frag_kind k b i) (seq14 s) (frag_piece k b i) (frag_rcv mtu (Some e), log)
      = ((frag_expect (seq14 s) e)\<lparr>fr_recvseq := seq14 s + 1\<rparr>, log)"
    using Suc.prems Suc.hyps(2) by (auto simp: frag_step_def frag_kind_def frag_expect_def frag_rcv_def Let_def)
  moreover have "fr_defrag (frag_expect (seq14 s) e) = None" using Suc.prems(3) by (auto simp: frag_expect_def)
  ultimately show ?case
    using Suc.hyps(1)[of "i + 1" "(frag_expect (seq14 s) e)\<lparr>fr_recvseq := seq14 s + 1\<rparr>" "s + 1"] Suc.hyps(2) Suc.prems(2)
    unfolding u list.map frag_frames.simps rx_frames_step[OF p frag_kind_small pr] by (auto simp: frag_expect_def)
qed simp

lemma frag_step_open:
  "fl = 0 \<or> fl = 1 \<Longrightarrow> fr_protocol e0 = CCNL_FRAG_BEGINEND2015 \<Longrightarrow>
    \<exists>e. frag_step fl s c (e0, log) = (e, log) \<and> fr_protocol e = CCNL_FRAG_BEGINEND2015 \<and> fr_recvseq e = s + 1"
  by (elim disjE) (cases "fr_defrag (frag_expect s e0)"; simp add: frag_step_def Let_def; simp add: frag_expect_def)+

text \<open>
  A packet is lost, without anything lost on the way, when the sequence numbers start anew between its
  fragments: the receiver counts on to 16384, which the field of 14 bits cannot hold.
\<close>

lemma rx_wrap_lost:
  assumes k: "0 < k" "k \<le> 65522"
  shows "i < frag_cnt k b \<Longrightarrow> 16384 < unat s mod 16384 + (frag_cnt k b - i) \<Longrightarrow> fr_protocol (frag_rcv mtu fo) = CCNL_FRAG_BEGINEND2015 \<Longrightarrow>
    \<exists>e. rx_frames mtu (frag_frames k s (map (Pair b) [i..<frag_cnt k b])) (fo, log) = Inr (Some e, log)"
proof (induction "frag_cnt k b - i" arbitrary: i s fo)
  case (Suc n)
  have m: "unat s mod 16384 < 16384" by simp
  have i1: "i + 1 < frag_cnt k b" using Suc.prems(2) m by linarith
  have p: "length (frag_piece k b i) \<le> 65522" using k by (simp add: length_frag_piece)
  have u: "[i..<frag_cnt k b] = i # [i + 1..<frag_cnt k b]" using Suc.prems(1) by (simp add: upt_conv_Cons)
  have op: "frag_kind k b i = 0 \<or> frag_kind k b i = 1" using i1 by (simp add: frag_kind_def)
  obtain e where st: "frag_step (frag_kind k b i) (seq14 s) (frag_piece k b i) (frag_rcv mtu fo, log) = (e, log)"
    "fr_protocol e = CCNL_FRAG_BEGINEND2015" "fr_recvseq e = seq14 s + 1"
    using frag_step_open[OF op Suc.prems(3), of "seq14 s" "frag_piece k b i" log] by blast
  show ?case
  proof (cases "unat s mod 16384 + 1 = 16384")
    case True
    have "unat (seq14 (s + 1)) < 16384" by (simp add: unat_seq14)
    then have "fr_recvseq e \<noteq> seq14 (s + 1)" using True st(3) unat_seq14_Suc[of s] unat_seq14[of s] by auto
    then show ?thesis using rx_orphans[OF k, of "i + 1" e "s + 1"] st
      unfolding u list.map frag_frames.simps rx_frames_step[OF p frag_kind_small Suc.prems(3)] by auto
  next
    case False
    then have "unat (s + 1) mod 16384 = unat s mod 16384 + 1"
      using seq14_next[of s 0] m unat_seq14[of "s + 1"] unat_seq14_Suc[of s] unat_seq14[of s] by simp
    then have l: "n = frag_cnt k b - (i + 1)" "16384 < unat (s + 1) mod 16384 + (frag_cnt k b - (i + 1))"
      using Suc.hyps(2) Suc.prems(2) i1 by linarith+
    show ?thesis using Suc.hyps(1)[OF l(1) i1 l(2), of "Some e"] st
      unfolding u list.map frag_frames.simps rx_frames_step[OF p frag_kind_small Suc.prems(3)] by (auto simp: frag_rcv_def)
  qed
qed simp

text \<open>With room for the header only, empty fragments are sent for ever.\<close>

lemma tiny_mtu_diverges:
  assumes "fr_protocol fr = CCNL_FRAG_BEGINEND2015" "fr_mtu fr = 13" "fr_bigpkt fr = Some b" "fr_sendoffs fr = 0" "fr_outsuite fr = CCNL_SUITE_CCNTLV"
    "frag_packet b"
  shows "face_CTS_frag n ifndx peer fr q = Inl Diverge"
  using assms
proof (induction n arbitrary: fr)
  case (Suc n)
  have "length b \<noteq> 0" "length b < 2 ^ 32" using Suc.prems(6) by (simp_all add: frag_packet_def)
  then have g: "\<exists>w. ccnl_frag_getnext fr = Inr (Some (w, fr_ifndx fr, fr_dest fr), fr\<lparr>fr_sendseq := fr_sendseq fr + 1, fr_sendoffs := 0, fr_bigpkt := Some b\<rparr>)"
    using Suc.prems by (simp add: ccnl_frag_getnext_def ccnl_frag_getnextBE2015_def ccnl_ccntlv_mkFrag_def slice_def Let_def)
  then obtain w where "ccnl_frag_getnext fr = Inr (Some (w, fr_ifndx fr, fr_dest fr), fr\<lparr>fr_sendseq := fr_sendseq fr + 1, fr_sendoffs := 0, fr_bigpkt := Some b\<rparr>)"
    by blast
  then show ?case using Suc.IH[of "fr\<lparr>fr_sendseq := fr_sendseq fr + 1, fr_sendoffs := 0, fr_bigpkt := Some b\<rparr>"] Suc.prems by simp
qed simp

text \<open>
  NDN: the return codes of \<open>ccnl_ndntlv_prependTL\<close> are taken for lengths, so the buffer has two bytes for the
  header that takes at least six.
\<close>

lemma prependTL_rc_eq:
  assumes "off \<le> length buf"
  shows "prependTL_rc type len (off, buf) =
    (if off < length (varlen_bytes len) then Inr (-1, off, buf)
     else if off < length (varlen_bytes len) + length (varlen_bytes type) then Inr (-1, splice (varlen_bytes len) (off, buf))
     else Inr (0, splice (varlen_bytes type @ varlen_bytes len) (off, buf)))"
proof -
  obtain off1 b1 where s: "splice (varlen_bytes len) (off, buf) = (off1, b1)" by (cases "splice (varlen_bytes len) (off, buf)")
  have o: "off1 = off - length (varlen_bytes len)" using s by (simp add: splice_def)
  show ?thesis
  proof (cases "off < length (varlen_bytes len)")
    case False
    then have b: "length b1 = length buf" "off1 \<le> length b1" using s assms length_snd_splice[of "varlen_bytes len" off buf] o by auto
    show ?thesis
      using False assms s o b splice_splice[of "varlen_bytes len" "varlen_bytes type" off buf]
      by (cases "off1 < length (varlen_bytes type)") (auto simp: prependTL_rc_def ndn_tlval.fits ndn_tlval.full)
  qed (use assms in \<open>simp add: prependTL_rc_def ndn_tlval.full\<close>)
qed

lemma varlen_short: "v < 253 \<Longrightarrow> length (varlen_bytes v) = 1" "253 \<le> v \<Longrightarrow> v \<le> 0xffff \<Longrightarrow> length (varlen_bytes v) = 3"
  "v \<le> 0xffffffff \<Longrightarrow> length (varlen_bytes v) \<le> 5"
  by (auto simp: varlen_bytes_def varlen_size_def)

lemma ndn_frag_hdrlen_two:
  assumes "0 \<le> mtu" "mtu \<le> 65535"
  shows "ndn_frag_hdrlen mtu rest = Inr 2"
proof -
  define d where "d = nat (if int rest > mtu then mtu else int rest)"
  have d: "(if int rest > mtu then mtu else int rest) = int d" "d \<le> 65535" using assms by (auto simp: d_def)
  have w: "(of_nat d :: u64) \<le> 0xffffffff" "2 + (of_nat d :: u64) \<le> 0xffffffff"
    using d(2) by (simp_all add: word_le_nat_alt unat_word_ariths unat_of_nat)
  note short = varlen_short(1)[of NDN_TLV_NdnlpFragment] varlen_short(1)[of NDN_TLV_Frag_BeginEndFields] varlen_short(1)[of NDN_TLV_Fragment]
    varlen_short(1)[of 2] varlen_short(3)[OF w(1)] varlen_short(3)[OF w(2)]
  have l: "length (varlen_bytes NDN_TLV_NdnlpFragment @ varlen_bytes (of_nat d)) \<le> 6" using short by simp
  have 1: "prependTL_rc NDN_TLV_NdnlpFragment (of_nat d) (20, replicate 20 0)
      = Inr (0, splice (varlen_bytes NDN_TLV_NdnlpFragment @ varlen_bytes (of_nat d)) (20, replicate 20 0))"
    using short by (simp add: prependTL_rc_eq)
  obtain o1 b1 where 2: "splice (varlen_bytes NDN_TLV_NdnlpFragment @ varlen_bytes (of_nat d)) (20, replicate 20 0) = (o1, b1)" "14 \<le> o1" "o1 \<le> length b1"
    using l length_snd_splice[of "varlen_bytes NDN_TLV_NdnlpFragment @ varlen_bytes (of_nat d)" 20 "replicate 20 0"] by (auto simp: splice_def)
  have 3: "prependTL_rc NDN_TLV_Frag_BeginEndFields 2 (o1, b1) = Inr (0, splice (varlen_bytes NDN_TLV_Frag_BeginEndFields @ varlen_bytes 2) (o1, b1))"
    using short 2 by (simp add: prependTL_rc_eq)
  obtain o2 b2 where 4: "splice (varlen_bytes NDN_TLV_Frag_BeginEndFields @ varlen_bytes 2) (o1, b1) = (o2, b2)" "12 \<le> o2" "o2 \<le> length b2"
    using 2 short length_snd_splice[of "varlen_bytes NDN_TLV_Frag_BeginEndFields @ varlen_bytes 2" o1 b1] by (auto simp: splice_def)
  have 5: "prependTL_rc NDN_TLV_Fragment (2 + of_nat d) (o2, b2) = Inr (0, splice (varlen_bytes NDN_TLV_Fragment @ varlen_bytes (2 + of_nat d)) (o2, b2))"
    using short 4 by (simp add: prependTL_rc_eq)
  show ?thesis unfolding ndn_frag_hdrlen_def d Let_def by (simp add: 1 2(1) 3 4(1) 5 split_def)
qed

text \<open>
  C37. No NDN fragment can be read by anybody: one with less than 253 bytes is written in front of its
  buffer, a longer one lacks all its headers and starts with the sequence number.
\<close>

theorem ndn_fragments_broken:
  assumes "fr_bigpkt fr = Some big" "unat (fr_sendoffs fr) < length big" "length big < 2 ^ 32" "2 \<le> fr_mtu fr" "fr_mtu fr \<le> 65535"
    "d = min (length big - unat (fr_sendoffs fr)) (nat (fr_mtu fr) - 2)"
  shows "ccnl_ndntlv_mkFrag fr = (if d < 253 then Inl Oob
      else Inr (Some (net16 (frag_fields fr big d) @ take d (drop (unat (fr_sendoffs fr)) big), d)))"
proof -
  let ?o = "unat (fr_sendoffs fr)"
  have rest: "wsub (length big) ?o = length big - ?o" using assms(2,3) by (intro wsub_le) simp_all
  have room: "unat (of_int (fr_mtu fr) - 2 :: u64) = nat (fr_mtu fr) - 2"
  proof -
    have "(of_int (fr_mtu fr) - 2 :: u64) = of_nat (nat (fr_mtu fr) - 2)" using assms(4) by (simp add: of_nat_diff)
    then show ?thesis using assms(5) by (simp add: unat_of_nat)
  qed
  have dd: "(if length big - ?o > nat (fr_mtu fr) - 2 then nat (fr_mtu fr) - 2 else length big - ?o) = d"
    using assms(6) by simp
  have d: "d \<le> 65533" "?o + d \<le> length big" using assms by auto
  define p where "p = take d (drop ?o big)"
  have p: "slice big ?o d = Inr p" "length p = d" using d by (auto simp: slice_def p_def)
  have h: "ndn_frag_hdrlen (fr_mtu fr) (length big - ?o) = Inr 2" using assms(4,5) by (intro ndn_frag_hdrlen_two) auto
  have w: "(of_nat d :: u64) < 253 \<longleftrightarrow> d < 253" "(of_nat d :: u64) \<le> 0xffff" using d(1) by (simp_all add: word_less_nat_alt word_le_nat_alt unat_of_nat)
  note short = varlen_short(1)[of NDN_TLV_NdnlpFragment] varlen_short(1)[of 2]
  have two: "unat (2 :: u64) = 2" "replicate 2 (0 :: byte) = [0, 0]" by (simp, simp add: numeral_2_eq_2)
  have start: "ccnl_ndntlv_mkFrag fr = bindE (prependTL_rc NDN_TLV_NdnlpFragment (of_nat d) (2, [0, 0] @ p)) (\<lambda>(r1, off1, b1).
      if off1 < 2 then Inl Oob
      else let b2 = take (off1 - 2) b1 @ net16 (frag_fields fr big d) @ drop off1 b1 in
        bindE (prependTL_rc NDN_TLV_Frag_BeginEndFields 2 (off1 - 2, b2)) (\<lambda>(r2, ob3).
        bindE (prependTL_rc NDN_TLV_Fragment (of_nat (d + 2 - fst ob3)) ob3) (\<lambda>(r3, off4, b4). Inr (Some (drop off4 b4, d)))))"
    unfolding ccnl_ndntlv_mkFrag_def assms(1) option.case Let_def rest h bindE_simps room dd p(1) two ..
  show ?thesis
  proof (cases "d < 253")
    case True
    then show ?thesis using short varlen_short(1)[of "of_nat d"] w unfolding start by (simp add: prependTL_rc_eq splice_def)
  next
    case False
    then have 3: "length (varlen_bytes (of_nat d)) = 3" using w by (intro varlen_short(2)) (simp_all add: not_less)
    have a: "prependTL_rc NDN_TLV_NdnlpFragment (of_nat d) (2, [0, 0] @ p) = Inr (-1, 2, [0, 0] @ p)" using 3 by (simp add: prependTL_rc_eq)
    have full: "prependTL_rc t l (0, b) = Inr (-1, 0, b)" for t l b
      by (simp add: prependTL_rc_eq)
    show ?thesis using False unfolding start a by (simp add: full p_def[symmetric])
  qed
qed

theorem ndn_fragments_broken_witness:
  "ccnl_ndntlv_mkFrag (sample_frag\<lparr>fr_bigpkt := Some [6, 2, 7, 0]\<rparr>) = Inl Oob
    \<and> ccnl_ndntlv_mkFrag (sample_frag\<lparr>fr_mtu := 300, fr_bigpkt := Some (replicate 400 6)\<rparr>)
      = Inr (Some (net16 (frag_fields (sample_frag\<lparr>fr_mtu := 300, fr_bigpkt := Some (replicate 400 6)\<rparr>) (replicate 400 6) 298) @ replicate 298 6, 298))"
  using ndn_fragments_broken[of "sample_frag\<lparr>fr_bigpkt := Some [6, 2, 7, 0]\<rparr>" "[6, 2, 7, 0]" 4]
    ndn_fragments_broken[of "sample_frag\<lparr>fr_mtu := 300, fr_bigpkt := Some (replicate 400 6)\<rparr>" "replicate 400 6" 298]
  by (simp add: sample_frag_def)

end
