(* ===== verification/Ctrl.thy ===== *)
theory Ctrl
  imports Mgmt
begin

text \<open>
  The control program, \<open>ccnl-utils/src/ccn-lite-ctrl.c\<close>: composing the requests that the management of
  a relay reads, and putting the pieces of its reply together.

  \<^item> Local arrays are not initialised in C. Of the small ones only the bytes written are read; \<open>out\<close>, the array a
    request is composed in, and the other memory that is read as it was are arguments.
  \<^item> A return code of -1 is \<open>Fail\<close>. A string from the command line has no 0 byte.
  \<^item> Freeing a pointer that did not come from \<open>malloc\<close> is \<open>Uaf\<close>, like the use of a freed one.
\<close>

section \<open>Pieces of a request\<close>

abbreviation (input) CCNL_SUITE_LAST :: int where "CCNL_SUITE_LAST \<equiv> 7"
abbreviation (input) CCN_DTAG_SIGNATURE :: u64 where "CCN_DTAG_SIGNATURE \<equiv> 37"
abbreviation (input) CCN_DTAG_SIGNATUREBITS :: u64 where "CCN_DTAG_SIGNATUREBITS \<equiv> 54"
abbreviation (input) CCNL_DTAG_DEBUGREQUEST :: u64 where "CCNL_DTAG_DEBUGREQUEST \<equiv> 99100"
abbreviation (input) CCNL_DTAG_DEBUGACTION :: u64 where "CCNL_DTAG_DEBUGACTION \<equiv> 99101"

text \<open>An end tag where the test of the room lacks the end tag itself.\<close>

definition mk_end_full :: "nat \<Rightarrow> outbuf \<Rightarrow> outbuf res" where
  "mk_end_full bufend ob = (if fst ob \<ge> bufend then Inl Fail else put_fwd [0] ob)"

definition ctrl_head :: "nat \<Rightarrow> outbuf \<Rightarrow> outbuf res" where
  "ctrl_head outlen out =
    bindE (ccnl_ccnb_mkHeader outlen CCN_DTAG_INTEREST CCN_TT_DTAG out) (ccnl_ccnb_mkHeader outlen CCN_DTAG_NAME CCN_TT_DTAG)"

text \<open>The first three components, in the array \<open>out1\<close> that ends at \<open>bufend\<close>.\<close>

definition ctrl_comps :: "nat \<Rightarrow> nat \<Rightarrow> bytes \<Rightarrow> outbuf res" where
  "ctrl_comps bufend n cmd =
    bindE (mk_str bufend CCN_DTAG_COMPONENT (Some (lit ''ccnx'')) (zeroed n)) (\<lambda>ob1.
    bindE (mk_str bufend CCN_DTAG_COMPONENT (Some []) ob1) (\<lambda>ob2.
    mk_str bufend CCN_DTAG_COMPONENT (Some cmd) ob2))"

text \<open>The statement as the content of an object.\<close>

definition ctrl_object :: "nat \<Rightarrow> (nat \<Rightarrow> outbuf \<Rightarrow> outbuf res) \<Rightarrow> outbuf \<Rightarrow> outbuf res" where
  "ctrl_object n endtag stmt =
    bindE (ccnl_ccnb_mkHeader n CCN_DTAG_CONTENTOBJ CCN_TT_DTAG (zeroed n)) (\<lambda>ob1.
    bindE (ccnl_ccnb_mkBlob n CCN_DTAG_CONTENT CCN_TT_DTAG (written stmt) ob1) (endtag n))"

text \<open>The object becomes the last component, and the name goes behind the head in \<open>out\<close>.\<close>

definition ctrl_close :: "nat \<Rightarrow> nat \<Rightarrow> outbuf \<Rightarrow> outbuf \<Rightarrow> outbuf \<Rightarrow> outbuf res" where
  "ctrl_close outlen n1 out comps obj =
    bindE (ccnl_ccnb_mkBlob n1 CCN_DTAG_COMPONENT CCN_TT_DTAG (written obj) comps) (\<lambda>ob1.
    if fst out + fst ob1 + 2 \<ge> outlen then Inl Fail
    else bindE (put_fwd (written ob1) out) (\<lambda>out1. put_fwd [0, 0] out1))"

definition ctrl_request :: "nat \<Rightarrow> outbuf \<Rightarrow> bytes \<Rightarrow> outbuf res \<Rightarrow> (nat \<Rightarrow> outbuf \<Rightarrow> outbuf res) \<Rightarrow> outbuf res" where
  "ctrl_request outlen out cmd stmt endtag =
    bindE (ctrl_head outlen out) (\<lambda>out1.
    bindE (ctrl_comps CCNL_MAX_PACKET_SIZE CCNL_MAX_PACKET_SIZE cmd) (\<lambda>comps.
    bindE stmt (\<lambda>st.
    bindE (ctrl_object 2000 endtag st) (ctrl_close outlen CCNL_MAX_PACKET_SIZE out1 comps))))"

section \<open>The requests\<close>

definition mkDebugRequest :: "nat \<Rightarrow> bytes \<Rightarrow> outbuf \<Rightarrow> outbuf res" where
  "mkDebugRequest outlen dbg out = ctrl_request outlen out (lit ''debug'')
    (bindE (ccnl_ccnb_mkHeader 1000 CCNL_DTAG_DEBUGREQUEST CCN_TT_DTAG (zeroed 1000)) (\<lambda>ob1.
     bindE (mk_str 1000 CCN_DTAG_ACTION (Some (lit ''debug'')) ob1) (\<lambda>ob2.
     bindE (mk_str 1000 CCNL_DTAG_DEBUGACTION (Some dbg) ob2) (mk_end 1000)))) mk_end"

definition mkNewEthDevRequest :: "nat \<Rightarrow> bytes option \<Rightarrow> bytes option \<Rightarrow> bytes option \<Rightarrow> bytes option \<Rightarrow> outbuf \<Rightarrow> outbuf res" where
  "mkNewEthDevRequest outlen devname ethtype frag flags out = ctrl_request outlen out (lit ''newdev'')
    (bindE (ccnl_ccnb_mkHeader 2000 CCNL_DTAG_DEVINSTANCE CCN_TT_DTAG (zeroed 2000)) (\<lambda>ob1.
     bindE (mk_str 2000 CCN_DTAG_ACTION (Some (lit ''newdev'')) ob1) (\<lambda>ob2.
     bindE (mk_opt 2000 CCNL_DTAG_DEVNAME devname ob2) (\<lambda>ob3.
     bindE (mk_opt 2000 CCN_DTAG_PORT ethtype ob3) (\<lambda>ob4.
     bindE (mk_opt 2000 CCNL_DTAG_FRAG frag ob4) (\<lambda>ob5.
     bindE (mk_opt 2000 CCNL_DTAG_DEVFLAGS flags ob5) (mk_end 2000))))))) mk_end"

definition mkNewUDPDevRequest :: "nat \<Rightarrow> bytes option \<Rightarrow> bytes option \<Rightarrow> bytes option \<Rightarrow> bytes option \<Rightarrow> bytes option \<Rightarrow> outbuf \<Rightarrow> outbuf res" where
  "mkNewUDPDevRequest outlen ip4src ip6src port frag flags out = ctrl_request outlen out (lit ''newdev'')
    (bindE (ccnl_ccnb_mkHeader 2000 CCNL_DTAG_DEVINSTANCE CCN_TT_DTAG (zeroed 2000)) (\<lambda>ob1.
     bindE (mk_str 2000 CCN_DTAG_ACTION (Some (lit ''newdev'')) ob1) (\<lambda>ob2.
     bindE (mk_opt 2000 CCNL_DTAG_IP4SRC ip4src ob2) (\<lambda>ob3.
     bindE (mk_opt 2000 CCNL_DTAG_IP6SRC ip6src ob3) (\<lambda>ob4.
     bindE (mk_opt 2000 CCN_DTAG_PORT port ob4) (\<lambda>ob5.
     bindE (mk_opt 2000 CCNL_DTAG_FRAG frag ob5) (\<lambda>ob6.
     bindE (mk_opt 2000 CCNL_DTAG_DEVFLAGS flags ob6) (mk_end 2000)))))))) mk_end"

text \<open>Nothing is written, and nothing added to the length.\<close>

definition mkDestroyDevRequest :: "outbuf \<Rightarrow> outbuf res" where
  "mkDestroyDevRequest out = Inr out"

text \<open>The hardware address is written with the others but counted for \<open>out\<close>: the next field overwrites it, and
  behind the head of the Interest a gap stays as it was.\<close>

definition mkNewFaceRequest :: "nat \<Rightarrow> bytes option \<Rightarrow> bytes option \<Rightarrow> bytes option \<Rightarrow> bytes option \<Rightarrow> bytes option
    \<Rightarrow> bytes option \<Rightarrow> bytes option \<Rightarrow> bytes option \<Rightarrow> outbuf \<Rightarrow> outbuf res" where
  "mkNewFaceRequest outlen macsrc ip4src ip6src wpan_addr wpan_panid host port flags out =
    bindE (ctrl_head outlen out) (\<lambda>out1.
    bindE (ctrl_comps CCNL_MAX_PACKET_SIZE CCNL_MAX_PACKET_SIZE (lit ''newface'')) (\<lambda>comps.
    bindE (ccnl_ccnb_mkHeader 2000 CCN_DTAG_FACEINSTANCE CCN_TT_DTAG (zeroed 2000)) (\<lambda>ob1.
    bindE (mk_str 2000 CCN_DTAG_ACTION (Some (lit ''newface'')) ob1) (\<lambda>ob2.
    bindE (mk_opt 2000 CCNL_DTAG_MACSRC macsrc ob2) (\<lambda>obm.
    let gap = fst obm - fst ob2; ob3 = (fst ob2, snd obm); out2 = (fst out1 + gap, snd out1) in
    bindE (if ip4src = None then Inr ob3
      else bindE (mk_opt 2000 CCNL_DTAG_IP4SRC ip4src ob3) (mk_str 2000 CCN_DTAG_IPPROTO (Some (lit ''17'')))) (\<lambda>ob4.
    bindE (if ip6src = None then Inr ob4
      else bindE (mk_opt 2000 CCNL_DTAG_IP6SRC ip6src ob4) (mk_str 2000 CCN_DTAG_IPPROTO (Some (lit ''17'')))) (\<lambda>ob5.
    bindE (mk_opt 2000 CCN_DTAG_HOST host ob5) (\<lambda>ob6.
    bindE (mk_opt 2000 CCN_DTAG_PORT port ob6) (\<lambda>ob7.
    bindE (if wpan_addr = None \<or> wpan_panid = None then Inr ob7
      else bindE (mk_opt 2000 CCNL_DTAG_WPANADR wpan_addr ob7) (mk_opt 2000 CCNL_DTAG_WPANPANID wpan_panid)) (\<lambda>ob8.
    bindE (mk_opt 2000 CCNL_DTAG_FACEFLAGS flags ob8) (\<lambda>ob9.
    bindE (mk_end_full 2000 ob9) (\<lambda>st.
    bindE (ctrl_object 2000 mk_end_full st) (ctrl_close outlen CCNL_MAX_PACKET_SIZE out2 comps)))))))))))))"

definition mkNewUNIXFaceRequest :: "nat \<Rightarrow> bytes option \<Rightarrow> bytes option \<Rightarrow> outbuf \<Rightarrow> outbuf res" where
  "mkNewUNIXFaceRequest outlen path flags out = ctrl_request outlen out (lit ''newface'')
    (bindE (ccnl_ccnb_mkHeader 2000 CCN_DTAG_FACEINSTANCE CCN_TT_DTAG (zeroed 2000)) (\<lambda>ob1.
     bindE (mk_str 2000 CCN_DTAG_ACTION (Some (lit ''newface'')) ob1) (\<lambda>ob2.
     bindE (mk_opt 2000 CCNL_DTAG_UNIXSRC path ob2) (\<lambda>ob3.
     bindE (mk_opt 2000 CCNL_DTAG_FACEFLAGS flags ob3) (mk_end_full 2000))))) mk_end_full"

definition mkDestroyFaceRequest :: "nat \<Rightarrow> bytes \<Rightarrow> outbuf \<Rightarrow> outbuf res" where
  "mkDestroyFaceRequest outlen faceid out = ctrl_request outlen out (lit ''destroyface'')
    (bindE (ccnl_ccnb_mkHeader 2000 CCN_DTAG_FACEINSTANCE CCN_TT_DTAG (zeroed 2000)) (\<lambda>ob1.
     bindE (mk_str 2000 CCN_DTAG_ACTION (Some (lit ''destroyface'')) ob1) (\<lambda>ob2.
     bindE (mk_str 2000 CCN_DTAG_FACEID (Some faceid) ob2) (mk_end_full 2000)))) mk_end_full"

definition mkSetfragRequest :: "nat \<Rightarrow> bytes \<Rightarrow> bytes \<Rightarrow> bytes \<Rightarrow> outbuf \<Rightarrow> outbuf res" where
  "mkSetfragRequest outlen faceid frag mtu out = ctrl_request outlen out (lit ''setfrag'')
    (bindE (ccnl_ccnb_mkHeader 2000 CCN_DTAG_FACEINSTANCE CCN_TT_DTAG (zeroed 2000)) (\<lambda>ob1.
     bindE (mk_str 2000 CCN_DTAG_ACTION (Some (lit ''setfrag'')) ob1) (\<lambda>ob2.
     bindE (mk_str 2000 CCN_DTAG_FACEID (Some faceid) ob2) (\<lambda>ob3.
     bindE (mk_str 2000 CCNL_DTAG_FRAG (Some frag) ob3) (\<lambda>ob4.
     bindE (mk_str 2000 CCNL_DTAG_MTU (Some mtu) ob4) (mk_end_full 2000)))))) mk_end_full"

section \<open>Names in requests\<close>

text \<open>\<open>strtok (path, "/")\<close> until it returns NULL.\<close>

definition path_tokens :: "bytes \<Rightarrow> bytes list" where
  "path_tokens path = filter (\<lambda>t. t \<noteq> []) (split_at 0x2f (c_str path))"

text \<open>The bytes of a component: with a type and a length in front of it in CCNx TLV. The length is kept in 16 bits.\<close>

definition ctrl_component :: "int \<Rightarrow> bytes \<Rightarrow> bytes" where
  "ctrl_component suite c = (if suite = CCNL_SUITE_CCNTLV
     then take ((length c + 4) mod 2 ^ 16) ([0, 1] @ be_bytes 2 (of_nat (length c)) @ c) else c)"

text \<open>When a component does not fit it is freed, also where it is a piece of the command line.\<close>

fun ctrl_components :: "nat \<Rightarrow> nat \<Rightarrow> int \<Rightarrow> bytes list \<Rightarrow> outbuf \<Rightarrow> outbuf res" where
  "ctrl_components maxlen bufend suite [] ob = Inr ob"
| "ctrl_components maxlen bufend suite (c # cs) ob =
    (if length c > maxlen then Inl Fail
     else case ccnl_ccnb_mkBlob bufend CCN_DTAG_COMPONENT CCN_TT_DTAG (ctrl_component suite c) ob of
        Inl e \<Rightarrow> if e = Fail \<and> suite \<noteq> CCNL_SUITE_CCNTLV then Inl Uaf else Inl e
      | Inr ob1 \<Rightarrow> ctrl_components maxlen bufend suite cs ob1)"

text \<open>The string of the suite has one byte and no end.\<close>

definition suite_str1 :: "int \<Rightarrow> bytes res" where
  "suite_str1 suite = (if (of_int suite :: byte) = 0 then Inr [] else Inl Oob)"

text \<open>\<open>outend\<close> is where \<open>out + outlen\<close> lies as seen from \<open>out1\<close>.\<close>

definition mkEchoserverRequest :: "nat \<Rightarrow> nat \<Rightarrow> bytes \<Rightarrow> int \<Rightarrow> outbuf \<Rightarrow> outbuf res" where
  "mkEchoserverRequest outend outlen path suite out =
    bindE (ctrl_head outlen out) (\<lambda>out1.
    bindE (ctrl_comps outend CCNL_MAX_PACKET_SIZE (lit ''echoserver'')) (\<lambda>comps.
    bindE (ccnl_ccnb_mkHeader 2000 CCN_DTAG_FWDINGENTRY CCN_TT_DTAG (zeroed 2000)) (\<lambda>ob1.
    bindE (mk_str 2000 CCN_DTAG_ACTION (Some (lit ''echoserver'')) ob1) (\<lambda>ob2.
    bindE (ccnl_ccnb_mkHeader 2000 CCN_DTAG_NAME CCN_TT_DTAG ob2) (\<lambda>ob3.
    bindE (ctrl_components 65534 2000 suite (path_tokens path) ob3) (\<lambda>ob4.
    bindE (mk_end_full 2000 ob4) (\<lambda>ob5.
    bindE (suite_str1 suite) (\<lambda>s.
    bindE (mk_str 2000 CCNL_DTAG_SUITE (Some s) ob5) (\<lambda>ob6.
    bindE (mk_end_full 2000 ob6) (\<lambda>st.
    bindE (ctrl_object 2000 mk_end_full st) (ctrl_close outlen CCNL_MAX_PACKET_SIZE out1 comps)))))))))))"

definition reg_cmd :: "bool \<Rightarrow> bytes" where
  "reg_cmd reg = (if reg then lit ''prefixreg'' else lit ''prefixunreg'')"

definition mkPrefixregRequest :: "nat \<Rightarrow> bool \<Rightarrow> bytes \<Rightarrow> bytes \<Rightarrow> int \<Rightarrow> outbuf \<Rightarrow> outbuf res" where
  "mkPrefixregRequest outlen reg path faceid suite out = ctrl_request outlen out (reg_cmd reg)
    (bindE (ccnl_ccnb_mkHeader 2000 CCN_DTAG_FWDINGENTRY CCN_TT_DTAG (zeroed 2000)) (\<lambda>ob1.
     bindE (mk_str 2000 CCN_DTAG_ACTION (Some (reg_cmd reg)) ob1) (\<lambda>ob2.
     bindE (ccnl_ccnb_mkHeader 2000 CCN_DTAG_NAME CCN_TT_DTAG ob2) (\<lambda>ob3.
     bindE (ctrl_components 65535 2000 suite (path_tokens path) ob3) (\<lambda>ob4.
     bindE (mk_end 2000 ob4) (\<lambda>ob5.
     bindE (mk_str 2000 CCN_DTAG_FACEID (Some faceid) ob5) (\<lambda>ob6.
     bindE (mk_str 2000 CCNL_DTAG_SUITE (Some [of_int suite]) ob6) (mk_end 2000)))))))) mk_end"

text \<open>The name of the packet in a file. \<open>None\<close> is the NULL pointer.\<close>

definition prefix_parse :: "int \<Rightarrow> bytes \<Rightarrow> nat \<Rightarrow> (pkt \<times> cursor) res" where
  "prefix_parse suite m n =
    (if suite = CCNL_SUITE_CCNB then
       bindE (ccnl_ccnb_dehead m (0, n)) (\<lambda>(hd, cur). case hd of
           Some (num, typ) \<Rightarrow> if typ = CCN_TT_DTAG then ccnl_ccnb_bytes2pkt m cur else Inl Fail
         | None \<Rightarrow> Inl Fail)
     else if suite = CCNL_SUITE_CCNTLV then
       bindE (ccnl_ccntlv_getHdrLen m 0 n) (\<lambda>hdrlen.
         if hdrlen > 0 then ccnl_ccntlv_bytes2pkt m (hdrlen, wsub n hdrlen) else Inl Fail)
     else if suite = CCNL_SUITE_NDNTLV then
       bindE (ccnl_ndntlv_dehead m (0, n)) (\<lambda>(hd, cur). case hd of
           None \<Rightarrow> Inl Fail
         | Some (typ, len) \<Rightarrow> ccnl_ndntlv_bytes2pkt typ m cur)
     else Inl Fail)"

definition getPrefix :: "bytes \<Rightarrow> nat \<Rightarrow> (prefix option \<times> int) res" where
  "getPrefix d datalen = bindE (ccnl_pkt2suite d 0 datalen) (\<lambda>(suite, skip).
    if suite < 0 \<or> suite \<ge> CCNL_SUITE_LAST then Inr (None, suite)
    else case prefix_parse suite (drop skip d) (wsub datalen skip) of
        Inl e \<Rightarrow> if e = Fail then Inr (None, suite) else Inl e
      | Inr (pk, cur) \<Rightarrow> Inr (map_option ccnl_prefix_dup (pkt_pfx pk), suite))"

text \<open>\<open>snprintf\<close> into 12 bytes.\<close>

definition num_blob :: "u64 \<Rightarrow> int \<Rightarrow> outbuf \<Rightarrow> outbuf res" where
  "num_blob tag i ob = ccnl_ccnb_mkBlob 4000 tag CCN_TT_DTAG (take 11 (dec_str i)) ob"

text \<open>The file is the whole memory it is read into, less the 0 byte behind it; \<open>None\<close> when it cannot be opened.
  The result has the suite of the packet too.\<close>

definition mkAddToRelayCacheRequest :: "nat \<Rightarrow> bytes option \<Rightarrow> outbuf \<Rightarrow> (outbuf \<times> int) res" where
  "mkAddToRelayCacheRequest outlen file out = (case file of None \<Rightarrow> Inl Fail | Some b \<Rightarrow>
    bindE (getPrefix (b @ [0]) (length b)) (\<lambda>(po, suite). case po of None \<Rightarrow> Inl Fail | Some p \<Rightarrow>
    bindE (case ccnl_prefix_to_str_detailed p False True CCNL_MAX_PREFIX_SIZE of
        Inl e \<Rightarrow> if e = Fail then Inr None else Inl e | Inr s \<Rightarrow> Inr (Some s)) (\<lambda>name.
    bindE (ctrl_head outlen out) (\<lambda>out1.
    bindE (ctrl_comps 5000 5000 (lit ''addcacheobject'')) (\<lambda>comps.
    bindE (mk_str 1000 CCN_DTAG_COMPONENT name (zeroed 1000)) (\<lambda>st.
    bindE (ccnl_ccnb_mkHeader 4000 CCN_DTAG_CONTENTOBJ CCN_TT_DTAG (zeroed 4000)) (\<lambda>ob1.
    bindE (num_blob CCNL_DTAG_SUITE suite ob1) (\<lambda>ob2.
    bindE (num_blob CCNL_DTAG_CHUNKNUM (case pfx_chunknum p of None \<Rightarrow> 0 | Some c \<Rightarrow> sint c) ob2) (\<lambda>ob3.
    bindE (num_blob CCNL_DTAG_CHUNKFLAG (if pfx_chunknum p = None then 0 else 1) ob3) (\<lambda>ob4.
    bindE (ccnl_ccnb_mkBlob 4000 CCN_DTAG_NAME CCN_TT_DTAG (written st) ob4) (\<lambda>ob5.
    bindE (mk_end 4000 ob5) (\<lambda>obj.
    bindE (ctrl_close outlen 5000 out1 comps obj) (\<lambda>out2. Inr (out2, suite))))))))))))))"

text \<open>How many characters of \<open>s\<close> belong to its first piece, and the piece.\<close>

definition split_string :: "bytes \<Rightarrow> byte \<Rightarrow> nat \<times> bytes" where
  "split_string s c = (if s = [] then (0, [])
     else let i = (if hd s = c then 1 else 0); w = takeWhile (\<lambda>x. x \<noteq> c) (drop i s) in (i + length w, w))"

text \<open>The pieces are copied into 256 bytes, whatever their length.\<close>

function add_name_loop :: "nat \<Rightarrow> bytes \<Rightarrow> outbuf \<Rightarrow> outbuf res" where
  "add_name_loop bufend path ob = (case split_string path 0x2f of (h, piece) \<Rightarrow>
    if h = 0 then Inr ob
    else if length piece \<ge> 256 then Inl Oob
    else (case mk_str bufend CCN_DTAG_COMPONENT (Some piece) ob of
        Inl e \<Rightarrow> Inl e
      | Inr ob1 \<Rightarrow> add_name_loop bufend (drop h path) ob1))"
  by pat_completeness auto

termination add_name_loop
  by (relation "measure (\<lambda>(bufend, path, ob). length path)") (auto simp: split_string_def Let_def split: if_splits)

declare add_name_loop.simps [simp del]

definition add_ccnl_name :: "nat \<Rightarrow> bytes \<Rightarrow> outbuf \<Rightarrow> outbuf res" where
  "add_ccnl_name bufend path ob =
    bindE (ccnl_ccnb_mkHeader bufend CCN_DTAG_NAME CCN_TT_DTAG ob) (\<lambda>ob1.
    bindE (add_name_loop bufend (c_str path) ob1) (mk_end bufend))"

text \<open>The room for the end of the statement and of the object is not tested.\<close>

definition mkRemoveFormRelayCacheRequest :: "nat \<Rightarrow> bytes \<Rightarrow> outbuf \<Rightarrow> outbuf res" where
  "mkRemoveFormRelayCacheRequest outlen path out =
    bindE (ctrl_head outlen out) (\<lambda>out1.
    bindE (ctrl_comps CCNL_MAX_PACKET_SIZE CCNL_MAX_PACKET_SIZE (lit ''removecacheobject'')) (\<lambda>comps.
    bindE (ccnl_ccnb_mkHeader 2000 CCN_DTAG_CONTENT CCN_TT_DTAG (zeroed 2000)) (\<lambda>ob1.
    bindE (add_ccnl_name 2000 path ob1) (\<lambda>ob2.
    bindE (put_fwd [0] ob2) (\<lambda>st.
    bindE (ctrl_object 10000 (\<lambda>_. put_fwd [0]) st) (ctrl_close outlen CCNL_MAX_PACKET_SIZE out1 comps))))))"

text \<open>The Interest for the next piece of a reply.\<close>

definition make_next_seg_debug_interest :: "nat \<Rightarrow> nat \<Rightarrow> outbuf \<Rightarrow> outbuf res" where
  "make_next_seg_debug_interest num outlen out =
    bindE (ctrl_head outlen out) (\<lambda>ob1.
    bindE (mk_str outlen CCN_DTAG_COMPONENT (Some (lit ''mgmt'')) ob1) (\<lambda>ob2.
    bindE (mk_str outlen CCN_DTAG_COMPONENT (Some (lit ''seqnum-'' @ dec_str (int num))) ob2) (\<lambda>ob3.
    if fst ob3 + 2 \<ge> outlen then Inl Fail else put_fwd [0, 0] ob3)))"

section \<open>The reply\<close>

text \<open>
  Where \<open>ccnl_ccnb_consume\<close> leaves the cursor, and whether it succeeds: \<open>d\<close> tags are open. A search that fails
  leaves it where it got to, and the caller goes on there.
\<close>

function consume_stop :: "bytes \<Rightarrow> nat \<Rightarrow> cursor \<Rightarrow> (bool \<times> cursor) res" where
  "consume_stop m d cur = (case ccnl_ccnb_dehead m cur of
      Inl e \<Rightarrow> Inl e
    | Inr (None, cur1) \<Rightarrow> Inr (False, cur1)
    | Inr (Some (num, typ), (p, n)) \<Rightarrow>
        if num = 0 \<and> typ = 0 then (if d = 0 then Inr (True, (p, n)) else consume_stop m (d - 1) (p, n))
        else if typ = CCN_TT_BLOB \<or> typ = CCN_TT_UDATA then consume_stop m d (p + unat num, wsub n (unat num))
        else if typ = CCN_TT_DTAG \<or> typ = CCN_TT_DATTR then consume_stop m (d + 1) (p, n)
        else Inr (False, (p, n)))"
  by pat_completeness auto

termination consume_stop
  by (relation "measure (\<lambda>(m, d, cur). length m - fst cur)") (auto dest!: ccnb_dehead_progress)

declare consume_stop.simps [simp del]

lemma consume_stop_progress: "consume_stop m d cur = Inr (ok, cur') \<Longrightarrow> fst cur \<le> fst cur'"
proof (induction m d cur rule: consume_stop.induct)
  case (1 m d cur)
  obtain x where x: "ccnl_ccnb_dehead m cur = Inr x"
    using 1(4) by (subst (asm) consume_stop.simps) (auto split: sum.splits)
  obtain h p n where h: "x = (h, (p, n))" by (cases x) auto
  show ?case
  proof (cases h)
    case None
    have "(p, n) = cur" using x h None
      by (auto simp: ccnl_ccnb_dehead_def bindE_eq_Inr_iff split: prod.splits if_splits option.splits)
    then show ?thesis using 1(4) x h None by (subst (asm) consume_stop.simps) auto
  next
    case (Some y)
    obtain num tt where y: "y = (num, tt)" by (cases y)
    have hd1: "ccnl_ccnb_dehead m cur = Inr (Some (num, tt), (p, n))" using x h Some y by simp
    have pos: "fst cur < p" using ccnb_after_head(2)[OF hd1, of "(p, n)"] by simp
    have run: "(if num = 0 \<and> tt = 0 then (if d = 0 then Inr (True, (p, n)) else consume_stop m (d - 1) (p, n))
        else if tt = CCN_TT_BLOB \<or> tt = CCN_TT_UDATA then consume_stop m d (p + unat num, wsub n (unat num))
        else if tt = CCN_TT_DTAG \<or> tt = CCN_TT_DATTR then consume_stop m (d + 1) (p, n)
        else Inr (False, (p, n))) = Inr (ok, cur')" using 1(4) hd1 by (subst (asm) consume_stop.simps) simp
    consider (fin) "num = 0 \<and> tt = 0" "d \<noteq> 0" | (blob) "\<not> (num = 0 \<and> tt = 0)" "tt = CCN_TT_BLOB \<or> tt = CCN_TT_UDATA"
      | (nest) "\<not> (num = 0 \<and> tt = 0)" "\<not> (tt = CCN_TT_BLOB \<or> tt = CCN_TT_UDATA)" "tt = CCN_TT_DTAG \<or> tt = CCN_TT_DATTR"
      | (stop) "cur' = (p, n)" using run by (auto split: if_splits)
    then show ?thesis
    proof cases
      case fin
      then show ?thesis using 1(1)[OF hd1 refl refl refl refl fin(1)] run pos by simp
    next
      case blob
      then show ?thesis using 1(2)[OF hd1 refl refl refl refl blob] run pos blob by (auto split: if_splits)
    next
      case nest
      then show ?thesis using 1(3)[OF hd1 refl refl refl refl nest] run pos nest by (auto split: if_splits)
    qed (use pos in simp)
  qed
qed

text \<open>Signatures are not verified in this build: the result is 0. What is read is copied first.\<close>

definition sig_consume :: "bytes \<Rightarrow> u64 \<Rightarrow> u8 \<Rightarrow> cursor \<Rightarrow> (bool \<times> cursor) res" where
  "sig_consume m num typ cur = (case cur of (p, n) \<Rightarrow>
     if typ = CCN_TT_BLOB \<or> typ = CCN_TT_UDATA then Inr (True, (p + unat num, wsub n (unat num)))
     else if typ = CCN_TT_DTAG \<or> typ = CCN_TT_DATTR then consume_stop m 0 (p, n)
     else Inr (False, (p, n)))"

lemma sig_consume_progress: "sig_consume m num typ cur = Inr (ok, cur') \<Longrightarrow> fst cur \<le> fst cur'"
  by (cases cur) (auto simp: sig_consume_def dest!: consume_stop_progress split: if_splits)

function handle_ccn_signature :: "bytes \<Rightarrow> cursor \<Rightarrow> cursor res" where
  "handle_ccn_signature m cur = (case ccnl_ccnb_dehead m cur of
      Inl e \<Rightarrow> Inl e
    | Inr (None, cur1) \<Rightarrow> Inr cur1
    | Inr (Some (num, typ), cur1) \<Rightarrow>
        if num = 0 \<and> typ = 0 then Inr cur1
        else (case sig_consume m num typ cur1 of
            Inl e \<Rightarrow> Inl e
          | Inr (ok, cur2) \<Rightarrow>
              if \<not> ok then Inr cur2
              else if typ = CCN_TT_DTAG \<and> num \<in> {CCN_DTAG_NAME, CCN_DTAG_SIGNATUREBITS} then
                bindE (ccnl_ccnb_consume m typ num cur1 None) (\<lambda>(_, v). bindE (blob_val v) (\<lambda>(cp, len).
                bindE (slice m cp len) (\<lambda>_. handle_ccn_signature m cur2)))
              else handle_ccn_signature m cur2))"
  by pat_completeness auto

termination handle_ccn_signature
  by (relation "measure (\<lambda>(m, cur). length m - fst cur)")
    (auto intro: ccnb_after_head dest!: sig_consume_progress)

declare handle_ccn_signature.simps [simp del]

text \<open>
  One piece of a reply: whether there are more, and the content with \<open>None\<close> when the routine returns
  before it. The marker of the last piece is copied into five bytes, \<open>junk\<close> at first, whatever its length.
\<close>

definition seg_last :: "bytes \<Rightarrow> bytes \<Rightarrow> cursor \<Rightarrow> nat \<Rightarrow> (bool \<times> cursor) res" where
  "seg_last junk m cur num = (case cur of (p, n) \<Rightarrow>
    if num > 5 then Inl Oob
    else bindE (slice m p num) (\<lambda>s.
      Inr (c_str (take 4 (s @ drop num junk)) = lit ''last'', (p + (num + 1), wsub n (num + 1)))))"

definition check_has_next :: "bytes \<Rightarrow> bytes \<Rightarrow> cursor \<Rightarrow> (bool \<times> bytes option) res" where
  "check_has_next junk m cur0 =
    bindE (mgmt_expect m cur0 (is_dtag CCN_DTAG_CONTENTOBJ)) (\<lambda>a. case a of None \<Rightarrow> Inr (False, None) | Some (_, cur1) \<Rightarrow>
    bindE (ccnl_ccnb_dehead m cur1) (\<lambda>(h, cur2). case h of None \<Rightarrow> Inr (False, None) | Some (num, typ) \<Rightarrow>
    if num = CCN_DTAG_SIGNATURE \<and> typ \<noteq> CCN_TT_DTAG then Inr (False, None)
    else bindE (if num = CCN_DTAG_SIGNATURE then bindE (handle_ccn_signature m cur2) (ccnl_ccnb_dehead m)
        else Inr (Some (num, typ), cur2)) (\<lambda>(h3, cur3). case h3 of None \<Rightarrow> Inr (False, None) | Some (num3, typ3) \<Rightarrow>
    if \<not> is_dtag CCNL_DTAG_FRAG num3 typ3 then Inr (False, None)
    else bindE (ccnl_ccnb_dehead m cur3) (\<lambda>(h4, cur4). case h4 of None \<Rightarrow> Inr (False, None) | Some (num4, typ4) \<Rightarrow>
    bindE (if num4 = CCN_DTAG_ANY then
          bindE (ccnl_ccnb_dehead m cur4) (\<lambda>(h5, cur5). case h5 of None \<Rightarrow> Inr None | Some (num5, typ5) \<Rightarrow>
          bindE (seg_last junk m cur5 (unat num5)) (\<lambda>(lst, cur6).
          bindE (ccnl_ccnb_dehead m cur6) (\<lambda>(h7, cur7). Inr (map_option (\<lambda>x. (lst, x, cur7)) h7))))
        else Inr (Some (False, (num4, typ4), cur4))) (\<lambda>b. case b of None \<Rightarrow> Inr (False, None) | Some (lst, (num8, typ8), cur8) \<Rightarrow>
    if \<not> is_dtag CCN_DTAG_CONTENTDIGEST num8 typ8 then Inr (False, None)
    else bindE (mgmt_expect m cur8 (\<lambda>num typ. typ = CCN_TT_BLOB)) (\<lambda>c. case c of None \<Rightarrow> Inr (False, None) | Some (num, (p, _)) \<Rightarrow>
    bindE (slice m p (unat num)) (\<lambda>d. Inr (\<not> lst, Some d))))))))"

end
