(* ===== verification/Ctrl_Wire.thy ===== *)
theory Ctrl_Wire
  imports Ctrl
begin

text \<open>
  CCNb on the wire. The routines that write forward all add a fixed byte string, the contract \<open>appender\<close>; the
  heads and fields in closed form; and that the readers find in a memory what stands there.
\<close>

section \<open>Writing forward\<close>

definition put_at :: "bytes \<Rightarrow> outbuf \<Rightarrow> outbuf" where
  "put_at xs ob = (fst ob + length xs, take (fst ob) (snd ob) @ xs @ drop (fst ob + length xs) (snd ob))"

lemma put_at_append: "fst ob + length (xs @ ys) \<le> length (snd ob) \<Longrightarrow> put_at ys (put_at xs ob) = put_at (xs @ ys) ob"
  by (simp add: put_at_def min_absorb1 add.commute add.left_commute)

lemma put_fwd_eq: "put_fwd xs ob = (if fst ob + length xs \<le> length (snd ob) then Inr (put_at xs ob) else Inl Oob)"
  by (simp add: put_fwd_def wrs_def put_at_def)

lemma length_put_at: "fst ob + length xs \<le> length (snd ob) \<Longrightarrow> length (snd (put_at xs ob)) = length (snd ob)"
  by (simp add: put_at_def)

lemma fst_put_at [simp]: "fst (put_at xs ob) = fst ob + length xs"
  by (simp add: put_at_def)

lemma put_fwd_twice [simp]: "bindE (put_fwd xs ob) (put_fwd ys) = put_fwd (xs @ ys) ob"
  by (auto simp: put_fwd_eq put_at_append length_put_at)

lemma written_put_at: "fst ob + length xs \<le> length (snd ob) \<Longrightarrow> written (put_at xs ob) = written ob @ xs"
  by (simp add: put_at_def written_def)

lemma written_zeroed [simp]: "written (zeroed n) = []" "fst (zeroed n) = 0" "length (snd (zeroed n)) = n"
  by (simp_all add: zeroed_def written_def)

text \<open>A routine that appends \<open>enc\<close> in front of \<open>bufend\<close>: it does when there is room for one byte more, and it does
  whenever it succeeds.\<close>

locale appender =
  fixes f :: "nat \<Rightarrow> outbuf \<Rightarrow> outbuf res" and enc :: bytes
  assumes fits: "fst ob + length enc < bufend \<Longrightarrow> bufend \<le> length (snd ob) \<Longrightarrow> f bufend ob = Inr (put_at enc ob)"
    and result: "fst ob \<le> length (snd ob) \<Longrightarrow> f bufend ob = Inr ob' \<Longrightarrow> fst ob + length enc \<le> length (snd ob) \<and> ob' = put_at enc ob"
begin

lemma fresh: "length enc < n \<Longrightarrow> f n (zeroed n) = Inr (put_at enc (zeroed n))"
  by (rule fits) simp_all

lemma adds: "fst ob \<le> length (snd ob) \<Longrightarrow> f bufend ob = Inr ob' \<Longrightarrow> written ob' = written ob @ enc"
  using result written_put_at by blast

lemma fresh_adds: "f n (zeroed n) = Inr ob' \<Longrightarrow> written ob' = enc \<and> fst ob' = length enc"
  using adds[of "zeroed n" n ob'] result[of "zeroed n" n ob'] by auto

end

lemma appender_then:
  assumes a: "appender f a" and b: "appender g b"
  shows "appender (\<lambda>n ob. bindE (f n ob) (g n)) (a @ b)"
proof
  fix bufend and ob :: outbuf
  assume l: "fst ob + length (a @ b) < bufend" "bufend \<le> length (snd ob)"
  have "f bufend ob = Inr (put_at a ob)" using l by (intro appender.fits[OF a]) simp_all
  moreover have "g bufend (put_at a ob) = Inr (put_at b (put_at a ob))"
    using l by (intro appender.fits[OF b]) (simp_all add: length_put_at)
  ultimately show "bindE (f bufend ob) (g bufend) = Inr (put_at (a @ b) ob)" using l by (simp add: put_at_append)
next
  fix bufend and ob ob' :: outbuf
  assume le: "fst ob \<le> length (snd ob)" and "bindE (f bufend ob) (g bufend) = Inr ob'"
  then obtain ob1 where 1: "f bufend ob = Inr ob1" "g bufend ob1 = Inr ob'" by (auto simp: bindE_eq_Inr_iff)
  note r1 = appender.result[OF a le 1(1)]
  have "fst ob1 \<le> length (snd ob1)" using r1 by (simp add: length_put_at)
  note r1 appender.result[OF b this 1(2)]
  then show "fst ob + length (a @ b) \<le> length (snd ob) \<and> ob' = put_at (a @ b) ob"
    by (auto simp: length_put_at put_at_append)
qed

lemma appender_skip: "appender (\<lambda>n ob. Inr ob) []"
  by unfold_locales (auto simp: put_at_def)

section \<open>The routines in closed form\<close>

definition ccnb_head :: "u64 \<Rightarrow> u8 \<Rightarrow> bytes" where
  "ccnb_head num tt = rev ((0x80 OR push_bit 3 (ucast (num AND 0x0f)) OR tt) # ccnb_groups (drop_bit 4 num))"

text \<open>What follows the tag of a field: a blob and the end.\<close>

definition ccnb_blob :: "bytes \<Rightarrow> bytes" where
  "ccnb_blob d = ccnb_head (of_nat (length d)) CCN_TT_BLOB @ d @ [0]"

definition ccnb_elem :: "u64 \<Rightarrow> bytes \<Rightarrow> bytes" where
  "ccnb_elem tag d = ccnb_head tag CCN_TT_DTAG @ ccnb_blob d"

definition opt_elem :: "u64 \<Rightarrow> bytes option \<Rightarrow> bytes" where
  "opt_elem tag so = (case so of None \<Rightarrow> [] | Some s \<Rightarrow> ccnb_elem tag (c_str s))"

interpretation mk_head: appender "\<lambda>n. ccnl_ccnb_mkHeader n num tt" "ccnb_head num tt" for num tt
  by unfold_locales (auto simp: ccnl_ccnb_mkHeader_def ccnb_head_def Let_def put_fwd_eq split: if_splits)

interpretation mk_blob: appender "\<lambda>n. ccnl_ccnb_mkBlob n tag CCN_TT_DTAG d" "ccnb_elem tag d" for tag d
proof (unfold_locales, goal_cases)
  case (1 ob bufend)
  then show ?case
    by (simp add: ccnl_ccnb_mkBlob_def ccnl_ccnb_mkField_def mk_head.fits ccnb_elem_def ccnb_blob_def length_put_at put_at_append put_fwd_eq)
next
  case (2 ob bufend ob')
  then obtain ob1 ob2 where 1: "ccnl_ccnb_mkHeader bufend tag CCN_TT_DTAG ob = Inr ob1"
    "ccnl_ccnb_mkHeader bufend (of_nat (length d)) CCN_TT_BLOB ob1 = Inr ob2" "put_fwd (d @ [0]) ob2 = Inr ob'"
    by (auto simp: ccnl_ccnb_mkBlob_def ccnl_ccnb_mkField_def bindE_eq_Inr_iff split: if_splits)
  note h1 = mk_head.result[OF 2(1) 1(1)]
  have "fst ob1 \<le> length (snd ob1)" using h1 by (simp add: length_put_at)
  from h1 mk_head.result[OF this 1(2)] 1(3) show ?case
    by (auto simp: put_fwd_eq ccnb_elem_def ccnb_blob_def length_put_at put_at_append split: if_splits)
qed

interpretation mk_string: appender "\<lambda>n. mk_str n tag (Some s)" "ccnb_elem tag (c_str s)" for tag s
  using mk_blob.appender_axioms[of tag "c_str s"]
  unfolding mk_str_def[abs_def] ccnl_ccnb_mkStrBlob_def[abs_def] ccnl_ccnb_mkBlob_def[abs_def] by simp

interpretation mk_optional: appender "\<lambda>n. mk_opt n tag so" "opt_elem tag so" for tag so
  using mk_string.appender_axioms appender_skip by (cases so) (simp_all add: mk_opt_def[abs_def] opt_elem_def)

interpretation mk_close: appender mk_end "[0]"
  by unfold_locales (auto simp: mk_end_def put_fwd_eq split: if_splits)

interpretation mk_close_full: appender mk_end_full "[0]"
  by unfold_locales (auto simp: mk_end_full_def put_fwd_eq split: if_splits)

definition comps_enc :: "bytes list \<Rightarrow> bytes" where
  "comps_enc cs = concat (map (ccnb_elem CCN_DTAG_COMPONENT) cs)"

lemma comps_enc_simps [simp]: "comps_enc [] = []" "comps_enc (c # cs) = ccnb_elem CCN_DTAG_COMPONENT c @ comps_enc cs"
  by (simp_all add: comps_enc_def)

lemma ctrl_components_appender:
  assumes "\<forall>c\<in>set cs. length c \<le> maxlen"
  shows "appender (\<lambda>n. ctrl_components maxlen n suite cs) (comps_enc (map (ctrl_component suite) cs))"
  using assms
proof (induction cs)
  case Nil
  then show ?case using appender_skip by simp
next
  case (Cons c cs)
  let ?b = "\<lambda>n. ccnl_ccnb_mkBlob n CCN_DTAG_COMPONENT CCN_TT_DTAG (ctrl_component suite c)"
  have s: "appender (\<lambda>n ob. bindE (?b n ob) (ctrl_components maxlen n suite cs))
      (ccnb_elem CCN_DTAG_COMPONENT (ctrl_component suite c) @ comps_enc (map (ctrl_component suite) cs))"
    using Cons by (intro appender_then mk_blob.appender_axioms) simp
  have e: "ctrl_components maxlen n suite (c # cs) ob = Inr ob' \<longleftrightarrow> bindE (?b n ob) (ctrl_components maxlen n suite cs) = Inr ob'" for n ob ob'
    using Cons.prems by (auto split: sum.split)
  show ?case
  proof (unfold_locales, goal_cases)
    case (1 ob bufend)
    then show ?case using appender.fits[OF s, of ob bufend] e by simp
  next
    case (2 ob bufend ob')
    then show ?case using appender.result[OF s, of ob bufend ob'] e by simp
  qed
qed

section \<open>Requests in closed form\<close>

definition obj_enc :: "bytes \<Rightarrow> bytes" where
  "obj_enc st = ccnb_head CCN_DTAG_CONTENTOBJ CCN_TT_DTAG @ ccnb_elem CCN_DTAG_CONTENT st @ [0]"

definition frame_enc :: "bytes list \<Rightarrow> bytes" where
  "frame_enc cs = ccnb_head CCN_DTAG_INTEREST CCN_TT_DTAG @ ccnb_head CCN_DTAG_NAME CCN_TT_DTAG @ comps_enc cs @ [0, 0]"

lemma ctrl_head_appender: "appender ctrl_head (ccnb_head CCN_DTAG_INTEREST CCN_TT_DTAG @ ccnb_head CCN_DTAG_NAME CCN_TT_DTAG)"
  using appender_then[OF mk_head.appender_axioms[of CCN_DTAG_INTEREST CCN_TT_DTAG] mk_head.appender_axioms[of CCN_DTAG_NAME CCN_TT_DTAG]]
  by (simp add: ctrl_head_def[abs_def])

lemma ctrl_comps_result:
  "ctrl_comps bufend n cmd = Inr ob \<Longrightarrow> written ob = comps_enc [lit ''ccnx'', [], c_str cmd] \<and> fst ob = length (written ob)
    \<and> fst ob \<le> length (snd ob)"
proof -
  have a: "appender (\<lambda>n ob. bindE (bindE (mk_str n CCN_DTAG_COMPONENT (Some (lit ''ccnx'')) ob) (mk_str n CCN_DTAG_COMPONENT (Some [])))
      (mk_str n CCN_DTAG_COMPONENT (Some cmd)))
      ((ccnb_elem CCN_DTAG_COMPONENT (c_str (lit ''ccnx'')) @ ccnb_elem CCN_DTAG_COMPONENT (c_str [])) @ ccnb_elem CCN_DTAG_COMPONENT (c_str cmd))"
    by (intro appender_then mk_string.appender_axioms)
  assume r: "ctrl_comps bufend n cmd = Inr ob"
  have l: "c_str (lit ''ccnx'') = lit ''ccnx''" "c_str [] = []" by code_simp+
  show ?thesis using appender.adds[OF a, of "zeroed n" bufend ob] appender.result[OF a, of "zeroed n" bufend ob] r
    by (auto simp: ctrl_comps_def bindE_assoc l length_put_at)
qed

lemma ctrl_object_result:
  assumes e: "\<And>ob ob'. endtag n ob = Inr ob' \<Longrightarrow> fst ob < length (snd ob) \<and> ob' = put_at [0] ob"
    and r: "ctrl_object n endtag st = Inr ob"
  shows "written ob = obj_enc (written st) \<and> fst ob = length (written ob)"
proof -
  have a: "appender (\<lambda>n ob. bindE (ccnl_ccnb_mkHeader n CCN_DTAG_CONTENTOBJ CCN_TT_DTAG ob)
      (ccnl_ccnb_mkBlob n CCN_DTAG_CONTENT CCN_TT_DTAG (written st)))
      (ccnb_head CCN_DTAG_CONTENTOBJ CCN_TT_DTAG @ ccnb_elem CCN_DTAG_CONTENT (written st))"
    by (intro appender_then mk_head.appender_axioms mk_blob.appender_axioms)
  obtain ob1 where 1: "bindE (ccnl_ccnb_mkHeader n CCN_DTAG_CONTENTOBJ CCN_TT_DTAG (zeroed n))
      (ccnl_ccnb_mkBlob n CCN_DTAG_CONTENT CCN_TT_DTAG (written st)) = Inr ob1" "endtag n ob1 = Inr ob"
    using r by (auto simp: ctrl_object_def bindE_assoc[symmetric] bindE_eq_Inr_iff)
  from appender.result[OF a _ 1(1)] appender.fresh_adds[OF a 1(1)] e[OF 1(2)] show ?thesis
    by (auto simp: obj_enc_def written_put_at)
qed

lemma ctrl_close_result:
  assumes "ctrl_close outlen n1 out comps obj = Inr out'" and "fst comps \<le> length (snd comps)"
  shows "out' = put_at (written comps @ ccnb_elem CCN_DTAG_COMPONENT (written obj) @ [0, 0]) out
    \<and> fst out' \<le> length (snd out)"
proof -
  obtain ob1 where 1: "ccnl_ccnb_mkBlob n1 CCN_DTAG_COMPONENT CCN_TT_DTAG (written obj) comps = Inr ob1"
    "put_fwd (written ob1 @ [0, 0]) out = Inr out'"
    using assms by (auto simp: ctrl_close_def bindE_eq_Inr_iff split: if_splits)
  from 1(2) mk_blob.adds[OF assms(2) 1(1)] show ?thesis by (auto simp: put_fwd_eq split: if_splits)
qed

text \<open>A request that is composed is the Interest of the four components.\<close>

lemma ctrl_request_result:
  assumes e: "\<And>ob ob'. endtag 2000 ob = Inr ob' \<Longrightarrow> fst ob < length (snd ob) \<and> ob' = put_at [0] ob"
    and r: "ctrl_request outlen (0, m) cmd stmt endtag = Inr (n, frame)"
  shows "\<exists>st. stmt = Inr st \<and> take n frame = frame_enc [lit ''ccnx'', [], c_str cmd, obj_enc (written st)]
    \<and> n = length (take n frame) \<and> length frame = length m"
proof -
  obtain out1 comps st obj where 1: "ctrl_head outlen (0, m) = Inr out1"
    "ctrl_comps CCNL_MAX_PACKET_SIZE CCNL_MAX_PACKET_SIZE cmd = Inr comps" "stmt = Inr st"
    "ctrl_object 2000 endtag st = Inr obj" "ctrl_close outlen CCNL_MAX_PACKET_SIZE out1 comps obj = Inr (n, frame)"
    using r unfolding ctrl_request_def bindE_eq_Inr_iff by blast
  note h = appender.result[OF ctrl_head_appender _ 1(1)]
  note c = ctrl_comps_result[OF 1(2)]
  note o = ctrl_object_result[OF e 1(4)]
  have "fst comps \<le> length (snd comps)" using c by blast
  note x = ctrl_close_result[OF 1(5) this]
  let ?H = "ccnb_head CCN_DTAG_INTEREST CCN_TT_DTAG @ ccnb_head CCN_DTAG_NAME CCN_TT_DTAG"
  let ?ys = "written comps @ ccnb_elem CCN_DTAG_COMPONENT (written obj) @ [0, 0]"
  have x1: "(n, frame) = put_at ?ys out1" "n \<le> length (snd out1)" using x by (simp_all only: fst_conv)
  have h1: "out1 = put_at ?H (0, m)" "length ?H \<le> length m" using h by simp_all
  have l: "length (snd out1) = length m" unfolding h1(1) using h1(2) by (intro length_put_at[of "(0, m)", simplified])
  have n: "n = length (?H @ ?ys)" using arg_cong[OF x1(1), of fst] by (simp add: h1(1))
  have e: "?H @ ?ys = frame_enc [lit ''ccnx'', [], c_str cmd, obj_enc (written st)]"
    using c o by (simp add: frame_enc_def)
  have "put_at ?ys (put_at ?H (0, m)) = put_at (?H @ ?ys) (0, m)"
    by (rule put_at_append) (use x1(2) n l in simp)
  then have f: "(n, frame) = put_at (?H @ ?ys) (0, m)" using x1(1) h1(1) by (simp only:)
  have t: "take n frame = ?H @ ?ys" "length frame = length m"
    using f n x1(2) l unfolding put_at_def by simp_all
  show ?thesis using 1(3) t n unfolding e by simp
qed

section \<open>Reading\<close>

lemma groups_nz: "w \<noteq> 0 \<Longrightarrow> ccnb_groups w = ucast (w AND 0x7f) # ccnb_groups (drop_bit 7 w)"
  by (subst ccnb_groups.simps) simp

lemma groups_zero [simp]: "ccnb_groups 0 = []"
  by (subst ccnb_groups.simps) simp

lemma bit_0x80: "bit (0x80 :: byte) n \<longleftrightarrow> n = 7"
proof -
  have e: "(0x80 :: byte) = push_bit 7 1" by simp
  show ?thesis unfolding e bit_push_bit_iff bit_1_iff by auto
qed

lemma low_top: "(ucast (w AND 0x7f :: u64) :: byte) AND 0x80 = 0"
proof -
  have m: "(0x7f :: u64) = mask 7" by (simp add: mask_eq_exp_minus_1)
  show ?thesis by (rule bit_word_eqI) (auto simp only: m bit_and_iff bit_0x80 bit_unsigned_iff bit_mask_iff bit_0_eq bot_apply bot_bool_def)
qed

lemma groups_join: "push_bit 7 (drop_bit 7 w) OR ucast (ucast (w AND 0x7f) :: byte) = (w :: u64)"
proof -
  have m: "(0x7f :: u64) = mask 7" by (simp add: mask_eq_exp_minus_1)
  show ?thesis
  proof (rule bit_word_eqI)
    fix n
    show "bit (push_bit 7 (drop_bit 7 w) OR ucast (ucast (w AND 0x7f) :: byte)) n = bit w n" if "n < LENGTH(64)"
      using that by (cases "n < 7") (auto simp: m bit_simps)
  qed
qed

lemma groups_last: "w \<noteq> 0 \<Longrightarrow> last (ccnb_groups w) \<noteq> 0"
proof (induction w rule: ccnb_groups.induct)
  case (1 w)
  show ?case
  proof (cases "drop_bit 7 w = 0")
    case True
    then have "(ucast (w AND 0x7f) :: byte) \<noteq> 0" using groups_join[of w] 1(2) by (metis or.left_neutral push_bit_of_0 unsigned_0)
    then show ?thesis unfolding groups_nz[OF 1(2)] True by simp
  next
    case False
    then show ?thesis using 1(1)[OF 1(2) False] unfolding groups_nz[OF 1(2)] by (simp add: groups_nz)
  qed
qed

lemma head_loop_groups:
  "at_pos m p (rev (ccnb_groups w)) \<Longrightarrow>
    ccnb_head_loop m p (length (ccnb_groups w) + k) 0 = ccnb_head_loop m (p + length (ccnb_groups w)) k w"
proof (induction w arbitrary: k rule: ccnb_groups.induct)
  case (1 w)
  show ?case
  proof (cases "w = 0")
    case True
    then show ?thesis by simp
  next
    case False
    let ?g = "ccnb_groups (drop_bit 7 w)"
    have g: "ccnb_groups w = ucast (w AND 0x7f) # ?g" by (rule groups_nz[OF False])
    have a: "at_pos m p (rev ?g)" "rd m (p + length ?g) = Inr (ucast (w AND 0x7f))" using 1(2) unfolding g by (simp_all add: at_pos_Cons)
    show ?thesis using low_top[of w] 1(1)[OF False a(1), of "Suc k"] a(2) groups_join[of w] unfolding g by simp
  qed
qed

lemma length_groups: "unat w < 2 ^ (7 * n) \<Longrightarrow> length (ccnb_groups w) \<le> n"
proof (induction n arbitrary: w)
  case 0
  then have "w = 0" by (simp add: unat_eq_zero)
  then show ?case by simp
next
  case (Suc n)
  have "unat (drop_bit 7 w) = unat w div 2 ^ 7" unfolding unat_drop_bit_eq by (rule drop_bit_eq_div)
  also have "\<dots> < 2 ^ (7 * n)" using Suc.prems by (intro less_mult_imp_div_less) (simp add: power_add mult.commute)
  finally have "unat (drop_bit 7 w) < 2 ^ (7 * n)" .
  then show ?case using Suc.IH by (cases "w = 0") (simp_all add: groups_nz)
qed

lemma length_ccnb_head: "unat num < 2 ^ (4 + 7 * n) \<Longrightarrow> 0 < length (ccnb_head num tt) \<and> length (ccnb_head num tt) \<le> Suc n"
proof -
  assume n: "unat num < 2 ^ (4 + 7 * n)"
  have "unat (drop_bit 4 num) = unat num div 2 ^ 4" unfolding unat_drop_bit_eq by (rule drop_bit_eq_div)
  also have "\<dots> < 2 ^ (7 * n)" using n by (intro less_mult_imp_div_less) (simp add: power_add mult.commute)
  finally have "unat (drop_bit 4 num) < 2 ^ (7 * n)" .
  from length_groups[OF this] show ?thesis by (simp add: ccnb_head_def)
qed

text \<open>The last byte of a head.\<close>

lemma head_byte:
  fixes num :: u64 and tt :: u8
  assumes "tt < 8" and "c = 0x80 OR push_bit 3 (ucast (num AND 0x0f)) OR tt"
  shows "c AND 0x80 \<noteq> 0" and "push_bit 4 (drop_bit 4 num) OR ucast (drop_bit 3 c AND 0xf) = num" and "c AND 0x7 = tt"
proof -
  have t: "bit tt n \<Longrightarrow> n < 3" for n
  proof -
    have "tt = take_bit 3 tt" using mod_word_less[OF assms(1)] by (simp add: take_bit_eq_mod)
    then show "bit tt n \<Longrightarrow> n < 3" by (metis bit_take_bit_iff)
  qed
  define z where "z = (0x80 :: byte)"
  have z: "bit z n \<longleftrightarrow> n = 7" for n unfolding z_def by (rule bit_0x80)
  have c: "c = z OR push_bit 3 (ucast (num AND mask 4)) OR tt" by (simp add: assms(2) z_def mask_eq_exp_minus_1)
  have m: "(0xf :: byte) = mask 4" "(0x7 :: byte) = mask 3" by (simp_all add: mask_eq_exp_minus_1)
  have "bit (c AND z) 7" by (simp add: c bit_simps z)
  then show "c AND 0x80 \<noteq> 0" unfolding z_def by (auto simp only: bit_0_eq bot_apply bot_bool_def)
  show "push_bit 4 (drop_bit 4 num) OR ucast (drop_bit 3 c AND 0xf) = num"
  proof (rule bit_word_eqI)
    fix n assume "n < LENGTH(64)"
    then show "bit (push_bit 4 (drop_bit 4 num) OR ucast (drop_bit 3 c AND 0xf)) n = bit num n"
      by (cases "n < 4") (auto simp: c m bit_simps z dest: t)
  qed
  show "c AND 0x7 = tt"
    by (rule bit_word_eqI) (auto simp: c m bit_simps z dest: t)
qed

lemma dehead_head:
  assumes at: "at_pos m p (ccnb_head num tt)" and t: "tt < 8" and num: "unat num < 2 ^ 46" and n: "length (ccnb_head num tt) \<le> n"
  shows "ccnl_ccnb_dehead m (p, n) = Inr (Some (num, tt), (p + length (ccnb_head num tt), n - length (ccnb_head num tt)))"
proof -
  define c :: byte where "c = 0x80 OR push_bit 3 (ucast (num AND 0x0f)) OR tt"
  let ?g = "ccnb_groups (drop_bit 4 num)"
  have h: "ccnb_head num tt = rev ?g @ [c]" by (simp add: ccnb_head_def c_def)
  have l: "length ?g \<le> 6" using length_ccnb_head[of num 6 tt] num by (simp add: h)
  note b = head_byte[OF t c_def]
  have a: "at_pos m p (rev ?g)" "rd m (p + length ?g) = Inr c" using at by (simp_all add: h at_pos_Cons)
  obtain k where k: "min 8 n = length ?g + Suc k" using n l h less_iff_Suc_add[of "length ?g" "min 8 n"] by auto
  have run: "ccnb_head_loop m p (min 8 n) 0 = Inr (Some (num, tt, p + length ?g + 1))"
    unfolding k head_loop_groups[OF a(1)] using a(2) b by simp
  have "\<exists>x. rd m p = Inr x \<and> x \<noteq> 0"
  proof (cases "rev ?g")
    case Nil
    then show ?thesis using a(2) b(1) by (intro exI[of _ c]) auto
  next
    case (Cons x xs)
    have "drop_bit 4 num \<noteq> 0" using Cons by auto
    then have "x \<noteq> 0" using groups_last[of "drop_bit 4 num"] Cons by (metis hd_rev list.sel(1))
    then show ?thesis using a(1) Cons by (auto simp: at_pos_Cons)
  qed
  then show ?thesis using run n h by (auto simp: ccnl_ccnb_dehead_def)
qed

lemma dehead_end: "at_pos m p [0] \<Longrightarrow> 0 < n \<Longrightarrow> ccnl_ccnb_dehead m (p, n) = Inr (Some (0, 0), (p + 1, n - 1))"
  by (simp add: ccnl_ccnb_dehead_def at_pos_Cons)

text \<open>Fields that are no longer than memory is.\<close>

abbreviation short :: "bytes \<Rightarrow> bool" where "short d \<equiv> length d < 2 ^ 46"

abbreviation blob_off :: "bytes \<Rightarrow> nat" where "blob_off d \<equiv> length (ccnb_head (of_nat (length d)) CCN_TT_BLOB)"

lemma unat_length: "short d \<Longrightarrow> unat (of_nat (length d) :: u64) = length d"
  by (simp add: unat_of_nat)

lemma dehead_blob:
  assumes "at_pos m p (ccnb_blob d)" and "length (ccnb_blob d) \<le> n" and "short d"
  shows "ccnl_ccnb_dehead m (p, n) = Inr (Some (of_nat (length d), CCN_TT_BLOB), (p + blob_off d, n - blob_off d))"
    and "slice m (p + blob_off d) (length d) = Inr d" and "at_pos m (p + blob_off d + length d) [0]"
  using assms by (auto simp: ccnb_blob_def at_pos_slice unat_length intro!: dehead_head)

lemma hunt_blob:
  assumes "at_pos m p (ccnb_blob d)" and "length (ccnb_blob d) \<le> n" and "short d" and "n < 2 ^ 64"
  shows "ccnl_ccnb_hunt_for_end m (p, n) v
    = Inr ((p + length (ccnb_blob d), n - length (ccnb_blob d)), Some (p + blob_off d, length d))"
proof -
  note b = dehead_blob[OF assms(1-3)]
  have w: "wsub (n - blob_off d) (length d) = n - blob_off d - length d" using assms(2,4) by (intro wsub_le) (simp_all add: ccnb_blob_def)
  have e: "ccnl_ccnb_dehead m (p + blob_off d + length d, n - (blob_off d + length d))
      = Inr (Some (0, 0), (p + blob_off d + length d + 1, n - (blob_off d + length d) - 1))"
    using assms(2) by (intro dehead_end b(3)) (simp add: ccnb_blob_def)
  show ?thesis
    by (subst ccnl_ccnb_hunt_for_end.simps, simp only: b(1), simp add: unat_length[OF assms(3)] w)
      (subst ccnl_ccnb_hunt_for_end.simps, simp only: e, simp add: ccnb_blob_def)
qed

lemma dehead_elem:
  assumes "at_pos m p (ccnb_elem tag d)" and "length (ccnb_elem tag d) \<le> n" and "unat tag < 2 ^ 46"
  shows "ccnl_ccnb_dehead m (p, n) = Inr (Some (tag, CCN_TT_DTAG),
      (p + length (ccnb_head tag CCN_TT_DTAG), n - length (ccnb_head tag CCN_TT_DTAG)))"
    and "at_pos m (p + length (ccnb_head tag CCN_TT_DTAG)) (ccnb_blob d)"
    and "length (ccnb_blob d) \<le> n - length (ccnb_head tag CCN_TT_DTAG)"
  using assms by (auto simp: ccnb_elem_def intro!: dehead_head)

section \<open>Names\<close>

text \<open>The references lead to these components, in front of \<open>q\<close>.\<close>

definition refs_at :: "bytes \<Rightarrow> nat \<Rightarrow> blobref list \<Rightarrow> bytes list \<Rightarrow> bool" where
  "refs_at m q refs cs \<longleftrightarrow> list_all2 (\<lambda>r c. \<exists>p. r = Some (p, length c) \<and> slice m p (length c) = Inr c \<and> p + length c \<le> q) refs cs"

lemma refs_at_comps: "refs_at m q refs cs \<Longrightarrow> ccnb_comps m refs = Inr cs"
  unfolding refs_at_def by (induction rule: list_all2_induct) (auto simp: blob_val_def)

lemma slice_take: "slice m p l = Inr d \<Longrightarrow> p + l \<le> k \<Longrightarrow> slice (take k m) p l = Inr d"
  by (auto simp: slice_def drop_take min_def split: if_splits)

lemma refs_at_take: "refs_at m q refs cs \<Longrightarrow> q \<le> k \<Longrightarrow> refs_at (take k m) q refs cs"
  unfolding refs_at_def by (erule list_all2_mono) (metis slice_take order_trans)

lemma refs_at_length: "refs_at m q refs cs \<Longrightarrow> length refs = length cs"
  unfolding refs_at_def by (rule list_all2_lengthD)

lemma refs_at_Nil: "refs_at m q [] []"
  by (simp add: refs_at_def)

lemma refs_at_Cons: "slice m p (length c) = Inr c \<Longrightarrow> p + length c \<le> q \<Longrightarrow> refs_at m q refs cs \<Longrightarrow> refs_at m q (Some (p, length c) # refs) (c # cs)"
  by (simp add: refs_at_def)

lemma component_read:
  assumes "at_pos m p (ccnb_elem CCN_DTAG_COMPONENT c)" and "length (ccnb_elem CCN_DTAG_COMPONENT c) \<le> n" and "short c" and "n < 2 ^ 64"
  shows "\<exists>cur r. ccnl_ccnb_dehead m (p, n) = Inr (Some (CCN_DTAG_COMPONENT, CCN_TT_DTAG), cur)
    \<and> (\<forall>v. ccnl_ccnb_hunt_for_end m cur v = Inr ((p + length (ccnb_elem CCN_DTAG_COMPONENT c), n - length (ccnb_elem CCN_DTAG_COMPONENT c)), Some (r, length c)))
    \<and> slice m r (length c) = Inr c \<and> r + length c \<le> p + length (ccnb_elem CCN_DTAG_COMPONENT c)"
proof -
  note d = dehead_elem[OF assms(1,2)]
  let ?h = "length (ccnb_head CCN_DTAG_COMPONENT CCN_TT_DTAG)"
  have "ccnl_ccnb_hunt_for_end m (p + ?h, n - ?h) v
      = Inr ((p + ?h + length (ccnb_blob c), n - ?h - length (ccnb_blob c)), Some (p + ?h + blob_off c, length c))" for v
    using assms(4) by (intro hunt_blob d assms(3)) simp_all
  then show ?thesis using d(1) dehead_blob(2)[OF d(2,3) assms(3)]
    by (intro exI[of _ "(p + ?h, n - ?h)"] exI[of _ "p + ?h + blob_off c"]) (simp add: ccnb_elem_def ccnb_blob_def)
qed

lemma name_read:
  assumes "at_pos m p (comps_enc cs @ [0])" and "length (comps_enc cs @ [0]) \<le> n" and "\<forall>c\<in>set cs. short c" and "n < 2 ^ 64"
    and "length refs + length cs \<le> CCNL_MAX_NAME_COMP"
  shows "\<exists>refs'. ccnb_name_loop m (p, n) refs = Inr ((p + length (comps_enc cs @ [0]), n - length (comps_enc cs @ [0])), refs @ refs')
    \<and> mgmt_name m (p, n) refs = Inr (True, (p + length (comps_enc cs @ [0]), n - length (comps_enc cs @ [0])), refs @ refs')
    \<and> refs_at m (p + length (comps_enc cs @ [0])) refs' cs"
  using assms
proof (induction cs arbitrary: p n refs)
  case Nil
  have "ccnl_ccnb_dehead m (p, n) = Inr (Some (0, 0), (p + 1, n - 1))" using Nil by (intro dehead_end) simp_all
  then show ?case by (subst ccnb_name_loop.simps, subst mgmt_name.simps) (simp add: refs_at_Nil)
next
  case (Cons c cs)
  let ?e = "length (ccnb_elem CCN_DTAG_COMPONENT c)"
  obtain cur r where c: "ccnl_ccnb_dehead m (p, n) = Inr (Some (CCN_DTAG_COMPONENT, CCN_TT_DTAG), cur)"
    "\<And>v. ccnl_ccnb_hunt_for_end m cur v = Inr ((p + ?e, n - ?e), Some (r, length c))"
    "slice m r (length c) = Inr c" "r + length c \<le> p + ?e"
    using component_read[of m p c n] Cons.prems by auto
  have e: "at_pos m (p + ?e) (comps_enc cs @ [0])" "length (comps_enc cs @ [0]) \<le> n - ?e" "\<forall>c\<in>set cs. short c" "n - ?e < 2 ^ 64"
    "length (refs @ [Some (r, length c)]) + length cs \<le> CCNL_MAX_NAME_COMP"
    using Cons.prems by auto
  obtain refs' where i: "ccnb_name_loop m (p + ?e, n - ?e) (refs @ [Some (r, length c)])
        = Inr ((p + ?e + length (comps_enc cs @ [0]), n - ?e - length (comps_enc cs @ [0])), (refs @ [Some (r, length c)]) @ refs')"
    "mgmt_name m (p + ?e, n - ?e) (refs @ [Some (r, length c)])
        = Inr (True, (p + ?e + length (comps_enc cs @ [0]), n - ?e - length (comps_enc cs @ [0])), (refs @ [Some (r, length c)]) @ refs')"
    "refs_at m (p + ?e + length (comps_enc cs @ [0])) refs' cs"
    using Cons.IH[OF e] by blast
  have s: "ccnb_name_loop m (p, n) refs = ccnb_name_loop m (p + ?e, n - ?e) (refs @ [Some (r, length c)])"
    "mgmt_name m (p, n) refs = mgmt_name m (p + ?e, n - ?e) (refs @ [Some (r, length c)])"
    using Cons.prems(5) c(1,2)
    by (subst ccnb_name_loop.simps, simp, subst mgmt_name.simps, cases cur, simp add: ccnl_ccnb_consume_def)
  have "refs_at m (p + ?e + length (comps_enc cs @ [0])) (Some (r, length c) # refs') (c # cs)"
    using c(3,4) i(3) by (intro refs_at_Cons) simp_all
  then show ?case using i(1,2) unfolding s by (intro exI[of _ "Some (r, length c) # refs'"]) (simp add: add.assoc)
qed

end
