(* ===== verification/Ctrl_Read.thy ===== *)
theory Ctrl_Read
  imports Ctrl_Wire Mgmt_Props
begin

text \<open>
  The relay's side of a request: the dispatcher finds the four components in the Interest, and a command finds
  its statement in the last of them.
\<close>

lemma tag_bits: "unat (CCN_DTAG_COMPONENT :: u64) < 2 ^ 46" "unat (CCN_DTAG_NAME :: u64) < 2 ^ 46" "unat (CCN_DTAG_CONTENTOBJ :: u64) < 2 ^ 46"
  "unat (CCN_DTAG_CONTENT :: u64) < 2 ^ 46" "unat (CCN_DTAG_ACTION :: u64) < 2 ^ 46" "unat (CCN_DTAG_FACEID :: u64) < 2 ^ 46"
  "unat (CCNL_DTAG_SUITE :: u64) < 2 ^ 46" "unat (CCN_DTAG_FWDINGENTRY :: u64) < 2 ^ 46" "unat (CCN_DTAG_INTEREST :: u64) < 2 ^ 46"
  by simp_all

lemma bind_found: "x = Inr y \<Longrightarrow> f y = z \<Longrightarrow> bindE x f = z"
  by simp

lemma expect_head:
  assumes "at_pos m p (ccnb_head num tt)" and "tt < 8" and "unat num < 2 ^ 46" and "length (ccnb_head num tt) \<le> n" and "good num tt"
  shows "mgmt_expect m (p, n) good = Inr (Some (num, (p + length (ccnb_head num tt), n - length (ccnb_head num tt))))"
  using dehead_head[OF assms(1-4)] assms(5) by (simp add: mgmt_expect_def)

section \<open>The four heads of a statement\<close>

lemma open_read:
  assumes at: "at_pos m 0 (obj_enc (ccnb_head tag CCN_TT_DTAG @ rest))" and n: "length (obj_enc (ccnb_head tag CCN_TT_DTAG @ rest)) \<le> n"
    and short: "short (ccnb_head tag CCN_TT_DTAG @ rest)" and tag: "unat tag < 2 ^ 46"
  shows "\<exists>p. mgmt_open m n tag = Inr (Some (p, length rest)) \<and> at_pos m p rest"
proof -
  let ?st = "ccnb_head tag CCN_TT_DTAG @ rest"
  let ?h1 = "length (ccnb_head CCN_DTAG_CONTENTOBJ CCN_TT_DTAG)" and ?h2 = "length (ccnb_head CCN_DTAG_CONTENT CCN_TT_DTAG)"
  let ?h3 = "blob_off ?st" and ?h4 = "length (ccnb_head tag CCN_TT_DTAG)"
  have at1: "at_pos m 0 (ccnb_head CCN_DTAG_CONTENTOBJ CCN_TT_DTAG)" "at_pos m ?h1 (ccnb_head CCN_DTAG_CONTENT CCN_TT_DTAG)"
    "at_pos m (?h1 + ?h2) (ccnb_head (of_nat (length ?st)) CCN_TT_BLOB)" "at_pos m (?h1 + ?h2 + ?h3) (ccnb_head tag CCN_TT_DTAG)"
    "at_pos m (?h1 + ?h2 + ?h3 + ?h4) rest"
    using at unfolding obj_enc_def ccnb_elem_def ccnb_blob_def at_pos_append by simp_all
  have l: "length (obj_enc ?st) = ?h1 + ?h2 + ?h3 + length ?st + 2" unfolding obj_enc_def ccnb_elem_def ccnb_blob_def by simp
  have 1: "mgmt_expect m (0, n) (is_dtag CCN_DTAG_CONTENTOBJ) = Inr (Some (CCN_DTAG_CONTENTOBJ, (0 + ?h1, n - ?h1)))"
    using n l by (intro expect_head at1) (simp_all add: is_dtag_def)
  have 2: "mgmt_expect m (0 + ?h1, n - ?h1) (is_dtag CCN_DTAG_CONTENT) = Inr (Some (CCN_DTAG_CONTENT, (0 + ?h1 + ?h2, n - ?h1 - ?h2)))"
    using n l at1(2) by (intro expect_head) (simp_all add: is_dtag_def)
  have 3: "mgmt_expect m (0 + ?h1 + ?h2, n - ?h1 - ?h2) (\<lambda>num typ. typ = CCN_TT_BLOB)
      = Inr (Some (of_nat (length ?st), (0 + ?h1 + ?h2 + ?h3, n - ?h1 - ?h2 - ?h3)))"
    using n l at1(3) short unat_length[OF short] by (intro expect_head) simp_all
  have 4: "mgmt_expect m (0 + ?h1 + ?h2 + ?h3, length ?st) (is_dtag tag) = Inr (Some (tag, (0 + ?h1 + ?h2 + ?h3 + ?h4, length ?st - ?h4)))"
    using at1(4) tag by (intro expect_head) (simp_all add: is_dtag_def)
  have "mgmt_open m n tag = Inr (Some (0 + ?h1 + ?h2 + ?h3 + ?h4, length ?st - ?h4))"
    unfolding mgmt_open_def
    by (rule bind_found[OF 1], simp only: option.case prod.case, rule bind_found[OF 2], simp only: option.case prod.case,
        rule bind_found[OF 3], simp only: option.case prod.case unat_length[OF short], rule bind_found[OF 4], simp)
  then show ?thesis using at1(5) by simp
qed

section \<open>The fields of a statement\<close>

lemma reg_field:
  assumes "at_pos m p (ccnb_elem tag d)" and "length (ccnb_elem tag d) \<le> n" and "short d" and "n < 2 ^ 64" and "unat tag < 2 ^ 46"
    and "tag \<in> set tags" and "tag \<noteq> CCN_DTAG_NAME"
  shows "mgmt_reg_fields m tags (p, n) v comps
    = mgmt_reg_fields m tags (p + length (ccnb_elem tag d), n - length (ccnb_elem tag d)) (v(tag := Some d)) comps"
proof -
  let ?h = "length (ccnb_head tag CCN_TT_DTAG)"
  note d = dehead_elem[OF assms(1,2,5)]
  have c: "ccnl_ccnb_consume m CCN_TT_DTAG tag (p + ?h, n - ?h) None
      = Inr ((p + ?h + length (ccnb_blob d), n - ?h - length (ccnb_blob d)), Some (p + ?h + blob_off d, length d))"
    using hunt_blob[OF d(2,3) assms(3)] assms(4) by (simp add: ccnl_ccnb_consume_def)
  show ?thesis
    by (subst mgmt_reg_fields.simps, simp only: d(1) sum.case option.case prod.case)
      (use assms(6,7) c dehead_blob(2)[OF d(2,3) assms(3)] in \<open>simp add: blob_val_def ccnb_elem_def add.assoc\<close>)
qed

lemma reg_name:
  assumes "at_pos m p (ccnb_head CCN_DTAG_NAME CCN_TT_DTAG @ comps_enc cs @ [0])"
    and "length (ccnb_head CCN_DTAG_NAME CCN_TT_DTAG @ comps_enc cs @ [0]) \<le> n" and "\<forall>c\<in>set cs. short c" and "n < 2 ^ 64"
    and "length cs \<le> CCNL_MAX_NAME_COMP"
  shows "\<exists>refs q. mgmt_reg_fields m tags (p, n) v []
    = mgmt_reg_fields m tags (p + length (ccnb_head CCN_DTAG_NAME CCN_TT_DTAG @ comps_enc cs @ [0]),
        n - length (ccnb_head CCN_DTAG_NAME CCN_TT_DTAG @ comps_enc cs @ [0])) v refs \<and> refs_at m q refs cs"
proof -
  let ?h = "length (ccnb_head CCN_DTAG_NAME CCN_TT_DTAG)" and ?l = "length (comps_enc cs @ [0])"
  have a: "at_pos m p (ccnb_head CCN_DTAG_NAME CCN_TT_DTAG)" "at_pos m (p + ?h) (comps_enc cs @ [0])" using assms(1) by simp_all
  have d: "ccnl_ccnb_dehead m (p, n) = Inr (Some (CCN_DTAG_NAME, CCN_TT_DTAG), (p + ?h, n - ?h))"
    using assms(2) by (intro dehead_head a(1)) simp_all
  have r: "?l \<le> n - ?h" "n - ?h < 2 ^ 64" "length ([] :: blobref list) + length cs \<le> CCNL_MAX_NAME_COMP" using assms(2,4,5) by simp_all
  obtain refs where n: "mgmt_name m (p + ?h, n - ?h) [] = Inr (True, (p + ?h + ?l, n - ?h - ?l), [] @ refs)"
    "refs_at m (p + ?h + ?l) refs cs"
    using name_read[OF a(2) r(1) assms(3) r(2,3)] by blast
  have "mgmt_reg_fields m tags (p, n) v [] = mgmt_reg_fields m tags (p + ?h + ?l, n - ?h - ?l) v refs"
    by (subst mgmt_reg_fields.simps, simp only: d sum.case option.case prod.case n(1)) simp
  then show ?thesis using n(2) by (auto simp: add.assoc)
qed

lemma reg_end: "at_pos m p [0] \<Longrightarrow> 0 < n \<Longrightarrow> mgmt_reg_fields m tags (p, n) v comps = Inr (Ended, v, comps)"
  by (subst mgmt_reg_fields.simps) (simp add: dehead_end)

section \<open>The statement of a registration\<close>

definition reg_rest :: "bytes \<Rightarrow> bytes list \<Rightarrow> bytes \<Rightarrow> bytes \<Rightarrow> bytes" where
  "reg_rest cmd cs fid s = ccnb_elem CCN_DTAG_ACTION cmd @ (ccnb_head CCN_DTAG_NAME CCN_TT_DTAG @ comps_enc cs @ [0])
    @ ccnb_elem CCN_DTAG_FACEID fid @ ccnb_elem CCNL_DTAG_SUITE s @ [0]"

lemma reg_read:
  assumes "at_pos m p (reg_rest cmd cs fid s)" and "n = length (reg_rest cmd cs fid s)" and "n < 2 ^ 46" and "length cs \<le> CCNL_MAX_NAME_COMP"
  shows "\<exists>refs q. mgmt_reg_fields m [CCN_DTAG_ACTION, CCN_DTAG_FACEID, CCNL_DTAG_SUITE] (p, n) Map.empty []
      = Inr (Ended, [CCN_DTAG_ACTION \<mapsto> cmd, CCN_DTAG_FACEID \<mapsto> fid, CCNL_DTAG_SUITE \<mapsto> s], refs) \<and> refs_at m q refs cs"
proof -
  let ?A = "ccnb_elem CCN_DTAG_ACTION cmd" and ?N = "ccnb_head CCN_DTAG_NAME CCN_TT_DTAG @ comps_enc cs @ [0]"
  let ?F = "ccnb_elem CCN_DTAG_FACEID fid" and ?S = "ccnb_elem CCNL_DTAG_SUITE s"
  have e: "length d \<le> length (ccnb_elem t d)" for t d by (simp add: ccnb_elem_def ccnb_blob_def)
  have at: "at_pos m p ?A" "at_pos m (p + length ?A) ?N" "at_pos m (p + length ?A + length ?N) ?F"
    "at_pos m (p + length ?A + length ?N + length ?F) ?S" "at_pos m (p + length ?A + length ?N + length ?F + length ?S) [0]"
    using assms(1) unfolding reg_rest_def by (simp_all only: at_pos_append length_append add.assoc)
  have n: "n = length ?A + length ?N + length ?F + length ?S + 1" using assms(2) unfolding reg_rest_def by (simp only: length_append) simp
  have "length (comps_enc cs) < 2 ^ 46" using n assms(3) by simp
  then have c: "\<forall>c\<in>set cs. short c"
  proof (induction cs)
    case (Cons c cs)
    then show ?case using e[of c CCN_DTAG_COMPONENT] by auto
  qed simp
  have s: "short cmd" "short fid" "short s" using n assms(3) e[of cmd CCN_DTAG_ACTION] e[of fid CCN_DTAG_FACEID] e[of s CCNL_DTAG_SUITE] by simp_all
  let ?T = "[CCN_DTAG_ACTION, CCN_DTAG_FACEID, CCNL_DTAG_SUITE]"
  have 1: "mgmt_reg_fields m ?T (p, n) Map.empty []
      = mgmt_reg_fields m ?T (p + length ?A, n - length ?A) [CCN_DTAG_ACTION \<mapsto> cmd] []"
    using assms(3) n by (intro reg_field at s) simp_all
  have b: "length ?N \<le> n - length ?A" "n - length ?A < 2 ^ 64" using n assms(3) by simp_all
  obtain refs q where 2: "mgmt_reg_fields m ?T (p + length ?A, n - length ?A) [CCN_DTAG_ACTION \<mapsto> cmd] []
      = mgmt_reg_fields m ?T (p + length ?A + length ?N, n - length ?A - length ?N) [CCN_DTAG_ACTION \<mapsto> cmd] refs" "refs_at m q refs cs"
    using reg_name[OF at(2) b(1) c b(2) assms(4)] by blast
  have 3: "mgmt_reg_fields m ?T (p + length ?A + length ?N, n - length ?A - length ?N) [CCN_DTAG_ACTION \<mapsto> cmd] refs
      = mgmt_reg_fields m ?T (p + length ?A + length ?N + length ?F, n - length ?A - length ?N - length ?F)
          [CCN_DTAG_ACTION \<mapsto> cmd, CCN_DTAG_FACEID \<mapsto> fid] refs"
    using assms(3) n by (intro reg_field at s) simp_all
  have 4: "mgmt_reg_fields m ?T (p + length ?A + length ?N + length ?F, n - length ?A - length ?N - length ?F)
          [CCN_DTAG_ACTION \<mapsto> cmd, CCN_DTAG_FACEID \<mapsto> fid] refs
      = mgmt_reg_fields m ?T (p + length ?A + length ?N + length ?F + length ?S, n - length ?A - length ?N - length ?F - length ?S)
          [CCN_DTAG_ACTION \<mapsto> cmd, CCN_DTAG_FACEID \<mapsto> fid, CCNL_DTAG_SUITE \<mapsto> s] refs"
    using assms(3) n by (intro reg_field at s) simp_all
  have "0 < n - length ?A - length ?N - length ?F - length ?S" using n by simp
  from reg_end[OF at(5) this] show ?thesis using 1 2(1) 3 4 2(2) by (intro exI[of _ refs] exI[of _ q] conjI) (simp_all only:)
qed

end
