(* ===== verification/Ctrl_Main.thy ===== *)
theory Ctrl_Main
  imports Ctrl
begin

text \<open>
  The control program as a whole, \<open>main\<close> of \<open>ccnl-utils/src/ccn-lite-ctrl.c\<close>: from the command line behind
  the options to the exchange with the relay, what is printed and the exit code.

  \<^item> The arguments are the strings from the command on; options are read by \<open>getopt\<close> and given as two flags.
  \<^item> What comes from the socket is a list: \<open>None\<close> is a \<open>recv\<close> that fails. When the list is at its end
    the program waits, and there is no time limit.
  \<^item> Removing the socket at the end is left out; its name is not initialised when no socket was opened.
  \<^item> The file of \<open>addContentToCache\<close> does not change while the program runs. The arrays that are
    not initialised are in \<open>ctrl_env\<close>, and so is the variable \<open>len\<close>, to which the length of the request is added.
\<close>

section \<open>Commands\<close>

abbreviation (input) CCNL_SUITE_DEFAULT :: int where "CCNL_SUITE_DEFAULT \<equiv> 6"

record ctrl_env =
  ce_out :: bytes
  ce_len :: nat
  ce_outend :: nat
  ce_interest :: "nat \<Rightarrow> bytes"
  ce_marker :: bytes
  ce_files :: "bytes \<Rightarrow> bytes option"

definition arg_or :: "bytes list \<Rightarrow> nat \<Rightarrow> bytes \<Rightarrow> bytes" where
  "arg_or args i d = (if i < length args then args ! i else d)"

definition arg_suite :: "bytes \<Rightarrow> int" where
  "arg_suite b = ccnl_str2suite (Some (map (\<lambda>c. char_of (unat c)) b))"

text \<open>The last argument of a registration, when there is one. \<open>None\<close> is the usage message.\<close>

definition reg_suite :: "bool \<Rightarrow> bytes list \<Rightarrow> nat \<Rightarrow> int option" where
  "reg_suite check args i =
    (if i < length args then
       (if check then (if ccnl_isSuite (arg_suite (args ! i)) then Some (arg_suite (args ! i)) else None)
        else Some (sint (of_int (fst (strtol 10 (args ! i))) :: 32 word)))
     else Some CCNL_SUITE_DEFAULT)"

text \<open>\<open>None\<close> is the usage message, and exit code 1.\<close>

definition ctrl_command :: "ctrl_env \<Rightarrow> bytes list \<Rightarrow> outbuf res option" where
  "ctrl_command env args = (let cmd = hd args; argc = length args + 1; out = (0, ce_out env); outlen = CCNL_MAX_PACKET_SIZE in
    if cmd = lit ''debug'' then (if argc < 3 then None else Some (mkDebugRequest outlen (args ! 1) out))
    else if cmd = lit ''newETHdev'' then (if argc < 3 then None else Some (mkNewEthDevRequest outlen (Some (args ! 1))
      (Some (arg_or args 2 (lit ''0x88b5''))) (Some (arg_or args 3 (lit ''0''))) (Some (arg_or args 4 (lit ''0''))) out))
    else if cmd = lit ''newUDPdev'' then (if argc < 3 then None else Some (mkNewUDPDevRequest outlen (Some (args ! 1)) None
      (Some (arg_or args 2 (lit ''9695''))) (Some (arg_or args 3 (lit ''0''))) (Some (arg_or args 4 (lit ''0''))) out))
    else if cmd = lit ''newUDP6dev'' then (if argc < 3 then None else Some (mkNewUDPDevRequest outlen None (Some (args ! 1))
      (Some (arg_or args 2 (lit ''9695''))) (Some (arg_or args 3 (lit ''0''))) (Some (arg_or args 4 (lit ''0''))) out))
    else if cmd = lit ''destroydev'' then (if argc < 3 then None else Some (mkDestroyDevRequest out))
    else if cmd = lit ''echoserver'' then (case reg_suite True args 2 of None \<Rightarrow> None | Some suite \<Rightarrow>
      if argc < 3 then None else Some (mkEchoserverRequest (ce_outend env) outlen (args ! 1) suite out))
    else if cmd = lit ''newETHface'' \<or> cmd = lit ''newUDPface'' \<or> cmd = lit ''newUDP6face'' then (if argc < 5 then None
      else Some (mkNewFaceRequest outlen (if cmd = lit ''newETHface'' then Some (args ! 1) else None)
        (if cmd = lit ''newUDPface'' then Some (args ! 1) else None) (if cmd = lit ''newUDP6face'' then Some (args ! 1) else None)
        None None (Some (args ! 2)) (Some (args ! 3)) (Some (arg_or args 4 (lit ''0x0001''))) out))
    else if cmd = lit ''newWPANface'' then (if argc < 4 then None
      else Some (mkNewFaceRequest outlen None None None (Some (args ! 1)) (Some (args ! 2)) None None
        (Some (arg_or args 4 (lit ''0x0001''))) out))
    else if cmd = lit ''newUNIXface'' then (if argc < 3 then None
      else Some (mkNewUNIXFaceRequest outlen (Some (args ! 1)) (Some (arg_or args 2 (lit ''0x0001''))) out))
    else if cmd = lit ''setfrag'' then (if argc < 5 then None else Some (mkSetfragRequest outlen (args ! 1) (args ! 2) (args ! 3) out))
    else if cmd = lit ''destroyface'' then (if argc < 3 then None else Some (mkDestroyFaceRequest outlen (args ! 1) out))
    else if cmd = lit ''prefixreg'' then (case reg_suite True args 3 of None \<Rightarrow> None | Some suite \<Rightarrow>
      if argc < 4 then None else Some (mkPrefixregRequest outlen True (args ! 1) (args ! 2) suite out))
    else if cmd = lit ''prefixunreg'' then (case reg_suite False args 3 of None \<Rightarrow> None | Some suite \<Rightarrow>
      if argc < 4 then None else Some (mkPrefixregRequest outlen False (args ! 1) (args ! 2) suite out))
    else if cmd = lit ''addContentToCache'' then (if argc < 3 then None
      else Some (bindE (mkAddToRelayCacheRequest outlen (ce_files env (args ! 1)) out) (\<lambda>(ob, suite). Inr ob)))
    else if cmd = lit ''removeContentFromCache'' then (if argc < 3 then None
      else Some (mkRemoveFormRelayCacheRequest outlen (args ! 1) out))
    else None)"

section \<open>The exchange\<close>

datatype ctrl_end = Exited int | Waiting

text \<open>What the array \<open>out\<close> holds after a datagram was received into it, and its length.\<close>

definition rx_mem :: "bytes \<Rightarrow> bytes" where
  "rx_mem d = take CCNL_MAX_PACKET_SIZE d @ replicate (CCNL_MAX_PACKET_SIZE - length d) 0"

definition rx_len :: "bytes \<Rightarrow> nat" where
  "rx_len d = min CCNL_MAX_PACKET_SIZE (length d)"

text \<open>What \<open>recvbuffer\<close> holds and what is still to be received, or the end of the program.\<close>

datatype ctrl_stage = Got bytes "bytes option list" | Over ctrl_end

text \<open>
  The loop while there are more pieces: an Interest in the array of 100 bytes, and the next piece two bytes behind
  the start of the datagram. The lengths of the Interests add up in \<open>len2\<close>.
\<close>

fun ctrl_segments :: "ctrl_env \<Rightarrow> bool \<Rightarrow> nat \<Rightarrow> nat \<Rightarrow> bytes \<Rightarrow> bytes option list \<Rightarrow> bytes list
    \<Rightarrow> (bytes list \<times> ctrl_stage) res" where
  "ctrl_segments env hasNext num len2 rb rx sent =
    (if \<not> hasNext then Inr (sent, Got rb rx)
     else case make_next_seg_debug_interest num 100 (0, ce_interest env num) of
         Inl e \<Rightarrow> if e = Fail then Inr (sent, Over (Exited (-1))) else Inl e
       | Inr (n, interest2) \<Rightarrow>
           if len2 + n > 100 then Inl Oob
           else let sent2 = sent @ [take (len2 + n) interest2] in
             (case rx of
                 [] \<Rightarrow> Inr (sent2, Over Waiting)
               | None # _ \<Rightarrow> Inr (sent2, Over (Exited (-1)))
               | Some d # rx2 \<Rightarrow>
                   (case check_has_next (ce_marker env) (drop 2 (rx_mem d)) (0, wsub (rx_len d) 2) of
                       Inl e \<Rightarrow> Inl e
                     | Inr (again, c) \<Rightarrow>
                         ctrl_segments env again (num + 1) (len2 + n) (rb @ (case c of None \<Rightarrow> [] | Some b \<Rightarrow> b)) rx2 sent2)))"

declare ctrl_segments.simps [simp del]

text \<open>The request is sent, the first piece received. With the option \<open>-u\<close> the address is a piece of a string that
  was freed while the options were read.\<close>

definition ctrl_exchange :: "ctrl_env \<Rightarrow> bool \<Rightarrow> bytes \<Rightarrow> nat \<Rightarrow> bytes option list \<Rightarrow> (bytes list \<times> ctrl_stage) res" where
  "ctrl_exchange env use_udp out len rx =
    (if use_udp then Inl Uaf
     else if len > length out then Inl Oob
     else case rx of
         [] \<Rightarrow> Inr ([take len out], Over Waiting)
       | None # _ \<Rightarrow> Inr ([take len out], Over (Exited (-1)))
       | Some d # rx2 \<Rightarrow>
           (case check_has_next (ce_marker env) (rx_mem d) (0, rx_len d) of
               Inl e \<Rightarrow> Inl e
             | Inr (again, c) \<Rightarrow> ctrl_segments env again 1 0 (case c of None \<Rightarrow> [] | Some b \<Rightarrow> b) rx2 [take len out]))"

text \<open>What was received, as an object, and a newline.\<close>

definition ctrl_print :: "bytes \<Rightarrow> bytes res" where
  "ctrl_print rb =
    bindE (ccnl_ccnb_mkHeader (length rb + 1000) CCN_DTAG_CONTENTOBJ CCN_TT_DTAG (zeroed (length rb + 1000))) (\<lambda>ob1.
    bindE (put_fwd rb ob1) (\<lambda>ob2. bindE (put_fwd [0] ob2) (\<lambda>ob3. Inr (written ob3 @ [10]))))"

text \<open>The file itself follows its request: but \<open>fread\<close> returns the number of blocks read, which is taken for an error.\<close>

definition ctrl_send_file :: "bytes option \<Rightarrow> bytes option list \<Rightarrow> bytes list \<times> ctrl_end" where
  "ctrl_send_file file rx = (case file of
      None \<Rightarrow> ([], Exited (-1))
    | Some b \<Rightarrow>
        if b \<noteq> [] then ([], Exited (-1))
        else (case rx of
            [] \<Rightarrow> ([], Waiting)
          | None # _ \<Rightarrow> ([], Exited (-1))
          | Some _ # _ \<Rightarrow> ([b], Exited 0)))"

section \<open>The program\<close>

text \<open>The datagrams sent, what is printed on the standard output, and how the program ends.\<close>

definition ctrl_main :: "ctrl_env \<Rightarrow> bool \<Rightarrow> bool \<Rightarrow> bytes list \<Rightarrow> bytes option list \<Rightarrow> (bytes list \<times> bytes \<times> ctrl_end) res" where
  "ctrl_main env use_udp msgOnly args rx =
    (if args = [] then Inr ([], [], Exited 1)
     else case ctrl_command env args of
         None \<Rightarrow> Inr ([], [], Exited 1)
       | Some (Inl e) \<Rightarrow> if e = Fail then Inr ([], [], Exited (-1)) else Inl e
       | Some (Inr (n, out)) \<Rightarrow>
           let len = (ce_len env + n) mod 2 ^ 64 in
           if len > 0 \<and> \<not> msgOnly then
             bindE (ctrl_exchange env use_udp out len rx) (\<lambda>(sent, st). case st of
                 Over e \<Rightarrow> Inr (sent, [], e)
               | Got rb rx2 \<Rightarrow>
                   (case ctrl_print rb of
                       Inl e \<Rightarrow> if e = Fail then Inr (sent, [], Exited (-1)) else Inl e
                     | Inr s \<Rightarrow>
                         if hd args = lit ''addContentToCache''
                         then (case ctrl_send_file (ce_files env (args ! 1)) rx2 of (sent2, e) \<Rightarrow> Inr (sent @ sent2, s, e))
                         else Inr (sent, s, Exited 0)))
           else if msgOnly then bindE (slice out 0 len) (\<lambda>b. Inr ([], b, Exited 0))
           else Inr ([], [], Exited 0))"

end
