(* ===== verification/Ctrl_Props.thy ===== *)
theory Ctrl_Props
  imports Ctrl_Read Ctrl_Main
begin

text \<open>
  The control program and the relay together, step by step: a request that fits is composed, its frame reaches the
  command it names, the statement is read, the reply composed and sent, and its pieces are read by the program.
\<close>

section \<open>From the frame to the command\<close>

lemma interest_head: "ccnb_head CCN_DTAG_INTEREST CCN_TT_DTAG = [0x01, 0xD2]"
  by (simp add: ccnb_head_def groups_nz)

lemma frame_read:
  assumes cs: "length cs \<le> CCNL_MAX_NAME_COMP" and short: "short (frame_enc cs)"
  shows "\<exists>pk p. ccnl_ccnb_bytes2pkt (frame_enc cs) (2, length (frame_enc cs) - 2) = Inr (pk, (length (frame_enc cs), 0))
    \<and> pkt_pfx pk = Some p \<and> pfx_comp p = cs \<and> pkt_buf pk = Some (frame_enc cs) \<and> pkt_suite pk = CCNL_SUITE_CCNB
    \<and> pkt_flags pk = 0 \<and> cb_nonce (s_ccnb pk) = None"
proof -
  let ?m = "frame_enc cs" and ?h = "length (ccnb_head CCN_DTAG_NAME CCN_TT_DTAG)" and ?l = "length (comps_enc cs @ [0])"
  have gen: "at_pos m 2 (ccnb_head CCN_DTAG_NAME CCN_TT_DTAG) \<and> at_pos m (2 + ?h) (comps_enc cs @ [0]) \<and> at_pos m (2 + ?h + ?l) [0]"
    if "at_pos m 0 (frame_enc cs)" for m
    using that unfolding frame_enc_def interest_head by (auto simp: at_pos_Cons numeral_2_eq_2 at_pos_def[of m _ "[]"] rd_def split: if_splits)
  have "at_pos ?m 0 ?m" by (simp add: at_pos_def)
  note a = gen[OF this, THEN conjunct1] gen[OF this, THEN conjunct2, THEN conjunct1] gen[OF this, THEN conjunct2, THEN conjunct2]
  have L: "length ?m = 2 + ?h + ?l + 1" by (simp add: frame_enc_def interest_head)
  have e: "length c \<le> length (ccnb_elem t c)" for c t by (simp add: ccnb_elem_def ccnb_blob_def)
  have "length (comps_enc cs) < 2 ^ 46" using short L by simp
  then have c: "\<forall>c\<in>set cs. short c"
  proof (induction cs)
    case (Cons c cs)
    then show ?case using e[of c CCN_DTAG_COMPONENT] by auto
  qed simp
  have b: "?l \<le> length ?m - 2 - ?h" "length ?m - 2 - ?h < 2 ^ 64" "length ([] :: blobref list) + length cs \<le> CCNL_MAX_NAME_COMP"
    using short L cs by simp_all
  have d1: "ccnl_ccnb_dehead ?m (2, length ?m - 2) = Inr (Some (CCN_DTAG_NAME, CCN_TT_DTAG), (2 + ?h, length ?m - 2 - ?h))"
    using L by (intro dehead_head a(1)) simp_all
  obtain refs where n: "ccnb_name_loop ?m (2 + ?h, length ?m - 2 - ?h) [] = Inr ((2 + ?h + ?l, length ?m - 2 - ?h - ?l), [] @ refs)"
    "refs_at ?m (2 + ?h + ?l) refs cs"
    using name_read[OF a(2) b(1) c b(2,3)] by blast
  have d2: "ccnl_ccnb_dehead ?m (2 + ?h + ?l, length ?m - 2 - ?h - ?l) = Inr (Some (0, 0), (2 + ?h + ?l + 1, length ?m - 2 - ?h - ?l - 1))"
    using L by (intro dehead_end a(3)) simp
  have s: "ccnb_step ?m 2 CCN_DTAG_NAME CCN_TT_DTAG (2 + ?h, length ?m - 2 - ?h) ccnb_parse_init
      = Inr ((2 + ?h + ?l, length ?m - 2 - ?h - ?l), ccnb_parse_init\<lparr>bp_comps := refs, bp_nameptr := Some 2, bp_namelen := ?h + ?l\<rparr>)"
    using n(1) by (simp add: ccnb_step_def ccnb_parse_init_def)
  have loop: "ccnb_pkt_loop ?m (2, length ?m - 2) ccnb_parse_init
      = Inr ((length ?m, 0), ccnb_parse_init\<lparr>bp_comps := refs, bp_nameptr := Some 2, bp_namelen := ?h + ?l\<rparr>)"
    by (subst ccnb_pkt_loop.simps, simp only: d1 sum.case option.case prod.case fst_conv s bindE_simps,
        subst ccnb_pkt_loop.simps, simp only: d2 sum.case option.case prod.case) (simp add: L)
  have "slice ?m 0 (length ?m) = Inr ?m" by (simp add: slice_def)
  then show ?thesis using refs_at_comps[OF n(2)] unfolding ccnl_ccnb_bytes2pkt_def loop
    by (simp add: ccnb_parse_init_def s_ccnb_def)
qed

lemma forward_request:
  assumes cs: "length cs = 4" "cs ! 0 = lit ''ccnx''" and short: "short (frame_enc cs)" and h: "hk_producer h = None"
  shows "\<exists>p. pfx_comp p = cs \<and> ccnl_ccnb_forwarder h r from1 (frame_enc cs) (0, length (frame_enc cs))
    = bindE (hk_mgmt h r (frame_enc cs) p from1) (\<lambda>(rc, r1). Inr (r1, Some (frame_enc cs, (length (frame_enc cs), 0))))"
proof -
  let ?m = "frame_enc cs"
  have L: "2 < length ?m" by (simp add: frame_enc_def interest_head)
  obtain pk p where pk: "ccnl_ccnb_bytes2pkt ?m (2, length ?m - 2) = Inr (pk, (length ?m, 0))" "pkt_pfx pk = Some p" "pfx_comp p = cs"
    "pkt_buf pk = Some ?m" "pkt_suite pk = CCNL_SUITE_CCNB" "pkt_flags pk = 0" "cb_nonce (s_ccnb pk) = None"
    using frame_read[of cs] short cs(1) by auto
  have at: "at_pos ?m 0 (ccnb_head CCN_DTAG_INTEREST CCN_TT_DTAG)"
    unfolding frame_enc_def by (simp add: at_pos_def)
  have d: "ccnl_ccnb_dehead ?m (0, length ?m) = Inr (Some (CCN_DTAG_INTEREST, CCN_TT_DTAG), (2, length ?m - 2))"
    using dehead_head[OF at, of "length ?m"] L by (simp add: interest_head)
  define pk1 where "pk1 = pk\<lparr>pkt_type := CCN_DTAG_INTEREST, pkt_flags := CCNL_PKT_REQUEST\<rparr>"
  have f: "ccnl_fwd_handleInterest h r from1 pk1 (ccnl_ccnb_cMatch h) = bindE (hk_mgmt h r ?m p from1) (\<lambda>(rc, r3). Inr (0, r3))"
    using pk(2-5,7) cs h by (simp add: ccnl_fwd_handleInterest_def ccnl_nonce_isDup_def local_producer_def is_mgmt_def pk1_def s_ccnb_def lit_def)
  have l: "drop (2 - 2) ?m = ?m" "CCNL_PKT_REQUEST AND CCNL_PKT_REQUEST \<noteq> 0" by simp_all
  have w: "ccnl_ccnb_fwd h r from1 ?m (2, length ?m - 2) CCN_DTAG_INTEREST
      = bindE (hk_mgmt h r ?m p from1) (\<lambda>(rc, r1). Inr (r1, Some (length ?m, 0)))"
    using pk(1,6) f by (simp add: ccnl_ccnb_fwd_def Let_def pk1_def bindE_assoc split_def)
  have "ccnl_ccnb_forwarder h r from1 ?m (0, length ?m)
      = bindE (hk_mgmt h r ?m p from1) (\<lambda>(rc, r1). ccnb_forward_loop h r1 from1 ?m (length ?m, 0))"
    unfolding ccnl_ccnb_forwarder_def using L
    by (subst ccnb_forward_loop.simps) (auto simp: d w bindE_assoc split_def)
  also have "\<dots> = bindE (hk_mgmt h r ?m p from1) (\<lambda>(rc, r1). Inr (r1, Some (?m, (length ?m, 0))))"
    by (subst ccnb_forward_loop.simps) simp
  finally show ?thesis using pk(3) by blast
qed

section \<open>Requests that fit\<close>

lemma length_elem: "unat tag < 2 ^ 18 \<Longrightarrow> length d < 2048 \<Longrightarrow> length (ccnb_elem tag d) \<le> length d + 6"
  using length_ccnb_head[of tag 2 CCN_TT_DTAG] length_ccnb_head[of "of_nat (length d)" 1 CCN_TT_BLOB]
  by (simp add: ccnb_elem_def ccnb_blob_def unat_length)

lemma length_tags: "length (ccnb_head CCN_DTAG_INTEREST CCN_TT_DTAG) \<le> 3" "length (ccnb_head CCN_DTAG_NAME CCN_TT_DTAG) \<le> 3"
  "length (ccnb_head CCN_DTAG_CONTENTOBJ CCN_TT_DTAG) \<le> 3" "length (ccnb_head CCNL_DTAG_PREFIX CCN_TT_DTAG) \<le> 3"
  "length (ccnb_head CCNL_DTAG_FRAG CCN_TT_DTAG) \<le> 3"
  using length_ccnb_head[of CCN_DTAG_INTEREST 2] length_ccnb_head[of CCN_DTAG_NAME 2] length_ccnb_head[of CCN_DTAG_CONTENTOBJ 2]
    length_ccnb_head[of CCNL_DTAG_PREFIX 2] length_ccnb_head[of CCNL_DTAG_FRAG 2] by simp_all

lemma ctrl_request_fits:
  assumes out: "length m = outlen" "2200 \<le> outlen" and cmd: "length cmd \<le> 30"
    and st: "stmt = Inr st" "length (written st) \<le> 1900"
    and e: "\<And>ob. fst ob + 2 \<le> 2000 \<Longrightarrow> length (snd ob) = 2000 \<Longrightarrow> endtag 2000 ob = Inr (put_at [0] ob)"
  shows "\<exists>n frame. ctrl_request outlen (0, m) cmd stmt endtag = Inr (n, frame)"
proof -
  let ?H = "ccnb_head CCN_DTAG_INTEREST CCN_TT_DTAG @ ccnb_head CCN_DTAG_NAME CCN_TT_DTAG"
  let ?C = "ccnb_head CCN_DTAG_CONTENTOBJ CCN_TT_DTAG @ ccnb_elem CCN_DTAG_CONTENT (written st)"
  have H: "ctrl_head outlen (0, m) = Inr (put_at ?H (0, m))"
    using out length_tags by (intro appender.fits[OF ctrl_head_appender]) simp_all
  have lc: "length (ccnb_elem CCN_DTAG_COMPONENT (c_str c)) \<le> 36" if "length c \<le> 30" for c
    using length_elem[of CCN_DTAG_COMPONENT "c_str c"] length_c_str[of c] that by simp
  have c: "appender (\<lambda>n ob. bindE (bindE (mk_str n CCN_DTAG_COMPONENT (Some (lit ''ccnx'')) ob) (mk_str n CCN_DTAG_COMPONENT (Some [])))
      (mk_str n CCN_DTAG_COMPONENT (Some cmd)))
      ((ccnb_elem CCN_DTAG_COMPONENT (c_str (lit ''ccnx'')) @ ccnb_elem CCN_DTAG_COMPONENT (c_str [])) @ ccnb_elem CCN_DTAG_COMPONENT (c_str cmd))"
    by (intro appender_then mk_string.appender_axioms)
  have l4: "length (lit ''ccnx'') \<le> 30" by (simp add: lit_def)
  let ?E = "(ccnb_elem CCN_DTAG_COMPONENT (c_str (lit ''ccnx'')) @ ccnb_elem CCN_DTAG_COMPONENT (c_str [])) @ ccnb_elem CCN_DTAG_COMPONENT (c_str cmd)"
  let ?comps = "put_at ?E (zeroed CCNL_MAX_PACKET_SIZE)"
  have lC: "length ?E \<le> 108" using lc[OF l4] lc[of "[]"] lc[OF cmd] by simp
  then have "length ?E < CCNL_MAX_PACKET_SIZE" by simp
  then have C: "ctrl_comps CCNL_MAX_PACKET_SIZE CCNL_MAX_PACKET_SIZE cmd = Inr ?comps"
    using appender.fresh[OF c, of CCNL_MAX_PACKET_SIZE] by (simp add: ctrl_comps_def bindE_assoc)
  have E: "fst ?comps \<le> 108" "length (snd ?comps) = CCNL_MAX_PACKET_SIZE"
    using lC length_put_at[of "zeroed CCNL_MAX_PACKET_SIZE" ?E] by simp_all
  have o: "appender (\<lambda>n ob. bindE (ccnl_ccnb_mkHeader n CCN_DTAG_CONTENTOBJ CCN_TT_DTAG ob)
      (ccnl_ccnb_mkBlob n CCN_DTAG_CONTENT CCN_TT_DTAG (written st))) ?C"
    by (intro appender_then mk_head.appender_axioms mk_blob.appender_axioms)
  have lo: "length ?C \<le> 1909" using length_tags length_elem[of CCN_DTAG_CONTENT "written st"] st(2) by simp
  have z: "fst (zeroed 2000) + length ?C \<le> length (snd (zeroed 2000))" using lo by simp
  have "endtag 2000 (put_at ?C (zeroed 2000)) = Inr (put_at [0] (put_at ?C (zeroed 2000)))"
    using lo by (intro e) (simp_all add: length_put_at[OF z])
  moreover have "length ?C < 2000" using lo by simp
  ultimately have O: "ctrl_object 2000 endtag st = Inr (put_at [0] (put_at ?C (zeroed 2000)))"
    using appender.fresh[OF o, of 2000] by (auto simp: ctrl_object_def bindE_assoc[symmetric])
  let ?obj = "put_at [0] (put_at ?C (zeroed 2000))"
  have lw: "length (written ?obj) \<le> 1910" using lo by (simp add: written_def)
  have cl: "fst ?comps + length (ccnb_elem CCN_DTAG_COMPONENT (written ?obj)) < CCNL_MAX_PACKET_SIZE \<and> length (snd ?comps) = CCNL_MAX_PACKET_SIZE"
    using E length_elem[of CCN_DTAG_COMPONENT "written ?obj"] lw by simp
  then have B: "ccnl_ccnb_mkBlob CCNL_MAX_PACKET_SIZE CCN_DTAG_COMPONENT CCN_TT_DTAG (written ?obj) ?comps
      = Inr (put_at (ccnb_elem CCN_DTAG_COMPONENT (written ?obj)) ?comps)"
    by (intro mk_blob.fits) simp_all
  let ?c1 = "put_at (ccnb_elem CCN_DTAG_COMPONENT (written ?obj)) ?comps"
  have "length (written ?c1) = fst ?c1" using cl by (simp add: written_def length_put_at)
  moreover have "fst (put_at ?H (0, m)) + fst ?c1 + 2 < outlen"
    using length_tags E length_elem[of CCN_DTAG_COMPONENT "written ?obj"] lw out by simp
  moreover have "length (snd (put_at ?H (0, m))) = outlen"
    using length_tags out by (simp add: length_put_at)
  ultimately obtain fr where "ctrl_close outlen CCNL_MAX_PACKET_SIZE (put_at ?H (0, m)) ?comps ?obj = Inr fr"
    using B by (auto simp: ctrl_close_def put_fwd_eq length_put_at)
  then show ?thesis using H C O st(1) by (cases fr) (simp add: ctrl_request_def)
qed

section \<open>Registering a prefix\<close>

lemma components_short: "ctrl_components maxlen bufend suite cs ob = Inr ob' \<Longrightarrow> \<forall>c\<in>set cs. length c \<le> maxlen"
  by (induction cs arbitrary: ob) (auto split: if_splits sum.splits)

lemma reg_appender:
  assumes c: "\<forall>c\<in>set cs. length c \<le> 65535"
  shows "appender (\<lambda>n ob. bindE (ccnl_ccnb_mkHeader n CCN_DTAG_FWDINGENTRY CCN_TT_DTAG ob) (\<lambda>ob1.
     bindE (mk_str n CCN_DTAG_ACTION (Some cmd) ob1) (\<lambda>ob2.
     bindE (ccnl_ccnb_mkHeader n CCN_DTAG_NAME CCN_TT_DTAG ob2) (\<lambda>ob3.
     bindE (ctrl_components 65535 n suite cs ob3) (\<lambda>ob4.
     bindE (mk_end n ob4) (\<lambda>ob5.
     bindE (mk_str n CCN_DTAG_FACEID (Some fid) ob5) (\<lambda>ob6.
     bindE (mk_str n CCNL_DTAG_SUITE (Some s) ob6) (mk_end n))))))))
    (ccnb_head CCN_DTAG_FWDINGENTRY CCN_TT_DTAG @ reg_rest (c_str cmd) (map (ctrl_component suite) cs) (c_str fid) (c_str s))"
proof -
  let ?f = "\<lambda>n ob. bindE (bindE (bindE (bindE (bindE (bindE (bindE (ccnl_ccnb_mkHeader n CCN_DTAG_FWDINGENTRY CCN_TT_DTAG ob)
      (mk_str n CCN_DTAG_ACTION (Some cmd))) (ccnl_ccnb_mkHeader n CCN_DTAG_NAME CCN_TT_DTAG)) (ctrl_components 65535 n suite cs))
      (mk_end n)) (mk_str n CCN_DTAG_FACEID (Some fid))) (mk_str n CCNL_DTAG_SUITE (Some s))) (mk_end n)"
  let ?e = "((((((ccnb_head CCN_DTAG_FWDINGENTRY CCN_TT_DTAG @ ccnb_elem CCN_DTAG_ACTION (c_str cmd)) @ ccnb_head CCN_DTAG_NAME CCN_TT_DTAG)
      @ comps_enc (map (ctrl_component suite) cs)) @ [0]) @ ccnb_elem CCN_DTAG_FACEID (c_str fid)) @ ccnb_elem CCNL_DTAG_SUITE (c_str s)) @ [0]"
  have "appender ?f ?e"
    by (intro appender_then mk_head.appender_axioms mk_string.appender_axioms ctrl_components_appender c mk_close.appender_axioms)
  then show ?thesis by (simp add: bindE_assoc reg_rest_def)
qed

text \<open>The request for a statement that is not too long.\<close>

lemma reg_request:
  assumes buf: "length buf = CCNL_MAX_PACKET_SIZE" and cs: "\<forall>c\<in>set (path_tokens path). length c \<le> 65535"
    and st: "st = ccnb_head CCN_DTAG_FWDINGENTRY CCN_TT_DTAG
      @ reg_rest (c_str (reg_cmd reg)) (map (ctrl_component suite) (path_tokens path)) (c_str fid) (c_str [of_int suite])"
    and short: "length st \<le> 1900"
  shows "\<exists>n out. mkPrefixregRequest CCNL_MAX_PACKET_SIZE reg path fid suite (0, buf) = Inr (n, out)
    \<and> take n out = frame_enc [lit ''ccnx'', [], c_str (reg_cmd reg), obj_enc st] \<and> n = length (take n out)"
proof -
  note a = reg_appender[OF cs, of "reg_cmd reg" suite fid "[of_int suite]", folded st]
  have l: "length st < 2000" using short by simp
  let ?ob = "put_at st (zeroed 2000)"
  have w: "written ?ob = st" using l written_put_at[of "zeroed 2000" st] by simp
  have e: "mk_end 2000 ob = Inr (put_at [0] ob)" if "fst ob + 2 \<le> 2000" "length (snd ob) = 2000" for ob
    using that by (intro mk_close.fits) simp_all
  have c: "length (reg_cmd reg) \<le> 30" by (simp add: reg_cmd_def lit_def)
  have x: "mk_end 2000 ob = Inr ob' \<Longrightarrow> fst ob < length (snd ob) \<and> ob' = put_at [0] ob" for ob ob'
    by (auto simp: mk_end_def put_fwd_eq split: if_splits)
  note st1 = appender.fresh[OF a l]
  have "\<exists>n out. mkPrefixregRequest CCNL_MAX_PACKET_SIZE reg path fid suite (0, buf) = Inr (n, out)"
    unfolding mkPrefixregRequest_def
  proof (rule ctrl_request_fits[OF buf _ c st1])
    show "mk_end 2000 ob = Inr (put_at [0] ob)" if "fst ob + 2 \<le> 2000" "length (snd ob) = 2000" for ob using that by (rule e)
  qed (use w short in simp_all)
  then obtain n out where r: "mkPrefixregRequest CCNL_MAX_PACKET_SIZE reg path fid suite (0, buf) = Inr (n, out)" by blast
  then show ?thesis
    using ctrl_request_result[of mk_end, OF _ r[unfolded mkPrefixregRequest_def]] x st1 w by auto
qed

lemma c_str_twice [simp]: "c_str (c_str bs) = c_str bs"
  by (simp add: c_str_def takeWhile_idem)

text \<open>The entry for a name, and the relay with it.\<close>

definition registered :: "int \<Rightarrow> bytes list \<Rightarrow> faceref \<Rightarrow> relay \<Rightarrow> relay" where
  "registered suite cs g r = r\<lparr>rl_fib := rl_fib r @
     [\<lparr>fw_prefix = Some (ccnl_prefix_dup ((ccnl_prefix_new suite 0)\<lparr>pfx_comp := cs\<rparr>)), fw_tap = None, fw_face = Some g, fw_suite = suite\<rparr>]\<rparr>"

lemma prefixreg_read:
  assumes m: "m = obj_enc (ccnb_head CCN_DTAG_FWDINGENTRY CCN_TT_DTAG @ reg_rest cmd cs fid s) @ junk"
    and n: "n = length (obj_enc (ccnb_head CCN_DTAG_FWDINGENTRY CCN_TT_DTAG @ reg_rest cmd cs fid s))"
    and short: "length (ccnb_head CCN_DTAG_FWDINGENTRY CCN_TT_DTAG @ reg_rest cmd cs fid s) \<le> 2000"
    and cs: "cs \<noteq> []" "length cs \<le> CCNL_MAX_NAME_COMP"
    and fid: "strtol 0 (c_str fid) = (fi, False)" "- (2 ^ 31) \<le> fi" "fi \<le> 2 ^ 31 - 1" "face_by_id r fi = Some g"
  shows "ccnl_mgmt_prefixreg h env m n f r
    = bindE (prefixreg_reply h env f (lit ''prefixreg cmd worked'') [CCN_DTAG_ACTION \<mapsto> cmd, CCN_DTAG_FACEID \<mapsto> fid, CCNL_DTAG_SUITE \<mapsto> s]
        (Inr ((ccnl_prefix_new (suite_char s) 0)\<lparr>pfx_comp := cs\<rparr>)) (registered (suite_char s) cs g r))
        (\<lambda>(rc, r2). if rc \<noteq> 0 then Inl Uaf else Inr (rc, r2))"
proof -
  let ?rest = "reg_rest cmd cs fid s" and ?v = "[CCN_DTAG_ACTION \<mapsto> cmd, CCN_DTAG_FACEID \<mapsto> fid, CCNL_DTAG_SUITE \<mapsto> s]"
  have "at_pos m 0 (obj_enc (ccnb_head CCN_DTAG_FWDINGENTRY CCN_TT_DTAG @ ?rest))" unfolding m by (simp add: at_pos_def)
  then obtain p where p: "mgmt_open m n CCN_DTAG_FWDINGENTRY = Inr (Some (p, length ?rest))" "at_pos m p ?rest"
    using open_read[of m CCN_DTAG_FWDINGENTRY ?rest n] n short tag_bits by auto
  obtain refs q where f: "mgmt_reg_fields m [CCN_DTAG_ACTION, CCN_DTAG_FACEID, CCNL_DTAG_SUITE] (p, length ?rest) Map.empty [] = Inr (Ended, ?v, refs)"
    "refs_at m q refs cs"
    using reg_read[OF p(2) refl _ cs(2)] short by auto
  have refs: "refs \<noteq> []" using refs_at_length[OF f(2)] cs(1) by auto
  have x: "reg_prefix m x refs = Inr ((ccnl_prefix_new x 0)\<lparr>pfx_comp := cs\<rparr>)" for x
    using refs_at_comps[OF f(2)] by (simp add: reg_prefix_def)
  have e: "prefixreg_enter m ?v refs r = Inr (True, suite_char s, registered (suite_char s) cs g r)"
    using fid refs by (simp add: prefixreg_enter_def x registered_def)
  show ?thesis by (simp only: ccnl_mgmt_prefixreg_def p(1) f(1) bindE_simps option.case prod.case parse_end.distinct if_False if_True e x Let_def) simp
qed

section \<open>Replies\<close>

interpretation put_bytes: appender "\<lambda>_. put_fwd xs" xs for xs
  by unfold_locales (simp_all add: put_fwd_eq split: if_splits)

text \<open>The statement, the message and the packet of a reply in closed form.\<close>

definition reg_answer :: "bytes \<Rightarrow> bytes \<Rightarrow> bytes \<Rightarrow> bytes \<Rightarrow> bytes" where
  "reg_answer cp nm fid s = ccnb_head CCNL_DTAG_PREFIX CCN_TT_DTAG @ ccnb_elem CCN_DTAG_ACTION cp @ ccnb_elem CCN_DTAG_NAME nm
     @ ccnb_elem CCN_DTAG_FACEID fid @ ccnb_elem CCNL_DTAG_SUITE s @ [0]"

definition msg_enc :: "bytes \<Rightarrow> bytes \<Rightarrow> bytes" where
  "msg_enc cmd st = ccnb_head CCN_DTAG_NAME CCN_TT_DTAG @ comps_enc [lit ''ccnx'', [], cmd] @ [0] @ ccnb_elem CCN_DTAG_CONTENT st"

definition piece_enc :: "bool \<Rightarrow> bytes \<Rightarrow> bytes" where
  "piece_enc lst d = ccnb_head CCN_DTAG_CONTENTOBJ CCN_TT_DTAG @ ccnb_head CCNL_DTAG_FRAG CCN_TT_DTAG
     @ opt_elem CCN_DTAG_ANY (if lst then Some (lit ''last'') else None) @ ccnb_elem CCN_DTAG_CONTENTDIGEST d @ [0, 0]"

lemma answer_statement:
  assumes "prefix_string (mg_dump env) p = Inr (Some nm)"
    and l: "length (reg_answer (c_str cp) (c_str nm) (c_str fid) (c_str (dec_str (uint (hd (sb @ [0])))))) < 2000"
  shows "\<exists>ob. prefixreg_stmt env cp (Inr p) fid (Some sb) = Inr ob
    \<and> written ob = reg_answer (c_str cp) (c_str nm) (c_str fid) (c_str (dec_str (uint (hd (sb @ [0])))))"
proof -
  let ?s = "dec_str (uint (hd (sb @ [0])))"
  let ?f = "\<lambda>n ob. bindE (bindE (bindE (bindE (bindE (ccnl_ccnb_mkHeader n CCNL_DTAG_PREFIX CCN_TT_DTAG ob)
      (mk_str n CCN_DTAG_ACTION (Some cp))) (mk_str n CCN_DTAG_NAME (Some nm))) (mk_str n CCN_DTAG_FACEID (Some fid)))
      (mk_str n CCNL_DTAG_SUITE (Some ?s))) (put_fwd [0])"
  have "appender ?f (((((ccnb_head CCNL_DTAG_PREFIX CCN_TT_DTAG @ ccnb_elem CCN_DTAG_ACTION (c_str cp)) @ ccnb_elem CCN_DTAG_NAME (c_str nm))
      @ ccnb_elem CCN_DTAG_FACEID (c_str fid)) @ ccnb_elem CCNL_DTAG_SUITE (c_str ?s)) @ [0])"
    by (intro appender_then mk_head.appender_axioms mk_string.appender_axioms put_bytes.appender_axioms)
  then have a: "appender ?f (reg_answer (c_str cp) (c_str nm) (c_str fid) (c_str ?s))" by (simp add: reg_answer_def)
  have r: "?f 2000 (zeroed 2000) = Inr (put_at (reg_answer (c_str cp) (c_str nm) (c_str fid) (c_str ?s)) (zeroed 2000))"
    using appender.fresh[OF a l] .
  then have "prefixreg_stmt env cp (Inr p) fid (Some sb) = Inr (put_at (reg_answer (c_str cp) (c_str nm) (c_str fid) (c_str ?s)) (zeroed 2000))"
    using assms(1) by (simp add: prefixreg_stmt_def bindE_assoc deref_def)
  then show ?thesis using appender.fresh_adds[OF a r] by blast
qed

lemma c_str_lit: "c_str (lit ''ccnx'') = lit ''ccnx''" "c_str [] = []" "c_str (lit ''last'') = lit ''last''"
  by code_simp+

lemma message_fits:
  assumes l: "length (msg_enc (c_str cmd) (written st)) < 2000"
  shows "mgmt_message (Some cmd) (Inr st) = Inr (msg_enc (c_str cmd) (written st))"
proof -
  let ?f = "\<lambda>n ob. bindE (bindE (bindE (bindE (bindE (ccnl_ccnb_mkHeader n CCN_DTAG_NAME CCN_TT_DTAG ob)
      (mk_str n CCN_DTAG_COMPONENT (Some (lit ''ccnx'')))) (mk_str n CCN_DTAG_COMPONENT (Some []))) (mk_str n CCN_DTAG_COMPONENT (Some cmd)))
      (mk_end n)) (ccnl_ccnb_mkBlob n CCN_DTAG_CONTENT CCN_TT_DTAG (written st))"
  have "appender ?f (((((ccnb_head CCN_DTAG_NAME CCN_TT_DTAG @ ccnb_elem CCN_DTAG_COMPONENT (c_str (lit ''ccnx''))) @ ccnb_elem CCN_DTAG_COMPONENT (c_str []))
      @ ccnb_elem CCN_DTAG_COMPONENT (c_str cmd)) @ [0]) @ ccnb_elem CCN_DTAG_CONTENT (written st))"
    by (intro appender_then mk_head.appender_axioms mk_string.appender_axioms mk_close.appender_axioms mk_blob.appender_axioms)
  then have a: "appender ?f (msg_enc (c_str cmd) (written st))" by (simp add: msg_enc_def c_str_lit)
  note r = appender.fresh[OF a l]
  obtain ob where ob: "mk_mgmt_name 2000 (Some cmd) (zeroed 2000) = Inr ob"
    "ccnl_ccnb_mkBlob 2000 CCN_DTAG_CONTENT CCN_TT_DTAG (written st) ob = Inr (put_at (msg_enc (c_str cmd) (written st)) (zeroed 2000))"
    using r by (auto simp: mk_mgmt_name_def bindE_assoc bindE_eq_Inr_iff)
  then show ?thesis using appender.fresh_adds[OF a r] by (simp add: mgmt_message_def)
qed

lemma object_fits:
  assumes "length packet \<le> 4000"
  shows "split_object packet = Inr (ccnb_head CCN_DTAG_CONTENTOBJ CCN_TT_DTAG @ packet @ [0])"
proof -
  let ?C = "ccnb_head CCN_DTAG_CONTENTOBJ CCN_TT_DTAG" and ?z = "zeroed CCNL_MAX_PACKET_SIZE"
  have C: "length ?C \<le> 3" by (rule length_tags)
  have 1: "ccnl_ccnb_mkHeader CCNL_MAX_PACKET_SIZE CCN_DTAG_CONTENTOBJ CCN_TT_DTAG ?z = Inr (put_at ?C ?z)"
    using C by (intro mk_head.fits) simp_all
  have l: "fst ?z + length (?C @ packet @ [0]) \<le> length (snd ?z)" using C assms by simp
  have 2: "bindE (put_fwd packet (put_at ?C ?z)) (put_fwd [0]) = Inr (put_at (?C @ packet @ [0]) ?z)"
    unfolding put_fwd_twice using C assms put_at_append[OF l] length_put_at[of ?z ?C] by (simp add: put_fwd_eq)
  have "split_object packet = bindE (bindE (put_fwd packet (put_at ?C ?z)) (put_fwd [0])) (\<lambda>ob3. Inr (written ob3))"
    unfolding split_object_def 1 bindE_simps using C assms by (simp add: bindE_assoc del: put_fwd_twice)
  then show ?thesis unfolding 2 using written_put_at[OF l] by simp
qed

text \<open>A message of one piece.\<close>

lemma piece_fits:
  assumes l: "length d \<le> 2024"
  shows "\<exists>packet. split_packet lst d = Inr packet \<and> split_object packet = Inr (piece_enc lst d)" and "length (piece_enc lst d) \<le> 2060"
proof -
  let ?so = "if lst then Some (lit ''last'') else None"
  let ?P = "ccnb_head CCNL_DTAG_FRAG CCN_TT_DTAG @ opt_elem CCN_DTAG_ANY ?so @ ccnb_elem CCN_DTAG_CONTENTDIGEST d @ [0]"
  let ?f = "\<lambda>n ob. bindE (bindE (bindE (ccnl_ccnb_mkHeader n CCNL_DTAG_FRAG CCN_TT_DTAG ob) (mk_opt n CCN_DTAG_ANY ?so))
      (ccnl_ccnb_mkBlob n CCN_DTAG_CONTENTDIGEST CCN_TT_DTAG d)) (mk_end n)"
  have "appender ?f (((ccnb_head CCNL_DTAG_FRAG CCN_TT_DTAG @ opt_elem CCN_DTAG_ANY ?so) @ ccnb_elem CCN_DTAG_CONTENTDIGEST d) @ [0])"
    by (intro appender_then mk_head.appender_axioms mk_optional.appender_axioms mk_close.appender_axioms mk_blob.appender_axioms)
  then have a: "appender ?f ?P" by simp
  have ll: "length (lit ''last'') = 4" by (simp add: lit_def)
  have "length (opt_elem CCN_DTAG_ANY ?so) \<le> 10"
    using length_elem[of CCN_DTAG_ANY "lit ''last''"] ll by (simp add: opt_elem_def c_str_lit)
  then have lP: "length ?P \<le> 2050" using l length_tags length_elem[of CCN_DTAG_CONTENTDIGEST d] by simp
  then have "length ?P < 4048" by simp
  note r = appender.fresh[OF a this]
  have unf: "split_packet lst d = bindE (?f 4048 (zeroed 4048)) (\<lambda>ob4. Inr (written ob4))"
    by (simp add: split_packet_def bindE_assoc mk_opt_def)
  have 1: "split_packet lst d = Inr ?P"
    using appender.fresh_adds[OF a r] by (simp add: unf r)
  have 2: "split_object ?P = Inr (ccnb_head CCN_DTAG_CONTENTOBJ CCN_TT_DTAG @ ?P @ [0])"
    using lP by (intro object_fits) simp
  show "\<exists>packet. split_packet lst d = Inr packet \<and> split_object packet = Inr (piece_enc lst d)"
    using 1 2 by (simp add: piece_enc_def)
  show "length (piece_enc lst d) \<le> 2060" using lP length_tags by (simp add: piece_enc_def)
qed

lemma send_one:
  assumes "relay_wf r" and "f \<in> out_faces r" and "length msg < 2024"
  shows "\<exists>r'. mgmt_send h env f (Inr msg) r = Inr (0, r') \<and> out_only r r' \<and> rl_tx r' = rl_tx r @ tx_to r (piece_enc True msg) f"
proof -
  obtain packet where p: "split_packet True msg = Inr packet" "split_object packet = Inr (piece_enc True msg)" using piece_fits(1)[of msg] assms(3) by auto
  have e: "ccnl_face_enqueue f (Some b) r = ccnl_send_pkt f (pkt_zero\<lparr>pkt_buf := Some b\<rparr>) r" for b
    by (simp add: ccnl_send_pkt_def)
  obtain r' where r: "ccnl_face_enqueue f (Some (piece_enc True msg)) r = Inr (0, r')" "out_only r r'" "rl_tx r' = rl_tx r @ tx_to r (piece_enc True msg) f"
    using send_wf[OF assms(1,2), of "pkt_zero\<lparr>pkt_buf := Some (piece_enc True msg)\<rparr>" "piece_enc True msg"] e by auto
  then show ?thesis using assms(3) p
    by (auto simp: mgmt_send_def ccnl_mgmt_send_return_split_def Let_def or_bail_def)
qed

text \<open>What the control program finds in the packet: the message, and that nothing follows.\<close>

lemma piece_read_last:
  assumes short: "length d \<le> 2024" and at0: "at_pos m 0 (piece_enc True d)"
  shows "check_has_next junk m (0, length (piece_enc True d)) = Inr (False, Some d)"
proof -
  let ?n = "length (piece_enc True d)" and ?l = "lit ''last''"
  let ?h1 = "length (ccnb_head CCN_DTAG_CONTENTOBJ CCN_TT_DTAG)" and ?h2 = "length (ccnb_head CCNL_DTAG_FRAG CCN_TT_DTAG)"
  let ?h3 = "length (ccnb_head CCN_DTAG_ANY CCN_TT_DTAG)" and ?h5 = "length (ccnb_head CCN_DTAG_CONTENTDIGEST CCN_TT_DTAG)"
  let ?h4 = "blob_off ?l" and ?h6 = "blob_off d"
  have ll: "length ?l = 4" by (simp add: lit_def)
  have n: "?n = ?h1 + ?h2 + ?h3 + ?h4 + 5 + ?h5 + ?h6 + length d + 3" by (simp add: piece_enc_def opt_elem_def c_str_lit ccnb_elem_def ccnb_blob_def ll)
  have "at_pos m 0 (ccnb_head CCN_DTAG_CONTENTOBJ CCN_TT_DTAG)" "at_pos m (0 + ?h1) (ccnb_head CCNL_DTAG_FRAG CCN_TT_DTAG)"
    "at_pos m (0 + ?h1 + ?h2) (ccnb_head CCN_DTAG_ANY CCN_TT_DTAG)" "at_pos m (0 + ?h1 + ?h2 + ?h3) (ccnb_head (of_nat (length ?l)) CCN_TT_BLOB)"
    "at_pos m (0 + ?h1 + ?h2 + ?h3 + ?h4) ?l"
    "at_pos m (0 + ?h1 + ?h2 + ?h3 + ?h4 + 5) (ccnb_head CCN_DTAG_CONTENTDIGEST CCN_TT_DTAG)"
    "at_pos m (0 + ?h1 + ?h2 + ?h3 + ?h4 + 5 + ?h5) (ccnb_head (of_nat (length d)) CCN_TT_BLOB)"
    "at_pos m (0 + ?h1 + ?h2 + ?h3 + ?h4 + 5 + ?h5 + ?h6) d"
    using at0 unfolding piece_enc_def opt_elem_def if_True option.case c_str_lit ccnb_elem_def ccnb_blob_def by (simp_all add: ll at_pos_Cons ac_simps)
  note at = this
  have 1: "mgmt_expect m (0, ?n) (is_dtag CCN_DTAG_CONTENTOBJ) = Inr (Some (CCN_DTAG_CONTENTOBJ, (0 + ?h1, ?n - ?h1)))"
    using n by (intro expect_head at) (simp_all add: is_dtag_def)
  have 2: "ccnl_ccnb_dehead m (0 + ?h1, ?n - ?h1) = Inr (Some (CCNL_DTAG_FRAG, CCN_TT_DTAG), (0 + ?h1 + ?h2, ?n - ?h1 - ?h2))"
    using n by (intro dehead_head at) simp_all
  have 3: "ccnl_ccnb_dehead m (0 + ?h1 + ?h2, ?n - ?h1 - ?h2)
      = Inr (Some (CCN_DTAG_ANY, CCN_TT_DTAG), (0 + ?h1 + ?h2 + ?h3, ?n - ?h1 - ?h2 - ?h3))"
    using n by (intro dehead_head at) simp_all
  have 4: "ccnl_ccnb_dehead m (0 + ?h1 + ?h2 + ?h3, ?n - ?h1 - ?h2 - ?h3)
      = Inr (Some (of_nat (length ?l), CCN_TT_BLOB), (0 + ?h1 + ?h2 + ?h3 + ?h4, ?n - ?h1 - ?h2 - ?h3 - ?h4))"
    using n by (intro dehead_head at) (simp_all add: ll)
  have w: "wsub (?n - ?h1 - ?h2 - ?h3 - ?h4) 5 = ?n - ?h1 - ?h2 - ?h3 - ?h4 - 5"
    using n short length_tags length_ccnb_head[of CCN_DTAG_ANY 2 CCN_TT_DTAG] length_ccnb_head[of CCN_DTAG_CONTENTDIGEST 2 CCN_TT_DTAG]
      length_ccnb_head[of "of_nat (length ?l)" 1 CCN_TT_BLOB] length_ccnb_head[of "of_nat (length d)" 1 CCN_TT_BLOB]
    by (intro wsub_le) (simp_all add: unat_length ll)
  have "slice m (0 + ?h1 + ?h2 + ?h3 + ?h4) 4 = Inr ?l" using at(5) ll by (intro at_pos_slice) simp_all
  moreover have "c_str (take 4 (?l @ x)) = ?l" for x using c_str_lit ll by simp
  ultimately have 5: "seg_last junk m (0 + ?h1 + ?h2 + ?h3 + ?h4, ?n - ?h1 - ?h2 - ?h3 - ?h4) (unat (of_nat (length ?l) :: u64))
      = Inr (True, (0 + ?h1 + ?h2 + ?h3 + ?h4 + 5, ?n - ?h1 - ?h2 - ?h3 - ?h4 - 5))"
    using w by (simp add: seg_last_def ll)
  have 6: "ccnl_ccnb_dehead m (0 + ?h1 + ?h2 + ?h3 + ?h4 + 5, ?n - ?h1 - ?h2 - ?h3 - ?h4 - 5)
      = Inr (Some (CCN_DTAG_CONTENTDIGEST, CCN_TT_DTAG), (0 + ?h1 + ?h2 + ?h3 + ?h4 + 5 + ?h5, ?n - ?h1 - ?h2 - ?h3 - ?h4 - 5 - ?h5))"
    using n by (intro dehead_head at) simp_all
  have 7: "mgmt_expect m (0 + ?h1 + ?h2 + ?h3 + ?h4 + 5 + ?h5, ?n - ?h1 - ?h2 - ?h3 - ?h4 - 5 - ?h5) (\<lambda>num typ. typ = CCN_TT_BLOB)
      = Inr (Some (of_nat (length d), (0 + ?h1 + ?h2 + ?h3 + ?h4 + 5 + ?h5 + ?h6, ?n - ?h1 - ?h2 - ?h3 - ?h4 - 5 - ?h5 - ?h6)))"
    using n short by (intro expect_head at) (simp_all add: unat_length)
  have 8: "slice m (0 + ?h1 + ?h2 + ?h3 + ?h4 + 5 + ?h5 + ?h6) (unat (of_nat (length d) :: u64)) = Inr d"
    using at(8) short by (intro at_pos_slice) (simp_all add: unat_length)
  have q: "\<not> (CCNL_DTAG_FRAG = (CCN_DTAG_SIGNATURE :: u64))" "is_dtag CCNL_DTAG_FRAG CCNL_DTAG_FRAG CCN_TT_DTAG"
    "is_dtag CCN_DTAG_CONTENTDIGEST CCN_DTAG_CONTENTDIGEST CCN_TT_DTAG"
    by (simp_all add: is_dtag_def)
  show ?thesis unfolding check_has_next_def
    by (simp only: 1 2 3 4 5 6 7 8 q bindE_simps option.case prod.case if_False if_True not_True_eq_False not_False_eq_True simp_thms option.map)
qed

lemma piece_read_first:
  assumes short: "length d \<le> 2024" and at0: "at_pos m 0 (piece_enc False d)"
  shows "check_has_next junk m (0, length (piece_enc False d)) = Inr (True, Some d)"
proof -
  let ?n = "length (piece_enc False d)"
  let ?h1 = "length (ccnb_head CCN_DTAG_CONTENTOBJ CCN_TT_DTAG)" and ?h2 = "length (ccnb_head CCNL_DTAG_FRAG CCN_TT_DTAG)"
  let ?h3 = "length (ccnb_head CCN_DTAG_CONTENTDIGEST CCN_TT_DTAG)" and ?h4 = "blob_off d"
  have n: "?n = ?h1 + ?h2 + ?h3 + ?h4 + length d + 3" by (simp add: piece_enc_def opt_elem_def ccnb_elem_def ccnb_blob_def)
  have "at_pos m 0 (ccnb_head CCN_DTAG_CONTENTOBJ CCN_TT_DTAG)" "at_pos m (0 + ?h1) (ccnb_head CCNL_DTAG_FRAG CCN_TT_DTAG)"
    "at_pos m (0 + ?h1 + ?h2) (ccnb_head CCN_DTAG_CONTENTDIGEST CCN_TT_DTAG)"
    "at_pos m (0 + ?h1 + ?h2 + ?h3) (ccnb_head (of_nat (length d)) CCN_TT_BLOB)" "at_pos m (0 + ?h1 + ?h2 + ?h3 + ?h4) d"
    using at0 unfolding piece_enc_def opt_elem_def if_False option.case ccnb_elem_def ccnb_blob_def by (simp_all add: ac_simps)
  note at = this
  have 1: "mgmt_expect m (0, ?n) (is_dtag CCN_DTAG_CONTENTOBJ) = Inr (Some (CCN_DTAG_CONTENTOBJ, (0 + ?h1, ?n - ?h1)))"
    using n by (intro expect_head at) (simp_all add: is_dtag_def)
  have 2: "ccnl_ccnb_dehead m (0 + ?h1, ?n - ?h1) = Inr (Some (CCNL_DTAG_FRAG, CCN_TT_DTAG), (0 + ?h1 + ?h2, ?n - ?h1 - ?h2))"
    using n by (intro dehead_head at) simp_all
  have 3: "ccnl_ccnb_dehead m (0 + ?h1 + ?h2, ?n - ?h1 - ?h2)
      = Inr (Some (CCN_DTAG_CONTENTDIGEST, CCN_TT_DTAG), (0 + ?h1 + ?h2 + ?h3, ?n - ?h1 - ?h2 - ?h3))"
    using n by (intro dehead_head at) simp_all
  have 4: "mgmt_expect m (0 + ?h1 + ?h2 + ?h3, ?n - ?h1 - ?h2 - ?h3) (\<lambda>num typ. typ = CCN_TT_BLOB)
      = Inr (Some (of_nat (length d), (0 + ?h1 + ?h2 + ?h3 + ?h4, ?n - ?h1 - ?h2 - ?h3 - ?h4)))"
    using n short by (intro expect_head at) (simp_all add: unat_length)
  have 5: "slice m (0 + ?h1 + ?h2 + ?h3 + ?h4) (unat (of_nat (length d) :: u64)) = Inr d"
    using at(5) short by (intro at_pos_slice) (simp_all add: unat_length)
  have q: "\<not> (CCNL_DTAG_FRAG = (CCN_DTAG_SIGNATURE :: u64))" "\<not> (CCN_DTAG_CONTENTDIGEST = (CCN_DTAG_ANY :: u64))"
    "is_dtag CCNL_DTAG_FRAG CCNL_DTAG_FRAG CCN_TT_DTAG" "is_dtag CCN_DTAG_CONTENTDIGEST CCN_DTAG_CONTENTDIGEST CCN_TT_DTAG"
    by (simp_all add: is_dtag_def)
  show ?thesis unfolding check_has_next_def
    by (simp only: 1 2 3 4 5 q bindE_simps option.case prod.case if_False if_True not_True_eq_False not_False_eq_True simp_thms option.map)
qed

lemma piece_read: "length d \<le> 2024 \<Longrightarrow> at_pos m 0 (piece_enc lst d) \<Longrightarrow> check_has_next junk m (0, length (piece_enc lst d)) = Inr (\<not> lst, Some d)"
  using piece_read_last piece_read_first by (cases lst) simp_all

section \<open>A registration from end to end\<close>

lemma length_dec_digits: "n < 10 ^ k \<Longrightarrow> 0 < k \<Longrightarrow> length (dec_digits n) \<le> k"
proof (induction k arbitrary: n)
  case (Suc k)
  show ?case
  proof (cases "n < 10")
    case False
    then have "0 < k" using Suc.prems by (cases k) simp_all
    then show ?thesis using Suc False by (subst dec_digits.simps) simp
  qed (subst dec_digits.simps, simp)
qed simp

lemma split_at_short: "t \<in> set (split_at x cs) \<Longrightarrow> length t \<le> length cs"
  by (induction cs arbitrary: t) (fastforce split: if_splits list.splits)+

lemma path_tokens_short: "t \<in> set (path_tokens path) \<Longrightarrow> length t \<le> length path"
  using split_at_short[of t "0x2f" "c_str path"] length_c_str[of path] by (auto simp: path_tokens_def)

lemma c_str_dec: "c_str (dec_digits n) = dec_digits n"
proof (rule c_str_id)
  have "(of_nat (0x30 + k) :: byte) \<noteq> 0" if "k < 10" for k
  proof -
    have "\<not> 2 ^ 8 dvd 0x30 + k" using that by (intro nat_dvd_not_less) simp_all
    then show ?thesis by (simp add: word_of_nat_eq_0_iff del: of_nat_add)
  qed
  then show "0 \<notin> set (dec_digits n)" using dec_digits_chars by metis
qed

lemma suite_string:
  assumes "0 \<le> suite" "suite < 128"
  shows "suite_char (c_str [of_int suite]) = suite" "uint (hd (c_str [of_int suite] @ [0 :: byte])) = suite"
proof -
  have h: "hd (c_str [of_int suite :: byte] @ [0]) = of_int suite" by (simp add: c_str_def)
  have "suite mod 256 = suite" using assms by simp
  then show "uint (hd (c_str [of_int suite] @ [0 :: byte])) = suite" unfolding h by (simp add: uint_word_of_int)
  have "sint (of_int suite :: byte) = signed_take_bit 7 suite" by (simp add: sint_sbintrunc')
  also have "\<dots> = suite" using assms by (intro signed_take_bit_int_eq_self) simp_all
  finally show "suite_char (c_str [of_int suite]) = suite" unfolding suite_char_def h .
qed

text \<open>How long a reply is.\<close>

lemma answer_length:
  assumes "length cp \<le> 30" and "length nm + length fid \<le> 1700" and "length s \<le> 10" and "length cmd \<le> 30"
  shows "length (reg_answer cp nm fid s) \<le> 1780" and "length (msg_enc cmd (reg_answer cp nm fid s)) < 2000"
proof -
  show a: "length (reg_answer cp nm fid s) \<le> 1780"
    using assms(1-3) length_tags length_elem[of CCN_DTAG_ACTION cp] length_elem[of CCN_DTAG_NAME nm] length_elem[of CCN_DTAG_FACEID fid]
      length_elem[of CCNL_DTAG_SUITE s] by (simp add: reg_answer_def)
  have "length (lit ''ccnx'') = 4" by (simp add: lit_def)
  then show "length (msg_enc cmd (reg_answer cp nm fid s)) < 2000"
    using a assms(4) length_tags length_elem[of CCN_DTAG_COMPONENT "lit ''ccnx''"] length_elem[of CCN_DTAG_COMPONENT "[]"]
      length_elem[of CCN_DTAG_COMPONENT cmd] length_elem[of CCN_DTAG_CONTENT "reg_answer cp nm fid s"] by (simp add: msg_enc_def)
qed

lemma registered_wf: "live True f r \<Longrightarrow> g \<in> face_ids r \<Longrightarrow> live True f (registered suite cs g r)"
  by (auto simp: registered_def live_def relay_wf_def faces_wf_def ifs_wf_def pit_wf_def fib_wf_def cs_wf_def nonces_wf_def
      all_out_def face_ids_def out_faces_def)

lemma find_face: "g \<in> face_ids r \<Longrightarrow> face_by_id r (int g) = Some g"
  by (cases "find (\<lambda>x. f_faceid x = g) (rl_faces r)") (auto simp: face_by_id_def face_ids_def find_None_iff find_Some_iff)

text \<open>The statement, the fields and the reply of a registration.\<close>

abbreviation reg_stmt :: "bytes list \<Rightarrow> faceref \<Rightarrow> int \<Rightarrow> bytes" where
  "reg_stmt names g suite \<equiv> ccnb_head CCN_DTAG_FWDINGENTRY CCN_TT_DTAG @ reg_rest (lit ''prefixreg'') names (dec_digits g) (c_str [of_int suite])"

abbreviation reg_fields :: "faceref \<Rightarrow> int \<Rightarrow> fields" where
  "reg_fields g suite \<equiv> [CCN_DTAG_ACTION \<mapsto> lit ''prefixreg'', CCN_DTAG_FACEID \<mapsto> dec_digits g, CCNL_DTAG_SUITE \<mapsto> c_str [of_int suite]]"

abbreviation reg_msg :: "bytes \<Rightarrow> faceref \<Rightarrow> int \<Rightarrow> bytes" where
  "reg_msg nm g suite \<equiv>
    msg_enc (lit ''prefixreg'') (reg_answer (lit ''prefixreg cmd worked'') (c_str nm) (dec_digits g) (dec_digits (nat suite)))"

lemma c_str_reg: "c_str (reg_cmd True) = lit ''prefixreg''" "c_str (lit ''prefixreg cmd worked'') = lit ''prefixreg cmd worked''"
  "c_str (lit ''prefixreg'') = lit ''prefixreg''"
  by code_simp+

lemma stmt_length: "length (reg_rest (lit ''prefixreg'') names (dec_digits g) (c_str [of_int suite])) \<le> 1890 \<Longrightarrow> length (reg_stmt names g suite) \<le> 1893"
  using length_ccnb_head[of CCN_DTAG_FWDINGENTRY 2 CCN_TT_DTAG] by simp

lemma request_short: "length st \<le> 1893 \<Longrightarrow> short (frame_enc [lit ''ccnx'', [], lit ''prefixreg'', obj_enc st])"
proof -
  assume st: "length st \<le> 1893"
  have o: "length (obj_enc st) \<le> 1910" using length_elem[of CCN_DTAG_CONTENT st] st length_tags by (simp add: obj_enc_def)
  have "length (ccnb_elem CCN_DTAG_COMPONENT c) \<le> 2000" if "c \<in> {lit ''ccnx'', [], lit ''prefixreg'', obj_enc st}" for c
    using that o length_elem[of CCN_DTAG_COMPONENT c] by (auto simp: lit_def)
  from this[of "lit ''ccnx''"] this[of "[]"] this[of "lit ''prefixreg''"] this[of "obj_enc st"] length_tags show ?thesis
    by (simp add: frame_enc_def)
qed

lemma reg_frame:
  assumes "length buf = CCNL_MAX_PACKET_SIZE" and "length path < 65536" and names: "names = map (ctrl_component suite) (path_tokens path)"
    and short: "length (reg_rest (lit ''prefixreg'') names (dec_digits g) (c_str [of_int suite])) \<le> 1890"
  shows "\<exists>n out. mkPrefixregRequest CCNL_MAX_PACKET_SIZE True path (dec_digits g) suite (0, buf) = Inr (n, out)
    \<and> take n out = frame_enc [lit ''ccnx'', [], lit ''prefixreg'', obj_enc (reg_stmt names g suite)] \<and> n = length (take n out)"
proof -
  have toks: "\<forall>c\<in>set (path_tokens path). length c \<le> 65535" using path_tokens_short[of _ path] assms(2) by fastforce
  have st: "reg_stmt names g suite = ccnb_head CCN_DTAG_FWDINGENTRY CCN_TT_DTAG
      @ reg_rest (c_str (reg_cmd True)) (map (ctrl_component suite) (path_tokens path)) (c_str (dec_digits g)) (c_str [of_int suite])"
    unfolding names c_str_reg(1) c_str_dec ..
  have "length (reg_stmt names g suite) \<le> 1900" using stmt_length[OF short] by simp
  from reg_request[OF assms(1) toks st this, unfolded c_str_reg(1)] show ?thesis .
qed

lemma reg_reply:
  assumes suite: "0 \<le> suite" "suite < 128" and names: "names \<noteq> []" and g: "g < 2 ^ 31"
    and nm: "ccnl_prefix_to_path ((ccnl_prefix_new suite 0)\<lparr>pfx_comp := names\<rparr>) = Inr nm" "length nm \<le> 1690"
  shows "length (reg_msg nm g suite) < 2000"
    and "prefixreg_reply h env f (lit ''prefixreg cmd worked'') (reg_fields g suite) (Inr ((ccnl_prefix_new suite 0)\<lparr>pfx_comp := names\<rparr>)) r
      = mgmt_send h env f (Inr (reg_msg nm g suite)) r"
proof -
  let ?P = "(ccnl_prefix_new suite 0)\<lparr>pfx_comp := names\<rparr>"
  let ?a = "reg_answer (lit ''prefixreg cmd worked'') (c_str nm) (dec_digits g) (dec_digits (nat suite))"
  have ps: "prefix_string (mg_dump env) ?P = Inr (Some nm)"
    using nm(1) names by (simp add: prefix_string_def ccnl_prefix_to_path_def)
  have lg: "length (dec_digits g) \<le> 10" "length (dec_digits (nat suite)) \<le> 10"
    using g suite by (auto intro!: length_dec_digits)
  have lens: "length ?a \<le> 1780" "length (reg_msg nm g suite) < 2000"
    using answer_length[of "lit ''prefixreg cmd worked''" "c_str nm" "dec_digits g" "dec_digits (nat suite)" "lit ''prefixreg''"]
      lg nm(2) length_c_str[of nm] by (simp_all add: lit_def)
  then show "length (reg_msg nm g suite) < 2000" by simp
  have q: "dec_str suite = dec_digits (nat suite)" using suite by (simp add: dec_str_def)
  obtain ob where ob: "prefixreg_stmt env (lit ''prefixreg cmd worked'') (Inr ?P) (dec_digits g) (Some (c_str [of_int suite])) = Inr ob" "written ob = ?a"
    using answer_statement[OF ps, of "lit ''prefixreg cmd worked''" "dec_digits g" "c_str [of_int suite]"] lens(1)
    unfolding suite_string(2)[OF suite] q c_str_dec c_str_reg(2) by auto
  have "mgmt_message (Some (lit ''prefixreg'')) (Inr ob) = Inr (reg_msg nm g suite)"
    using message_fits[of "lit ''prefixreg''" ob] lens(2) by (simp add: ob(2) c_str_reg(3))
  then show "prefixreg_reply h env f (lit ''prefixreg cmd worked'') (reg_fields g suite) (Inr ?P) r = mgmt_send h env f (Inr (reg_msg nm g suite)) r"
    using ob(1) by (simp add: prefixreg_reply_def)
qed

text \<open>What \<open>ccnl_mgmt\<close> does with the request.\<close>

lemma reg_manage:
  assumes suite: "0 \<le> suite" "suite < 128" and names: "names \<noteq> []" "length names \<le> CCNL_MAX_NAME_COMP"
    and short: "length (reg_rest (lit ''prefixreg'') names (dec_digits g) (c_str [of_int suite])) \<le> 1890"
    and nm: "ccnl_prefix_to_path ((ccnl_prefix_new suite 0)\<lparr>pfx_comp := names\<rparr>) = Inr nm" "length nm \<le> 1690"
    and g: "g \<in> face_ids r" "g < 2 ^ 31"
    and r: "relay_wf r" "all_out r" and f: "face_get r f = Inr fc" "ccnl_is_local_addr (Some (f_peer fc)) \<noteq> 0"
    and p: "pfx_comp p = [lit ''ccnx'', [], lit ''prefixreg'', obj_enc (reg_stmt names g suite)]"
  shows "\<exists>r'. mgmt_hook h env r orig p (Some f) = Inr (0, r') \<and> out_only (registered suite names g r) r'
    \<and> rl_tx r' = rl_tx r @ [(nat (f_ifndx fc), f_peer fc, piece_enc True (reg_msg nm g suite))]"
proof -
  let ?st = "reg_stmt names g suite" and ?R = "registered suite names g r"
  have fid: "strtol 0 (c_str (dec_digits g)) = (int g, False)" "face_by_id r (int g) = Some g"
    using g strtol_dec[of g] c_str_dec find_face[OF g(1)] by simp_all
  have open1: "ccnl_mgmt_prefixreg h env (obj_enc ?st @ mg_behind env) (length (obj_enc ?st)) f r
      = bindE (mgmt_send h env f (Inr (reg_msg nm g suite)) ?R) (\<lambda>(rc, r2). if rc \<noteq> 0 then Inl Uaf else Inr (rc, r2))"
    using prefixreg_read[of "obj_enc ?st @ mg_behind env" "lit ''prefixreg''" names "dec_digits g" "c_str [of_int suite]" "mg_behind env" "length (obj_enc ?st)" "int g" r g h env f]
      fid g(2) names stmt_length[OF short]
    by (simp only: suite_string(1)[OF suite] reg_reply(2)[OF suite names(1) g(2) nm]) simp
  have ff: "f \<in> face_ids r" using face_get_Inr[OF f(1)] by (auto simp: face_ids_def)
  have live: "live True f ?R" using registered_wf[OF _ g(1)] r ff by (simp add: live_def)
  then have "f \<in> out_faces ?R" by (auto simp: live_def all_out_def)
  then obtain r' where s: "mgmt_send h env f (Inr (reg_msg nm g suite)) ?R = Inr (0, r')" "out_only ?R r'"
    "rl_tx r' = rl_tx ?R @ tx_to ?R (piece_enc True (reg_msg nm g suite)) f"
    using send_one[of ?R f "reg_msg nm g suite" h env] live reg_reply(1)[OF suite names(1) g(2) nm] by (auto simp: live_def)
  have "ccnl_mgmt h env r orig p (Some f) = Inr (0, r')"
    using p f open1 s(1) c_str_reg(3) by (simp add: ccnl_mgmt_def ccnl_mgmt_handle_def mgmt_arg_def deref_def lit_def)
  moreover have "f \<in> face_ids r'" using out_only_live[OF s(2)] live by (simp add: live_def)
  moreover have "rl_tx r' = rl_tx r @ [(nat (f_ifndx fc), f_peer fc, piece_enc True (reg_msg nm g suite))]"
    using s(3) f(1) by (simp add: tx_to_def registered_def face_get_def)
  ultimately show ?thesis using s(2) by (simp add: mgmt_hook_def)
qed

text \<open>
  A request that the program composes for a path, as the relay takes it: the entry, one packet back, and the
  message in it.
\<close>

lemma registration:
  assumes buf: "length buf = CCNL_MAX_PACKET_SIZE" and path: "length path < 65536" and suite: "0 \<le> suite" "suite < 128"
    and names: "names = map (ctrl_component suite) (path_tokens path)" "names \<noteq> []" "length names \<le> CCNL_MAX_NAME_COMP"
    and short: "length (reg_rest (lit ''prefixreg'') names (dec_digits g) (c_str [of_int suite])) \<le> 1890"
    and nm: "ccnl_prefix_to_path ((ccnl_prefix_new suite 0)\<lparr>pfx_comp := names\<rparr>) = Inr nm" "length nm \<le> 1690"
    and g: "g \<in> face_ids r" "g < 2 ^ 31"
    and r: "relay_wf r" "all_out r" and f: "face_get r f = Inr fc" "ccnl_is_local_addr (Some (f_peer fc)) \<noteq> 0"
  shows "\<exists>n out r'. mkPrefixregRequest CCNL_MAX_PACKET_SIZE True path (dec_digits g) suite (0, buf) = Inr (n, out)
    \<and> ccnl_ccnb_forwarder (hooks_unset (mgmt_hook h env) digest behind) r (Some f) (take n out) (0, n) = Inr (r', Some (take n out, (n, 0)))
    \<and> out_only (registered suite names g r) r'
    \<and> rl_tx r' = rl_tx r @ [(nat (f_ifndx fc), f_peer fc, piece_enc True (reg_msg nm g suite))]
    \<and> length (reg_msg nm g suite) < 2000 \<and> n = length (take n out) \<and> 0 < n \<and> n < 2 ^ 46"
proof -
  let ?cs = "[lit ''ccnx'', [], lit ''prefixreg'', obj_enc (reg_stmt names g suite)]" and ?H = "hooks_unset (mgmt_hook h env) digest behind"
  obtain n out where n: "mkPrefixregRequest CCNL_MAX_PACKET_SIZE True path (dec_digits g) suite (0, buf) = Inr (n, out)"
    "take n out = frame_enc ?cs" "n = length (take n out)"
    using reg_frame[OF buf path names(1) short] by blast
  have fs: "short (frame_enc ?cs)" by (rule request_short[OF stmt_length[OF short]])
  then obtain p where p: "pfx_comp p = ?cs" "ccnl_ccnb_forwarder ?H r (Some f) (frame_enc ?cs) (0, length (frame_enc ?cs))
      = bindE (mgmt_hook h env r (frame_enc ?cs) p (Some f)) (\<lambda>(rc, r1). Inr (r1, Some (frame_enc ?cs, (length (frame_enc ?cs), 0))))"
    using forward_request[of ?cs ?H r "Some f"] by (auto simp: hooks_unset_def)
  obtain r' where r': "mgmt_hook h env r (frame_enc ?cs) p (Some f) = Inr (0, r')" "out_only (registered suite names g r) r'"
    "rl_tx r' = rl_tx r @ [(nat (f_ifndx fc), f_peer fc, piece_enc True (reg_msg nm g suite))]"
    using reg_manage[OF suite names(2,3) short nm g r f p(1)] by blast
  have "ccnl_ccnb_forwarder ?H r (Some f) (take n out) (0, n) = Inr (r', Some (take n out, (n, 0)))"
    using p(2) r'(1) n(2,3) by simp
  moreover have "0 < n" "n < 2 ^ 46" using fs n(2,3) by (simp_all add: frame_enc_def interest_head)
  ultimately show ?thesis using n(1,3) r'(2,3) reg_reply(1)[OF suite names(2) g(2) nm] by blast
qed

end
