(* ===== verification/Ctrl_Session.thy ===== *)
theory Ctrl_Session
  imports Ctrl_Props
begin

text \<open>
  Sessions of the control program with the relay: a registration from the command line to the printed
  confirmation, a reply of more than one piece, and two commands that cannot succeed.
\<close>

section \<open>What is received\<close>

lemma rx_piece:
  assumes "length d \<le> 2024"
  shows "rx_len (piece_enc lst d) = length (piece_enc lst d)" and "at_pos (rx_mem (piece_enc lst d)) 0 (piece_enc lst d)"
proof -
  have "length (piece_enc lst d) \<le> CCNL_MAX_PACKET_SIZE" using piece_fits(2)[OF assms, of lst] by simp
  then show "rx_len (piece_enc lst d) = length (piece_enc lst d)" "at_pos (rx_mem (piece_enc lst d)) 0 (piece_enc lst d)"
    by (simp_all add: rx_len_def rx_mem_def at_pos_def)
qed

lemma exchange_piece:
  assumes d: "length d \<le> 2024" and len: "len \<le> length out"
  shows "ctrl_exchange env False out len (Some (piece_enc lst d) # rx) = ctrl_segments env (\<not> lst) 1 0 d rx [take len out]"
  using len piece_read[OF d rx_piece(2)[OF d], where junk = "ce_marker env"] by (simp add: ctrl_exchange_def rx_piece(1)[OF d])

lemma exchange_last:
  assumes "length d \<le> 2024" and "len \<le> length out"
  shows "ctrl_exchange env False out len (Some (piece_enc True d) # rx) = Inr ([take len out], Got d rx)"
  unfolding exchange_piece[OF assms] by (simp add: ctrl_segments.simps)

lemma print_fits: "ctrl_print rb = Inr (ccnb_head CCN_DTAG_CONTENTOBJ CCN_TT_DTAG @ rb @ [0, 10])"
proof -
  let ?C = "ccnb_head CCN_DTAG_CONTENTOBJ CCN_TT_DTAG" and ?z = "zeroed (length rb + 1000)"
  have C: "length ?C \<le> 3" by (rule length_tags)
  have 1: "ccnl_ccnb_mkHeader (length rb + 1000) CCN_DTAG_CONTENTOBJ CCN_TT_DTAG ?z = Inr (put_at ?C ?z)"
    using C by (intro mk_head.fits) simp_all
  have l: "fst ?z + length (?C @ rb @ [0]) \<le> length (snd ?z)" using C by simp
  have 2: "bindE (put_fwd rb (put_at ?C ?z)) (put_fwd [0]) = Inr (put_at (?C @ rb @ [0]) ?z)"
    unfolding put_fwd_twice using C put_at_append[OF l] length_put_at[of ?z ?C] by (simp add: put_fwd_eq)
  have "ctrl_print rb = bindE (bindE (put_fwd rb (put_at ?C ?z)) (put_fwd [0])) (\<lambda>ob3. Inr (written ob3 @ [10]))"
    unfolding ctrl_print_def 1 bindE_simps by (simp add: bindE_assoc del: put_fwd_twice)
  then show ?thesis unfolding 2 using written_put_at[OF l] by simp
qed

lemma main_last:
  assumes cmd: "ctrl_command env args = Some (Inr (n, out))" "args \<noteq> []" "hd args \<noteq> lit ''addContentToCache''"
    and n: "0 < n" "n \<le> length out" "n < 2 ^ 64" "ce_len env = 0" and d: "length d \<le> 2024"
  shows "ctrl_main env False False args (Some (piece_enc True d) # rx)
    = Inr ([take n out], ccnb_head CCN_DTAG_CONTENTOBJ CCN_TT_DTAG @ d @ [0, 10], Exited 0)"
  using cmd n exchange_last[OF d n(2), of env rx] print_fits[of d] by (simp add: ctrl_main_def Let_def)

section \<open>Registration\<close>

lemma char_byte: "char_of (unat (of_char c :: byte)) = c"
proof -
  have "unat (of_char c :: byte) = of_char c mod 256"
    by (simp only: of_nat_of_char[symmetric, where 'a = byte] unat_of_nat) simp
  then show ?thesis by simp
qed

lemma lit_chars: "map (\<lambda>c. char_of (unat c)) (lit s) = s"
  by (simp add: lit_def char_byte comp_def)

lemma lit_eq_iff: "lit s = lit t \<longleftrightarrow> s = t"
  using lit_chars by metis

lemma arg_suite_inverse: "ccnl_isSuite s \<Longrightarrow> arg_suite (lit (ccnl_suite2str s)) = s"
  unfolding arg_suite_def lit_chars by (rule suite_name_inverse)

lemma prefixreg_command:
  "ccnl_isSuite suite \<Longrightarrow> ctrl_command env [lit ''prefixreg'', path, fid, lit (ccnl_suite2str suite)]
    = Some (mkPrefixregRequest CCNL_MAX_PACKET_SIZE True path fid suite (0, ce_out env))"
  using arg_suite_inverse by (simp add: ctrl_command_def Let_def reg_suite_def lit_eq_iff)


text \<open>A relay with a local client and one other face.\<close>

definition local_relay :: relay where
  "local_relay = remote_relay\<lparr>rl_faces := [face_of 1 0 (Su_unix (lit ''/tmp/c'')), face_of 2 0 (Su_ip4 20 1000)]\<rparr>"

definition sample_env :: "bytes option \<Rightarrow> ctrl_env" where
  "sample_env file = \<lparr>ce_out = replicate CCNL_MAX_PACKET_SIZE 0, ce_len = 0, ce_outend = 0, ce_interest = (\<lambda>_. replicate 100 0),
     ce_marker = replicate 5 0, ce_files = (\<lambda>_. file)\<rparr>"

lemma local_faces [simp]: "face_ids local_relay = {1, 2}" "out_faces local_relay = {1, 2}"
  unfolding face_ids_def out_faces_def set_filter[symmetric] local_relay_def by simp_all

lemma local_wf: "relay_wf local_relay" "all_out local_relay"
  using remote_wf local_faces remote_faces
  by (simp_all add: local_relay_def relay_wf_def faces_wf_def pit_wf_def fib_wf_def cs_wf_def nonces_wf_def ifs_wf_def all_out_def remote_relay_def)


section \<open>Replies of more than one piece\<close>

lemma send_first:
  assumes wf: "relay_wf r" and f: "f \<in> out_faces r" and long: "2024 \<le> length msg"
  shows "\<exists>r'. mgmt_send h env f (Inr msg) r = Inr (-1, r') \<and> out_only r r' \<and> rl_tx r' = rl_tx r @ tx_to r (piece_enc False (take 2024 msg)) f"
proof -
  define k where "k = length msg div 2024 - 1"
  have "1 \<le> length msg div 2024" using div_le_mono[OF long, of 2024] by simp
  then have k: "length msg div 2024 + 1 = k + 2" by (simp add: k_def)
  have its: "[0..<k + 2] = 0 # 1 # [2..<k + 2]" by (simp add: upt_rec numeral_2_eq_2)
  obtain p0 where p0: "split_packet False (take 2024 msg) = Inr p0" "split_object p0 = Inr (piece_enc False (take 2024 msg))"
    using piece_fits(1)[of "take 2024 msg" False] by auto
  obtain p1 where p1: "split_packet (1 = k + 2 - 1) (take 2024 (drop 2024 msg)) = Inr p1"
    "split_object p1 = Inr (piece_enc (1 = k + 2 - 1) (take 2024 (drop 2024 msg)))"
    using piece_fits(1)[of "take 2024 (drop 2024 msg)" "1 = k + 2 - 1"] by auto
  have e: "ccnl_face_enqueue f (Some b) r = ccnl_send_pkt f (pkt_zero\<lparr>pkt_buf := Some b\<rparr>) r" for b
    by (simp add: ccnl_send_pkt_def)
  obtain r' where r: "ccnl_face_enqueue f (Some (piece_enc False (take 2024 msg))) r = Inr (0, r')" "out_only r r'"
    "rl_tx r' = rl_tx r @ tx_to r (piece_enc False (take 2024 msg)) f"
    using send_wf[OF wf f, of "pkt_zero\<lparr>pkt_buf := Some (piece_enc False (take 2024 msg))\<rparr>" "piece_enc False (take 2024 msg)"] e by auto
  have 1: "split_loop h tmp f (k + 2) msg (1 # its) r' = Inr (1, r')" for tmp its
    by (simp only: split_loop.simps, simp only: mult_1 p1 or_bail_def sum.case) (simp add: ccnb_simple_content Let_def)
  have 2: "split_loop h tmp f (k + 2) msg (0 # 1 # its) r = Inr (1, r')" for tmp its
  proof -
    have z: "(0 = k + 2 - 1) = False" by simp
    show ?thesis
      by (subst split_loop.simps, simp only: z mult_zero_left drop_0 p0 or_bail_def sum.case if_True simp_thms r(1) bindE_simps prod.case 1)
  qed
  have "mgmt_send h env f (Inr msg) r = Inr (-1, r')"
    unfolding mgmt_send_def ccnl_mgmt_send_return_split_def Let_def k its sum.case by (simp only: 2 bindE_simps prod.case) simp
  then show ?thesis using r by blast
qed

text \<open>The Interest for the next piece.\<close>

lemma next_interest:
  assumes "length m = 100"
  shows "\<exists>n frame. make_next_seg_debug_interest 1 100 (0, m) = Inr (n, frame) \<and> n \<le> 100
    \<and> take n frame = frame_enc [lit ''mgmt'', lit ''seqnum-1'']"
proof -
  have l: "lit ''seqnum-'' @ dec_str (int 1) = lit ''seqnum-1''" "c_str (lit ''seqnum-1'') = lit ''seqnum-1''"
    "c_str (lit ''mgmt'') = lit ''mgmt''" by code_simp+
  have a: "appender (\<lambda>n ob. bindE (bindE (ctrl_head n ob) (mk_str n CCN_DTAG_COMPONENT (Some (lit ''mgmt''))))
      (mk_str n CCN_DTAG_COMPONENT (Some (lit ''seqnum-1''))))
      (((ccnb_head CCN_DTAG_INTEREST CCN_TT_DTAG @ ccnb_head CCN_DTAG_NAME CCN_TT_DTAG) @ ccnb_elem CCN_DTAG_COMPONENT (c_str (lit ''mgmt'')))
        @ ccnb_elem CCN_DTAG_COMPONENT (c_str (lit ''seqnum-1'')))"
    by (intro appender_then ctrl_head_appender mk_string.appender_axioms)
  let ?e = "((ccnb_head CCN_DTAG_INTEREST CCN_TT_DTAG @ ccnb_head CCN_DTAG_NAME CCN_TT_DTAG) @ ccnb_elem CCN_DTAG_COMPONENT (c_str (lit ''mgmt'')))
        @ ccnb_elem CCN_DTAG_COMPONENT (c_str (lit ''seqnum-1''))"
  have le: "length ?e \<le> 50" unfolding l using length_tags length_elem[of CCN_DTAG_COMPONENT "lit ''mgmt''"]
      length_elem[of CCN_DTAG_COMPONENT "lit ''seqnum-1''"] by (simp add: lit_def)
  have f: "bindE (bindE (ctrl_head 100 (0, m)) (mk_str 100 CCN_DTAG_COMPONENT (Some (lit ''mgmt''))))
      (mk_str 100 CCN_DTAG_COMPONENT (Some (lit ''seqnum-1''))) = Inr (put_at ?e (0, m))"
    using appender.fits[OF a, of "(0, m)" 100] le assms by simp
  have "make_next_seg_debug_interest 1 100 (0, m) = bindE (Inr (put_at ?e (0, m))) (\<lambda>ob3. if fst ob3 + 2 \<ge> 100 then Inl Fail else put_fwd [0, 0] ob3)"
    unfolding f[symmetric] make_next_seg_debug_interest_def l(1) by (simp add: bindE_assoc)
  also have "\<dots> = Inr (put_at (?e @ [0, 0]) (0, m))"
    using le assms length_put_at[of "(0, m)" ?e] put_at_append[of "(0, m)" ?e "[0, 0]"] by (simp add: put_fwd_eq)
  finally have r: "make_next_seg_debug_interest 1 100 (0, m) = Inr (put_at (?e @ [0, 0]) (0, m))" .
  have "?e @ [0, 0] = frame_enc [lit ''mgmt'', lit ''seqnum-1'']" unfolding l by (simp add: frame_enc_def)
  moreover have "length (?e @ [0, 0]) \<le> 100" using le by simp
  ultimately show ?thesis using r by (simp add: put_at_def)
qed

text \<open>
  C39. A reply of 2024 bytes or more is lost. Of such a message the relay sends the first 2024 bytes and then
  gives up, because no content can be made for the next piece; the return code is -1. The control program, given that piece,
  asks for the next one with an Interest for \<open>/mgmt/seqnum-1\<close> and waits; nothing is printed.
\<close>

theorem long_reply_stalls:
  assumes r: "relay_wf r" "f \<in> out_faces r" and long: "2024 \<le> length msg"
    and cmd: "ctrl_command cenv args = Some (Inr (n, out))" "args \<noteq> []" and n: "0 < n" "n \<le> length out" "n < 2 ^ 64"
    and env: "ce_len cenv = 0" "length (ce_interest cenv 1) = 100"
  shows "\<exists>r' packet. mgmt_send h env f (Inr msg) r = Inr (-1, r') \<and> out_only r r' \<and> rl_tx r' = rl_tx r @ tx_to r packet f
    \<and> ctrl_main cenv False False args [Some packet]
        = Inr ([take n out, frame_enc [lit ''mgmt'', lit ''seqnum-1'']], [], Waiting)"
proof -
  let ?d = "take 2024 msg"
  have d: "length ?d \<le> 2024" by simp
  obtain k i where i: "make_next_seg_debug_interest 1 100 (0, ce_interest cenv 1) = Inr (k, i)" "k \<le> 100"
    "take k i = frame_enc [lit ''mgmt'', lit ''seqnum-1'']"
    using next_interest[OF env(2)] by blast
  have "ctrl_exchange cenv False out n [Some (piece_enc False ?d)]
      = Inr ([take n out, frame_enc [lit ''mgmt'', lit ''seqnum-1'']], Over Waiting)"
    unfolding exchange_piece[OF d n(2)] using i by (simp add: ctrl_segments.simps Let_def)
  then have "ctrl_main cenv False False args [Some (piece_enc False ?d)]
      = Inr ([take n out, frame_enc [lit ''mgmt'', lit ''seqnum-1'']], [], Waiting)"
    using cmd n env(1) by (simp add: ctrl_main_def Let_def)
  then show ?thesis using send_first[OF r long, of h env] by blast
qed

lemma close_length: "ctrl_close outlen n1 out comps obj = Inr out' \<Longrightarrow> 0 < fst out' \<and> fst out' < outlen"
proof -
  assume "ctrl_close outlen n1 out comps obj = Inr out'"
  then obtain ob1 where o: "\<not> fst out + fst ob1 + 2 \<ge> outlen" "put_fwd (written ob1 @ [0, 0]) out = Inr out'"
    by (auto simp: ctrl_close_def bindE_eq_Inr_iff split: if_splits)
  have "length (written ob1) \<le> fst ob1" by (simp add: written_def)
  then show ?thesis using o by (auto simp: put_fwd_eq split: if_splits)
qed

lemma request_length: "ctrl_request outlen out cmd stmt endtag = Inr (n, frame) \<Longrightarrow> 0 < n \<and> n < outlen"
  unfolding ctrl_request_def bindE_eq_Inr_iff using close_length by fastforce

lemma prefixreg_length: "mkPrefixregRequest outlen reg path fid suite out = Inr (n, frame) \<Longrightarrow> 0 < n \<and> n < outlen"
  unfolding mkPrefixregRequest_def by (rule request_length)

theorem long_reply_stalls_witness:
  "\<forall>h env. \<exists>n out r' packet. mgmt_send h env 1 (Inr (replicate 2024 0)) remote_relay = Inr (-1, r') \<and> out_only remote_relay r'
    \<and> rl_tx r' = rl_tx remote_relay @ tx_to remote_relay packet 1
    \<and> ctrl_main (sample_env None) False False [lit ''prefixreg'', lit ''/a/b'', dec_digits 2, lit (ccnl_suite2str CCNL_SUITE_NDNTLV)] [Some packet]
        = Inr ([take n out, frame_enc [lit ''mgmt'', lit ''seqnum-1'']], [], Waiting)"
proof (intro allI)
  fix h env
  let ?args = "[lit ''prefixreg'', lit ''/a/b'', dec_digits 2, lit (ccnl_suite2str CCNL_SUITE_NDNTLV)]" and ?e = "sample_env None"
  let ?st = "ccnb_head CCN_DTAG_FWDINGENTRY CCN_TT_DTAG @ reg_rest (c_str (reg_cmd True))
    (map (ctrl_component CCNL_SUITE_NDNTLV) (path_tokens (lit ''/a/b''))) (c_str (dec_digits 2)) (c_str [of_int CCNL_SUITE_NDNTLV])"
  have st: "length ?st \<le> 1900" "\<forall>c\<in>set (path_tokens (lit ''/a/b'')). length c \<le> 65535" by code_simp+
  have buf: "length (ce_out ?e) = CCNL_MAX_PACKET_SIZE" by (simp add: sample_env_def)
  obtain n out where n: "mkPrefixregRequest CCNL_MAX_PACKET_SIZE True (lit ''/a/b'') (dec_digits 2) CCNL_SUITE_NDNTLV (0, ce_out ?e) = Inr (n, out)"
    "take n out = frame_enc [lit ''ccnx'', [], c_str (reg_cmd True), obj_enc ?st]" "n = length (take n out)"
    using reg_request[OF buf st(2) refl st(1)] by blast
  have l: "0 < n \<and> n < CCNL_MAX_PACKET_SIZE" by (rule prefixreg_length[OF n(1)])
  have "n \<le> length out" using n(3) by (metis length_take min.cobounded1)
  moreover have "0 < n" "n < 2 ^ 64" using l by simp_all
  moreover have "ctrl_command ?e ?args = Some (Inr (n, out))" using prefixreg_command n(1) by (simp add: ccnl_isSuite_def)
  moreover have "relay_wf remote_relay" "1 \<in> out_faces remote_relay" "2024 \<le> length (replicate 2024 (0 :: byte))" by (simp_all add: remote_wf)
  moreover have "ce_len ?e = 0" "length (ce_interest ?e 1) = 100" "?args \<noteq> []" by (simp_all add: sample_env_def)
  ultimately have "\<exists>r' packet. mgmt_send h env 1 (Inr (replicate 2024 0)) remote_relay = Inr (-1, r') \<and> out_only remote_relay r'
    \<and> rl_tx r' = rl_tx remote_relay @ tx_to remote_relay packet 1
    \<and> ctrl_main ?e False False ?args [Some packet] = Inr ([take n out, frame_enc [lit ''mgmt'', lit ''seqnum-1'']], [], Waiting)"
    by (intro long_reply_stalls) simp_all
  then show "\<exists>n out r' packet. mgmt_send h env 1 (Inr (replicate 2024 0)) remote_relay = Inr (-1, r') \<and> out_only remote_relay r'
    \<and> rl_tx r' = rl_tx remote_relay @ tx_to remote_relay packet 1
    \<and> ctrl_main ?e False False ?args [Some packet] = Inr ([take n out, frame_enc [lit ''mgmt'', lit ''seqnum-1'']], [], Waiting)"
    by blast
qed

section \<open>Commands that cannot succeed\<close>

lemma reg_suite_real: "reg_suite True args i = Some s \<Longrightarrow> (of_int s :: byte) \<noteq> 0"
  by (auto simp: reg_suite_def ccnl_isSuite_def split: if_splits)

lemma echo_fails:
  assumes "(of_int suite :: byte) \<noteq> 0"
  shows "mkEchoserverRequest outend outlen path suite out \<noteq> Inr x"
proof
  assume "mkEchoserverRequest outend outlen path suite out = Inr x"
  then obtain s where "suite_str1 suite = Inr s" unfolding mkEchoserverRequest_def bindE_eq_Inr_iff by blast
  then show False using assms by (simp add: suite_str1_def)
qed

text \<open>
  No request for an echo server is ever composed: the string of the suite that the program measures has no
  end. Whatever the arguments and the replies, nothing is sent or printed, and the program does not end with code 0.
\<close>

theorem echoserver_never_sent:
  "ctrl_command env (lit ''echoserver'' # args) \<noteq> Some (Inr (n, out)) \<and>
    (case ctrl_main env use_udp msgOnly (lit ''echoserver'' # args) rx of
        Inl e \<Rightarrow> e \<noteq> Fail
      | Inr (sent, shown, fin) \<Rightarrow> sent = [] \<and> shown = [] \<and> fin \<in> {Exited 1, Exited (-1)})"
proof -
  have c: "ctrl_command env (lit ''echoserver'' # args) = None
      \<or> (\<exists>s p. (of_int s :: byte) \<noteq> 0 \<and> ctrl_command env (lit ''echoserver'' # args)
            = Some (mkEchoserverRequest (ce_outend env) CCNL_MAX_PACKET_SIZE p s (0, ce_out env)))"
    using reg_suite_real[of "lit ''echoserver'' # args" 2]
    by (auto simp: ctrl_command_def Let_def lit_eq_iff split: option.split)
  then have n: "ctrl_command env (lit ''echoserver'' # args) \<noteq> Some (Inr x)" for x using echo_fails by fastforce
  show ?thesis
  proof (cases "ctrl_command env (lit ''echoserver'' # args)")
    case None
    then show ?thesis by (simp add: ctrl_main_def)
  next
    case (Some y)
    then obtain e where "y = Inl e" using n by (cases y) auto
    then show ?thesis using Some by (simp add: ctrl_main_def)
  qed
qed

lemma segments_over: "ctrl_segments env again num len2 rb rx sent = Inr (sent', Over e) \<Longrightarrow> e \<in> {Waiting, Exited (-1)}"
proof (induction rx arbitrary: again num len2 rb sent)
  case Nil
  then show ?case by (subst (asm) ctrl_segments.simps) (auto simp: Let_def split: if_splits sum.splits)
next
  case (Cons d rx)
  show ?case
  proof (cases d)
    case None
    then show ?thesis using Cons.prems by (subst (asm) ctrl_segments.simps) (auto simp: Let_def split: if_splits sum.splits)
  next
    case (Some b)
    from Cons.prems show ?thesis unfolding Some
      by (subst (asm) ctrl_segments.simps) (auto simp: Let_def dest: Cons.IH split: if_splits sum.splits prod.splits)
  qed
qed

lemma exchange_over: "ctrl_exchange env use_udp out len rx = Inr (sent, Over e) \<Longrightarrow> e \<in> {Waiting, Exited (-1)}"
  by (auto simp: ctrl_exchange_def dest!: segments_over split: if_splits sum.splits list.splits option.splits)

lemma empty_file: "getPrefix [0] 0 = Inr (None, -1)"
  by code_simp

lemma add_request:
  assumes "mkAddToRelayCacheRequest outlen contents out = Inr ((n, frame), suite)"
  shows "\<exists>b. contents = Some b \<and> b \<noteq> [] \<and> 0 < n \<and> n < outlen"
proof -
  obtain b where b: "contents = Some b" using assms by (cases contents) (simp_all add: mkAddToRelayCacheRequest_def)
  obtain po su where po: "getPrefix (b @ [0]) (length b) = Inr (po, su)"
    using assms unfolding b mkAddToRelayCacheRequest_def option.case bindE_eq_Inr_iff by auto
  obtain p where p: "po = Some p" using assms po by (cases po) (simp_all add: b mkAddToRelayCacheRequest_def)
  have "b \<noteq> []" using po p empty_file by auto
  moreover have "\<exists>out1 comps obj. ctrl_close outlen 5000 out1 comps obj = Inr (n, frame)"
    using assms unfolding b mkAddToRelayCacheRequest_def option.case po bindE_simps prod.case p bindE_eq_Inr_iff by clarsimp blast
  ultimately show ?thesis using b close_length by fastforce
qed



end
