(* ===== verification/Spec2Isabelle.thy ===== *)
theory Spec2Isabelle
  imports Rpc_Props Ndntlv Relay_Props Table_Props Fwd_Props Ccntlv_Round Ccnb_Enc Events Sched Array Builder Relay_Main
    Mgmt_Props Frag_Props Ctrl_Session
begin

text \<open>
  A verification library for CCN-lite, a relay for information-centric networks: hosts ask for
  content by name with an Interest, the relay answers from its cache or passes the Interest on along
  its forwarding table, remembers who asked, and sends the Data that comes back to everybody who
  waits. The library models the C code under \<open>src/src\<close> in the default Unix build: the packet formats
  NDN TLV, CCNx TLV, CCNb and local RPC, the duplicate check, management and link-layer sockets are compiled in;
  the scheduler, signatures, named functions, echo and the application's receive hook are not. Fragmentation,
  which that build leaves out too, is modelled beside the relay.

  \<^bold>\<open>Parts and theories.\<close>
  \<^item> \<open>Prelude\<close>, \<open>Defs\<close>: bytes, words, checked memory access, \<open>size_t\<close> subtraction, the constants of
    \<open>ccnl-defs.h\<close>. A routine returns \<open>res\<close>: \<open>Inr\<close> its result or \<open>Inl\<close> what stopped it, \<open>Fail\<close> for the code's own
    error return, \<open>Oob\<close> for an access outside of an object, \<open>Null\<close> for a NULL pointer, \<open>Uaf\<close> for an object that
    is freed already, \<open>Diverge\<close> for a loop that does not end.
  \<^item> \<open>Prefix\<close> (\<open>ccnl-prefix.c\<close>): names, their comparison, URIs. \<open>Pkt\<close> (\<open>ccnl-pkt.c\<close>, \<open>ccnl-pkt-util.c\<close>,
    \<open>ccnl-pkt-switch.c\<close>): packets, suite numbers and the code that switches between them.
  \<^item> \<open>Outbuf\<close>: packets are composed from the end of a buffer backwards; the locale \<open>prepender\<close> is the
    contract of a routine that prepends a byte string, interpreted on each of the code's routines.
  \<^item> \<open>Ndntlv_Enc\<close>, \<open>Ndntlv_Wire\<close>, \<open>Ndntlv_Dec\<close>, \<open>Ndntlv_Round\<close>, \<open>Ndntlv\<close> (\<open>ccnl-pkt-ndntlv.c\<close>);
    \<open>Ccntlv_Enc\<close>, \<open>Ccntlv_Dec\<close>, \<open>Ccntlv_Round\<close> (\<open>ccnl-pkt-ccntlv.c\<close>);
    \<open>Ccnb_Enc\<close>, \<open>Ccnb_Dec\<close>, \<open>Ccnb_Inv\<close> (\<open>ccnl-pkt-ccnb.c\<close>); \<open>Rpc\<close>, \<open>Rpc_Round\<close> (\<open>ccnl-pkt-localrpc.c\<close>): composing and
    parsing packets, and that the two fit together.
  \<^item> \<open>Sockunion\<close> (\<open>ccnl-sockunion.c\<close>), \<open>Relay\<close> (the structures of \<open>ccnl-relay.h\<close>, \<open>ccnl-face.h\<close>, \<open>ccnl-if.h\<close>,
    \<open>ccnl-interest.h\<close>, \<open>ccnl-content.h\<close>, \<open>ccnl-forward.h\<close>, the callbacks, the queues of faces and interfaces), \<open>Tables\<close>
    (\<open>ccnl-relay.c\<close>, \<open>ccnl-interest.c\<close>, \<open>ccnl-content.c\<close>: pending interests, content store, forwarding table, nonces,
    ageing): the state of a relay is the record \<open>relay\<close>, every operation a function from relays to relays.
  \<^item> \<open>Fwd\<close> (\<open>ccnl-fwd.c\<close>), \<open>Rpc_Fwd\<close> (\<open>ccnl-localrpc.c\<close>), \<open>Dispatch\<close> (\<open>ccnl-dispatch.c\<close>): what an incoming
    frame does. The dispatcher finds the format of the frame, its forwarder parses a packet and hands it to the
    handler of Interests or of Data; local RPC calls builtin functions instead.
  \<^item> \<open>Relay_Inv\<close>, \<open>Relay_Ops\<close>, \<open>Relay_Out\<close>, \<open>Relay_Serve\<close>, \<open>Relay_Faces\<close>, \<open>Relay_Age\<close>, \<open>Relay_Tables\<close>: the invariant
    \<open>relay_wf\<close> and what each operation does to it and to the packets that leave. \<open>Fwd_Inv\<close>, \<open>Dispatch_Inv\<close>, \<open>Ccnb_Inv\<close>,
    \<open>Rpc_Inv\<close>: the same for incoming frames; the locale \<open>application\<close> states what the application's callbacks may do
    and is interpreted on a relay without any. \<open>Relay_System\<close>: the relay as a state machine.
  \<^item> \<open>Timer\<close>, \<open>Events\<close> (\<open>ccnl-os-time.c\<close> and the ageing of \<open>ccnl-unix.c\<close>): the queue of timers and the loop over those
    that are due. \<open>Sched\<close> (\<open>ccnl-sched.c\<close>), \<open>Array\<close> (\<open>ccnl-array.c\<close>), \<open>Builder\<close> (\<open>ccnl-pkt-builder.c\<close>): the schedulers,
    the growing array, and the packets an application makes.
  \<^item> \<open>Cstd\<close>: what management uses of the C library (numbers as text and back, \<open>inet_aton\<close>, strings in memory).
    \<open>Devices\<close> (\<open>ccnl-unix.c\<close>): opening sockets. \<open>Dump\<close> (\<open>ccnl-dump.c\<close>): the tables copied for a listing.
    \<open>Mgmt_Wire\<close>, \<open>Mgmt\<close>, \<open>Mgmt_Debug\<close> (\<open>ccnl-mgmt.c\<close>): the fields of a request and the messages of a reply, each command,
    and the dispatch of \<open>ccnl_mgmt\<close>. \<open>Mgmt_Ends\<close>: the parsers of requests end. \<open>Mgmt_Inv\<close>: every command keeps \<open>relay_wf\<close>, so that
    management satisfies what \<open>application\<close> asks of it, and the locale is interpreted on the relay with management. \<open>Mgmt_Props\<close>:
    what the commands do.
  \<^item> \<open>Unix\<close>, \<open>Unix_Inv\<close> (\<open>ccnl-unix.c\<close>): configuring the relay, filling the cache from a directory, the main loop.
    \<open>Relay_Main\<close> (\<open>ccn-lite-relay.c\<close>): the options and the life of the process, from the first option to the clean-up.
  \<^item> \<open>Frag\<close>, \<open>Frag_Props\<close> (\<open>ccnl-frag.c\<close> and the routines of the formats, the forwarder and the faces that \<open>USE_FRAG\<close>
    switches on): cutting packets and putting them together.
  \<^item> \<open>Ctrl\<close>, \<open>Ctrl_Main\<close> (\<open>ccn-lite-ctrl.c\<close>): the program that manages a relay, its requests, how it reads replies, and
    its \<open>main\<close>. \<open>Ctrl_Wire\<close>: requests are composed forward; the locale \<open>appender\<close> is the contract of a routine that appends
    a byte string, interpreted on each of the code's routines, and gives every request in closed form; what the readers find where
    these bytes stand. \<open>Ctrl_Read\<close>: the relay reads the statement of a registration. \<open>Ctrl_Props\<close>, \<open>Ctrl_Session\<close>: the
    control program and the relay together.
  \<^item> \<open>Relay_Props\<close>, \<open>Table_Props\<close>, \<open>Fwd_Props\<close>, \<open>Rpc_Props\<close> and this theory: the properties, on the relay of
    \<open>Samples\<close> where they need an example.

  \<^bold>\<open>How state corresponds to the code.\<close> A pointer to a face, an Interest or a content is a number, the key of
  the object in its table, so that a removed object is recognised when it is used again. Names and packets are
  values; a pointer into a packet's buffer is an offset. Lists are the code's linked lists in their order. What
  leaves on the network is the log \<open>rl_tx\<close> of the relay, what the application is handed the log \<open>rl_taps\<close>. Numbers keep the
  width they have in C; \<open>size_t\<close> values are natural numbers with \<open>wsub\<close> for a subtraction that may wrap.

  \<^bold>\<open>What the properties show.\<close> Packet formats: round trips, and where the code breaks them (number widths, the
  content position, lengths from 256 on in CCNx TLV, reads behind the packet). Tables: each operation in closed form,
  the forwarding table as a refinement of a map, faces removed without dangling references. Forwarding: each branch of
  the handlers of Interests and Data. System: every reachable relay satisfies the invariant, every frame is
  processed in finitely many rounds, and pending interests do not outlive eight rounds of ageing. Timers: the queue is a
  stable sort, and one pass over it ends and keeps the ageing going. Management: requests from elsewhere change
  nothing, a prefix registered is one entry more, and no IP peer is listed; with the control program, what is typed is
  what is entered, and replies of more than one piece are lost. Process: whatever the options, devices, frames and
  timers, the main loop keeps the invariant, and only memory faults stop it. Fragments: they are put together
  to packets that were sent and to no others, and the NDN ones cannot be.

  \<^bold>\<open>Fuel.\<close> The loop over a frame has fuel: \<open>rx_fuel n\<close> is \<open>2 * n + 2\<close> rounds for a frame of \<open>n\<close> bytes. Each round
  consumes at least a byte or settles the format of the bytes that follow, so the fuel is never used up (\<open>core_RX_terminates\<close>).
  So have one pass over the timers, one round more than there are timers (\<open>run_events_keeps_ageing\<close> and
  \<open>relay_main_safe\<close>: it suffices, since a timer that is served is set again for later), and the fragments a face sends, one
  round more than there are fragments (\<open>fragments_roundtrip\<close>; with an \<open>mtu\<close> of 13 no fuel suffices, the code does not end).
  The main loop runs as long as the world gives it rounds. The other loops are functions with a termination proof; loops
  that the code may run for ever end with \<open>Diverge\<close>.

  \<^bold>\<open>Parameters.\<close> \<open>hooks\<close> holds the callbacks the application may set, management (\<open>ccnl_mgmt\<close>) and the digest; \<open>rpc_env\<close>
  what local RPC takes from its surroundings (fresh memory, uninitialised variables, addresses, the time), \<open>mgmt_env\<close> and
  \<open>dump_env\<close> the same for management and its listings, \<open>oscalls\<close> the operating system's answers when sockets are opened,
  \<open>io_round\<close> what one \<open>select\<close> and the reads after it return, \<open>world\<close> all that a process is given, \<open>ctrl_env\<close> the
  memory and the files the control program finds. Memory
  allocation succeeds, the host is little-endian, and logging has no effect.

  \<^bold>\<open>Not modelled.\<close> The platforms other than Unix (\<open>ccnl-riot\<close>, \<open>ccnl-lnxkernel\<close>, \<open>ccnl-android\<close>, \<open>ccnl-arduino\<close>): their
  sockets, threads and system interfaces are not in the repository, and the relay behind them is the one modelled here. The
  simulator, which runs several relays in one process for tests. The command-line tools of \<open>ccnl-utils\<close> other than the
  control program, which compose packets with the routines modelled here and print what they receive. The printing of packets and tables on the
  console, logging, memory debugging and the HTTP status page, which change nothing. Cryptography, which calls a library.
  The fragmentation protocols and other code marked obsolete, and what the default build leaves out, apart from fragmentation.
\<close>

section \<open>Every reachable relay\<close>

text \<open>A relay whose application has not set any callback, at a host where nothing is known of the
  rest of the memory.\<close>

definition idle_hooks :: hooks where
  "idle_hooks = hooks_unset (\<lambda>r b p f. Inr (0, r)) (\<lambda>_. None) (\<lambda>_. [])"

definition idle_env :: rpc_env where
  "idle_env = \<lparr>rpc_junk = \<lambda>_. 0, rpc_addr = \<lambda>_. 0, rpc_mem = \<lambda>n. replicate n 0, rpc_time = []\<rparr>"

lemma idle_application: "application idle_hooks strict {}"
  unfolding idle_hooks_def by (rule unset.application_axioms)

lemma idle_no_producer [simp]: "hk_producer idle_hooks = None"
  by (simp add: idle_hooks_def hooks_unset_def)

lemma rx_doneD: "rx_done E False x \<Longrightarrow> (case x of Inl e \<Rightarrow> e \<in> E | Inr r' \<Rightarrow> relay_wf r')"
  by (cases x) (simp_all add: rx_done_def)

lemma empty_sample_wf: "relay_wf (sample_relay [] 0)"
  by (rule sample_wf) simp_all





text \<open>
  C32. An Interest without a name, two bytes long, makes every relay follow a NULL pointer, unless
  a local producer takes the packet first.
\<close>

theorem nameless_interest_crashes:
  assumes "relay_wf r" and "rx_source r ifndx sa" and "hk_producer h = None"
    and "data = [0x05, 0x00] @ rest" and "rest \<noteq> []"
  shows "ccnl_core_RX (ccnl_core_init env) h r ifndx data 2 sa = Inl Null"
proof -
  have hd: "ccnl_ndntlv_dehead data (0, 2) = Inr (Some (5, 0), (2, 0))"
    using assms(4) by (simp add: ccnl_ndntlv_dehead_def ccnl_ndntlv_varlenint_def Let_def)
  have fin: "ccnl_ndntlv_dehead data (2, 0) = Inr (None, (2, 0))"
    using assms(4,5) by (cases rest) (simp_all add: ccnl_ndntlv_dehead_def ccnl_ndntlv_varlenint_def Let_def)
  have sl: "slice data 0 2 = Inr [5, 0]" using assms(4) by (simp add: slice_def)
  obtain pk where pk: "ccnl_ndntlv_bytes2pkt 5 data (2, 0) = Inr (pk, (2, 0))" "pkt_pfx pk = None"
      "pkt_suite pk = CCNL_SUITE_NDNTLV" "nd_nonce (s_ndntlv pk) = None"
    using fin sl by (simp add: ccnl_ndntlv_bytes2pkt_def ndn_pkt_loop.simps ndn_parse_init_def s_ndntlv_def)
  have rx: "ccnl_ndntlv_forwarder h r2 (Some g) data (0, 2) = Inl Null" for r2 g
    using hd pk assms(3) by (simp add: ccnl_ndntlv_forwarder_def ccnl_fwd_handleInterest_def ccnl_nonce_isDup_def local_producer_def is_mgmt_def)
  have sw: "pkt2suite_loop data (0, 2) (-1) = Inr (-1, (0, 2))"
    using assms(4) by (simp add: pkt2suite_loop.simps ccnl_switch_dehead_def)
  have "ccnl_pkt2suite data 0 2 = Inr (CCNL_SUITE_NDNTLV, 0)"
    using assms(4) sw by (simp add: ccnl_pkt2suite_def)
  then have "rx_loop (Suc k) (ccnl_core_init env) h r2 g (-1) data (0, 2) = Inl Null" for k r2 g
    using sw rx by (simp add: ccnl_isSuite_def ccnl_core_init_def)
  moreover have "rx_fuel 2 = Suc 5" by (simp add: rx_fuel_def)
  ultimately have "rx_loop (rx_fuel 2) (ccnl_core_init env) h r2 g (-1) data (0, 2) = Inl Null" for r2 g by (simp only:)
  then show ?thesis using core_RX_loop[OF assms(1,2), of "ccnl_core_init env" h data 2] by metis
qed

theorem nameless_interest_crashes_witness:
  "ccnl_core_RX (ccnl_core_init idle_env) idle_hooks (sample_relay [] 0) 0 [5, 0, 0] 2 (Some (Su_ip4 7 7)) = Inl Null"
proof -
  have "rx_source (sample_relay [] 0) 0 (Some (Su_ip4 7 7))" by (simp add: rx_source_def)
  from nameless_interest_crashes[OF empty_sample_wf this idle_no_producer, of "[5, 0, 0]" "[0]" idle_env] show ?thesis by simp
qed

definition age_rounds :: "u32 list \<Rightarrow> relay \<Rightarrow> relay res" where
  "age_rounds ts r = foldl (\<lambda>x t. bindE x (\<lambda>r. ccnl_do_ageing (r\<lparr>rl_now := t\<rparr>))) (Inr r) ts"

lemma pit_without_retries: "i \<in> set (pit_without f is) \<Longrightarrow> \<exists>j\<in>set is. i_retries i = i_retries j"
  by (auto simp: pit_without_def drop_face_def)

lemma fold_pit_without_retries: "i \<in> set (fold pit_without fs is) \<Longrightarrow> \<exists>j\<in>set is. i_retries i = i_retries j"
proof (induction fs arbitrary: "is")
  case (Cons f fs)
  then show ?case using pit_without_retries[of _ f "is"] by fastforce
qed auto

lemma now_wf: "relay_wf r \<Longrightarrow> relay_wf (r\<lparr>rl_now := t\<rparr>)"
  by (simp add: relay_wf_defs face_ids_def out_faces_def)

lemma age_rounds_retries:
  assumes "relay_wf r"
  shows "\<exists>r'. age_rounds ts r = Inr r' \<and> relay_wf r' \<and> (\<forall>i\<in>set (rl_pit r'). length ts \<le> i_retries i \<and> (ts \<noteq> [] \<longrightarrow> i_retries i \<le> 7))"
proof (induction ts rule: rev_induct)
  case Nil
  then show ?case using assms by (simp add: age_rounds_def)
next
  case (snoc t ts)
  then obtain r1 where r1: "age_rounds ts r = Inr r1" "relay_wf r1" "\<forall>i\<in>set (rl_pit r1). length ts \<le> i_retries i" by blast
  let ?r = "r1\<lparr>rl_now := t\<rparr>"
  obtain r' where r': "ccnl_do_ageing ?r = Inr r'" "relay_wf r'"
    "rl_pit r' = fold pit_without (expired_faces ?r) (map retried (filter (interest_live t) (rl_pit r1)))"
    using do_ageing_wf[OF now_wf[OF r1(2), of t]] by auto
  have "length (ts @ [t]) \<le> i_retries i \<and> i_retries i \<le> 7" if i: "i \<in> set (rl_pit r')" for i
  proof -
    obtain j where "j \<in> set (rl_pit r1)" "interest_live t j" "i_retries i = i_retries (retried j)"
      using fold_pit_without_retries[OF i[unfolded r'(3)]] by auto
    then show ?thesis using r1(3) by (auto simp: retried_def interest_live_def)
  qed
  then show ?case using r1(1) r' by (simp add: age_rounds_def)
qed

text \<open>
  C27. An Interest that is never answered does not stay: each round of ageing sends it again or drops
  it, and after eight rounds the table of pending interests of any consistent relay is empty, whatever the
  clock shows in each of them.
\<close>

theorem pending_interests_expire:
  assumes "relay_wf r" and "length ts = 8"
  shows "\<exists>r'. age_rounds ts r = Inr r' \<and> relay_wf r' \<and> rl_pit r' = []"
proof -
  obtain r' where r': "age_rounds ts r = Inr r'" "relay_wf r'" "\<forall>i\<in>set (rl_pit r'). 8 \<le> i_retries i \<and> (ts \<noteq> [] \<longrightarrow> i_retries i \<le> 7)"
    using age_rounds_retries[OF assms(1), of ts] assms(2) by auto
  have "rl_pit r' = []"
  proof (rule ccontr)
    assume "rl_pit r' \<noteq> []"
    then have "hd (rl_pit r') \<in> set (rl_pit r')" by simp
    then show False using r'(3) assms(2) by fastforce
  qed
  then show ?thesis using r' by blast
qed

theorem pending_interests_expire_witness:
  "\<exists>r'. age_rounds [100, 101, 102, 103, 104, 105, 106, 107] (sample_relay [] 0) = Inr r' \<and> relay_wf r' \<and> rl_pit r' = []"
  by (rule pending_interests_expire[OF empty_sample_wf]) simp

section \<open>Hop limits\<close>

text \<open>
  C33. The hop limit on the way through the relay: a CCNx-TLV Interest as the composer writes it, with
  hop limit 1, is dropped; with any other one it is handled as an Interest, the byte in the
  packet's buffer one less. A hop limit of 0 is not dropped: it goes on as 255.
\<close>

theorem ccntlv_hop_limit:
  assumes "\<forall>d\<in>set ds. length d < 256" and "length ds \<le> CCNL_MAX_NAME_COMP"
    and "cs = map (ccnl_pkt_mkComponent CCNL_SUITE_CCNTLV) ds" and "n = length (ccntlv_interest cs)" and "n < 260"
  shows "ccnl_ccntlv_forwarder h r from1 (ccntlv_fixed CCNX_PT_Interest n hop @ ccntlv_interest cs) (0, 9 + n) =
    (let frame = ccntlv_fixed CCNX_PT_Interest n (hop - 1) @ ccntlv_interest cs in
     if hop = 1 then Inr (r, Some (frame, (9 + n, 0)))
     else bindE (ccnl_fwd_handleInterest h r from1 ((ccntlv_pkt frame cs 1 None)\<lparr>pkt_flags := CCNL_PKT_REQUEST\<rparr>) ccnl_ccntlv_cMatch)
       (\<lambda>(rc, r1). Inr (r1, if rc \<noteq> 0 then None else Some (frame, (9 + n, 0)))))"
proof -
  let ?frame = "ccntlv_fixed CCNX_PT_Interest n (hop - 1) @ ccntlv_interest cs"
  have hd: "ccnx_tlvhdr_at (ccntlv_fixed CCNX_PT_Interest n hop @ ccntlv_interest cs) 0
      = Inr \<lparr>hd_version = 1, hd_pkttype = CCNX_PT_Interest, hd_pktlen = 9 + n, hd_hoplimit = hop, hd_hdrlen = 9\<rparr>"
    using assms(4,5) by (intro fixed_read(1)) simp_all
  have up: "(ccntlv_fixed CCNX_PT_Interest n hop @ ccntlv_interest cs)[4 := hop - 1] = ?frame"
    by (simp add: ccntlv_fixed_def eval_nat_numeral)
  have "ccnl_ccntlv_bytes2pkt ?frame (9, n) = Inr (ccntlv_pkt ?frame cs 1 None, (9 + n, 0))"
    using interest_read[OF assms(1,2), of "ccntlv_fixed CCNX_PT_Interest n (hop - 1)"] assms(3-5) by simp
  then show ?thesis
    using up by (simp add: ccnl_ccntlv_forwarder_def hd Let_def ccntlv_deliver_def cong del: if_weak_cong) (auto simp: ccntlv_pkt_def)
qed

theorem ccntlv_hop_limit_witness:
  "ccnl_ccntlv_forwarder idle_hooks (sample_relay [] 0) (Some 1) ([1, 0, 0, 22, 1, 0, 0, 9, 0, 0, 1, 0, 9, 0, 0, 0, 5, 0, 1, 0, 1, 97]) (0, 22)
    = Inr (sample_relay [] 0, Some ([1, 0, 0, 22, 0, 0, 0, 9, 0, 0, 1, 0, 9, 0, 0, 0, 5, 0, 1, 0, 1, 97], (22, 0)))"
proof -
  have e: "ccntlv_interest [[0, 1, 0, 1, 97]] = [0, 1, 0, 9, 0, 0, 0, 5, 0, 1, 0, 1, 97]"
    by (simp add: ccntlv_interest_def ccntlv_name_def ccntlv_head_def)
  have b: "be_bytes 2 22 = [0, 22]" by code_simp
  have f: "ccntlv_fixed CCNX_PT_Interest 13 hop = [1, 0, 0, 22, hop, 0, 0, 9, 0]" for hop
    by (simp add: ccntlv_fixed_def b)
  have c: "[[0, 1, 0, 1, 97]] = map (ccnl_pkt_mkComponent CCNL_SUITE_CCNTLV) [[97]]" by code_simp
  show ?thesis
    using ccntlv_hop_limit[OF _ _ c, of 13 idle_hooks "sample_relay [] 0" "Some 1" 1] unfolding e f by (simp add: Let_def)
qed

end
